(* ===== verification/Cam_Prelude.thy ===== *)
theory Cam_Prelude
  imports Main "HOL-Library.Word"
begin

text \<open>
  Shared vocabulary of the development: the machine types of the driver, the error values its
  functions return, the kernel's bitmap primitives, and the two interfaces several components
  have in common.

  \<^item> \<open>u8\<close>, \<open>u16\<close>, \<open>u32\<close>, \<open>u64\<close> are the C unsigned integer types; arithmetic on them wraps.
    \<open>ptr\<close> is an address, 0 being \<^verbatim>\<open>NULL\<close>.
  \<^item> \<open>errno\<close> lists the error codes the sources return; a function that returns \<open>0\<close> or a
    negative code returns \<open>unit result\<close> here, one that returns a handle or a negative code
    returns that handle's type in \<open>result\<close>. The state is returned beside the result, because
    what a C function wrote before it failed stays written.
  \<^item> \<open>find_first_zero_bit\<close> is the kernel's bitmap search.
  \<^item> \<open>machine\<close> is the interface of a component as a state machine with an invariant,
    \<open>id_allocator\<close> the interface of a table that hands out indices, and \<open>handle_store\<close> the
    interface of a table of entries named by handles.
\<close>

unbundle bit_operations_syntax

type_synonym u8 = "8 word"
type_synonym u16 = "16 word"
type_synonym u32 = "32 word"
type_synonym u64 = "64 word"
type_synonym ptr = u64

datatype errno =
    EINVAL | ENOMEM | EALREADY | ENOENT | EFAULT | ENOIOCTLCMD | ETIMEDOUT | ENODEV | EIO
  | ENOSR | EEXIST | EAGAIN | EBADR | EPERM | EBUSY | ENOBUFS | EBADMSG | ENXIO | EACCES
  | ENOSPC | EBADE | EBADSLT | EPROTO | EBADRQC

type_synonym 'a result = "errno + 'a"

abbreviation Err :: "errno \<Rightarrow> 'a result" where
  "Err e \<equiv> Inl e"

abbreviation Ok :: "'a \<Rightarrow> 'a result" where
  "Ok x \<equiv> Inr x"

definition is_err :: "'a result \<Rightarrow> bool" where
  "is_err r = (case r of Inl _ \<Rightarrow> True | Inr _ \<Rightarrow> False)"

text \<open>The codes as the functions return them that pass on an \<open>int\<close>.\<close>

fun code :: "errno \<Rightarrow> int" where
  "code EPERM = -1" | "code ENOENT = -2" | "code EIO = -5" | "code ENXIO = -6" | "code EAGAIN = -11"
| "code ENOMEM = -12" | "code EACCES = -13" | "code EFAULT = -14" | "code EBUSY = -16" | "code EEXIST = -17"
| "code ENODEV = -19" | "code EINVAL = -22" | "code ENOSPC = -28" | "code EBADE = -52" | "code EBADR = -53"
| "code EBADRQC = -56" | "code EBADSLT = -57" | "code ENOSR = -63" | "code EPROTO = -71" | "code EBADMSG = -74"
| "code ENOBUFS = -105" | "code ETIMEDOUT = -110" | "code EALREADY = -114" | "code ENOIOCTLCMD = -515"

lemma code_neg [simp]: "code e < 0"
  by (cases e) simp_all

type_synonym bitmap = "nat \<Rightarrow> bool"

definition find_first_zero_bit :: "bitmap \<Rightarrow> nat \<Rightarrow> nat" where
  "find_first_zero_bit b n = (case find (\<lambda>i. \<not> b i) [0..<n] of None \<Rightarrow> n | Some i \<Rightarrow> i)"

named_theorems cam_defs \<open>definitions of the operations, unfolded together\<close>
named_theorems cam_inv \<open>preservation of invariants\<close>

subsection \<open>Results\<close>

lemma is_err_simps [simp]: "is_err (Err e)" "\<not> is_err (Ok x)"
  by (simp_all add: is_err_def)

subsection \<open>Lists\<close>

lemma drop_map_upt: "drop k (map f [0..<n]) = map (\<lambda>i. f (k + i)) [0..<n - k]"
  by (rule nth_equalityI) auto

lemma find_distinct: "distinct (map f xs) \<Longrightarrow> x \<in> set xs \<Longrightarrow> find (\<lambda>y. f y = f x) xs = Some x"
  by (induction xs) (auto simp: image_iff)

subsection \<open>The bitmap search\<close>

lemma find_Some_split:
  "find P xs = Some x \<longleftrightarrow> (\<exists>i<length xs. P (xs ! i) \<and> x = xs ! i \<and> (\<forall>j<i. \<not> P (xs ! j)))"
  by (simp add: find_Some_iff)

lemma find_first_zero_bit_cases:
  obtains (full) "find_first_zero_bit b n = n" "\<forall>i<n. b i"
  | (free) i where "i < n" "find_first_zero_bit b n = i" "\<not> b i" "\<forall>j<i. b j"
proof (cases "find (\<lambda>i. \<not> b i) [0..<n]")
  case None
  then have "\<forall>i<n. b i" by (auto simp: find_None_iff)
  with None show thesis using full by (simp add: find_first_zero_bit_def)
next
  case (Some i)
  then have "i < n" "\<not> b i" "\<forall>j<i. b j" by (auto simp: find_Some_split)
  with Some show thesis using free [of i] by (simp add: find_first_zero_bit_def)
qed

lemma find_first_zero_bit_le: "find_first_zero_bit b n \<le> n"
  by (cases rule: find_first_zero_bit_cases [of b n]) auto

lemma find_first_zero_bit_clear: "find_first_zero_bit b n < n \<Longrightarrow> \<not> b (find_first_zero_bit b n)"
  by (cases rule: find_first_zero_bit_cases [of b n]) auto

lemma find_first_zero_bit_least: "i < find_first_zero_bit b n \<Longrightarrow> b i"
  by (cases rule: find_first_zero_bit_cases [of b n]) auto

lemma find_first_zero_bit_full: "n \<le> find_first_zero_bit b n \<longleftrightarrow> (\<forall>i<n. b i)"
proof
  assume "n \<le> find_first_zero_bit b n"
  then show "\<forall>i<n. b i" using find_first_zero_bit_least [of _ b n] by fastforce
next
  assume all: "\<forall>i<n. b i"
  show "n \<le> find_first_zero_bit b n"
  proof (rule ccontr)
    assume "\<not> n \<le> find_first_zero_bit b n"
    then show False using find_first_zero_bit_clear [of b n] all by simp
  qed
qed

lemma find_first_zero_bit_eqI:
  assumes "k < n" "\<not> b k" "\<And>i. i < k \<Longrightarrow> b i"
  shows "find_first_zero_bit b n = k"
proof (rule linorder_cases [of "find_first_zero_bit b n" k])
  assume "find_first_zero_bit b n < k"
  then show ?thesis using assms find_first_zero_bit_clear [of b n] by simp
next
  assume "k < find_first_zero_bit b n"
  then show ?thesis using assms(2) find_first_zero_bit_least by blast
qed

lemma find_first_zero_bit_pos: "b 0 \<Longrightarrow> 0 < n \<Longrightarrow> 0 < find_first_zero_bit b n"
  using find_first_zero_bit_clear [of b n] by (cases "find_first_zero_bit b n") auto

subsection \<open>Words\<close>

lemma unat_of_nat_u32: "n < 2 ^ 32 \<Longrightarrow> unat (of_nat n :: u32) = n"
  by (simp add: unat_of_nat take_bit_nat_eq_self)

lemma of_nat_u32_eq_0: "n < 2 ^ 32 \<Longrightarrow> (of_nat n :: u32) = 0 \<longleftrightarrow> n = 0"
  using unat_of_nat_u32 [of n] by (auto simp flip: unat_eq_zero)

lemma unat_add_small: "unat a + unat b < 2 ^ 32 \<Longrightarrow> unat (a + b) = unat a + unat b" for a b :: u32
  by (simp add: unat_word_ariths)

lemma bit_above: "k \<le> n \<Longrightarrow> take_bit k x = x \<Longrightarrow> \<not> bit x n" for x :: "'a::len word"
  by (metis bit_take_bit_iff not_le)

subsection \<open>A component as a state machine with an invariant\<close>

locale machine =
  fixes init :: "'s \<Rightarrow> bool"
    and step :: "'s \<Rightarrow> 's \<Rightarrow> bool"
    and inv :: "'s \<Rightarrow> bool"
  assumes init_inv: "init s \<Longrightarrow> inv s"
    and step_inv: "inv s \<Longrightarrow> step s t \<Longrightarrow> inv t"
begin

lemma run_inv: "step\<^sup>*\<^sup>* s t \<Longrightarrow> inv s \<Longrightarrow> inv t"
  by (induction rule: rtranclp_induct) (auto intro: step_inv)

lemma reachable_inv: "init s \<Longrightarrow> step\<^sup>*\<^sup>* s t \<Longrightarrow> inv t"
  using run_inv init_inv by blast

end

subsection \<open>A table that hands out indices\<close>

text \<open>
  \<open>alloc\<close> gives an index below \<open>cap\<close> that was not in use, or fails when there is none; \<open>release\<close>
  gives an index back. \<open>reserved\<close> indices are never handed out.
\<close>

locale id_allocator =
  fixes alloc :: "'s \<Rightarrow> ('s \<times> nat) option"
    and release :: "'s \<Rightarrow> nat \<Rightarrow> 's"
    and used :: "'s \<Rightarrow> nat set"
    and cap :: nat
  assumes alloc_Some: "alloc s = Some (t, i) \<Longrightarrow> i < cap \<and> i \<notin> used s \<and> used t = insert i (used s)"
    and alloc_None: "alloc s = None \<longleftrightarrow> {..<cap} \<subseteq> used s"
    and release: "used (release s i) = used s - {i}"
begin

lemma alloc_mono: "alloc s = Some (t, i) \<Longrightarrow> used s \<subseteq> used t"
  using alloc_Some by blast

lemma alloc_fresh: "alloc s = Some (t, i) \<Longrightarrow> j \<in> used s \<Longrightarrow> i \<noteq> j"
  using alloc_Some by blast

lemma alloc_twice_distinct: "alloc s = Some (t, i) \<Longrightarrow> alloc t = Some (u, j) \<Longrightarrow> i \<noteq> j"
  using alloc_Some [of s t i] alloc_Some [of t u j] by blast

lemma alloc_after_release: "i < cap \<Longrightarrow> \<exists>t j. alloc (release s i) = Some (t, j)"
proof -
  assume "i < cap"
  then have "\<not> {..<cap} \<subseteq> used (release s i)" using release by auto
  then have "alloc (release s i) \<noteq> None" using alloc_None by blast
  then show ?thesis by auto
qed

lemma alloc_release: "alloc s = Some (t, i) \<Longrightarrow> used (release t i) = used s"
  using alloc_Some [of s t i] release [of t i] by auto

end

subsection \<open>A table of entries named by handles\<close>

text \<open>
  What the clients of a handle table rely on: \<open>view\<close> is the finite map the table stands for,
  \<open>create\<close> adds an entry under a fresh handle and fails exactly when the table is full, \<open>destroy\<close>
  removes an entry and fails exactly when there is none.
\<close>

locale handle_store =
  fixes inv :: "'s \<Rightarrow> bool"
    and view :: "'s \<Rightarrow> 'h \<Rightarrow> 'v option"
    and create :: "'c \<Rightarrow> 's \<Rightarrow> ('s \<times> 'h) option"
    and entry :: "'c \<Rightarrow> 'h \<Rightarrow> 'v"
    and destroy :: "'h \<Rightarrow> 's \<Rightarrow> 's option"
    and cap :: nat
  assumes create_Some: "inv s \<Longrightarrow> create c s = Some (t, h) \<Longrightarrow>
      inv t \<and> view s h = None \<and> view t = (view s)(h \<mapsto> entry c h)"
    and create_None: "inv s \<Longrightarrow> create c s = None \<longleftrightarrow> card (dom (view s)) = cap"
    and destroy_Some: "inv s \<Longrightarrow> destroy h s = Some t \<Longrightarrow>
      inv t \<and> view s h \<noteq> None \<and> view t = (view s)(h := None)"
    and destroy_None: "inv s \<Longrightarrow> destroy h s = None \<longleftrightarrow> view s h = None"
    and finite_view: "inv s \<Longrightarrow> finite (dom (view s))"
begin

lemma create_lookup: "inv s \<Longrightarrow> create c s = Some (t, h) \<Longrightarrow> view t h = Some (entry c h)"
  using create_Some by simp

lemma create_keeps: "inv s \<Longrightarrow> create c s = Some (t, h) \<Longrightarrow> view s k = Some v \<Longrightarrow> k \<noteq> h \<and> view t k = Some v"
  using create_Some by fastforce

lemma destroy_twice: "inv s \<Longrightarrow> destroy h s = Some t \<Longrightarrow> destroy h t = None"
  using destroy_Some [of s h t] destroy_None [of t h] by simp

lemma create_destroy:
  assumes "inv s" "create c s = Some (t, h)"
  obtains u where "destroy h t = Some u" "inv u" "view u = view s"
proof -
  note t = create_Some [OF assms]
  then have "destroy h t \<noteq> None" using destroy_None [of t h] by simp
  then obtain u where u: "destroy h t = Some u" by blast
  moreover have "view u = view s" using destroy_Some [OF _ u] t by (auto simp: fun_eq_iff)
  ultimately show thesis using that destroy_Some [OF _ u] t by blast
qed

lemma destroy_makes_room:
  assumes "inv s" "destroy h s = Some t" "card (dom (view s)) \<le> cap"
  shows "create c t \<noteq> None"
proof -
  note t = destroy_Some [OF assms(1,2)]
  have "card (dom (view t)) < card (dom (view s))"
    using t finite_view [OF assms(1)] by (auto intro!: psubset_card_mono)
  then show ?thesis using create_None [of t c] t assms(3) by simp
qed

end

end
