(* ===== verification/Cam_Mem_Mgr.thy ===== *)
theory Cam_Mem_Mgr
  imports Cam_Prelude
begin

text \<open>
  The memory manager, \<^verbatim>\<open>drivers/cam_req_mgr/cam_mem_mgr.c\<close>: the table of buffers that user space and the
  drivers name by handles, and the operations that allocate, import, look up and release them.

  The services it calls are the kernel's (ION, DMA buffers) and the SMMU driver's. What a call returns is
  an argument, collected in \<open>mem_env\<close>; what a call leaves behind is kept in the state: the references
  the camera drivers and the descriptors they made hold on a buffer (\<open>refs\<close>), the descriptors made
  (\<open>fds\<close>), the mappings into hardware address spaces (\<open>mapped\<close>), the pages mapped into the kernel
  (\<open>kpages\<close>) and the CPU accesses begun and not ended (\<open>cpu\<close>). A path that forgets one of them shows there.

  Of the SMMU driver the model has what it does to references, \<^verbatim>\<open>drivers/cam_smmu/cam_smmu_api.c\<close>: a mapping for
  a descriptor takes a reference and gives it back; a mapping for a buffer of the kernel takes none, but its
  removal drops one; so does an attempt that fails on the way, which is for the argument to say.
\<close>

subsection \<open>Data\<close>

abbreviation CAM_MEM_BUFQ_MAX :: nat where "CAM_MEM_BUFQ_MAX \<equiv> 1024"
abbreviation CAM_MEM_MMU_MAX_HANDLE :: nat where "CAM_MEM_MMU_MAX_HANDLE \<equiv> 16"
abbreviation PAGE_SIZE :: nat where "PAGE_SIZE \<equiv> 4096"

definition CAM_MEM_FLAG_HW_READ_WRITE :: u32 where "CAM_MEM_FLAG_HW_READ_WRITE = push_bit 0 1"
definition CAM_MEM_FLAG_HW_READ_ONLY :: u32 where "CAM_MEM_FLAG_HW_READ_ONLY = push_bit 1 1"
definition CAM_MEM_FLAG_HW_WRITE_ONLY :: u32 where "CAM_MEM_FLAG_HW_WRITE_ONLY = push_bit 2 1"
definition CAM_MEM_FLAG_KMD_ACCESS :: u32 where "CAM_MEM_FLAG_KMD_ACCESS = push_bit 3 1"
definition CAM_MEM_FLAG_PROTECTED_MODE :: u32 where "CAM_MEM_FLAG_PROTECTED_MODE = push_bit 5 1"
definition CAM_MEM_FLAG_CACHE :: u32 where "CAM_MEM_FLAG_CACHE = push_bit 10 1"
definition CAM_MEM_FLAG_HW_SHARED_ACCESS :: u32 where "CAM_MEM_FLAG_HW_SHARED_ACCESS = push_bit 11 1"
definition CAM_MEM_FLAG_CDSP_OUTPUT :: u32 where "CAM_MEM_FLAG_CDSP_OUTPUT = push_bit 12 1"
definition CAM_MEM_FLAG_CP_PIXEL :: u32 where "CAM_MEM_FLAG_CP_PIXEL = push_bit 13 1"

text \<open>A test \<^verbatim>\<open>flags & F\<close>.\<close>

definition has_flag :: "u32 \<Rightarrow> u32 \<Rightarrow> bool" where
  "has_flag flags f \<longleftrightarrow> flags AND f \<noteq> 0"

datatype cam_smmu_region_id =
  CAM_SMMU_REGION_FIRMWARE | CAM_SMMU_REGION_SHARED | CAM_SMMU_REGION_SCRATCH | CAM_SMMU_REGION_IO
| CAM_SMMU_REGION_SECHEAP | CAM_SMMU_REGION_QDSS

datatype cam_smmu_mapping_client = CAM_SMMU_MAPPING_USER | CAM_SMMU_MAPPING_KERNEL

datatype dma_dir = DMA_BIDIRECTIONAL | DMA_TO_DEVICE | DMA_FROM_DEVICE

record cam_mem_buf_queue =
  dma_buf :: ptr
  bq_hdls :: "u32 list"
  bq_num_hdl :: nat
  bq_fd :: int
  bq_handle :: u32
  bq_len :: u64
  bq_flags :: u32
  bq_vaddr :: u64
  kmdvaddr :: ptr
  bq_active :: bool
  is_imported :: bool

text \<open>A buffer is mapped for a file descriptor, for itself, or as the secondary heap.\<close>

datatype map_key = By_fd int | By_buf ptr | Sec_heap

record mem =
  mgr_init :: bool
  mt_bitmap :: "bitmap option"
  mt_bits :: nat
  bufq :: "nat \<Rightarrow> cam_mem_buf_queue"
  refs :: "ptr \<Rightarrow> int"
  fds :: "(int \<times> ptr) list"
  mapped :: "(u32 \<times> map_key \<times> ptr) list"
  kpages :: "ptr \<Rightarrow> int"
  cpu :: "ptr \<Rightarrow> int"

datatype ion_heap = ION_SECURE_DISPLAY | ION_SECURE | ION_SYSTEM_CAMERA
datatype ion_flag = ION_FLAG_SECURE | ION_FLAG_CP_CAMERA | ION_FLAG_CP_CDSP | ION_FLAG_CP_PIXEL | ION_FLAG_CACHED

record mem_env =
  me_bitmap :: bool
  me_ion :: "u64 \<Rightarrow> ion_heap \<Rightarrow> ion_flag list \<Rightarrow> ptr"
  me_fd :: int
  me_get :: "int \<Rightarrow> ptr"
  me_size :: "ptr \<Rightarrow> u64"
  me_begin :: int
  me_end :: int
  me_kmap :: "nat \<Rightarrow> ptr"
  me_map :: "nat \<Rightarrow> cam_smmu_region_id \<Rightarrow> int \<times> u64 \<times> u64"
  me_map2 :: "nat \<Rightarrow> int \<times> u64 \<times> u64"
  me_mapk :: "cam_smmu_region_id \<Rightarrow> int \<times> u64 \<times> bool"
  me_unmap :: "nat \<Rightarrow> cam_smmu_region_id \<Rightarrow> int"
  me_unmap2 :: "nat \<Rightarrow> int"
  me_unmapk :: "nat \<Rightarrow> cam_smmu_region_id \<Rightarrow> int"
  me_reserve :: "int \<times> u64 \<times> u64 \<times> bool"
  me_iova :: "bool \<Rightarrow> u32 \<Rightarrow> int \<Rightarrow> int \<times> u64 \<times> u64"
  me_release_heap :: int
  me_dma_flags :: "int \<times> bool"

subsection \<open>Handles\<close>

definition GET_MEM_HANDLE :: "nat \<Rightarrow> int \<Rightarrow> u32" where
  "GET_MEM_HANDLE idx fd = (of_nat idx AND (push_bit 15 1 - 1)) OR push_bit 16 (word_of_int fd)"

definition CAM_MEM_MGR_GET_HDL_IDX :: "u32 \<Rightarrow> nat" where
  "CAM_MEM_MGR_GET_HDL_IDX hdl = unat (hdl AND (push_bit 15 1 - 1))"

definition CAM_MEM_MGR_SET_SECURE_HDL :: "u32 \<Rightarrow> bool \<Rightarrow> u32" where
  "CAM_MEM_MGR_SET_SECURE_HDL hdl flag = (if flag then hdl OR push_bit 15 1 else hdl AND NOT (push_bit 15 1))"

definition CAM_MEM_MGR_IS_SECURE_HDL :: "u32 \<Rightarrow> bool" where
  "CAM_MEM_MGR_IS_SECURE_HDL hdl \<longleftrightarrow> drop_bit 15 (hdl AND push_bit 15 1) \<noteq> 0"

definition cam_mem_is_secure_buf :: "u32 \<Rightarrow> bool" where
  "cam_mem_is_secure_buf hdl = CAM_MEM_MGR_IS_SECURE_HDL hdl"

subsection \<open>The calls that leave something behind\<close>

definition upd_bufq :: "nat \<Rightarrow> (cam_mem_buf_queue \<Rightarrow> cam_mem_buf_queue) \<Rightarrow> mem \<Rightarrow> mem" where
  "upd_bufq i f s = s\<lparr>bufq := (bufq s)(i := f (bufq s i))\<rparr>"

definition dma_buf_ref :: "ptr \<Rightarrow> int \<Rightarrow> mem \<Rightarrow> mem" where
  "dma_buf_ref b n s = s\<lparr>refs := (refs s)(b := refs s b + n)\<rparr>"

abbreviation dma_buf_put :: "ptr \<Rightarrow> mem \<Rightarrow> mem" where
  "dma_buf_put b \<equiv> dma_buf_ref b (-1)"

definition cpu_access :: "ptr \<Rightarrow> int \<Rightarrow> mem \<Rightarrow> mem" where
  "cpu_access b n s = s\<lparr>cpu := (cpu s)(b := cpu s b + n)\<rparr>"

definition add_pages :: "ptr \<Rightarrow> int \<Rightarrow> mem \<Rightarrow> mem" where
  "add_pages b n s = s\<lparr>kpages := (kpages s)(b := kpages s b + n)\<rparr>"

definition mapping_of :: "u32 \<Rightarrow> map_key \<Rightarrow> u32 \<times> map_key \<times> ptr \<Rightarrow> bool" where
  "mapping_of h k m \<longleftrightarrow> fst m = h \<and> fst (snd m) = k"

text \<open>A mapping made again for the same descriptor only counts.\<close>

definition smmu_map :: "u32 \<Rightarrow> map_key \<Rightarrow> ptr \<Rightarrow> mem \<Rightarrow> mem" where
  "smmu_map h k b s =
     (let s1 = (if list_ex (mapping_of h k) (mapped s) then s else dma_buf_ref b 1 s) in
      s1\<lparr>mapped := mapped s @ [(h, k, b)]\<rparr>)"

definition smmu_map_kernel :: "u32 \<Rightarrow> map_key \<Rightarrow> ptr \<Rightarrow> mem \<Rightarrow> mem" where
  "smmu_map_kernel h k b s = s\<lparr>mapped := mapped s @ [(h, k, b)]\<rparr>"

definition smmu_unmap :: "u32 \<Rightarrow> map_key \<Rightarrow> mem \<Rightarrow> mem" where
  "smmu_unmap h k s =
     (case find (mapping_of h k) (mapped s) of
        None \<Rightarrow> s
      | Some m \<Rightarrow>
          (let s1 = s\<lparr>mapped := remove1 m (mapped s)\<rparr> in
           if list_ex (mapping_of h k) (mapped s1) then s1 else dma_buf_put (snd (snd m)) s1))"

subsection \<open>The kernel's own mapping\<close>

definition cam_mem_util_get_dma_dir :: "u32 \<Rightarrow> dma_dir option" where
  "cam_mem_util_get_dma_dir flags =
     (if has_flag flags CAM_MEM_FLAG_HW_READ_ONLY then Some DMA_TO_DEVICE
      else if has_flag flags CAM_MEM_FLAG_HW_WRITE_ONLY then Some DMA_FROM_DEVICE
      else if has_flag flags CAM_MEM_FLAG_HW_READ_WRITE then Some DMA_BIDIRECTIONAL
      else if has_flag flags CAM_MEM_FLAG_PROTECTED_MODE then Some DMA_BIDIRECTIONAL
      else None)"

text \<open>
  The number of pages of a buffer. \<^verbatim>\<open>PAGE_ALIGN\<close> would wrap for a size above \<open>2 ^ 64 - PAGE_SIZE\<close>, more than the address
  space has; sizes are taken to be smaller.
\<close>

definition page_num :: "u64 \<Rightarrow> nat" where
  "page_num n = (unat n + PAGE_SIZE - 1) div PAGE_SIZE"

text \<open>It returns the return code and, on success, the address of the first page and the size.\<close>

definition cam_mem_util_map_cpu_va :: "mem_env \<Rightarrow> ptr \<Rightarrow> mem \<Rightarrow> mem \<times> int \<times> ptr \<times> u64" where
  "cam_mem_util_map_cpu_va env b s =
     (if me_begin env \<noteq> 0 then (s, me_begin env, 0, 0)
      else
        (let s1 = cpu_access b 1 s; n = page_num (me_size env b) in
         case find (\<lambda>i. me_kmap env i = 0) [0..<n] of
           Some i \<Rightarrow> (cpu_access b (-1) s1, code ENOSPC, 0, 0)
         | None \<Rightarrow> (add_pages b (int n) s1, 0, if n = 0 then 0 else me_kmap env 0, me_size env b)))"

definition cam_mem_util_unmap_cpu_va :: "mem_env \<Rightarrow> ptr \<Rightarrow> ptr \<Rightarrow> mem \<Rightarrow> mem \<times> int" where
  "cam_mem_util_unmap_cpu_va env b va s =
     (if b = 0 \<or> va = 0 then (s, code EINVAL)
      else (cpu_access b (-1) (add_pages b (- int (page_num (me_size env b))) s), me_end env))"

subsection \<open>Slots\<close>

definition zero_bufq :: cam_mem_buf_queue where
  "zero_bufq = \<lparr>dma_buf = 0, bq_hdls = replicate CAM_MEM_MMU_MAX_HANDLE 0, bq_num_hdl = 0, bq_fd = 0, bq_handle = 0, bq_len = 0,
     bq_flags = 0, bq_vaddr = 0, kmdvaddr = 0, bq_active = False, is_imported = False\<rparr>"

definition cam_mem_mgr_init :: "mem_env \<Rightarrow> mem \<Rightarrow> mem \<times> int" where
  "cam_mem_mgr_init env s =
     (let s1 = s\<lparr>bufq := (\<lambda>_. zero_bufq)\<rparr> in
      if \<not> me_bitmap env then (s1\<lparr>mt_bitmap := None\<rparr>, code ENOMEM)
      else
        (s1\<lparr>mt_bitmap := Some (\<lambda>i. i = 0), mt_bits := CAM_MEM_BUFQ_MAX,
            bufq := (\<lambda>i. if 1 \<le> i \<and> i < CAM_MEM_BUFQ_MAX then zero_bufq\<lparr>bq_fd := -1, bq_handle := -1\<rparr> else zero_bufq),
            mgr_init := True\<rparr>, 0))"

definition set_bit_at :: "nat \<Rightarrow> bool \<Rightarrow> mem \<Rightarrow> mem" where
  "set_bit_at i v s = s\<lparr>mt_bitmap := map_option (\<lambda>b. b(i := v)) (mt_bitmap s)\<rparr>"

definition cam_mem_get_slot :: "mem \<Rightarrow> (mem \<times> nat) option" where
  "cam_mem_get_slot s =
     (let idx = find_first_zero_bit (the (mt_bitmap s)) (mt_bits s) in
      if idx \<ge> CAM_MEM_BUFQ_MAX \<or> idx = 0 then None
      else Some (upd_bufq idx (\<lambda>b. b\<lparr>bq_active := True\<rparr>) (set_bit_at idx True s), idx))"

definition cam_mem_put_slot :: "nat \<Rightarrow> mem \<Rightarrow> mem" where
  "cam_mem_put_slot idx s = set_bit_at idx False (upd_bufq idx (\<lambda>b. b\<lparr>bq_active := False\<rparr>) s)"

subsection \<open>Looking up\<close>

abbreviation bad_idx :: "nat \<Rightarrow> bool" where
  "bad_idx idx \<equiv> idx \<ge> CAM_MEM_BUFQ_MAX \<or> idx = 0"

definition cam_mem_get_io_buf :: "mem_env \<Rightarrow> u32 \<Rightarrow> u32 \<Rightarrow> mem \<Rightarrow> int \<times> u64 \<times> u64" where
  "cam_mem_get_io_buf env hdl mmu_hdl s =
     (if \<not> mgr_init s then (code EINVAL, 0, 0)
      else
        (let idx = CAM_MEM_MGR_GET_HDL_IDX hdl; q = bufq s idx in
         if bad_idx idx then (code EINVAL, 0, 0)
         else if \<not> bq_active q then (code EINVAL, 0, 0)
         else if hdl \<noteq> bq_handle q then (code EINVAL, 0, 0)
         else me_iova env (CAM_MEM_MGR_IS_SECURE_HDL hdl) mmu_hdl (bq_fd q)))"

definition cam_mem_get_cpu_buf :: "mem_env \<Rightarrow> u32 \<Rightarrow> mem \<Rightarrow> mem \<times> int \<times> ptr \<times> u64" where
  "cam_mem_get_cpu_buf env hdl s =
     (if \<not> mgr_init s then (s, code EINVAL, 0, 0)
      else if hdl = 0 then (s, code EINVAL, 0, 0)
      else
        (let idx = CAM_MEM_MGR_GET_HDL_IDX hdl; q = bufq s idx in
         if bad_idx idx then (s, code EINVAL, 0, 0)
         else if \<not> bq_active q then (s, code EPERM, 0, 0)
         else if hdl \<noteq> bq_handle q then (s, code EINVAL, 0, 0)
         else if \<not> has_flag (bq_flags q) CAM_MEM_FLAG_KMD_ACCESS then (s, code EINVAL, 0, 0)
         else if kmdvaddr q = 0 then (s, code EINVAL, 0, 0)
         else if dma_buf q = 0 then (s, code EINVAL, 0, 0)
         else if me_begin env \<noteq> 0 then (s, me_begin env, 0, 0)
         else (cpu_access (dma_buf q) 1 s, 0, kmdvaddr q, bq_len q)))"

definition cam_mem_put_cpu_buf :: "mem_env \<Rightarrow> u32 \<Rightarrow> mem \<Rightarrow> mem \<times> int" where
  "cam_mem_put_cpu_buf env hdl s =
     (if \<not> mgr_init s then (s, code EINVAL)
      else if hdl = 0 then (s, code EINVAL)
      else
        (let idx = CAM_MEM_MGR_GET_HDL_IDX hdl; q = bufq s idx in
         if bad_idx idx then (s, code EINVAL)
         else if \<not> bq_active q then (s, code EPERM)
         else if hdl \<noteq> bq_handle q then (s, code EINVAL)
         else if dma_buf q = 0 then (s, code EINVAL)
         else if has_flag (bq_flags q) CAM_MEM_FLAG_KMD_ACCESS \<and> kmdvaddr q \<noteq> 0
         then (cpu_access (dma_buf q) (-1) s, me_end env)
         else (s, code EINVAL)))"

definition cam_mem_mgr_cache_ops :: "mem_env \<Rightarrow> (u32 \<times> u32) option \<Rightarrow> mem \<Rightarrow> mem \<times> int" where
  "cam_mem_mgr_cache_ops env cmd s =
     (if \<not> mgr_init s then (s, code EINVAL)
      else
        (case cmd of
           None \<Rightarrow> (s, code EINVAL)
         | Some (hdl, op) \<Rightarrow>
             (let idx = CAM_MEM_MGR_GET_HDL_IDX hdl; q = bufq s idx in
              if bad_idx idx then (s, code EINVAL)
              else if \<not> bq_active q then (s, code EINVAL)
              else if hdl \<noteq> bq_handle q then (s, code EINVAL)
              else if fst (me_dma_flags env) \<noteq> 0 then (s, fst (me_dma_flags env))
              else if \<not> snd (me_dma_flags env) then (s, 0)
              else if op \<notin> {1, 2, 3} then (s, code EINVAL)
              else if me_begin env \<noteq> 0 then (s, me_begin env)
              else (cpu_access (dma_buf q) (-1) (cpu_access (dma_buf q) 1 s), me_end env))))"

subsection \<open>Allocation of the buffers\<close>

definition cam_mem_util_get_dma_buf :: "mem_env \<Rightarrow> u64 \<Rightarrow> ion_heap \<Rightarrow> ion_flag list \<Rightarrow> mem \<Rightarrow> mem \<times> ptr result" where
  "cam_mem_util_get_dma_buf env n heap fl s =
     (let b = me_ion env n heap fl in
      if b = 0 then (s, Err ENOMEM) else (dma_buf_ref b 1 s, Ok b))"

text \<open>The descriptor takes over the reference of the allocation; a second one is taken for the table.\<close>

definition cam_mem_util_get_dma_buf_fd ::
  "mem_env \<Rightarrow> u64 \<Rightarrow> ion_heap \<Rightarrow> ion_flag list \<Rightarrow> mem \<Rightarrow> mem \<times> (ptr \<times> int) result" where
  "cam_mem_util_get_dma_buf_fd env n heap fl s =
     (let b = me_ion env n heap fl; fd = me_fd env in
      if b = 0 then (s, Err ENOMEM)
      else
        (let s1 = dma_buf_ref b 1 s in
         if fd < 0 then (dma_buf_put b s1, Err EINVAL)
         else
           (let s2 = s1\<lparr>fds := (fd, b) # fds s1\<rparr>; d = me_get env fd in
            if d = 0 then (s2, Err EINVAL)
            else (dma_buf_ref d 1 s2, Ok (b, fd)))))"

record cam_mem_mgr_alloc_cmd =
  ac_len :: u64
  ac_mmu_hdls :: "u32 list"
  ac_num_hdl :: nat
  ac_flags :: u32

record cam_mem_mgr_map_cmd =
  mc_mmu_hdls :: "u32 list"
  mc_num_hdl :: nat
  mc_flags :: u32
  mc_fd :: int

definition ion_choice :: "u32 \<Rightarrow> ion_heap \<times> ion_flag list" where
  "ion_choice flags =
     (let (heap, fl) =
        (if has_flag flags CAM_MEM_FLAG_PROTECTED_MODE \<and> has_flag flags CAM_MEM_FLAG_CDSP_OUTPUT
         then (ION_SECURE_DISPLAY, [ION_FLAG_SECURE, ION_FLAG_CP_CAMERA, ION_FLAG_CP_CDSP])
         else if has_flag flags CAM_MEM_FLAG_PROTECTED_MODE
         then (ION_SECURE_DISPLAY, [ION_FLAG_SECURE, ION_FLAG_CP_CAMERA])
         else if has_flag flags CAM_MEM_FLAG_CP_PIXEL
         then (ION_SECURE, [ION_FLAG_SECURE, ION_FLAG_CP_PIXEL])
         else (ION_SYSTEM_CAMERA, []))
      in (heap, fl @ (if has_flag flags CAM_MEM_FLAG_CACHE then [ION_FLAG_CACHED] else [])))"

definition cam_mem_util_ion_alloc ::
  "mem_env \<Rightarrow> cam_mem_mgr_alloc_cmd \<Rightarrow> mem \<Rightarrow> mem \<times> (ptr \<times> int) result" where
  "cam_mem_util_ion_alloc env cmd s =
     (let (heap, fl) = ion_choice (ac_flags cmd) in cam_mem_util_get_dma_buf_fd env (ac_len cmd) heap fl s)"

definition secure_and_kernel :: "u32 \<Rightarrow> bool" where
  "secure_and_kernel flags \<longleftrightarrow>
     (has_flag flags CAM_MEM_FLAG_PROTECTED_MODE \<or> has_flag flags CAM_MEM_FLAG_CP_PIXEL)
     \<and> has_flag flags CAM_MEM_FLAG_KMD_ACCESS"

definition cam_mem_util_check_alloc_flags :: "cam_mem_mgr_alloc_cmd \<Rightarrow> int" where
  "cam_mem_util_check_alloc_flags cmd =
     (if ac_num_hdl cmd > CAM_MEM_MMU_MAX_HANDLE then code EINVAL
      else if secure_and_kernel (ac_flags cmd) then code EINVAL
      else 0)"

definition cam_mem_util_check_map_flags :: "cam_mem_mgr_map_cmd \<Rightarrow> int" where
  "cam_mem_util_check_map_flags cmd =
     (if mc_flags cmd = 0 then code EINVAL
      else if mc_num_hdl cmd > CAM_MEM_MMU_MAX_HANDLE then code EINVAL
      else if secure_and_kernel (mc_flags cmd) then code EINVAL
      else if has_flag (mc_flags cmd) CAM_MEM_FLAG_HW_SHARED_ACCESS then code EINVAL
      else 0)"

subsection \<open>Mapping into hardware address spaces\<close>

text \<open>
  The loop over the handles, from index \<open>i\<close>: it stops with the index of the call that failed, and the
  result of the last call made. The undoing counts down from the handle before and ends at index 1.
\<close>

fun map_loop :: "(nat \<Rightarrow> int \<times> u64 \<times> u64) \<Rightarrow> int \<Rightarrow> ptr \<Rightarrow> nat \<Rightarrow> u32 list \<Rightarrow> int \<times> u64 \<times> u64 \<Rightarrow> mem
    \<Rightarrow> mem \<times> (int \<times> u64 \<times> u64) \<times> nat option" where
  "map_loop f fd b i [] r s = (s, r, None)"
| "map_loop f fd b i (h # hs) r s =
     (if fst (f i) < 0 then (s, f i, Some i)
      else map_loop f fd b (Suc i) hs (f i) (smmu_map h (By_fd fd) b s))"

definition unmap_down :: "(nat \<Rightarrow> int) \<Rightarrow> int \<Rightarrow> u32 list \<Rightarrow> nat \<Rightarrow> mem \<Rightarrow> mem" where
  "unmap_down u fd hs i s =
     fold (\<lambda>j s. if u j < 0 then s else smmu_unmap (hs ! j) (By_fd fd) s) (rev [1..<i]) s"

definition cam_mem_util_map_hw_va ::
  "mem_env \<Rightarrow> u32 \<Rightarrow> u32 list \<Rightarrow> nat \<Rightarrow> int \<Rightarrow> u64 \<Rightarrow> u64 \<Rightarrow> cam_smmu_region_id \<Rightarrow> mem \<Rightarrow> mem \<times> int \<times> u64 \<times> u64" where
  "cam_mem_util_map_hw_va env flags hdls n fd va0 len0 region s =
     (case cam_mem_util_get_dma_dir flags of
        None \<Rightarrow> (s, code EINVAL, va0, len0)
      | Some _ \<Rightarrow>
          (let prot = has_flag flags CAM_MEM_FLAG_PROTECTED_MODE;
               f = (if prot then me_map2 env else (\<lambda>i. me_map env i region));
               u = (if prot then me_unmap2 env else (\<lambda>i. me_unmap env i CAM_SMMU_REGION_IO));
               (s1, (rc, va, n1), failed) = map_loop f fd (me_get env fd) 0 (take n hdls) (-1, va0, len0) s
           in case failed of
                None \<Rightarrow> (s1, rc, va, n1)
              | Some i \<Rightarrow> (unmap_down u fd hdls i s1, rc, va, n1)))"

text \<open>What \<^verbatim>\<open>memcpy\<close> of the handles leaves in the array of a slot.\<close>

definition copy_hdls :: "nat \<Rightarrow> u32 list \<Rightarrow> u32 list \<Rightarrow> u32 list" where
  "copy_hdls n src dst = take n src @ drop n dst"

definition make_handle :: "nat \<Rightarrow> int \<Rightarrow> u32 \<Rightarrow> u32" where
  "make_handle idx fd flags =
     (if has_flag flags CAM_MEM_FLAG_PROTECTED_MODE
      then CAM_MEM_MGR_SET_SECURE_HDL (GET_MEM_HANDLE idx fd) True else GET_MEM_HANDLE idx fd)"

definition wants_hw :: "u32 \<Rightarrow> bool" where
  "wants_hw flags \<longleftrightarrow> has_flag flags CAM_MEM_FLAG_HW_READ_WRITE \<or> has_flag flags CAM_MEM_FLAG_HW_SHARED_ACCESS
     \<or> has_flag flags CAM_MEM_FLAG_PROTECTED_MODE"

definition alloc_region :: "u32 \<Rightarrow> cam_smmu_region_id" where
  "alloc_region flags =
     (if has_flag flags CAM_MEM_FLAG_PROTECTED_MODE then CAM_SMMU_REGION_SECHEAP
      else if has_flag flags CAM_MEM_FLAG_HW_SHARED_ACCESS then CAM_SMMU_REGION_SHARED
      else CAM_SMMU_REGION_IO)"

text \<open>The end of an allocation, once the slot is taken and the hardware has its mappings.\<close>

definition alloc_fill ::
  "mem_env \<Rightarrow> cam_mem_mgr_alloc_cmd \<Rightarrow> ptr \<Rightarrow> int \<Rightarrow> u64 \<Rightarrow> nat \<Rightarrow> mem \<Rightarrow> mem \<times> int \<times> (u32 \<times> int) option" where
  "alloc_fill env cmd b fd va idx s =
     (let flags = ac_flags cmd; h = make_handle idx fd flags;
          s1 = upd_bufq idx (\<lambda>q. q\<lparr>bq_fd := fd, dma_buf := 0, bq_flags := flags, bq_handle := h\<rparr>) s;
          (s2, rc, kva, klen) = (if has_flag flags CAM_MEM_FLAG_KMD_ACCESS then cam_mem_util_map_cpu_va env b s1
                                 else (s1, 0, 0, 0))
      in if rc \<noteq> 0 then (dma_buf_put b (cam_mem_put_slot idx s2), rc, None)
         else
           (upd_bufq idx (\<lambda>q. q\<lparr>kmdvaddr := kva, bq_vaddr := va, dma_buf := b, bq_len := ac_len cmd,
                bq_num_hdl := ac_num_hdl cmd, bq_hdls := copy_hdls (ac_num_hdl cmd) (ac_mmu_hdls cmd) (bq_hdls q),
                is_imported := False\<rparr>) s2, rc, Some (h, fd)))"

definition cam_mem_mgr_alloc_and_map ::
  "mem_env \<Rightarrow> cam_mem_mgr_alloc_cmd option \<Rightarrow> mem \<Rightarrow> mem \<times> int \<times> (u32 \<times> int) option" where
  "cam_mem_mgr_alloc_and_map env cmd s =
     (if \<not> mgr_init s then (s, code EINVAL, None)
      else
        (case cmd of
           None \<Rightarrow> (s, code EINVAL, None)
         | Some cmd \<Rightarrow>
             (let rc = cam_mem_util_check_alloc_flags cmd in
              if rc \<noteq> 0 then (s, rc, None)
              else
                (case cam_mem_util_ion_alloc env cmd s of
                   (s1, Inl e) \<Rightarrow> (s1, code e, None)
                 | (s1, Inr (b, fd)) \<Rightarrow>
                     (case cam_mem_get_slot s1 of
                        None \<Rightarrow> (dma_buf_put b s1, code ENOMEM, None)
                      | Some (s2, idx) \<Rightarrow>
                          (if wants_hw (ac_flags cmd)
                           then
                             (let (s3, rc, va, n) =
                                cam_mem_util_map_hw_va env (ac_flags cmd) (ac_mmu_hdls cmd) (ac_num_hdl cmd) fd 0
                                  (ac_len cmd) (alloc_region (ac_flags cmd)) s2
                              in if rc \<noteq> 0 then (dma_buf_put b (cam_mem_put_slot idx s3), rc, None)
                                 else alloc_fill env cmd b fd va idx s3)
                           else alloc_fill env cmd b fd 0 idx s2))))))"

definition map_fill :: "cam_mem_mgr_map_cmd \<Rightarrow> ptr \<Rightarrow> u64 \<Rightarrow> u64 \<Rightarrow> nat \<Rightarrow> mem \<Rightarrow> mem" where
  "map_fill cmd b va n idx s =
     upd_bufq idx (\<lambda>q. q\<lparr>bq_fd := mc_fd cmd, bq_flags := mc_flags cmd,
       bq_handle := make_handle idx (mc_fd cmd) (mc_flags cmd), kmdvaddr := 0,
       bq_vaddr := (if mc_num_hdl cmd > 0 then va else 0), dma_buf := b, bq_len := n, bq_num_hdl := mc_num_hdl cmd,
       bq_hdls := copy_hdls (mc_num_hdl cmd) (mc_mmu_hdls cmd) (bq_hdls q), is_imported := True\<rparr>) s"

definition cam_mem_mgr_map :: "mem_env \<Rightarrow> cam_mem_mgr_map_cmd option \<Rightarrow> mem \<Rightarrow> mem \<times> int \<times> u32 option" where
  "cam_mem_mgr_map env cmd s =
     (if \<not> mgr_init s then (s, code EINVAL, None)
      else
        (case cmd of
           None \<Rightarrow> (s, code EINVAL, None)
         | Some cmd \<Rightarrow>
             (if mc_fd cmd < 0 then (s, code EINVAL, None)
              else if mc_num_hdl cmd > CAM_MEM_MMU_MAX_HANDLE then (s, code EINVAL, None)
              else
                (let rc = cam_mem_util_check_map_flags cmd; b = me_get env (mc_fd cmd) in
                 if rc \<noteq> 0 then (s, rc, None)
                 else if b = 0 then (s, code EINVAL, None)
                 else
                   (let s1 = dma_buf_ref b 1 s;
                        (s2, rc, va, n) =
                          (if has_flag (mc_flags cmd) CAM_MEM_FLAG_HW_READ_WRITE
                              \<or> has_flag (mc_flags cmd) CAM_MEM_FLAG_PROTECTED_MODE
                           then cam_mem_util_map_hw_va env (mc_flags cmd) (mc_mmu_hdls cmd) (mc_num_hdl cmd) (mc_fd cmd)
                                  0 0 CAM_SMMU_REGION_IO s1
                           else (s1, 0, 0, 0))
                    in if rc \<noteq> 0 then (dma_buf_put b s2, rc, None)
                       else
                         (case cam_mem_get_slot s2 of
                            None \<Rightarrow> (dma_buf_put b s2, code ENOMEM, None)
                          | Some (s3, idx) \<Rightarrow>
                              (map_fill cmd b va n idx s3, rc,
                               Some (make_handle idx (mc_fd cmd) (mc_flags cmd)))))))))"

subsection \<open>Release\<close>

text \<open>The loop over the handles of a slot, from index \<open>i\<close>; it stops at the first call that fails.\<close>

fun unmap_loop :: "(nat \<Rightarrow> int) \<Rightarrow> map_key \<Rightarrow> nat \<Rightarrow> u32 list \<Rightarrow> int \<Rightarrow> mem \<Rightarrow> mem \<times> int" where
  "unmap_loop u k i [] rc s = (s, rc)"
| "unmap_loop u k i (h # hs) rc s =
     (if u i < 0 then (s, u i) else unmap_loop u k (Suc i) hs (u i) (smmu_unmap h k s))"

definition cam_mem_util_unmap_hw_va ::
  "mem_env \<Rightarrow> nat \<Rightarrow> cam_smmu_region_id \<Rightarrow> cam_smmu_mapping_client \<Rightarrow> mem \<Rightarrow> mem \<times> int" where
  "cam_mem_util_unmap_hw_va env idx region client s =
     (if bad_idx idx then (s, code EINVAL)
      else
        (let q = bufq s idx; hs = take (bq_num_hdl q) (bq_hdls q) in
         if has_flag (bq_flags q) CAM_MEM_FLAG_PROTECTED_MODE
         then unmap_loop (me_unmap2 env) (By_fd (bq_fd q)) 0 hs 0 s
         else
           (case client of
              CAM_SMMU_MAPPING_USER \<Rightarrow> unmap_loop (\<lambda>i. me_unmap env i region) (By_fd (bq_fd q)) 0 hs 0 s
            | CAM_SMMU_MAPPING_KERNEL \<Rightarrow> unmap_loop (\<lambda>i. me_unmapk env i region) (By_buf (dma_buf q)) 0 hs 0 s)))"

definition unmap_region :: "u32 \<Rightarrow> cam_smmu_region_id" where
  "unmap_region flags =
     (if has_flag flags CAM_MEM_FLAG_HW_SHARED_ACCESS then CAM_SMMU_REGION_SHARED
      else if has_flag flags CAM_MEM_FLAG_HW_READ_WRITE then CAM_SMMU_REGION_IO
      else CAM_SMMU_REGION_SHARED)"

definition cam_mem_mgr_unmap_active_buf :: "mem_env \<Rightarrow> nat \<Rightarrow> mem \<Rightarrow> mem" where
  "cam_mem_mgr_unmap_active_buf env idx s =
     fst (cam_mem_util_unmap_hw_va env idx (unmap_region (bq_flags (bufq s idx))) CAM_SMMU_MAPPING_USER s)"

definition put_if :: "ptr \<Rightarrow> mem \<Rightarrow> mem" where
  "put_if b s = (if b \<noteq> 0 then dma_buf_put b s else s)"

definition cleanup_slot :: "mem_env \<Rightarrow> nat \<Rightarrow> mem \<Rightarrow> mem" where
  "cleanup_slot env i s =
     (if \<not> bq_active (bufq s i) then s
      else
        (let s1 = cam_mem_mgr_unmap_active_buf env i s;
             s2 = put_if (dma_buf (bufq s1 i)) s1
         in upd_bufq i (\<lambda>q. q\<lparr>bq_fd := -1, bq_flags := 0, bq_handle := -1, bq_vaddr := 0, bq_len := 0,
              bq_hdls := copy_hdls (bq_num_hdl q) (replicate (bq_num_hdl q) 0) (bq_hdls q), bq_num_hdl := 0,
              dma_buf := 0, bq_active := False, kmdvaddr := 0\<rparr>) s2))"

definition cam_mem_mgr_cleanup_table :: "mem_env \<Rightarrow> mem \<Rightarrow> mem" where
  "cam_mem_mgr_cleanup_table env s =
     (let s1 = fold (cleanup_slot env) [1..<CAM_MEM_BUFQ_MAX] s
      in s1\<lparr>mt_bitmap := map_option (\<lambda>_ i. i = 0) (mt_bitmap s1)\<rparr>)"

definition cam_mem_mgr_deinit :: "mem_env \<Rightarrow> mem \<Rightarrow> mem" where
  "cam_mem_mgr_deinit env s = (cam_mem_mgr_cleanup_table env (s\<lparr>mgr_init := False\<rparr>))\<lparr>mt_bitmap := None\<rparr>"

text \<open>The last part of \<open>cam_mem_util_unmap\<close>: the slot is emptied and the reference of the table dropped.\<close>

definition clear_slot :: "nat \<Rightarrow> mem \<Rightarrow> mem" where
  "clear_slot idx s =
     (let s1 = put_if (dma_buf (bufq s idx)) s
      in set_bit_at idx False (upd_bufq idx (\<lambda>q. q\<lparr>bq_flags := 0, bq_handle := -1, bq_vaddr := 0,
           bq_hdls := replicate CAM_MEM_MMU_MAX_HANDLE 0, bq_fd := -1, dma_buf := 0, is_imported := False, bq_len := 0,
           bq_num_hdl := 0, bq_active := False, kmdvaddr := 0\<rparr>) s1))"

definition cam_mem_util_unmap :: "mem_env \<Rightarrow> nat \<Rightarrow> cam_smmu_mapping_client \<Rightarrow> mem \<Rightarrow> mem \<times> int" where
  "cam_mem_util_unmap env idx client s =
     (if bad_idx idx then (s, code EINVAL)
      else
        (let q = bufq s idx; flags = bq_flags q in
         if \<not> bq_active q \<and> bq_vaddr q = 0 then (s, 0)
         else
           (let (s1, rc) =
              (if has_flag flags CAM_MEM_FLAG_KMD_ACCESS \<and> dma_buf q \<noteq> 0 \<and> kmdvaddr q \<noteq> 0
               then cam_mem_util_unmap_cpu_va env (dma_buf q) (kmdvaddr q) s else (s, 0));
                s2 =
              (if wants_hw flags
               then
                 (let s2 = fst (cam_mem_util_unmap_hw_va env idx (unmap_region flags) client s1) in
                  if client = CAM_SMMU_MAPPING_KERNEL then upd_bufq idx (\<lambda>q. q\<lparr>dma_buf := 0\<rparr>) s2 else s2)
               else s1)
            in (clear_slot idx s2, rc))))"

definition cam_mem_mgr_release :: "mem_env \<Rightarrow> u32 option \<Rightarrow> mem \<Rightarrow> mem \<times> int" where
  "cam_mem_mgr_release env cmd s =
     (if \<not> mgr_init s then (s, code EINVAL)
      else
        (case cmd of
           None \<Rightarrow> (s, code EINVAL)
         | Some h \<Rightarrow>
             (let idx = CAM_MEM_MGR_GET_HDL_IDX h; q = bufq s idx in
              if bad_idx idx then (s, code EINVAL)
              else if \<not> bq_active q then (s, code EINVAL)
              else if bq_handle q \<noteq> h then (s, code EINVAL)
              else cam_mem_util_unmap env idx CAM_SMMU_MAPPING_USER s)))"

subsection \<open>Memory of the drivers\<close>

record cam_mem_mgr_request_desc =
  rd_size :: u64
  rd_smmu_hdl :: u32
  rd_flags :: u32

record cam_mem_mgr_memory_desc =
  md_kva :: ptr
  md_iova :: u32
  md_smmu_hdl :: u32
  md_mem_handle :: u32
  md_len :: u64
  md_region :: cam_smmu_region_id

definition kernel_fill :: "ptr \<Rightarrow> u32 \<Rightarrow> ptr \<Rightarrow> u64 \<Rightarrow> u64 \<Rightarrow> u32 \<Rightarrow> nat \<Rightarrow> mem \<Rightarrow> mem" where
  "kernel_fill b flags kva iova n smmu_hdl idx s =
     upd_bufq idx (\<lambda>q. q\<lparr>dma_buf := b, bq_fd := -1, bq_flags := flags, bq_handle := GET_MEM_HANDLE idx (-1),
       kmdvaddr := kva, bq_vaddr := iova, bq_len := n, bq_num_hdl := 1,
       bq_hdls := copy_hdls 1 [smmu_hdl] (bq_hdls q), is_imported := False\<rparr>) s"

definition cam_mem_mgr_request_mem ::
  "mem_env \<Rightarrow> cam_mem_mgr_request_desc option \<Rightarrow> mem \<Rightarrow> mem \<times> int \<times> cam_mem_mgr_memory_desc option" where
  "cam_mem_mgr_request_mem env inp s =
     (if \<not> mgr_init s then (s, code EINVAL, None)
      else
        (case inp of
           None \<Rightarrow> (s, code EINVAL, None)
         | Some inp \<Rightarrow>
             (let fl = rd_flags inp in
              if \<not> (has_flag fl CAM_MEM_FLAG_HW_READ_WRITE \<or> has_flag fl CAM_MEM_FLAG_HW_SHARED_ACCESS
                    \<or> has_flag fl CAM_MEM_FLAG_CACHE)
              then (s, code EINVAL, None)
              else
                (case cam_mem_util_get_dma_buf env (rd_size inp) ION_SYSTEM_CAMERA
                        (if has_flag fl CAM_MEM_FLAG_CACHE then [ION_FLAG_CACHED] else []) s of
                   (s1, Inl e) \<Rightarrow> (s1, code e, None)
                 | (s1, Inr b) \<Rightarrow>
                     (let flags = fl OR CAM_MEM_FLAG_KMD_ACCESS;
                          (s2, rc, kva, n) = cam_mem_util_map_cpu_va env b s1
                      in if rc \<noteq> 0 then (dma_buf_put b s2, rc, None)
                         else if rd_smmu_hdl inp = 0
                         then (dma_buf_put b (fst (cam_mem_util_unmap_cpu_va env b kva s2)), code EINVAL, None)
                         else
                           (let region = unmap_region flags;
                                (rc, iova, dropped) = me_mapk env region;
                                s3 = (if dropped then dma_buf_put b s2
                                      else if rc < 0 then s2
                                      else smmu_map_kernel (rd_smmu_hdl inp) (By_buf b) b s2)
                            in if rc < 0
                               then (dma_buf_put b (fst (cam_mem_util_unmap_cpu_va env b kva s3)), rc, None)
                               else
                                 (case cam_mem_get_slot s3 of
                                    None \<Rightarrow>
                                      (let s4 = (if me_unmapk env 0 region < 0 then s3
                                                 else smmu_unmap (rd_smmu_hdl inp) (By_buf b) s3)
                                       in (dma_buf_put b (fst (cam_mem_util_unmap_cpu_va env b kva s4)), code ENOMEM, None))
                                  | Some (s4, idx) \<Rightarrow>
                                      (kernel_fill b flags kva iova (rd_size inp) (rd_smmu_hdl inp) idx s4, rc,
                                       Some \<lparr>md_kva = kva, md_iova = ucast iova, md_smmu_hdl = rd_smmu_hdl inp,
                                         md_mem_handle = GET_MEM_HANDLE idx (-1), md_len = rd_size inp,
                                         md_region = region\<rparr>)))))))) "

definition cam_mem_mgr_release_mem :: "mem_env \<Rightarrow> cam_mem_mgr_memory_desc option \<Rightarrow> mem \<Rightarrow> mem \<times> int" where
  "cam_mem_mgr_release_mem env inp s =
     (if \<not> mgr_init s then (s, code EINVAL)
      else
        (case inp of
           None \<Rightarrow> (s, code EINVAL)
         | Some inp \<Rightarrow>
             (let idx = CAM_MEM_MGR_GET_HDL_IDX (md_mem_handle inp); q = bufq s idx in
              if bad_idx idx then (s, code EINVAL)
              else if \<not> bq_active q then (s, if bq_vaddr q = 0 then 0 else code EINVAL)
              else if bq_handle q \<noteq> md_mem_handle inp then (s, code EINVAL)
              else cam_mem_util_unmap env idx CAM_SMMU_MAPPING_KERNEL s)))"

definition cam_mem_mgr_reserve_memory_region ::
  "mem_env \<Rightarrow> cam_mem_mgr_request_desc option \<Rightarrow> cam_smmu_region_id \<Rightarrow> mem \<Rightarrow> mem \<times> int \<times> cam_mem_mgr_memory_desc option" where
  "cam_mem_mgr_reserve_memory_region env inp region s =
     (if \<not> mgr_init s then (s, code EINVAL, None)
      else
        (case inp of
           None \<Rightarrow> (s, code EINVAL, None)
         | Some inp \<Rightarrow>
             (if rd_smmu_hdl inp = 0 then (s, code EINVAL, None)
              else if region \<noteq> CAM_SMMU_REGION_SECHEAP then (s, code EINVAL, None)
              else
                (case cam_mem_util_get_dma_buf env (rd_size inp) ION_SYSTEM_CAMERA [] s of
                   (s1, Inl e) \<Rightarrow> (s1, code e, None)
                 | (s1, Inr b) \<Rightarrow>
                     (let (rc, iova, n, dropped) = me_reserve env;
                          s2 = (if dropped then dma_buf_put b s1
                                else if rc \<noteq> 0 then s1
                                else smmu_map_kernel (rd_smmu_hdl inp) Sec_heap b s1)
                      in if rc \<noteq> 0 then (dma_buf_put b s2, rc, None)
                         else
                           (case cam_mem_get_slot s2 of
                              None \<Rightarrow>
                                (dma_buf_put b
                                   (if me_release_heap env \<noteq> 0 then s2 else smmu_unmap (rd_smmu_hdl inp) Sec_heap s2),
                                 code ENOMEM, None)
                            | Some (s3, idx) \<Rightarrow>
                                (kernel_fill b (rd_flags inp) 0 iova n (rd_smmu_hdl inp) idx s3, rc,
                                 Some \<lparr>md_kva = 0, md_iova = ucast iova, md_smmu_hdl = rd_smmu_hdl inp,
                                   md_mem_handle = GET_MEM_HANDLE idx (-1), md_len = n, md_region = region\<rparr>))))))) "

definition cam_mem_mgr_free_memory_region :: "mem_env \<Rightarrow> cam_mem_mgr_memory_desc option \<Rightarrow> mem \<Rightarrow> mem \<times> int" where
  "cam_mem_mgr_free_memory_region env inp s =
     (if \<not> mgr_init s then (s, code EINVAL)
      else
        (case inp of
           None \<Rightarrow> (s, code EINVAL)
         | Some inp \<Rightarrow>
             (if md_region inp \<noteq> CAM_SMMU_REGION_SECHEAP then (s, code EINVAL)
              else
                (let idx = CAM_MEM_MGR_GET_HDL_IDX (md_mem_handle inp); q = bufq s idx in
                 if bad_idx idx then (s, code EINVAL)
                 else if \<not> bq_active q then (s, if bq_vaddr q = 0 then 0 else code EINVAL)
                 else if bq_handle q \<noteq> md_mem_handle inp then (s, code EINVAL)
                 else if bq_num_hdl q \<noteq> 1 then (s, code ENODEV)
                 else if md_smmu_hdl inp \<noteq> bq_hdls q ! 0 then (s, code ENODEV)
                 else if me_release_heap env \<noteq> 0 then (s, code ENODEV)
                 else
                   cam_mem_util_unmap env idx CAM_SMMU_MAPPING_KERNEL (smmu_unmap (md_smmu_hdl inp) Sec_heap s)))))"

end
