(* ===== verification/Cam_Mem_Props.thy ===== *)
theory Cam_Mem_Props
  imports Cam_Mem_Mgr
begin

text \<open>
  The memory manager keeps its table: the bitmap says which slots are in use, every slot in use is named by a
  handle that leads back to it, and no protected buffer of user space is mapped into the kernel.
\<close>

subsection \<open>Calls that do not touch the table\<close>

definition tabl :: "mem \<Rightarrow> bool \<times> bitmap option \<times> nat \<times> (nat \<Rightarrow> cam_mem_buf_queue)" where
  "tabl s = (mgr_init s, mt_bitmap s, mt_bits s, bufq s)"

lemma tabl_effects [simp]:
  "tabl (dma_buf_ref b n s) = tabl s" "tabl (cpu_access b n s) = tabl s" "tabl (add_pages b n s) = tabl s"
  "tabl (smmu_map h k b s) = tabl s" "tabl (smmu_map_kernel h k b s) = tabl s" "tabl (smmu_unmap h k s) = tabl s"
  "tabl (put_if b s) = tabl s" "tabl (s\<lparr>fds := x\<rparr>) = tabl s"
  by (simp_all add: tabl_def dma_buf_ref_def cpu_access_def add_pages_def smmu_map_def smmu_map_kernel_def
      smmu_unmap_def put_if_def Let_def split: option.split)

lemma tabl_map_loop [simp]: "tabl (fst (map_loop f fd b i hs r s)) = tabl s"
  by (induction hs arbitrary: i r s) simp_all

lemma tabl_unmap_loop [simp]: "tabl (fst (unmap_loop u k i hs r s)) = tabl s"
  by (induction hs arbitrary: i r s) simp_all

lemma tabl_unmap_down [simp]: "tabl (unmap_down u fd hs i s) = tabl s"
proof -
  have "tabl (fold (\<lambda>j s. if u j < 0 then s else smmu_unmap (hs ! j) (By_fd fd) s) js s) = tabl s" for js
    by (induction js arbitrary: s) simp_all
  then show ?thesis by (simp add: unmap_down_def)
qed

lemma tabl_map_hw [simp]: "tabl (fst (cam_mem_util_map_hw_va env fl hs n fd va l rg s)) = tabl s"
proof -
  have "tabl s1 = tabl s" if "map_loop f fd b i xs r s = (s1, x, y)" for f b i xs r s1 x y
    using tabl_map_loop [of f fd b i xs r s] that by simp
  then show ?thesis
    by (auto simp: cam_mem_util_map_hw_va_def Let_def split: option.split prod.split)
qed

lemma tabl_map_cpu [simp]: "tabl (fst (cam_mem_util_map_cpu_va env b s)) = tabl s"
  by (simp add: cam_mem_util_map_cpu_va_def Let_def split: option.split)

lemma tabl_unmap_cpu [simp]: "tabl (fst (cam_mem_util_unmap_cpu_va env b va s)) = tabl s"
  by (simp add: cam_mem_util_unmap_cpu_va_def)

lemma tabl_unmap_hw [simp]: "tabl (fst (cam_mem_util_unmap_hw_va env idx rg c s)) = tabl s"
  by (simp add: cam_mem_util_unmap_hw_va_def Let_def split: cam_smmu_mapping_client.split)

lemma tabl_get_dma_buf [simp]: "tabl (fst (cam_mem_util_get_dma_buf env n heap fl s)) = tabl s"
  by (simp add: cam_mem_util_get_dma_buf_def Let_def)

lemma tabl_ion_alloc [simp]: "tabl (fst (cam_mem_util_ion_alloc env cmd s)) = tabl s"
  by (simp add: cam_mem_util_ion_alloc_def cam_mem_util_get_dma_buf_fd_def Let_def split: prod.split)

lemma tabl_cases:
  assumes "tabl t = tabl s"
  shows "mgr_init t = mgr_init s" "mt_bitmap t = mt_bitmap s" "mt_bits t = mt_bits s" "bufq t = bufq s"
  using assms by (simp_all add: tabl_def)

subsection \<open>Slots\<close>

text \<open>The interface of a table of slots, as the operations of the manager use it.\<close>

locale slot_table =
  fixes inv :: "'s \<Rightarrow> bool"
    and take_slot :: "'s \<Rightarrow> ('s \<times> nat) option"
    and give_slot :: "nat \<Rightarrow> 's \<Rightarrow> 's"
    and used :: "'s \<Rightarrow> nat set"
    and cap :: nat
  assumes take_Some: "inv s \<Longrightarrow> take_slot s = Some (t, i) \<Longrightarrow> inv t \<and> i < cap \<and> i \<notin> used s \<and> used t = insert i (used s)"
    and take_None: "inv s \<Longrightarrow> take_slot s = None \<longleftrightarrow> {..<cap} \<subseteq> used s"
    and give: "inv s \<Longrightarrow> 0 < i \<Longrightarrow> i < cap \<Longrightarrow> inv (give_slot i s) \<and> used (give_slot i s) = used s - {i}"
    and zero_used: "inv s \<Longrightarrow> 0 \<in> used s"
begin

lemma take_pos: "inv s \<Longrightarrow> take_slot s = Some (t, i) \<Longrightarrow> 0 < i \<and> i < cap"
  using take_Some zero_used by (metis gr0I)

lemma take_give: "inv s \<Longrightarrow> take_slot s = Some (t, i) \<Longrightarrow> inv (give_slot i t) \<and> used (give_slot i t) = used s"
  using take_pos take_Some [of s t i] give [of t i] by auto

lemma take_twice: "inv s \<Longrightarrow> take_slot s = Some (t, i) \<Longrightarrow> take_slot t = Some (u, j) \<Longrightarrow> i \<noteq> j"
  using take_Some by blast

lemma give_makes_room: "inv s \<Longrightarrow> 0 < i \<Longrightarrow> i < cap \<Longrightarrow> take_slot (give_slot i s) \<noteq> None"
  using give [of s i] take_None [of "give_slot i s"] by auto

end

definition slots_ok :: "mem \<Rightarrow> bool" where
  "slots_ok s \<longleftrightarrow> (\<exists>bm. mt_bitmap s = Some bm \<and> bm 0 \<and> mt_bits s = CAM_MEM_BUFQ_MAX \<and> \<not> bq_active (bufq s 0)
     \<and> (\<forall>i. 0 < i \<and> i < CAM_MEM_BUFQ_MAX \<longrightarrow> bm i = bq_active (bufq s i)))"

definition slots_used :: "mem \<Rightarrow> nat set" where
  "slots_used s = {i. i < CAM_MEM_BUFQ_MAX \<and> the (mt_bitmap s) i}"

lemma get_slot_None: "slots_ok s \<Longrightarrow> cam_mem_get_slot s = None \<longleftrightarrow> {..<CAM_MEM_BUFQ_MAX} \<subseteq> slots_used s"
  using find_first_zero_bit_full [of CAM_MEM_BUFQ_MAX "the (mt_bitmap s)"]
    find_first_zero_bit_pos [of "the (mt_bitmap s)" CAM_MEM_BUFQ_MAX]
  by (auto simp: slots_ok_def slots_used_def cam_mem_get_slot_def Let_def)

lemma get_slot_Some:
  assumes "slots_ok s" "cam_mem_get_slot s = Some (t, i)"
  shows "0 < i" "i < CAM_MEM_BUFQ_MAX" "\<not> bq_active (bufq s i)"
    "t = upd_bufq i (\<lambda>b. b\<lparr>bq_active := True\<rparr>) (set_bit_at i True s)"
    "\<not> the (mt_bitmap s) i"
proof -
  let ?k = "find_first_zero_bit (the (mt_bitmap s)) (mt_bits s)"
  have k: "?k < CAM_MEM_BUFQ_MAX" "?k \<noteq> 0" "i = ?k" and t: "t = upd_bufq i (\<lambda>b. b\<lparr>bq_active := True\<rparr>) (set_bit_at i True s)"
    using assms(2) by (auto simp: cam_mem_get_slot_def Let_def split: if_splits)
  then show "0 < i" "i < CAM_MEM_BUFQ_MAX" by auto
  show t: "t = upd_bufq i (\<lambda>b. b\<lparr>bq_active := True\<rparr>) (set_bit_at i True s)" by (fact t)
  show n: "\<not> the (mt_bitmap s) i"
    using k assms(1) find_first_zero_bit_clear [of "the (mt_bitmap s)" "mt_bits s"] by (auto simp: slots_ok_def)
  show "\<not> bq_active (bufq s i)" using n k assms(1) by (auto simp: slots_ok_def)
qed

lemma slots_ok_take: "slots_ok s \<Longrightarrow> cam_mem_get_slot s = Some (t, i) \<Longrightarrow> slots_ok t \<and> slots_used t = insert i (slots_used s)"
  using get_slot_Some [of s t i] by (auto simp: slots_ok_def slots_used_def upd_bufq_def set_bit_at_def)

lemma slots_ok_give:
  "slots_ok s \<Longrightarrow> 0 < i \<Longrightarrow> i < CAM_MEM_BUFQ_MAX \<Longrightarrow>
     slots_ok (cam_mem_put_slot i s) \<and> slots_used (cam_mem_put_slot i s) = slots_used s - {i}"
  by (auto simp: slots_ok_def slots_used_def cam_mem_put_slot_def upd_bufq_def set_bit_at_def split: if_splits)

interpretation mem_slots: slot_table slots_ok cam_mem_get_slot cam_mem_put_slot slots_used CAM_MEM_BUFQ_MAX
proof unfold_locales
  fix s t i assume a: "slots_ok s" "cam_mem_get_slot s = Some (t, i)"
  show "slots_ok t \<and> i < CAM_MEM_BUFQ_MAX \<and> i \<notin> slots_used s \<and> slots_used t = insert i (slots_used s)"
    using slots_ok_take [OF a] get_slot_Some [OF a] by (simp add: slots_used_def)
next
  fix s assume "slots_ok s"
  then show "(cam_mem_get_slot s = None) = ({..<CAM_MEM_BUFQ_MAX} \<subseteq> slots_used s)" by (rule get_slot_None)
next
  fix s i assume "slots_ok s" "0 < i" "i < CAM_MEM_BUFQ_MAX"
  then show "slots_ok (cam_mem_put_slot i s) \<and> slots_used (cam_mem_put_slot i s) = slots_used s - {i}"
    by (rule slots_ok_give)
next
  fix s assume "slots_ok s"
  then show "0 \<in> slots_used s" by (auto simp: slots_ok_def slots_used_def)
qed

subsection \<open>Handles\<close>

lemma idx_mask: "(push_bit 15 1 - 1 :: u32) = mask 15"
  by (simp add: mask_eq_exp_minus_1 push_bit_eq_mult)

lemma bit15: "bit (32768 :: int) n \<longleftrightarrow> n = 15"
  using bit_exp_iff [of 15 n, where 'a = int] by simp

lemma mask15: "(32767 :: u32) = mask 15"
  by (simp add: mask_eq_exp_minus_1)

lemma idx_bits: "i < CAM_MEM_BUFQ_MAX \<Longrightarrow> bit (of_nat i :: u32) n \<Longrightarrow> n < 10"
proof -
  assume "i < CAM_MEM_BUFQ_MAX" and b: "bit (of_nat i :: u32) n"
  then have "take_bit 10 i = i" by (simp add: take_bit_nat_eq_self)
  then have "take_bit 10 (of_nat i :: u32) = of_nat i" by (metis of_nat_take_bit)
  then show "n < 10" using b by (metis bit_take_bit_iff)
qed

lemma hdl_bits:
  assumes "i < CAM_MEM_BUFQ_MAX" "n < 16"
  shows "bit (GET_MEM_HANDLE i fd) n \<longleftrightarrow> bit (of_nat i :: u32) n"
  using assms idx_bits [OF assms(1), of n] unfolding GET_MEM_HANDLE_def idx_mask
  by (auto simp: bit_or_iff bit_and_iff bit_mask_iff bit_push_bit_iff)

lemma idx_of_bits:
  assumes "i < CAM_MEM_BUFQ_MAX" "\<And>n. n < 15 \<Longrightarrow> bit h n \<longleftrightarrow> bit (of_nat i :: u32) n"
  shows "CAM_MEM_MGR_GET_HDL_IDX h = i"
proof -
  have "(h AND mask 15 :: u32) = of_nat i"
  proof (rule bit_word_eqI)
    fix n
    show "bit (h AND mask 15) n = bit (of_nat i :: u32) n"
      using assms(2) [of n] idx_bits [OF assms(1), of n] by (auto simp: bit_and_iff bit_mask_iff)
  qed
  then show ?thesis using assms(1) by (simp add: CAM_MEM_MGR_GET_HDL_IDX_def mask15 unat_of_nat_u32)
qed

lemma secure_bit: "CAM_MEM_MGR_IS_SECURE_HDL h \<longleftrightarrow> bit h 15"
proof -
  have "bit (drop_bit 15 (h AND push_bit 15 1)) 0 = bit h 15"
    unfolding bit_drop_bit_eq by (simp add: bit_and_iff bit_push_bit_iff)
  moreover have "bit (drop_bit 15 (h AND push_bit 15 1)) n \<Longrightarrow> n = 0" for n
    unfolding bit_drop_bit_eq by (simp add: bit_and_iff bit15)
  ultimately show ?thesis unfolding CAM_MEM_MGR_IS_SECURE_HDL_def by (metis bit_0_eq bit_eqI bot_apply bot_bool_def)
qed

lemma make_handle_idx: "i < CAM_MEM_BUFQ_MAX \<Longrightarrow> CAM_MEM_MGR_GET_HDL_IDX (make_handle i fd fl) = i"
  by (rule idx_of_bits) (auto simp: make_handle_def CAM_MEM_MGR_SET_SECURE_HDL_def hdl_bits bit_or_iff bit15)

lemma hdl_idx: "i < CAM_MEM_BUFQ_MAX \<Longrightarrow> CAM_MEM_MGR_GET_HDL_IDX (GET_MEM_HANDLE i fd) = i"
  by (rule idx_of_bits) (auto simp: hdl_bits)

lemma make_handle_secure:
  "i < CAM_MEM_BUFQ_MAX \<Longrightarrow> CAM_MEM_MGR_IS_SECURE_HDL (make_handle i fd fl) = has_flag fl CAM_MEM_FLAG_PROTECTED_MODE"
  using idx_bits [of i 15]
  by (auto simp: secure_bit make_handle_def CAM_MEM_MGR_SET_SECURE_HDL_def hdl_bits bit_or_iff bit15)

subsection \<open>The invariant\<close>

definition slot_ok :: "nat \<Rightarrow> cam_mem_buf_queue \<Rightarrow> bool" where
  "slot_ok i q \<longleftrightarrow> CAM_MEM_MGR_GET_HDL_IDX (bq_handle q) = i
     \<and> (bq_fd q \<ge> 0 \<longrightarrow> CAM_MEM_MGR_IS_SECURE_HDL (bq_handle q) = has_flag (bq_flags q) CAM_MEM_FLAG_PROTECTED_MODE)
     \<and> (kmdvaddr q \<noteq> 0 \<longrightarrow> has_flag (bq_flags q) CAM_MEM_FLAG_KMD_ACCESS)
     \<and> (bq_fd q \<ge> 0 \<longrightarrow> \<not> secure_and_kernel (bq_flags q))
     \<and> dma_buf q \<noteq> 0"

definition mem_ok :: "mem \<Rightarrow> bool" where
  "mem_ok s \<longleftrightarrow> (mgr_init s \<longrightarrow> slots_ok s)
     \<and> (\<forall>i. length (bq_hdls (bufq s i)) = CAM_MEM_MMU_MAX_HANDLE \<and> bq_num_hdl (bufq s i) \<le> CAM_MEM_MMU_MAX_HANDLE)
     \<and> (\<forall>i. bq_active (bufq s i) \<longrightarrow> mgr_init s \<and> 0 < i \<and> i < CAM_MEM_BUFQ_MAX \<and> slot_ok i (bufq s i))"

lemma mem_ok_tabl: "tabl t = tabl s \<Longrightarrow> mem_ok t \<longleftrightarrow> mem_ok s"
  by (simp add: mem_ok_def slots_ok_def tabl_def)

lemma tabl_upd: "tabl (upd_bufq i f s) = (mgr_init s, mt_bitmap s, mt_bits s, (bufq s)(i := f (bufq s i)))"
  by (simp add: tabl_def upd_bufq_def)

lemma tabl_put_slot:
  "tabl (cam_mem_put_slot i s) =
     (mgr_init s, map_option (\<lambda>b. b(i := False)) (mt_bitmap s), mt_bits s, (bufq s)(i := (bufq s i)\<lparr>bq_active := False\<rparr>))"
  by (simp add: tabl_def upd_bufq_def set_bit_at_def cam_mem_put_slot_def)

lemma tabl_get_slot:
  assumes "slots_ok s" "cam_mem_get_slot s = Some (t, i)"
  shows "tabl t = (mgr_init s, map_option (\<lambda>b. b(i := True)) (mt_bitmap s), mt_bits s,
    (bufq s)(i := (bufq s i)\<lparr>bq_active := True\<rparr>))"
  using get_slot_Some(4) [OF assms] by (simp add: tabl_def upd_bufq_def set_bit_at_def)

text \<open>Every operation that changes the table writes one slot and the bit that goes with it.\<close>

definition hdls_ok :: "cam_mem_buf_queue \<Rightarrow> bool" where
  "hdls_ok q \<longleftrightarrow> length (bq_hdls q) = CAM_MEM_MMU_MAX_HANDLE \<and> bq_num_hdl q \<le> CAM_MEM_MMU_MAX_HANDLE"

lemma mem_ok_hdls: "mem_ok s \<Longrightarrow> hdls_ok (bufq s i)"
  by (simp add: mem_ok_def hdls_ok_def)

lemma mem_ok_slots: "mem_ok s \<Longrightarrow> mgr_init s \<Longrightarrow> slots_ok s"
  by (simp add: mem_ok_def)

lemma mem_ok_write:
  assumes "mem_ok s" "mgr_init s" "0 < i" "i < CAM_MEM_BUFQ_MAX"
    and t: "tabl t = (True, map_option (\<lambda>b. b(i := bq_active q)) (mt_bitmap s), mt_bits s, (bufq s)(i := q))"
    and q: "hdls_ok q" "bq_active q \<Longrightarrow> slot_ok i q"
  shows "mem_ok t"
proof -
  have e: "mgr_init t" "mt_bitmap t = map_option (\<lambda>b. b(i := bq_active q)) (mt_bitmap s)" "mt_bits t = mt_bits s"
    "bufq t = (bufq s)(i := q)"
    using t by (simp_all add: tabl_def)
  have "slots_ok t" using mem_ok_slots [OF assms(1,2)] assms(3,4) by (auto simp: slots_ok_def e)
  then show ?thesis using assms(1,2,3,4) q by (auto simp: mem_ok_def hdls_ok_def e)
qed

lemma copy_hdls_length:
  "n \<le> k \<Longrightarrow> length src = k \<Longrightarrow> length dst = k \<Longrightarrow> length (copy_hdls n src dst) = k"
  by (simp add: copy_hdls_def)

text \<open>Giving back a slot that was taken.\<close>

lemma mem_ok_undo:
  assumes "mem_ok s" "mgr_init s" "cam_mem_get_slot s = Some (s1, i)"
    and "mgr_init t = mgr_init s1" "mt_bitmap t = mt_bitmap s1" "mt_bits t = mt_bits s1" "bufq t = (bufq s1)(i := q)" "hdls_ok q"
  shows "mem_ok (cam_mem_put_slot i t)"
proof (rule mem_ok_write [OF assms(1,2), of i _ "q\<lparr>bq_active := False\<rparr>"])
  note g = get_slot_Some [OF mem_ok_slots [OF assms(1,2)] assms(3)]
  show "0 < i" "i < CAM_MEM_BUFQ_MAX" using g by simp_all
  show "hdls_ok (q\<lparr>bq_active := False\<rparr>)" using assms(8) by (simp add: hdls_ok_def)
  show "tabl (cam_mem_put_slot i t) = (True, map_option (\<lambda>b. b(i := bq_active (q\<lparr>bq_active := False\<rparr>))) (mt_bitmap s),
      mt_bits s, (bufq s)(i := q\<lparr>bq_active := False\<rparr>))"
    unfolding tabl_put_slot assms(4-7) using g(4) assms(2)
    by (cases "mt_bitmap s") (auto simp: upd_bufq_def set_bit_at_def)
qed simp

lemma mem_ok_fill:
  assumes "mem_ok s" "mgr_init s" "cam_mem_get_slot s = Some (s1, i)"
    and "mgr_init t = mgr_init s1" "mt_bitmap t = mt_bitmap s1" "mt_bits t = mt_bits s1" "bufq t = (bufq s1)(i := q)"
    and "hdls_ok q" "bq_active q" "slot_ok i q"
  shows "mem_ok t"
proof (rule mem_ok_write [OF assms(1,2), of i _ q])
  note g = get_slot_Some [OF mem_ok_slots [OF assms(1,2)] assms(3)]
  show "0 < i" "i < CAM_MEM_BUFQ_MAX" using g by simp_all
  show "tabl t = (True, map_option (\<lambda>b. b(i := bq_active q)) (mt_bitmap s), mt_bits s, (bufq s)(i := q))"
    unfolding tabl_def assms(4-7) using g(4) assms(2,9)
    by (cases "mt_bitmap s") (auto simp: upd_bufq_def set_bit_at_def)
qed (use assms in auto)

subsection \<open>Every operation keeps it\<close>

lemma init_ok:
  assumes "\<not> mgr_init s" "mem_ok s"
  shows "mem_ok (fst (cam_mem_mgr_init env s))"
  using assms by (auto simp: mem_ok_def slots_ok_def cam_mem_mgr_init_def zero_bufq_def Let_def)

lemma mem_ok_eq: "mem_ok s \<Longrightarrow> tabl t = tabl s \<Longrightarrow> mem_ok t"
  using mem_ok_tabl by blast

lemma map_cpu_cases:
  assumes "cam_mem_util_map_cpu_va env b s = (t, rc, va, n)"
  shows "tabl t = tabl s"
  using tabl_map_cpu [of env b s] assms by simp

lemma alloc_fill_ok:
  assumes "mem_ok s" "mgr_init s" "cam_mem_get_slot s = Some (s1, i)" "tabl s2 = tabl s1"
    and cmd: "cam_mem_util_check_alloc_flags cmd = 0" "length (ac_mmu_hdls cmd) = CAM_MEM_MMU_MAX_HANDLE"
    and "b \<noteq> 0" "fd \<ge> 0"
  shows "mem_ok (fst (alloc_fill env cmd b fd va i s2))"
proof -
  define h where "h = make_handle i fd (ac_flags cmd)"
  define t1 where "t1 = upd_bufq i (\<lambda>q. q\<lparr>bq_fd := fd, dma_buf := 0, bq_flags := ac_flags cmd, bq_handle := h\<rparr>) s2"
  define r where "r = (if has_flag (ac_flags cmd) CAM_MEM_FLAG_KMD_ACCESS then cam_mem_util_map_cpu_va env b t1
    else (t1, 0, 0, 0))"
  obtain t2 rc kva kn where r': "r = (t2, rc, kva, kn)" by (cases r) auto
  have "tabl t2 = tabl t1" using r' map_cpu_cases [of env b t1] by (auto simp: r_def split: if_splits)
  note e = tabl_cases [OF this] and e2 = tabl_cases [OF assms(4)]
  have k: "kva \<noteq> 0 \<Longrightarrow> has_flag (ac_flags cmd) CAM_MEM_FLAG_KMD_ACCESS" using r' by (auto simp: r_def split: if_splits)
  note g = get_slot_Some [OF mem_ok_slots [OF assms(1,2)] assms(3)]
  have a: "bq_active (bufq s2 i)" using g(4) e2 by (simp add: upd_bufq_def)
  have l: "hdls_ok (bufq s2 i)"
    using mem_ok_hdls [OF assms(1), of i] g(4) e2 by (simp add: upd_bufq_def set_bit_at_def hdls_ok_def)
  have f: "\<not> secure_and_kernel (ac_flags cmd)" "ac_num_hdl cmd \<le> CAM_MEM_MMU_MAX_HANDLE"
    using cmd(1) code_neg [of EINVAL] by (auto simp: cam_mem_util_check_alloc_flags_def split: if_splits)
  have fill: "alloc_fill env cmd b fd va i s2 =
     (if rc \<noteq> 0 then (dma_buf_put b (cam_mem_put_slot i t2), rc, None)
      else (upd_bufq i (\<lambda>q. q\<lparr>kmdvaddr := kva, bq_vaddr := va, dma_buf := b, bq_len := ac_len cmd,
                bq_num_hdl := ac_num_hdl cmd, bq_hdls := copy_hdls (ac_num_hdl cmd) (ac_mmu_hdls cmd) (bq_hdls q),
                is_imported := False\<rparr>) t2, rc, Some (h, fd)))"
    using r' unfolding r_def t1_def h_def by (simp add: alloc_fill_def Let_def)
  show ?thesis
  proof (cases "rc = 0")
    case True
    have "mem_ok (upd_bufq i (\<lambda>q. q\<lparr>kmdvaddr := kva, bq_vaddr := va, dma_buf := b, bq_len := ac_len cmd,
                bq_num_hdl := ac_num_hdl cmd, bq_hdls := copy_hdls (ac_num_hdl cmd) (ac_mmu_hdls cmd) (bq_hdls q),
                is_imported := False\<rparr>) t2)"
      by (rule mem_ok_fill [OF assms(1-3), where q = "(bufq t2 i)\<lparr>kmdvaddr := kva, bq_vaddr := va, dma_buf := b,
            bq_len := ac_len cmd, bq_num_hdl := ac_num_hdl cmd,
            bq_hdls := copy_hdls (ac_num_hdl cmd) (ac_mmu_hdls cmd) (bq_hdls (bufq t2 i)), is_imported := False\<rparr>"])
         (use a l f k cmd(2) assms(7,8) g(2) in \<open>auto simp: upd_bufq_def e t1_def e2 hdls_ok_def copy_hdls_def slot_ok_def
            h_def make_handle_idx make_handle_secure\<close>)
    then show ?thesis using True fill by simp
  next
    case False
    have "mem_ok (cam_mem_put_slot i t2)"
      by (rule mem_ok_undo [OF assms(1-3), where q = "bufq t2 i"])
         (use l in \<open>auto simp: upd_bufq_def e t1_def e2 hdls_ok_def\<close>)
    then show ?thesis using False fill by (auto elim!: mem_ok_eq)
  qed
qed

lemma ion_alloc_Ok: "cam_mem_util_ion_alloc env cmd s = (s1, Inr (b, fd)) \<Longrightarrow> b \<noteq> 0 \<and> fd \<ge> 0 \<and> tabl s1 = tabl s"
  using tabl_ion_alloc [of env cmd s]
  by (auto simp: cam_mem_util_ion_alloc_def cam_mem_util_get_dma_buf_fd_def Let_def split: prod.splits if_splits)

lemma ion_alloc_Err: "cam_mem_util_ion_alloc env cmd s = (s1, Inl e) \<Longrightarrow> tabl s1 = tabl s"
  using tabl_ion_alloc [of env cmd s] by simp

lemma get_dma_buf_Ok: "cam_mem_util_get_dma_buf env n heap fl s = (s1, Inr b) \<Longrightarrow> b \<noteq> 0 \<and> tabl s1 = tabl s"
  using tabl_get_dma_buf [of env n heap fl s] by (auto simp: cam_mem_util_get_dma_buf_def Let_def split: if_splits)

lemma get_dma_buf_Err: "cam_mem_util_get_dma_buf env n heap fl s = (s1, Inl e) \<Longrightarrow> tabl s1 = tabl s"
  using tabl_get_dma_buf [of env n heap fl s] by simp

lemma map_hw_tabl: "cam_mem_util_map_hw_va env fl hs n fd va l rg s = (t, x) \<Longrightarrow> tabl t = tabl s"
  using tabl_map_hw [of env fl hs n fd va l rg s] by simp

text \<open>A slot taken and given back with nothing of the table changed in between.\<close>

lemma mem_ok_untake:
  assumes "mem_ok s" "mgr_init s" "cam_mem_get_slot s = Some (s1, i)" "tabl t = tabl s1"
  shows "mem_ok (cam_mem_put_slot i t)"
proof (rule mem_ok_undo [OF assms(1-3), where q = "bufq t i"])
  show "hdls_ok (bufq t i)"
    using mem_ok_hdls [OF assms(1), of i] get_slot_Some(4) [OF mem_ok_slots [OF assms(1,2)] assms(3)] assms(4)
    by (simp add: tabl_def upd_bufq_def set_bit_at_def hdls_ok_def)
qed (use assms(4) in \<open>auto simp: tabl_def\<close>)

lemma alloc_ok:
  assumes "mem_ok s" "case cmd of None \<Rightarrow> True | Some c \<Rightarrow> length (ac_mmu_hdls c) = CAM_MEM_MMU_MAX_HANDLE"
  shows "mem_ok (fst (cam_mem_mgr_alloc_and_map env cmd s))"
proof (cases "mgr_init s \<and> (\<exists>c. cmd = Some c \<and> cam_mem_util_check_alloc_flags c = 0)")
  case False
  then show ?thesis using assms(1) by (auto simp: cam_mem_mgr_alloc_and_map_def Let_def split: option.splits)
next
  case True
  then obtain c where c: "cmd = Some c" "cam_mem_util_check_alloc_flags c = 0" and i: "mgr_init s" by blast
  obtain s1 r where r: "cam_mem_util_ion_alloc env c s = (s1, r)" by (meson surj_pair)
  show ?thesis
  proof (cases r)
    case (Inl e)
    then show ?thesis using r c i assms(1) ion_alloc_Err [of env c s s1 e]
      by (auto simp: cam_mem_mgr_alloc_and_map_def Let_def elim: mem_ok_eq)
  next
    case (Inr p)
    then obtain b fd where p: "r = Inr (b, fd)" by (cases p) auto
    have a: "b \<noteq> 0" "fd \<ge> 0" and t: "tabl s1 = tabl s" using ion_alloc_Ok r p by blast+
    have ok: "mem_ok s1" "mgr_init s1" using t assms(1) i mem_ok_eq by (blast, simp add: tabl_def)
    show ?thesis
    proof (cases "cam_mem_get_slot s1")
      case None
      then show ?thesis using r p c i ok(1) by (auto simp: cam_mem_mgr_alloc_and_map_def Let_def elim: mem_ok_eq)
    next
      case (Some z)
      then obtain s2 idx where g: "cam_mem_get_slot s1 = Some (s2, idx)" by (cases z) auto
      have fill: "mem_ok (fst (alloc_fill env c b fd va idx s3))" if "tabl s3 = tabl s2" for va s3
        using alloc_fill_ok [OF ok g that c(2) _ a] assms(2) c(1) by simp
      obtain s3 rc va n where m: "cam_mem_util_map_hw_va env (ac_flags c) (ac_mmu_hdls c) (ac_num_hdl c) fd 0
          (ac_len c) (alloc_region (ac_flags c)) s2 = (s3, rc, va, n)" by (metis prod_cases4)
      have u: "mem_ok (dma_buf_put b (cam_mem_put_slot idx s3))"
        using mem_ok_untake [OF ok g map_hw_tabl [OF m]] by (auto elim: mem_ok_eq)
      show ?thesis using r p c i g m u fill [of s3 va] fill [of s2 0] map_hw_tabl [OF m]
        by (simp add: cam_mem_mgr_alloc_and_map_def Let_def)
    qed
  qed
qed

lemma map_ok:
  assumes "mem_ok s" "case cmd of None \<Rightarrow> True | Some c \<Rightarrow> length (mc_mmu_hdls c) = CAM_MEM_MMU_MAX_HANDLE"
  shows "mem_ok (fst (cam_mem_mgr_map env cmd s))"
proof (cases "mgr_init s \<and> (\<exists>c. cmd = Some c \<and> mc_fd c \<ge> 0 \<and> cam_mem_util_check_map_flags c = 0 \<and> me_get env (mc_fd c) \<noteq> 0)")
  case False
  then show ?thesis using assms(1) by (auto simp: cam_mem_mgr_map_def Let_def split: option.splits)
next
  case True
  then obtain c where c: "cmd = Some c" "cam_mem_util_check_map_flags c = 0" and i: "mgr_init s"
    and fd: "mc_fd c \<ge> 0" and b: "me_get env (mc_fd c) \<noteq> 0" by blast
  define b where "b = me_get env (mc_fd c)"
  have n: "mc_num_hdl c \<le> CAM_MEM_MMU_MAX_HANDLE" "\<not> secure_and_kernel (mc_flags c)"
    using c(2) by (auto simp: cam_mem_util_check_map_flags_def split: if_splits)
  define r where "r = (if has_flag (mc_flags c) CAM_MEM_FLAG_HW_READ_WRITE \<or> has_flag (mc_flags c) CAM_MEM_FLAG_PROTECTED_MODE
    then cam_mem_util_map_hw_va env (mc_flags c) (mc_mmu_hdls c) (mc_num_hdl c) (mc_fd c) 0 0 CAM_SMMU_REGION_IO (dma_buf_ref b 1 s)
    else (dma_buf_ref b 1 s, 0, 0, 0))"
  obtain s2 rc va l where r: "r = (s2, rc, va, l)" by (cases r) auto
  have t: "tabl s2 = tabl s"
    using r map_hw_tabl [of env "mc_flags c" "mc_mmu_hdls c" "mc_num_hdl c" "mc_fd c" 0 0 CAM_SMMU_REGION_IO "dma_buf_ref b 1 s" s2]
    by (auto simp: r_def split: if_splits)
  have ok: "mem_ok s2" "mgr_init s2" using t assms(1) i mem_ok_eq by (blast, simp add: tabl_def)
  have e: "cam_mem_mgr_map env cmd s = (if rc \<noteq> 0 then (dma_buf_put b s2, rc, None)
     else (case cam_mem_get_slot s2 of None \<Rightarrow> (dma_buf_put b s2, code ENOMEM, None)
           | Some (s3, idx) \<Rightarrow> (map_fill c b va l idx s3, rc, Some (make_handle idx (mc_fd c) (mc_flags c)))))"
    using r c i fd b n(1) by (simp add: r_def cam_mem_mgr_map_def Let_def b_def not_less flip: b_def)
  have p: "mem_ok (dma_buf_put b s2)" using ok(1) by (auto elim: mem_ok_eq)
  have f: "mem_ok (map_fill c b va l idx s3)" if g: "cam_mem_get_slot s2 = Some (s3, idx)" for s3 idx
  proof -
    note g' = get_slot_Some [OF mem_ok_slots [OF ok] g]
    have l: "hdls_ok (bufq s2 idx)" using mem_ok_hdls [OF ok(1)] by blast
    show ?thesis
      by (rule mem_ok_fill [OF ok g, where q = "bufq (map_fill c b va l idx s3) idx"])
         (use g'(2) l n fd b assms(2) c(1) in \<open>auto simp: map_fill_def upd_bufq_def set_bit_at_def g'(4) hdls_ok_def copy_hdls_def
             slot_ok_def make_handle_idx make_handle_secure b_def\<close>)
  qed
  show ?thesis using e p f by (auto split: option.splits)
qed

lemma clear_slot_ok:
  assumes "mem_ok s" "mgr_init s" "0 < i" "i < CAM_MEM_BUFQ_MAX"
    and "tabl t = tabl s \<or> tabl t = tabl (upd_bufq i (\<lambda>q. q\<lparr>dma_buf := 0\<rparr>) s)"
  shows "mem_ok (clear_slot i t)"
proof (rule mem_ok_write [OF assms(1-4), where q = "bufq (clear_slot i t) i"])
  have e: "mgr_init t" "mt_bitmap t = mt_bitmap s" "mt_bits t = mt_bits s" "(bufq t)(i := q) = (bufq s)(i := q)" for q
    using assms(2,5) by (auto simp: tabl_def upd_bufq_def fun_eq_iff)
  have p: "mgr_init (put_if b t)" "mt_bitmap (put_if b t) = mt_bitmap s" "mt_bits (put_if b t) = mt_bits s"
    "bufq (put_if b t) = bufq t" for b
    using tabl_cases [OF tabl_effects(7) [of b t]] e by simp_all
  show "tabl (clear_slot i t) = (True, map_option (\<lambda>b. b(i := bq_active (bufq (clear_slot i t) i))) (mt_bitmap s),
      mt_bits s, (bufq s)(i := bufq (clear_slot i t) i))"
    using e(4) by (auto simp: tabl_def clear_slot_def Let_def set_bit_at_def upd_bufq_def p fun_eq_iff split: if_splits)
  show "hdls_ok (bufq (clear_slot i t) i)" by (simp add: hdls_ok_def clear_slot_def Let_def set_bit_at_def upd_bufq_def)
  show "bq_active (bufq (clear_slot i t) i) \<Longrightarrow> slot_ok i (bufq (clear_slot i t) i)"
    by (simp add: clear_slot_def Let_def set_bit_at_def upd_bufq_def)
qed

lemma unmap_cpu_tabl: "cam_mem_util_unmap_cpu_va env b va s = (t, rc) \<Longrightarrow> tabl t = tabl s"
  using tabl_unmap_cpu [of env b va s] by simp

lemma util_unmap_ok:
  assumes "mem_ok s" "mgr_init s"
  shows "mem_ok (fst (cam_mem_util_unmap env idx client s))"
proof (cases "bad_idx idx \<or> (\<not> bq_active (bufq s idx) \<and> bq_vaddr (bufq s idx) = 0)")
  case True
  then show ?thesis using assms(1) by (auto simp: cam_mem_util_unmap_def Let_def)
next
  case False
  define r where "r = (if has_flag (bq_flags (bufq s idx)) CAM_MEM_FLAG_KMD_ACCESS \<and> dma_buf (bufq s idx) \<noteq> 0 \<and> kmdvaddr (bufq s idx) \<noteq> 0
    then cam_mem_util_unmap_cpu_va env (dma_buf (bufq s idx)) (kmdvaddr (bufq s idx)) s else (s, 0))"
  obtain s1 rc where r: "r = (s1, rc)" by (cases r) auto
  have t: "tabl s1 = tabl s" using r unmap_cpu_tabl by (auto simp: r_def split: if_splits)
  let ?s2 = "fst (cam_mem_util_unmap_hw_va env idx (unmap_region (bq_flags (bufq s idx))) client s1)"
  have t2: "tabl ?s2 = tabl s" using t by simp
  have u: "tabl (upd_bufq idx (\<lambda>q. q\<lparr>dma_buf := 0\<rparr>) ?s2) = tabl (upd_bufq idx (\<lambda>q. q\<lparr>dma_buf := 0\<rparr>) s)"
    using tabl_cases [OF t2] by (simp add: tabl_upd)
  have b: "0 < idx" "idx < CAM_MEM_BUFQ_MAX" using False by auto
  have e: "fst (cam_mem_util_unmap env idx client s) = clear_slot idx
     (if wants_hw (bq_flags (bufq s idx)) then if client = CAM_SMMU_MAPPING_KERNEL then upd_bufq idx (\<lambda>q. q\<lparr>dma_buf := 0\<rparr>) ?s2 else ?s2
      else s1)"
    using r False by (auto simp: cam_mem_util_unmap_def Let_def r_def)
  show ?thesis unfolding e by (rule clear_slot_ok [OF assms b]) (use t t2 u in auto)
qed

lemma release_ok: "mem_ok s \<Longrightarrow> mem_ok (fst (cam_mem_mgr_release env cmd s))"
  by (auto simp: cam_mem_mgr_release_def Let_def util_unmap_ok split: option.split)

lemma release_mem_ok: "mem_ok s \<Longrightarrow> mem_ok (fst (cam_mem_mgr_release_mem env inp s))"
  by (auto simp: cam_mem_mgr_release_mem_def Let_def util_unmap_ok split: option.split)

lemma free_region_ok: "mem_ok s \<Longrightarrow> mem_ok (fst (cam_mem_mgr_free_memory_region env inp s))"
proof -
  assume a: "mem_ok s"
  have "mem_ok (fst (cam_mem_util_unmap env idx c (smmu_unmap h k s)))" if "mgr_init s" for idx c h k
    using util_unmap_ok [of "smmu_unmap h k s"] mem_ok_eq [OF a, of "smmu_unmap h k s"] tabl_cases(1) [of "smmu_unmap h k s" s] that
    by simp
  then show ?thesis using a by (auto simp: cam_mem_mgr_free_memory_region_def Let_def split: option.split)
qed

lemma kernel_fill_ok:
  assumes "mem_ok s" "mgr_init s" "cam_mem_get_slot s = Some (s1, idx)" "b \<noteq> 0"
    and "kva \<noteq> 0 \<Longrightarrow> has_flag flags CAM_MEM_FLAG_KMD_ACCESS"
  shows "mem_ok (kernel_fill b flags kva iova n h idx s1)"
proof -
  note g = get_slot_Some [OF mem_ok_slots [OF assms(1,2)] assms(3)]
  have l: "hdls_ok (bufq s idx)" using mem_ok_hdls [OF assms(1)] by blast
  show ?thesis
    by (rule mem_ok_fill [OF assms(1-3), where q = "bufq (kernel_fill b flags kva iova n h idx s1) idx"])
       (use g(2) l assms(4,5) in \<open>auto simp: kernel_fill_def upd_bufq_def set_bit_at_def g(4) hdls_ok_def copy_hdls_def
           slot_ok_def hdl_idx\<close>)
qed

lemma has_flag_or: "has_flag (fl OR CAM_MEM_FLAG_KMD_ACCESS) CAM_MEM_FLAG_KMD_ACCESS"
proof -
  have "bit ((fl OR CAM_MEM_FLAG_KMD_ACCESS) AND CAM_MEM_FLAG_KMD_ACCESS) 3"
    by (simp add: CAM_MEM_FLAG_KMD_ACCESS_def bit_and_iff bit_or_iff)
  then show ?thesis unfolding has_flag_def by (metis bit_0_eq bot_apply bot_bool_def)
qed

lemma reserve_region_ok:
  assumes "mem_ok s"
  shows "mem_ok (fst (cam_mem_mgr_reserve_memory_region env inp region s))"
proof (cases "mgr_init s \<and> (\<exists>d. inp = Some d \<and> rd_smmu_hdl d \<noteq> 0 \<and> region = CAM_SMMU_REGION_SECHEAP)")
  case False
  then show ?thesis using assms(1) by (auto simp: cam_mem_mgr_reserve_memory_region_def split: option.splits)
next
  case True
  then obtain d where d: "inp = Some d" "rd_smmu_hdl d \<noteq> 0" "region = CAM_SMMU_REGION_SECHEAP" and i: "mgr_init s" by blast
  obtain s1 r where r: "cam_mem_util_get_dma_buf env (rd_size d) ION_SYSTEM_CAMERA [] s = (s1, r)" by (meson surj_pair)
  obtain rc iova n dropped where m: "me_reserve env = (rc, iova, n, dropped)" by (metis prod_cases4)
  show ?thesis
  proof (cases r)
    case (Inl e)
    then show ?thesis using r d i assms(1) get_dma_buf_Err [of env _ _ _ s s1 e]
      by (auto simp: cam_mem_mgr_reserve_memory_region_def Let_def elim: mem_ok_eq)
  next
    case (Inr b)
    have b: "b \<noteq> 0" and t: "tabl s1 = tabl s" using get_dma_buf_Ok r Inr by blast+
    define s2 where "s2 = (if dropped then dma_buf_put b s1 else if rc \<noteq> 0 then s1 else smmu_map_kernel (rd_smmu_hdl d) Sec_heap b s1)"
    have t2: "tabl s2 = tabl s" using t by (simp add: s2_def)
    have ok: "mem_ok s2" "mgr_init s2" using t2 assms(1) i mem_ok_eq by (blast, simp add: tabl_def)
    have p: "mem_ok (dma_buf_put b s2)" "mem_ok (dma_buf_put b (smmu_unmap (rd_smmu_hdl d) Sec_heap s2))"
      using ok(1) by (auto elim!: mem_ok_eq)
    note f = kernel_fill_ok [OF ok _ b]
    have e: "fst (cam_mem_mgr_reserve_memory_region env inp region s) =
      (if rc \<noteq> 0 then dma_buf_put b s2
       else case cam_mem_get_slot s2 of
           None \<Rightarrow> dma_buf_put b (if me_release_heap env \<noteq> 0 then s2 else smmu_unmap (rd_smmu_hdl d) Sec_heap s2)
         | Some (s3, idx) \<Rightarrow> kernel_fill b (rd_flags d) 0 iova n (rd_smmu_hdl d) idx s3)"
      using r Inr d i m
      by (auto simp: cam_mem_mgr_reserve_memory_region_def Let_def s2_def split: option.splits)
    show ?thesis unfolding e using p f by (auto split: option.split)
  qed
qed

lemma request_mem_ok:
  assumes "mem_ok s"
  shows "mem_ok (fst (cam_mem_mgr_request_mem env inp s))"
proof (cases "mgr_init s \<and> (\<exists>d. inp = Some d \<and> (has_flag (rd_flags d) CAM_MEM_FLAG_HW_READ_WRITE
      \<or> has_flag (rd_flags d) CAM_MEM_FLAG_HW_SHARED_ACCESS \<or> has_flag (rd_flags d) CAM_MEM_FLAG_CACHE))")
  case False
  then show ?thesis using assms(1) by (auto simp: cam_mem_mgr_request_mem_def Let_def split: option.splits)
next
  case True
  then obtain d where d: "inp = Some d" "has_flag (rd_flags d) CAM_MEM_FLAG_HW_READ_WRITE
      \<or> has_flag (rd_flags d) CAM_MEM_FLAG_HW_SHARED_ACCESS \<or> has_flag (rd_flags d) CAM_MEM_FLAG_CACHE" and i: "mgr_init s" by blast
  let ?fl = "if has_flag (rd_flags d) CAM_MEM_FLAG_CACHE then [ION_FLAG_CACHED] else []"
  obtain s1 r where r: "cam_mem_util_get_dma_buf env (rd_size d) ION_SYSTEM_CAMERA ?fl s = (s1, r)" by (meson surj_pair)
  show ?thesis
  proof (cases r)
    case (Inl e)
    then show ?thesis using r d i assms(1) get_dma_buf_Err [of env _ _ _ s s1 e]
      by (auto simp: cam_mem_mgr_request_mem_def Let_def elim: mem_ok_eq)
  next
    case (Inr b)
    have b: "b \<noteq> 0" and t: "tabl s1 = tabl s" using get_dma_buf_Ok r Inr by blast+
    define fl where "fl = rd_flags d OR CAM_MEM_FLAG_KMD_ACCESS"
    obtain s2 rc0 kva n where c: "cam_mem_util_map_cpu_va env b s1 = (s2, rc0, kva, n)" by (metis prod_cases4)
    have t2: "tabl s2 = tabl s" using map_cpu_cases [OF c] t by simp
    obtain rc iova dropped where m: "me_mapk env (unmap_region fl) = (rc, iova, dropped)" by (metis prod_cases3)
    define s3 where "s3 = (if dropped then dma_buf_put b s2 else if rc < 0 then s2 else smmu_map_kernel (rd_smmu_hdl d) (By_buf b) b s2)"
    have t3: "tabl s3 = tabl s" using t2 by (simp add: s3_def)
    have ok: "mem_ok s3" "mgr_init s3" using t3 assms(1) i mem_ok_eq by (blast, simp add: tabl_def)
    have undo: "mem_ok (dma_buf_put b (fst (cam_mem_util_unmap_cpu_va env b kva u)))" if "tabl u = tabl s" for u
      using assms by (auto elim!: mem_ok_eq simp: that)
    have e: "fst (cam_mem_mgr_request_mem env inp s) =
      (if rc0 \<noteq> 0 then dma_buf_put b s2
       else if rd_smmu_hdl d = 0 then dma_buf_put b (fst (cam_mem_util_unmap_cpu_va env b kva s2))
       else if rc < 0 then dma_buf_put b (fst (cam_mem_util_unmap_cpu_va env b kva s3))
       else case cam_mem_get_slot s3 of
           None \<Rightarrow> dma_buf_put b (fst (cam_mem_util_unmap_cpu_va env b kva
             (if me_unmapk env 0 (unmap_region fl) < 0 then s3 else smmu_unmap (rd_smmu_hdl d) (By_buf b) s3)))
         | Some (s4, idx) \<Rightarrow> kernel_fill b fl kva iova (rd_size d) (rd_smmu_hdl d) idx s4)"
      using r Inr d i c m [unfolded fl_def]
      by (auto simp: cam_mem_mgr_request_mem_def Let_def fl_def s3_def split: option.splits)
    have f: "mem_ok (kernel_fill b fl kva iova (rd_size d) (rd_smmu_hdl d) idx s4)" if "cam_mem_get_slot s3 = Some (s4, idx)" for s4 idx
      using kernel_fill_ok [OF ok that b] has_flag_or by (simp add: fl_def)
    have p: "mem_ok (dma_buf_put b s2)" using assms by (auto elim!: mem_ok_eq simp: t2)
    show ?thesis unfolding e using p undo [OF t2] undo [OF t3] undo [of "smmu_unmap (rd_smmu_hdl d) (By_buf b) s3"] t3 f
      by (auto split: option.split)
  qed
qed

text \<open>The lookups leave the table alone.\<close>

lemma tabl_lookups:
  "tabl (fst (cam_mem_get_cpu_buf env h s)) = tabl s" "tabl (fst (cam_mem_put_cpu_buf env h s)) = tabl s"
  "tabl (fst (cam_mem_mgr_cache_ops env cmd s)) = tabl s"
  by (simp_all add: cam_mem_get_cpu_buf_def cam_mem_put_cpu_buf_def cam_mem_mgr_cache_ops_def Let_def split: option.split prod.split)

lemma cleanup_slot_bufq:
  "bufq (cleanup_slot env i s) j =
     (if j = i \<and> bq_active (bufq s i)
      then (bufq s i)\<lparr>bq_fd := -1, bq_flags := 0, bq_handle := -1, bq_vaddr := 0, bq_len := 0,
        bq_hdls := copy_hdls (bq_num_hdl (bufq s i)) (replicate (bq_num_hdl (bufq s i)) 0) (bq_hdls (bufq s i)), bq_num_hdl := 0,
        dma_buf := 0, bq_active := False, kmdvaddr := 0\<rparr>
      else bufq s j)"
proof -
  have "bufq (put_if b (cam_mem_mgr_unmap_active_buf env i s)) = bufq s" for b
    using tabl_cases(4) [of "put_if b (cam_mem_mgr_unmap_active_buf env i s)" s]
    by (simp add: cam_mem_mgr_unmap_active_buf_def)
  then show ?thesis by (simp add: cleanup_slot_def Let_def upd_bufq_def)
qed

lemma cleanup_slot_flags: "mgr_init (cleanup_slot env i s) = mgr_init s"
proof -
  have "mgr_init (put_if b (cam_mem_mgr_unmap_active_buf env i s)) = mgr_init s" for b
    using tabl_cases(1) [of "put_if b (cam_mem_mgr_unmap_active_buf env i s)" s]
    by (simp add: cam_mem_mgr_unmap_active_buf_def)
  then show ?thesis by (simp add: cleanup_slot_def Let_def upd_bufq_def)
qed

lemma cleanup_slot_hdls: "\<forall>j. hdls_ok (bufq s j) \<Longrightarrow> hdls_ok (bufq (cleanup_slot env i s) j)"
  by (auto simp: cleanup_slot_bufq hdls_ok_def copy_hdls_def)

lemma cleanup_fold:
  "\<forall>j. hdls_ok (bufq s j) \<Longrightarrow>
     (\<forall>j. hdls_ok (bufq (fold (cleanup_slot env) is s) j)
        \<and> (bq_active (bufq (fold (cleanup_slot env) is s) j) \<longleftrightarrow> bq_active (bufq s j) \<and> j \<notin> set is))
     \<and> mgr_init (fold (cleanup_slot env) is s) = mgr_init s"
proof (induction "is" arbitrary: s)
  case (Cons i "is")
  have "\<forall>j. hdls_ok (bufq (cleanup_slot env i s) j)" using cleanup_slot_hdls [OF Cons.prems] by blast
  from Cons.IH [OF this] show ?case by (auto simp: cleanup_slot_bufq cleanup_slot_flags)
qed simp

lemma deinit_ok:
  assumes "mem_ok s"
  shows "mem_ok (cam_mem_mgr_deinit env s)"
proof -
  define js where "js = [1..<CAM_MEM_BUFQ_MAX]"
  have js: "set js = {1..<CAM_MEM_BUFQ_MAX}" by (simp only: js_def set_upt)
  let ?t = "fold (cleanup_slot env) js (s\<lparr>mgr_init := False\<rparr>)"
  have h: "\<forall>j. hdls_ok (bufq (s\<lparr>mgr_init := False\<rparr>) j)" using mem_ok_hdls [OF assms] by simp
  have a: "bq_active (bufq s j) \<Longrightarrow> j \<in> {1..<CAM_MEM_BUFQ_MAX}" for j using assms by (auto simp: mem_ok_def)
  have "\<not> mgr_init ?t" "hdls_ok (bufq ?t j)" "\<not> bq_active (bufq ?t j)" for j
    using cleanup_fold [OF h, of env js] a [of j] unfolding js by auto
  then show ?thesis unfolding cam_mem_mgr_deinit_def cam_mem_mgr_cleanup_table_def Let_def js_def [symmetric]
    by (simp add: mem_ok_def hdls_ok_def)
qed

subsection \<open>Every reachable state\<close>

text \<open>
  A step is a call of one operation, with any answers of the services. The arrays of a command have the
  length of their C type; the manager is initialised once, when its device is probed.
\<close>

inductive mem_step :: "mem \<Rightarrow> mem \<Rightarrow> bool" where
  step_init: "\<not> mgr_init s \<Longrightarrow> mem_step s (fst (cam_mem_mgr_init env s))"
| step_deinit: "mem_step s (cam_mem_mgr_deinit env s)"
| step_alloc: "case cmd of None \<Rightarrow> True | Some c \<Rightarrow> length (ac_mmu_hdls c) = CAM_MEM_MMU_MAX_HANDLE \<Longrightarrow>
    mem_step s (fst (cam_mem_mgr_alloc_and_map env cmd s))"
| step_map: "case cmd of None \<Rightarrow> True | Some c \<Rightarrow> length (mc_mmu_hdls c) = CAM_MEM_MMU_MAX_HANDLE \<Longrightarrow>
    mem_step s (fst (cam_mem_mgr_map env cmd s))"
| step_release: "mem_step s (fst (cam_mem_mgr_release env h s))"
| step_request: "mem_step s (fst (cam_mem_mgr_request_mem env d s))"
| step_release_mem: "mem_step s (fst (cam_mem_mgr_release_mem env m s))"
| step_reserve: "mem_step s (fst (cam_mem_mgr_reserve_memory_region env d region s))"
| step_free: "mem_step s (fst (cam_mem_mgr_free_memory_region env m s))"
| step_get_cpu: "mem_step s (fst (cam_mem_get_cpu_buf env hh s))"
| step_put_cpu: "mem_step s (fst (cam_mem_put_cpu_buf env hh s))"
| step_cache: "mem_step s (fst (cam_mem_mgr_cache_ops env cc s))"

definition mem_start :: "mem \<Rightarrow> bool" where
  "mem_start s \<longleftrightarrow> \<not> mgr_init s \<and> bufq s = (\<lambda>_. zero_bufq)"

lemmas mem_op_ok = init_ok deinit_ok alloc_ok map_ok release_ok request_mem_ok release_mem_ok reserve_region_ok free_region_ok

lemma mem_step_ok: "mem_step s t \<Longrightarrow> mem_ok s \<Longrightarrow> mem_ok t"
  by (induction rule: mem_step.induct) (auto simp: mem_op_ok intro: mem_ok_eq tabl_lookups)

interpretation mem_machine: machine mem_start mem_step mem_ok
proof unfold_locales
  fix s assume "mem_start s" then show "mem_ok s" by (simp add: mem_start_def mem_ok_def zero_bufq_def)
next
  fix s t assume "mem_ok s" "mem_step s t" then show "mem_ok t" using mem_step_ok by blast
qed

end
