(* ===== verification/Cam_Mem_Life.thy ===== *)
theory Cam_Mem_Life
  imports Cam_Mem_Props
begin

text \<open>
  What an allocation takes and what its release gives back: references, hardware mappings, kernel pages and CPU
  accesses. The paths that do not balance are stated as they are.
\<close>

subsection \<open>The loops over the handles\<close>

lemma find_last: "\<forall>x\<in>set xs. \<not> P x \<Longrightarrow> P y \<Longrightarrow> find P (xs @ [y]) = Some y"
  by (induction xs) auto

definition key_free :: "map_key \<Rightarrow> (u32 \<times> map_key \<times> ptr) list \<Rightarrow> bool" where
  "key_free k ms \<longleftrightarrow> list_all (\<lambda>m. fst (snd m) \<noteq> k) ms"

definition add_ref :: "ptr \<Rightarrow> int \<Rightarrow> (ptr \<Rightarrow> int) \<Rightarrow> ptr \<Rightarrow> int" where
  "add_ref b n r = r(b := r b + n)"

lemma add_ref_add [simp]: "add_ref b n (add_ref b m r) = add_ref b (m + n) r"
  by (simp add: add_ref_def fun_eq_iff)

lemma add_ref_0 [simp]: "add_ref b 0 r = r"
  by (simp add: add_ref_def)

lemma dma_buf_ref_add: "dma_buf_ref b n s = s\<lparr>refs := add_ref b n (refs s)\<rparr>"
  by (simp add: dma_buf_ref_def add_ref_def)

lemma ex_mapping: "key_free k ms \<Longrightarrow>
    list_ex (mapping_of h k) (ms @ map (\<lambda>h. (h, k, b)) xs) \<longleftrightarrow> h \<in> set xs"
  by (auto simp: key_free_def list_ex_iff list_all_iff mapping_of_def bex_Un)

lemma smmu_map_form:
  assumes "key_free k ms" "mapped s = ms @ map (\<lambda>h. (h, k, b)) xs"
  shows "smmu_map h k b s =
    s\<lparr>mapped := ms @ map (\<lambda>h. (h, k, b)) (xs @ [h]), refs := add_ref b (if h \<in> set xs then 0 else 1) (refs s)\<rparr>"
  using ex_mapping [OF assms(1), of h b xs] by (simp add: smmu_map_def Let_def assms(2) dma_buf_ref_add)

lemma smmu_unmap_form:
  assumes "key_free k ms" "mapped s = ms @ map (\<lambda>h. (h, k, b)) (h # xs)"
  shows "smmu_unmap h k s =
    s\<lparr>mapped := ms @ map (\<lambda>h. (h, k, b)) xs, refs := add_ref b (if h \<in> set xs then 0 else -1) (refs s)\<rparr>"
proof -
  have f: "find (mapping_of h k) (mapped s) = Some (h, k, b)"
    using assms(1) unfolding assms(2) by (induction ms) (auto simp: mapping_of_def key_free_def)
  have "(h, k, b) \<notin> set ms" using assms(1) by (auto simp: key_free_def list_all_iff)
  then have r: "remove1 (h, k, b) (mapped s) = ms @ map (\<lambda>h. (h, k, b)) xs" by (simp add: assms(2) remove1_append)
  show ?thesis using ex_mapping [OF assms(1), of h b xs] by (simp add: smmu_unmap_def f r Let_def dma_buf_ref_add)
qed

lemma map_loop_form:
  assumes "key_free (By_fd fd) ms" "mapped s = ms @ map (\<lambda>h. (h, By_fd fd, b)) xs"
    and "map_loop f fd b i hs r s = (t, x, None)"
  shows "t = s\<lparr>mapped := ms @ map (\<lambda>h. (h, By_fd fd, b)) (xs @ hs),
    refs := add_ref b (int (card (set (xs @ hs))) - int (card (set xs))) (refs s)\<rparr>"
  using assms(2,3)
proof (induction hs arbitrary: xs i r s)
  case Nil
  then show ?case by simp
next
  case (Cons h hs)
  let ?s = "smmu_map h (By_fd fd) b s"
  note e = smmu_map_form [OF assms(1) Cons.prems(1), of h]
  have l: "map_loop f fd b (Suc i) hs (f i) ?s = (t, x, None)" using Cons.prems(2) by (simp split: if_splits)
  have "mapped ?s = ms @ map (\<lambda>h. (h, By_fd fd, b)) (xs @ [h])" by (simp add: e)
  from Cons.IH [OF this l] show ?case by (simp add: e card_insert_if)
qed

lemma unmap_loop_form:
  assumes "key_free k ms" "mapped s = ms @ map (\<lambda>h. (h, k, b)) hs" "\<And>i. u i \<ge> 0"
  shows "fst (unmap_loop u k i hs r s) = s\<lparr>mapped := ms, refs := add_ref b (- int (card (set hs))) (refs s)\<rparr>"
  using assms(2)
proof (induction hs arbitrary: i r s)
  case Nil
  then show ?case by simp
next
  case (Cons h hs)
  note e = smmu_unmap_form [OF assms(1) Cons.prems]
  have "mapped (smmu_unmap h k s) = ms @ map (\<lambda>h. (h, k, b)) hs" by (simp add: e)
  from Cons.IH [OF this] show ?case using assms(3) [of i] by (simp add: e card_insert_if)
qed

subsection \<open>What a successful allocation leaves\<close>

lemma ion_alloc_form:
  assumes "cam_mem_util_ion_alloc env c s = (t, Inr (b, fd))" "me_get env fd = b"
  shows "t = s\<lparr>refs := add_ref b 2 (refs s), fds := (fd, b) # fds s\<rparr>" "fd = me_fd env"
    "b = me_ion env (ac_len c) (fst (ion_choice (ac_flags c))) (snd (ion_choice (ac_flags c)))"
  using assms
  by (auto simp: cam_mem_util_ion_alloc_def cam_mem_util_get_dma_buf_fd_def Let_def dma_buf_ref_add split: prod.splits if_splits)

lemma map_hw_form:
  assumes "cam_mem_util_map_hw_va env fl hdls n fd va l rg s = (t, 0, x)" "key_free (By_fd fd) (mapped s)"
  shows "t = s\<lparr>mapped := mapped s @ map (\<lambda>h. (h, By_fd fd, me_get env fd)) (take n hdls),
     refs := add_ref (me_get env fd) (int (card (set (take n hdls)))) (refs s)\<rparr>"
proof -
  obtain f r where l: "map_loop f fd (me_get env fd) 0 (take n hdls) r s = (t, (0, x), None)"
  proof -
    have neg: "map_loop f fd b i hs r s = (t, q, Some j) \<Longrightarrow> fst q < 0" for f b i hs r s t q j
      by (induction hs arbitrary: i r s) (auto split: if_splits)
    show thesis using assms(1) that
      by (auto simp: cam_mem_util_map_hw_va_def Let_def split: option.splits prod.splits if_splits dest: neg)
  qed
  show ?thesis using map_loop_form [OF assms(2) _ l, of "[]"] by simp
qed

lemma map_cpu_form:
  assumes "cam_mem_util_map_cpu_va env b s = (t, 0, va, n)"
  shows "t = s\<lparr>cpu := add_ref b 1 (cpu s), kpages := add_ref b (int (page_num (me_size env b))) (kpages s)\<rparr>"
    "me_size env b \<noteq> 0 \<Longrightarrow> va \<noteq> 0"
proof -
  have a: "me_begin env = 0" "find (\<lambda>i. me_kmap env i = 0) [0..<page_num (me_size env b)] = None"
    "t = add_pages b (int (page_num (me_size env b))) (cpu_access b 1 s)"
    "va = (if page_num (me_size env b) = 0 then 0 else me_kmap env 0)"
    using assms by (auto simp: cam_mem_util_map_cpu_va_def Let_def split: if_splits option.splits)
  show "t = s\<lparr>cpu := add_ref b 1 (cpu s), kpages := add_ref b (int (page_num (me_size env b))) (kpages s)\<rparr>"
    by (simp add: a add_pages_def cpu_access_def add_ref_def)
  assume "me_size env b \<noteq> 0"
  then have "unat (me_size env b) > 0" by (simp add: unat_gt_0)
  then have "page_num (me_size env b) > 0" by (simp add: page_num_def div_greater_zero_iff)
  then show "va \<noteq> 0" using a(2,4) by (auto simp: find_None_iff)
qed

text \<open>The resources an allocation with these flags and handles holds beyond the reference of its descriptor.\<close>

definition hw_list :: "cam_mem_mgr_alloc_cmd \<Rightarrow> u32 list" where
  "hw_list c = (if wants_hw (ac_flags c) then take (ac_num_hdl c) (ac_mmu_hdls c) else [])"

definition kmd :: "cam_mem_mgr_alloc_cmd \<Rightarrow> bool" where
  "kmd c \<longleftrightarrow> has_flag (ac_flags c) CAM_MEM_FLAG_KMD_ACCESS"

definition held :: "mem_env \<Rightarrow> cam_mem_mgr_alloc_cmd \<Rightarrow> ptr \<Rightarrow> int \<Rightarrow> mem \<Rightarrow> mem \<Rightarrow> bool" where
  "held env c b fd s t \<longleftrightarrow> mapped t = mapped s @ map (\<lambda>h. (h, By_fd fd, b)) (hw_list c)
     \<and> refs t = add_ref b (2 + int (card (set (hw_list c)))) (refs s)
     \<and> cpu t = (if kmd c then add_ref b 1 (cpu s) else cpu s)
     \<and> kpages t = (if kmd c then add_ref b (int (page_num (me_size env b))) (kpages s) else kpages s)"

definition filled :: "mem_env \<Rightarrow> cam_mem_mgr_alloc_cmd \<Rightarrow> ptr \<Rightarrow> int \<Rightarrow> nat \<Rightarrow> mem \<Rightarrow> mem \<Rightarrow> bool" where
  "filled env c b fd idx s t \<longleftrightarrow> mgr_init t = mgr_init s \<and> mt_bits t = mt_bits s
     \<and> mt_bitmap t = map_option (\<lambda>bm. bm(idx := True)) (mt_bitmap s) \<and> (\<forall>j. j \<noteq> idx \<longrightarrow> bufq t j = bufq s j)
     \<and> bq_active (bufq t idx) \<and> bq_fd (bufq t idx) = fd \<and> bq_flags (bufq t idx) = ac_flags c
     \<and> bq_handle (bufq t idx) = make_handle idx fd (ac_flags c) \<and> dma_buf (bufq t idx) = b
     \<and> bq_num_hdl (bufq t idx) = ac_num_hdl c
     \<and> take (ac_num_hdl c) (bq_hdls (bufq t idx)) = take (ac_num_hdl c) (ac_mmu_hdls c)
     \<and> (kmd c \<and> me_size env b \<noteq> 0 \<longrightarrow> kmdvaddr (bufq t idx) \<noteq> 0)"

lemma alloc_fill_form:
  assumes "alloc_fill env c b fd va idx s = (t, 0, Some (h, fd'))" "bq_active (bufq s idx)"
    and "ac_num_hdl c \<le> CAM_MEM_MMU_MAX_HANDLE" "length (ac_mmu_hdls c) = CAM_MEM_MMU_MAX_HANDLE"
  shows "fd' = fd" "h = make_handle idx fd (ac_flags c)"
    "mapped t = mapped s" "refs t = refs s" "mgr_init t = mgr_init s" "mt_bits t = mt_bits s" "mt_bitmap t = mt_bitmap s"
    "cpu t = (if kmd c then add_ref b 1 (cpu s) else cpu s)"
    "kpages t = (if kmd c then add_ref b (int (page_num (me_size env b))) (kpages s) else kpages s)"
    "\<And>j. j \<noteq> idx \<Longrightarrow> bufq t j = bufq s j"
    "bq_active (bufq t idx)" "bq_fd (bufq t idx) = fd" "bq_flags (bufq t idx) = ac_flags c"
    "bq_handle (bufq t idx) = make_handle idx fd (ac_flags c)" "dma_buf (bufq t idx) = b"
    "bq_num_hdl (bufq t idx) = ac_num_hdl c"
    "take (ac_num_hdl c) (bq_hdls (bufq t idx)) = take (ac_num_hdl c) (ac_mmu_hdls c)"
    "kmd c \<Longrightarrow> me_size env b \<noteq> 0 \<Longrightarrow> kmdvaddr (bufq t idx) \<noteq> 0"
proof -
  define s1 where "s1 = upd_bufq idx (\<lambda>q. q\<lparr>bq_fd := fd, dma_buf := 0, bq_flags := ac_flags c,
    bq_handle := make_handle idx fd (ac_flags c)\<rparr>) s"
  define r where "r = (if kmd c then cam_mem_util_map_cpu_va env b s1 else (s1, 0, 0, 0))"
  obtain s2 rc kva n where r: "r = (s2, rc, kva, n)" by (cases r) auto
  have rc: "rc = 0" and t: "t = upd_bufq idx (\<lambda>q. q\<lparr>kmdvaddr := kva, bq_vaddr := va, dma_buf := b, bq_len := ac_len c,
      bq_num_hdl := ac_num_hdl c, bq_hdls := copy_hdls (ac_num_hdl c) (ac_mmu_hdls c) (bq_hdls q), is_imported := False\<rparr>) s2"
    and o: "fd' = fd" "h = make_handle idx fd (ac_flags c)"
    using assms(1) r unfolding r_def s1_def kmd_def by (auto simp: alloc_fill_def Let_def split: if_splits)
  have s2: "s2 = (if kmd c then s1\<lparr>cpu := add_ref b 1 (cpu s1),
      kpages := add_ref b (int (page_num (me_size env b))) (kpages s1)\<rparr> else s1)"
    using r rc map_cpu_form(1) [of env b s1 s2 kva n] by (auto simp: r_def split: if_splits)
  have k: "kmd c \<Longrightarrow> me_size env b \<noteq> 0 \<Longrightarrow> kva \<noteq> 0"
    using r rc map_cpu_form(2) [of env b s1 s2 kva n] by (simp add: r_def)
  show "fd' = fd" "h = make_handle idx fd (ac_flags c)" by (fact o)+
  show "kmd c \<Longrightarrow> me_size env b \<noteq> 0 \<Longrightarrow> kmdvaddr (bufq t idx) \<noteq> 0" using k by (simp add: t upd_bufq_def)
  show "take (ac_num_hdl c) (bq_hdls (bufq t idx)) = take (ac_num_hdl c) (ac_mmu_hdls c)"
    using assms(3,4) by (simp add: t upd_bufq_def copy_hdls_def)
  show "mapped t = mapped s" "refs t = refs s" "mgr_init t = mgr_init s" "mt_bits t = mt_bits s" "mt_bitmap t = mt_bitmap s"
    "cpu t = (if kmd c then add_ref b 1 (cpu s) else cpu s)"
    "kpages t = (if kmd c then add_ref b (int (page_num (me_size env b))) (kpages s) else kpages s)"
    "\<And>j. j \<noteq> idx \<Longrightarrow> bufq t j = bufq s j"
    "bq_active (bufq t idx)" "bq_fd (bufq t idx) = fd" "bq_flags (bufq t idx) = ac_flags c"
    "bq_handle (bufq t idx) = make_handle idx fd (ac_flags c)" "dma_buf (bufq t idx) = b"
    "bq_num_hdl (bufq t idx) = ac_num_hdl c"
    by (simp_all add: t s2 s1_def upd_bufq_def assms(2))
qed

lemma alloc_form:
  assumes "mem_ok s" "cam_mem_mgr_alloc_and_map env (Some c) s = (t, 0, Some (h, fd))"
    and "length (ac_mmu_hdls c) = CAM_MEM_MMU_MAX_HANDLE" "key_free (By_fd fd) (mapped s)"
    and "me_get env fd = me_ion env (ac_len c) (fst (ion_choice (ac_flags c))) (snd (ion_choice (ac_flags c)))"
  obtains idx where "0 < idx" "idx < CAM_MEM_BUFQ_MAX" "\<not> bq_active (bufq s idx)" "h = make_handle idx fd (ac_flags c)"
    "mgr_init s" "me_get env fd \<noteq> 0" "filled env c (me_get env fd) fd idx s t" "held env c (me_get env fd) fd s t"
    "ac_num_hdl c \<le> CAM_MEM_MMU_MAX_HANDLE"
proof -
  define b where "b = me_get env fd"
  have i: "mgr_init s" and ck: "cam_mem_util_check_alloc_flags c = 0"
    using assms(2) code_neg [of EINVAL] by (auto simp: cam_mem_mgr_alloc_and_map_def Let_def split: if_splits)
  obtain s1 r where r: "cam_mem_util_ion_alloc env c s = (s1, r)" by (meson surj_pair)
  obtain b' f' where p: "r = Inr (b', f')"
    using assms(2) i ck r by (cases r) (auto simp: cam_mem_mgr_alloc_and_map_def)
  obtain s2 idx where g: "cam_mem_get_slot s1 = Some (s2, idx)"
    using assms(2) i ck r p by (cases "cam_mem_get_slot s1") (auto simp: cam_mem_mgr_alloc_and_map_def)
  obtain s3 rc va n where m: "(if wants_hw (ac_flags c) then cam_mem_util_map_hw_va env (ac_flags c) (ac_mmu_hdls c) (ac_num_hdl c) f' 0
          (ac_len c) (alloc_region (ac_flags c)) s2 else (s2, 0, 0, 0)) = (s3, rc, va, n)" by (metis prod_cases4)
  have rc: "rc = 0" and f: "alloc_fill env c b' f' va idx s3 = (t, 0, Some (h, fd))"
    using assms(2) i ck r p g m by (auto simp: cam_mem_mgr_alloc_and_map_def Let_def split: if_splits)
  have nh: "ac_num_hdl c \<le> CAM_MEM_MMU_MAX_HANDLE"
    using ck by (auto simp: cam_mem_util_check_alloc_flags_def split: if_splits)
  have "f' = fd"
    using f by (auto simp: alloc_fill_def Let_def split: if_splits prod.splits)
  have bb: "b' = b"
    using r p \<open>f' = fd\<close> assms(5) unfolding b_def
    by (auto simp: cam_mem_util_ion_alloc_def cam_mem_util_get_dma_buf_fd_def Let_def split: prod.splits if_splits)
  have ia: "cam_mem_util_ion_alloc env c s = (s1, Inr (b, fd))" using r p \<open>f' = fd\<close> bb by simp
  have s1: "s1 = s\<lparr>refs := add_ref b 2 (refs s), fds := (fd, b) # fds s\<rparr>"
    by (rule ion_alloc_form(1) [OF ia b_def [symmetric]])
  have sl: "slots_ok s1" using mem_ok_slots [OF assms(1) i] by (simp add: s1 slots_ok_def)
  note g' = get_slot_Some [OF sl g]
  have s3: "s3 = s2\<lparr>mapped := mapped s2 @ map (\<lambda>h. (h, By_fd fd, b)) (hw_list c),
     refs := add_ref b (int (card (set (hw_list c)))) (refs s2)\<rparr>"
  proof (cases "wants_hw (ac_flags c)")
    case True
    have "key_free (By_fd fd) (mapped s2)" using assms(4) by (simp add: g'(4) s1 upd_bufq_def set_bit_at_def)
    then show ?thesis using m rc True \<open>f' = fd\<close> map_hw_form [of env _ _ _ fd _ _ _ s2 s3 "(va, n)"] by (simp add: hw_list_def b_def)
  next
    case False
    then show ?thesis using m by (simp add: hw_list_def)
  qed
  have act: "bq_active (bufq s3 idx)" by (simp add: s3 g'(4) upd_bufq_def)
  note a = alloc_fill_form [OF f [unfolded bb \<open>f' = fd\<close>] act nh assms(3)]
  have nz: "b \<noteq> 0" using ion_alloc_Ok [OF ia] by simp
  have fl: "filled env c b fd idx s t"
    using a by (auto simp: filled_def s3 g'(4) s1 upd_bufq_def set_bit_at_def)
  have hl: "held env c b fd s t"
    using a(3,4,8,9) by (simp add: held_def s3 g'(4) s1 upd_bufq_def set_bit_at_def add.commute)
  have "\<not> bq_active (bufq s idx)" using g'(3) by (simp add: s1)
  then show thesis using that [of idx] g'(1,2) a(2) i nz fl hl nh by (simp add: b_def)
qed

subsection \<open>The way back\<close>

lemma put_if_form: "b \<noteq> 0 \<Longrightarrow> put_if b s = s\<lparr>refs := add_ref b (-1) (refs s)\<rparr>"
  by (simp add: put_if_def dma_buf_ref_add)

lemma clear_slot_res:
  "mapped (clear_slot idx s) = mapped s" "cpu (clear_slot idx s) = cpu s" "kpages (clear_slot idx s) = kpages s"
  "refs (clear_slot idx s) = refs (put_if (dma_buf (bufq s idx)) s)"
  "mt_bitmap (clear_slot idx s) = map_option (\<lambda>bm. bm(idx := False)) (mt_bitmap s)"
  "\<And>j. j \<noteq> idx \<Longrightarrow> bufq (clear_slot idx s) j = bufq s j"
  by (simp_all add: clear_slot_def Let_def set_bit_at_def upd_bufq_def put_if_def dma_buf_ref_def)

lemma unmap_user_form:
  assumes "bufq s idx = q" "0 < idx" "idx < CAM_MEM_BUFQ_MAX" "key_free (By_fd (bq_fd q)) ms"
    and "mapped s = ms @ map (\<lambda>h. (h, By_fd (bq_fd q), b)) (take (bq_num_hdl q) (bq_hdls q))"
    and "\<And>i r. me_unmap env i r \<ge> 0" "\<And>i. me_unmap2 env i \<ge> 0"
  shows "fst (cam_mem_util_unmap_hw_va env idx region CAM_SMMU_MAPPING_USER s) =
     s\<lparr>mapped := ms, refs := add_ref b (- int (card (set (take (bq_num_hdl q) (bq_hdls q))))) (refs s)\<rparr>"
  using assms(1-3) unmap_loop_form [OF assms(4,5), of "me_unmap2 env" 0 0] unmap_loop_form [OF assms(4,5), of "\<lambda>i. me_unmap env i region" 0 0]
    assms(6,7)
  by (simp add: cam_mem_util_unmap_hw_va_def Let_def)

lemma bitmap_restored:
  assumes "mem_ok s" "mgr_init s" "0 < idx" "idx < CAM_MEM_BUFQ_MAX" "\<not> bq_active (bufq s idx)"
  shows "map_option (\<lambda>bm. bm(idx := False)) (map_option (\<lambda>bm. bm(idx := True)) (mt_bitmap s)) = mt_bitmap s"
  using mem_ok_slots [OF assms(1,2)] assms(3-5) by (auto simp: slots_ok_def fun_eq_iff)

text \<open>
  C18: What an allocation takes its release gives back. Of the buffer only the reference of the descriptor that
  user space was given is left, no hardware mapping, kernel page or begun CPU access is added to those there were,
  the slot is free again and the other slots are untouched. The result of the release is that of ending the CPU
  access, and the services answer the release as they like as long as unmapping works.
\<close>

theorem mem_alloc_release:
  assumes "mem_ok s" "cam_mem_mgr_alloc_and_map env (Some c) s = (t, 0, Some (h, fd))"
    and "length (ac_mmu_hdls c) = CAM_MEM_MMU_MAX_HANDLE" "key_free (By_fd fd) (mapped s)"
    and "me_get env fd = me_ion env (ac_len c) (fst (ion_choice (ac_flags c))) (snd (ion_choice (ac_flags c)))"
    and "me_size env (me_get env fd) \<noteq> 0" "me_size env' = me_size env"
    and "\<And>i r. me_unmap env' i r \<ge> 0" "\<And>i. me_unmap2 env' i \<ge> 0"
  shows "\<exists>u. cam_mem_mgr_release env' (Some h) t = (u, if kmd c then me_end env' else 0)
    \<and> mem_ok u \<and> refs u = add_ref (me_get env fd) 1 (refs s) \<and> mapped u = mapped s \<and> cpu u = cpu s \<and> kpages u = kpages s
    \<and> mt_bitmap u = mt_bitmap s
    \<and> list_all (\<lambda>j. bq_active (bufq u j) = bq_active (bufq s j)) [0..<CAM_MEM_BUFQ_MAX]"
proof -
  define b where "b = me_get env fd"
  obtain idx where idx: "0 < idx" "idx < CAM_MEM_BUFQ_MAX" "\<not> bq_active (bufq s idx)" and h: "h = make_handle idx fd (ac_flags c)"
    and i: "mgr_init s" and b: "b \<noteq> 0" and f: "filled env c b fd idx s t" and hl: "held env c b fd s t"
    using alloc_form [OF assms(1-5)] unfolding b_def by blast
  let ?q = "bufq t idx" and ?n = "int (card (set (hw_list c)))"
  define t1 where "t1 = (if kmd c then t\<lparr>cpu := cpu s, kpages := kpages s\<rparr> else t)"
  define t2 where "t2 = t1\<lparr>mapped := mapped s, refs := add_ref b (- ?n) (refs t1)\<rparr>"
  define u where "u = clear_slot idx t2"
  have cpu: "(if has_flag (bq_flags ?q) CAM_MEM_FLAG_KMD_ACCESS \<and> dma_buf ?q \<noteq> 0 \<and> kmdvaddr ?q \<noteq> 0
      then cam_mem_util_unmap_cpu_va env' (dma_buf ?q) (kmdvaddr ?q) t else (t, 0)) = (t1, if kmd c then me_end env' else 0)"
  proof (cases "kmd c")
    case True
    have "cpu_access b (-1) (add_pages b (- int (page_num (me_size env b))) t) = t1"
      using True hl by (simp add: t1_def held_def cpu_access_def add_pages_def add_ref_def fun_eq_iff)
    then show ?thesis using True f b assms(6,7) by (simp add: filled_def kmd_def b_def cam_mem_util_unmap_cpu_va_def)
  next
    case False
    then show ?thesis using f by (simp add: filled_def kmd_def t1_def)
  qed
  have q1: "bufq t1 idx = ?q" by (simp add: t1_def)
  have hw: "(if wants_hw (bq_flags ?q) then fst (cam_mem_util_unmap_hw_va env' idx (unmap_region (bq_flags ?q)) CAM_SMMU_MAPPING_USER t1)
      else t1) = t2"
  proof (cases "wants_hw (ac_flags c)")
    case True
    have "mapped t1 = mapped s @ map (\<lambda>h. (h, By_fd (bq_fd ?q), b)) (take (bq_num_hdl ?q) (bq_hdls ?q))"
      using True f hl by (simp add: t1_def held_def filled_def hw_list_def)
    from unmap_user_form [where env = env', OF q1 idx(1,2) _ this assms(8,9)] show ?thesis
      using True f assms(4) by (simp add: filled_def t2_def hw_list_def)
  next
    case False
    then have "mapped t1 = mapped s" using hl by (simp add: t1_def held_def hw_list_def)
    then have "t2 = t1" using False by (intro mem.equality) (simp_all add: t2_def hw_list_def)
    then show ?thesis using False f by (simp add: filled_def)
  qed
  have act: "bq_active ?q" "bq_flags ?q = ac_flags c" "mgr_init t" "bq_handle ?q = h" "dma_buf ?q = b" using f i h by (auto simp: filled_def)
  have un: "cam_mem_util_unmap env' idx CAM_SMMU_MAPPING_USER t = (u, if kmd c then me_end env' else 0)"
    using cpu hw idx(1,2) act(1) unfolding cam_mem_util_unmap_def Let_def
    by (cases "wants_hw (bq_flags ?q)") (simp_all add: u_def)
  have rel: "cam_mem_mgr_release env' (Some h) t = (u, if kmd c then me_end env' else 0)"
    using un act idx(1,2) make_handle_idx [OF idx(2), of fd "ac_flags c"] h by (simp add: cam_mem_mgr_release_def Let_def)
  have "mem_ok t" using alloc_ok [OF assms(1), of "Some c" env] assms(2,3) by simp
  then have ok: "mem_ok u" using release_ok [of t env' "Some h"] rel by simp
  have t2: "cpu t2 = cpu s" "kpages t2 = kpages s" "mapped t2 = mapped s" "refs t2 = add_ref b 2 (refs s)"
      "bufq t2 = bufq t" "mt_bitmap t2 = mt_bitmap t"
    using hl by (auto simp: t2_def t1_def held_def)
  have rf: "refs u = add_ref b 1 (refs s)" by (simp add: u_def clear_slot_res t2 act(5) b put_if_form)
  have bm: "mt_bitmap u = mt_bitmap s"
    using bitmap_restored [OF assms(1) i idx] f by (simp add: u_def clear_slot_res t2 filled_def)
  have "bq_active (bufq u j) = bq_active (bufq s j)" for j
    using f idx(3) clear_slot_res(6) [of j idx t2]
    by (cases "j = idx") (auto simp: u_def t2 filled_def clear_slot_def Let_def set_bit_at_def upd_bufq_def)
  then show ?thesis using rel ok rf bm by (simp add: u_def clear_slot_res t2 b_def list_all_iff del: upt_rec_numeral)
qed

subsection \<open>Memory of the drivers\<close>

lemma get_dma_buf_form:
  assumes "cam_mem_util_get_dma_buf env n heap fl s = (t, Inr b)"
  shows "t = s\<lparr>refs := add_ref b 1 (refs s)\<rparr>" "b = me_ion env n heap fl" "b \<noteq> 0"
  using assms by (auto simp: cam_mem_util_get_dma_buf_def Let_def dma_buf_ref_add split: if_splits)

text \<open>What a slot filled for a driver is, and what its release does to it.\<close>

lemma unmap_kernel_form:
  assumes "bufq s idx = q" "0 < idx" "idx < CAM_MEM_BUFQ_MAX" "\<not> has_flag (bq_flags q) CAM_MEM_FLAG_PROTECTED_MODE"
    and "bq_num_hdl q = 1" "bq_hdls q ! 0 = h" "bq_hdls q \<noteq> []"
    and "key_free (By_buf (dma_buf q)) ms" "mapped s = ms @ [(h, By_buf (dma_buf q), dma_buf q)]" "\<And>i r. me_unmapk env i r \<ge> 0"
  shows "fst (cam_mem_util_unmap_hw_va env idx region CAM_SMMU_MAPPING_KERNEL s) =
     s\<lparr>mapped := ms, refs := add_ref (dma_buf q) (-1) (refs s)\<rparr>"
proof -
  have t: "take 1 (bq_hdls q) = [h]" using assms(6,7) by (cases "bq_hdls q") auto
  have m: "mapped s = ms @ map (\<lambda>h. (h, By_buf (dma_buf q), dma_buf q)) [h]" using assms(9) by simp
  show ?thesis using unmap_loop_form [OF assms(8) m, of "\<lambda>i. me_unmapk env i region" 0 0] assms(1-5,10) t
    by (simp add: cam_mem_util_unmap_hw_va_def Let_def)
qed

text \<open>A request that succeeds: the slot it takes and what it holds.\<close>

definition requested :: "mem_env \<Rightarrow> cam_mem_mgr_request_desc \<Rightarrow> nat \<Rightarrow> ptr \<Rightarrow> mem \<Rightarrow> mem \<Rightarrow> bool" where
  "requested env d idx b s t \<longleftrightarrow> mgr_init t = mgr_init s \<and> mt_bitmap t = map_option (\<lambda>bm. bm(idx := True)) (mt_bitmap s)
     \<and> refs t = add_ref b 1 (refs s) \<and> mapped t = mapped s @ [(rd_smmu_hdl d, By_buf b, b)] \<and> cpu t = add_ref b 1 (cpu s)
     \<and> kpages t = add_ref b (int (page_num (me_size env b))) (kpages s)
     \<and> (\<forall>j. j \<noteq> idx \<longrightarrow> bufq t j = bufq s j) \<and> bq_active (bufq t idx) \<and> dma_buf (bufq t idx) = b
     \<and> (me_size env b \<noteq> 0 \<longrightarrow> kmdvaddr (bufq t idx) \<noteq> 0)
     \<and> bq_flags (bufq t idx) = rd_flags d OR CAM_MEM_FLAG_KMD_ACCESS \<and> bq_handle (bufq t idx) = GET_MEM_HANDLE idx (-1)
     \<and> bq_num_hdl (bufq t idx) = 1 \<and> bq_hdls (bufq t idx) ! 0 = rd_smmu_hdl d \<and> bq_hdls (bufq t idx) \<noteq> []"

lemma request_form:
  assumes "mem_ok s" "cam_mem_mgr_request_mem env (Some d) s = (t, 0, Some m)"
    and "\<not> snd (snd (me_mapk env (unmap_region (rd_flags d OR CAM_MEM_FLAG_KMD_ACCESS))))"
  obtains idx b where "0 < idx" "idx < CAM_MEM_BUFQ_MAX" "\<not> bq_active (bufq s idx)" "mgr_init s" "b \<noteq> 0"
    "b = me_ion env (rd_size d) ION_SYSTEM_CAMERA (if has_flag (rd_flags d) CAM_MEM_FLAG_CACHE then [ION_FLAG_CACHED] else [])"
    "md_mem_handle m = GET_MEM_HANDLE idx (-1)" "requested env d idx b s t"
proof -
  define fl where "fl = rd_flags d OR CAM_MEM_FLAG_KMD_ACCESS"
  let ?il = "if has_flag (rd_flags d) CAM_MEM_FLAG_CACHE then [ION_FLAG_CACHED] else []"
  have i: "mgr_init s" and g: "has_flag (rd_flags d) CAM_MEM_FLAG_HW_READ_WRITE
      \<or> has_flag (rd_flags d) CAM_MEM_FLAG_HW_SHARED_ACCESS \<or> has_flag (rd_flags d) CAM_MEM_FLAG_CACHE"
    using assms(2) by (auto simp: cam_mem_mgr_request_mem_def Let_def split: if_splits)
  obtain s1 r where r: "cam_mem_util_get_dma_buf env (rd_size d) ION_SYSTEM_CAMERA ?il s = (s1, r)" by (meson surj_pair)
  have "\<exists>b. r = Inr b"
    using assms(2) i g r by (cases r) (auto simp: cam_mem_mgr_request_mem_def)
  then obtain b where b: "r = Inr b" by blast
  note s1 = get_dma_buf_form [OF r [unfolded b]]
  obtain s2 rc kva n where c: "cam_mem_util_map_cpu_va env b s1 = (s2, rc, kva, n)" by (metis prod_cases4)
  obtain rk iova where mk: "me_mapk env (unmap_region fl) = (rk, iova, False)"
    using assms(3) by (cases "me_mapk env (unmap_region fl)") (auto simp: fl_def)
  define s3 where "s3 = (if rk < 0 then s2 else smmu_map_kernel (rd_smmu_hdl d) (By_buf b) b s2)"
  have e: "cam_mem_mgr_request_mem env (Some d) s =
      (if rc \<noteq> 0 then (dma_buf_put b s2, rc, None)
       else if rd_smmu_hdl d = 0 then (dma_buf_put b (fst (cam_mem_util_unmap_cpu_va env b kva s2)), code EINVAL, None)
       else if rk < 0 then (dma_buf_put b (fst (cam_mem_util_unmap_cpu_va env b kva s3)), rk, None)
       else case cam_mem_get_slot s3 of
           None \<Rightarrow> (dma_buf_put b (fst (cam_mem_util_unmap_cpu_va env b kva
             (if me_unmapk env 0 (unmap_region fl) < 0 then s3 else smmu_unmap (rd_smmu_hdl d) (By_buf b) s3))), code ENOMEM, None)
         | Some (s4, idx) \<Rightarrow> (kernel_fill b fl kva iova (rd_size d) (rd_smmu_hdl d) idx s4, rk,
             Some \<lparr>md_kva = kva, md_iova = ucast iova, md_smmu_hdl = rd_smmu_hdl d, md_mem_handle = GET_MEM_HANDLE idx (-1),
               md_len = rd_size d, md_region = unmap_region fl\<rparr>))"
    using r b g i c mk [unfolded fl_def]
    by (auto simp: cam_mem_mgr_request_mem_def Let_def fl_def s3_def split: option.splits)
  have rc: "rc = 0" "\<not> rk < 0" using assms(2) e by (auto split: if_splits)
  then obtain s4 idx where sl: "cam_mem_get_slot s3 = Some (s4, idx)"
    and t: "t = kernel_fill b fl kva iova (rd_size d) (rd_smmu_hdl d) idx s4" and mh: "md_mem_handle m = GET_MEM_HANDLE idx (-1)"
    using assms(2) e by (auto split: if_splits option.splits)
  note s2 = map_cpu_form [OF c [unfolded rc(1)]]
  have s3: "s3 = s\<lparr>refs := add_ref b 1 (refs s), mapped := mapped s @ [(rd_smmu_hdl d, By_buf b, b)], cpu := add_ref b 1 (cpu s),
       kpages := add_ref b (int (page_num (me_size env b))) (kpages s)\<rparr>"
    using rc by (simp add: s3_def smmu_map_kernel_def s2(1) s1(1))
  have "slots_ok s3" using mem_ok_slots [OF assms(1) i] by (simp add: s3 slots_ok_def)
  note g' = get_slot_Some [OF this sl]
  have hd: "bq_hdls (bufq s idx) \<noteq> []" using mem_ok_hdls [OF assms(1), of idx] by (auto simp: hdls_ok_def)
  have "requested env d idx b s t"
    using s2(2) hd unfolding requested_def
    by (auto simp: t kernel_fill_def upd_bufq_def g'(4) s3 set_bit_at_def copy_hdls_def fl_def)
  then show thesis using that [of idx b] g'(1-3) i s1(2,3) mh by (simp add: s3)
qed

lemma flags_kmd:
  "has_flag (fl OR CAM_MEM_FLAG_KMD_ACCESS) CAM_MEM_FLAG_PROTECTED_MODE = has_flag fl CAM_MEM_FLAG_PROTECTED_MODE"
  "wants_hw fl \<Longrightarrow> wants_hw (fl OR CAM_MEM_FLAG_KMD_ACCESS)"
proof -
  have o: "(fl OR k) AND f = (fl AND f) OR (k AND f)" for f k :: u32 by (simp add: bit.conj_disj_distrib2)
  have z: "(fl AND f) OR g \<noteq> 0" if "fl AND f \<noteq> 0" for f g :: u32 using that by (simp add: or_eq_0_iff)
  have "CAM_MEM_FLAG_KMD_ACCESS AND CAM_MEM_FLAG_PROTECTED_MODE = 0"
    by (simp add: CAM_MEM_FLAG_KMD_ACCESS_def CAM_MEM_FLAG_PROTECTED_MODE_def)
  then show "has_flag (fl OR CAM_MEM_FLAG_KMD_ACCESS) CAM_MEM_FLAG_PROTECTED_MODE = has_flag fl CAM_MEM_FLAG_PROTECTED_MODE"
    by (simp add: has_flag_def o)
  show "wants_hw fl \<Longrightarrow> wants_hw (fl OR CAM_MEM_FLAG_KMD_ACCESS)" using z by (auto simp: wants_hw_def has_flag_def o)
qed

text \<open>
  C19: Memory a driver requests for a hardware block and releases leaves nothing behind: references, mappings,
  kernel pages, CPU accesses and the bitmap are those before the request. The reference the request took is dropped by the
  SMMU driver with its mapping, which is why the table forgets the buffer without dropping one.
\<close>

theorem request_release:
  assumes "mem_ok s" "cam_mem_mgr_request_mem env (Some d) s = (t, 0, Some m)"
    and "wants_hw (rd_flags d)" "\<not> has_flag (rd_flags d) CAM_MEM_FLAG_PROTECTED_MODE"
    and "\<not> snd (snd (me_mapk env (unmap_region (rd_flags d OR CAM_MEM_FLAG_KMD_ACCESS))))"
    and "\<And>b. me_size env b \<noteq> 0" "me_size env' = me_size env" "\<And>i r. me_unmapk env' i r \<ge> 0"
    and "key_free (By_buf (me_ion env (rd_size d) ION_SYSTEM_CAMERA
      (if has_flag (rd_flags d) CAM_MEM_FLAG_CACHE then [ION_FLAG_CACHED] else []))) (mapped s)"
  shows "\<exists>u. cam_mem_mgr_release_mem env' (Some m) t = (u, me_end env') \<and> mem_ok u \<and> refs u = refs s \<and> mapped u = mapped s
    \<and> cpu u = cpu s \<and> kpages u = kpages s \<and> mt_bitmap u = mt_bitmap s"
proof -
  let ?fl = "rd_flags d OR CAM_MEM_FLAG_KMD_ACCESS"
  obtain idx b where idx: "0 < idx" "idx < CAM_MEM_BUFQ_MAX" "\<not> bq_active (bufq s idx)" and i: "mgr_init s" and b: "b \<noteq> 0"
    and bi: "b = me_ion env (rd_size d) ION_SYSTEM_CAMERA (if has_flag (rd_flags d) CAM_MEM_FLAG_CACHE then [ION_FLAG_CACHED] else [])"
    and mh: "md_mem_handle m = GET_MEM_HANDLE idx (-1)" and rq: "requested env d idx b s t"
    using request_form [OF assms(1,2,5)] by blast
  define kva where "kva = kmdvaddr (bufq t idx)"
  have t: "mgr_init t = mgr_init s" "mt_bitmap t = map_option (\<lambda>bm. bm(idx := True)) (mt_bitmap s)" "refs t = add_ref b 1 (refs s)"
    "mapped t = mapped s @ [(rd_smmu_hdl d, By_buf b, b)]" "cpu t = add_ref b 1 (cpu s)"
    "kpages t = add_ref b (int (page_num (me_size env b))) (kpages s)"
    and q: "bq_active (bufq t idx)" "dma_buf (bufq t idx) = b" "kmdvaddr (bufq t idx) = kva"
    "bq_flags (bufq t idx) = ?fl" "bq_handle (bufq t idx) = GET_MEM_HANDLE idx (-1)"
    "bq_num_hdl (bufq t idx) = 1" "bq_hdls (bufq t idx) ! 0 = rd_smmu_hdl d" "bq_hdls (bufq t idx) \<noteq> []"
    and k: "me_size env b \<noteq> 0 \<longrightarrow> kva \<noteq> 0"
    using rq by (simp_all add: requested_def kva_def)
  have f: "has_flag ?fl CAM_MEM_FLAG_KMD_ACCESS" "wants_hw ?fl" "\<not> has_flag ?fl CAM_MEM_FLAG_PROTECTED_MODE"
    using assms(3,4) flags_kmd has_flag_or by blast+
  have kva: "kva \<noteq> 0" using k assms(6) by simp
  define t1 where "t1 = t\<lparr>cpu := cpu s, kpages := kpages s\<rparr>"
  have c: "cam_mem_util_unmap_cpu_va env' b kva t = (t1, me_end env')"
    using b kva assms(7)
    by (simp add: cam_mem_util_unmap_cpu_va_def t1_def cpu_access_def add_pages_def add_ref_def fun_eq_iff t(5,6))
  define t2 where "t2 = t1\<lparr>mapped := mapped s, refs := add_ref b (-1) (refs t1)\<rparr>"
  have q1: "bufq t1 idx = bufq t idx" by (simp add: t1_def)
  have free: "key_free (By_buf (dma_buf (bufq t idx))) (mapped s)"
    using assms(9) unfolding q(2) bi [symmetric] by simp
  have m1: "mapped t1 = mapped s @ [(rd_smmu_hdl d, By_buf (dma_buf (bufq t idx)), dma_buf (bufq t idx))]"
    by (simp add: t1_def t(4) q(2))
  have hw: "fst (cam_mem_util_unmap_hw_va env' idx (unmap_region ?fl) CAM_SMMU_MAPPING_KERNEL t1) = t2"
    using unmap_kernel_form [where env = env', OF q1 idx(1,2) _ q(6-8) free m1 assms(8)] f(3) q(2,4) by (simp add: t2_def)
  define u where "u = clear_slot idx (upd_bufq idx (\<lambda>q. q\<lparr>dma_buf := 0\<rparr>) t2)"
  have un: "cam_mem_util_unmap env' idx CAM_SMMU_MAPPING_KERNEL t = (u, me_end env')"
    using c hw idx(1,2) q(1-4) f(1,2) b kva unfolding cam_mem_util_unmap_def Let_def by (simp add: u_def)
  have rel: "cam_mem_mgr_release_mem env' (Some m) t = (u, me_end env')"
    using un t(1) i q(1,5) mh idx(1,2) by (simp add: cam_mem_mgr_release_mem_def Let_def hdl_idx)
  have "mem_ok t" using request_mem_ok [OF assms(1), of env "Some d"] assms(2) by simp
  then have ok: "mem_ok u" using release_mem_ok [of t env' "Some m"] rel by simp
  have "mt_bitmap u = mt_bitmap s"
    using bitmap_restored [OF assms(1) i idx] by (simp add: u_def clear_slot_res upd_bufq_def t2_def t1_def t(2))
  then show ?thesis using rel ok by (simp add: u_def clear_slot_res upd_bufq_def put_if_def t2_def t1_def t(3))
qed

text \<open>
  C37: A secondary heap reserved without hardware flags, as the ICP manager does, and given back drops the reference of
  the reservation twice: once in the SMMU driver with the heap, once with the slot. Reserving had taken one.
\<close>

theorem sec_heap_double_put:
  assumes "mem_ok s" "cam_mem_mgr_reserve_memory_region env (Some d) CAM_SMMU_REGION_SECHEAP s = (t, 0, Some m)"
    and "\<not> snd (snd (snd (me_reserve env)))" "rd_flags d = 0" "me_release_heap env' = 0"
    and "\<not> list_ex (mapping_of (rd_smmu_hdl d) Sec_heap) (mapped s)"
  shows "\<exists>b u. b \<noteq> 0 \<and> refs t = add_ref b 1 (refs s) \<and> cam_mem_mgr_free_memory_region env' (Some m) t = (u, 0)
    \<and> refs u = add_ref b (-1) (refs s) \<and> mapped u = mapped s"
proof -
  have i: "mgr_init s" and sh: "rd_smmu_hdl d \<noteq> 0"
    using assms(2) by (auto simp: cam_mem_mgr_reserve_memory_region_def split: if_splits)
  obtain s1 r where r: "cam_mem_util_get_dma_buf env (rd_size d) ION_SYSTEM_CAMERA [] s = (s1, r)" by (meson surj_pair)
  have "\<exists>b. r = Inr b"
    using assms(2) i sh r by (cases r) (auto simp: cam_mem_mgr_reserve_memory_region_def)
  then obtain b where b: "r = Inr b" by blast
  note s1 = get_dma_buf_form [OF r [unfolded b]]
  obtain rc iova n where m: "me_reserve env = (rc, iova, n, False)" using assms(3) by (cases "me_reserve env") auto
  define s2 where "s2 = smmu_map_kernel (rd_smmu_hdl d) Sec_heap b s1"
  have e: "rc = 0 \<and> (\<exists>s3 idx. cam_mem_get_slot s2 = Some (s3, idx) \<and> t = kernel_fill b (rd_flags d) 0 iova n (rd_smmu_hdl d) idx s3
      \<and> md_mem_handle m = GET_MEM_HANDLE idx (-1) \<and> md_smmu_hdl m = rd_smmu_hdl d \<and> md_region m = CAM_SMMU_REGION_SECHEAP)"
    using assms(2) i sh r b m
    by (auto simp: cam_mem_mgr_reserve_memory_region_def Let_def s2_def split: option.splits if_splits)
  then obtain s3 idx where rc: "rc = 0" and sl: "cam_mem_get_slot s2 = Some (s3, idx)"
    and t: "t = kernel_fill b (rd_flags d) 0 iova n (rd_smmu_hdl d) idx s3"
    and md: "md_mem_handle m = GET_MEM_HANDLE idx (-1)" "md_smmu_hdl m = rd_smmu_hdl d" "md_region m = CAM_SMMU_REGION_SECHEAP"
    by blast
  have s2: "s2 = s\<lparr>refs := add_ref b 1 (refs s), mapped := mapped s @ [(rd_smmu_hdl d, Sec_heap, b)]\<rparr>"
    by (simp add: s2_def smmu_map_kernel_def s1(1))
  have "slots_ok s2" using mem_ok_slots [OF assms(1) i] by (simp add: s2 slots_ok_def)
  note g = get_slot_Some [OF this sl]
  have q: "bq_active (bufq t idx)" "bq_handle (bufq t idx) = GET_MEM_HANDLE idx (-1)" "bq_num_hdl (bufq t idx) = 1"
    "bq_hdls (bufq t idx) ! 0 = rd_smmu_hdl d" "bq_flags (bufq t idx) = 0" "dma_buf (bufq t idx) = b"
    and t': "mgr_init t" "refs t = add_ref b 1 (refs s)" "mapped t = mapped s @ [(rd_smmu_hdl d, Sec_heap, b)]"
    by (simp_all add: t kernel_fill_def upd_bufq_def g(4) s2 set_bit_at_def copy_hdls_def assms(4) i)
  have un: "smmu_unmap (rd_smmu_hdl d) Sec_heap t = t\<lparr>mapped := mapped s, refs := add_ref b (-1) (refs t)\<rparr>"
  proof -
    have n: "\<forall>x\<in>set (mapped s). \<not> mapping_of (rd_smmu_hdl d) Sec_heap x" using assms(6) by (auto simp: list_ex_iff)
    then have f: "find (mapping_of (rd_smmu_hdl d) Sec_heap) (mapped t) = Some (rd_smmu_hdl d, Sec_heap, b)"
      unfolding t'(3) by (rule find_last) (simp add: mapping_of_def)
    have "(rd_smmu_hdl d, Sec_heap, b) \<notin> set (mapped s)" using n by (auto simp: mapping_of_def)
    then have "remove1 (rd_smmu_hdl d, Sec_heap, b) (mapped t) = mapped s" by (simp add: t'(3) remove1_append)
    then show ?thesis using f assms(6) by (simp add: smmu_unmap_def Let_def dma_buf_ref_add)
  qed
  have z: "\<not> wants_hw 0" "\<not> has_flag 0 CAM_MEM_FLAG_KMD_ACCESS" by (simp_all add: wants_hw_def has_flag_def)
  define u where "u = clear_slot idx (t\<lparr>mapped := mapped s, refs := add_ref b (-1) (refs t)\<rparr>)"
  have "cam_mem_mgr_free_memory_region env' (Some m) t = (u, 0)"
    using md g(1,2) q t'(1) assms(5) z un
    by (simp add: cam_mem_mgr_free_memory_region_def Let_def hdl_idx cam_mem_util_unmap_def u_def)
  moreover have "refs u = add_ref b (-1) (refs s)" "mapped u = mapped s"
    using s1(3) by (simp_all add: u_def clear_slot_res q(6) put_if_form t'(2))
  ultimately show ?thesis using s1(3) t'(2) by blast
qed

subsection \<open>A mapping that fails half way\<close>

lemma map_loop_fails:
  assumes "key_free (By_fd fd) ms" "mapped s = ms @ map (\<lambda>h. (h, By_fd fd, b)) xs"
    and "distinct (xs @ hs)" "k < length hs" "\<And>j. j < k \<Longrightarrow> fst (f (i + j)) \<ge> 0" "fst (f (i + k)) < 0"
  shows "map_loop f fd b i hs r s =
    (s\<lparr>mapped := ms @ map (\<lambda>h. (h, By_fd fd, b)) (xs @ take k hs), refs := add_ref b (int k) (refs s)\<rparr>, f (i + k), Some (i + k))"
  using assms(2-)
proof (induction hs arbitrary: xs i k r s)
  case (Cons h hs)
  show ?case
  proof (cases k)
    case 0
    then show ?thesis using Cons.prems by (simp add: Cons.prems(1) [symmetric])
  next
    case (Suc k')
    let ?s = "smmu_map h (By_fd fd) b s"
    have "h \<notin> set xs" using Cons.prems(2) by simp
    note e = smmu_map_form [OF assms(1) Cons.prems(1), of h]
    have m: "mapped ?s = ms @ map (\<lambda>h. (h, By_fd fd, b)) (xs @ [h])" by (simp add: e)
    have "map_loop f fd b (Suc i) hs (f i) ?s =
      (?s\<lparr>mapped := ms @ map (\<lambda>h. (h, By_fd fd, b)) ((xs @ [h]) @ take k' hs), refs := add_ref b (int k') (refs ?s)\<rparr>,
       f (Suc i + k'), Some (Suc i + k'))"
    proof (rule Cons.IH [OF m])
      show "distinct ((xs @ [h]) @ hs)" using Cons.prems(2) by simp
      show "k' < length hs" using Cons.prems(3) Suc by simp
      show "0 \<le> fst (f (Suc i + j))" if "j < k'" for j using Cons.prems(4) [of "Suc j"] that Suc by simp
      show "fst (f (Suc i + k')) < 0" using Cons.prems(5) Suc by simp
    qed
    moreover have "\<not> fst (f i) < 0" using Cons.prems(4) [of 0] Suc by simp
    ultimately show ?thesis using Suc \<open>h \<notin> set xs\<close> by (simp add: e)
  qed
qed simp

lemma smmu_unmap_last:
  assumes "key_free k ms" "mapped s = ms @ map (\<lambda>h. (h, k, b)) (xs @ [h])" "h \<notin> set xs"
  shows "smmu_unmap h k s = s\<lparr>mapped := ms @ map (\<lambda>h. (h, k, b)) xs, refs := add_ref b (-1) (refs s)\<rparr>"
proof -
  let ?ys = "ms @ map (\<lambda>h. (h, k, b)) xs"
  have n: "\<forall>x\<in>set ?ys. \<not> mapping_of h k x" using assms(1,3) by (auto simp: key_free_def list_all_iff mapping_of_def)
  have m: "mapped s = ?ys @ [(h, k, b)]" using assms(2) by simp
  have "find (mapping_of h k) (mapped s) = Some (h, k, b)" unfolding m by (rule find_last [OF n]) (simp add: mapping_of_def)
  moreover have "(h, k, b) \<notin> set ?ys" using n by (auto simp: mapping_of_def ball_Un)
  then have "remove1 (h, k, b) (mapped s) = ?ys" unfolding m by (simp add: remove1_append)
  moreover have "\<not> list_ex (mapping_of h k) ?ys" using n by (auto simp: list_ex_iff)
  ultimately show ?thesis by (simp add: smmu_unmap_def Let_def dma_buf_ref_add del: list_ex_append)
qed

lemma unmap_down_form:
  assumes "key_free (By_fd fd) ms" "mapped s = ms @ map (\<lambda>h. (h, By_fd fd, b)) (take (Suc k) hs)"
    and "distinct hs" "k < length hs" "\<And>j. u j \<ge> 0"
  shows "unmap_down u fd hs (Suc k) s =
    s\<lparr>mapped := ms @ [(hs ! 0, By_fd fd, b)], refs := add_ref b (- int k) (refs s)\<rparr>"
  using assms(2,4)
proof (induction k arbitrary: s)
  case 0
  then have "take (Suc 0) hs = [hs ! 0]" by (simp add: take_Suc_conv_app_nth)
  then show ?case using 0 by (simp add: unmap_down_def)
next
  case (Suc k)
  let ?h = "hs ! Suc k"
  have t: "take (Suc (Suc k)) hs = take (Suc k) hs @ [?h]" using Suc.prems(2) by (simp add: take_Suc_conv_app_nth)
  have d: "?h \<notin> set (take (Suc k) hs)"
    using assms(3) Suc.prems(2) by (auto simp: in_set_conv_nth nth_eq_iff_index_eq)
  note e = smmu_unmap_last [OF assms(1) Suc.prems(1) [unfolded t] d]
  have down: "unmap_down u fd hs (Suc (Suc k)) s = unmap_down u fd hs (Suc k) (smmu_unmap ?h (By_fd fd) s)"
    using assms(5) [of "Suc k"] by (simp add: unmap_down_def)
  have "mapped (smmu_unmap ?h (By_fd fd) s) = ms @ map (\<lambda>h. (h, By_fd fd, b)) (take (Suc k) hs)" by (simp add: e)
  from Suc.IH [OF this] Suc.prems(2) show ?case unfolding down by (simp add: e)
qed

text \<open>
  C38: When the hardware mapping fails at a handle that is not the first, the undoing leaves the mapping of the first
  handle and the reference it holds: the loop that counts down ends before index 0. All others are undone.
\<close>

theorem failed_map_keeps_first:
  assumes "key_free (By_fd fd) (mapped s)" "distinct (take n hdls)" "0 < k" "k < n" "n \<le> length hdls"
    and "cam_mem_util_get_dma_dir flags \<noteq> None" "\<not> has_flag flags CAM_MEM_FLAG_PROTECTED_MODE"
    and "\<And>j. j < k \<Longrightarrow> fst (me_map env j region) \<ge> 0" "fst (me_map env k region) < 0" "\<And>j r. me_unmap env j r \<ge> 0"
  shows "cam_mem_util_map_hw_va env flags hdls n fd va0 len0 region s =
    (s\<lparr>mapped := mapped s @ [(hdls ! 0, By_fd fd, me_get env fd)], refs := add_ref (me_get env fd) 1 (refs s)\<rparr>, me_map env k region)"
proof -
  define b where "b = me_get env fd"
  define t where "t = s\<lparr>mapped := mapped s @ map (\<lambda>h. (h, By_fd fd, b)) (take k (take n hdls)), refs := add_ref b (int k) (refs s)\<rparr>"
  obtain p where p: "k = Suc p" using assms(3) by (cases k) auto
  have "map_loop (\<lambda>i. me_map env i region) fd b 0 (take n hdls) (-1, va0, len0) s = (t, me_map env k region, Some k)"
    using map_loop_fails [OF assms(1), of s b "[]" "take n hdls" k "\<lambda>i. me_map env i region" 0 "(-1, va0, len0)"] assms(2,4,5,8,9)
    by (simp add: t_def)
  moreover have "unmap_down (\<lambda>i. me_unmap env i CAM_SMMU_REGION_IO) fd hdls k t =
      s\<lparr>mapped := mapped s @ [(hdls ! 0, By_fd fd, b)], refs := add_ref b 1 (refs s)\<rparr>"
  proof -
    have a: "unmap_down (\<lambda>i. me_unmap env i CAM_SMMU_REGION_IO) fd (take n hdls) (Suc p) t =
        t\<lparr>mapped := mapped s @ [(take n hdls ! 0, By_fd fd, b)], refs := add_ref b (- int p) (refs t)\<rparr>"
      by (rule unmap_down_form [OF assms(1)]) (use assms(2,4,5,10) p in \<open>auto simp: t_def\<close>)
    have "unmap_down u fd hdls k t = unmap_down u fd (take n hdls) k t" for u
      unfolding unmap_down_def by (rule fold_cong) (use assms(4,5) in auto)
    then show ?thesis using a p assms(4) by (simp add: t_def)
  qed
  ultimately show ?thesis using assms(6,7) unfolding cam_mem_util_map_hw_va_def
    by (cases "me_map env k region") (auto simp: Let_def b_def)
qed

subsection \<open>On a concrete table\<close>

definition demo_mem :: mem where
  "demo_mem = \<lparr>mgr_init = False, mt_bitmap = None, mt_bits = 0, bufq = (\<lambda>_. zero_bufq), refs = (\<lambda>_. 0), fds = [],
     mapped = [], kpages = (\<lambda>_. 0), cpu = (\<lambda>_. 0)\<rparr>"

definition demo_menv :: mem_env where
  "demo_menv = \<lparr>me_bitmap = True, me_ion = (\<lambda>_ _ _. 100), me_fd = 7, me_get = (\<lambda>_. 100), me_size = (\<lambda>_. 4096), me_begin = 0,
     me_end = 0, me_kmap = (\<lambda>_. 5000), me_map = (\<lambda>i _. if i = 2 then (-12, 0, 0) else (0, 64, 4096)), me_map2 = (\<lambda>_. (0, 64, 4096)),
     me_mapk = (\<lambda>_. (0, 64, False)), me_unmap = (\<lambda>_ _. 0), me_unmap2 = (\<lambda>_. 0), me_unmapk = (\<lambda>_ _. 0),
     me_reserve = (0, 64, 4096, False), me_iova = (\<lambda>_ _ _. (0, 64, 4096)), me_release_heap = 0, me_dma_flags = (0, True)\<rparr>"

definition demo_alloc :: cam_mem_mgr_alloc_cmd where
  "demo_alloc = \<lparr>ac_len = 4096, ac_mmu_hdls = 11 # 12 # replicate 14 0, ac_num_hdl = 2, ac_flags = 9\<rparr>"

definition demo_req :: "u32 \<Rightarrow> cam_mem_mgr_request_desc" where
  "demo_req fl = \<lparr>rd_size = 4096, rd_smmu_hdl = 11, rd_flags = fl\<rparr>"

definition demo_mem_up :: mem where
  "demo_mem_up = fst (cam_mem_mgr_init demo_menv demo_mem)"

lemma demo_mem_up_ok: "mem_ok demo_mem_up" "mgr_init demo_mem_up" "mt_bits demo_mem_up = CAM_MEM_BUFQ_MAX" "mt_bitmap demo_mem_up = Some (\<lambda>i. i = 0)"
  "mapped demo_mem_up = []" "refs demo_mem_up = (\<lambda>_. 0)" "\<And>i. length (bq_hdls (bufq demo_mem_up i)) = 16"
proof -
  have "mem_ok demo_mem" by (simp add: mem_ok_def demo_mem_def zero_bufq_def)
  then show "mem_ok demo_mem_up" unfolding demo_mem_up_def by (intro init_ok) (simp_all add: demo_mem_def)
qed (simp_all add: demo_mem_up_def cam_mem_mgr_init_def demo_menv_def demo_mem_def Let_def zero_bufq_def)

lemma demo_slot:
  assumes "mt_bitmap s = Some (\<lambda>i. i = 0)" "mt_bits s = CAM_MEM_BUFQ_MAX"
  shows "cam_mem_get_slot s = Some (upd_bufq 1 (\<lambda>b. b\<lparr>bq_active := True\<rparr>) (set_bit_at 1 True s), 1)"
proof -
  have "find_first_zero_bit (\<lambda>i. i = 0) CAM_MEM_BUFQ_MAX = 1" by (rule find_first_zero_bit_eqI) auto
  then show ?thesis by (simp add: cam_mem_get_slot_def assms Let_def del: upt_rec_numeral)
qed

lemma demo_map_cpu:
  "cam_mem_util_map_cpu_va demo_menv b s = (add_pages b 1 (cpu_access b 1 s), 0, 5000, 4096)"
  by (simp add: cam_mem_util_map_cpu_va_def demo_menv_def page_num_def Let_def)

lemma demo_flags:
  "has_flag 9 CAM_MEM_FLAG_HW_READ_WRITE" "has_flag 9 CAM_MEM_FLAG_KMD_ACCESS" "\<not> has_flag 9 CAM_MEM_FLAG_PROTECTED_MODE"
  "\<not> has_flag 9 CAM_MEM_FLAG_CP_PIXEL" "\<not> has_flag 9 CAM_MEM_FLAG_HW_READ_ONLY" "\<not> has_flag 9 CAM_MEM_FLAG_HW_WRITE_ONLY"
  "\<not> has_flag 9 CAM_MEM_FLAG_HW_SHARED_ACCESS" "\<not> has_flag 9 CAM_MEM_FLAG_CACHE"
  "has_flag 1 CAM_MEM_FLAG_HW_READ_WRITE" "\<not> has_flag 1 CAM_MEM_FLAG_PROTECTED_MODE" "\<not> has_flag 1 CAM_MEM_FLAG_CACHE"
  by (simp_all add: has_flag_def CAM_MEM_FLAG_HW_READ_WRITE_def CAM_MEM_FLAG_KMD_ACCESS_def CAM_MEM_FLAG_PROTECTED_MODE_def
      CAM_MEM_FLAG_CP_PIXEL_def CAM_MEM_FLAG_HW_READ_ONLY_def CAM_MEM_FLAG_HW_WRITE_ONLY_def CAM_MEM_FLAG_HW_SHARED_ACCESS_def
      CAM_MEM_FLAG_CACHE_def)

lemma demo_map_hw:
  "\<exists>t. cam_mem_util_map_hw_va demo_menv 9 (11 # 12 # replicate 14 0) 2 7 0 4096 CAM_SMMU_REGION_IO s = (t, 0, 64, 4096) \<and> tabl t = tabl s"
proof -
  have "cam_mem_util_map_hw_va demo_menv 9 (11 # 12 # replicate 14 0) 2 7 0 4096 CAM_SMMU_REGION_IO s =
      (smmu_map 12 (By_fd 7) 100 (smmu_map 11 (By_fd 7) 100 s), 0, 64, 4096)"
    by (simp add: cam_mem_util_map_hw_va_def cam_mem_util_get_dma_dir_def demo_flags demo_menv_def Let_def)
  then show ?thesis by simp
qed

lemma demo_alloc_ok: "\<exists>t h. cam_mem_mgr_alloc_and_map demo_menv (Some demo_alloc) demo_mem_up = (t, 0, Some (h, 7))"
proof -
  obtain s1 where ion: "cam_mem_util_ion_alloc demo_menv demo_alloc demo_mem_up = (s1, Inr (100, 7))" "tabl s1 = tabl demo_mem_up"
    by (simp add: cam_mem_util_ion_alloc_def cam_mem_util_get_dma_buf_fd_def ion_choice_def demo_menv_def demo_alloc_def demo_flags Let_def)
  obtain s2 where sl: "cam_mem_get_slot s1 = Some (s2, 1)"
    using demo_slot [of s1] ion(2) demo_mem_up_ok by (simp add: tabl_def)
  obtain s3 where hw: "cam_mem_util_map_hw_va demo_menv 9 (11 # 12 # replicate 14 0) 2 7 0 4096 CAM_SMMU_REGION_IO s2 = (s3, 0, 64, 4096)"
    using demo_map_hw by blast
  have ck: "cam_mem_util_check_alloc_flags demo_alloc = 0" "wants_hw 9" "alloc_region 9 = CAM_SMMU_REGION_IO"
    by (simp_all add: cam_mem_util_check_alloc_flags_def demo_alloc_def secure_and_kernel_def demo_flags wants_hw_def alloc_region_def)
  show ?thesis using ion(1) sl hw ck demo_mem_up_ok(2)
    by (simp add: cam_mem_mgr_alloc_and_map_def Let_def alloc_fill_def demo_map_cpu demo_flags) (simp add: demo_alloc_def alloc_fill_def demo_flags demo_map_cpu Let_def)
qed

theorem mem_alloc_release_witness:
  "\<exists>t h u. cam_mem_mgr_alloc_and_map demo_menv (Some demo_alloc) demo_mem_up = (t, 0, Some (h, 7))
    \<and> cam_mem_mgr_release demo_menv (Some h) t = (u, 0) \<and> mem_ok u \<and> refs u 100 = 1 \<and> mapped u = [] \<and> mt_bitmap u = mt_bitmap demo_mem_up"
proof -
  obtain t h where a: "cam_mem_mgr_alloc_and_map demo_menv (Some demo_alloc) demo_mem_up = (t, 0, Some (h, 7))" using demo_alloc_ok by blast
  have "\<exists>u. cam_mem_mgr_release demo_menv (Some h) t = (u, if kmd demo_alloc then me_end demo_menv else 0)
    \<and> mem_ok u \<and> refs u = add_ref (me_get demo_menv 7) 1 (refs demo_mem_up) \<and> mapped u = mapped demo_mem_up \<and> cpu u = cpu demo_mem_up \<and> kpages u = kpages demo_mem_up
    \<and> mt_bitmap u = mt_bitmap demo_mem_up
    \<and> list_all (\<lambda>j. bq_active (bufq u j) = bq_active (bufq demo_mem_up j)) [0..<CAM_MEM_BUFQ_MAX]"
    by (rule mem_alloc_release [OF demo_mem_up_ok(1) a])
       (simp_all add: demo_alloc_def key_free_def demo_mem_up_ok demo_menv_def)
  then show ?thesis using a by (auto simp: demo_menv_def demo_mem_up_ok add_ref_def simp del: upt_rec_numeral)
qed

lemma demo_get_dma_buf: "cam_mem_util_get_dma_buf demo_menv n heap fl s = (dma_buf_ref 100 1 s, Inr 100)"
  by (simp add: cam_mem_util_get_dma_buf_def demo_menv_def Let_def)

theorem request_release_witness:
  "\<exists>t m u. cam_mem_mgr_request_mem demo_menv (Some (demo_req 1)) demo_mem_up = (t, 0, Some m) \<and> refs t 100 = 1
    \<and> cam_mem_mgr_release_mem demo_menv (Some m) t = (u, 0) \<and> refs u = refs demo_mem_up \<and> mapped u = [] \<and> mt_bitmap u = mt_bitmap demo_mem_up"
proof -
  let ?s = "smmu_map_kernel 11 (By_buf 100) 100 (add_pages 100 1 (cpu_access 100 1 (dma_buf_ref 100 1 demo_mem_up)))"
  have mk: "me_mapk demo_menv r = (0, 64, False)" for r by (simp add: demo_menv_def)
  have "tabl ?s = tabl demo_mem_up" by simp
  note e = tabl_cases [OF this]
  have "cam_mem_get_slot ?s = Some (upd_bufq 1 (\<lambda>b. b\<lparr>bq_active := True\<rparr>) (set_bit_at 1 True ?s), 1)"
    by (rule demo_slot) (simp_all only: e demo_mem_up_ok)
  then obtain t m where a: "cam_mem_mgr_request_mem demo_menv (Some (demo_req 1)) demo_mem_up = (t, 0, Some m)" and r: "refs t = refs ?s"
    using demo_mem_up_ok(2)
    by (simp add: cam_mem_mgr_request_mem_def demo_req_def demo_flags demo_get_dma_buf demo_map_cpu mk Let_def kernel_fill_def upd_bufq_def set_bit_at_def)
  have "\<exists>u. cam_mem_mgr_release_mem demo_menv (Some m) t = (u, me_end demo_menv) \<and> mem_ok u \<and> refs u = refs demo_mem_up \<and> mapped u = mapped demo_mem_up
    \<and> cpu u = cpu demo_mem_up \<and> kpages u = kpages demo_mem_up \<and> mt_bitmap u = mt_bitmap demo_mem_up"
    by (rule request_release [OF demo_mem_up_ok(1) a])
       (simp_all add: demo_req_def demo_flags wants_hw_def demo_menv_def key_free_def demo_mem_up_ok)
  moreover have "refs t 100 = 1" unfolding r
    by (simp add: demo_mem_up_ok smmu_map_kernel_def add_pages_def cpu_access_def dma_buf_ref_def)
  ultimately show ?thesis using a by (auto simp: demo_menv_def demo_mem_up_ok)
qed

theorem sec_heap_double_put_witness:
  "\<exists>t m b u. cam_mem_mgr_reserve_memory_region demo_menv (Some (demo_req 0)) CAM_SMMU_REGION_SECHEAP demo_mem_up = (t, 0, Some m)
    \<and> refs t b = 1 \<and> cam_mem_mgr_free_memory_region demo_menv (Some m) t = (u, 0) \<and> refs u b = -1 \<and> mapped u = []"
proof -
  let ?s = "smmu_map_kernel 11 Sec_heap 100 (dma_buf_ref 100 1 demo_mem_up)"
  have mk: "me_reserve demo_menv = (0, 64, 4096, False)" by (simp add: demo_menv_def)
  have "tabl ?s = tabl demo_mem_up" by simp
  note e = tabl_cases [OF this]
  have "cam_mem_get_slot ?s = Some (upd_bufq 1 (\<lambda>b. b\<lparr>bq_active := True\<rparr>) (set_bit_at 1 True ?s), 1)"
    by (rule demo_slot) (simp_all only: e demo_mem_up_ok)
  then obtain t m where a: "cam_mem_mgr_reserve_memory_region demo_menv (Some (demo_req 0)) CAM_SMMU_REGION_SECHEAP demo_mem_up = (t, 0, Some m)"
    using demo_mem_up_ok(2)
    by (simp add: cam_mem_mgr_reserve_memory_region_def demo_req_def demo_get_dma_buf mk Let_def)
  have "\<exists>b u. b \<noteq> 0 \<and> refs t = add_ref b 1 (refs demo_mem_up) \<and> cam_mem_mgr_free_memory_region demo_menv (Some m) t = (u, 0)
    \<and> refs u = add_ref b (-1) (refs demo_mem_up) \<and> mapped u = mapped demo_mem_up"
    by (rule sec_heap_double_put [OF demo_mem_up_ok(1) a]) (simp_all add: mk demo_req_def demo_mem_up_ok, simp add: demo_menv_def)
  then show ?thesis using a by (auto simp: demo_mem_up_ok add_ref_def)
qed

theorem failed_map_keeps_first_witness:
  "cam_mem_util_map_hw_va demo_menv 9 [21, 22, 23] 3 7 0 4096 CAM_SMMU_REGION_IO demo_mem_up =
    (demo_mem_up\<lparr>mapped := [(21, By_fd 7, 100)], refs := add_ref 100 1 (\<lambda>_. 0)\<rparr>, -12, 0, 0)"
proof -
  have "cam_mem_util_map_hw_va demo_menv 9 [21, 22, 23] 3 7 0 4096 CAM_SMMU_REGION_IO demo_mem_up =
    (demo_mem_up\<lparr>mapped := mapped demo_mem_up @ [([21, 22, 23] ! 0, By_fd 7, me_get demo_menv 7)],
       refs := add_ref (me_get demo_menv 7) 1 (refs demo_mem_up)\<rparr>, me_map demo_menv 2 CAM_SMMU_REGION_IO)"
    by (rule failed_map_keeps_first)
       (auto simp: key_free_def demo_mem_up_ok cam_mem_util_get_dma_dir_def demo_flags demo_menv_def numeral_2_eq_2 less_Suc_eq)
  then show ?thesis by (simp add: demo_mem_up_ok demo_menv_def)
qed

text \<open>
  C17: In every state the memory manager reaches the bitmap says which slots are in use, slot 0 is reserved, every slot in
  use is named by a handle with its own index, so no two buffers share a handle, the handle of a buffer of user space
  says whether it is protected, a buffer has a kernel address only if kernel access was asked for, and never so if it
  belongs to user space and is protected.
\<close>

theorem mem_reachable_ok:
  assumes "mem_start s" "mem_step\<^sup>*\<^sup>* s t"
  shows "mem_ok t"
  using mem_machine.reachable_inv [OF assms] .

theorem mem_reachable_ok_witness:
  "\<exists>t i. mem_start demo_mem \<and> mem_step\<^sup>*\<^sup>* demo_mem t \<and> bq_active (bufq t i) \<and> CAM_MEM_MGR_GET_HDL_IDX (bq_handle (bufq t i)) = i"
proof -
  have st: "mem_start demo_mem" by (simp add: mem_start_def demo_mem_def)
  obtain t h where a: "cam_mem_mgr_alloc_and_map demo_menv (Some demo_alloc) demo_mem_up = (t, 0, Some (h, 7))" using demo_alloc_ok by blast
  have "mem_step demo_mem demo_mem_up" unfolding demo_mem_up_def by (rule step_init) (simp add: demo_mem_def)
  moreover have "mem_step demo_mem_up (fst (cam_mem_mgr_alloc_and_map demo_menv (Some demo_alloc) demo_mem_up))"
    by (rule step_alloc) (simp add: demo_alloc_def)
  ultimately have r: "mem_step\<^sup>*\<^sup>* demo_mem t" using a by (simp add: converse_rtranclp_into_rtranclp)
  obtain idx where "bq_active (bufq t idx)"
    by (rule alloc_form [OF demo_mem_up_ok(1) a]) (auto simp: demo_alloc_def key_free_def demo_mem_up_ok demo_menv_def filled_def)
  moreover have "mem_ok t" by (rule mem_reachable_ok [OF st r])
  ultimately show ?thesis using st r by (auto simp: mem_ok_def slot_ok_def)
qed

end
