(* ===== verification/Cam_Packet_Util.thy ===== *)
theory Cam_Packet_Util
  imports Cam_Mem_Life
begin

text \<open>
  The packet utilities, \<^verbatim>\<open>drivers/cam_utils/cam_packet_util.c\<close>: checks of the packets user space submits, the patching of
  addresses into command buffers, and the walk over a buffer of tagged blobs.

  Packets and buffers lie in memory shared with user space, modelled as bytes by address: descriptors are read where the code
  reads them, and a patch may change the packet it comes from. Structures are read field by field at the offsets of
  \<^verbatim>\<open>include/uapi/ais/media/cam_defs.h\<close>.
\<close>

subsection \<open>Memory\<close>

type_synonym bmem = "ptr \<Rightarrow> u8"

definition rd32 :: "bmem \<Rightarrow> ptr \<Rightarrow> u32" where
  "rd32 m a = ucast (m a) OR push_bit 8 (ucast (m (a + 1))) OR push_bit 16 (ucast (m (a + 2))) OR push_bit 24 (ucast (m (a + 3)))"

definition wr32 :: "ptr \<Rightarrow> u32 \<Rightarrow> bmem \<Rightarrow> bmem" where
  "wr32 a v m = m(a := ucast v, a + 1 := ucast (drop_bit 8 v), a + 2 := ucast (drop_bit 16 v), a + 3 := ucast (drop_bit 24 v))"

subsection \<open>Descriptors\<close>

record cam_cmd_buf_desc =
  cb_mem_handle :: u32
  cb_offset :: u32
  cb_size :: u32
  cb_length :: u32

record cam_patch_desc =
  dst_buf_hdl :: u32
  dst_offset :: u32
  src_buf_hdl :: u32
  src_offset :: u32

definition cmd_buf_desc_at :: "bmem \<Rightarrow> ptr \<Rightarrow> cam_cmd_buf_desc" where
  "cmd_buf_desc_at m a = \<lparr>cb_mem_handle = rd32 m a, cb_offset = rd32 m (a + 4), cb_size = rd32 m (a + 8), cb_length = rd32 m (a + 12)\<rparr>"

definition patch_desc_at :: "bmem \<Rightarrow> ptr \<Rightarrow> cam_patch_desc" where
  "patch_desc_at m a = \<lparr>dst_buf_hdl = rd32 m a, dst_offset = rd32 m (a + 4), src_buf_hdl = rd32 m (a + 8), src_offset = rd32 m (a + 12)\<rparr>"

record cam_packet =
  pk_size :: u32
  cmd_buf_offset :: u32
  num_cmd_buf :: u32
  io_configs_offset :: u32
  num_io_configs :: u32
  patch_offset :: u32
  num_patches :: u32
  kmd_cmd_buf_index :: u32
  kmd_cmd_buf_offset :: u32

definition packet_at :: "bmem \<Rightarrow> ptr \<Rightarrow> cam_packet" where
  "packet_at m p = \<lparr>pk_size = rd32 m (p + 4), cmd_buf_offset = rd32 m (p + 24), num_cmd_buf = rd32 m (p + 28),
     io_configs_offset = rd32 m (p + 32), num_io_configs = rd32 m (p + 36), patch_offset = rd32 m (p + 40),
     num_patches = rd32 m (p + 44), kmd_cmd_buf_index = rd32 m (p + 48), kmd_cmd_buf_offset = rd32 m (p + 52)\<rparr>"

text \<open>Sizes of the structures, and the offset of the payload.\<close>

abbreviation SZ_CMD :: u64 where "SZ_CMD \<equiv> 24"
abbreviation SZ_IO :: u64 where "SZ_IO \<equiv> 256"
abbreviation SZ_PATCH :: u64 where "SZ_PATCH \<equiv> 16"
abbreviation PAYLOAD :: u64 where "PAYLOAD \<equiv> 56"

definition sz :: "u32 \<Rightarrow> u64" where
  "sz x = ucast x"

subsection \<open>Checks\<close>

definition cam_packet_util_get_cmd_mem_addr :: "mem_env \<Rightarrow> u32 \<Rightarrow> mem \<Rightarrow> mem \<times> int \<times> ptr \<times> u64" where
  "cam_packet_util_get_cmd_mem_addr env h s =
     (let (s1, rc, va, n) = cam_mem_get_cpu_buf env h s in
      if rc \<noteq> 0 then (s1, rc, 0, n)
      else if va \<noteq> 0 \<and> n \<noteq> 0 then (s1, rc, va, n)
      else (s1, code ENOMEM, 0, n))"

definition cam_packet_util_validate_cmd_desc :: "cam_cmd_buf_desc \<Rightarrow> int" where
  "cam_packet_util_validate_cmd_desc d =
     (if cb_length d > cb_size d \<or> sint (cb_mem_handle d) \<le> 0 then code EINVAL else 0)"

definition cam_packet_util_validate_packet :: "bmem \<Rightarrow> ptr \<Rightarrow> u64 \<Rightarrow> int" where
  "cam_packet_util_validate_packet m p remain_len =
     (if p = 0 then code EINVAL
      else
        (let k = packet_at m p;
             sum_cmd_desc = sz (num_cmd_buf k) * SZ_CMD;
             sum_io_cfgs = sz (num_io_configs k) * SZ_IO;
             sum_patch_desc = sz (num_patches k) * SZ_PATCH
         in if sz (pk_size k) > remain_len then code EINVAL
            else if pk_size k = 0
              \<or> PAYLOAD + sz (cmd_buf_offset k) + sum_cmd_desc > sz (pk_size k)
              \<or> PAYLOAD + sz (io_configs_offset k) + sum_io_cfgs > sz (pk_size k)
              \<or> PAYLOAD + sz (patch_offset k) + sum_patch_desc > sz (pk_size k)
            then code EINVAL
            else 0))"

record cam_kmd_buf_info =
  kb_handle :: u32
  kb_cpu_addr :: ptr
  kb_offset :: u32
  kb_size :: u32
  kb_used_bytes :: u32

definition cam_packet_util_get_kmd_buffer ::
  "mem_env \<Rightarrow> bmem \<Rightarrow> ptr \<Rightarrow> mem \<Rightarrow> mem \<times> int \<times> cam_kmd_buf_info option" where
  "cam_packet_util_get_kmd_buffer env m p s =
     (if p = 0 then (s, code EINVAL, None)
      else
        (let k = packet_at m p in
         if kmd_cmd_buf_index k \<ge> num_cmd_buf k then (s, code EINVAL, None)
         else
           (let d = cmd_buf_desc_at m (p + PAYLOAD + sz (cmd_buf_offset k) + sz (kmd_cmd_buf_index k) * SZ_CMD);
                rc = cam_packet_util_validate_cmd_desc d
            in if rc \<noteq> 0 then (s, rc, None)
               else
                 (let (s1, rc, va, n) = cam_packet_util_get_cmd_mem_addr env (cb_mem_handle d) s in
                  if rc \<noteq> 0 then (s1, rc, None)
                  else if sz (cb_offset d) \<ge> n \<or> sz (cb_size d) > n - sz (cb_offset d)
                  then (fst (cam_mem_put_cpu_buf env (cb_mem_handle d) s1), code EINVAL, None)
                  else if sz (kmd_cmd_buf_offset k) \<ge> n - sz (cb_offset d)
                  then (fst (cam_mem_put_cpu_buf env (cb_mem_handle d) s1), code EINVAL, None)
                  else
                    (fst (cam_mem_put_cpu_buf env (cb_mem_handle d) s1), 0,
                     Some \<lparr>kb_handle = cb_mem_handle d,
                       kb_cpu_addr = va + 4 * sz (cb_offset d div 4 + kmd_cmd_buf_offset k div 4),
                       kb_offset = cb_offset d + kmd_cmd_buf_offset k, kb_size = cb_size d - cb_length d, kb_used_bytes = 0\<rparr>)))))"

subsection \<open>Patches\<close>

text \<open>
  One round of the loop for the descriptor at \<open>a\<close>: the new state and memory, and the code the function returns if the
  round ends it. The buffer is put back under the handle the descriptor has after the write, which may have changed it.
\<close>

definition patch_one ::
  "mem_env \<Rightarrow> u32 \<Rightarrow> u32 \<Rightarrow> ptr \<Rightarrow> mem \<times> bmem \<Rightarrow> (mem \<times> bmem) \<times> int option" where
  "patch_one env iommu_hdl sec_mmu_hdl a sm =
     (let (s, m) = sm;
          d = patch_desc_at m a;
          h = (if cam_mem_is_secure_buf (src_buf_hdl d) then sec_mmu_hdl else iommu_hdl);
          (rc, iova, src_size) = cam_mem_get_io_buf env (src_buf_hdl d) h s
      in if rc < 0 then ((s, m), Some rc)
         else
           (let (s1, rc, va, n) = cam_mem_get_cpu_buf env (dst_buf_hdl d) s in
            if rc < 0 \<or> va = 0 \<or> n = 0 then ((s1, m), Some rc)
            else if sz (src_offset d) \<ge> src_size then ((s1, m), Some (code EINVAL))
            else if n < 8 \<or> n - 8 < sz (dst_offset d) then ((s1, m), Some (code EINVAL))
            else
              (let m1 = wr32 (va + sz (dst_offset d)) (ucast iova + src_offset d) m in
               ((fst (cam_mem_put_cpu_buf env (dst_buf_hdl (patch_desc_at m1 a)) s1), m1), None))))"

lemma unat_u32: "unat (x :: u32) < 2 ^ 32"
proof -
  have "unat x < 2 ^ LENGTH(32)" by (rule unsigned_less)
  then show ?thesis by simp
qed

text \<open>
  The count and the descriptors are read anew in every round, from memory the rounds before may have written.
\<close>

function patch_loop :: "mem_env \<Rightarrow> u32 \<Rightarrow> u32 \<Rightarrow> ptr \<Rightarrow> ptr \<Rightarrow> nat \<Rightarrow> mem \<times> bmem \<Rightarrow> (mem \<times> bmem) \<times> int" where
  "patch_loop env iommu sec p pd i sm =
     (if i < unat (num_patches (packet_at (snd sm) p))
      then
        (case patch_one env iommu sec (pd + SZ_PATCH * of_nat i) sm of
           (sm1, Some rc) \<Rightarrow> (sm1, rc)
         | (sm1, None) \<Rightarrow> patch_loop env iommu sec p pd (Suc i) sm1)
      else (sm, 0))"
  by pat_completeness auto
termination
proof (relation "measure (\<lambda>(env, iommu, sec, p, pd, i, sm). 2 ^ 32 - i)")
  fix env iommu sec p pd i and sm :: "mem \<times> bmem" and q x y
  assume "i < unat (num_patches (packet_at (snd sm) p))"
  then have "i < 2 ^ 32" using unat_u32 [of "num_patches (packet_at (snd sm) p)"] by simp
  then show "((env, iommu, sec, p, pd, Suc i, x), env, iommu, sec, p, pd, i, sm)
      \<in> measure (\<lambda>(env, iommu, sec, p, pd, i, sm). 2 ^ 32 - i)" by simp
qed simp

declare patch_loop.simps [simp del]

definition cam_packet_util_process_patches ::
  "mem_env \<Rightarrow> ptr \<Rightarrow> u32 \<Rightarrow> u32 \<Rightarrow> mem \<times> bmem \<Rightarrow> (mem \<times> bmem) \<times> int" where
  "cam_packet_util_process_patches env p iommu_hdl sec_mmu_hdl sm =
     patch_loop env iommu_hdl sec_mmu_hdl p (p + PAYLOAD + 4 * sz (patch_offset (packet_at (snd sm) p) div 4)) 0 sm"

subsection \<open>Blobs\<close>

definition blob_type_of :: "u32 \<Rightarrow> u32" where
  "blob_type_of w = w AND 0xFF"

definition blob_size_of :: "u32 \<Rightarrow> u32" where
  "blob_size_of w = drop_bit 8 (w AND 0xFFFFFF00)"

definition blob_block_size :: "u32 \<Rightarrow> u32" where
  "blob_block_size n = ucast (4 + (sz n + 4 - 1) div 4 * 4)"

text \<open>The loop; the handler may end it with a code. Not returning is \<^const>\<open>None\<close>.\<close>

partial_function (option) blob_loop ::
  "(u32 \<Rightarrow> u32 \<Rightarrow> ptr \<Rightarrow> 'u \<Rightarrow> 'u \<times> int) \<Rightarrow> bmem \<Rightarrow> u32 \<Rightarrow> ptr \<Rightarrow> u32 \<Rightarrow> int \<Rightarrow> 'u \<Rightarrow> ('u \<times> int) option" where
  "blob_loop handler m len blob_ptr len_read rc u =
     (if len_read < len
      then
        (let w = rd32 m blob_ptr; n = blob_size_of w; blk = blob_block_size n in
         if len_read + blk > len then Some (u, code EINVAL)
         else
           (case handler (blob_type_of w) n (blob_ptr + 4) u of
              (u1, rc1) \<Rightarrow>
                (if rc1 \<noteq> 0 then Some (u1, rc1)
                 else blob_loop handler m len (blob_ptr + 4 * sz (blk div 4)) (len_read + blk) rc1 u1)))
      else Some (u, rc))"

definition cam_packet_util_process_generic_cmd_buffer ::
  "mem_env \<Rightarrow> (u32 \<Rightarrow> u32 \<Rightarrow> ptr \<Rightarrow> 'u \<Rightarrow> 'u \<times> int) \<Rightarrow> cam_cmd_buf_desc \<Rightarrow> bmem \<Rightarrow> mem \<Rightarrow> 'u \<Rightarrow> (mem \<times> 'u \<times> int) option" where
  "cam_packet_util_process_generic_cmd_buffer env handler c m s u =
     (if cb_length c = 0 \<or> cb_size c = 0 then Some (s, u, code EINVAL)
      else
        (let (s1, rc, va, n) = cam_mem_get_cpu_buf env (cb_mem_handle c) s in
         if rc \<noteq> 0 \<or> va = 0 \<or> n = 0 then Some (s1, u, rc)
         else
           (let s2 = fst (cam_mem_put_cpu_buf env (cb_mem_handle c) s1) in
            if n < 4 \<or> sz (cb_offset c) > n - 4 then Some (s2, u, rc)
            else if n - sz (cb_offset c) < sz (cb_length c) then Some (s2, u, rc)
            else
              (case blob_loop handler m (cb_length c) (va + sz (cb_offset c)) 0 rc u of
                 None \<Rightarrow> None
               | Some (u1, rc1) \<Rightarrow> Some (s2, u1, rc1)))))"

subsection \<open>Planes\<close>

record cam_plane_cfg =
  plane_stride :: u32
  slice_height :: u32
  meta_size :: u32

record cam_buf_io_cfg =
  io_offsets :: "u32 list"
  io_planes :: "cam_plane_cfg list"
  io_format :: u32

definition align16 :: "u32 \<Rightarrow> u32" where
  "align16 x = (x + 16 - 1) div 16 * 16"

text \<open>The size the format asks for, computed in 32 bits; 0 when the stride does not suit the format.\<close>

definition kmd_plane_size :: "u32 \<Rightarrow> u32 \<Rightarrow> u32 \<Rightarrow> u32 \<Rightarrow> u32" where
  "kmd_plane_size format stride height meta =
     (if format \<in> {1, 2} then align16 (stride * height)
      else if format = 3 then (if stride mod 4 = 0 then align16 (stride * height) else 0)
      else if format = 4 then (if stride mod 2 = 0 then align16 (stride * height) else 0)
      else if format = 5 then (if stride mod 4 = 0 then stride * height * 7 div 4 else 0)
      else if format \<in> {37, 38, 39} then meta + ((stride * height + (4096 - 1)) AND NOT (4096 - 1))
      else stride * height)"

definition cam_packet_validate_plane_size :: "cam_buf_io_cfg \<Rightarrow> nat \<Rightarrow> u64 \<Rightarrow> int" where
  "cam_packet_validate_plane_size cfg i n =
     (let pl = io_planes cfg ! i; stride = plane_stride pl; height = slice_height pl in
      if i \<ge> 3 \<or> stride = 0 \<or> height = 0 then code EINVAL
      else
        (let k = kmd_plane_size (io_format cfg) stride height (meta_size pl) in
         if k = 0 \<or> sz k > n - sz (io_offsets cfg ! i) then code EINVAL else 0))"

subsection \<open>Sizes\<close>

lemma unat_sz [simp]: "unat (sz x) = unat x"
  using unat_u32 [of x] by (simp add: sz_def unsigned_ucast_eq take_bit_nat_eq_self)

lemma sum_fits: "56 + unat x + k * unat y < 2 ^ 64" if "k \<le> 256" for x y :: u32
proof -
  have "k * unat y \<le> 256 * 2 ^ 32" using mult_le_mono [OF that less_imp_le [OF unat_u32 [of y]]] by simp
  then show ?thesis using unat_u32 [of x] by simp
qed

lemma unat_sum:
  assumes "unat c \<le> 256"
  shows "unat (PAYLOAD + sz x + sz y * c) = 56 + unat x + unat c * unat y"
proof -
  have "unat y * unat c < 2 ^ 64" using sum_fits [OF assms, of 0 y] by (simp add: mult.commute)
  then have m: "unat (sz y * c) = unat c * unat y" by (simp add: unat_word_ariths mult.commute)
  have a: "unat (PAYLOAD + sz x) = 56 + unat x" using unat_u32 [of x] by (simp add: unat_word_ariths)
  show ?thesis using sum_fits [OF assms, of x y] by (simp add: unat_word_ariths(1) [of "PAYLOAD + sz x"] m a)
qed

text \<open>
  C32: A packet that passes the check lies in the memory the caller says is left, and its command, input/output and patch
  descriptors, all of them, lie in the packet: no sum of the check wraps.
\<close>

theorem packet_fits:
  assumes "cam_packet_util_validate_packet m p remain_len = 0"
  shows "p \<noteq> 0 \<and> unat (pk_size (packet_at m p)) \<le> unat remain_len
    \<and> 56 + unat (cmd_buf_offset (packet_at m p)) + 24 * unat (num_cmd_buf (packet_at m p)) \<le> unat (pk_size (packet_at m p))
    \<and> 56 + unat (io_configs_offset (packet_at m p)) + 256 * unat (num_io_configs (packet_at m p)) \<le> unat (pk_size (packet_at m p))
    \<and> 56 + unat (patch_offset (packet_at m p)) + 16 * unat (num_patches (packet_at m p)) \<le> unat (pk_size (packet_at m p))"
proof -
  let ?k = "packet_at m p"
  have g: "p \<noteq> 0" "\<not> sz (pk_size ?k) > remain_len"
    "\<not> PAYLOAD + sz (cmd_buf_offset ?k) + sz (num_cmd_buf ?k) * SZ_CMD > sz (pk_size ?k)"
    "\<not> PAYLOAD + sz (io_configs_offset ?k) + sz (num_io_configs ?k) * SZ_IO > sz (pk_size ?k)"
    "\<not> PAYLOAD + sz (patch_offset ?k) + sz (num_patches ?k) * SZ_PATCH > sz (pk_size ?k)"
    using assms code_neg [of EINVAL] by (auto simp: cam_packet_util_validate_packet_def Let_def split: if_splits)
  show ?thesis
    using g(2-5) unfolding word_less_nat_alt not_less unat_sz
    using unat_sum [of SZ_CMD "cmd_buf_offset ?k" "num_cmd_buf ?k"] unat_sum [of SZ_IO "io_configs_offset ?k" "num_io_configs ?k"]
      unat_sum [of SZ_PATCH "patch_offset ?k" "num_patches ?k"] g(1) by simp
qed

subsection \<open>Access from the CPU\<close>

lemma get_cpu_cases:
  assumes "cam_mem_get_cpu_buf env h s = (t, rc, va, n)"
  shows "tabl t = tabl s"
    and "va \<noteq> 0 \<Longrightarrow> rc = 0 \<and> t = cpu_access (dma_buf (bufq s (CAM_MEM_MGR_GET_HDL_IDX h))) 1 s
      \<and> mgr_init s \<and> h \<noteq> 0 \<and> \<not> bad_idx (CAM_MEM_MGR_GET_HDL_IDX h) \<and> bq_active (bufq s (CAM_MEM_MGR_GET_HDL_IDX h))
      \<and> bq_handle (bufq s (CAM_MEM_MGR_GET_HDL_IDX h)) = h
      \<and> has_flag (bq_flags (bufq s (CAM_MEM_MGR_GET_HDL_IDX h))) CAM_MEM_FLAG_KMD_ACCESS
      \<and> dma_buf (bufq s (CAM_MEM_MGR_GET_HDL_IDX h)) \<noteq> 0
      \<and> va = kmdvaddr (bufq s (CAM_MEM_MGR_GET_HDL_IDX h)) \<and> n = bq_len (bufq s (CAM_MEM_MGR_GET_HDL_IDX h))"
  using tabl_lookups(1) [of env h s] assms
  by (auto simp: cam_mem_get_cpu_buf_def Let_def split: if_splits)

text \<open>Getting a buffer and putting it back leaves the counts of CPU accesses.\<close>

lemma get_put_cpu:
  assumes "cam_mem_get_cpu_buf env h s = (t, rc, va, n)" "va \<noteq> 0"
  shows "cpu (fst (cam_mem_put_cpu_buf env h t)) = cpu s" "tabl (fst (cam_mem_put_cpu_buf env h t)) = tabl s"
proof -
  let ?q = "bufq s (CAM_MEM_MGR_GET_HDL_IDX h)"
  note g = get_cpu_cases(2) [OF assms]
  have e: "bufq t = bufq s" "mgr_init t = mgr_init s" using tabl_cases [OF get_cpu_cases(1) [OF assms(1)]] by simp_all
  have a: "mgr_init s" "h \<noteq> 0" "\<not> bad_idx (CAM_MEM_MGR_GET_HDL_IDX h)" "bq_active ?q" "bq_handle ?q = h"
    "has_flag (bq_flags ?q) CAM_MEM_FLAG_KMD_ACCESS" "dma_buf ?q \<noteq> 0" "kmdvaddr ?q \<noteq> 0"
    using g assms(2) by auto
  have "cam_mem_put_cpu_buf env h t = (cpu_access (dma_buf ?q) (-1) t, me_end env)"
    using a by (simp add: cam_mem_put_cpu_buf_def Let_def e)
  then show "cpu (fst (cam_mem_put_cpu_buf env h t)) = cpu s" "tabl (fst (cam_mem_put_cpu_buf env h t)) = tabl s"
    using g by (auto simp: cpu_access_def tabl_def fun_eq_iff)
qed

subsection \<open>Patches\<close>

text \<open>A byte of a buffer the kernel may write, and buffers that do not wrap around the address space.\<close>

definition in_buffer :: "mem \<Rightarrow> ptr \<Rightarrow> bool" where
  "in_buffer s x \<longleftrightarrow> (\<exists>i. 0 < i \<and> i < CAM_MEM_BUFQ_MAX \<and> bq_active (bufq s i) \<and> has_flag (bq_flags (bufq s i)) CAM_MEM_FLAG_KMD_ACCESS
     \<and> unat (kmdvaddr (bufq s i)) \<le> unat x \<and> unat x < unat (kmdvaddr (bufq s i)) + unat (bq_len (bufq s i)))"

definition no_wrap :: "mem \<Rightarrow> bool" where
  "no_wrap s \<longleftrightarrow> (\<forall>i. unat (kmdvaddr (bufq s i)) + unat (bq_len (bufq s i)) \<le> 2 ^ 64)"

lemma in_buffer_tabl: "tabl t = tabl s \<Longrightarrow> in_buffer t = in_buffer s" "tabl t = tabl s \<Longrightarrow> no_wrap t = no_wrap s"
  by (simp_all add: in_buffer_def no_wrap_def tabl_def fun_eq_iff)

lemma wr32_other: "x \<notin> {a, a + 1, a + 2, a + 3} \<Longrightarrow> wr32 a v m x = m x"
  by (simp add: wr32_def)

lemma unat_plus_small: "unat (a :: ptr) + k < 2 ^ 64 \<Longrightarrow> unat (a + of_nat k) = unat a + k"
  by (simp add: unat_word_ariths unat_of_nat take_bit_nat_eq_self)

lemma patch_one_ok:
  assumes "patch_one env iommu sec a (s, m) = ((t, m'), r)" "no_wrap s"
  shows "tabl t = tabl s" "m' x \<noteq> m x \<Longrightarrow> in_buffer s x"
    "r = None \<Longrightarrow> dst_buf_hdl (patch_desc_at m' a) = dst_buf_hdl (patch_desc_at m a) \<Longrightarrow> cpu t = cpu s"
proof -
  define d where "d = patch_desc_at m a"
  let ?h = "if cam_mem_is_secure_buf (src_buf_hdl d) then sec else iommu"
  obtain rc iova ss where io: "cam_mem_get_io_buf env (src_buf_hdl d) ?h s = (rc, iova, ss)" by (metis prod_cases3)
  obtain s1 rc1 va n where c: "cam_mem_get_cpu_buf env (dst_buf_hdl d) s = (s1, rc1, va, n)" by (metis prod_cases4)
  let ?w = "\<not> (rc < 0 \<or> rc1 < 0 \<or> va = 0 \<or> n = 0 \<or> sz (src_offset d) \<ge> ss \<or> n < 8 \<or> n - 8 < sz (dst_offset d))"
  let ?m = "wr32 (va + sz (dst_offset d)) (ucast iova + src_offset d) m"
  let ?t = "fst (cam_mem_put_cpu_buf env (dst_buf_hdl (patch_desc_at ?m a)) s1)"
  have e: "(t, m', r) = (?t, ?m, None) \<and> ?w \<or> (t = s \<or> t = s1) \<and> m' = m \<and> r \<noteq> None"
    using assms(1) io c unfolding d_def by (auto simp: patch_one_def Let_def split: if_splits)
  show "tabl t = tabl s"
    using e get_cpu_cases(1) [OF c] tabl_lookups(2) by auto
  show "r = None \<Longrightarrow> dst_buf_hdl (patch_desc_at m' a) = dst_buf_hdl (patch_desc_at m a) \<Longrightarrow> cpu t = cpu s"
    using e get_put_cpu(1) [OF c] by (auto simp: d_def)
  assume ch: "m' x \<noteq> m x"
  then have m: "m' = ?m" and w: ?w using e by auto
  let ?i = "CAM_MEM_MGR_GET_HDL_IDX (dst_buf_hdl d)"
  have q: "va = kmdvaddr (bufq s ?i)" "n = bq_len (bufq s ?i)" "\<not> bad_idx ?i" "bq_active (bufq s ?i)"
    "has_flag (bq_flags (bufq s ?i)) CAM_MEM_FLAG_KMD_ACCESS"
    using get_cpu_cases(2) [OF c] w by auto
  let ?a = "va + sz (dst_offset d)"
  have n8: "8 \<le> unat n" using w by (simp add: word_less_nat_alt not_less)
  have d: "unat (dst_offset d) \<le> unat n - 8" using w n8 by (simp add: word_less_nat_alt not_less unat_sub_if')
  have nw: "unat va + unat n \<le> 2 ^ 64" using assms(2) q(1,2) by (simp add: no_wrap_def)
  have ua: "unat ?a = unat va + unat (dst_offset d)"
    using d n8 nw unat_plus_small [of va "unat (dst_offset d)"] by (simp add: sz_def)
  have "x \<in> {?a, ?a + 1, ?a + 2, ?a + 3}" using ch m wr32_other by blast
  moreover have "unat (?a + of_nat k) = unat ?a + k" if "k \<le> 3" for k
    using unat_plus_small [of ?a k] that ua d n8 nw by simp
  from this [of 1] this [of 2] this [of 3] have "unat (?a + 1) = unat ?a + 1" "unat (?a + 2) = unat ?a + 2" "unat (?a + 3) = unat ?a + 3" by simp_all
  ultimately have "unat va \<le> unat x" "unat x < unat va + unat n" using ua d n8 by auto
  then show "in_buffer s x" unfolding in_buffer_def using q by (intro exI [of _ ?i]) auto
qed

lemma patch_loop_ok:
  "no_wrap (fst sm) \<Longrightarrow> patch_loop env iommu sec p pd i sm = (tm, rc) \<Longrightarrow>
     tabl (fst tm) = tabl (fst sm) \<and> (snd tm x \<noteq> snd sm x \<longrightarrow> in_buffer (fst sm) x)"
proof (induction env iommu sec p pd i sm rule: patch_loop.induct)
  case (1 env iommu sec p pd i sm)
  show ?case
  proof (cases "i < unat (num_patches (packet_at (snd sm) p))")
    case False
    then show ?thesis using 1(3) by (simp add: patch_loop.simps)
  next
    case True
    obtain s m where sm: "sm = (s, m)" by (cases sm)
    obtain t m1 r where o: "patch_one env iommu sec (pd + SZ_PATCH * of_nat i) sm = ((t, m1), r)"
      by (metis surj_pair)
    note p1 = patch_one_ok [OF o [unfolded sm] 1(2) [unfolded sm fst_conv]]
    show ?thesis
    proof (cases r)
      case None
      have nw: "no_wrap t" using in_buffer_tabl(2) [OF p1(1)] 1(2) by (simp add: sm)
      have l: "patch_loop env iommu sec p pd (Suc i) (t, m1) = (tm, rc)"
        using 1(3) True o None by (subst (asm) patch_loop.simps) simp
      have "tabl (fst tm) = tabl (fst (t, m1)) \<and> (snd tm x \<noteq> snd (t, m1) x \<longrightarrow> in_buffer (fst (t, m1)) x)"
        using 1(1) [OF True o [symmetric] None] nw l by simp
      then show ?thesis using p1(1) p1(2) [of x] in_buffer_tabl(1) [OF p1(1)] by (auto simp: sm)
    next
      case (Some c)
      then show ?thesis using 1(3) True o p1(1) p1(2) [of x] by (subst (asm) patch_loop.simps) (auto simp: sm)
    qed
  qed
qed

text \<open>
  C21: Patching writes only into buffers that are in use and open to the kernel, whatever the packet says and even if a
  patch changes the packet it comes from.
\<close>

theorem patches_within:
  assumes "cam_packet_util_process_patches env p iommu sec (s, m) = ((t, m'), rc)" "no_wrap s" "m' x \<noteq> m x"
  shows "in_buffer s x"
  using patch_loop_ok [of "(s, m)" env iommu sec p _ 0 "(t, m')" rc x] assms by (simp add: cam_packet_util_process_patches_def)

lemma rd32_wr32: "rd32 (wr32 a v m) a = v"
proof -
  have ne: "a + 1 \<noteq> a" "a + 2 \<noteq> a" "a + 3 \<noteq> a" "a + 2 \<noteq> a + 1" "a + 3 \<noteq> a + 1" "a + 3 \<noteq> a + 2" by simp_all
  show ?thesis
  proof (rule bit_word_eqI)
    fix n :: nat assume "n < LENGTH(32)"
    then consider "n < 8" | "8 \<le> n" "n < 16" | "16 \<le> n" "n < 24" | "24 \<le> n" "n < 32" by fastforce
    then show "bit (rd32 (wr32 a v m) a) n = bit v n"
      by cases (auto simp: rd32_def wr32_def ne ne [symmetric] bit_or_iff bit_push_bit_iff bit_ucast_iff bit_drop_bit_eq)
  qed
qed

text \<open>
  What a round that does not fail does: one word in the destination, and the CPU access it began is ended unless the word
  fell on the handle in the descriptor.
\<close>

lemma patch_one_writes:
  assumes "patch_one env iommu sec a (s, m) = ((t, m'), None)" "no_wrap s" "d = patch_desc_at m a"
    and "cam_mem_get_io_buf env (src_buf_hdl d) (if cam_mem_is_secure_buf (src_buf_hdl d) then sec else iommu) s = (rc, iova, n)"
  shows "rd32 m' (kmdvaddr (bufq s (CAM_MEM_MGR_GET_HDL_IDX (dst_buf_hdl d))) + sz (dst_offset d)) = ucast iova + src_offset d"
    "unat (src_offset d) < unat n" "dst_buf_hdl (patch_desc_at m' a) = dst_buf_hdl d \<Longrightarrow> cpu t = cpu s"
proof -
  obtain s1 rc1 va k where c: "cam_mem_get_cpu_buf env (dst_buf_hdl d) s = (s1, rc1, va, k)" by (metis prod_cases4)
  have w: "va \<noteq> 0" "\<not> n \<le> sz (src_offset d)" "m' = wr32 (va + sz (dst_offset d)) (ucast iova + src_offset d) m"
    using assms(1,4) c unfolding assms(3) by (auto simp: patch_one_def Let_def split: if_splits)
  have "va = kmdvaddr (bufq s (CAM_MEM_MGR_GET_HDL_IDX (dst_buf_hdl d)))" using get_cpu_cases(2) [OF c w(1)] by simp
  then show "rd32 m' (kmdvaddr (bufq s (CAM_MEM_MGR_GET_HDL_IDX (dst_buf_hdl d))) + sz (dst_offset d)) = ucast iova + src_offset d"
    using w(3) by (simp add: rd32_wr32)
  show "unat (src_offset d) < unat n" using w(2) by (simp add: word_le_nat_alt)
  show "dst_buf_hdl (patch_desc_at m' a) = dst_buf_hdl d \<Longrightarrow> cpu t = cpu s"
    using patch_one_ok(3) [OF assms(1,2)] assms(3) by simp
qed

subsection \<open>The buffer of the driver\<close>

lemma word_aligned_offset:
  assumes "4 dvd unat (a :: u32)" "4 dvd unat b" "unat a + unat b < 2 ^ 32"
  shows "4 * sz (a div 4 + b div 4) = of_nat (unat a + unat b)"
proof -
  have "unat (a div 4 + b div 4) = unat a div 4 + unat b div 4" using assms(3) by (simp add: unat_word_ariths unat_div)
  then have "sz (a div 4 + b div 4) = of_nat (unat a div 4 + unat b div 4)" by (metis sz_def of_nat_unat)
  moreover have "4 * (unat a div 4 + unat b div 4) = unat a + unat b" using assms(1,2) by simp
  ultimately show ?thesis by (metis of_nat_mult of_nat_numeral)
qed

text \<open>
  C39: The part of a command buffer that is set aside for the driver is in the buffer the descriptor names: it starts inside
  that buffer, at the sum of the two offsets, and the address for the CPU is that of its first byte if both offsets are
  multiples of four (the code divides each by four). The range the descriptor claims, its size from its offset, lies in the
  buffer, and the size of the part is what the commands leave of the claimed size. The part itself ends in the buffer exactly
  if its offset does not exceed the length of the commands by more than the buffer has room behind the claimed range. The
  check does not ask for that, so the end can lie behind the buffer. The sum of the two offsets is taken to fit in 32 bits.
\<close>

theorem kmd_buffer_region:
  assumes "cam_packet_util_get_kmd_buffer env m p s = (t, 0, Some kb)"
    and "d = cmd_buf_desc_at m (p + PAYLOAD + sz (cmd_buf_offset (packet_at m p)) + sz (kmd_cmd_buf_index (packet_at m p)) * SZ_CMD)"
    and "ko = kmd_cmd_buf_offset (packet_at m p)" "off = unat (cb_offset d) + unat ko" "off < 2 ^ 32"
    and "q = bufq s (CAM_MEM_MGR_GET_HDL_IDX (cb_mem_handle d))"
  shows "kb_handle kb = cb_mem_handle d \<and> bq_active q \<and> bq_handle q = cb_mem_handle d
    \<and> has_flag (bq_flags q) CAM_MEM_FLAG_KMD_ACCESS
    \<and> unat (kb_offset kb) = off \<and> off < unat (bq_len q)
    \<and> (4 dvd unat (cb_offset d) \<and> 4 dvd unat ko \<longrightarrow> kb_cpu_addr kb = kmdvaddr q + of_nat off)
    \<and> unat (cb_offset d) + unat (cb_size d) \<le> unat (bq_len q)
    \<and> unat (cb_length d) + unat (kb_size kb) = unat (cb_size d)
    \<and> (off + unat (kb_size kb) \<le> unat (bq_len q)
         \<longleftrightarrow> unat ko \<le> unat (cb_length d) + (unat (bq_len q) - (unat (cb_offset d) + unat (cb_size d))))
    \<and> kb_used_bytes kb = 0 \<and> cpu t = cpu s"
proof -
  let ?k = "packet_at m p"
  have v: "cam_packet_util_validate_cmd_desc d = 0" and p: "p \<noteq> 0" "\<not> num_cmd_buf ?k \<le> kmd_cmd_buf_index ?k"
    using assms(1) code_neg [of EINVAL] unfolding assms(2) by (auto simp: cam_packet_util_get_kmd_buffer_def Let_def split: if_splits)
  have le: "cb_length d \<le> cb_size d" using v by (auto simp: cam_packet_util_validate_cmd_desc_def split: if_splits)
  obtain s1 rc va n where c: "cam_mem_get_cpu_buf env (cb_mem_handle d) s = (s1, rc, va, n)" by (metis prod_cases4)
  have a: "rc = 0" "va \<noteq> 0" "\<not> n \<le> sz (cb_offset d)" "\<not> n - sz (cb_offset d) < sz (cb_size d)"
    "\<not> n - sz (cb_offset d) \<le> sz ko" "t = fst (cam_mem_put_cpu_buf env (cb_mem_handle d) s1)"
    and kb: "kb = \<lparr>kb_handle = cb_mem_handle d, kb_cpu_addr = va + 4 * sz (cb_offset d div 4 + ko div 4),
       kb_offset = cb_offset d + ko, kb_size = cb_size d - cb_length d, kb_used_bytes = 0\<rparr>"
    using assms(1) v p c unfolding assms(2,3)
    by (auto simp: cam_packet_util_get_kmd_buffer_def cam_packet_util_get_cmd_mem_addr_def Let_def not_le not_less split: if_splits)
  note q = get_cpu_cases(2) [OF c a(2), folded assms(6)]
  have n: "n = bq_len q" using q by simp
  have u: "unat (n - sz (cb_offset d)) = unat n - unat (cb_offset d)" using a(3) by (simp add: unat_sub word_le_nat_alt)
  have o: "unat (kb_offset kb) = off" using assms(4,5) kb by (simp add: unat_word_ariths)
  have l: "unat (cb_length d) \<le> unat (cb_size d)" using le by (simp add: word_le_nat_alt)
  have z: "unat (cb_length d) + unat (kb_size kb) = unat (cb_size d)" using le l kb by (simp add: unat_sub)
  have lt: "off < unat (bq_len q)" using a(3,5) u n assms(4) by (simp add: word_le_nat_alt)
  have sz: "unat (cb_offset d) + unat (cb_size d) \<le> unat (bq_len q)"
    using a(3,4) u n by (simp add: word_le_nat_alt not_less word_less_nat_alt)
  have ad: "kb_cpu_addr kb = kmdvaddr q + of_nat off" if "4 dvd unat (cb_offset d)" "4 dvd unat ko"
    using word_aligned_offset [OF that] assms(4,5) q kb by simp
  have f: "off + unat (kb_size kb) \<le> unat (bq_len q)
      \<longleftrightarrow> unat ko \<le> unat (cb_length d) + (unat (bq_len q) - (unat (cb_offset d) + unat (cb_size d)))"
    using assms(4) z sz by linarith
  show ?thesis using q o lt ad sz z f get_put_cpu(1) [OF c a(2)] a(6) kb by simp
qed

subsection \<open>Blobs\<close>

lemma blob_size_lt: "unat (blob_size_of w) < 2 ^ 24"
proof -
  have "unat (blob_size_of w) \<le> unat (w AND 0xFFFFFF00) div 2 ^ 8" by (simp add: blob_size_of_def drop_bit_eq_div unat_div)
  also have "\<dots> < 2 ^ 24" using unat_u32 [of "w AND 0xFFFFFF00"] by (simp add: div_less_iff_less_mult)
  finally show ?thesis .
qed

definition block_len :: "u32 \<Rightarrow> nat" where
  "block_len n = 4 + (unat n + 3) div 4 * 4"

lemma block_len_bounds: "unat n + 4 \<le> block_len n" "block_len n \<le> unat n + 7" "4 dvd block_len n"
  by (simp_all add: block_len_def)

lemma unat_block:
  assumes "unat n < 2 ^ 24"
  shows "unat (blob_block_size n) = block_len n" "unat (4 * sz (blob_block_size n div 4)) = block_len n"
proof -
  have e: "sz n + 4 - 1 = sz n + 3" by simp
  have s: "unat (sz n + 4 - 1) = unat n + 3"
    unfolding e unat_word_ariths(1) [of "sz n" 3] using assms by simp
  have d: "unat ((sz n + 4 - 1) div 4) = (unat n + 3) div 4" using s by (simp add: unat_div)
  have m: "unat ((sz n + 4 - 1) div 4 * 4) = (unat n + 3) div 4 * 4" using d assms by (simp add: unat_word_ariths)
  have q: "unat (4 + (sz n + 4 - 1) div 4 * 4) = block_len n" using m assms by (simp add: unat_word_ariths block_len_def)
  show b: "unat (blob_block_size n) = block_len n"
    using q assms block_len_bounds(2) [of n] by (simp add: blob_block_size_def unsigned_ucast_eq take_bit_nat_eq_self)
  have "unat (4 * sz (blob_block_size n div 4)) = 4 * (block_len n div 4)"
    using b assms block_len_bounds(2) [of n] by (simp add: unat_word_ariths unat_div)
  then show "unat (4 * sz (blob_block_size n div 4)) = block_len n" using block_len_bounds(3) [of n] by simp
qed

text \<open>
  The blobs of a region: type, size and address of the data, and whether the last one ends with the region. It is a
  function on numbers, by which the loop is measured.
\<close>

function blobs :: "bmem \<Rightarrow> ptr \<Rightarrow> nat \<Rightarrow> (u32 \<times> u32 \<times> ptr) list \<times> bool" where
  "blobs m a r =
     (if r = 0 then ([], True)
      else
        (let w = rd32 m a; n = blob_size_of w in
         if r < block_len n then ([], False)
         else
           (case blobs m (a + of_nat (block_len n)) (r - block_len n) of
              (bs, ok) \<Rightarrow> ((blob_type_of w, n, a + 4) # bs, ok))))"
  by pat_completeness auto
termination
  by (relation "measure (\<lambda>(m, a, r). r)") (auto simp: block_len_def)

declare blobs.simps [simp del]

fun run_blobs :: "(u32 \<Rightarrow> u32 \<Rightarrow> ptr \<Rightarrow> 'u \<Rightarrow> 'u \<times> int) \<Rightarrow> (u32 \<times> u32 \<times> ptr) list \<times> bool \<Rightarrow> 'u \<Rightarrow> 'u \<times> int" where
  "run_blobs h ([], ok) u = (u, if ok then 0 else code EINVAL)"
| "run_blobs h ((ty, n, a) # bs, ok) u = (case h ty n a u of (u1, rc) \<Rightarrow> if rc \<noteq> 0 then (u1, rc) else run_blobs h (bs, ok) u1)"

lemma blob_loop_runs:
  assumes "unat len < 2 ^ 32 - 2 ^ 24 - 8" "rd \<le> len"
  shows "blob_loop h m len a rd 0 u = Some (run_blobs h (blobs m a (unat len - unat rd)) u)"
  using assms(2)
proof (induction "unat len - unat rd" arbitrary: a rd u rule: less_induct)
  case less
  show ?case
  proof (cases "rd < len")
    case False
    then have "rd = len" using less.prems by simp
    then show ?thesis by (simp add: blob_loop.simps blobs.simps)
  next
    case True
    define w where "w = rd32 m a"
    define n where "n = blob_size_of w"
    have n: "unat n < 2 ^ 24" using blob_size_lt [of w] by (simp only: n_def)
    have rl: "unat rd < unat len" using True by (simp add: word_less_nat_alt)
    have s: "unat (rd + blob_block_size n) = unat rd + block_len n"
      using unat_block(1) [OF n] rl assms(1) n block_len_bounds(2) [of n] by (simp add: unat_word_ariths)
    have a: "a + 4 * sz (blob_block_size n div 4) = a + of_nat (block_len n)"
    proof -
      have "unat (of_nat (block_len n) :: u64) = block_len n"
        using n block_len_bounds(2) [of n] by (simp add: unat_of_nat take_bit_nat_eq_self)
      then show ?thesis using unat_block(2) [OF n] by (metis word_unat_eq_iff)
    qed
    have c: "len < rd + blob_block_size n \<longleftrightarrow> unat len - unat rd < block_len n"
      using rl by (auto simp: word_less_nat_alt s)
    have bl: "blobs m a (unat len - unat rd) = (if unat len - unat rd < block_len n then ([], False)
      else (case blobs m (a + of_nat (block_len n)) (unat len - unat rd - block_len n) of (bs, ok) \<Rightarrow> ((blob_type_of w, n, a + 4) # bs, ok)))"
      using rl by (subst blobs.simps) (simp add: Let_def w_def n_def)
    show ?thesis
    proof (cases "unat len - unat rd < block_len n")
      case t: True
      then show ?thesis using True c bl by (subst blob_loop.simps) (simp add: Let_def w_def n_def)
    next
      case f: False
      obtain u1 rc where h: "h (blob_type_of w) n (a + 4) u = (u1, rc)" by (meson surj_pair)
      have ih: "blob_loop h m len (a + of_nat (block_len n)) (rd + blob_block_size n) 0 u1 =
          Some (run_blobs h (blobs m (a + of_nat (block_len n)) (unat len - unat (rd + blob_block_size n))) u1)"
        by (rule less.hyps) (use f rl c in \<open>auto simp: s block_len_def not_less\<close>)
      have nl: "\<not> len < rd + blob_block_size n" using c f by blast
      have l: "blob_loop h m len a rd 0 u = (if rc \<noteq> 0 then Some (u1, rc)
          else blob_loop h m len (a + of_nat (block_len n)) (rd + blob_block_size n) rc u1)"
        unfolding blob_loop.simps [of h m len a rd 0 u] Let_def w_def [symmetric] n_def [symmetric] a h
        by (simp only: True nl if_True if_False prod.case)
      obtain bs ok where b: "blobs m (a + of_nat (block_len n)) (unat len - unat rd - block_len n) = (bs, ok)" by (meson surj_pair)
      have e: "unat len - unat (rd + blob_block_size n) = unat len - unat rd - block_len n" by (simp add: s)
      have bl': "blobs m a (unat len - unat rd) = ((blob_type_of w, n, a + 4) # bs, ok)"
        unfolding bl b using f by (simp only: if_False prod.case)
      show ?thesis using ih unfolding l bl' e b by (cases "rc = 0") (simp_all add: h)
    qed
  qed
qed

lemma blobs_within:
  "list_all (\<lambda>(ty, n, x). \<exists>j. x = a + of_nat j \<and> 4 \<le> j \<and> j + unat n \<le> r) (fst (blobs m a r))"
proof (induction m a r rule: blobs.induct)
  case (1 m a r)
  define w where "w = rd32 m a"
  define n where "n = blob_size_of w"
  show ?case
  proof (cases "r = 0 \<or> r < block_len n")
    case True
    then show ?thesis by (subst blobs.simps) (auto simp: Let_def n_def w_def)
  next
    case False
    let ?r = "r - block_len n" and ?a = "a + of_nat (block_len n)"
    have ih: "list_all (\<lambda>(ty, n, x). \<exists>j. x = ?a + of_nat j \<and> 4 \<le> j \<and> j + unat n \<le> ?r) (fst (blobs m ?a ?r))"
      by (rule 1 [OF _ w_def n_def]) (use False in auto)
    have "\<exists>j. x = a + of_nat j \<and> 4 \<le> j \<and> j + unat k \<le> r" if el: "(ty, k, x) \<in> set (fst (blobs m ?a ?r))" for ty k x
    proof -
      obtain j where j: "x = ?a + of_nat j" "4 \<le> j" "j + unat k \<le> ?r" using bspec [OF ih [unfolded list_all_iff] el] by auto
      then show ?thesis using False by (intro exI [of _ "block_len n + j"]) auto
    qed
    moreover have "\<exists>j. a + 4 = a + of_nat j \<and> 4 \<le> j \<and> j + unat n \<le> r"
      using False block_len_bounds(1) [of n] by (intro exI [of _ 4]) auto
    moreover have "fst (blobs m a r) = (blob_type_of w, n, a + 4) # fst (blobs m ?a ?r)"
      using False by (subst blobs.simps) (simp add: Let_def w_def n_def split: prod.split)
    ultimately show ?thesis by (auto simp: list_all_iff)
  qed
qed

text \<open>
  C22: The walk over a buffer of blobs returns, for every content of the buffer, if the length the descriptor gives is below
  \<open>2 ^ 32 - 2 ^ 24 - 8\<close>. The handler is called for the blobs in their order until it or a malformed blob ends the walk,
  always with data inside the length of the buffer, and the CPU access is ended. The bound on the length keeps the 32-bit sum
  of the bytes read and the size of a block, at most \<open>2 ^ 24 + 4\<close>, from wrapping: the code has no check for that, and from a
  length above the bound a wrapped sum passes the test against the length.
\<close>

theorem generic_cmd_buffer_walk:
  assumes "cb_length c \<noteq> 0" "cb_size c \<noteq> 0" "unat (cb_length c) < 2 ^ 32 - 2 ^ 24 - 8"
    and "cam_mem_get_cpu_buf env (cb_mem_handle c) s = (s1, 0, va, n)" "va \<noteq> 0"
    and "unat (cb_offset c) + 4 \<le> unat n" "unat (cb_offset c) + unat (cb_length c) \<le> unat n"
  shows "\<exists>t. cam_packet_util_process_generic_cmd_buffer env h c m s u =
      (let (u1, rc) = run_blobs h (blobs m (va + sz (cb_offset c)) (unat (cb_length c))) u in Some (t, u1, rc))
    \<and> cpu t = cpu s \<and> tabl t = tabl s
    \<and> list_all (\<lambda>(ty, k, x). \<exists>j. x = va + sz (cb_offset c) + of_nat j \<and> 4 \<le> j \<and> j + unat k \<le> unat (cb_length c))
        (fst (blobs m (va + sz (cb_offset c)) (unat (cb_length c))))"
proof -
  let ?t = "fst (cam_mem_put_cpu_buf env (cb_mem_handle c) s1)"
  have n: "n \<noteq> 0" "\<not> n < 4" using assms(6) by (auto simp: word_less_nat_alt)
  have o: "\<not> sz (cb_offset c) > n - 4" "\<not> n - sz (cb_offset c) < sz (cb_length c)"
    using assms(6,7) by (auto simp: word_less_nat_alt unat_sub word_le_nat_alt)
  have l: "blob_loop h m (cb_length c) (va + sz (cb_offset c)) 0 0 u =
      Some (run_blobs h (blobs m (va + sz (cb_offset c)) (unat (cb_length c))) u)"
    using blob_loop_runs [OF assms(3), of 0] by simp
  have "cam_packet_util_process_generic_cmd_buffer env h c m s u =
      (let (u1, rc) = run_blobs h (blobs m (va + sz (cb_offset c)) (unat (cb_length c))) u in Some (?t, u1, rc))"
    using assms(1,2,4,5) n o l by (simp add: cam_packet_util_process_generic_cmd_buffer_def Let_def split: prod.split)
  then show ?thesis using get_put_cpu [OF assms(4,5)] blobs_within by blast
qed

text \<open>
  A plane that is accepted fits: with an offset in the buffer and a product of stride and height that does not exceed 32 bits,
  stride times height bytes from the offset of the plane lie in the buffer, for the formats without padding or metadata.
\<close>

theorem plane_fits:
  assumes "cam_packet_validate_plane_size cfg i n = 0" "unat (io_offsets cfg ! i) \<le> unat n"
    and "unat (plane_stride (io_planes cfg ! i)) * unat (slice_height (io_planes cfg ! i)) < 2 ^ 32"
    and "\<not> (1 \<le> io_format cfg \<and> io_format cfg \<le> 5)" "\<not> (37 \<le> io_format cfg \<and> io_format cfg \<le> 39)"
  shows "i < 3 \<and> unat (io_offsets cfg ! i) + unat (plane_stride (io_planes cfg ! i)) * unat (slice_height (io_planes cfg ! i)) \<le> unat n"
proof -
  let ?p = "io_planes cfg ! i"
  have f: "io_format cfg \<notin> {1, 2, 3, 4, 5, 37, 38, 39}" using assms(4,5) by (auto simp: word_le_nat_alt)
  have k: "kmd_plane_size (io_format cfg) (plane_stride ?p) (slice_height ?p) (meta_size ?p) = plane_stride ?p * slice_height ?p"
    using f by (simp add: kmd_plane_size_def)
  have "i < 3" "\<not> sz (plane_stride ?p * slice_height ?p) > n - sz (io_offsets cfg ! i)"
    using assms(1) k by (auto simp: cam_packet_validate_plane_size_def Let_def split: if_splits)
  moreover have "unat (plane_stride ?p * slice_height ?p) = unat (plane_stride ?p) * unat (slice_height ?p)"
    using assms(3) by (simp add: unat_word_ariths)
  ultimately show ?thesis using assms(2) by (simp add: word_less_nat_alt unat_sub word_le_nat_alt)
qed

subsection \<open>On a concrete packet\<close>

definition demo_words :: "(ptr \<times> u32) list" where
  "demo_words = [(1004, 200), (1024, 0), (1028, 1), (1032, 0), (1036, 0), (1040, 24), (1044, 1), (1048, 0), (1052, 300),
     (1056, 1), (1060, 0), (1064, 4096), (1068, 16), (1080, 1), (1084, 8), (1088, 1), (1092, 5), (8192, 0x504)]"

definition demo_bytes :: bmem where
  "demo_bytes = fold (\<lambda>(a, v). wr32 a v) demo_words (\<lambda>_. 0)"

definition demo_bufs :: mem where
  "demo_bufs = demo_mem\<lparr>mgr_init := True, bufq := (\<lambda>_. zero_bufq)(1 := zero_bufq\<lparr>bq_active := True, bq_handle := 1,
     bq_flags := 8, kmdvaddr := 8192, bq_len := 4096, dma_buf := 100, bq_fd := 7\<rparr>)\<rparr>"

lemma rd32_other:
  assumes "a \<notin> {b, b + 1, b + 2, b + 3}" "a + 1 \<notin> {b, b + 1, b + 2, b + 3}" "a + 2 \<notin> {b, b + 1, b + 2, b + 3}" "a + 3 \<notin> {b, b + 1, b + 2, b + 3}"
  shows "rd32 (wr32 b v m) a = rd32 m a"
  using assms by (simp add: rd32_def wr32_def)

lemma rd32_zero: "rd32 (\<lambda>_. 0) a = 0"
  by (simp add: rd32_def)

lemmas demo_read = demo_bytes_def demo_words_def rd32_wr32 rd32_other rd32_zero

lemma demo_packet:
  "packet_at demo_bytes 1000 = \<lparr>pk_size = 200, cmd_buf_offset = 0, num_cmd_buf = 1, io_configs_offset = 0, num_io_configs = 0,
     patch_offset = 24, num_patches = 1, kmd_cmd_buf_index = 0, kmd_cmd_buf_offset = 300\<rparr>"
  by (simp add: packet_at_def demo_read)

lemma demo_desc:
  "cmd_buf_desc_at demo_bytes 1056 = \<lparr>cb_mem_handle = 1, cb_offset = 0, cb_size = 4096, cb_length = 16\<rparr>"
  "patch_desc_at demo_bytes 1080 = \<lparr>dst_buf_hdl = 1, dst_offset = 8, src_buf_hdl = 1, src_offset = 5\<rparr>"
  "rd32 demo_bytes 8192 = 0x504"
  by (simp_all add: cmd_buf_desc_at_def patch_desc_at_def demo_read)

lemma demo_idx: "CAM_MEM_MGR_GET_HDL_IDX 1 = 1" "\<not> cam_mem_is_secure_buf 1" "\<not> CAM_MEM_MGR_IS_SECURE_HDL 1"
  by (simp_all add: CAM_MEM_MGR_GET_HDL_IDX_def cam_mem_is_secure_buf_def CAM_MEM_MGR_IS_SECURE_HDL_def)

lemma demo_get_cpu: "cam_mem_get_cpu_buf demo_menv 1 demo_bufs = (cpu_access 100 1 demo_bufs, 0, 8192, 4096)"
  by (simp add: cam_mem_get_cpu_buf_def demo_idx demo_bufs_def demo_menv_def Let_def has_flag_def CAM_MEM_FLAG_KMD_ACCESS_def)

lemma demo_get_io: "cam_mem_get_io_buf demo_menv 1 h demo_bufs = (0, 64, 4096)"
  by (simp add: cam_mem_get_io_buf_def demo_idx demo_bufs_def demo_menv_def Let_def)

lemma demo_no_wrap: "no_wrap demo_bufs"
  by (simp add: no_wrap_def demo_bufs_def zero_bufq_def)

theorem packet_fits_witness:
  "cam_packet_util_validate_packet demo_bytes 1000 200 = 0 \<and> 56 + unat (patch_offset (packet_at demo_bytes 1000))
     + 16 * unat (num_patches (packet_at demo_bytes 1000)) \<le> 200"
proof -
  have v: "cam_packet_util_validate_packet demo_bytes 1000 200 = 0"
    by (simp add: cam_packet_util_validate_packet_def demo_packet sz_def Let_def)
  show ?thesis using packet_fits [OF v] v by (simp add: demo_packet)
qed

theorem kmd_buffer_region_witness:
  "\<exists>t kb. cam_packet_util_get_kmd_buffer demo_menv demo_bytes 1000 demo_bufs = (t, 0, Some kb)
     \<and> kb_cpu_addr kb = 8192 + 300 \<and> \<not> 300 + unat (kb_size kb) \<le> unat (bq_len (bufq demo_bufs 1))"
proof -
  let ?d = "\<lparr>cb_mem_handle = 1, cb_offset = 0, cb_size = 4096, cb_length = 16\<rparr>"
  obtain t kb where g: "cam_packet_util_get_kmd_buffer demo_menv demo_bytes 1000 demo_bufs = (t, 0, Some kb)"
    by (simp add: cam_packet_util_get_kmd_buffer_def cam_packet_util_get_cmd_mem_addr_def demo_packet demo_desc demo_get_cpu
        cam_packet_util_validate_cmd_desc_def sz_def Let_def)
  have d: "?d = cmd_buf_desc_at demo_bytes (1000 + PAYLOAD + sz (cmd_buf_offset (packet_at demo_bytes 1000))
      + sz (kmd_cmd_buf_index (packet_at demo_bytes 1000)) * SZ_CMD)"
    by (simp add: demo_packet demo_desc sz_def)
  note k = kmd_buffer_region [OF g d refl refl _ refl]
  show ?thesis using g k by (auto simp: demo_packet demo_idx demo_bufs_def)
qed

lemma demo_patches:
  "\<exists>t m'. cam_packet_util_process_patches demo_menv 1000 3 4 (demo_bufs, demo_bytes) = ((t, m'), 0) \<and> rd32 m' 8200 = 69"
proof -
  let ?m = "wr32 8200 69 demo_bytes"
  have d: "dst_buf_hdl (patch_desc_at ?m 1080) = 1" using demo_desc(2) by (simp add: patch_desc_at_def rd32_other)
  have o: "patch_one demo_menv 3 4 1080 (demo_bufs, demo_bytes) =
      ((fst (cam_mem_put_cpu_buf demo_menv 1 (cpu_access 100 1 demo_bufs)), ?m), None)"
    using d by (simp add: patch_one_def demo_desc demo_idx demo_get_io demo_get_cpu sz_def Let_def)
  have c: "num_patches (packet_at ?m 1000) = 1" using demo_packet by (simp add: packet_at_def rd32_other)
  have "cam_packet_util_process_patches demo_menv 1000 3 4 (demo_bufs, demo_bytes) =
      ((fst (cam_mem_put_cpu_buf demo_menv 1 (cpu_access 100 1 demo_bufs)), ?m), 0)"
    using o c by (simp add: cam_packet_util_process_patches_def demo_packet sz_def patch_loop.simps)
  then show ?thesis by (simp add: rd32_wr32)
qed

theorem patches_within_witness:
  "\<exists>t m'. cam_packet_util_process_patches demo_menv 1000 3 4 (demo_bufs, demo_bytes) = ((t, m'), 0) \<and> m' \<noteq> demo_bytes
     \<and> list_all (in_buffer demo_bufs) (filter (\<lambda>x. m' x \<noteq> demo_bytes x) [8199, 8200, 8201, 8202, 8203, 8204])"
proof -
  obtain t m' where p: "cam_packet_util_process_patches demo_menv 1000 3 4 (demo_bufs, demo_bytes) = ((t, m'), 0)" and r: "rd32 m' 8200 = 69"
    using demo_patches by blast
  have "rd32 demo_bytes 8200 = 0" by (simp add: demo_read)
  then have "m' \<noteq> demo_bytes" using r by auto
  then show ?thesis using p patches_within [OF p demo_no_wrap] by (auto simp: list_all_iff)
qed

theorem generic_cmd_buffer_walk_witness:
  "\<exists>t. cam_packet_util_process_generic_cmd_buffer demo_menv (\<lambda>ty n a u. (u @ [(ty, n, a)], 0))
     \<lparr>cb_mem_handle = 1, cb_offset = 0, cb_size = 64, cb_length = 12\<rparr> demo_bytes demo_bufs [] = Some (t, [(4, 5, 8196)], 0)"
proof -
  let ?c = "\<lparr>cb_mem_handle = 1, cb_offset = 0, cb_size = 64, cb_length = 12\<rparr>"
  have b: "blobs demo_bytes 8192 12 = ([(4, 5, 8196)], True)"
    using demo_desc(3) by (simp add: blobs.simps Let_def blob_size_of_def blob_type_of_def block_len_def)
  have "\<exists>t. cam_packet_util_process_generic_cmd_buffer demo_menv (\<lambda>ty n a u. (u @ [(ty, n, a)], 0)) ?c demo_bytes demo_bufs [] =
      (let (u1, rc) = run_blobs (\<lambda>ty n a u. (u @ [(ty, n, a)], 0)) (blobs demo_bytes (8192 + sz (cb_offset ?c)) (unat (cb_length ?c))) [] in Some (t, u1, rc))
    \<and> cpu t = cpu demo_bufs \<and> tabl t = tabl demo_bufs
    \<and> list_all (\<lambda>(ty, k, x). \<exists>j. x = 8192 + sz (cb_offset ?c) + of_nat j \<and> 4 \<le> j \<and> j + unat k \<le> unat (cb_length ?c))
        (fst (blobs demo_bytes (8192 + sz (cb_offset ?c)) (unat (cb_length ?c))))"
    by (rule generic_cmd_buffer_walk [where n = 4096 and ?s1.0 = "cpu_access 100 1 demo_bufs"]) (simp_all add: demo_get_cpu)
  then show ?thesis by (simp add: b sz_def) blast
qed

theorem plane_fits_witness:
  "cam_packet_validate_plane_size \<lparr>io_offsets = [16, 0, 0], io_planes = [\<lparr>plane_stride = 64, slice_height = 8, meta_size = 0\<rparr>], io_format = 32\<rparr> 0 528 = 0
     \<and> 16 + 64 * 8 \<le> unat (528 :: u64)"
proof -
  let ?c = "\<lparr>io_offsets = [16, 0, 0], io_planes = [\<lparr>plane_stride = 64, slice_height = 8, meta_size = 0\<rparr>], io_format = 32\<rparr>"
  have v: "cam_packet_validate_plane_size ?c 0 528 = 0"
    by (simp add: cam_packet_validate_plane_size_def kmd_plane_size_def sz_def Let_def)
  have "0 < (3 :: nat) \<and> unat (io_offsets ?c ! 0) + unat (plane_stride (io_planes ?c ! 0)) * unat (slice_height (io_planes ?c ! 0)) \<le> unat (528 :: u64)"
    by (rule plane_fits [OF v]) simp_all
  then show ?thesis using v by simp
qed

end
