(* ===== verification/Cam_Hdl_Table.thy ===== *)
theory Cam_Hdl_Table
  imports Cam_Prelude
begin

text \<open>
  The handle table of the request manager, \<^verbatim>\<open>drivers/cam_req_mgr/cam_req_mgr_util.c\<close>: sessions,
  links and devices are named by 32-bit handles that pack a row index, a type and a random byte.

  The table is \<open>hdl_tbl\<close>, \<open>None\<close> being the \<^verbatim>\<open>NULL\<close> pointer before initialisation; handles are kept
  as the bit pattern \<open>u32\<close>, pointers as \<open>ptr\<close> with 0 for \<^verbatim>\<open>NULL\<close>. The random byte is an argument.
  The theory shows that the table refines a finite map from handles to their rows: creating a
  handle adds an entry, destroying it removes the entry, and the lookups read it.
\<close>

abbreviation CAM_REQ_MGR_MAX_HANDLES :: nat where "CAM_REQ_MGR_MAX_HANDLES \<equiv> 64"
abbreviation HDL_TYPE_DEV :: u32 where "HDL_TYPE_DEV \<equiv> 1"
abbreviation HDL_TYPE_SESSION :: u32 where "HDL_TYPE_SESSION \<equiv> 2"

datatype hdl_state = HDL_FREE | HDL_ACTIVE

record handle =
  session_hdl :: u32
  hdl_value :: u32
  hdl_type :: u32
  hdl_st :: hdl_state
  dev_id :: u64
  hdl_ops :: ptr
  hdl_priv :: ptr

record hdl_tbl =
  hdl :: "nat \<Rightarrow> handle"
  hdl_bitmap :: "nat \<Rightarrow> bool"
  hdl_bits :: nat

record cam_create_dev_hdl =
  c_session_hdl :: u32
  c_dev_id :: u64
  c_ops :: ptr
  c_priv :: ptr

subsection \<open>The layout of a handle\<close>

definition GET_DEV_HANDLE :: "u32 \<Rightarrow> u32 \<Rightarrow> nat \<Rightarrow> u32" where
  "GET_DEV_HANDLE rnd1 type idx =
     (push_bit (24 - 8) rnd1 OR push_bit (16 - 4) 0 OR push_bit (12 - 4) type OR
      push_bit (8 - 8) (of_nat idx))"

definition CAM_REQ_MGR_GET_HDL_IDX :: "u32 \<Rightarrow> nat" where
  "CAM_REQ_MGR_GET_HDL_IDX h = unat (h AND (push_bit 8 1 - 1))"

definition CAM_REQ_MGR_GET_HDL_TYPE :: "u32 \<Rightarrow> u32" where
  "CAM_REQ_MGR_GET_HDL_TYPE h = (drop_bit 8 h AND (push_bit 4 1 - 1))"

subsection \<open>The table\<close>

definition zero_handle :: handle where
  "zero_handle = \<lparr>session_hdl = 0, hdl_value = 0, hdl_type = 0, hdl_st = HDL_FREE, dev_id = 0,
     hdl_ops = 0, hdl_priv = 0\<rparr>"

definition upd_hdl :: "nat \<Rightarrow> (handle \<Rightarrow> handle) \<Rightarrow> hdl_tbl \<Rightarrow> hdl_tbl" where
  "upd_hdl i f t = t\<lparr>hdl := (hdl t)(i := f (hdl t i))\<rparr>"

text \<open>
  \<open>tbl_locked\<close> is what the global holds when the lock is taken: another initialisation may have
  run between the unlocked test and the lock.
\<close>

definition cam_req_mgr_util_init ::
  "bool \<Rightarrow> bool \<Rightarrow> hdl_tbl option \<Rightarrow> hdl_tbl option \<Rightarrow> hdl_tbl option \<times> unit result" where
  "cam_req_mgr_util_init tbl_alloc bitmap_alloc tbl tbl_locked =
     (if tbl \<noteq> None then (tbl, Err EINVAL)
      else if \<not> tbl_alloc then (tbl_locked, Err ENOMEM)
      else if tbl_locked \<noteq> None then (tbl_locked, Err EEXIST)
      else if \<not> bitmap_alloc then (None, Err ENOMEM)
      else (Some \<lparr>hdl = (\<lambda>_. zero_handle), hdl_bitmap = (\<lambda>_. False), hdl_bits = 64\<rparr>, Ok ()))"

definition cam_req_mgr_util_deinit :: "hdl_tbl option \<Rightarrow> hdl_tbl option \<times> unit result" where
  "cam_req_mgr_util_deinit tbl = (case tbl of None \<Rightarrow> (None, Err EINVAL) | Some _ \<Rightarrow> (None, Ok ()))"

definition free_hdl :: "nat \<Rightarrow> hdl_tbl \<Rightarrow> hdl_tbl" where
  "free_hdl i t =
     (if hdl_st (hdl t i) = HDL_ACTIVE
      then (upd_hdl i (\<lambda>h. h\<lparr>hdl_st := HDL_FREE\<rparr>) t)\<lparr>hdl_bitmap := (hdl_bitmap t)(i := False)\<rparr>
      else t)"

definition cam_req_mgr_util_free_hdls :: "hdl_tbl option \<Rightarrow> hdl_tbl option \<times> unit result" where
  "cam_req_mgr_util_free_hdls tbl =
     (case tbl of
        None \<Rightarrow> (None, Err EINVAL)
      | Some t \<Rightarrow>
          (let t' = fold free_hdl [0..<CAM_REQ_MGR_MAX_HANDLES] t in
           (Some (t'\<lparr>hdl_bitmap := (\<lambda>i. if i < CAM_REQ_MGR_MAX_HANDLES then False else hdl_bitmap t' i)\<rparr>),
            Ok ())))"

definition cam_get_free_handle_index :: "hdl_tbl \<Rightarrow> (hdl_tbl \<times> nat) option" where
  "cam_get_free_handle_index t =
     (let idx = find_first_zero_bit (hdl_bitmap t) (hdl_bits t) in
      if CAM_REQ_MGR_MAX_HANDLES \<le> idx then None
      else Some (t\<lparr>hdl_bitmap := (hdl_bitmap t)(idx := True)\<rparr>, idx))"

definition cam_create_session_hdl :: "u8 \<Rightarrow> hdl_tbl option \<Rightarrow> ptr \<Rightarrow> hdl_tbl option \<times> u32 result" where
  "cam_create_session_hdl rand tbl priv =
     (case tbl of
        None \<Rightarrow> (None, Err EINVAL)
      | Some t \<Rightarrow>
          (case cam_get_free_handle_index t of
             None \<Rightarrow> (tbl, Err ENOSR)
           | Some (t1, idx) \<Rightarrow>
               (let handle = GET_DEV_HANDLE (ucast rand) HDL_TYPE_SESSION idx in
                (Some (upd_hdl idx (\<lambda>h. h\<lparr>session_hdl := handle, hdl_value := handle,
                   hdl_type := HDL_TYPE_SESSION, hdl_st := HDL_ACTIVE, hdl_priv := priv, hdl_ops := 0\<rparr>) t1),
                 Ok handle))))"

definition cam_create_device_hdl ::
  "u8 \<Rightarrow> hdl_tbl option \<Rightarrow> cam_create_dev_hdl \<Rightarrow> hdl_tbl option \<times> u32 result" where
  "cam_create_device_hdl rand tbl d =
     (case tbl of
        None \<Rightarrow> (None, Err EINVAL)
      | Some t \<Rightarrow>
          (case cam_get_free_handle_index t of
             None \<Rightarrow> (tbl, Err ENOSR)
           | Some (t1, idx) \<Rightarrow>
               (let handle = GET_DEV_HANDLE (ucast rand) HDL_TYPE_DEV idx in
                (Some (upd_hdl idx (\<lambda>h. h\<lparr>session_hdl := c_session_hdl d, hdl_value := handle,
                   hdl_type := HDL_TYPE_DEV, hdl_st := HDL_ACTIVE, hdl_priv := c_priv d,
                   hdl_ops := c_ops d, dev_id := c_dev_id d\<rparr>) t1), Ok handle))))"

text \<open>The checks of the lookups; \<open>type_ok\<close> is the test on the type field.\<close>

definition check_hdl :: "(u32 \<Rightarrow> bool) \<Rightarrow> hdl_tbl \<Rightarrow> u32 \<Rightarrow> nat option" where
  "check_hdl type_ok t dev_hdl =
     (let idx = CAM_REQ_MGR_GET_HDL_IDX dev_hdl in
      if CAM_REQ_MGR_MAX_HANDLES \<le> idx then None
      else if hdl_st (hdl t idx) \<noteq> HDL_ACTIVE then None
      else if \<not> type_ok (CAM_REQ_MGR_GET_HDL_TYPE dev_hdl) then None
      else if hdl_value (hdl t idx) \<noteq> dev_hdl then None
      else Some idx)"

definition cam_get_device_priv :: "hdl_tbl option \<Rightarrow> u32 \<Rightarrow> ptr" where
  "cam_get_device_priv tbl dev_hdl =
     (case tbl of
        None \<Rightarrow> 0
      | Some t \<Rightarrow>
          (case check_hdl (\<lambda>ty. ty = HDL_TYPE_DEV \<or> ty = HDL_TYPE_SESSION) t dev_hdl of
             None \<Rightarrow> 0 | Some idx \<Rightarrow> hdl_priv (hdl t idx)))"

definition cam_get_device_ops :: "hdl_tbl option \<Rightarrow> u32 \<Rightarrow> ptr" where
  "cam_get_device_ops tbl dev_hdl =
     (case tbl of
        None \<Rightarrow> 0
      | Some t \<Rightarrow>
          (case check_hdl (\<lambda>ty. ty = HDL_TYPE_DEV \<or> ty = HDL_TYPE_SESSION) t dev_hdl of
             None \<Rightarrow> 0 | Some idx \<Rightarrow> hdl_ops (hdl t idx)))"

definition cam_destroy_hdl :: "hdl_tbl option \<Rightarrow> u32 \<Rightarrow> u32 \<Rightarrow> hdl_tbl option \<times> unit result" where
  "cam_destroy_hdl tbl dev_hdl dev_hdl_type =
     (case tbl of
        None \<Rightarrow> (None, Err EINVAL)
      | Some t \<Rightarrow>
          (case check_hdl (\<lambda>ty. ty = dev_hdl_type) t dev_hdl of
             None \<Rightarrow> (tbl, Err EINVAL)
           | Some idx \<Rightarrow>
               (Some ((upd_hdl idx (\<lambda>h. h\<lparr>hdl_st := HDL_FREE, hdl_ops := 0, hdl_priv := 0\<rparr>) t)
                  \<lparr>hdl_bitmap := (hdl_bitmap t)(idx := False)\<rparr>), Ok ())))"

definition cam_destroy_device_hdl :: "hdl_tbl option \<Rightarrow> u32 \<Rightarrow> hdl_tbl option \<times> unit result" where
  "cam_destroy_device_hdl tbl dev_hdl = cam_destroy_hdl tbl dev_hdl HDL_TYPE_DEV"

definition cam_destroy_session_hdl :: "hdl_tbl option \<Rightarrow> u32 \<Rightarrow> hdl_tbl option \<times> unit result" where
  "cam_destroy_session_hdl tbl dev_hdl = cam_destroy_hdl tbl dev_hdl HDL_TYPE_SESSION"

subsection \<open>Packing and unpacking a handle\<close>

lemma GET_HDL_IDX_handle [simp]:
  assumes "idx < 256"
  shows "CAM_REQ_MGR_GET_HDL_IDX (GET_DEV_HANDLE r ty idx) = idx"
proof -
  have "GET_DEV_HANDLE r ty idx AND mask 8 = (of_nat idx :: u32) AND mask 8"
    by (rule bit_word_eqI) (auto simp: GET_DEV_HANDLE_def bit_simps)
  moreover have "(push_bit 8 1 - 1 :: u32) = mask 8" by (simp add: mask_eq_exp_minus_1)
  ultimately have "CAM_REQ_MGR_GET_HDL_IDX (GET_DEV_HANDLE r ty idx) = unat ((of_nat idx :: u32) AND mask 8)"
    by (simp add: CAM_REQ_MGR_GET_HDL_IDX_def)
  also have "\<dots> = idx"
    using assms by (simp add: unsigned_take_bit_eq unat_of_nat take_bit_nat_eq_self flip: take_bit_eq_mask)
  finally show ?thesis .
qed

lemma GET_HDL_TYPE_handle:
  assumes "idx < 256" "ty AND mask 4 = ty"
  shows "CAM_REQ_MGR_GET_HDL_TYPE (GET_DEV_HANDLE r ty idx) = ty"
proof -
  have i: "\<not> bit (of_nat idx :: u32) (8 + n)" for n
  proof -
    have "(of_nat idx :: u32) = take_bit 8 (of_nat idx)"
      using assms(1) by (simp add: take_bit_of_nat take_bit_nat_eq_self)
    then show ?thesis by (metis bit_take_bit_iff not_add_less1)
  qed
  have "(push_bit 4 1 - 1 :: u32) = mask 4" by (simp add: mask_eq_exp_minus_1)
  then have "CAM_REQ_MGR_GET_HDL_TYPE (GET_DEV_HANDLE r ty idx) =
      drop_bit 8 (GET_DEV_HANDLE r ty idx) AND mask 4"
    by (simp add: CAM_REQ_MGR_GET_HDL_TYPE_def)
  also have "\<dots> = ty AND mask 4"
    using i by (intro bit_word_eqI) (auto simp: GET_DEV_HANDLE_def bit_simps)
  finally show ?thesis using assms(2) by simp
qed

lemma GET_HDL_TYPE_dev [simp]:
  "idx < 256 \<Longrightarrow> CAM_REQ_MGR_GET_HDL_TYPE (GET_DEV_HANDLE r HDL_TYPE_DEV idx) = HDL_TYPE_DEV"
  by (rule GET_HDL_TYPE_handle) (simp_all add: mask_eq_exp_minus_1)

lemma GET_HDL_TYPE_session [simp]:
  "idx < 256 \<Longrightarrow> CAM_REQ_MGR_GET_HDL_TYPE (GET_DEV_HANDLE r HDL_TYPE_SESSION idx) = HDL_TYPE_SESSION"
  by (rule GET_HDL_TYPE_handle) (simp_all add: mask_eq_exp_minus_1)

subsection \<open>The invariant\<close>

definition hdl_inv :: "hdl_tbl \<Rightarrow> bool" where
  "hdl_inv t \<longleftrightarrow> hdl_bits t = CAM_REQ_MGR_MAX_HANDLES \<and>
     (\<forall>i < CAM_REQ_MGR_MAX_HANDLES. hdl_bitmap t i \<longleftrightarrow> hdl_st (hdl t i) = HDL_ACTIVE) \<and>
     (\<forall>i < CAM_REQ_MGR_MAX_HANDLES. hdl_st (hdl t i) = HDL_ACTIVE \<longrightarrow>
        CAM_REQ_MGR_GET_HDL_IDX (hdl_value (hdl t i)) = i \<and>
        CAM_REQ_MGR_GET_HDL_TYPE (hdl_value (hdl t i)) = hdl_type (hdl t i) \<and>
        hdl_type (hdl t i) \<in> {HDL_TYPE_DEV, HDL_TYPE_SESSION})"

text \<open>The map from handles to session, type, operations and private data the table stands for.\<close>

definition hdl_view :: "hdl_tbl \<Rightarrow> u32 \<Rightarrow> (u32 \<times> u32 \<times> ptr \<times> ptr) option" where
  "hdl_view t h =
     (let i = CAM_REQ_MGR_GET_HDL_IDX h; r = hdl t i in
      if i < CAM_REQ_MGR_MAX_HANDLES \<and> hdl_st r = HDL_ACTIVE \<and> hdl_value r = h
      then Some (session_hdl r, hdl_type r, hdl_ops r, hdl_priv r) else None)"

lemma upd_hdl_simps [simp]:
  "hdl (upd_hdl i f t) = (hdl t)(i := f (hdl t i))"
  "hdl_bitmap (upd_hdl i f t) = hdl_bitmap t" "hdl_bits (upd_hdl i f t) = hdl_bits t"
  by (simp_all add: upd_hdl_def)

lemma hdl_invD:
  assumes "hdl_inv t" "i < CAM_REQ_MGR_MAX_HANDLES" "hdl_st (hdl t i) = HDL_ACTIVE"
  shows "CAM_REQ_MGR_GET_HDL_IDX (hdl_value (hdl t i)) = i"
    "CAM_REQ_MGR_GET_HDL_TYPE (hdl_value (hdl t i)) = hdl_type (hdl t i)"
    "hdl_type (hdl t i) = HDL_TYPE_DEV \<or> hdl_type (hdl t i) = HDL_TYPE_SESSION"
  using assms by (auto simp: hdl_inv_def)

lemma check_hdl_iff:
  assumes "hdl_inv t"
  shows "check_hdl type_ok t h = Some i \<longleftrightarrow>
    i < CAM_REQ_MGR_MAX_HANDLES \<and> hdl_st (hdl t i) = HDL_ACTIVE \<and> hdl_value (hdl t i) = h \<and> type_ok (hdl_type (hdl t i))"
  using hdl_invD [OF assms, of i] hdl_invD [OF assms, of "CAM_REQ_MGR_GET_HDL_IDX h"]
  by (auto simp: check_hdl_def Let_def not_le split: if_splits)

lemma hdl_view_iff:
  assumes "hdl_inv t"
  shows "hdl_view t h = Some v \<longleftrightarrow> (\<exists>i < CAM_REQ_MGR_MAX_HANDLES. hdl_st (hdl t i) = HDL_ACTIVE \<and>
    hdl_value (hdl t i) = h \<and> v = (session_hdl (hdl t i), hdl_type (hdl t i), hdl_ops (hdl t i), hdl_priv (hdl t i)))"
  using assms by (auto simp: hdl_view_def hdl_inv_def Let_def split: if_splits)

lemma hdl_view_at:
  "hdl_inv t \<Longrightarrow> i < CAM_REQ_MGR_MAX_HANDLES \<Longrightarrow> hdl_st (hdl t i) = HDL_ACTIVE \<Longrightarrow>
    hdl_view t (hdl_value (hdl t i)) = Some (session_hdl (hdl t i), hdl_type (hdl t i), hdl_ops (hdl t i), hdl_priv (hdl t i))"
  by (auto simp: hdl_view_iff)

lemma free_index_Some:
  assumes "hdl_inv t" "cam_get_free_handle_index t = Some (t1, i)"
  shows "i < CAM_REQ_MGR_MAX_HANDLES" "\<not> hdl_bitmap t i" "t1 = t\<lparr>hdl_bitmap := (hdl_bitmap t)(i := True)\<rparr>"
  using assms find_first_zero_bit_clear [of "hdl_bitmap t" CAM_REQ_MGR_MAX_HANDLES]
  by (auto simp: cam_get_free_handle_index_def hdl_inv_def Let_def split: if_splits)

lemma free_index_None:
  assumes "hdl_inv t"
  shows "cam_get_free_handle_index t = None \<longleftrightarrow> (\<forall>i < CAM_REQ_MGR_MAX_HANDLES. hdl_st (hdl t i) = HDL_ACTIVE)"
  using assms find_first_zero_bit_full [of CAM_REQ_MGR_MAX_HANDLES "hdl_bitmap t"]
  by (auto simp: cam_get_free_handle_index_def hdl_inv_def Let_def split: if_splits)

text \<open>Both ways of creating a handle fill a free row; this is the one argument for the two.\<close>

lemma fill_row:
  assumes inv: "hdl_inv t" and "cam_get_free_handle_index t = Some (t1, i)"
    and ty: "ty \<in> {HDL_TYPE_DEV, HDL_TYPE_SESSION}" and h: "h = GET_DEV_HANDLE r ty i"
    and f: "hdl_st (f (hdl t i)) = HDL_ACTIVE" "hdl_value (f (hdl t i)) = h" "hdl_type (f (hdl t i)) = ty"
  shows "hdl_inv (upd_hdl i f t1)" "hdl_view t h = None"
    "hdl_view (upd_hdl i f t1) = (hdl_view t)(h \<mapsto> (session_hdl (f (hdl t i)), ty, hdl_ops (f (hdl t i)), hdl_priv (f (hdl t i))))"
proof -
  note fr = free_index_Some [OF assms(1,2)]
  have idx: "CAM_REQ_MGR_GET_HDL_IDX h = i" using fr(1) h by simp
  have type: "CAM_REQ_MGR_GET_HDL_TYPE h = ty" using fr(1) h ty by auto
  show "hdl_inv (upd_hdl i f t1)" using inv fr f idx type ty by (auto simp: hdl_inv_def)
  have free: "hdl_st (hdl t i) \<noteq> HDL_ACTIVE" using inv fr by (auto simp: hdl_inv_def)
  then show "hdl_view t h = None" using idx by (simp add: hdl_view_def Let_def)
  show "hdl_view (upd_hdl i f t1) = (hdl_view t)(h \<mapsto> (session_hdl (f (hdl t i)), ty, hdl_ops (f (hdl t i)), hdl_priv (f (hdl t i))))"
    using fr f idx free by (auto simp: hdl_view_def Let_def fun_eq_iff)
qed

lemma clear_row:
  assumes inv: "hdl_inv t" and i: "i < CAM_REQ_MGR_MAX_HANDLES" "hdl_st (hdl t i) = HDL_ACTIVE"
    and t': "t' = (upd_hdl i f t)\<lparr>hdl_bitmap := (hdl_bitmap t)(i := False)\<rparr>" and f: "hdl_st (f (hdl t i)) = HDL_FREE"
  shows "hdl_inv t'" "hdl_view t' = (hdl_view t)(hdl_value (hdl t i) := None)"
proof -
  show "hdl_inv t'" using inv f by (auto simp: t' hdl_inv_def)
  show "hdl_view t' = (hdl_view t)(hdl_value (hdl t i) := None)"
    using inv i f by (auto simp: t' hdl_view_def hdl_inv_def Let_def fun_eq_iff)
qed

subsection \<open>The table refines a finite map\<close>

datatype hdl_request = Session_request u8 ptr | Device_request u8 cam_create_dev_hdl

definition hdl_create :: "hdl_request \<Rightarrow> hdl_tbl \<Rightarrow> (hdl_tbl \<times> u32) option" where
  "hdl_create c t =
     (case (case c of Session_request r p \<Rightarrow> cam_create_session_hdl r (Some t) p
                    | Device_request r d \<Rightarrow> cam_create_device_hdl r (Some t) d) of
        (Some t', Inr h) \<Rightarrow> Some (t', h)
      | _ \<Rightarrow> None)"

definition hdl_entry :: "hdl_request \<Rightarrow> u32 \<Rightarrow> u32 \<times> u32 \<times> ptr \<times> ptr" where
  "hdl_entry c h = (case c of Session_request r p \<Rightarrow> (h, HDL_TYPE_SESSION, 0, p)
                            | Device_request r d \<Rightarrow> (c_session_hdl d, HDL_TYPE_DEV, c_ops d, c_priv d))"

definition hdl_destroy :: "u32 \<Rightarrow> hdl_tbl \<Rightarrow> hdl_tbl option" where
  "hdl_destroy h t = (case cam_destroy_hdl (Some t) h (CAM_REQ_MGR_GET_HDL_TYPE h) of
     (Some t', Inr _) \<Rightarrow> Some t' | _ \<Rightarrow> None)"

lemma hdl_create_Some:
  assumes "hdl_inv t" "hdl_create c t = Some (t', h)"
  shows "hdl_inv t' \<and> hdl_view t h = None \<and> hdl_view t' = (hdl_view t)(h \<mapsto> hdl_entry c h)"
proof (cases c)
  case (Session_request r p)
  with assms(2) obtain t1 i where i: "cam_get_free_handle_index t = Some (t1, i)"
    by (auto simp: hdl_create_def cam_create_session_hdl_def Let_def split: option.splits)
  let ?h = "GET_DEV_HANDLE (ucast r) HDL_TYPE_SESSION i"
  let ?f = "\<lambda>x. x\<lparr>session_hdl := ?h, hdl_value := ?h, hdl_type := HDL_TYPE_SESSION, hdl_st := HDL_ACTIVE, hdl_priv := p, hdl_ops := 0\<rparr>"
  have eq: "t' = upd_hdl i ?f t1" "h = ?h"
    using assms(2) i Session_request by (auto simp: hdl_create_def cam_create_session_hdl_def Let_def)
  show ?thesis
    using fill_row [OF assms(1) i _ refl, of HDL_TYPE_SESSION ?f "ucast r"] Session_request
    by (simp add: eq hdl_entry_def)
next
  case (Device_request r d)
  with assms(2) obtain t1 i where i: "cam_get_free_handle_index t = Some (t1, i)"
    by (auto simp: hdl_create_def cam_create_device_hdl_def Let_def split: option.splits)
  let ?h = "GET_DEV_HANDLE (ucast r) HDL_TYPE_DEV i"
  let ?f = "\<lambda>x. x\<lparr>session_hdl := c_session_hdl d, hdl_value := ?h, hdl_type := HDL_TYPE_DEV, hdl_st := HDL_ACTIVE,
    hdl_priv := c_priv d, hdl_ops := c_ops d, dev_id := c_dev_id d\<rparr>"
  have eq: "t' = upd_hdl i ?f t1" "h = ?h"
    using assms(2) i Device_request by (auto simp: hdl_create_def cam_create_device_hdl_def Let_def)
  show ?thesis
    using fill_row [OF assms(1) i _ refl, of HDL_TYPE_DEV ?f "ucast r"] Device_request
    by (simp add: eq hdl_entry_def)
qed

lemma cam_destroy_hdl_cases:
  assumes "hdl_inv t"
  obtains (gone) "cam_destroy_hdl (Some t) h ty = (Some t, Err EINVAL)"
      "\<nexists>v. hdl_view t h = Some v \<and> fst (snd v) = ty"
  | (freed) t' where "cam_destroy_hdl (Some t) h ty = (Some t', Ok ())" "hdl_inv t'"
      "hdl_view t' = (hdl_view t)(h := None)" "\<exists>v. hdl_view t h = Some v \<and> fst (snd v) = ty"
proof (cases "check_hdl (\<lambda>k. k = ty) t h")
  case None
  have "\<nexists>v. hdl_view t h = Some v \<and> fst (snd v) = ty"
  proof
    assume "\<exists>v. hdl_view t h = Some v \<and> fst (snd v) = ty"
    then obtain i where "check_hdl (\<lambda>k. k = ty) t h = Some i"
      by (auto simp: hdl_view_iff [OF assms] check_hdl_iff [OF assms])
    with None show False by simp
  qed
  then show thesis using gone None by (simp add: cam_destroy_hdl_def)
next
  case (Some i)
  then have i: "i < CAM_REQ_MGR_MAX_HANDLES" "hdl_st (hdl t i) = HDL_ACTIVE" "hdl_value (hdl t i) = h"
    "hdl_type (hdl t i) = ty" by (simp_all add: check_hdl_iff [OF assms])
  have "hdl_view t h = Some (session_hdl (hdl t i), ty, hdl_ops (hdl t i), hdl_priv (hdl t i))"
    using hdl_view_at [OF assms i(1,2)] i(3,4) by simp
  with clear_row [OF assms i(1,2) refl] i(3) show thesis
    using freed Some by (simp add: cam_destroy_hdl_def)
qed

lemma hdl_view_type: "hdl_inv t \<Longrightarrow> hdl_view t h = Some v \<Longrightarrow> fst (snd v) = CAM_REQ_MGR_GET_HDL_TYPE h"
  by (auto simp: hdl_view_iff hdl_invD)

lemma hdl_destroy_Some:
  "hdl_inv t \<Longrightarrow> hdl_destroy h t = Some t' \<Longrightarrow> hdl_inv t' \<and> hdl_view t h \<noteq> None \<and> hdl_view t' = (hdl_view t)(h := None)"
  by (cases rule: cam_destroy_hdl_cases [of t h "CAM_REQ_MGR_GET_HDL_TYPE h"]) (auto simp: hdl_destroy_def)

lemma hdl_destroy_None:
  assumes "hdl_inv t"
  shows "hdl_destroy h t = None \<longleftrightarrow> hdl_view t h = None"
  using assms hdl_view_type [OF assms, of h]
  by (cases rule: cam_destroy_hdl_cases [of t h "CAM_REQ_MGR_GET_HDL_TYPE h"]; cases "hdl_view t h")
    (auto simp: hdl_destroy_def)

lemma hdl_view_dom:
  "hdl_inv t \<Longrightarrow> dom (hdl_view t) = (\<lambda>i. hdl_value (hdl t i)) ` {i. i < CAM_REQ_MGR_MAX_HANDLES \<and> hdl_st (hdl t i) = HDL_ACTIVE}"
  by (auto simp: dom_def hdl_view_iff)

lemma hdl_view_card:
  assumes "hdl_inv t"
  shows "card (dom (hdl_view t)) = card {i. i < CAM_REQ_MGR_MAX_HANDLES \<and> hdl_st (hdl t i) = HDL_ACTIVE}"
proof -
  have "inj_on (\<lambda>i. hdl_value (hdl t i)) {i. i < CAM_REQ_MGR_MAX_HANDLES \<and> hdl_st (hdl t i) = HDL_ACTIVE}"
    using hdl_invD(1) [OF assms] by (auto intro!: inj_onI) metis
  then show ?thesis by (simp add: hdl_view_dom [OF assms] card_image)
qed

lemma hdl_create_None:
  assumes "hdl_inv t"
  shows "hdl_create c t = None \<longleftrightarrow> card (dom (hdl_view t)) = CAM_REQ_MGR_MAX_HANDLES"
proof -
  define A where "A = {i. i < CAM_REQ_MGR_MAX_HANDLES \<and> hdl_st (hdl t i) = HDL_ACTIVE}"
  have sub: "A \<subseteq> {..<CAM_REQ_MGR_MAX_HANDLES}" unfolding A_def by blast
  have "hdl_create c t = None \<longleftrightarrow> cam_get_free_handle_index t = None"
    by (cases "cam_get_free_handle_index t"; cases c)
      (auto simp: hdl_create_def cam_create_session_hdl_def cam_create_device_hdl_def Let_def)
  also have "\<dots> \<longleftrightarrow> A = {..<CAM_REQ_MGR_MAX_HANDLES}"
    unfolding free_index_None [OF assms] A_def by blast
  also have "\<dots> \<longleftrightarrow> card A = CAM_REQ_MGR_MAX_HANDLES"
    using card_subset_eq [OF finite_lessThan sub] by auto
  finally show ?thesis by (simp add: hdl_view_card [OF assms] A_def)
qed

interpretation hdls: handle_store hdl_inv hdl_view hdl_create hdl_entry hdl_destroy CAM_REQ_MGR_MAX_HANDLES
proof unfold_locales
  fix t h assume "hdl_inv t"
  then show "finite (dom (hdl_view t))" by (simp add: hdl_view_dom)
qed (use hdl_create_Some hdl_create_None hdl_destroy_Some hdl_destroy_None in blast)+

subsection \<open>Properties\<close>

lemma create_device_result:
  "hdl_inv t \<Longrightarrow> (\<exists>t' h. cam_create_device_hdl r (Some t) d = (Some t', Ok h) \<and> hdl_create (Device_request r d) t = Some (t', h)) \<or>
    cam_create_device_hdl r (Some t) d = (Some t, Err ENOSR) \<and> hdl_create (Device_request r d) t = None"
  by (auto simp: cam_create_device_hdl_def hdl_create_def Let_def split: option.splits)

lemma create_session_result:
  "hdl_inv t \<Longrightarrow> (\<exists>t' h. cam_create_session_hdl r (Some t) p = (Some t', Ok h) \<and> hdl_create (Session_request r p) t = Some (t', h)) \<or>
    cam_create_session_hdl r (Some t) p = (Some t, Err ENOSR) \<and> hdl_create (Session_request r p) t = None"
  by (auto simp: cam_create_session_hdl_def hdl_create_def Let_def split: option.splits)

text \<open>
  C24: creating a device or session handle either adds exactly one entry, under a handle that was
  not in use, and keeps every other, or changes nothing and reports \<^verbatim>\<open>ENOSR\<close>, which happens only
  when all 64 rows are taken.
\<close>

theorem create_hdl_refines:
  assumes inv: "hdl_inv t"
  shows "(case cam_create_device_hdl r (Some t) d of
      (tbl, Inl e) \<Rightarrow> tbl = Some t \<and> e = ENOSR \<and> card (dom (hdl_view t)) = CAM_REQ_MGR_MAX_HANDLES
    | (tbl, Inr h) \<Rightarrow> hdl_view t h = None \<and> (\<exists>t'. tbl = Some t' \<and> hdl_inv t' \<and>
        hdl_view t' = (hdl_view t)(h \<mapsto> (c_session_hdl d, HDL_TYPE_DEV, c_ops d, c_priv d)))) \<and>
    (case cam_create_session_hdl r (Some t) p of
      (tbl, Inl e) \<Rightarrow> tbl = Some t \<and> e = ENOSR \<and> card (dom (hdl_view t)) = CAM_REQ_MGR_MAX_HANDLES
    | (tbl, Inr h) \<Rightarrow> hdl_view t h = None \<and> (\<exists>t'. tbl = Some t' \<and> hdl_inv t' \<and>
        hdl_view t' = (hdl_view t)(h \<mapsto> (h, HDL_TYPE_SESSION, 0, p))))"
    (is "?dev \<and> ?session")
proof
  show ?dev
    using create_device_result [OF inv, of r d] hdls.create_Some [OF inv, of "Device_request r d"]
      hdls.create_None [OF inv, of "Device_request r d"]
    by (auto simp: hdl_entry_def)
  show ?session
    using create_session_result [OF inv, of r p] hdls.create_Some [OF inv, of "Session_request r p"]
      hdls.create_None [OF inv, of "Session_request r p"]
    by (auto simp: hdl_entry_def)
qed

lemma hdl_init_inv:
  "cam_req_mgr_util_init True True None None = (Some t, r) \<Longrightarrow> hdl_inv t"
  by (auto simp: cam_req_mgr_util_init_def hdl_inv_def zero_handle_def)

definition demo_hdls :: hdl_tbl where
  "demo_hdls = the (fst (cam_req_mgr_util_init True True None None))"

definition demo_session :: hdl_tbl where
  "demo_session = the (fst (cam_create_session_hdl 9 (Some demo_hdls) 4096))"

abbreviation demo_hdl :: u32 where "demo_hdl \<equiv> GET_DEV_HANDLE 9 HDL_TYPE_SESSION 0"

lemma demo_hdls_inv: "hdl_inv demo_hdls"
  by (rule hdl_init_inv [of _ "Ok ()"]) (simp add: demo_hdls_def cam_req_mgr_util_init_def)

lemma demo_session_create: "cam_create_session_hdl 9 (Some demo_hdls) 4096 = (Some demo_session, Ok demo_hdl)"
proof -
  have "find_first_zero_bit (\<lambda>_. False) 64 = 0" by (rule find_first_zero_bit_eqI) simp_all
  then show ?thesis
    by (simp add: demo_session_def demo_hdls_def cam_req_mgr_util_init_def cam_create_session_hdl_def
        cam_get_free_handle_index_def Let_def)
qed

lemma demo_session_inv: "hdl_inv demo_session"
  and demo_session_view: "hdl_view demo_session demo_hdl = Some (demo_hdl, HDL_TYPE_SESSION, 0, 4096)"
  using hdls.create_Some [OF demo_hdls_inv, of "Session_request 9 4096" demo_session demo_hdl]
  by (simp_all add: hdl_create_def demo_session_create hdl_entry_def)

theorem create_hdl_refines_witness:
  "hdl_inv demo_session \<and> hdl_view demo_session demo_hdl = Some (demo_hdl, HDL_TYPE_SESSION, 0, 4096)"
  using create_hdl_refines [OF demo_hdls_inv, where r = 9 and p = 4096] by (auto simp: demo_session_create)

lemma lookup_view:
  assumes "hdl_inv t"
  shows "check_hdl (\<lambda>ty. ty = HDL_TYPE_DEV \<or> ty = HDL_TYPE_SESSION) t h =
    (case hdl_view t h of None \<Rightarrow> None | Some _ \<Rightarrow> Some (CAM_REQ_MGR_GET_HDL_IDX h))"
  using hdl_invD [OF assms, of "CAM_REQ_MGR_GET_HDL_IDX h"]
  by (cases "CAM_REQ_MGR_GET_HDL_IDX h < CAM_REQ_MGR_MAX_HANDLES") (auto simp: check_hdl_def hdl_view_def Let_def)

lemma get_device_view:
  assumes "hdl_inv t"
  shows "cam_get_device_priv (Some t) h = (case hdl_view t h of None \<Rightarrow> 0 | Some (_, _, _, p) \<Rightarrow> p)"
    "cam_get_device_ops (Some t) h = (case hdl_view t h of None \<Rightarrow> 0 | Some (_, _, q, _) \<Rightarrow> q)"
  using lookup_view [OF assms, of h]
  by (auto simp: cam_get_device_priv_def cam_get_device_ops_def hdl_view_def Let_def split: option.splits if_splits)

text \<open>
  C25: destroying a handle with the call for its type removes its entry and keeps every other; with
  the other call, or for a handle that is not in use, nothing changes and the call reports
  \<^verbatim>\<open>EINVAL\<close>. A destroyed handle is dead: the lookups return \<^verbatim>\<open>NULL\<close> for it and a second destroy
  fails.
\<close>

theorem destroy_hdl_refines:
  assumes inv: "hdl_inv t"
  shows "case cam_destroy_hdl (Some t) h ty of
      (tbl, Inl e) \<Rightarrow> tbl = Some t \<and> e = EINVAL \<and> (\<nexists>v. hdl_view t h = Some v \<and> fst (snd v) = ty)
    | (tbl, Inr _) \<Rightarrow> (\<exists>v. hdl_view t h = Some v \<and> fst (snd v) = ty) \<and>
        (\<exists>t'. tbl = Some t' \<and> hdl_inv t' \<and> hdl_view t' = (hdl_view t)(h := None) \<and>
          cam_get_device_priv tbl h = 0 \<and> cam_get_device_ops tbl h = 0 \<and>
          cam_destroy_device_hdl tbl h = (tbl, Err EINVAL) \<and> cam_destroy_session_hdl tbl h = (tbl, Err EINVAL))"
  using inv
proof (cases rule: cam_destroy_hdl_cases [of t h ty])
  case gone
  then show ?thesis by simp
next
  case (freed t')
  have dead: "cam_destroy_hdl (Some t') h ty' = (Some t', Err EINVAL)" for ty'
    by (cases rule: cam_destroy_hdl_cases [OF freed(2), of h ty']) (use freed(3) in auto)
  show ?thesis
    using freed get_device_view [OF freed(2), of h] dead
    by (simp add: cam_destroy_device_hdl_def cam_destroy_session_hdl_def)
qed

theorem destroy_hdl_refines_witness:
  "\<exists>t'. cam_destroy_session_hdl (Some demo_session) demo_hdl = (Some t', Ok ()) \<and> hdl_view t' demo_hdl = None \<and>
     cam_get_device_priv (Some t') demo_hdl = 0"
  using destroy_hdl_refines [OF demo_session_inv, of demo_hdl HDL_TYPE_SESSION]
  by (cases "cam_destroy_hdl (Some demo_session) demo_hdl HDL_TYPE_SESSION")
    (auto simp: demo_session_view cam_destroy_session_hdl_def split: sum.splits)

text \<open>
  A lookup by handle returns the data of the entry of that very handle, and \<^verbatim>\<open>NULL\<close> when the
  table has none; entries under other handles with the same row index are never returned.
\<close>

theorem lookup_reads_entry:
  assumes "hdl_inv t"
  shows "cam_get_device_priv (Some t) h = (case hdl_view t h of None \<Rightarrow> 0 | Some (_, _, _, p) \<Rightarrow> p) \<and>
    cam_get_device_ops (Some t) h = (case hdl_view t h of None \<Rightarrow> 0 | Some (_, _, q, _) \<Rightarrow> q) \<and>
    (\<forall>k. k \<noteq> h \<longrightarrow> CAM_REQ_MGR_GET_HDL_IDX k = CAM_REQ_MGR_GET_HDL_IDX h \<longrightarrow> hdl_view t h \<noteq> None \<longrightarrow> hdl_view t k = None)"
  using get_device_view [OF assms] by (auto simp: hdl_view_def Let_def split: if_splits)

theorem lookup_reads_entry_witness:
  "cam_get_device_priv (Some demo_session) demo_hdl = 4096 \<and>
   cam_get_device_priv (Some demo_session) (GET_DEV_HANDLE 8 HDL_TYPE_SESSION 0) = 0"
proof -
  have "GET_DEV_HANDLE 8 HDL_TYPE_SESSION 0 \<noteq> demo_hdl" by (simp add: GET_DEV_HANDLE_def)
  then have "hdl_view demo_session (GET_DEV_HANDLE 8 HDL_TYPE_SESSION 0) = None"
    using lookup_reads_entry [OF demo_session_inv, of demo_hdl] by (simp add: demo_session_view)
  then show ?thesis
    using lookup_reads_entry [OF demo_session_inv, of demo_hdl]
      lookup_reads_entry [OF demo_session_inv, of "GET_DEV_HANDLE 8 HDL_TYPE_SESSION 0"]
    by (simp add: demo_session_view)
qed

lemma handle_rand:
  assumes "i < 256" "ty AND mask 4 = ty"
  shows "drop_bit 16 (GET_DEV_HANDLE (ucast (r :: u8)) ty i) = ucast r"
proof (rule bit_word_eqI)
  fix n :: nat
  assume n: "n < LENGTH(32)"
  have 1: "\<not> bit (of_nat i :: u32) (16 + n)"
    using assms(1) by (intro bit_above [of 8]) (simp_all add: take_bit_of_nat take_bit_nat_eq_self)
  have 2: "\<not> bit ty (8 + n)"
    using assms(2) by (intro bit_above [of 4]) (simp_all add: take_bit_eq_mask)
  show "bit (drop_bit 16 (GET_DEV_HANDLE (ucast r) ty i)) n = bit (ucast r :: u32) n"
    using n 1 2 bit_imp_le_length [of r n] by (auto simp: GET_DEV_HANDLE_def bit_simps)
qed

text \<open>
  when a device handle is destroyed and its row is used for a new device, the old handle is
  accepted again exactly when the random byte drawn for the new one is the same: otherwise lookups
  with the stale handle return \<^verbatim>\<open>NULL\<close>.
\<close>

theorem stale_handle:
  assumes inv: "hdl_inv t"
    and dead: "hdl_view t (GET_DEV_HANDLE (ucast old) HDL_TYPE_DEV i) = None"
    and new: "cam_create_device_hdl r (Some t) d = (Some t', Ok h)" "CAM_REQ_MGR_GET_HDL_IDX h = i"
  shows "hdl_view t' (GET_DEV_HANDLE (ucast old) HDL_TYPE_DEV i) \<noteq> None \<longleftrightarrow> r = old"
proof -
  obtain t1 j where j: "cam_get_free_handle_index t = Some (t1, j)" "h = GET_DEV_HANDLE (ucast r) HDL_TYPE_DEV j"
    using new(1) by (auto simp: cam_create_device_hdl_def Let_def split: option.splits)
  have lt: "j < 64" using free_index_Some(1) [OF inv j(1)] .
  then have ij: "j = i" using new(2) j(2) by simp
  have c: "hdl_create (Device_request r d) t = Some (t', h)" using new(1) by (simp add: hdl_create_def)
  have ty: "HDL_TYPE_DEV AND mask 4 = HDL_TYPE_DEV" by (simp add: mask_eq_exp_minus_1)
  have "h = GET_DEV_HANDLE (ucast old) HDL_TYPE_DEV i \<longleftrightarrow> r = old"
  proof
    assume "h = GET_DEV_HANDLE (ucast old) HDL_TYPE_DEV i"
    then have "drop_bit 16 (GET_DEV_HANDLE (ucast r) HDL_TYPE_DEV j) = drop_bit 16 (GET_DEV_HANDLE (ucast old) HDL_TYPE_DEV j)"
      using j(2) ij by simp
    moreover have "j < 256" using lt by simp
    ultimately have "(ucast r :: u32) = ucast old" using handle_rand [OF _ ty] by simp
    then have eq: "bit (ucast r :: u32) n = bit (ucast old :: u32) n" for n by simp
    show "r = old"
    proof (rule bit_word_eqI)
      fix n :: nat
      assume "n < LENGTH(8)"
      with eq [of n] show "bit r n = bit old n" by (simp add: bit_simps)
    qed
  qed (use j ij in simp)
  then show ?thesis using hdls.create_Some [OF inv c] dead by (auto simp: hdl_entry_def)
qed

theorem stale_handle_witness:
  "\<exists>t'. fst (cam_create_device_hdl 4 (Some demo_hdls) \<lparr>c_session_hdl = 1, c_dev_id = 2, c_ops = 3, c_priv = 5\<rparr>) = Some t' \<and>
     hdl_view t' (GET_DEV_HANDLE (ucast (7 :: u8)) HDL_TYPE_DEV 0) = None"
proof -
  let ?d = "\<lparr>c_session_hdl = 1, c_dev_id = 2, c_ops = 3, c_priv = 5\<rparr>"
  have "find_first_zero_bit (\<lambda>_. False) 64 = 0" by (rule find_first_zero_bit_eqI) simp_all
  then obtain t' where t': "cam_create_device_hdl 4 (Some demo_hdls) ?d = (Some t', Ok (GET_DEV_HANDLE 4 HDL_TYPE_DEV 0))"
    by (simp add: demo_hdls_def cam_req_mgr_util_init_def cam_create_device_hdl_def
        cam_get_free_handle_index_def Let_def)
  moreover have "hdl_view demo_hdls h = None" for h
    by (simp add: demo_hdls_def cam_req_mgr_util_init_def hdl_view_def zero_handle_def)
  ultimately have "\<not> hdl_view t' (GET_DEV_HANDLE (ucast (7 :: u8)) HDL_TYPE_DEV 0) \<noteq> None"
    using stale_handle [OF demo_hdls_inv _ t', of 7 0] by (simp del: not_None_eq)
  then show ?thesis using t' by (simp del: not_None_eq)
qed

lemma free_hdl_fold:
  "hdl (fold free_hdl is t) i = (if i \<in> set is then (hdl t i)\<lparr>hdl_st := HDL_FREE\<rparr> else hdl t i) \<and>
   hdl_bits (fold free_hdl is t) = hdl_bits t"
proof (induction "is" arbitrary: t)
  case (Cons a xs)
  have st: "x\<lparr>hdl_st := HDL_FREE\<rparr> = x" if "hdl_st x \<noteq> HDL_ACTIVE" for x :: handle
    using that by (cases "hdl_st x") simp_all
  show ?case using Cons.IH [of "free_hdl a t"] st by (auto simp: free_hdl_def)
qed simp

text \<open>
  Freeing all handles, as the last close of the request manager node does, leaves a table that
  satisfies the invariant and has no entry, so every handle handed out before is refused.
\<close>

theorem free_hdls_empty:
  assumes "hdl_inv t"
  shows "\<exists>t'. cam_req_mgr_util_free_hdls (Some t) = (Some t', Ok ()) \<and> hdl_inv t' \<and> hdl_view t' = Map.empty \<and>
    (\<forall>h. cam_get_device_priv (Some t') h = 0)"
proof -
  define u where "u = fold free_hdl [0..<CAM_REQ_MGR_MAX_HANDLES] t"
  define t' where "t' = u\<lparr>hdl_bitmap := (\<lambda>i. if i < CAM_REQ_MGR_MAX_HANDLES then False else hdl_bitmap u i)\<rparr>"
  have run: "cam_req_mgr_util_free_hdls (Some t) = (Some t', Ok ())"
    by (simp add: cam_req_mgr_util_free_hdls_def Let_def t'_def u_def)
  have st: "hdl_st (hdl t' i) = HDL_FREE" if "i < 64" for i
    using that free_hdl_fold [of "[0..<64]" t i] by (simp add: t'_def u_def)
  have inv: "hdl_inv t'"
    using st assms free_hdl_fold [of "[0..<64]" t] by (auto simp: hdl_inv_def t'_def u_def)
  have "hdl_view t' = Map.empty" using st by (auto simp: hdl_view_def Let_def fun_eq_iff)
  then show ?thesis using run inv get_device_view(1) [OF inv] by simp
qed

theorem free_hdls_empty_witness:
  "\<exists>t'. cam_req_mgr_util_free_hdls (Some demo_session) = (Some t', Ok ()) \<and> cam_get_device_priv (Some t') demo_hdl = 0"
  using free_hdls_empty [OF demo_session_inv] by blast

end
