(* ===== verification/Cam_Workq.thy ===== *)
theory Cam_Workq
  imports Cam_Prelude "HOL-Library.Multiset"
begin

text \<open>
  The task queue of the request manager and of the hardware managers,
  \<^verbatim>\<open>drivers/cam_req_mgr/cam_req_mgr_workq.c\<close>: a fixed pool of tasks, a list of free ones, and one
  list of pending tasks per priority that a kernel worker drains.

  A task is its index in the pool. \<open>process_head\<close> has the two priority lists, \<open>work_pending\<close> says
  that \<^verbatim>\<open>queue_work\<close> has scheduled the worker, and \<open>ran\<close> records the callbacks the worker has made,
  with the arguments they got. What a callback does to the queue is the argument \<open>cb\<close>.

  The worker is modelled twice: \<open>cam_req_mgr_process_workq\<close> is its loop, run without interruption
  (with fuel, since a callback may enqueue again), and \<open>workq_step\<close> interleaves the same locked
  sections with clients that take, fill and enqueue tasks.
\<close>

abbreviation CRM_TASK_PRIORITY_0 :: nat where "CRM_TASK_PRIORITY_0 \<equiv> 0"
abbreviation CRM_TASK_PRIORITY_MAX :: nat where "CRM_TASK_PRIORITY_MAX \<equiv> 2"

record crm_workq_task =
  priority :: nat
  payload :: ptr
  process_cb :: ptr
  cancel :: u8
  task_priv :: ptr

record workq =
  job :: bool
  in_irq :: bool
  pending_cnt :: int
  free_cnt :: int
  process_head :: "nat \<Rightarrow> nat list"
  empty_head :: "nat list"
  pool :: "nat \<Rightarrow> crm_workq_task"
  num_task :: nat
  work_pending :: bool
  ran :: "(ptr \<times> ptr \<times> ptr) list"

definition zero_task :: crm_workq_task where
  "zero_task = \<lparr>priority = 0, payload = 0, process_cb = 0, cancel = 0, task_priv = 0\<rparr>"

definition cam_req_mgr_workq_get_task :: "workq option \<Rightarrow> workq option \<times> nat option" where
  "cam_req_mgr_workq_get_task workq =
     (case workq of
        None \<Rightarrow> (None, None)
      | Some w \<Rightarrow>
          (case empty_head w of
             [] \<Rightarrow> (Some w, None)
           | task # rest \<Rightarrow> (Some (w\<lparr>free_cnt := free_cnt w - 1, empty_head := rest\<rparr>), Some task)))"

text \<open>\<^verbatim>\<open>list_del_init\<close> takes the task out of the list it is in, if any.\<close>

definition del_entry :: "nat \<Rightarrow> workq \<Rightarrow> workq" where
  "del_entry task w = w\<lparr>empty_head := removeAll task (empty_head w),
     process_head := (\<lambda>i. removeAll task (process_head w i))\<rparr>"

definition cam_req_mgr_workq_put_task :: "nat \<Rightarrow> workq \<Rightarrow> workq" where
  "cam_req_mgr_workq_put_task task w =
     (let w1 = del_entry task w;
          w2 = w1\<lparr>pool := (pool w1)(task := (pool w1 task)\<lparr>cancel := 0, process_cb := 0, task_priv := 0\<rparr>)\<rparr>
      in w2\<lparr>empty_head := empty_head w2 @ [task], free_cnt := free_cnt w2 + 1\<rparr>)"

text \<open>The call of the handler, when there is one.\<close>

definition run_cb :: "(crm_workq_task \<Rightarrow> workq \<Rightarrow> workq) \<Rightarrow> nat \<Rightarrow> workq \<Rightarrow> workq" where
  "run_cb cb task w =
     (let t = pool w task in
      if process_cb t \<noteq> 0 then cb t (w\<lparr>ran := ran w @ [(process_cb t, task_priv t, payload t)]\<rparr>) else w)"

definition cam_req_mgr_process_task ::
  "(crm_workq_task \<Rightarrow> workq \<Rightarrow> workq) \<Rightarrow> nat option \<Rightarrow> workq \<Rightarrow> workq \<times> unit result" where
  "cam_req_mgr_process_task cb task w =
     (case task of
        None \<Rightarrow> (w, Err EINVAL)
      | Some t \<Rightarrow> (cam_req_mgr_workq_put_task t (run_cb cb t w), Ok ()))"

text \<open>The locked section of the worker's inner loop: the first pending task of priority \<open>i\<close>, taken.\<close>

definition take_pending :: "nat \<Rightarrow> workq \<Rightarrow> (nat \<times> workq) option" where
  "take_pending i w =
     (case process_head w i of
        [] \<Rightarrow> None
      | task # rest \<Rightarrow>
          Some (task, w\<lparr>pending_cnt := pending_cnt w - 1, process_head := (process_head w)(i := rest)\<rparr>))"

text \<open>The loops; \<open>None\<close> when the fuel does not suffice, which counts the tasks processed.\<close>

fun process_prio :: "nat \<Rightarrow> (crm_workq_task \<Rightarrow> workq \<Rightarrow> workq) \<Rightarrow> nat \<Rightarrow> workq \<Rightarrow> workq option" where
  "process_prio fuel cb i w =
     (case take_pending i w of
        None \<Rightarrow> Some w
      | Some (task, w1) \<Rightarrow>
          (case fuel of
             0 \<Rightarrow> None
           | Suc n \<Rightarrow> process_prio n cb i (fst (cam_req_mgr_process_task cb (Some task) w1))))"

fun process_prios :: "nat \<Rightarrow> (crm_workq_task \<Rightarrow> workq \<Rightarrow> workq) \<Rightarrow> nat list \<Rightarrow> workq \<Rightarrow> workq option" where
  "process_prios fuel cb [] w = Some w"
| "process_prios fuel cb (i # is) w =
     (case process_prio fuel cb i w of None \<Rightarrow> None | Some w' \<Rightarrow> process_prios fuel cb is w')"

definition cam_req_mgr_process_workq ::
  "nat \<Rightarrow> (crm_workq_task \<Rightarrow> workq \<Rightarrow> workq) \<Rightarrow> workq option \<Rightarrow> workq option option" where
  "cam_req_mgr_process_workq fuel cb w =
     (case w of
        None \<Rightarrow> Some None
      | Some wq \<Rightarrow>
          map_option Some (process_prios fuel cb [CRM_TASK_PRIORITY_0..<CRM_TASK_PRIORITY_MAX]
            (wq\<lparr>work_pending := False\<rparr>)))"

definition cam_req_mgr_workq_enqueue_task ::
  "nat option \<Rightarrow> ptr \<Rightarrow> int \<Rightarrow> workq option \<Rightarrow> workq option \<times> unit result" where
  "cam_req_mgr_workq_enqueue_task task priv prio workq =
     (case task of
        None \<Rightarrow> (workq, Err EINVAL)
      | Some t \<Rightarrow>
          (case workq of
             None \<Rightarrow> (None, Err EINVAL)
           | Some w \<Rightarrow>
               if cancel (pool w t) = 1 then (Some (cam_req_mgr_workq_put_task t w), Ok ())
               else
                 (let p = if prio < int CRM_TASK_PRIORITY_MAX \<and> prio \<ge> int CRM_TASK_PRIORITY_0
                          then nat prio else CRM_TASK_PRIORITY_0;
                      w1 = w\<lparr>pool := (pool w)(t := (pool w t)\<lparr>task_priv := priv, priority := p\<rparr>)\<rparr>
                  in if \<not> job w1 then (Some w1, Err EINVAL)
                     else (Some (w1\<lparr>process_head := (process_head w1)(p := process_head w1 p @ [t]),
                             pending_cnt := pending_cnt w1 + 1, work_pending := True\<rparr>), Ok ()))))"

text \<open>
  Creation. \<open>jobs\<close> counts the kernel work queues that are allocated; the three booleans say which
  allocations succeed.
\<close>

definition cam_req_mgr_workq_create ::
  "bool \<Rightarrow> bool \<Rightarrow> bool \<Rightarrow> nat \<Rightarrow> bool \<Rightarrow> nat \<Rightarrow> workq option \<Rightarrow> nat \<times> workq option \<times> unit result" where
  "cam_req_mgr_workq_create wq_alloc job_alloc pool_alloc num_tasks irq jobs workq =
     (case workq of
        Some w \<Rightarrow> (jobs, Some w, Ok ())
      | None \<Rightarrow>
          (if \<not> wq_alloc then (jobs, None, Err ENOMEM)
           else if \<not> job_alloc then (jobs, None, Err ENOMEM)
           else if \<not> pool_alloc then (jobs + 1, None, Err ENOMEM)
           else
             (let w = \<lparr>job = True, in_irq = irq, pending_cnt = 0, free_cnt = 0, process_head = (\<lambda>_. []),
                       empty_head = [], pool = (\<lambda>_. zero_task), num_task = num_tasks,
                       work_pending = False, ran = []\<rparr>
              in (jobs + 1, Some (fold cam_req_mgr_workq_put_task [0..<num_tasks] w), Ok ()))))"

text \<open>\<^verbatim>\<open>destroy_workqueue\<close> waits for the worker, so what is scheduled runs before the queue is gone.\<close>

definition cam_req_mgr_workq_destroy ::
  "nat \<Rightarrow> (crm_workq_task \<Rightarrow> workq \<Rightarrow> workq) \<Rightarrow> nat \<Rightarrow> workq option \<Rightarrow> (nat \<times> workq option) option" where
  "cam_req_mgr_workq_destroy fuel cb jobs workq =
     (case workq of
        None \<Rightarrow> Some (jobs, None)
      | Some w \<Rightarrow>
          if job w
          then (let w1 = w\<lparr>job := False\<rparr> in
                map_option (\<lambda>_. (jobs - 1, None))
                  (if work_pending w1 then cam_req_mgr_process_workq fuel cb (Some w1) else Some (Some w1)))
          else Some (jobs, None))"

declare process_prio.simps [simp del]

subsection \<open>The interleaved worker\<close>

datatype worker = Idle | Scanning nat | Running nat nat

record workq_sys =
  queue :: workq
  worker_at :: worker
  held :: "nat list"

text \<open>
  The steps: a client takes a task, writes its fields, enqueues it; the worker starts when it is
  scheduled, takes the first pending task of its priority, runs it and gives it back, and goes on
  to the next priority when the list is empty. Callbacks act on the queue through the client steps.
\<close>

inductive workq_step :: "workq_sys \<Rightarrow> workq_sys \<Rightarrow> bool" where
  get: "cam_req_mgr_workq_get_task (Some (queue s)) = (Some w, Some t) \<Longrightarrow>
    workq_step s (s\<lparr>queue := w, held := t # held s\<rparr>)"
| get_empty: "cam_req_mgr_workq_get_task (Some (queue s)) = (Some w, None) \<Longrightarrow>
    workq_step s (s\<lparr>queue := w\<rparr>)"
| fill: "t \<in> set (held s) \<Longrightarrow> workq_step s (s\<lparr>queue := (queue s)\<lparr>pool := (pool (queue s))(t := x)\<rparr>\<rparr>)"
| enqueue: "t \<in> set (held s) \<Longrightarrow>
    cam_req_mgr_workq_enqueue_task (Some t) priv prio (Some (queue s)) = (Some w, Ok ()) \<Longrightarrow>
    workq_step s (s\<lparr>queue := w, held := remove1 t (held s)\<rparr>)"
| enqueue_fails: "t \<in> set (held s) \<Longrightarrow>
    cam_req_mgr_workq_enqueue_task (Some t) priv prio (Some (queue s)) = (Some w, Err e) \<Longrightarrow>
    workq_step s (s\<lparr>queue := w\<rparr>)"
| start: "worker_at s = Idle \<Longrightarrow> work_pending (queue s) \<Longrightarrow>
    workq_step s (s\<lparr>queue := (queue s)\<lparr>work_pending := False\<rparr>, worker_at := Scanning CRM_TASK_PRIORITY_0\<rparr>)"
| take_task: "worker_at s = Scanning i \<Longrightarrow> i < CRM_TASK_PRIORITY_MAX \<Longrightarrow> take_pending i (queue s) = Some (t, w) \<Longrightarrow>
    workq_step s (s\<lparr>queue := w, worker_at := Running i t\<rparr>)"
| next_prio: "worker_at s = Scanning i \<Longrightarrow> i < CRM_TASK_PRIORITY_MAX \<Longrightarrow> take_pending i (queue s) = None \<Longrightarrow>
    workq_step s (s\<lparr>worker_at := Scanning (Suc i)\<rparr>)"
| call: "worker_at s = Running i t \<Longrightarrow>
    workq_step s (s\<lparr>queue := run_cb (\<lambda>_ w. w) t (queue s)\<rparr>)"
| put: "worker_at s = Running i t \<Longrightarrow>
    workq_step s (s\<lparr>queue := cam_req_mgr_workq_put_task t (queue s), worker_at := Scanning i\<rparr>)"
| finish: "worker_at s = Scanning i \<Longrightarrow> CRM_TASK_PRIORITY_MAX \<le> i \<Longrightarrow> workq_step s (s\<lparr>worker_at := Idle\<rparr>)"

subsection \<open>Where a task is\<close>

definition running :: "worker \<Rightarrow> nat list" where
  "running p = (case p of Running i t \<Rightarrow> [t] | _ \<Rightarrow> [])"

definition places :: "workq_sys \<Rightarrow> nat list" where
  "places s = empty_head (queue s) @ process_head (queue s) 0 @ process_head (queue s) 1 @ held s @ running (worker_at s)"

text \<open>The worker will still look at priority \<open>i\<close>.\<close>

definition covers :: "workq_sys \<Rightarrow> nat \<Rightarrow> bool" where
  "covers s i = (work_pending (queue s) \<or>
     (case worker_at s of Idle \<Rightarrow> False | Scanning j \<Rightarrow> j \<le> i | Running j t \<Rightarrow> j \<le> i))"

definition workq_inv :: "workq_sys \<Rightarrow> bool" where
  "workq_inv s \<longleftrightarrow> mset (places s) = mset [0..<num_task (queue s)] \<and>
     free_cnt (queue s) = int (length (empty_head (queue s))) \<and>
     pending_cnt (queue s) = int (length (process_head (queue s) 0) + length (process_head (queue s) 1)) \<and>
     (\<forall>i < CRM_TASK_PRIORITY_MAX. process_head (queue s) i \<noteq> [] \<longrightarrow> covers s i) \<and>
     (\<forall>i t. worker_at s = Running i t \<longrightarrow> i < CRM_TASK_PRIORITY_MAX)"

lemma all_prio: "(\<forall>i < CRM_TASK_PRIORITY_MAX. P i) \<longleftrightarrow> P 0 \<and> P 1"
  by (auto simp: less_2_cases_iff)

lemma workq_invI:
  assumes "mset (places s) = mset [0..<num_task (queue s)]"
    "free_cnt (queue s) = int (length (empty_head (queue s)))"
    "pending_cnt (queue s) = int (length (process_head (queue s) 0) + length (process_head (queue s) 1))"
    "process_head (queue s) 0 \<noteq> [] \<Longrightarrow> covers s 0" "process_head (queue s) 1 \<noteq> [] \<Longrightarrow> covers s 1"
    "\<And>i t. worker_at s = Running i t \<Longrightarrow> i < CRM_TASK_PRIORITY_MAX"
  shows "workq_inv s"
  using assms by (auto simp: workq_inv_def all_prio)

lemma places_distinct: "workq_inv s \<Longrightarrow> distinct (places s)"
  unfolding workq_inv_def by (metis distinct_upt mset_eq_imp_distinct_iff)

text \<open>A task a client or the worker has is in none of the lists, so giving it back appends it.\<close>

lemma put_task_out:
  assumes "t \<notin> set (empty_head w)" "t \<notin> set (process_head w 0)" "t \<notin> set (process_head w 1)"
  shows "empty_head (cam_req_mgr_workq_put_task t w) = empty_head w @ [t]"
    "i < CRM_TASK_PRIORITY_MAX \<Longrightarrow> process_head (cam_req_mgr_workq_put_task t w) i = process_head w i"
    "free_cnt (cam_req_mgr_workq_put_task t w) = free_cnt w + 1"
    "pending_cnt (cam_req_mgr_workq_put_task t w) = pending_cnt w"
    "num_task (cam_req_mgr_workq_put_task t w) = num_task w"
    "work_pending (cam_req_mgr_workq_put_task t w) = work_pending w"
    "ran (cam_req_mgr_workq_put_task t w) = ran w" "job (cam_req_mgr_workq_put_task t w) = job w"
  using assms
  by (auto simp: cam_req_mgr_workq_put_task_def del_entry_def Let_def less_2_cases_iff)

lemma held_out:
  assumes "workq_inv s" "t \<in> set (held s) \<or> worker_at s = Running i t"
  shows "t \<notin> set (empty_head (queue s))" "t \<notin> set (process_head (queue s) 0)" "t \<notin> set (process_head (queue s) 1)"
  using places_distinct [OF assms(1)] assms(2) by (auto simp: places_def running_def)

lemma run_cb_id [simp]:
  "empty_head (run_cb (\<lambda>_ w. w) t w) = empty_head w" "process_head (run_cb (\<lambda>_ w. w) t w) = process_head w"
  "free_cnt (run_cb (\<lambda>_ w. w) t w) = free_cnt w" "pending_cnt (run_cb (\<lambda>_ w. w) t w) = pending_cnt w"
  "num_task (run_cb (\<lambda>_ w. w) t w) = num_task w" "work_pending (run_cb (\<lambda>_ w. w) t w) = work_pending w"
  "pool (run_cb (\<lambda>_ w. w) t w) = pool w" "job (run_cb (\<lambda>_ w. w) t w) = job w"
  by (simp_all add: run_cb_def Let_def)

lemma enqueue_cases:
  assumes "cam_req_mgr_workq_enqueue_task (Some t) priv prio (Some w) = (Some w', r)"
  obtains (cancelled) "cancel (pool w t) = 1" "w' = cam_req_mgr_workq_put_task t w" "r = Ok ()"
  | (dead) p where "\<not> job w" "r = Err EINVAL" "w' = w\<lparr>pool := p\<rparr>"
  | (queued) p i where "i < CRM_TASK_PRIORITY_MAX" "r = Ok ()" "job w"
      "w' = w\<lparr>pool := p, process_head := (process_head w)(i := process_head w i @ [t]),
         pending_cnt := pending_cnt w + 1, work_pending := True\<rparr>"
proof -
  define i where "i = (if prio < 2 \<and> prio \<ge> 0 then nat prio else 0)"
  define p where "p = (pool w)(t := (pool w t)\<lparr>task_priv := priv, priority := i\<rparr>)"
  have lt: "i < CRM_TASK_PRIORITY_MAX" by (auto simp: i_def)
  have run: "cam_req_mgr_workq_enqueue_task (Some t) priv prio (Some w) =
    (if cancel (pool w t) = 1 then (Some (cam_req_mgr_workq_put_task t w), Ok ())
     else if \<not> job w then (Some (w\<lparr>pool := p\<rparr>), Err EINVAL)
     else (Some (w\<lparr>pool := p, process_head := (process_head w)(i := process_head w i @ [t]),
         pending_cnt := pending_cnt w + 1, work_pending := True\<rparr>), Ok ()))"
    by (simp add: cam_req_mgr_workq_enqueue_task_def Let_def i_def p_def)
  show thesis
  proof (cases "cancel (pool w t) = 1")
    case True
    then show thesis using cancelled run assms by simp
  next
    case False
    then show thesis using dead [of p] queued [OF lt, of p] run assms by (cases "job w") simp_all
  qed
qed

lemmas places_simps = places_def running_def covers_def

lemma get_inv:
  assumes inv: "workq_inv s" and "cam_req_mgr_workq_get_task (Some (queue s)) = (Some w, Some t)"
  shows "workq_inv (s\<lparr>queue := w, held := t # held s\<rparr>)"
proof -
  obtain rest where "empty_head (queue s) = t # rest" "w = (queue s)\<lparr>free_cnt := free_cnt (queue s) - 1, empty_head := rest\<rparr>"
    using assms(2) by (auto simp: cam_req_mgr_workq_get_task_def split: list.splits)
  then show ?thesis using inv by (auto simp: workq_inv_def places_simps all_prio split: worker.splits)
qed

lemma give_back_inv:
  assumes inv: "workq_inv s" and "t \<in> set (held s)"
  shows "workq_inv (s\<lparr>queue := cam_req_mgr_workq_put_task t (queue s), held := remove1 t (held s)\<rparr>)"
  using inv assms(2) put_task_out [OF held_out [OF inv, of t]]
  by (intro workq_invI) (auto simp: workq_inv_def places_simps all_prio mset_remove1 split: worker.splits)

lemma put_inv:
  assumes inv: "workq_inv s" and "worker_at s = Running i t"
  shows "workq_inv (s\<lparr>queue := cam_req_mgr_workq_put_task t (queue s), worker_at := Scanning i\<rparr>)"
  using inv assms(2) put_task_out [OF held_out [OF inv, of t i]]
  by (intro workq_invI) (auto simp: workq_inv_def places_simps all_prio split: worker.splits)

lemma queued_inv:
  assumes inv: "workq_inv s" and "t \<in> set (held s)" "i < CRM_TASK_PRIORITY_MAX"
  shows "workq_inv (s\<lparr>queue := (queue s)\<lparr>pool := p, process_head := (process_head (queue s))(i := process_head (queue s) i @ [t]),
         pending_cnt := pending_cnt (queue s) + 1, work_pending := True\<rparr>, held := remove1 t (held s)\<rparr>)"
  using assms
  by (intro workq_invI) (auto simp: workq_inv_def places_simps less_2_cases_iff mset_remove1 split: worker.splits)

lemma take_inv:
  assumes inv: "workq_inv s" and "worker_at s = Scanning i" "i < CRM_TASK_PRIORITY_MAX" "take_pending i (queue s) = Some (t, w)"
  shows "workq_inv (s\<lparr>queue := w, worker_at := Running i t\<rparr>)"
proof -
  obtain rest where "process_head (queue s) i = t # rest"
    "w = (queue s)\<lparr>pending_cnt := pending_cnt (queue s) - 1, process_head := (process_head (queue s))(i := rest)\<rparr>"
    using assms(4) by (auto simp: take_pending_def split: list.splits)
  then show ?thesis using assms(1-3)
    by (intro workq_invI) (auto simp: workq_inv_def places_simps less_2_cases_iff split: worker.splits)
qed

lemma workq_step_inv:
  assumes inv: "workq_inv s" and step: "workq_step s s'"
  shows "workq_inv s'"
  using step
proof cases
  case (get w t)
  then show ?thesis using get_inv [OF inv] by simp
next
  case (get_empty w)
  then have "w = queue s" by (auto simp: cam_req_mgr_workq_get_task_def split: list.splits)
  then show ?thesis using inv get_empty by simp
next
  case (fill t x)
  then show ?thesis using inv by (auto simp: workq_inv_def places_simps all_prio)
next
  case (enqueue t priv prio w)
  from enqueue(3) show ?thesis
  proof (cases rule: enqueue_cases)
    case cancelled
    then show ?thesis using enqueue give_back_inv [OF inv] by simp
  next
    case (queued p i)
    then show ?thesis using enqueue queued_inv [OF inv enqueue(2)] by simp
  qed (use enqueue in simp)
next
  case (enqueue_fails t priv prio w e)
  from enqueue_fails(3) show ?thesis
    by (cases rule: enqueue_cases) (use inv enqueue_fails in \<open>auto simp: workq_inv_def places_simps all_prio\<close>)
next
  case start
  then show ?thesis using inv by (auto simp: workq_inv_def places_simps all_prio)
next
  case (take_task i t w)
  then show ?thesis using take_inv [OF inv] by simp
next
  case (next_prio i)
  then have "process_head (queue s) i = []" by (simp add: take_pending_def split: list.splits)
  then show ?thesis using inv next_prio by (auto simp: workq_inv_def places_simps less_2_cases_iff)
next
  case (call i t)
  then show ?thesis using inv by (auto simp: workq_inv_def places_simps all_prio)
next
  case (put i t)
  then show ?thesis using put_inv [OF inv] by simp
next
  case (finish i)
  then show ?thesis using inv by (auto simp: workq_inv_def places_simps all_prio)
qed

text \<open>A fresh queue has the whole pool in its free list, in order.\<close>

lemma fold_put_task:
  assumes "empty_head w = [0..<m]" "process_head w = (\<lambda>_. [])" "m \<le> n"
  shows "empty_head (fold cam_req_mgr_workq_put_task [m..<n] w) = [0..<n]"
    "process_head (fold cam_req_mgr_workq_put_task [m..<n] w) = (\<lambda>_. [])"
    "free_cnt (fold cam_req_mgr_workq_put_task [m..<n] w) = free_cnt w + int (n - m)"
    "pending_cnt (fold cam_req_mgr_workq_put_task [m..<n] w) = pending_cnt w"
    "num_task (fold cam_req_mgr_workq_put_task [m..<n] w) = num_task w"
    "job (fold cam_req_mgr_workq_put_task [m..<n] w) = job w"
    "ran (fold cam_req_mgr_workq_put_task [m..<n] w) = ran w"
    "work_pending (fold cam_req_mgr_workq_put_task [m..<n] w) = work_pending w"
proof -
  have "let v = fold cam_req_mgr_workq_put_task [m..<n] w in
    empty_head v = [0..<n] \<and> process_head v = (\<lambda>_. []) \<and> free_cnt v = free_cnt w + int (n - m) \<and>
    pending_cnt v = pending_cnt w \<and> num_task v = num_task w \<and> job v = job w \<and> ran v = ran w \<and> work_pending v = work_pending w"
    using assms(3)
  proof (induction n rule: dec_induct)
    case base
    then show ?case using assms by simp
  next
    case (step n)
    then show ?case by (simp add: Let_def cam_req_mgr_workq_put_task_def del_entry_def)
  qed
  then show "empty_head (fold cam_req_mgr_workq_put_task [m..<n] w) = [0..<n]"
    "process_head (fold cam_req_mgr_workq_put_task [m..<n] w) = (\<lambda>_. [])"
    "free_cnt (fold cam_req_mgr_workq_put_task [m..<n] w) = free_cnt w + int (n - m)"
    "pending_cnt (fold cam_req_mgr_workq_put_task [m..<n] w) = pending_cnt w"
    "num_task (fold cam_req_mgr_workq_put_task [m..<n] w) = num_task w"
    "job (fold cam_req_mgr_workq_put_task [m..<n] w) = job w"
    "ran (fold cam_req_mgr_workq_put_task [m..<n] w) = ran w"
    "work_pending (fold cam_req_mgr_workq_put_task [m..<n] w) = work_pending w"
    by (simp_all add: Let_def)
qed

definition workq_init :: "workq_sys \<Rightarrow> bool" where
  "workq_init s \<longleftrightarrow> (\<exists>n irq jobs jobs'. cam_req_mgr_workq_create True True True n irq jobs None = (jobs', Some (queue s), Ok ())) \<and>
     worker_at s = Idle \<and> held s = []"

lemma workq_init_inv: "workq_init s \<Longrightarrow> workq_inv s"
  by (intro workq_invI)
    (auto simp: workq_init_def cam_req_mgr_workq_create_def Let_def places_simps dest!: sym [of _ "queue s"]
      simp: fold_put_task [where m = 0, simplified])

interpretation tasks: machine workq_init workq_step workq_inv
  by unfold_locales (auto intro: workq_init_inv workq_step_inv)

text \<open>
  C26: whatever clients and the worker do in whatever order, every task of the pool is in exactly one
  place: free, pending at one priority, in the hands of a client, or being run; and the counters
  count the lists.
\<close>

theorem workq_conserves_tasks:
  assumes "workq_init s0" "workq_step\<^sup>*\<^sup>* s0 s"
  shows "mset (empty_head (queue s) @ process_head (queue s) 0 @ process_head (queue s) 1 @ held s @
      (case worker_at s of Running i t \<Rightarrow> [t] | _ \<Rightarrow> [])) = mset [0..<num_task (queue s)] \<and>
    free_cnt (queue s) = int (length (empty_head (queue s))) \<and>
    pending_cnt (queue s) = int (length (process_head (queue s) 0) + length (process_head (queue s) 1))"
  using tasks.reachable_inv [OF assms] by (simp add: workq_inv_def places_def running_def)

text \<open>
  C27: no enqueued task is forgotten: when the worker has nothing scheduled and is not running, no
  task is pending, even if tasks were enqueued while it was finishing.
\<close>

theorem workq_no_lost_task:
  assumes "workq_init s0" "workq_step\<^sup>*\<^sup>* s0 s" "worker_at s = Idle" "\<not> work_pending (queue s)"
  shows "process_head (queue s) 0 = [] \<and> process_head (queue s) 1 = [] \<and>
    length (empty_head (queue s)) + length (held s) = num_task (queue s)"
proof -
  have inv: "workq_inv s" using tasks.reachable_inv [OF assms(1,2)] .
  then have p: "process_head (queue s) 0 = []" "process_head (queue s) 1 = []"
    using assms(3,4) by (auto simp: workq_inv_def covers_def all_prio)
  have "mset (places s) = mset [0..<num_task (queue s)]" using inv by (simp add: workq_inv_def)
  then have "length (places s) = num_task (queue s)" by (metis size_mset length_upt diff_zero)
  with p assms(3) show ?thesis by (simp add: places_def running_def)
qed

subsection \<open>A run of the worker\<close>

text \<open>The callbacks a list of tasks gives rise to, in order.\<close>

definition calls :: "workq \<Rightarrow> nat list \<Rightarrow> (ptr \<times> ptr \<times> ptr) list" where
  "calls w ts = map (\<lambda>t. (process_cb (pool w t), task_priv (pool w t), payload (pool w t)))
     (filter (\<lambda>t. process_cb (pool w t) \<noteq> 0) ts)"

lemma put_task_pool:
  "u \<noteq> t \<Longrightarrow> pool (cam_req_mgr_workq_put_task t w) u = pool w u"
  by (simp add: cam_req_mgr_workq_put_task_def del_entry_def Let_def)

lemma calls_cong: "(\<And>t. t \<in> set ts \<Longrightarrow> pool w t = pool w' t) \<Longrightarrow> calls w ts = calls w' ts"
  by (induction ts) (auto simp: calls_def)

lemma process_prio_step:
  assumes "process_head w i = t # ts"
  shows "process_prio (Suc n) cb i w = process_prio n cb i (fst (cam_req_mgr_process_task cb (Some t)
     (w\<lparr>pending_cnt := pending_cnt w - 1, process_head := (process_head w)(i := ts)\<rparr>)))"
  using assms by (subst process_prio.simps) (simp add: take_pending_def)

lemma process_prio_drains:
  assumes cb: "\<And>t w. cb t w = w"
    and "process_head w i = ts" "i < CRM_TASK_PRIORITY_MAX" "length ts \<le> fuel"
    and "distinct (ts @ empty_head w @ process_head w (1 - i))"
  shows "\<exists>w'. process_prio fuel cb i w = Some w' \<and> process_head w' i = [] \<and>
    process_head w' (1 - i) = process_head w (1 - i) \<and> empty_head w' = empty_head w @ ts \<and>
    pending_cnt w' = pending_cnt w - int (length ts) \<and> free_cnt w' = free_cnt w + int (length ts) \<and>
    ran w' = ran w @ calls w ts \<and> (\<forall>u. u \<notin> set ts \<longrightarrow> pool w' u = pool w u)"
  using assms(2-)
proof (induction ts arbitrary: w fuel)
  case Nil
  then show ?case by (subst process_prio.simps) (simp add: take_pending_def calls_def)
next
  case (Cons t ts)
  obtain n where n: "fuel = Suc n" "length ts \<le> n" using Cons.prems(3) by (cases fuel) auto
  define w1 where "w1 = w\<lparr>pending_cnt := pending_cnt w - 1, process_head := (process_head w)(i := ts)\<rparr>"
  define w2 where "w2 = fst (cam_req_mgr_process_task cb (Some t) w1)"
  have i: "i = 0 \<or> i = 1" using Cons.prems(2) by auto
  have out: "t \<notin> set (empty_head w1)" "t \<notin> set (process_head w1 0)" "t \<notin> set (process_head w1 1)"
    using Cons.prems i by (auto simp: w1_def)
  have "process_prio fuel cb i w = process_prio n cb i w2"
    using process_prio_step [OF Cons.prems(1)] n by (simp add: w1_def w2_def)
  moreover have r: "empty_head (run_cb cb t w1) = empty_head w1" "process_head (run_cb cb t w1) = process_head w1"
     "free_cnt (run_cb cb t w1) = free_cnt w1" "pending_cnt (run_cb cb t w1) = pending_cnt w1" "pool (run_cb cb t w1) = pool w1"
     "ran (run_cb cb t w1) = ran w1 @ calls w1 [t]"
    by (simp_all add: run_cb_def Let_def cb calls_def)
  have p: "empty_head w2 = empty_head w @ [t]" "process_head w2 i = ts" "process_head w2 (1 - i) = process_head w (1 - i)"
     "free_cnt w2 = free_cnt w + 1" "pending_cnt w2 = pending_cnt w - 1" "ran w2 = ran w @ calls w [t]"
    using put_task_out [of t "run_cb cb t w1"] out r i
    by (auto simp: w2_def cam_req_mgr_process_task_def w1_def calls_def)
  have pool: "pool w2 u = pool w u" if "u \<noteq> t" for u
    using put_task_pool [OF that, of "run_cb cb t w1"] r by (simp add: w2_def cam_req_mgr_process_task_def w1_def)
  have "t \<notin> set ts" using Cons.prems(4) by simp
  then have "calls w2 ts = calls w ts" using pool by (intro calls_cong) metis
  moreover have "calls w (t # ts) = calls w [t] @ calls w ts" by (simp add: calls_def)
  moreover note Cons.IH [of w2 n] n Cons.prems(2,4) p pool
  ultimately show ?case by auto
qed

text \<open>
  C28: a run of the worker over callbacks that do not touch the queue ends, after it has called the
  handlers of all pending tasks, those of priority 0 first and each list in the order of enqueueing;
  all of these tasks are back in the pool.
\<close>

theorem process_workq_drains:
  assumes cb: "\<And>t w. cb t w = w"
    and d: "distinct (process_head w 0 @ process_head w 1 @ empty_head w)"
    and "length (process_head w 0) \<le> fuel" "length (process_head w 1) \<le> fuel"
  shows "\<exists>w'. cam_req_mgr_process_workq fuel cb (Some w) = Some (Some w') \<and>
    process_head w' 0 = [] \<and> process_head w' 1 = [] \<and>
    empty_head w' = empty_head w @ process_head w 0 @ process_head w 1 \<and>
    ran w' = ran w @ calls w (process_head w 0) @ calls w (process_head w 1)"
proof -
  define w0 where "w0 = w\<lparr>work_pending := False\<rparr>"
  have "\<exists>w1. process_prio fuel cb 0 w0 = Some w1 \<and> process_head w1 0 = [] \<and>
    process_head w1 (1 - 0) = process_head w0 (1 - 0) \<and> empty_head w1 = empty_head w0 @ process_head w0 0 \<and>
    pending_cnt w1 = pending_cnt w0 - int (length (process_head w0 0)) \<and> free_cnt w1 = free_cnt w0 + int (length (process_head w0 0)) \<and>
    ran w1 = ran w0 @ calls w0 (process_head w0 0) \<and> (\<forall>u. u \<notin> set (process_head w0 0) \<longrightarrow> pool w1 u = pool w0 u)"
    using d assms(3) by (intro process_prio_drains [OF cb]) (auto simp: w0_def)
  then obtain w1 where w1: "process_prio fuel cb 0 w0 = Some w1" "process_head w1 0 = []" "process_head w1 1 = process_head w 1"
    "empty_head w1 = empty_head w @ process_head w 0" "ran w1 = ran w @ calls w (process_head w 0)"
    "\<forall>u. u \<notin> set (process_head w 0) \<longrightarrow> pool w1 u = pool w u"
    by (auto simp: w0_def calls_def)
  have "\<exists>w2. process_prio fuel cb 1 w1 = Some w2 \<and> process_head w2 1 = [] \<and>
    process_head w2 (1 - 1) = process_head w1 (1 - 1) \<and> empty_head w2 = empty_head w1 @ process_head w1 1 \<and>
    pending_cnt w2 = pending_cnt w1 - int (length (process_head w1 1)) \<and> free_cnt w2 = free_cnt w1 + int (length (process_head w1 1)) \<and>
    ran w2 = ran w1 @ calls w1 (process_head w1 1) \<and> (\<forall>u. u \<notin> set (process_head w1 1) \<longrightarrow> pool w2 u = pool w1 u)"
    using d assms(4) w1 by (intro process_prio_drains [OF cb]) auto
  moreover have "calls w1 (process_head w 1) = calls w (process_head w 1)"
    using d w1(6) by (intro calls_cong) auto
  moreover have "[CRM_TASK_PRIORITY_0..<CRM_TASK_PRIORITY_MAX] = [0, 1]" by (simp add: upt_rec)
  ultimately show ?thesis using w1 by (auto simp: cam_req_mgr_process_workq_def simp flip: w0_def)
qed

subsection \<open>Creation and a small run\<close>

text \<open>
  creating a queue gives it the whole pool as free tasks; when only the allocation of the pool
  fails, the call reports \<^verbatim>\<open>ENOMEM\<close> and leaves no queue, but the kernel work queue it had allocated
  stays allocated.
\<close>

theorem workq_create_result:
  "(\<exists>w. cam_req_mgr_workq_create True True True n irq jobs None = (jobs + 1, Some w, Ok ()) \<and>
     empty_head w = [0..<n] \<and> free_cnt w = int n \<and> pending_cnt w = 0 \<and> job w) \<and>
   cam_req_mgr_workq_create True True False n irq jobs None = (jobs + 1, None, Err ENOMEM)"
  by (simp add: cam_req_mgr_workq_create_def Let_def fold_put_task [where m = 0, simplified])

definition demo_workq :: workq where
  "demo_workq = the (fst (snd (cam_req_mgr_workq_create True True True 3 False 0 None)))"

definition demo_task :: crm_workq_task where
  "demo_task = \<lparr>priority = 0, payload = 5, process_cb = 6, cancel = 0, task_priv = 0\<rparr>"

definition demo_pending :: workq where
  "demo_pending = demo_workq\<lparr>empty_head := [2], process_head := (\<lambda>i. if i = 0 then [1] else if i = 1 then [0] else []),
     pool := (\<lambda>_. demo_task), pending_cnt := 2, free_cnt := 1\<rparr>"

lemma demo_workq_init: "workq_init \<lparr>queue = demo_workq, worker_at = Idle, held = []\<rparr>"
  by (auto simp: workq_init_def demo_workq_def cam_req_mgr_workq_create_def Let_def)

theorem workq_conserves_tasks_witness:
  "mset (empty_head demo_workq @ process_head demo_workq 0 @ process_head demo_workq 1) = mset [0..<num_task demo_workq]"
  using workq_conserves_tasks [OF demo_workq_init rtranclp.rtrancl_refl] by simp

theorem workq_no_lost_task_witness:
  "process_head demo_workq 0 = [] \<and> length (empty_head demo_workq) = num_task demo_workq"
proof -
  have "\<not> work_pending demo_workq"
    by (simp add: demo_workq_def cam_req_mgr_workq_create_def Let_def fold_put_task [where m = 0, simplified])
  then show ?thesis
    using workq_no_lost_task [OF demo_workq_init rtranclp.rtrancl_refl] by simp
qed

theorem process_workq_drains_witness:
  "\<exists>w'. cam_req_mgr_process_workq 1 (\<lambda>_ w. w) (Some demo_pending) = Some (Some w') \<and>
    empty_head w' = [2, 1, 0] \<and> ran w' = ran demo_pending @ [(6, 0, 5), (6, 0, 5)]"
  using process_workq_drains [of "\<lambda>_ w. w" demo_pending 1]
  by (auto simp: demo_pending_def calls_def demo_task_def)

end
