(* ===== verification/Cam_Crm.thy ===== *)
theory Cam_Crm
  imports Cam_Hdl_Table Cam_Workq
begin

text \<open>
  The data of the request manager, \<^verbatim>\<open>drivers/cam_req_mgr/cam_req_mgr_core.h\<close> and
  \<^verbatim>\<open>cam_req_mgr_interface.h\<close>, and the functions of \<^verbatim>\<open>cam_req_mgr_core.c\<close> that work on one link: the
  input queue of requests, one table per pipeline delay that tracks which devices have a request,
  the traversal that decides whether a request can be applied, and the call of the devices.

  \<^item> A link's tables form a singly linked list; it is the list \<open>l_tbl\<close> here, in the order of the
    \<^verbatim>\<open>next\<close> pointers. No two tables of a link have the same delay, so a pointer to a table is the
    delay it is for.
  \<^item> Slot arrays are functions on indices. Indices, delays, counters and request ids are signed in
    the code and \<open>int\<close> here; that the indices stay inside the arrays is proved.
  \<^item> The operations of a device are functions of the number of calls made to devices before and of
    the argument, so that a device may answer anything; \<open>dev_call\<close> records the calls.
  \<^item> A return code is an \<open>int\<close>, as in the code, because a device's code is passed on.
\<close>

subsection \<open>Constants\<close>

abbreviation MAX_REQ_SLOTS :: int where "MAX_REQ_SLOTS \<equiv> 48"
abbreviation CAM_PIPELINE_DELAY_0 :: int where "CAM_PIPELINE_DELAY_0 \<equiv> 0"
abbreviation CAM_PIPELINE_DELAY_MAX :: int where "CAM_PIPELINE_DELAY_MAX \<equiv> 3"
abbreviation CAM_TRIGGER_POINT_SOF :: u32 where "CAM_TRIGGER_POINT_SOF \<equiv> 1"
abbreviation CAM_TRIGGER_POINT_EOF :: u32 where "CAM_TRIGGER_POINT_EOF \<equiv> 2"
abbreviation CAM_REQ_MGR_SYNC_MODE_NO_SYNC :: int where "CAM_REQ_MGR_SYNC_MODE_NO_SYNC \<equiv> 0"
abbreviation CAM_REQ_MGR_SYNC_MODE_SYNC :: int where "CAM_REQ_MGR_SYNC_MODE_SYNC \<equiv> 1"
abbreviation SKIP_NEXT_FRAME :: u32 where "SKIP_NEXT_FRAME \<equiv> 0x100"
abbreviation DEFAULT_FRAME_DURATION :: u64 where "DEFAULT_FRAME_DURATION \<equiv> 33333333"

subsection \<open>Data\<close>

datatype crm_req_state =
  CRM_REQ_STATE_EMPTY | CRM_REQ_STATE_PENDING | CRM_REQ_STATE_READY | CRM_REQ_STATE_INVALID

datatype crm_slot_status =
  CRM_SLOT_STATUS_NO_REQ | CRM_SLOT_STATUS_REQ_ADDED | CRM_SLOT_STATUS_REQ_PENDING
| CRM_SLOT_STATUS_REQ_APPLIED | CRM_SLOT_STATUS_INVALID

datatype cam_req_mgr_link_state =
  CAM_CRM_LINK_STATE_AVAILABLE | CAM_CRM_LINK_STATE_IDLE | CAM_CRM_LINK_STATE_READY
| CAM_CRM_LINK_STATE_ERR | CAM_CRM_LINK_STATE_MAX

datatype cam_req_mgr_device_error =
  CRM_KMD_ERR_NOT_FOUND | CRM_KMD_ERR_BUBBLE | CRM_KMD_ERR_FATAL | CRM_KMD_ERR_PAGE_FAULT
| CRM_KMD_ERR_OVERFLOW | CRM_KMD_ERR_TIMEOUT | CRM_KMD_ERR_MAX

datatype cam_req_mgr_link_evt_type =
  CAM_REQ_MGR_LINK_EVT_ERR | CAM_REQ_MGR_LINK_EVT_PAUSE | CAM_REQ_MGR_LINK_EVT_RESUME
| CAM_REQ_MGR_LINK_EVT_SOF_FREEZE | CAM_REQ_MGR_LINK_EVT_MAX

record cam_req_mgr_apply =
  ap_idx :: int
  ap_pd :: int
  ap_req_id :: int
  ap_skip_idx :: int

record cam_req_mgr_tbl_slot =
  ts_idx :: int
  req_ready_map :: u32
  ts_state :: crm_req_state
  inject_delay :: u32
  ts_dev_hdl :: u32
  skip_next_frame :: bool
  is_applied :: bool

record cam_req_mgr_req_tbl =
  tbl_id :: int
  pd :: int
  dev_count :: int
  dev_mask :: u32
  skip_traverse :: int
  pd_delta :: int
  tbl_num_slots :: int
  tbl_slot :: "int \<Rightarrow> cam_req_mgr_tbl_slot"

record cam_req_mgr_slot =
  sl_idx :: int
  skip_idx :: int
  status :: crm_slot_status
  recover :: int
  req_id :: int
  sync_mode :: int

record cam_req_mgr_req_queue =
  num_slots :: int
  slot :: "int \<Rightarrow> cam_req_mgr_slot"
  rd_idx :: int
  wr_idx :: int
  last_applied_idx :: int

text \<open>\<open>in_q_alloc\<close> is false when the pointer to the queue is \<^verbatim>\<open>NULL\<close>.\<close>

record cam_req_mgr_req_data =
  in_q_alloc :: bool
  in_q :: cam_req_mgr_req_queue
  l_tbl :: "cam_req_mgr_req_tbl list"
  num_tbl :: int
  apply_data :: "int \<Rightarrow> cam_req_mgr_apply"

record cam_req_mgr_device_info =
  di_dev_hdl :: u32
  di_name :: string
  di_dev_id :: nat
  p_delay :: int
  trigger :: u32

record cam_req_mgr_apply_request =
  ar_link_hdl :: u32
  ar_dev_hdl :: u32
  request_id :: int
  report_if_bubble :: int
  trigger_point :: u32

record cam_req_mgr_link_evt_data =
  ev_link_hdl :: u32
  ev_dev_hdl :: u32
  ev_req_id :: int
  evt_type :: cam_req_mgr_link_evt_type
  ev_error :: cam_req_mgr_device_error

record cam_req_mgr_flush_request =
  fl_link_hdl :: u32
  fl_dev_hdl :: u32
  fl_type :: u32
  fl_req_id :: int

record cam_req_mgr_core_dev_link_setup =
  link_enable :: int
  ls_link_hdl :: u32
  ls_dev_hdl :: u32
  ls_max_delay :: int
  ls_subscribe_event :: u32

record cam_req_mgr_dump_info =
  du_req_id :: int
  du_link_hdl :: u32
  du_dev_hdl :: u32
  du_buf_handle :: u32
  du_offset :: int

datatype dev_call =
  Apply_req cam_req_mgr_apply_request | Process_evt cam_req_mgr_link_evt_data
| Flush_req cam_req_mgr_flush_request | Link_setup cam_req_mgr_core_dev_link_setup
| Dump_req cam_req_mgr_dump_info

record cam_req_mgr_kmd_ops =
  get_dev_info :: "(cam_req_mgr_device_info \<Rightarrow> cam_req_mgr_device_info \<times> int) option"
  link_setup :: "(nat \<Rightarrow> cam_req_mgr_core_dev_link_setup \<Rightarrow> int) option"
  apply_req :: "(nat \<Rightarrow> cam_req_mgr_apply_request \<Rightarrow> int) option"
  flush_req :: "(nat \<Rightarrow> cam_req_mgr_flush_request \<Rightarrow> int) option"
  process_evt :: "(nat \<Rightarrow> cam_req_mgr_link_evt_data \<Rightarrow> int) option"
  dump_req :: "(nat \<Rightarrow> cam_req_mgr_dump_info \<Rightarrow> cam_req_mgr_dump_info) option"

record cam_req_mgr_connected_device =
  cd_dev_hdl :: u32
  dev_bit :: int
  pd_tbl :: "int option"
  dev_info :: cam_req_mgr_device_info
  ops :: "cam_req_mgr_kmd_ops option"
  cd_parent :: ptr

datatype timer_fn = Fn_crm_timer_callback | Fn_sof_freeze

record cam_req_mgr_timer =
  expires :: int
  tm_parent :: ptr
  timer_cb :: timer_fn
  deadline :: nat

record cam_req_mgr_core_link =
  link_hdl :: u32
  num_devs :: nat
  max_delay :: int
  link_workq :: "workq option"
  pd_mask :: u32
  l_dev :: "cam_req_mgr_connected_device list"
  req :: cam_req_mgr_req_data
  watchdog :: "cam_req_mgr_timer option"
  workq_comp :: nat
  link_state :: cam_req_mgr_link_state
  link_parent :: ptr
  subscribe_event :: u32
  trigger_mask :: u32
  sync_link :: ptr
  sync_link_sof_skip :: bool
  open_req_cnt :: int
  last_flush_id :: u32
  is_used :: bool
  is_master :: bool
  initial_skip :: bool
  in_msync_mode :: bool
  initial_sync_req :: int
  sof_timestamp :: u64
  prev_sof_timestamp :: u64

text \<open>The devices of a link: the first \<open>num_devs\<close> of the array.\<close>

abbreviation devs :: "cam_req_mgr_core_link \<Rightarrow> cam_req_mgr_connected_device list" where
  "devs lk \<equiv> take (num_devs lk) (l_dev lk)"

abbreviation queue :: "cam_req_mgr_core_link \<Rightarrow> cam_req_mgr_req_queue" where
  "queue lk \<equiv> in_q (req lk)"

abbreviation tbls :: "cam_req_mgr_core_link \<Rightarrow> cam_req_mgr_req_tbl list" where
  "tbls lk \<equiv> l_tbl (req lk)"

definition upd_queue :: "(cam_req_mgr_req_queue \<Rightarrow> cam_req_mgr_req_queue) \<Rightarrow> cam_req_mgr_core_link \<Rightarrow> cam_req_mgr_core_link" where
  "upd_queue f lk = lk\<lparr>req := (req lk)\<lparr>in_q := f (in_q (req lk))\<rparr>\<rparr>"

definition upd_slot :: "int \<Rightarrow> (cam_req_mgr_slot \<Rightarrow> cam_req_mgr_slot) \<Rightarrow> cam_req_mgr_req_queue \<Rightarrow> cam_req_mgr_req_queue" where
  "upd_slot i f q = q\<lparr>slot := (slot q)(i := f (slot q i))\<rparr>"

definition upd_tbls :: "(cam_req_mgr_req_tbl list \<Rightarrow> cam_req_mgr_req_tbl list) \<Rightarrow> cam_req_mgr_core_link \<Rightarrow> cam_req_mgr_core_link" where
  "upd_tbls f lk = lk\<lparr>req := (req lk)\<lparr>l_tbl := f (l_tbl (req lk))\<rparr>\<rparr>"

definition upd_tslot :: "int \<Rightarrow> (cam_req_mgr_tbl_slot \<Rightarrow> cam_req_mgr_tbl_slot) \<Rightarrow> cam_req_mgr_req_tbl \<Rightarrow> cam_req_mgr_req_tbl" where
  "upd_tslot i f t = t\<lparr>tbl_slot := (tbl_slot t)(i := f (tbl_slot t i))\<rparr>"

subsection \<open>Zeroed memory\<close>

definition zero_apply :: cam_req_mgr_apply where
  "zero_apply = \<lparr>ap_idx = 0, ap_pd = 0, ap_req_id = 0, ap_skip_idx = 0\<rparr>"

definition zero_tslot :: cam_req_mgr_tbl_slot where
  "zero_tslot = \<lparr>ts_idx = 0, req_ready_map = 0, ts_state = CRM_REQ_STATE_EMPTY, inject_delay = 0,
     ts_dev_hdl = 0, skip_next_frame = False, is_applied = False\<rparr>"

text \<open>
  A slot of the table a device points to, and an update through that pointer. Once a link is set
  up its devices all have a table, so the last case is never met.
\<close>

definition dev_slot :: "cam_req_mgr_req_tbl list \<Rightarrow> int option \<Rightarrow> int \<Rightarrow> cam_req_mgr_tbl_slot" where
  "dev_slot ts p i =
     (case find (\<lambda>t. Some (pd t) = p) ts of Some t \<Rightarrow> tbl_slot t i | None \<Rightarrow> zero_tslot)"

definition upd_dev_slot ::
  "int option \<Rightarrow> int \<Rightarrow> (cam_req_mgr_tbl_slot \<Rightarrow> cam_req_mgr_tbl_slot) \<Rightarrow> cam_req_mgr_req_tbl list \<Rightarrow> cam_req_mgr_req_tbl list" where
  "upd_dev_slot p i f ts = map (\<lambda>t. if Some (pd t) = p then upd_tslot i f t else t) ts"

definition zero_slot :: cam_req_mgr_slot where
  "zero_slot = \<lparr>sl_idx = 0, skip_idx = 0, status = CRM_SLOT_STATUS_NO_REQ, recover = 0, req_id = 0,
     sync_mode = 0\<rparr>"

definition zero_queue :: cam_req_mgr_req_queue where
  "zero_queue = \<lparr>num_slots = 0, slot = (\<lambda>_. zero_slot), rd_idx = 0, wr_idx = 0, last_applied_idx = 0\<rparr>"

definition zero_device :: cam_req_mgr_connected_device where
  "zero_device = \<lparr>cd_dev_hdl = 0, dev_bit = 0, pd_tbl = None,
     dev_info = \<lparr>di_dev_hdl = 0, di_name = [], di_dev_id = 0, p_delay = 0, trigger = 0\<rparr>, ops = None, cd_parent = 0\<rparr>"

subsection \<open>Indices\<close>

text \<open>C's remainder, which rounds towards zero.\<close>

definition c_rem :: "int \<Rightarrow> int \<Rightarrow> int" where
  "c_rem a b = sgn a * (\<bar>a\<bar> mod \<bar>b\<bar>)"

definition inc_idx :: "int \<Rightarrow> int \<Rightarrow> int \<Rightarrow> int" where
  "inc_idx val step max_val = c_rem (val + step) max_val"

definition dec_idx :: "int \<Rightarrow> int \<Rightarrow> int \<Rightarrow> int" where
  "dec_idx val step max_val = (let v = val - step in if v < 0 then max_val + v else v)"

subsection \<open>Tables\<close>

fun find_pd_tbl :: "cam_req_mgr_req_tbl list \<Rightarrow> int \<Rightarrow> cam_req_mgr_req_tbl option" where
  "find_pd_tbl [] delay = None"
| "find_pd_tbl (tbl # rest) delay = (if delay \<noteq> pd tbl then find_pd_tbl rest delay else Some tbl)"

fun cam_req_mgr_inject_delay :: "cam_req_mgr_req_tbl list \<Rightarrow> int \<Rightarrow> cam_req_mgr_req_tbl list \<times> int" where
  "cam_req_mgr_inject_delay [] curr_idx = ([], 0)"
| "cam_req_mgr_inject_delay (tbl # rest) curr_idx =
     (let delayed = inject_delay (tbl_slot tbl curr_idx) > 0;
          tbl' = if delayed then upd_tslot curr_idx (\<lambda>s. s\<lparr>inject_delay := inject_delay s - 1\<rparr>) tbl else tbl;
          (rest', rc) = cam_req_mgr_inject_delay rest (dec_idx curr_idx (pd_delta tbl) (tbl_num_slots tbl))
      in (tbl' # rest', if delayed then code EAGAIN else rc))"

text \<open>
  The traversal of the tables from the one given on. It returns the tables, the data to apply, the
  mask of tables that agreed and the return code.
\<close>

definition SET_SUCCESS_BIT :: "u32 \<Rightarrow> int \<Rightarrow> u32" where
  "SET_SUCCESS_BIT ret p = ret OR push_bit (nat p) 1"

definition SET_FAILURE_BIT :: "u32 \<Rightarrow> int \<Rightarrow> u32" where
  "SET_FAILURE_BIT ret p = ret AND NOT (push_bit (nat p) 1)"

fun cam_req_mgr_traverse ::
  "cam_req_mgr_req_queue \<Rightarrow> bool \<Rightarrow> cam_req_mgr_req_tbl list \<Rightarrow> int \<Rightarrow> (int \<Rightarrow> cam_req_mgr_apply) \<Rightarrow> u32 \<Rightarrow>
   cam_req_mgr_req_tbl list \<times> (int \<Rightarrow> cam_req_mgr_apply) \<times> u32 \<times> int" where
  "cam_req_mgr_traverse q validate_only [] idx ad result = ([], ad, 0, code EINVAL)"
| "cam_req_mgr_traverse q validate_only (tbl # rest) idx ad result =
     (if ts_state (tbl_slot tbl idx) = CRM_REQ_STATE_READY \<or> skip_idx (slot q idx) = 1 \<or> skip_traverse tbl > 0
      then
        (case (if rest \<noteq> [] then cam_req_mgr_traverse q validate_only rest
                    (dec_idx idx (pd_delta tbl) (tbl_num_slots tbl)) ad result
               else (rest, ad, result, 0)) of
           (rest', ad', result', rc) \<Rightarrow>
             if rc \<ge> 0 then
               (let result'' = SET_SUCCESS_BIT result' (pd tbl) in
                if validate_only then (tbl # rest', ad', result'', 0)
                else
                  (let skip = skip_traverse tbl > 0;
                       a = (ad' (pd tbl))\<lparr>ap_pd := pd tbl,
                              ap_req_id := (if skip then -1 else req_id (slot q idx)), ap_idx := idx\<rparr>;
                       tbl' = if skip then tbl\<lparr>skip_traverse := skip_traverse tbl - 1\<rparr> else tbl
                   in (tbl' # rest', ad'(pd tbl := a), result'', 0)))
             else (tbl # rest', ad', result', rc))
      else (tbl # rest, ad, SET_FAILURE_BIT result (pd tbl), code EAGAIN))"

definition cam_req_mgr_in_q_skip_idx :: "int \<Rightarrow> cam_req_mgr_req_queue \<Rightarrow> cam_req_mgr_req_queue" where
  "cam_req_mgr_in_q_skip_idx idx =
     upd_slot idx (\<lambda>s. s\<lparr>req_id := -1, skip_idx := 1, status := CRM_SLOT_STATUS_REQ_ADDED\<rparr>)"

fun tbl_set_id_from :: "int \<Rightarrow> cam_req_mgr_req_tbl list \<Rightarrow> cam_req_mgr_req_tbl list" where
  "tbl_set_id_from n [] = []"
| "tbl_set_id_from n (tbl # rest) = tbl\<lparr>tbl_id := n\<rparr> # tbl_set_id_from (n + 1) rest"

definition cam_req_mgr_tbl_set_id :: "cam_req_mgr_core_link \<Rightarrow> cam_req_mgr_core_link" where
  "cam_req_mgr_tbl_set_id lk =
     (let n = num_tbl (req lk) in
      (upd_tbls (tbl_set_id_from n) lk)
        \<lparr>req := (req (upd_tbls (tbl_set_id_from n) lk))\<lparr>num_tbl := n + int (length (tbls lk))\<rparr>\<rparr>)"

definition cam_req_mgr_tbl_set_all_skip_cnt :: "cam_req_mgr_req_tbl list \<Rightarrow> cam_req_mgr_req_tbl list" where
  "cam_req_mgr_tbl_set_all_skip_cnt ts =
     (case ts of [] \<Rightarrow> [] | tbl # _ \<Rightarrow> map (\<lambda>t. t\<lparr>skip_traverse := pd tbl - pd t\<rparr>) ts)"

definition cam_req_mgr_reset_req_slot :: "int \<Rightarrow> cam_req_mgr_core_link \<Rightarrow> cam_req_mgr_core_link" where
  "cam_req_mgr_reset_req_slot idx lk =
     (if status (slot (queue lk) idx) = CRM_SLOT_STATUS_REQ_ADDED \<or> last_applied_idx (queue lk) = idx \<or> idx < 0
      then lk
      else
        upd_tbls (map (upd_tslot idx (\<lambda>s. s\<lparr>req_ready_map := 0, ts_state := CRM_REQ_STATE_EMPTY\<rparr>)))
          (upd_queue (upd_slot idx (\<lambda>s. s\<lparr>req_id := -1, skip_idx := 0, recover := 0,
             sync_mode := CAM_REQ_MGR_SYNC_MODE_NO_SYNC, status := CRM_SLOT_STATUS_NO_REQ\<rparr>)) lk))"

definition check_for_lower_pd_devices :: "cam_req_mgr_core_link \<Rightarrow> int" where
  "check_for_lower_pd_devices lk =
     (if list_ex (\<lambda>dev. p_delay (dev_info dev) < max_delay lk) (devs lk) then 0 else code EAGAIN)"

definition check_next_req_slot :: "cam_req_mgr_core_link \<Rightarrow> cam_req_mgr_core_link \<times> int" where
  "check_next_req_slot lk =
     (let q = queue lk; idx = inc_idx (rd_idx q) 1 (num_slots q) in
      if status (slot q idx) = CRM_SLOT_STATUS_NO_REQ then
        (let rc = check_for_lower_pd_devices lk in
         if rc \<noteq> 0 then (lk, rc)
         else (upd_queue (\<lambda>q. (cam_req_mgr_in_q_skip_idx idx q)\<lparr>wr_idx := inc_idx (wr_idx q) 1 (num_slots q)\<rparr>) lk, rc))
      else (lk, 0))"

subsection \<open>Sending a request to the devices\<close>

text \<open>
  The first loop looks for the device that asked to be applied alone and returns when it has been
  served; the second loop serves every device. The state of the loops is the calls made so far, the
  tables, the count of open requests and the last return code.
\<close>

abbreviation has_trigger :: "cam_req_mgr_connected_device \<Rightarrow> u32 \<Rightarrow> bool" where
  "has_trigger dev trg \<equiv> trigger (dev_info dev) AND trg \<noteq> 0"

definition op_of :: "(cam_req_mgr_kmd_ops \<Rightarrow> 'f option) \<Rightarrow> cam_req_mgr_connected_device \<Rightarrow> 'f option" where
  "op_of sel dev = Option.bind (ops dev) sel"

fun send_alone ::
  "cam_req_mgr_core_link \<Rightarrow> u32 \<Rightarrow> cam_req_mgr_connected_device list \<Rightarrow> dev_call list \<Rightarrow> cam_req_mgr_req_tbl list \<Rightarrow>
   dev_call list \<times> cam_req_mgr_req_tbl list \<times> int option" where
  "send_alone lk trg [] cs ts = (cs, ts, None)"
| "send_alone lk trg (dev # rest) cs ts =
     (let p = p_delay (dev_info dev); a = apply_data (req lk) p;
          sl = dev_slot ts (pd_tbl dev) (ap_idx a);
          r = \<lparr>ar_link_hdl = link_hdl lk, ar_dev_hdl = cd_dev_hdl dev, request_id = ap_req_id a,
               report_if_bubble = 0, trigger_point = trg\<rparr> in
      if p \<ge> CAM_PIPELINE_DELAY_MAX then send_alone lk trg rest cs ts
      else if \<not> skip_next_frame sl \<or> ts_dev_hdl sl \<noteq> cd_dev_hdl dev then send_alone lk trg rest cs ts
      else if \<not> has_trigger dev trg then send_alone lk trg rest cs ts
      else
        (case op_of apply_req dev of
           None \<Rightarrow> send_alone lk trg rest cs ts
         | Some f \<Rightarrow>
             (let rc = f (length cs) r in
              if rc \<noteq> 0 then (cs @ [Apply_req r], ts, Some rc)
              else (cs @ [Apply_req r],
                    upd_dev_slot (pd_tbl dev) (ap_idx a) (\<lambda>s. s\<lparr>skip_next_frame := False, is_applied := True\<rparr>) ts,
                    Some (code EAGAIN)))))"

text \<open>The devices that have been told of a request that failed, the last one first.\<close>

definition notify_evt :: "cam_req_mgr_link_evt_data \<Rightarrow> cam_req_mgr_connected_device list \<Rightarrow> dev_call list" where
  "notify_evt e ds =
     map (\<lambda>dev. Process_evt (e\<lparr>ev_dev_hdl := cd_dev_hdl dev\<rparr>)) (filter (\<lambda>dev. op_of process_evt dev \<noteq> None) ds)"

fun send_all ::
  "cam_req_mgr_core_link \<Rightarrow> u32 \<Rightarrow> cam_req_mgr_connected_device list \<Rightarrow> cam_req_mgr_connected_device list \<Rightarrow>
   dev_call list \<times> cam_req_mgr_req_tbl list \<times> int \<times> int \<Rightarrow> dev_call list \<times> cam_req_mgr_req_tbl list \<times> int \<times> int" where
  "send_all lk trg seen [] st = st"
| "send_all lk trg seen (dev # rest) (cs, ts, cnt, rc) =
     (let p = p_delay (dev_info dev); a = apply_data (req lk) p;
          sl = dev_slot ts (pd_tbl dev) (ap_idx a);
          r = \<lparr>ar_link_hdl = link_hdl lk, ar_dev_hdl = cd_dev_hdl dev, request_id = ap_req_id a,
               report_if_bubble = recover (slot (queue lk) (ap_idx a)), trigger_point = trg\<rparr> in
      if p \<ge> CAM_PIPELINE_DELAY_MAX then send_all lk trg (dev # seen) rest (cs, ts, cnt, rc)
      else if ap_skip_idx a \<noteq> 0 \<or> ap_req_id a < 0 then send_all lk trg (dev # seen) rest (cs, ts, cnt, rc)
      else if \<not> has_trigger dev trg then send_all lk trg (dev # seen) rest (cs, ts, cnt, rc)
      else if ts_dev_hdl sl = cd_dev_hdl dev \<and> is_applied sl then
        send_all lk trg (dev # seen) rest
          (cs, upd_dev_slot (pd_tbl dev) (ap_idx a) (\<lambda>s. s\<lparr>is_applied := False\<rparr>) ts, cnt, rc)
      else
        (case op_of apply_req dev of
           None \<Rightarrow> send_all lk trg (dev # seen) rest (cs, ts, cnt, rc)
         | Some f \<Rightarrow>
             (let rc' = f (length cs) r in
              if rc' < 0 then
                (cs @ Apply_req r # notify_evt \<lparr>ev_link_hdl = link_hdl lk, ev_dev_hdl = 0,
                   ev_req_id = request_id r, evt_type = CAM_REQ_MGR_LINK_EVT_ERR,
                   ev_error = CRM_KMD_ERR_BUBBLE\<rparr> (dev # seen), ts, cnt, rc')
              else send_all lk trg (dev # seen) rest
                (cs @ [Apply_req r], ts, if p = max_delay lk then cnt - 1 else cnt, rc'))))"

definition cam_req_mgr_send_req ::
  "u32 \<Rightarrow> dev_call list \<Rightarrow> cam_req_mgr_core_link \<Rightarrow> dev_call list \<times> cam_req_mgr_core_link \<times> int" where
  "cam_req_mgr_send_req trg cs lk =
     (case send_alone lk trg (devs lk) cs (tbls lk) of
        (cs1, ts1, Some rc) \<Rightarrow> (cs1, upd_tbls (\<lambda>_. ts1) lk, rc)
      | (cs1, ts1, None) \<Rightarrow>
          (case send_all lk trg [] (devs lk) (cs1, ts1, open_req_cnt lk, 0) of
             (cs2, ts2, cnt, rc) \<Rightarrow> (cs2, (upd_tbls (\<lambda>_. ts2) lk)\<lparr>open_req_cnt := cnt\<rparr>, rc)))"

subsection \<open>Readiness of a link, and the search of a request\<close>

definition check_link_is_ready :: "int \<Rightarrow> bool \<Rightarrow> cam_req_mgr_core_link \<Rightarrow> cam_req_mgr_core_link \<times> int" where
  "check_link_is_ready idx validate_only lk =
     (let ad = if validate_only then apply_data (req lk)
               else (\<lambda>p. if 0 \<le> p \<and> p < CAM_PIPELINE_DELAY_MAX then zero_apply else apply_data (req lk) p) in
      case cam_req_mgr_traverse (queue lk) validate_only (tbls lk) idx ad 0 of
        (ts, ad', result, rc) \<Rightarrow>
          (lk\<lparr>req := (req lk)\<lparr>l_tbl := ts, apply_data := ad'\<rparr>, initial_skip := False\<rparr>,
           if rc = 0 \<and> result = pd_mask lk then 0 else code EAGAIN))"

text \<open>The search goes backwards from the read index, over \<open>n\<close> slots.\<close>

fun find_slot_from :: "nat \<Rightarrow> cam_req_mgr_req_queue \<Rightarrow> int \<Rightarrow> int \<Rightarrow> int" where
  "find_slot_from 0 q r idx = -1"
| "find_slot_from (Suc n) q r idx =
     (if req_id (slot q idx) = r then idx else find_slot_from n q r (dec_idx idx 1 (num_slots q)))"

definition find_slot_for_req :: "cam_req_mgr_req_queue \<Rightarrow> int \<Rightarrow> int" where
  "find_slot_for_req q r = find_slot_from (nat (num_slots q)) q r (rd_idx q)"

end
