(* ===== verification/Cam_Crm_Process.thy ===== *)
theory Cam_Crm_Process
  imports Cam_Crm
begin

text \<open>
  The request manager at work, \<^verbatim>\<open>drivers/cam_req_mgr/cam_req_mgr_core.c\<close>: the handlers its work queue
  runs for a link (schedule, add, trigger, error, flush) and the checks of links that run in step.

  \<open>crm\<close> is the state of the request manager: the sessions and the links by address, the handle
  table, the payloads of the queued tasks, the messages sent to user space, the calls made to devices,
  and how often \<^verbatim>\<open>crm_lock\<close> is held. A pointer \<^verbatim>\<open>NULL\<close> is 0, so a link that runs in step with no other has
  \<open>sync_link = 0\<close>; two links that are each other's \<open>sync_link\<close>, or one that is its own, are updated
  through the same map.
\<close>

subsection \<open>State\<close>

record cam_req_mgr_trigger_notify =
  tn_link_hdl :: u32
  tn_dev_hdl :: u32
  tn_frame_id :: int
  tn_trigger :: u32
  sof_timestamp_val :: u64
  tn_req_id :: int

record cam_req_mgr_error_notify =
  en_link_hdl :: u32
  en_dev_hdl :: u32
  en_req_id :: int
  en_error :: cam_req_mgr_device_error

record cam_req_mgr_add_request =
  aq_link_hdl :: u32
  aq_dev_hdl :: u32
  aq_req_id :: int
  skip_before_applying :: u32

record cam_req_mgr_sched_request =
  sr_session_hdl :: u32
  sr_link_hdl :: u32
  bubble_enable :: int
  sr_sync_mode :: int
  sr_req_id :: int

record cam_req_mgr_flush_info =
  fi_session_hdl :: u32
  fi_link_hdl :: u32
  flush_type :: u32
  fi_req_id :: int

datatype crm_task_payload =
  Task_none | Task_sched_req cam_req_mgr_sched_request | Task_flush_req cam_req_mgr_flush_info
| Task_dev_add_req cam_req_mgr_add_request | Task_notify_sof cam_req_mgr_trigger_notify
| Task_notify_err cam_req_mgr_error_notify | Task_notify_freeze

record cam_req_mgr_message =
  msg_session_hdl :: u32
  msg_link_hdl :: u32
  msg_request_id :: int

record cam_req_mgr_core_session =
  ses_hdl :: u32
  num_links :: nat
  links :: "nat \<Rightarrow> ptr"
  force_err_recovery :: int
  ses_sync_mode :: int

record crm =
  link_at :: "ptr \<Rightarrow> cam_req_mgr_core_link"
  session_at :: "ptr \<Rightarrow> cam_req_mgr_core_session"
  session_head :: "ptr list"
  hdls :: "hdl_tbl option"
  payload_at :: "ptr \<Rightarrow> crm_task_payload"
  messages :: "cam_req_mgr_message list"
  dev_calls :: "dev_call list"
  crm_lock :: int
  jiffies :: nat

definition upd_link :: "ptr \<Rightarrow> (cam_req_mgr_core_link \<Rightarrow> cam_req_mgr_core_link) \<Rightarrow> crm \<Rightarrow> crm" where
  "upd_link l f s = s\<lparr>link_at := (link_at s)(l := f (link_at s l))\<rparr>"

definition with_link :: "ptr \<Rightarrow> (cam_req_mgr_core_link \<Rightarrow> cam_req_mgr_core_link \<times> int) \<Rightarrow> crm \<Rightarrow> crm \<times> int" where
  "with_link l f s = (case f (link_at s l) of (lk, rc) \<Rightarrow> (upd_link l (\<lambda>_. lk) s, rc))"

definition inject_delay_link :: "int \<Rightarrow> cam_req_mgr_core_link \<Rightarrow> cam_req_mgr_core_link \<times> int" where
  "inject_delay_link idx lk =
     (case cam_req_mgr_inject_delay (tbls lk) idx of (ts, rc) \<Rightarrow> (upd_tbls (\<lambda>_. ts) lk, rc))"

abbreviation skip_sync :: "bool \<Rightarrow> cam_req_mgr_core_link \<Rightarrow> cam_req_mgr_core_link" where
  "skip_sync b lk \<equiv> lk\<lparr>sync_link_sof_skip := b\<rparr>"

subsection \<open>Links that run in step\<close>

text \<open>
  The part both branches of the master/slave check end with: the request the other link must have
  next. \<open>Some rc\<close> is a return from the check.
\<close>

definition sync_peer_ready :: "ptr \<Rightarrow> ptr \<Rightarrow> int \<Rightarrow> crm \<Rightarrow> crm \<times> int option" where
  "sync_peer_ready l y sync_req_id s =
     (let yq = queue (link_at s y); n = num_slots yq; rd = rd_idx yq in
      if initial_sync_req (link_at s y) \<noteq> -1 \<and> initial_sync_req (link_at s y) \<le> sync_req_id then
        (let i = find_slot_for_req yq sync_req_id in
         if i = -1 then (upd_link l (skip_sync True) s, Some (code EINVAL))
         else if status (slot yq i) \<noteq> CRM_SLOT_STATUS_REQ_APPLIED \<and> c_rem (i - rd + n) n \<ge> 1 \<and>
                 status (slot yq rd) \<noteq> CRM_SLOT_STATUS_REQ_APPLIED
         then (s, Some (code EINVAL))
         else
           (case with_link y (check_link_is_ready i True) s of
              (s1, rc) \<Rightarrow>
                if rc \<noteq> 0 \<and> status (slot yq i) \<noteq> CRM_SLOT_STATUS_REQ_APPLIED
                then (upd_link l (skip_sync True) s1, Some rc) else (s1, None)))
      else (s, None))"

text \<open>The delay a device injects, then the readiness of the link itself.\<close>

definition mslave_self_ready :: "ptr \<Rightarrow> int \<Rightarrow> bool \<Rightarrow> crm \<Rightarrow> crm \<times> int option" where
  "mslave_self_ready l idx hold s =
     (case with_link l (inject_delay_link idx) s of
        (s1, rc) \<Rightarrow>
          if rc \<noteq> 0 then (upd_link l (skip_sync True) s1, Some rc)
          else if hold then (s1, Some (code EAGAIN))
          else
            (case with_link l (check_link_is_ready idx True) s1 of
               (s2, rc2) \<Rightarrow>
                 if rc2 \<noteq> 0 then (upd_link l (skip_sync True) s2, Some rc2) else (s2, None)))"

text \<open>
  Links with a master. The delays are unsigned in C: their difference wraps before it is compared with that of the
  request numbers, and becomes signed again where it is a number of steps in the ring.
\<close>

definition check_sync_for_mslave :: "ptr \<Rightarrow> int \<Rightarrow> crm \<Rightarrow> crm \<times> int" where
  "check_sync_for_mslave l i s =
     (let lk = link_at s l; y = sync_link lk; yk = link_at s y; sl = slot (queue lk) i; idx = sl_idx sl in
      if y = 0 then (s, code EINVAL)
      else if sync_link_sof_skip yk then
        (fst (with_link l (inject_delay_link idx) (upd_link y (skip_sync False) s)), code EAGAIN)
      else if in_msync_mode lk \<and> in_msync_mode yk \<and>
              signed_take_bit 63 (req_id sl - req_id (slot (queue yk) (rd_idx (queue yk)))) > (max_delay lk - max_delay yk) mod 2 ^ 32
      then (s, code EINVAL)
      else
        (case (if is_master lk then mslave_self_ready l idx (initial_skip yk) s
               else mslave_self_ready l idx False (upd_link l (\<lambda>lk. lk\<lparr>initial_skip := False\<rparr>) s)) of
           (s1, Some rc) \<Rightarrow> (s1, rc)
         | (s1, None) \<Rightarrow>
             (let j = (if is_master lk then dec_idx idx (max_delay lk - max_delay yk) (num_slots (queue lk))
                       else inc_idx (rd_idx (queue lk)) (max_delay yk - max_delay lk) (num_slots (queue lk))) in
              case sync_peer_ready l y (req_id (slot (queue lk) j)) s1 of
                (s2, Some rc) \<Rightarrow> (s2, rc)
              | (s2, None) \<Rightarrow> (fst (with_link l (check_link_is_ready idx False) s2), 0))))"

text \<open>
  Links without a master. \<open>sync_correct\<close> is the final self-correction by the time stamps: a frame
  to skip, or a frame of the other link to skip.
\<close>

definition frame_duration :: "cam_req_mgr_core_link \<Rightarrow> u64" where
  "frame_duration yk =
     (if prev_sof_timestamp yk \<noteq> 0 then sof_timestamp yk - prev_sof_timestamp yk else DEFAULT_FRAME_DURATION)"

definition sync_correct :: "ptr \<Rightarrow> int \<Rightarrow> cam_req_mgr_core_link \<Rightarrow> crm \<Rightarrow> crm \<times> int option" where
  "sync_correct l r yk s =
     (let t = sof_timestamp (link_at s l); yt = sof_timestamp yk; d = frame_duration yk div 5;
          rd = slot (queue yk) (rd_idx (queue yk)) in
      if t > yt \<and> yt > 0 \<and> t - yt < d \<and> sync_mode rd = CAM_REQ_MGR_SYNC_MODE_SYNC then
        (if r > req_id rd then (s, Some (code EAGAIN))
         else if r < req_id rd then (upd_link l (skip_sync True) s, None)
         else (s, None))
      else if yt > 0 \<and> t < yt \<and> yt - t < d \<and> sync_mode rd = CAM_REQ_MGR_SYNC_MODE_SYNC then
        (if r \<ge> req_id rd then (s, Some (code EAGAIN)) else (s, None))
      else (s, None))"

text \<open>The first frames after a start, where the other link may have skipped a frame.\<close>

definition sync_initial_skip :: "cam_req_mgr_core_link \<Rightarrow> cam_req_mgr_core_link \<Rightarrow> bool" where
  "sync_initial_skip lk yk =
     (let t = sof_timestamp lk; yt = sof_timestamp yk in
      initial_skip lk \<and>
      (t > yt \<and> yt > 0 \<and> t - yt < frame_duration yk div 2 \<or> t \<le> yt))"

definition check_sync_req_is_ready :: "ptr \<Rightarrow> int \<Rightarrow> crm \<Rightarrow> crm \<times> int" where
  "check_sync_req_is_ready l i s =
     (let lk = link_at s l; y = sync_link lk; yk = link_at s y; sl = slot (queue lk) i; idx = sl_idx sl;
          r = req_id sl; yq = queue yk;
          skip_frame = (\<lambda>s. (fst (with_link l (inject_delay_link idx) s), code EAGAIN)) in
      if y = 0 then (s, code EINVAL)
      else if initial_skip yk then skip_frame (upd_link l (\<lambda>lk. lk\<lparr>initial_skip := False\<rparr>) s)
      else
        (let s1 = upd_link l (\<lambda>lk. lk\<lparr>initial_skip := False\<rparr>) s in
         if sync_initial_skip lk yk then skip_frame s1
         else if sync_link_sof_skip yk then skip_frame (upd_link y (skip_sync False) s1)
         else
           (case with_link l (inject_delay_link idx) s1 of
              (s2, rc1) \<Rightarrow>
                (let j = find_slot_for_req yq r in
                 if j = -1 then (s2, code EAGAIN)
                 else if status (slot yq j) \<noteq> CRM_SLOT_STATUS_REQ_APPLIED \<and>
                         c_rem (j - rd_idx yq + num_slots yq) (num_slots yq) \<ge> 1 \<and>
                         status (slot yq (rd_idx yq)) \<noteq> CRM_SLOT_STATUS_REQ_APPLIED
                 then (s2, code EAGAIN)
                 else
                   (case with_link l (check_link_is_ready idx True) s2 of
                      (s3, rc3) \<Rightarrow>
                        (case with_link y (check_link_is_ready j True) s3 of
                           (s4, rc4) \<Rightarrow>
                             (let ready = (rc1 = 0 \<and> rc3 = 0);
                                  sync_ready = (rc4 = 0 \<or> status (slot yq j) = CRM_SLOT_STATUS_REQ_APPLIED) in
                              if sync_ready \<noteq> ready then
                                (if sof_timestamp lk - sof_timestamp yk > frame_duration yk div 2
                                 then upd_link l (skip_sync True) s4 else s4, code EINVAL)
                              else if \<not> ready then (s4, code EINVAL)
                              else
                                (case sync_correct l r yk s4 of
                                   (s5, Some rc) \<Rightarrow> (s5, rc)
                                 | (s5, None) \<Rightarrow> (fst (with_link l (check_link_is_ready idx False) s5), 0)))))))))"

subsection \<open>Processing the read index\<close>

abbreviation set_status :: "int \<Rightarrow> crm_slot_status \<Rightarrow> cam_req_mgr_core_link \<Rightarrow> cam_req_mgr_core_link" where
  "set_status i st \<equiv> upd_queue (upd_slot i (\<lambda>sl. sl\<lparr>status := st\<rparr>))"

text \<open>Whether the request at the read index can be applied at this start of frame.\<close>

definition sof_check :: "ptr \<Rightarrow> crm \<Rightarrow> crm \<times> int" where
  "sof_check l s =
     (let lk = link_at s l; y = sync_link lk; i = rd_idx (queue lk); sl = slot (queue lk) i in
      if sync_mode sl = CAM_REQ_MGR_SYNC_MODE_SYNC \<and> y \<noteq> 0 then
        (if is_master lk \<or> is_master (link_at s y)
         then check_sync_for_mslave l i (upd_link l (\<lambda>lk. lk\<lparr>in_msync_mode := True\<rparr>) s)
         else check_sync_req_is_ready l i s)
      else
        (let s1 = (if in_msync_mode lk then
                     (let s0 = upd_link l (\<lambda>lk. lk\<lparr>in_msync_mode := False, initial_sync_req := -1\<rparr>) s in
                      if y \<noteq> 0 then upd_link y (\<lambda>yk. yk\<lparr>initial_sync_req := -1, in_msync_mode := False\<rparr>) s0 else s0)
                   else s) in
         case with_link l (inject_delay_link (sl_idx sl)) s1 of
           (s2, rc) \<Rightarrow> if rc \<noteq> 0 then (s2, rc) else with_link l (check_link_is_ready (sl_idx sl) False) s2))"

text \<open>The bookkeeping of a request all its trigger points have been served for.\<close>

definition apply_complete :: "ptr \<Rightarrow> crm \<Rightarrow> crm" where
  "apply_complete l s =
     (let lk = link_at s l; y = sync_link lk; idx = rd_idx (queue lk);
          reset_step = (if y \<noteq> 0 \<and> in_msync_mode lk \<and> is_master (link_at s y)
                        then max_delay (link_at s y) else max_delay lk);
          lk1 = (set_status idx CRM_SLOT_STATUS_REQ_APPLIED lk)\<lparr>trigger_mask := 0\<rparr>;
          lk2 = (if req_id (slot (queue lk) idx) > 0 then upd_queue (\<lambda>q. q\<lparr>last_applied_idx := idx\<rparr>) lk1 else lk1)
      in upd_link l (\<lambda>_. cam_req_mgr_reset_req_slot (dec_idx idx (reset_step + 1) (num_slots (queue lk))) lk2) s)"

definition process_req_send :: "ptr \<Rightarrow> u32 \<Rightarrow> crm \<Rightarrow> crm \<times> int" where
  "process_req_send l trg s =
     (case cam_req_mgr_send_req trg (dev_calls s) (link_at s l) of
        (cs, lk, rc) \<Rightarrow>
          (let s1 = (upd_link l (\<lambda>_. lk) s)\<lparr>dev_calls := cs\<rparr>; i = rd_idx (queue lk) in
           if rc < 0 then (upd_link l (set_status i CRM_SLOT_STATUS_REQ_PENDING) s1, rc)
           else
             (let s2 = upd_link l (\<lambda>lk. lk\<lparr>trigger_mask := trigger_mask lk OR trg,
                         link_state := (if link_state lk = CAM_CRM_LINK_STATE_ERR then CAM_CRM_LINK_STATE_READY
                                        else link_state lk),
                         sync_link_sof_skip := False\<rparr>) s1 in
              (if trigger_mask (link_at s2 l) = subscribe_event (link_at s2 l) then apply_complete l s2 else s2, rc))))"

definition cam_req_mgr_process_req :: "ptr \<Rightarrow> cam_req_mgr_trigger_notify \<Rightarrow> crm \<Rightarrow> crm \<times> int" where
  "cam_req_mgr_process_req l td s =
     (let lk = link_at s l; i = rd_idx (queue lk); trg = tn_trigger td in
      if status (slot (queue lk) i) = CRM_SLOT_STATUS_NO_REQ then (s, 0)
      else if trg \<noteq> CAM_TRIGGER_POINT_SOF \<and> trg \<noteq> CAM_TRIGGER_POINT_EOF then (s, 0)
      else if trg = CAM_TRIGGER_POINT_EOF \<and> trigger_mask lk AND CAM_TRIGGER_POINT_SOF = 0 then (s, code EINVAL)
      else if trg = CAM_TRIGGER_POINT_SOF then
        (let s1 = upd_link l (\<lambda>lk. lk\<lparr>prev_sof_timestamp := sof_timestamp lk, sof_timestamp := sof_timestamp_val td\<rparr>) s in
         if trigger_mask lk \<noteq> 0 then (s1, code EINVAL)
         else
           (case sof_check l s1 of
              (s2, rc) \<Rightarrow>
                if rc < 0 then
                  (upd_link l (set_status i CRM_SLOT_STATUS_REQ_PENDING) s2,
                   if link_state (link_at s2 l) = CAM_CRM_LINK_STATE_ERR then code EPERM else rc)
                else process_req_send l trg s2))
      else process_req_send l trg s)"

subsection \<open>The handlers of the work queue\<close>

definition cam_req_mgr_process_send_req :: "ptr \<Rightarrow> crm \<Rightarrow> crm \<times> int" where
  "cam_req_mgr_process_send_req l s =
     (case cam_req_mgr_send_req CAM_TRIGGER_POINT_SOF (dev_calls s) (link_at s l) of
        (cs, lk, rc) \<Rightarrow> ((upd_link l (\<lambda>_. lk) s)\<lparr>dev_calls := cs\<rparr>, rc))"

text \<open>A device call whose result is kept: the last one made, or the value before.\<close>

fun flush_devices ::
  "cam_req_mgr_flush_request \<Rightarrow> cam_req_mgr_connected_device list \<Rightarrow> dev_call list \<Rightarrow> int \<Rightarrow> dev_call list \<times> int" where
  "flush_devices r [] cs rc = (cs, rc)"
| "flush_devices r (dev # rest) cs rc =
     (let r' = r\<lparr>fl_dev_hdl := cd_dev_hdl dev\<rparr> in
      case op_of flush_req dev of
        None \<Rightarrow> flush_devices r rest cs rc
      | Some f \<Rightarrow> flush_devices r rest (cs @ [Flush_req r']) (f (length cs) r'))"

abbreviation CAM_REQ_MGR_FLUSH_TYPE_ALL :: u32 where "CAM_REQ_MGR_FLUSH_TYPE_ALL \<equiv> 0"
abbreviation CAM_REQ_MGR_FLUSH_TYPE_CANCEL_REQ :: u32 where "CAM_REQ_MGR_FLUSH_TYPE_CANCEL_REQ \<equiv> 1"
abbreviation CAM_REQ_MGR_FLUSH_TYPE_MAX :: u32 where "CAM_REQ_MGR_FLUSH_TYPE_MAX \<equiv> 2"

definition flush_slot :: "cam_req_mgr_slot \<Rightarrow> cam_req_mgr_slot" where
  "flush_slot sl = sl\<lparr>req_id := -1, sync_mode := CAM_REQ_MGR_SYNC_MODE_NO_SYNC, skip_idx := 1,
     status := CRM_SLOT_STATUS_NO_REQ\<rparr>"

abbreviation complete :: "cam_req_mgr_core_link \<Rightarrow> cam_req_mgr_core_link" where
  "complete lk \<equiv> lk\<lparr>workq_comp := workq_comp lk + 1\<rparr>"

definition flush_all :: "int \<Rightarrow> cam_req_mgr_core_link \<Rightarrow> cam_req_mgr_core_link" where
  "flush_all r lk =
     complete ((upd_queue (\<lambda>q. q\<lparr>slot := (\<lambda>i. if 0 \<le> i \<and> i < num_slots q then flush_slot (slot q i) else slot q i),
                              wr_idx := 0, rd_idx := 0\<rparr>) lk)\<lparr>last_flush_id := word_of_int r\<rparr>)"

definition flush_notify :: "ptr \<Rightarrow> cam_req_mgr_flush_info \<Rightarrow> crm \<Rightarrow> crm \<times> int" where
  "flush_notify l fi s =
     (case flush_devices \<lparr>fl_link_hdl = fi_link_hdl fi, fl_dev_hdl = 0, fl_type = flush_type fi, fl_req_id = fi_req_id fi\<rparr>
             (devs (link_at s l)) (dev_calls s) 0 of
        (cs, rc) \<Rightarrow> ((upd_link l complete s)\<lparr>dev_calls := cs\<rparr>, rc))"

definition cam_req_mgr_process_flush_req :: "ptr \<Rightarrow> cam_req_mgr_flush_info option \<Rightarrow> crm \<Rightarrow> crm \<times> int" where
  "cam_req_mgr_process_flush_req l data s =
     (case data of
        None \<Rightarrow> (s, code EINVAL)
      | Some fi \<Rightarrow>
          if l = 0 then (s, code EINVAL)
          else if flush_type fi = CAM_REQ_MGR_FLUSH_TYPE_ALL then (upd_link l (flush_all (fi_req_id fi)) s, 0)
          else if flush_type fi = CAM_REQ_MGR_FLUSH_TYPE_CANCEL_REQ then
            (let q = queue (link_at s l); idx = find_slot_for_req q (fi_req_id fi) in
             if idx < 0 then flush_notify l fi s
             else if status (slot q idx) = CRM_SLOT_STATUS_REQ_PENDING \<or> status (slot q idx) = CRM_SLOT_STATUS_REQ_APPLIED
             then (s, code EINVAL)
             else flush_notify l fi (upd_link l (upd_queue (cam_req_mgr_in_q_skip_idx idx)) s))
          else flush_notify l fi s)"

definition sched_slot :: "cam_req_mgr_sched_request \<Rightarrow> cam_req_mgr_slot \<Rightarrow> cam_req_mgr_slot" where
  "sched_slot sr sl = sl\<lparr>status := CRM_SLOT_STATUS_REQ_ADDED, req_id := sr_req_id sr,
     sync_mode := sr_sync_mode sr, skip_idx := 0, recover := bubble_enable sr\<rparr>"

definition cam_req_mgr_process_sched_req :: "ptr \<Rightarrow> cam_req_mgr_sched_request option \<Rightarrow> crm \<Rightarrow> crm \<times> int" where
  "cam_req_mgr_process_sched_req l data s =
     (case data of
        None \<Rightarrow> (s, code EINVAL)
      | Some sr \<Rightarrow>
          if l = 0 then (s, code EINVAL)
          else
            (let s1 = upd_link l (\<lambda>lk. (upd_queue (\<lambda>q. (upd_slot (wr_idx q) (sched_slot sr) q)
                         \<lparr>wr_idx := inc_idx (wr_idx q) 1 (num_slots q)\<rparr>) lk)\<lparr>open_req_cnt := open_req_cnt lk + 1\<rparr>) s;
                 y = sync_link (link_at s l) in
             (if sr_sync_mode sr = CAM_REQ_MGR_SYNC_MODE_SYNC
              then upd_link l (\<lambda>lk. if initial_sync_req lk = -1 then lk\<lparr>initial_sync_req := sr_req_id sr\<rparr> else lk) s1
              else
                (let s2 = upd_link l (\<lambda>lk. lk\<lparr>initial_sync_req := -1\<rparr>) s1 in
                 if y \<noteq> 0 then upd_link y (\<lambda>yk. yk\<lparr>initial_sync_req := -1\<rparr>) s2 else s2), 0)))"

text \<open>What a device that has a request does to the slot of its table.\<close>

definition add_slot :: "cam_req_mgr_add_request \<Rightarrow> int \<Rightarrow> u32 \<Rightarrow> cam_req_mgr_tbl_slot \<Rightarrow> cam_req_mgr_tbl_slot" where
  "add_slot aq bit_no dmask sl =
     (let skip = skip_before_applying aq AND 0xFF;
          sl1 = sl\<lparr>is_applied := False\<rparr>;
          sl2 = (if skip > inject_delay sl
                 then sl1\<lparr>inject_delay := skip, ts_dev_hdl := aq_dev_hdl aq,
                          skip_next_frame := (if skip_before_applying aq AND SKIP_NEXT_FRAME \<noteq> 0 then True
                                              else skip_next_frame sl)\<rparr>
                 else sl1);
          ready = req_ready_map sl OR push_bit (nat bit_no) 1
      in sl2\<lparr>req_ready_map := ready,
             ts_state := (if ready = dmask then CRM_REQ_STATE_READY else CRM_REQ_STATE_PENDING)\<rparr>)"

definition cam_req_mgr_process_add_req :: "ptr \<Rightarrow> cam_req_mgr_add_request option \<Rightarrow> crm \<Rightarrow> crm \<times> int" where
  "cam_req_mgr_process_add_req l data s =
     (case data of
        None \<Rightarrow> (s, code EINVAL)
      | Some aq \<Rightarrow>
          if l = 0 then (s, code EINVAL)
          else
            (let lk = link_at s l in
             case find (\<lambda>dev. cd_dev_hdl dev = aq_dev_hdl aq) (devs lk) of
               None \<Rightarrow> (s, code EINVAL)
             | Some dev \<Rightarrow>
                 (case pd_tbl dev of
                    None \<Rightarrow> (s, code EINVAL)
                  | Some p \<Rightarrow>
                      (let idx = find_slot_for_req (queue lk) (aq_req_id aq) in
                       if idx < 0 then (s, code EBADSLT)
                       else (upd_link l (upd_tbls (map (\<lambda>t. if pd t = p
                               then upd_tslot idx (add_slot aq (dev_bit dev) (dev_mask t)) t else t))) s, 0)))))"

text \<open>The error handler tells the devices, then goes back to the request that failed.\<close>

fun notify_all ::
  "cam_req_mgr_link_evt_data \<Rightarrow> cam_req_mgr_connected_device list \<Rightarrow> dev_call list \<Rightarrow> int \<Rightarrow> dev_call list \<times> int" where
  "notify_all e [] cs rc = (cs, rc)"
| "notify_all e (dev # rest) cs rc =
     (let e' = e\<lparr>ev_dev_hdl := cd_dev_hdl dev\<rparr> in
      case op_of process_evt dev of
        None \<Rightarrow> notify_all e rest cs rc
      | Some f \<Rightarrow> notify_all e rest (cs @ [Process_evt e']) (f (length cs) e'))"

definition rewind_to :: "int \<Rightarrow> cam_req_mgr_core_link \<Rightarrow> cam_req_mgr_core_link" where
  "rewind_to idx lk =
     (let lk1 = upd_tbls cam_req_mgr_tbl_set_all_skip_cnt lk;
          lk2 = upd_queue (\<lambda>q. (upd_slot idx (\<lambda>sl. sl\<lparr>status := CRM_SLOT_STATUS_REQ_ADDED\<rparr>) q)\<lparr>rd_idx := idx\<rparr>) lk1;
          lk3 = (if sync_link lk \<noteq> 0
                 then upd_queue (\<lambda>q. upd_slot (inc_idx idx 1 (tbl_num_slots (hd (tbls lk)))) (\<lambda>sl. sl\<lparr>sync_mode := 0\<rparr>)
                        (upd_slot idx (\<lambda>sl. sl\<lparr>sync_mode := 0\<rparr>) q)) lk2
                 else lk2)
      in lk3\<lparr>link_state := CAM_CRM_LINK_STATE_ERR\<rparr>)"

definition cam_req_mgr_process_error :: "ptr \<Rightarrow> cam_req_mgr_error_notify option \<Rightarrow> crm \<Rightarrow> crm \<times> int" where
  "cam_req_mgr_process_error l data s =
     (case data of
        None \<Rightarrow> (s, code EINVAL)
      | Some en \<Rightarrow>
          if l = 0 then (s, code EINVAL)
          else if en_error en \<noteq> CRM_KMD_ERR_BUBBLE then (s, 0)
          else
            (let lk = link_at s l; q = queue lk; idx = find_slot_for_req q (en_req_id en) in
             if idx < 0 then (s, 0)
             else if recover (slot q idx) = 0 then (s, 0)
             else if status (slot q idx) \<noteq> CRM_SLOT_STATUS_REQ_PENDING \<and> status (slot q idx) \<noteq> CRM_SLOT_STATUS_REQ_APPLIED
             then (s, code EINVAL)
             else
               (case notify_all \<lparr>ev_link_hdl = link_hdl lk, ev_dev_hdl = 0, ev_req_id = en_req_id en,
                       evt_type = CAM_REQ_MGR_LINK_EVT_ERR, ev_error = en_error en\<rparr> (devs lk) (dev_calls s) 0 of
                  (cs, rc) \<Rightarrow> ((upd_link l (rewind_to idx) s)\<lparr>dev_calls := cs\<rparr>, rc))))"

text \<open>At a start of frame the request that is done is freed, and the read index may move past it.\<close>

definition trigger_done :: "int \<Rightarrow> cam_req_mgr_core_link \<Rightarrow> cam_req_mgr_core_link" where
  "trigger_done r lk =
     (let idx = find_slot_for_req (queue lk) r in
      if idx \<ge> 0 then
        (let lk1 = upd_queue (\<lambda>q. if idx = last_applied_idx q then q\<lparr>last_applied_idx := -1\<rparr> else q) lk;
             lk2 = upd_queue (\<lambda>q. if idx = rd_idx q then q\<lparr>rd_idx := inc_idx (rd_idx q) 1 (num_slots q)\<rparr> else q) lk1
         in cam_req_mgr_reset_req_slot idx lk2)
      else lk)"

definition cam_req_mgr_process_trigger :: "ptr \<Rightarrow> cam_req_mgr_trigger_notify option \<Rightarrow> crm \<Rightarrow> crm \<times> int" where
  "cam_req_mgr_process_trigger l data s =
     (case data of
        None \<Rightarrow> (s, code EINVAL)
      | Some td \<Rightarrow>
          if l = 0 then (s, code EINVAL)
          else
            (let s1 = (if tn_trigger td = CAM_TRIGGER_POINT_SOF then upd_link l (trigger_done (tn_req_id td)) s else s);
                 q = queue (link_at s1 l) in
             if status (slot q (rd_idx q)) = CRM_SLOT_STATUS_REQ_APPLIED then
               (case with_link l check_next_req_slot s1 of
                  (s2, rc) \<Rightarrow>
                    if rc \<noteq> 0 then (s2, 0)
                    else cam_req_mgr_process_req l td
                      (upd_link l (upd_queue (\<lambda>q. q\<lparr>rd_idx := inc_idx (rd_idx q) 1 (num_slots q)\<rparr>)) s2))
             else cam_req_mgr_process_req l td s1))"

end
