(* ===== verification/Cam_Crm_Setup.thy ===== *)
theory Cam_Crm_Setup
  imports Cam_Crm_Process
begin

text \<open>
  Setting up and tearing down the links of a session, the functions of
  \<^verbatim>\<open>drivers/cam_req_mgr/cam_req_mgr_core.c\<close> around \<^verbatim>\<open>__cam_req_mgr_setup_link_info\<close>, and the timer of
  \<^verbatim>\<open>cam_req_mgr_timer.c\<close>.

  Code outside is a parameter: \<open>ops_at\<close> gives the operations a driver registered at an address, the
  booleans and addresses named after allocations say whether memory was found. A session's embedded
  link number \<open>i\<close> has the address \<open>links_init ses i\<close>.
\<close>

subsection \<open>The timer\<close>

text \<open>\<open>deadline\<close> is the tick the kernel timer fires at; a tick is a millisecond.\<close>

definition crm_timer_reset :: "nat \<Rightarrow> cam_req_mgr_timer option \<Rightarrow> cam_req_mgr_timer option" where
  "crm_timer_reset now timer = map_option (\<lambda>t. t\<lparr>deadline := now + nat (expires t)\<rparr>) timer"

definition crm_timer_callback :: "nat \<Rightarrow> cam_req_mgr_timer option \<Rightarrow> cam_req_mgr_timer option" where
  "crm_timer_callback now timer = crm_timer_reset now timer"

definition crm_timer_modify :: "nat \<Rightarrow> int \<Rightarrow> cam_req_mgr_timer option \<Rightarrow> cam_req_mgr_timer option" where
  "crm_timer_modify now e timer = crm_timer_reset now (map_option (\<lambda>t. t\<lparr>expires := e\<rparr>) timer)"

definition crm_timer_init ::
  "bool \<Rightarrow> nat \<Rightarrow> int \<Rightarrow> ptr \<Rightarrow> timer_fn option \<Rightarrow> cam_req_mgr_timer option \<Rightarrow> cam_req_mgr_timer option \<times> int" where
  "crm_timer_init timer_alloc now e parent cb timer =
     (case timer of
        Some t \<Rightarrow> (Some t, code EINVAL)
      | None \<Rightarrow>
          if \<not> timer_alloc then (None, code ENOMEM)
          else (crm_timer_reset now (Some \<lparr>expires = e, tm_parent = parent,
                 timer_cb = (case cb of None \<Rightarrow> Fn_crm_timer_callback | Some f \<Rightarrow> f), deadline = 0\<rparr>), 0))"

definition crm_timer_exit :: "cam_req_mgr_timer option \<Rightarrow> cam_req_mgr_timer option" where
  "crm_timer_exit timer = None"

subsection \<open>Tables of a link\<close>

definition cam_req_mgr_create_pd_tbl :: cam_req_mgr_req_tbl where
  "cam_req_mgr_create_pd_tbl = \<lparr>tbl_id = 0, pd = 0, dev_count = 0, dev_mask = 0, skip_traverse = 0,
     pd_delta = 0, tbl_num_slots = MAX_REQ_SLOTS, tbl_slot = (\<lambda>_. zero_tslot)\<rparr>"

text \<open>The loop that looks for the place of a table behind the first one.\<close>

fun insert_tbl_after :: "cam_req_mgr_req_tbl \<Rightarrow> cam_req_mgr_req_tbl list \<Rightarrow> cam_req_mgr_req_tbl \<Rightarrow> cam_req_mgr_req_tbl list" where
  "insert_tbl_after tbl [] new_tbl =
     [tbl\<lparr>pd_delta := pd tbl - pd new_tbl\<rparr>, new_tbl\<lparr>pd_delta := 0\<rparr>]"
| "insert_tbl_after tbl (nxt # rest) new_tbl =
     (if pd new_tbl < pd nxt then tbl # insert_tbl_after nxt rest new_tbl
      else tbl\<lparr>pd_delta := pd tbl - pd new_tbl\<rparr> # new_tbl\<lparr>pd_delta := pd new_tbl - pd nxt\<rparr> # nxt # rest)"

definition cam_req_mgr_add_tbl_to_link :: "cam_req_mgr_req_tbl \<Rightarrow> cam_req_mgr_req_tbl list \<Rightarrow> cam_req_mgr_req_tbl list" where
  "cam_req_mgr_add_tbl_to_link new_tbl ts =
     (case ts of
        [] \<Rightarrow> [new_tbl]
      | t # rest \<Rightarrow>
          if pd t < pd new_tbl then new_tbl\<lparr>pd_delta := pd new_tbl - pd t\<rparr> # t # rest
          else insert_tbl_after t rest new_tbl)"

definition cam_req_mgr_setup_in_q :: "cam_req_mgr_core_link \<Rightarrow> cam_req_mgr_core_link \<times> int" where
  "cam_req_mgr_setup_in_q lk =
     (if \<not> in_q_alloc (req lk) then (lk, code EINVAL)
      else
        (upd_queue (\<lambda>q. q\<lparr>num_slots := MAX_REQ_SLOTS, wr_idx := 0, rd_idx := 0,
           slot := (\<lambda>i. if 0 \<le> i \<and> i < MAX_REQ_SLOTS
                        then (slot q i)\<lparr>sl_idx := i, req_id := -1, skip_idx := 0, status := CRM_SLOT_STATUS_NO_REQ\<rparr>
                        else slot q i)\<rparr>) lk, 0))"

definition cam_req_mgr_reset_in_q :: "cam_req_mgr_core_link \<Rightarrow> cam_req_mgr_core_link" where
  "cam_req_mgr_reset_in_q lk =
     (if \<not> in_q_alloc (req lk) then lk
      else upd_queue (\<lambda>q. q\<lparr>slot := (\<lambda>i. if 0 \<le> i \<and> i < num_slots q then zero_slot else slot q i),
             num_slots := 0, wr_idx := 0, rd_idx := 0\<rparr>) lk)"

definition cam_req_mgr_destroy_link_info :: "cam_req_mgr_core_link \<Rightarrow> cam_req_mgr_core_link" where
  "cam_req_mgr_destroy_link_info lk =
     (let lk1 = cam_req_mgr_reset_in_q (upd_tbls (\<lambda>_. []) lk)
      in lk1\<lparr>req := (req lk1)\<lparr>num_tbl := 0\<rparr>, pd_mask := 0, num_devs := 0, max_delay := 0\<rparr>)"

subsection \<open>Connecting the devices\<close>

text \<open>
  The first loop asks every device for its properties. It returns the devices, the longest delay,
  the trigger points and, when it stops early, the return code it stops with.
\<close>

fun query_devices ::
  "(ptr \<Rightarrow> cam_req_mgr_kmd_ops) \<Rightarrow> hdl_tbl option \<Rightarrow> ptr \<Rightarrow> u32 list \<Rightarrow> cam_req_mgr_connected_device list \<Rightarrow> int \<Rightarrow> u32 \<Rightarrow>
   cam_req_mgr_connected_device list \<times> int \<times> u32 \<times> int option" where
  "query_devices ops_at h l [] ds md se = (ds, md, se, None)"
| "query_devices ops_at h l (dev_hdl # hs) [] md se = ([], md, se, None)"
| "query_devices ops_at h l (dev_hdl # hs) (dev # ds) md se =
     (let p = cam_get_device_ops h dev_hdl;
          dev1 = dev\<lparr>ops := (if p = 0 then None else Some (ops_at p))\<rparr> in
      if op_of get_dev_info dev1 = None \<or> op_of link_setup dev1 = None then (dev1 # ds, md, se, Some (code ENXIO))
      else
        (case the (op_of get_dev_info dev1) ((dev_info dev1)\<lparr>di_dev_hdl := dev_hdl\<rparr>) of
           (info, rc) \<Rightarrow>
             (let dev2 = dev1\<lparr>cd_dev_hdl := dev_hdl, cd_parent := l, dev_info := info\<rparr> in
              if rc < 0 \<or> p_delay info \<ge> CAM_PIPELINE_DELAY_MAX \<or> p_delay info < CAM_PIPELINE_DELAY_0
              then (dev2 # ds, md, se, Some rc)
              else
                (case query_devices ops_at h l hs ds (if p_delay info > md then p_delay info else md) (se OR trigger info) of
                   (ds', md', se', e) \<Rightarrow> (dev2 # ds', md', se', e)))))"

text \<open>
  The second loop gives every device its table, creating the table for a delay not seen before, and
  tells the device. \<open>tbl_alloc\<close> says which allocation of a table succeeds, by the number of devices
  connected before.
\<close>

definition count_dev :: "int \<Rightarrow> cam_req_mgr_req_tbl list \<Rightarrow> cam_req_mgr_req_tbl list" where
  "count_dev p ts =
     map (\<lambda>t. if pd t = p then t\<lparr>dev_count := dev_count t + 1,
                                dev_mask := dev_mask t OR push_bit (nat (dev_count t)) 1\<rparr> else t) ts"

definition attach_table :: "bool \<Rightarrow> int \<Rightarrow> cam_req_mgr_core_link \<Rightarrow> (cam_req_mgr_core_link \<times> int) option" where
  "attach_table tbl_alloc p lk =
     (if pd_mask lk AND push_bit (nat p) 1 \<noteq> 0 then
        (case find_pd_tbl (tbls lk) p of
           None \<Rightarrow> None
         | Some t \<Rightarrow> Some (upd_tbls (count_dev p) lk, dev_count t))
      else if \<not> tbl_alloc then None
      else
        Some ((upd_tbls (\<lambda>ts. count_dev p (cam_req_mgr_add_tbl_to_link (cam_req_mgr_create_pd_tbl\<lparr>pd := p\<rparr>) ts)) lk)
                \<lparr>pd_mask := pd_mask lk OR push_bit (nat p) 1\<rparr>, 0))"

fun connect_devices ::
  "(nat \<Rightarrow> bool) \<Rightarrow> nat \<Rightarrow> cam_req_mgr_core_dev_link_setup \<Rightarrow> cam_req_mgr_connected_device list \<Rightarrow> cam_req_mgr_core_link \<Rightarrow>
   dev_call list \<Rightarrow> cam_req_mgr_connected_device list \<times> cam_req_mgr_core_link \<times> dev_call list \<times> bool" where
  "connect_devices tbl_alloc i ld [] lk cs = ([], lk, cs, True)"
| "connect_devices tbl_alloc i ld (dev # ds) lk cs =
     (let p = p_delay (dev_info dev) in
      case attach_table (tbl_alloc i) p lk of
        None \<Rightarrow> (dev # ds, lk, cs, False)
      | Some (lk1, b) \<Rightarrow>
          (case connect_devices tbl_alloc (i + 1) ld ds
                  (lk1\<lparr>max_delay := (if max_delay lk1 < p then p else max_delay lk1)\<rparr>)
                  (cs @ [Link_setup (ld\<lparr>ls_dev_hdl := cd_dev_hdl dev\<rparr>)]) of
             (ds', lk', cs', ok) \<Rightarrow> (dev\<lparr>dev_bit := b, pd_tbl := Some p\<rparr> # ds', lk', cs', ok)))"

abbreviation VERSION_1 :: nat where "VERSION_1 \<equiv> 1"
abbreviation VERSION_2 :: nat where "VERSION_2 \<equiv> 2"
abbreviation UAPI_MAX_HANDLES :: nat where "UAPI_MAX_HANDLES \<equiv> 64"
abbreviation CAM_REQ_MGR_MAX_HANDLES_V2 :: nat where "CAM_REQ_MGR_MAX_HANDLES_V2 \<equiv> 128"

record cam_req_mgr_ver_info =
  version :: nat
  li_session_hdl :: u32
  li_dev_hdls :: "u32 list"
  li_link_hdl :: u32

definition li_devices :: "cam_req_mgr_ver_info \<Rightarrow> u32 list" where
  "li_devices li = (if version li = VERSION_1 \<or> version li = VERSION_2 then li_dev_hdls li else [])"

definition cam_req_mgr_setup_link_info ::
  "(ptr \<Rightarrow> cam_req_mgr_kmd_ops) \<Rightarrow> (nat \<Rightarrow> bool) \<Rightarrow> hdl_tbl option \<Rightarrow> ptr \<Rightarrow> cam_req_mgr_ver_info \<Rightarrow> cam_req_mgr_core_link \<Rightarrow>
   dev_call list \<Rightarrow> cam_req_mgr_core_link \<times> dev_call list \<times> int" where
  "cam_req_mgr_setup_link_info ops_at tbl_alloc h l li lk cs =
     (let n = length (li_dev_hdls li) in
      if version li = VERSION_1 \<and> n > UAPI_MAX_HANDLES \<or> version li = VERSION_2 \<and> n > CAM_REQ_MGR_MAX_HANDLES_V2
      then (lk, cs, code EPERM)
      else
        (case cam_req_mgr_setup_in_q (lk\<lparr>req := (req lk)\<lparr>num_tbl := 0\<rparr>\<rparr>) of
           (lk1, rc) \<Rightarrow>
             if rc < 0 then (lk1, cs, rc)
             else
               (case query_devices ops_at h l (li_devices li) (l_dev lk1) CAM_PIPELINE_DELAY_0 0 of
                  (ds, md, se, Some e) \<Rightarrow> (cam_req_mgr_destroy_link_info (lk1\<lparr>l_dev := ds\<rparr>), cs, e)
                | (ds, md, se, None) \<Rightarrow>
                    (case connect_devices tbl_alloc 0
                            \<lparr>link_enable = 1, ls_link_hdl = link_hdl lk1, ls_dev_hdl = 0, ls_max_delay = md,
                             ls_subscribe_event = se\<rparr>
                            (take (length (li_devices li)) ds) (lk1\<lparr>subscribe_event := se\<rparr>) cs of
                       (ds', lk2, cs', ok) \<Rightarrow>
                         (let lk3 = lk2\<lparr>l_dev := ds' @ drop (length (li_devices li)) ds\<rparr> in
                          if \<not> ok then (cam_req_mgr_destroy_link_info lk3, cs', code ENXIO)
                          else
                            (upd_tbls cam_req_mgr_tbl_set_all_skip_cnt
                               (cam_req_mgr_tbl_set_id (lk3\<lparr>num_devs := length (li_devices li)\<rparr>)), cs', 0))))))"

end
