(* ===== verification/Cam_Crm_Traverse.thy ===== *)
theory Cam_Crm_Traverse
  imports Cam_Crm
begin

text \<open>
  What the traversal of a link's tables does: when the tables are in order, it succeeds exactly if
  every table agrees on the slot that lies as many frames back as its delay is shorter than the
  longest one, it then hands every table that slot's request, and otherwise it changes nothing. The
  invariant of a link, \<open>link_ok\<close>, says that its tables are in order, that the indices of its queue lie
  inside the arrays, and that nothing outside the arrays has been written.
\<close>

subsection \<open>Index arithmetic\<close>

lemma c_rem_nonneg [simp]: "0 \<le> a \<Longrightarrow> 0 \<le> b \<Longrightarrow> c_rem a b = a mod b"
  by (cases "a = 0") (simp_all add: c_rem_def)

lemma inc_idx_mod: "0 \<le> v \<Longrightarrow> 0 \<le> d \<Longrightarrow> 0 < n \<Longrightarrow> inc_idx v d n = (v + d) mod n"
  by (simp add: inc_idx_def)

lemma inc_idx_range: "0 \<le> v \<Longrightarrow> 0 < n \<Longrightarrow> 0 \<le> inc_idx v 1 n \<and> inc_idx v 1 n < n"
  by (simp add: inc_idx_mod)

lemma dec_idx_mod: "0 \<le> v \<Longrightarrow> v < n \<Longrightarrow> 0 \<le> d \<Longrightarrow> d \<le> n \<Longrightarrow> dec_idx v d n = (v - d) mod n"
  using mod_add_self2 [of "v - d" n] mod_pos_pos_trivial [of "v - d + n" n]
  by (cases "v < d") (auto simp: dec_idx_def Let_def)

lemma dec_idx_range: "0 \<le> v \<Longrightarrow> v < n \<Longrightarrow> 0 \<le> d \<Longrightarrow> d \<le> n \<Longrightarrow> 0 \<le> dec_idx v d n \<and> dec_idx v d n < n"
  by (auto simp: dec_idx_def Let_def)

subsection \<open>Well-formed tables\<close>

definition tbl_ok :: "cam_req_mgr_req_tbl \<Rightarrow> bool" where
  "tbl_ok t \<longleftrightarrow> 0 \<le> pd t \<and> pd t < CAM_PIPELINE_DELAY_MAX \<and> tbl_num_slots t = MAX_REQ_SLOTS"

fun tbls_ok :: "cam_req_mgr_req_tbl list \<Rightarrow> bool" where
  "tbls_ok [] = True"
| "tbls_ok [t] = tbl_ok t"
| "tbls_ok (t # u # ts) = (tbl_ok t \<and> pd u < pd t \<and> pd_delta t = pd t - pd u \<and> tbls_ok (u # ts))"

text \<open>The slot a table looks at when the traversal starts at \<open>idx\<close> in a table of delay \<open>mx\<close>.\<close>

definition slot_at :: "int \<Rightarrow> int \<Rightarrow> int \<Rightarrow> int" where
  "slot_at mx idx p = (idx - (mx - p)) mod MAX_REQ_SLOTS"

definition tbl_agrees :: "cam_req_mgr_req_queue \<Rightarrow> int \<Rightarrow> int \<Rightarrow> cam_req_mgr_req_tbl \<Rightarrow> bool" where
  "tbl_agrees q mx idx t \<longleftrightarrow>
     (let i = slot_at mx idx (pd t) in
      ts_state (tbl_slot t i) = CRM_REQ_STATE_READY \<or> skip_idx (slot q i) = 1 \<or> skip_traverse t > 0)"

definition tbl_apply :: "cam_req_mgr_req_queue \<Rightarrow> int \<Rightarrow> int \<Rightarrow> cam_req_mgr_req_tbl \<Rightarrow> cam_req_mgr_apply \<Rightarrow> cam_req_mgr_apply" where
  "tbl_apply q mx idx t a =
     (let i = slot_at mx idx (pd t) in
      a\<lparr>ap_pd := pd t, ap_req_id := (if skip_traverse t > 0 then -1 else req_id (slot q i)), ap_idx := i\<rparr>)"

definition dec_skip :: "cam_req_mgr_req_tbl \<Rightarrow> cam_req_mgr_req_tbl" where
  "dec_skip t = (if skip_traverse t > 0 then t\<lparr>skip_traverse := skip_traverse t - 1\<rparr> else t)"

definition pds_mask :: "cam_req_mgr_req_tbl list \<Rightarrow> u32" where
  "pds_mask ts = fold (\<lambda>t m. SET_SUCCESS_BIT m (pd t)) ts 0"

lemma tbls_ok_Cons: "tbls_ok (t # ts) \<Longrightarrow> tbl_ok t \<and> tbls_ok ts"
  by (cases ts) (auto simp: )

lemma tbls_ok_sorted: "tbls_ok (t # ts) \<Longrightarrow> u \<in> set ts \<Longrightarrow> pd u < pd t"
proof (induction ts arbitrary: t)
  case (Cons v vs)
  then show ?case by (cases "u = v") fastforce+
qed simp

lemma tbls_ok_in: "tbls_ok ts \<Longrightarrow> t \<in> set ts \<Longrightarrow> tbl_ok t"
  by (induction ts) (auto dest: tbls_ok_Cons)

lemma tbls_ok_distinct: "tbls_ok ts \<Longrightarrow> distinct (map pd ts)"
  by (induction ts) (auto dest: tbls_ok_Cons tbls_ok_sorted)

lemma slot_at_self: "0 \<le> idx \<Longrightarrow> idx < MAX_REQ_SLOTS \<Longrightarrow> slot_at p idx p = idx"
  by (simp add: slot_at_def)

lemma slot_at_range [simp]: "0 \<le> slot_at mx idx p" "slot_at mx idx p < MAX_REQ_SLOTS"
  by (simp_all add: slot_at_def)

lemma slot_at_next:
  assumes "0 \<le> idx" "idx < MAX_REQ_SLOTS" "0 \<le> mx - p" "mx - p \<le> MAX_REQ_SLOTS"
  shows "slot_at p (dec_idx idx (mx - p) MAX_REQ_SLOTS) r = slot_at mx idx r"
proof -
  have "slot_at p (dec_idx idx (mx - p) MAX_REQ_SLOTS) r = (idx - (mx - p) - (p - r)) mod MAX_REQ_SLOTS"
    using assms dec_idx_mod [of idx 48 "mx - p"] by (simp add: slot_at_def mod_diff_left_eq)
  also have "idx - (mx - p) - (p - r) = idx - (mx - r)" by simp
  finally show ?thesis by (simp add: slot_at_def)
qed

text \<open>The part of the result that depends on which tables agreed.\<close>

lemma traverse_agree:
  assumes "tbls_ok (t # ts)" "0 \<le> idx" "idx < MAX_REQ_SLOTS" "\<forall>u\<in>set (t # ts). tbl_agrees q (pd t) idx u"
  shows "cam_req_mgr_traverse q vo (t # ts) idx ad res =
    (if vo then t # ts else map dec_skip (t # ts),
     if vo then ad else (\<lambda>p. case find (\<lambda>u. pd u = p) (t # ts) of None \<Rightarrow> ad p | Some u \<Rightarrow> tbl_apply q (pd t) idx u (ad p)),
     fold (\<lambda>u m. SET_SUCCESS_BIT m (pd u)) (rev (t # ts)) res, 0)"
  using assms
proof (induction ts arbitrary: t idx)
  case Nil
  then show ?case
    by (auto simp: tbl_agrees_def slot_at_self Let_def tbl_apply_def dec_skip_def fun_eq_iff)
next
  case (Cons u us)
  have ok: "tbl_ok t" "pd u < pd t" "pd_delta t = pd t - pd u" "tbls_ok (u # us)" "tbl_ok u"
    using Cons.prems(1) tbls_ok_Cons [of u us] by auto
  define j where "j = dec_idx idx (pd_delta t) (tbl_num_slots t)"
  have j: "0 \<le> j" "j < MAX_REQ_SLOTS" and next': "\<And>r. slot_at (pd u) j r = slot_at (pd t) idx r"
    using ok Cons.prems(2,3) dec_idx_range [of idx 48 "pd t - pd u"] slot_at_next [of idx "pd t" "pd u"]
    by (auto simp: j_def tbl_ok_def)
  have agree: "\<forall>w\<in>set (u # us). tbl_agrees q (pd u) j w"
    using Cons.prems(4) by (simp add: tbl_agrees_def next')
  note IH = Cons.IH [OF ok(4) j agree]
  have app: "tbl_apply q (pd u) j = tbl_apply q (pd t) idx"
    by (simp add: tbl_apply_def next' fun_eq_iff)
  have t: "ts_state (tbl_slot t idx) = CRM_REQ_STATE_READY \<or> skip_idx (slot q idx) = 1 \<or> skip_traverse t > 0"
    using Cons.prems by (simp add: tbl_agrees_def slot_at_self)
  have self: "slot_at (pd t) idx (pd t) = idx" using Cons.prems by (simp add: slot_at_self)
  have notin: "find (\<lambda>w. pd w = pd t) (u # us) = None"
  proof -
    have "\<forall>w\<in>set (u # us). pd w < pd t" using tbls_ok_sorted [OF Cons.prems(1)] by blast
    then show ?thesis by (auto simp: find_None_iff)
  qed
  show ?case
    unfolding cam_req_mgr_traverse.simps(2) [of _ _ t "u # us"] j_def [symmetric] IH app
    using t notin ok(2) by (auto simp: tbl_apply_def dec_skip_def self Let_def fun_eq_iff split: option.splits)
qed

lemma traverse_disagree:
  assumes "tbls_ok (t # ts)" "0 \<le> idx" "idx < MAX_REQ_SLOTS" "\<not> (\<forall>u\<in>set (t # ts). tbl_agrees q (pd t) idx u)"
  shows "\<exists>res'. cam_req_mgr_traverse q vo (t # ts) idx ad res = (t # ts, ad, res', code EAGAIN)"
  using assms
proof (induction ts arbitrary: t idx)
  case Nil
  then show ?case by (simp add: tbl_agrees_def slot_at_self)
next
  case (Cons u us)
  have ok: "tbl_ok t" "pd u < pd t" "pd_delta t = pd t - pd u" "tbls_ok (u # us)" "tbl_ok u"
    using Cons.prems(1) tbls_ok_Cons [of u us] by auto
  define j where "j = dec_idx idx (pd_delta t) (tbl_num_slots t)"
  have j: "0 \<le> j" "j < MAX_REQ_SLOTS" and next': "\<And>r. slot_at (pd u) j r = slot_at (pd t) idx r"
    using ok Cons.prems(2,3) dec_idx_range [of idx 48 "pd t - pd u"] slot_at_next [of idx "pd t" "pd u"]
    by (auto simp: j_def tbl_ok_def)
  have agr: "tbl_agrees q (pd u) j w \<longleftrightarrow> tbl_agrees q (pd t) idx w" for w
    by (simp add: tbl_agrees_def next')
  show ?case
  proof (cases "tbl_agrees q (pd t) idx t")
    case False
    then show ?thesis using Cons.prems by (auto simp: tbl_agrees_def slot_at_self)
  next
    case True
    then have "\<not> (\<forall>w\<in>set (u # us). tbl_agrees q (pd u) j w)" using Cons.prems(4) agr by auto
    from Cons.IH [OF ok(4) j this] obtain res' where
      IH: "cam_req_mgr_traverse q vo (u # us) j ad res = (u # us, ad, res', code EAGAIN)" by blast
    show ?thesis
      unfolding cam_req_mgr_traverse.simps(2) [of _ _ t "u # us"] j_def [symmetric] IH
      using True Cons.prems by (auto simp: tbl_agrees_def slot_at_self)
  qed
qed

subsection \<open>Masks\<close>

lemma bit_shift_one: "bit (push_bit k 1 :: u32) n \<longleftrightarrow> n = k \<and> n < 32"
  by (auto simp: bit_simps)

lemma bit_success: "bit (SET_SUCCESS_BIT m p) n \<longleftrightarrow> bit m n \<or> n = nat p \<and> n < 32"
  unfolding SET_SUCCESS_BIT_def bit_or_iff bit_shift_one ..

lemma bit_fold_success:
  "bit (fold (\<lambda>t m. SET_SUCCESS_BIT m (pd t)) ts m) n \<longleftrightarrow> bit m n \<or> n < 32 \<and> n \<in> nat ` pd ` set ts"
proof (induction ts arbitrary: m)
  case (Cons t ts)
  show ?case unfolding fold_simps Cons.IH bit_success by auto
qed simp

lemma pds_mask_cong: "pd ` set ts = pd ` set us \<Longrightarrow> pds_mask ts = pds_mask us"
  by (rule bit_word_eqI) (simp add: pds_mask_def bit_fold_success)

lemma pds_mask_rev: "fold (\<lambda>t m. SET_SUCCESS_BIT m (pd t)) (rev ts) 0 = pds_mask ts"
  using pds_mask_cong [of "rev ts" ts] by (simp add: pds_mask_def)

subsection \<open>The shape of a list of tables\<close>

text \<open>Outside the slots of a table nothing is written; the functions are zero there.\<close>

definition tbl_inside :: "cam_req_mgr_req_tbl \<Rightarrow> bool" where
  "tbl_inside t \<longleftrightarrow> (\<forall>i. i < 0 \<or> MAX_REQ_SLOTS \<le> i \<longrightarrow> tbl_slot t i = zero_tslot)"

definition same_tbl :: "cam_req_mgr_req_tbl \<Rightarrow> cam_req_mgr_req_tbl \<Rightarrow> bool" where
  "same_tbl t u \<longleftrightarrow> pd u = pd t \<and> pd_delta u = pd_delta t \<and> tbl_num_slots u = tbl_num_slots t \<and>
     dev_mask u = dev_mask t \<and> (tbl_inside t \<longrightarrow> tbl_inside u)"

definition same_shape :: "cam_req_mgr_req_tbl list \<Rightarrow> cam_req_mgr_req_tbl list \<Rightarrow> bool" where
  "same_shape ts us \<longleftrightarrow> list_all2 same_tbl ts us"

lemma same_tbl_refl [simp]: "same_tbl t t"
  by (simp add: same_tbl_def)

lemma same_shape_refl [simp]: "same_shape ts ts"
  by (simp add: same_shape_def list.rel_refl)

lemma same_shape_Nil [simp]: "same_shape [] us \<longleftrightarrow> us = []"
  by (simp add: same_shape_def)

lemma same_shape_map: "(\<And>t. t \<in> set ts \<Longrightarrow> same_tbl t (f t)) \<Longrightarrow> same_shape ts (map f ts)"
  by (simp add: same_shape_def list_all2_map2 list.rel_refl_strong)

lemma same_shape_pds: "same_shape ts us \<Longrightarrow> map pd us = map pd ts"
  unfolding same_shape_def by (induction rule: list_all2_induct) (auto simp: same_tbl_def)

lemma same_shape_hd: "same_shape ts us \<Longrightarrow> ts \<noteq> [] \<Longrightarrow> us \<noteq> [] \<and> pd (hd us) = pd (hd ts)"
  unfolding same_shape_def by (cases ts; cases us) (auto simp: same_tbl_def)

lemma same_shape_ok: "same_shape ts us \<Longrightarrow> tbls_ok ts \<Longrightarrow> tbls_ok us"
proof (induction ts arbitrary: us rule: tbls_ok.induct)
  case (2 t)
  then show ?case by (cases us) (auto simp: same_shape_def same_tbl_def tbl_ok_def)
next
  case (3 t u ts)
  then obtain t' u' us' where us: "us = t' # u' # us'" "same_tbl t t'" "same_tbl u u'" "same_shape (u # ts) (u' # us')"
    by (auto simp: same_shape_def list_all2_Cons1)
  then show ?case using 3 by (auto simp: same_tbl_def tbl_ok_def)
qed simp

lemma same_shape_inside: "same_shape ts us \<Longrightarrow> list_all tbl_inside ts \<Longrightarrow> list_all tbl_inside us"
  unfolding same_shape_def by (induction rule: list_all2_induct) (auto simp: same_tbl_def)

lemma same_shape_mask: "same_shape ts us \<Longrightarrow> pds_mask us = pds_mask ts"
  by (rule pds_mask_cong) (metis same_shape_pds set_map)

lemma same_tbl_upd_tslot [simp]: "0 \<le> i \<Longrightarrow> i < MAX_REQ_SLOTS \<Longrightarrow> same_tbl t (upd_tslot i f t)"
  by (auto simp: same_tbl_def tbl_inside_def upd_tslot_def)

lemma same_tbl_skip [simp]: "same_tbl t (t\<lparr>skip_traverse := n\<rparr>)"
  by (auto simp: same_tbl_def tbl_inside_def)

lemma same_tbl_dec_skip [simp]: "same_tbl t (dec_skip t)"
  by (simp add: dec_skip_def)

lemma inject_delay_shape:
  "tbls_ok (t # ts) \<Longrightarrow> 0 \<le> idx \<Longrightarrow> idx < MAX_REQ_SLOTS \<Longrightarrow>
   same_shape (t # ts) (fst (cam_req_mgr_inject_delay (t # ts) idx))"
proof (induction ts arbitrary: t idx)
  case Nil
  then show ?case by (auto simp: same_shape_def Let_def)
next
  case (Cons u us)
  have ok: "tbl_ok t" "pd u < pd t" "pd_delta t = pd t - pd u" "tbls_ok (u # us)" "tbl_ok u"
    using Cons.prems(1) tbls_ok_Cons [of u us] by auto
  define j where "j = dec_idx idx (pd_delta t) (tbl_num_slots t)"
  have j: "0 \<le> j" "j < MAX_REQ_SLOTS"
    using ok Cons.prems(2,3) dec_idx_range [of idx 48 "pd t - pd u"] by (auto simp: j_def tbl_ok_def)
  have "same_shape (u # us) (fst (cam_req_mgr_inject_delay (u # us) j))"
    using Cons.IH [OF ok(4) j] .
  then show ?case
    unfolding cam_req_mgr_inject_delay.simps(2) [of t] j_def [symmetric]
    using Cons.prems by (auto simp: Let_def same_shape_def split: prod.splits)
qed

lemma inject_delay_none:
  assumes "tbls_ok (t # ts)" "0 \<le> idx" "idx < MAX_REQ_SLOTS"
    "\<forall>u\<in>set (t # ts). inject_delay (tbl_slot u (slot_at (pd t) idx (pd u))) = 0"
  shows "cam_req_mgr_inject_delay (t # ts) idx = (t # ts, 0)"
  using assms
proof (induction ts arbitrary: t idx)
  case Nil
  then show ?case by (simp add: slot_at_self Let_def)
next
  case (Cons u us)
  have ok: "tbl_ok t" "pd u < pd t" "pd_delta t = pd t - pd u" "tbls_ok (u # us)" "tbl_ok u"
    using Cons.prems(1) tbls_ok_Cons [of u us] by auto
  define j where "j = dec_idx idx (pd_delta t) (tbl_num_slots t)"
  have j: "0 \<le> j" "j < MAX_REQ_SLOTS" and next': "\<And>r. slot_at (pd u) j r = slot_at (pd t) idx r"
    using ok Cons.prems(2,3) dec_idx_range [of idx 48 "pd t - pd u"] slot_at_next [of idx "pd t" "pd u"]
    by (auto simp: j_def tbl_ok_def)
  have "cam_req_mgr_inject_delay (u # us) j = (u # us, 0)"
    using Cons.IH [OF ok(4) j] Cons.prems(4) by (simp add: next')
  then show ?case
    unfolding cam_req_mgr_inject_delay.simps(2) [of t] j_def [symmetric]
    using Cons.prems by (simp add: slot_at_self Let_def)
qed

subsection \<open>The invariant of a link\<close>

definition queue_ok :: "cam_req_mgr_req_queue \<Rightarrow> bool" where
  "queue_ok q \<longleftrightarrow> num_slots q = MAX_REQ_SLOTS \<and>
     0 \<le> rd_idx q \<and> rd_idx q < MAX_REQ_SLOTS \<and> 0 \<le> wr_idx q \<and> wr_idx q < MAX_REQ_SLOTS \<and>
     -1 \<le> last_applied_idx q \<and> last_applied_idx q < MAX_REQ_SLOTS \<and>
     (\<forall>i. 0 \<le> i \<and> i < MAX_REQ_SLOTS \<longrightarrow> sl_idx (slot q i) = i) \<and>
     (\<forall>i. i < 0 \<or> MAX_REQ_SLOTS \<le> i \<longrightarrow> slot q i = zero_slot)"

definition dev_ok :: "cam_req_mgr_req_tbl list \<Rightarrow> cam_req_mgr_connected_device \<Rightarrow> bool" where
  "dev_ok ts dev \<longleftrightarrow> pd_tbl dev = Some (p_delay (dev_info dev)) \<and> p_delay (dev_info dev) \<in> pd ` set ts"

definition apply_inside :: "(int \<Rightarrow> cam_req_mgr_apply) \<Rightarrow> bool" where
  "apply_inside ad \<longleftrightarrow> (\<forall>p. p < 0 \<or> CAM_PIPELINE_DELAY_MAX \<le> p \<longrightarrow> ad p = zero_apply) \<and>
     (\<forall>p. 0 \<le> ap_idx (ad p) \<and> ap_idx (ad p) < MAX_REQ_SLOTS)"

definition link_ok :: "cam_req_mgr_core_link \<Rightarrow> bool" where
  "link_ok lk \<longleftrightarrow> in_q_alloc (req lk) \<and> queue_ok (queue lk) \<and> tbls lk \<noteq> [] \<and> tbls_ok (tbls lk) \<and>
     list_all tbl_inside (tbls lk) \<and> max_delay lk = pd (hd (tbls lk)) \<and> pd_mask lk = pds_mask (tbls lk) \<and>
     list_all (dev_ok (tbls lk)) (devs lk) \<and> apply_inside (apply_data (req lk))"

lemma link_okD:
  assumes "link_ok lk"
  shows "queue_ok (queue lk)" "tbls lk \<noteq> []" "tbls_ok (tbls lk)" "max_delay lk = pd (hd (tbls lk))"
    "pd_mask lk = pds_mask (tbls lk)"
  using assms by (auto simp: link_ok_def)

lemma queue_okD:
  assumes "queue_ok q"
  shows "num_slots q = MAX_REQ_SLOTS" "0 \<le> rd_idx q" "rd_idx q < MAX_REQ_SLOTS" "0 \<le> wr_idx q" "wr_idx q < MAX_REQ_SLOTS"
  using assms by (auto simp: queue_ok_def)

lemma sl_idx_range: "queue_ok q \<Longrightarrow> 0 \<le> i \<Longrightarrow> i < MAX_REQ_SLOTS \<Longrightarrow> sl_idx (slot q i) = i"
  by (simp add: queue_ok_def)

lemma max_delay_range: "link_ok lk \<Longrightarrow> 0 \<le> max_delay lk \<and> max_delay lk < CAM_PIPELINE_DELAY_MAX"
  by (metis hd_in_set link_okD(2,3,4) tbl_ok_def tbls_ok_in)

lemma link_ok_tbls:
  assumes "link_ok lk" "same_shape (tbls lk) ts" "apply_inside ad"
  shows "link_ok (lk\<lparr>req := (req lk)\<lparr>l_tbl := ts, apply_data := ad\<rparr>\<rparr>)"
proof -
  have "pd ` set ts = pd ` set (tbls lk)" using same_shape_pds [OF assms(2)] by (metis set_map)
  then show ?thesis
    using assms same_shape_ok [OF assms(2)] same_shape_hd [OF assms(2)] same_shape_inside [OF assms(2)]
      same_shape_mask [OF assms(2)]
    by (auto simp: link_ok_def dev_ok_def list_all_iff)
qed

lemma link_ok_upd_tbls: "link_ok lk \<Longrightarrow> same_shape (tbls lk) (f (tbls lk)) \<Longrightarrow> link_ok (upd_tbls f lk)"
  using link_ok_tbls [of lk "f (tbls lk)" "apply_data (req lk)"] by (simp add: upd_tbls_def link_ok_def)

lemma link_ok_upd_queue: "link_ok lk \<Longrightarrow> (queue_ok (queue lk) \<Longrightarrow> queue_ok (f (queue lk))) \<Longrightarrow> link_ok (upd_queue f lk)"
  by (simp add: upd_queue_def link_ok_def)

lemma queue_ok_upd_slot:
  "queue_ok q \<Longrightarrow> 0 \<le> i \<Longrightarrow> i < MAX_REQ_SLOTS \<Longrightarrow> (\<And>s. sl_idx (f s) = sl_idx s) \<Longrightarrow> queue_ok (upd_slot i f q)"
  by (auto simp: queue_ok_def upd_slot_def)

subsection \<open>Readiness\<close>

definition link_agrees :: "cam_req_mgr_core_link \<Rightarrow> int \<Rightarrow> bool" where
  "link_agrees lk idx = list_all (tbl_agrees (queue lk) (max_delay lk) idx) (tbls lk)"

definition cleared :: "cam_req_mgr_core_link \<Rightarrow> int \<Rightarrow> cam_req_mgr_apply" where
  "cleared lk p = (if 0 \<le> p \<and> p < CAM_PIPELINE_DELAY_MAX then zero_apply else apply_data (req lk) p)"

lemma tbls_split: "link_ok lk \<Longrightarrow> \<exists>t ts. tbls lk = t # ts \<and> max_delay lk = pd t \<and> tbls_ok (t # ts)"
  by (cases "tbls lk") (auto simp: link_ok_def)

lemma check_ready_yes:
  assumes "link_ok lk" "0 \<le> idx" "idx < MAX_REQ_SLOTS" "link_agrees lk idx"
  shows "check_link_is_ready idx vo lk =
    (lk\<lparr>req := (req lk)\<lparr>l_tbl := (if vo then tbls lk else map dec_skip (tbls lk)),
        apply_data := (if vo then apply_data (req lk)
          else (\<lambda>p. case find (\<lambda>u. pd u = p) (tbls lk) of None \<Rightarrow> cleared lk p
                  | Some u \<Rightarrow> tbl_apply (queue lk) (max_delay lk) idx u (cleared lk p)))\<rparr>, initial_skip := False\<rparr>, 0)"
proof -
  obtain t ts where t: "tbls lk = t # ts" "max_delay lk = pd t" "tbls_ok (t # ts)"
    using tbls_split [OF assms(1)] by blast
  have all: "\<forall>u\<in>set (t # ts). tbl_agrees (queue lk) (pd t) idx u"
    using assms(4) t by (auto simp: link_agrees_def list_all_iff)
  have clr: "(\<lambda>p. if 0 \<le> p \<and> p < CAM_PIPELINE_DELAY_MAX then zero_apply else apply_data (req lk) p) = cleared lk"
    by (simp add: cleared_def fun_eq_iff)
  have mask: "fold (\<lambda>u m. SET_SUCCESS_BIT m (pd u)) (rev (t # ts)) 0 = pd_mask lk"
    using link_okD(5) [OF assms(1)] t(1) pds_mask_rev [of "t # ts"] by simp
  show ?thesis
    unfolding check_link_is_ready_def clr t(1,2) traverse_agree [OF t(3) assms(2,3) all] mask Let_def
    by (cases vo) (simp_all add: t)
qed

lemma check_ready_no:
  assumes "link_ok lk" "0 \<le> idx" "idx < MAX_REQ_SLOTS" "\<not> link_agrees lk idx"
  shows "check_link_is_ready idx vo lk =
    (lk\<lparr>req := (req lk)\<lparr>apply_data := (if vo then apply_data (req lk) else cleared lk)\<rparr>, initial_skip := False\<rparr>,
     code EAGAIN)"
proof -
  obtain t ts where t: "tbls lk = t # ts" "max_delay lk = pd t" "tbls_ok (t # ts)"
    using tbls_split [OF assms(1)] by blast
  have not_all: "\<not> (\<forall>u\<in>set (t # ts). tbl_agrees (queue lk) (pd t) idx u)"
    using assms(4) t by (auto simp: link_agrees_def list_all_iff)
  define ad where "ad = (if vo then apply_data (req lk) else cleared lk)"
  have clr: "(\<lambda>p. if 0 \<le> p \<and> p < CAM_PIPELINE_DELAY_MAX then zero_apply else apply_data (req lk) p) = cleared lk"
    by (simp add: cleared_def fun_eq_iff)
  obtain res where tr: "cam_req_mgr_traverse (queue lk) vo (t # ts) idx ad 0 = (t # ts, ad, res, code EAGAIN)"
    using traverse_disagree [OF t(3) assms(2,3) not_all] by blast
  show ?thesis
    unfolding check_link_is_ready_def clr t(1) Let_def ad_def [symmetric] tr using t(1) [symmetric] by simp
qed

lemma apply_inside_cleared: "apply_inside (apply_data (req lk)) \<Longrightarrow> apply_inside (cleared lk)"
  by (auto simp: apply_inside_def cleared_def zero_apply_def)

lemma apply_inside_tbls:
  assumes "apply_inside ad" "\<forall>t\<in>set ts. tbl_ok t"
  shows "apply_inside (\<lambda>p. case find (\<lambda>u. pd u = p) ts of None \<Rightarrow> ad p | Some u \<Rightarrow> tbl_apply q mx idx u (ad p))"
proof -
  have none: "find (\<lambda>u. pd u = p) ts = None" if "p < 0 \<or> CAM_PIPELINE_DELAY_MAX \<le> p" for p
    using assms(2) that by (auto simp: find_None_iff tbl_ok_def)
  show ?thesis
    unfolding apply_inside_def
  proof (intro conjI allI impI)
    fix p :: int
    assume "p < 0 \<or> CAM_PIPELINE_DELAY_MAX \<le> p"
    then show "(case find (\<lambda>u. pd u = p) ts of None \<Rightarrow> ad p | Some u \<Rightarrow> tbl_apply q mx idx u (ad p)) = zero_apply"
      using assms(1) none [of p] by (auto simp: apply_inside_def)
  qed (use assms(1) in \<open>auto simp: apply_inside_def tbl_apply_def Let_def split: option.splits\<close>)
qed

lemma link_ok_initial_skip [simp]: "link_ok (lk\<lparr>initial_skip := b\<rparr>) = link_ok lk"
  by (simp add: link_ok_def)

lemma check_ready_ok:
  assumes ok: "link_ok lk" and idx: "0 \<le> idx" "idx < MAX_REQ_SLOTS"
  shows "link_ok (fst (check_link_is_ready idx vo lk))"
proof (cases "link_agrees lk idx")
  case True
  define ts where "ts = (if vo then tbls lk else map dec_skip (tbls lk))"
  define ad where "ad = (if vo then apply_data (req lk)
          else (\<lambda>p. case find (\<lambda>u. pd u = p) (tbls lk) of None \<Rightarrow> cleared lk p
                  | Some u \<Rightarrow> tbl_apply (queue lk) (max_delay lk) idx u (cleared lk p)))"
  have "same_shape (tbls lk) ts" by (simp add: ts_def same_shape_map)
  moreover have "apply_inside ad"
    using ok apply_inside_tbls [OF apply_inside_cleared, of lk "tbls lk"] tbls_ok_in [OF link_okD(3) [OF ok]]
    by (auto simp: ad_def link_ok_def)
  ultimately show ?thesis
    using link_ok_tbls [OF ok] check_ready_yes [OF ok idx True, of vo, folded ts_def ad_def] by simp
next
  case False
  define ad where "ad = (if vo then apply_data (req lk) else cleared lk)"
  have "apply_inside ad" using ok apply_inside_cleared [of lk] by (simp add: ad_def link_ok_def)
  then have "link_ok (lk\<lparr>req := (req lk)\<lparr>apply_data := ad\<rparr>\<rparr>)"
    using ok unfolding link_ok_def by simp
  then show ?thesis
    unfolding check_ready_no [OF ok idx False, of vo, folded ad_def] fst_conv link_ok_initial_skip .
qed

lemma check_ready_frame:
  assumes "link_ok lk" "0 \<le> idx" "idx < MAX_REQ_SLOTS"
  shows "queue (fst (check_link_is_ready idx vo lk)) = queue lk"
    "sync_link (fst (check_link_is_ready idx vo lk)) = sync_link lk"
  by (cases "link_agrees lk idx", simp_all add: check_ready_yes [OF assms] check_ready_no [OF assms])+

end
