(* ===== verification/Cam_Crm_Inv.thy ===== *)
theory Cam_Crm_Inv
  imports Cam_Crm_Process Cam_Crm_Traverse
begin

text \<open>
  Every handler of the request manager's work queue keeps the invariant of the links: the indices of
  the input queues stay inside the slot arrays, no slot outside an array is written, the tables stay in
  the order of their delays, and every device keeps its table. \<open>crm_step\<close> is the step relation of the
  handlers, run one after the other by the serial work queue of a link.
\<close>

subsection \<open>Functions on one link\<close>

lemma find_slot_from_cases:
  assumes "queue_ok q" "0 \<le> idx" "idx < MAX_REQ_SLOTS"
  shows "find_slot_from n q r idx = -1 \<or>
    0 \<le> find_slot_from n q r idx \<and> find_slot_from n q r idx < MAX_REQ_SLOTS \<and>
    req_id (slot q (find_slot_from n q r idx)) = r"
  using assms
proof (induction n arbitrary: idx)
  case (Suc n)
  have "0 \<le> dec_idx idx 1 48 \<and> dec_idx idx 1 48 < 48" using Suc.prems dec_idx_range [of idx 48 1] by simp
  then show ?case using Suc by (simp add: queue_okD)
qed simp

lemma find_slot_cases:
  assumes "queue_ok q"
  obtains "find_slot_for_req q r = -1"
  | "0 \<le> find_slot_for_req q r" "find_slot_for_req q r < MAX_REQ_SLOTS" "req_id (slot q (find_slot_for_req q r)) = r"
  using find_slot_from_cases [OF assms, of "rd_idx q" "nat (num_slots q)" r] assms
  unfolding find_slot_for_req_def by (auto simp: queue_okD)

lemma find_slot_range: "queue_ok q \<Longrightarrow> 0 \<le> find_slot_for_req q r \<Longrightarrow> find_slot_for_req q r < MAX_REQ_SLOTS"
  by (cases rule: find_slot_cases [of q r]) auto

lemma upd_dev_slot_shape: "0 \<le> i \<Longrightarrow> i < MAX_REQ_SLOTS \<Longrightarrow> same_shape ts (upd_dev_slot p i f ts)"
  unfolding upd_dev_slot_def by (rule same_shape_map) simp

lemma same_tbl_trans: "same_tbl t u \<Longrightarrow> same_tbl u v \<Longrightarrow> same_tbl t v"
  by (auto simp: same_tbl_def)

lemma same_shape_trans: "same_shape ts us \<Longrightarrow> same_shape us vs \<Longrightarrow> same_shape ts vs"
  unfolding same_shape_def by (rule list_all2_trans [of same_tbl same_tbl same_tbl]) (blast intro: same_tbl_trans)+

lemma send_alone_shape:
  assumes "apply_inside (apply_data (req lk))"
  shows "same_shape ts (fst (snd (send_alone lk trg ds cs ts)))"
proof (induction ds)
  case (Cons dev ds)
  have "0 \<le> ap_idx (apply_data (req lk) p)" "ap_idx (apply_data (req lk) p) < MAX_REQ_SLOTS" for p
    using assms by (simp_all add: apply_inside_def)
  then show ?case using Cons by (simp add: Let_def upd_dev_slot_shape split: option.split)
qed simp

lemma send_all_shape:
  assumes "apply_inside (apply_data (req lk))"
  shows "same_shape ts (fst (snd (send_all lk trg seen ds (cs, ts, cnt, rc))))"
proof (induction ds arbitrary: seen cs ts cnt rc)
  case (Cons dev ds)
  have "0 \<le> ap_idx (apply_data (req lk) p)" "ap_idx (apply_data (req lk) p) < MAX_REQ_SLOTS" for p
    using assms by (simp_all add: apply_inside_def)
  note upd = upd_dev_slot_shape [OF this]
  show ?case
    using Cons same_shape_trans [OF upd Cons] by (simp add: Let_def split: option.split)
qed simp

lemma link_ok_simps [simp]:
  "link_ok (lk\<lparr>open_req_cnt := n\<rparr>) = link_ok lk" "link_ok (lk\<lparr>trigger_mask := m\<rparr>) = link_ok lk"
  "link_ok (lk\<lparr>link_state := st\<rparr>) = link_ok lk" "link_ok (lk\<lparr>sync_link_sof_skip := b\<rparr>) = link_ok lk"
  "link_ok (lk\<lparr>in_msync_mode := b\<rparr>) = link_ok lk" "link_ok (lk\<lparr>initial_sync_req := r\<rparr>) = link_ok lk"
  "link_ok (lk\<lparr>sof_timestamp := t\<rparr>) = link_ok lk" "link_ok (lk\<lparr>prev_sof_timestamp := t\<rparr>) = link_ok lk"
  "link_ok (lk\<lparr>workq_comp := k\<rparr>) = link_ok lk" "link_ok (lk\<lparr>last_flush_id := i\<rparr>) = link_ok lk"
  by (simp_all add: link_ok_def)

lemma upd_simps [simp]:
  "queue (upd_queue f lk) = f (queue lk)" "tbls (upd_queue f lk) = tbls lk"
  "queue (upd_tbls g lk) = queue lk" "tbls (upd_tbls g lk) = g (tbls lk)"
  "sync_link (upd_queue f lk) = sync_link lk" "sync_link (upd_tbls g lk) = sync_link lk"
  "max_delay (upd_queue f lk) = max_delay lk" "max_delay (upd_tbls g lk) = max_delay lk"
  "in_msync_mode (upd_queue f lk) = in_msync_mode lk" "in_msync_mode (upd_tbls g lk) = in_msync_mode lk"
  "apply_data (req (upd_queue f lk)) = apply_data (req lk)" "apply_data (req (upd_tbls g lk)) = apply_data (req lk)"
  by (simp_all add: upd_queue_def upd_tbls_def)

lemma send_req_ok:
  assumes "link_ok lk" "cam_req_mgr_send_req trg cs lk = (cs', lk', rc)"
  shows "link_ok lk'" "queue lk' = queue lk" "sync_link lk' = sync_link lk"
proof -
  have ad: "apply_inside (apply_data (req lk))" using assms(1) by (simp add: link_ok_def)
  obtain cs1 ts1 r1 where alone: "send_alone lk trg (devs lk) cs (tbls lk) = (cs1, ts1, r1)"
    using prod_cases3 by blast
  have sh1: "same_shape (tbls lk) ts1" using send_alone_shape [OF ad, of "tbls lk" trg "devs lk" cs] alone by simp
  obtain cs2 ts2 n r2 where all: "send_all lk trg [] (devs lk) (cs1, ts1, open_req_cnt lk, 0) = (cs2, ts2, n, r2)"
    using prod_cases4 by blast
  have sh2: "same_shape (tbls lk) ts2"
    using same_shape_trans [OF sh1] send_all_shape [OF ad, of ts1 trg "[]" "devs lk" cs1 "open_req_cnt lk" 0] all by simp
  show "link_ok lk'" "queue lk' = queue lk" "sync_link lk' = sync_link lk"
    using assms sh1 sh2 alone all
    by (auto simp: cam_req_mgr_send_req_def link_ok_upd_tbls split: option.splits)
qed

lemma inject_link_ok:
  assumes "link_ok lk" "0 \<le> idx" "idx < MAX_REQ_SLOTS"
  shows "link_ok (fst (inject_delay_link idx lk))" "queue (fst (inject_delay_link idx lk)) = queue lk"
    "sync_link (fst (inject_delay_link idx lk)) = sync_link lk"
proof -
  obtain t ts where t: "tbls lk = t # ts" "tbls_ok (t # ts)" using tbls_split [OF assms(1)] by blast
  have "same_shape (tbls lk) (fst (cam_req_mgr_inject_delay (tbls lk) idx))"
    using inject_delay_shape [OF t(2) assms(2,3)] by (simp add: t(1))
  then show "link_ok (fst (inject_delay_link idx lk))" "queue (fst (inject_delay_link idx lk)) = queue lk"
    "sync_link (fst (inject_delay_link idx lk)) = sync_link lk"
    using assms(1) by (auto simp: inject_delay_link_def link_ok_upd_tbls split: prod.split)
qed

lemma reset_slot_ok:
  assumes "link_ok lk" "idx < MAX_REQ_SLOTS"
  shows "link_ok (cam_req_mgr_reset_req_slot idx lk)"
  using assms unfolding cam_req_mgr_reset_req_slot_def
  by (auto intro!: link_ok_upd_tbls link_ok_upd_queue queue_ok_upd_slot same_shape_map)

lemma reset_slot_sync [simp]: "sync_link (cam_req_mgr_reset_req_slot idx lk) = sync_link lk"
  by (simp add: cam_req_mgr_reset_req_slot_def)

lemma set_status_ok: "link_ok lk \<Longrightarrow> 0 \<le> i \<Longrightarrow> i < MAX_REQ_SLOTS \<Longrightarrow> link_ok (set_status i st lk)"
  by (auto intro!: link_ok_upd_queue queue_ok_upd_slot)

lemma queue_ok_rd: "queue_ok q \<Longrightarrow> queue_ok (q\<lparr>rd_idx := inc_idx (rd_idx q) 1 (num_slots q)\<rparr>)"
  using inc_idx_range [of "rd_idx q" 48] by (auto simp: queue_ok_def)

lemma queue_ok_wr: "queue_ok q \<Longrightarrow> queue_ok (q\<lparr>wr_idx := inc_idx (wr_idx q) 1 (num_slots q)\<rparr>)"
  using inc_idx_range [of "wr_idx q" 48] by (auto simp: queue_ok_def)

lemma skip_slot_ok: "queue_ok q \<Longrightarrow> 0 \<le> i \<Longrightarrow> i < MAX_REQ_SLOTS \<Longrightarrow> queue_ok (cam_req_mgr_in_q_skip_idx i q)"
  unfolding cam_req_mgr_in_q_skip_idx_def by (rule queue_ok_upd_slot) auto

lemma skip_slot_sel [simp]:
  "wr_idx (cam_req_mgr_in_q_skip_idx i q) = wr_idx q" "num_slots (cam_req_mgr_in_q_skip_idx i q) = num_slots q"
  by (simp_all add: cam_req_mgr_in_q_skip_idx_def upd_slot_def)

lemma check_next_ok:
  assumes "link_ok lk"
  shows "link_ok (fst (check_next_req_slot lk))" "sync_link (fst (check_next_req_slot lk)) = sync_link lk"
proof -
  define q where "q = queue lk"
  have q: "queue_ok q" using assms by (simp add: q_def link_okD)
  define i where "i = inc_idx (rd_idx q) 1 (num_slots q)"
  have i: "0 \<le> i" "i < MAX_REQ_SLOTS" using inc_idx_range [of "rd_idx q" 48] q by (auto simp: i_def queue_okD)
  have "queue_ok ((cam_req_mgr_in_q_skip_idx i q)\<lparr>wr_idx := inc_idx (wr_idx q) 1 (num_slots q)\<rparr>)"
    using queue_ok_wr [OF skip_slot_ok [OF q i]] by simp
  then show "link_ok (fst (check_next_req_slot lk))" "sync_link (fst (check_next_req_slot lk)) = sync_link lk"
    using assms unfolding check_next_req_slot_def Let_def q_def [symmetric] i_def [symmetric]
    by (auto intro!: link_ok_upd_queue simp: q_def [symmetric])
qed

lemma flush_all_ok: "link_ok lk \<Longrightarrow> link_ok (flush_all r lk)"
  unfolding flush_all_def by (auto intro!: link_ok_upd_queue simp: queue_ok_def flush_slot_def)

lemma flush_all_sync [simp]: "sync_link (flush_all r lk) = sync_link lk"
  by (simp add: flush_all_def)

lemma set_all_skip_shape: "same_shape ts (cam_req_mgr_tbl_set_all_skip_cnt ts)"
  by (cases ts) (auto simp: cam_req_mgr_tbl_set_all_skip_cnt_def same_shape_def list_all2_map2 intro: list.rel_refl_strong)

lemma queue_ok_rd_set: "queue_ok q \<Longrightarrow> 0 \<le> i \<Longrightarrow> i < MAX_REQ_SLOTS \<Longrightarrow> queue_ok (q\<lparr>rd_idx := i\<rparr>)"
  by (auto simp: queue_ok_def)

lemma rewind_ok:
  assumes ok: "link_ok lk" and i: "0 \<le> i" "i < MAX_REQ_SLOTS"
  shows "link_ok (rewind_to i lk)"
proof -
  have n: "tbl_num_slots (hd (tbls lk)) = MAX_REQ_SLOTS"
    using tbls_ok_in [OF link_okD(3) [OF ok] hd_in_set [OF link_okD(2) [OF ok]]] by (simp add: tbl_ok_def)
  have j: "0 \<le> inc_idx i 1 MAX_REQ_SLOTS \<and> inc_idx i 1 MAX_REQ_SLOTS < MAX_REQ_SLOTS"
    using inc_idx_range [of i 48] i by simp
  have "link_ok (upd_tbls cam_req_mgr_tbl_set_all_skip_cnt lk)"
    using ok set_all_skip_shape by (rule link_ok_upd_tbls)
  then show ?thesis
    unfolding rewind_to_def Let_def n using i j
    by (auto intro!: link_ok_upd_queue queue_ok_upd_slot queue_ok_rd_set)
qed

lemma rewind_sync [simp]: "sync_link (rewind_to i lk) = sync_link lk"
  by (simp add: rewind_to_def Let_def)

lemma trigger_done_ok: "link_ok lk \<Longrightarrow> link_ok (trigger_done r lk)"
proof -
  assume ok: "link_ok lk"
  define i where "i = find_slot_for_req (queue lk) r"
  have i: "i < MAX_REQ_SLOTS"
    using find_slot_range [OF link_okD(1) [OF ok], of r] by (cases "0 \<le> i") (simp_all add: i_def)
  have ok1: "link_ok (upd_queue (\<lambda>q. if i = last_applied_idx q then q\<lparr>last_applied_idx := -1\<rparr> else q) lk)"
    by (rule link_ok_upd_queue [OF ok]) (simp add: queue_ok_def)
  have ok2: "link_ok (upd_queue (\<lambda>q. if i = rd_idx q then q\<lparr>rd_idx := inc_idx (rd_idx q) 1 (num_slots q)\<rparr> else q) lk1)"
    if "link_ok lk1" for lk1
    by (rule link_ok_upd_queue [OF that]) (simp add: queue_ok_rd)
  show ?thesis
    unfolding trigger_done_def Let_def i_def [symmetric] using ok reset_slot_ok [OF ok2 [OF ok1] i] by simp
qed

lemma trigger_done_sync [simp]: "sync_link (trigger_done r lk) = sync_link lk"
  by (simp add: trigger_done_def Let_def)

subsection \<open>All links\<close>

definition crm_ok :: "ptr set \<Rightarrow> crm \<Rightarrow> bool" where
  "crm_ok L s \<longleftrightarrow> (\<forall>l\<in>L. link_ok (link_at s l) \<and> (sync_link (link_at s l) = 0 \<or> sync_link (link_at s l) \<in> L))"

lemma link_at_upd [simp]: "link_at (upd_link l f s) k = (if k = l then f (link_at s l) else link_at s k)"
  by (simp add: upd_link_def)

lemma crm_ok_link: "crm_ok L s \<Longrightarrow> l \<in> L \<Longrightarrow> link_ok (link_at s l)"
  by (simp add: crm_ok_def)

lemma crm_ok_sync: "crm_ok L s \<Longrightarrow> l \<in> L \<Longrightarrow> sync_link (link_at s l) \<noteq> 0 \<Longrightarrow> sync_link (link_at s l) \<in> L"
  by (auto simp: crm_ok_def)

lemma crm_ok_calls [simp]: "crm_ok L (s\<lparr>dev_calls := cs\<rparr>) = crm_ok L s"
  by (simp add: crm_ok_def)

lemma crm_ok_upd:
  assumes "crm_ok L s" "link_ok (link_at s l) \<Longrightarrow> link_ok (f (link_at s l))"
    "sync_link (f (link_at s l)) = sync_link (link_at s l)"
  shows "crm_ok L (upd_link l f s)"
  using assms by (auto simp: crm_ok_def)

lemma crm_ok_with:
  assumes "crm_ok L s" "link_ok (link_at s l) \<Longrightarrow> link_ok (fst (f (link_at s l)))"
    "sync_link (fst (f (link_at s l))) = sync_link (link_at s l)"
  shows "crm_ok L (fst (with_link l f s))"
  using assms crm_ok_upd [of L s l "\<lambda>_. fst (f (link_at s l))"] by (simp add: with_link_def case_prod_beta)

lemma with_link_sel: "link_at (fst (with_link l f s)) k = (if k = l then fst (f (link_at s l)) else link_at s k)"
  by (simp add: with_link_def case_prod_beta)

lemma crm_ok_ready:
  assumes "crm_ok L s" "l \<in> L" "0 \<le> i" "i < MAX_REQ_SLOTS"
  shows "crm_ok L (fst (with_link l (check_link_is_ready i vo) s))"
  by (rule crm_ok_with [OF assms(1)]) (use assms crm_ok_link check_ready_ok check_ready_frame in blast)+

lemma crm_ok_inject:
  assumes "crm_ok L s" "l \<in> L" "0 \<le> i" "i < MAX_REQ_SLOTS"
  shows "crm_ok L (fst (with_link l (inject_delay_link i) s))"
  by (rule crm_ok_with [OF assms(1)]) (use assms crm_ok_link inject_link_ok in blast)+

lemma crm_ok_skip: "crm_ok L s \<Longrightarrow> crm_ok L (upd_link l (skip_sync b) s)"
  by (rule crm_ok_upd) simp_all

lemma sync_peer_ok:
  assumes "crm_ok L s" "y \<in> L"
  shows "crm_ok L (fst (sync_peer_ready l y r s))"
proof -
  define i where "i = find_slot_for_req (queue (link_at s y)) r"
  define t where "t = with_link y (check_link_is_ready i True) s"
  have q: "queue_ok (queue (link_at s y))" using assms crm_ok_link link_okD(1) by blast
  have t: "crm_ok L (fst t)" if "i \<noteq> -1"
  proof -
    have "0 \<le> i" "i < MAX_REQ_SLOTS" using that by (cases rule: find_slot_cases [OF q, of r], simp_all add: i_def)+
    then show ?thesis unfolding t_def by (rule crm_ok_ready [OF assms])
  qed
  show ?thesis
    unfolding sync_peer_ready_def Let_def i_def [symmetric] t_def [symmetric]
    using assms(1) t crm_ok_skip by (simp add: case_prod_beta)
qed

lemma mslave_self_ok:
  assumes "crm_ok L s" "l \<in> L" "0 \<le> i" "i < MAX_REQ_SLOTS"
  shows "crm_ok L (fst (mslave_self_ready l i hold s))"
proof -
  define t where "t = with_link l (inject_delay_link i) s"
  have t: "crm_ok L (fst t)" unfolding t_def by (rule crm_ok_inject [OF assms])
  define u where "u = with_link l (check_link_is_ready i True) (fst t)"
  have u: "crm_ok L (fst u)" unfolding u_def by (rule crm_ok_ready [OF t assms(2-4)])
  show ?thesis
    unfolding mslave_self_ready_def t_def [symmetric] case_prod_beta u_def [symmetric]
    using t u crm_ok_skip by simp
qed

lemma rd_slot_idx:
  assumes "crm_ok L s" "l \<in> L" "0 \<le> i" "i < MAX_REQ_SLOTS"
  shows "sl_idx (slot (queue (link_at s l)) i) = i"
  using sl_idx_range assms crm_ok_link link_okD(1) by blast

lemma mslave_ok:
  assumes "crm_ok L s" "l \<in> L" "0 \<le> i" "i < MAX_REQ_SLOTS"
  shows "crm_ok L (fst (check_sync_for_mslave l i s))"
proof -
  define y where "y = sync_link (link_at s l)"
  define a where "a = (if is_master (link_at s l) then mslave_self_ready l i (initial_skip (link_at s y)) s
     else mslave_self_ready l i False (upd_link l (\<lambda>lk. lk\<lparr>initial_skip := False\<rparr>) s))"
  have a: "crm_ok L (fst a)"
    using assms mslave_self_ok [OF assms] mslave_self_ok [OF crm_ok_upd [OF assms(1)] assms(2-4)] by (simp add: a_def)
  have b: "crm_ok L (fst (sync_peer_ready l y r (fst a)))" if "y \<noteq> 0" for r
    using sync_peer_ok [OF a] crm_ok_sync [OF assms(1,2)] that by (simp add: y_def)
  have c: "crm_ok L (fst (with_link l (inject_delay_link i) (upd_link y (skip_sync False) s)))"
    by (rule crm_ok_inject [OF crm_ok_skip [OF assms(1)] assms(2-4)])
  have d: "crm_ok L (fst (with_link l (check_link_is_ready i False) (fst (sync_peer_ready l y r (fst a)))))"
    if "y \<noteq> 0" for r
    by (rule crm_ok_ready [OF b [OF that] assms(2-4)])
  show ?thesis
    unfolding check_sync_for_mslave_def Let_def rd_slot_idx [OF assms] y_def [symmetric] a_def [symmetric]
    using assms(1) a b c d by (simp add: case_prod_beta split: option.split)
qed

lemma sync_correct_ok: "crm_ok L s \<Longrightarrow> crm_ok L (fst (sync_correct l r yk s))"
  by (simp add: sync_correct_def Let_def crm_ok_skip)

lemma sync_req_ok:
  assumes "crm_ok L s" "l \<in> L" "0 \<le> i" "i < MAX_REQ_SLOTS"
  shows "crm_ok L (fst (check_sync_req_is_ready l i s))"
proof -
  define y where "y = sync_link (link_at s l)"
  define q where "q = queue (link_at s y)"
  define j where "j = find_slot_for_req q (req_id (slot (queue (link_at s l)) i))"
  define s1 where "s1 = upd_link l (\<lambda>lk. lk\<lparr>initial_skip := False\<rparr>) s"
  have s1: "crm_ok L s1" unfolding s1_def by (rule crm_ok_upd [OF assms(1)]) simp_all
  define s2 where "s2 = with_link l (inject_delay_link i) s1"
  have s2: "crm_ok L (fst s2)" unfolding s2_def by (rule crm_ok_inject [OF s1 assms(2-4)])
  define s3 where "s3 = with_link l (check_link_is_ready i True) (fst s2)"
  have s3: "crm_ok L (fst s3)" unfolding s3_def by (rule crm_ok_ready [OF s2 assms(2-4)])
  define s4 where "s4 = with_link y (check_link_is_ready j True) (fst s3)"
  have s4: "crm_ok L (fst s4)" if "y \<noteq> 0" "j \<noteq> -1"
  proof -
    have y: "y \<in> L" using crm_ok_sync [OF assms(1,2)] that by (simp add: y_def)
    have q: "queue_ok q" unfolding q_def using crm_ok_link [OF assms(1) y] by (rule link_okD)
    have "0 \<le> j" "j < MAX_REQ_SLOTS"
      using that(2) by (cases rule: find_slot_cases [OF q, of "req_id (slot (queue (link_at s l)) i)"], simp_all add: j_def)+
    then show ?thesis unfolding s4_def by (rule crm_ok_ready [OF s3 y])
  qed
  define s5 where "s5 = sync_correct l (req_id (slot (queue (link_at s l)) i)) (link_at s y) (fst s4)"
  have s5: "crm_ok L (fst s5)" if "y \<noteq> 0" "j \<noteq> -1"
    unfolding s5_def by (rule sync_correct_ok [OF s4 [OF that]])
  have s6: "crm_ok L (fst (with_link l (check_link_is_ready i False) (fst s5)))" if "y \<noteq> 0" "j \<noteq> -1"
    by (rule crm_ok_ready [OF s5 [OF that] assms(2-4)])
  have sk: "crm_ok L (fst (with_link l (inject_delay_link i) (upd_link y (skip_sync False) s1)))"
    by (rule crm_ok_inject [OF crm_ok_skip [OF s1] assms(2-4)])
  show ?thesis
    unfolding check_sync_req_is_ready_def Let_def rd_slot_idx [OF assms] y_def [symmetric] q_def [symmetric]
      j_def [symmetric] s1_def [symmetric] s2_def [symmetric] case_prod_beta s3_def [symmetric] s4_def [symmetric]
      s5_def [symmetric]
    using assms(1) s1 s2 s4 s5 s6 sk crm_ok_skip [OF s4] by (simp split: option.split)
qed

subsection \<open>The handlers\<close>

lemma rd_range: "crm_ok L s \<Longrightarrow> l \<in> L \<Longrightarrow> 0 \<le> rd_idx (queue (link_at s l)) \<and> rd_idx (queue (link_at s l)) < MAX_REQ_SLOTS"
  using crm_ok_link link_okD(1) queue_okD(2,3) by blast

lemma sof_check_ok:
  assumes "crm_ok L s" "l \<in> L"
  shows "crm_ok L (fst (sof_check l s))"
proof -
  define y where "y = sync_link (link_at s l)"
  define i where "i = rd_idx (queue (link_at s l))"
  have i: "0 \<le> i" "i < MAX_REQ_SLOTS" using rd_range [OF assms] by (simp_all add: i_def)
  have sl: "sl_idx (slot (queue (link_at s l)) i) = i" by (rule rd_slot_idx [OF assms i])
  have m: "crm_ok L (fst (check_sync_for_mslave l i (upd_link l (\<lambda>lk. lk\<lparr>in_msync_mode := True\<rparr>) s)))"
    by (rule mslave_ok [OF crm_ok_upd [OF assms(1)] assms(2) i]) simp_all
  define s0 where "s0 = upd_link l (\<lambda>lk. lk\<lparr>in_msync_mode := False, initial_sync_req := -1\<rparr>) s"
  define s1 where "s1 = (if in_msync_mode (link_at s l) then
      (if y \<noteq> 0 then upd_link y (\<lambda>yk. yk\<lparr>initial_sync_req := -1, in_msync_mode := False\<rparr>) s0 else s0) else s)"
  have s0: "crm_ok L s0" unfolding s0_def by (rule crm_ok_upd [OF assms(1)]) simp_all
  have s1: "crm_ok L s1" unfolding s1_def using s0 assms(1) crm_ok_upd [OF s0] by simp
  define s2 where "s2 = with_link l (inject_delay_link i) s1"
  have s2: "crm_ok L (fst s2)" unfolding s2_def by (rule crm_ok_inject [OF s1 assms(2) i])
  have s3: "crm_ok L (fst (with_link l (check_link_is_ready i False) (fst s2)))"
    by (rule crm_ok_ready [OF s2 assms(2) i])
  show ?thesis
    unfolding sof_check_def Let_def y_def [symmetric] i_def [symmetric] sl s0_def [symmetric] s1_def [symmetric]
      s2_def [symmetric] case_prod_beta
    using m s2 s3 sync_req_ok [OF assms i] by simp
qed

lemma queue_ok_last: "queue_ok q \<Longrightarrow> 0 \<le> i \<Longrightarrow> i < MAX_REQ_SLOTS \<Longrightarrow> queue_ok (q\<lparr>last_applied_idx := i\<rparr>)"
  by (auto simp: queue_ok_def)

lemma apply_complete_ok:
  assumes "crm_ok L s" "l \<in> L"
  shows "crm_ok L (apply_complete l s)"
proof -
  define lk where "lk = link_at s l"
  define y where "y = sync_link lk"
  define i where "i = rd_idx (queue lk)"
  define n where "n = (if y \<noteq> 0 \<and> in_msync_mode lk \<and> is_master (link_at s y) then max_delay (link_at s y) else max_delay lk)"
  have ok: "link_ok lk" using crm_ok_link [OF assms] by (simp add: lk_def)
  have i: "0 \<le> i" "i < MAX_REQ_SLOTS" using rd_range [OF assms] by (simp_all add: i_def lk_def)
  have num: "num_slots (queue lk) = MAX_REQ_SLOTS" using link_okD(1) [OF ok] queue_okD by blast
  have n: "0 \<le> n" "n < CAM_PIPELINE_DELAY_MAX"
    using max_delay_range [OF ok] max_delay_range [OF crm_ok_link [OF assms(1)], of y] crm_ok_sync [OF assms]
    unfolding n_def y_def lk_def by (cases "sync_link (link_at s l) = 0"; simp)+
  have j: "dec_idx i (n + 1) MAX_REQ_SLOTS < MAX_REQ_SLOTS" using dec_idx_range [of i 48 "n + 1"] i n by simp
  define lk1 where "lk1 = (set_status i CRM_SLOT_STATUS_REQ_APPLIED lk)\<lparr>trigger_mask := 0\<rparr>"
  have ok1: "link_ok lk1" unfolding lk1_def using set_status_ok [OF ok i] by simp
  define lk2 where "lk2 = (if req_id (slot (queue lk) i) > 0 then upd_queue (\<lambda>q. q\<lparr>last_applied_idx := i\<rparr>) lk1 else lk1)"
  have ok2: "link_ok lk2" unfolding lk2_def using ok1 link_ok_upd_queue [OF ok1] queue_ok_last i by simp
  have sy: "sync_link lk2 = sync_link lk" by (simp add: lk2_def lk1_def)
  show ?thesis
    unfolding apply_complete_def Let_def lk_def [symmetric] y_def [symmetric] i_def [symmetric] n_def [symmetric]
      lk1_def [symmetric] lk2_def [symmetric] num
    by (rule crm_ok_upd [OF assms(1)]) (simp_all add: reset_slot_ok [OF ok2 j] sy lk_def)
qed

lemma process_req_send_ok:
  assumes "crm_ok L s" "l \<in> L"
  shows "crm_ok L (fst (process_req_send l trg s))"
proof -
  obtain cs lk rc where send: "cam_req_mgr_send_req trg (dev_calls s) (link_at s l) = (cs, lk, rc)"
    using prod_cases3 by blast
  note ok = send_req_ok [OF crm_ok_link [OF assms] send]
  define s1 where "s1 = (upd_link l (\<lambda>_. lk) s)\<lparr>dev_calls := cs\<rparr>"
  have s1: "crm_ok L s1" unfolding s1_def crm_ok_calls by (rule crm_ok_upd [OF assms(1)]) (simp_all add: ok)
  define i where "i = rd_idx (queue lk)"
  have i: "0 \<le> i" "i < MAX_REQ_SLOTS" using rd_range [OF assms] by (simp_all add: i_def ok)
  have pend: "crm_ok L (upd_link l (set_status i CRM_SLOT_STATUS_REQ_PENDING) s1)"
    by (rule crm_ok_upd [OF s1]) (simp_all add: set_status_ok i)
  define s2 where "s2 = upd_link l (\<lambda>lk. lk\<lparr>trigger_mask := trigger_mask lk OR trg,
      link_state := (if link_state lk = CAM_CRM_LINK_STATE_ERR then CAM_CRM_LINK_STATE_READY else link_state lk),
      sync_link_sof_skip := False\<rparr>) s1"
  have s2: "crm_ok L s2" unfolding s2_def by (rule crm_ok_upd [OF s1]) simp_all
  show ?thesis
    unfolding process_req_send_def send prod.case s1_def [symmetric] i_def [symmetric] Let_def s2_def [symmetric]
    using pend s2 apply_complete_ok [OF s2 assms(2)] by simp
qed

lemma process_req_ok:
  assumes "crm_ok L s" "l \<in> L"
  shows "crm_ok L (fst (cam_req_mgr_process_req l td s))"
proof -
  define i where "i = rd_idx (queue (link_at s l))"
  have i: "0 \<le> i" "i < MAX_REQ_SLOTS" using rd_range [OF assms] by (simp_all add: i_def)
  define s1 where "s1 = upd_link l (\<lambda>lk. lk\<lparr>prev_sof_timestamp := sof_timestamp lk, sof_timestamp := sof_timestamp_val td\<rparr>) s"
  have s1: "crm_ok L s1" unfolding s1_def by (rule crm_ok_upd [OF assms(1)]) simp_all
  note s2 = sof_check_ok [OF s1 assms(2)]
  have pend: "crm_ok L (upd_link l (set_status i CRM_SLOT_STATUS_REQ_PENDING) (fst (sof_check l s1)))"
    by (rule crm_ok_upd [OF s2]) (simp_all add: set_status_ok i)
  show ?thesis
    unfolding cam_req_mgr_process_req_def Let_def i_def [symmetric] s1_def [symmetric] case_prod_beta
    using assms(1) s1 s2 pend process_req_send_ok [OF s2 assms(2)] process_req_send_ok [OF assms] by simp
qed

lemma process_trigger_ok:
  assumes "crm_ok L s" "l \<in> L"
  shows "crm_ok L (fst (cam_req_mgr_process_trigger l data s))"
proof (cases data)
  case (Some td)
  define s1 where "s1 = (if tn_trigger td = CAM_TRIGGER_POINT_SOF then upd_link l (trigger_done (tn_req_id td)) s else s)"
  have s1: "crm_ok L s1" unfolding s1_def using assms(1) crm_ok_upd [OF assms(1) trigger_done_ok] by simp
  define s2 where "s2 = with_link l check_next_req_slot s1"
  have s2: "crm_ok L (fst s2)" unfolding s2_def
    by (rule crm_ok_with [OF s1]) (use check_next_ok crm_ok_link [OF s1 assms(2)] in blast)+
  have s3: "crm_ok L (upd_link l (upd_queue (\<lambda>q. q\<lparr>rd_idx := inc_idx (rd_idx q) 1 (num_slots q)\<rparr>)) (fst s2))"
    by (rule crm_ok_upd [OF s2]) (simp_all add: link_ok_upd_queue queue_ok_rd)
  show ?thesis
    unfolding cam_req_mgr_process_trigger_def Some option.case Let_def s1_def [symmetric] s2_def [symmetric] case_prod_beta
    using assms(1) s1 s2 process_req_ok [OF s3 assms(2)] process_req_ok [OF s1 assms(2)] by simp
qed (simp add: cam_req_mgr_process_trigger_def assms)

lemma process_sched_ok:
  assumes "crm_ok L s" "l \<in> L"
  shows "crm_ok L (fst (cam_req_mgr_process_sched_req l data s))"
proof (cases data)
  case (Some sr)
  define s1 where "s1 = upd_link l (\<lambda>lk. (upd_queue (\<lambda>q. (upd_slot (wr_idx q) (sched_slot sr) q)
      \<lparr>wr_idx := inc_idx (wr_idx q) 1 (num_slots q)\<rparr>) lk)\<lparr>open_req_cnt := open_req_cnt lk + 1\<rparr>) s"
  have q: "queue_ok ((upd_slot (wr_idx q) (sched_slot sr) q)\<lparr>wr_idx := inc_idx (wr_idx q) 1 (num_slots q)\<rparr>)"
    if "queue_ok q" for q
    using queue_ok_wr [OF queue_ok_upd_slot [OF that, of "wr_idx q" "sched_slot sr"]] queue_okD [OF that]
    by (simp add: sched_slot_def upd_slot_def)
  have s1: "crm_ok L s1" unfolding s1_def
    by (rule crm_ok_upd [OF assms(1)]) (simp_all add: link_ok_upd_queue q)
  define s2 where "s2 = upd_link l (\<lambda>lk. lk\<lparr>initial_sync_req := -1\<rparr>) s1"
  have s2: "crm_ok L s2" unfolding s2_def by (rule crm_ok_upd [OF s1]) simp_all
  have s3: "crm_ok L (upd_link (sync_link (link_at s l)) (\<lambda>yk. yk\<lparr>initial_sync_req := -1\<rparr>) s2)"
    by (rule crm_ok_upd [OF s2]) simp_all
  have s4: "crm_ok L (upd_link l (\<lambda>lk. if initial_sync_req lk = -1 then lk\<lparr>initial_sync_req := sr_req_id sr\<rparr> else lk) s1)"
    by (rule crm_ok_upd [OF s1]) simp_all
  show ?thesis
    unfolding cam_req_mgr_process_sched_req_def Some option.case Let_def s1_def [symmetric] s2_def [symmetric]
    using assms(1) s2 s3 s4 by simp
qed (simp add: cam_req_mgr_process_sched_req_def assms)

lemma process_add_ok:
  assumes "crm_ok L s" "l \<in> L"
  shows "crm_ok L (fst (cam_req_mgr_process_add_req l data s))"
proof -
  have "crm_ok L (upd_link l (upd_tbls (map (\<lambda>t. if pd t = p then upd_tslot i (f t) t else t))) s)"
    if "0 \<le> i" "i < MAX_REQ_SLOTS" for i p f
    by (rule crm_ok_upd [OF assms(1)]) (simp_all add: link_ok_upd_tbls same_shape_map that)
  moreover have "\<not> find_slot_for_req (queue (link_at s l)) r < 0 \<Longrightarrow>
      0 \<le> find_slot_for_req (queue (link_at s l)) r \<and> find_slot_for_req (queue (link_at s l)) r < MAX_REQ_SLOTS" for r
    using find_slot_range [OF link_okD(1) [OF crm_ok_link [OF assms]], of r] by simp
  ultimately show ?thesis
    unfolding cam_req_mgr_process_add_req_def using assms(1) by (simp add: Let_def split: option.split)
qed

lemma flush_notify_ok: "crm_ok L s \<Longrightarrow> crm_ok L (fst (flush_notify l fi s))"
  unfolding flush_notify_def case_prod_beta fst_conv crm_ok_calls by (rule crm_ok_upd) simp_all

lemma process_flush_ok:
  assumes "crm_ok L s" "l \<in> L"
  shows "crm_ok L (fst (cam_req_mgr_process_flush_req l data s))"
proof (cases data)
  case (Some fi)
  define i where "i = find_slot_for_req (queue (link_at s l)) (fi_req_id fi)"
  have all: "crm_ok L (upd_link l (flush_all (fi_req_id fi)) s)"
    by (rule crm_ok_upd [OF assms(1)]) (simp_all add: flush_all_ok)
  have one: "crm_ok L (upd_link l (upd_queue (cam_req_mgr_in_q_skip_idx i)) s)" if "\<not> i < 0"
    using that find_slot_range [OF link_okD(1) [OF crm_ok_link [OF assms]], of "fi_req_id fi"]
    by (intro crm_ok_upd [OF assms(1)]) (simp_all add: i_def link_ok_upd_queue skip_slot_ok)
  show ?thesis
    unfolding cam_req_mgr_process_flush_req_def Some option.case Let_def i_def [symmetric]
    using assms(1) all flush_notify_ok [OF assms(1)] flush_notify_ok [OF one] by simp
qed (simp add: cam_req_mgr_process_flush_req_def assms)

lemma process_error_ok:
  assumes "crm_ok L s" "l \<in> L"
  shows "crm_ok L (fst (cam_req_mgr_process_error l data s))"
proof (cases data)
  case (Some en)
  define i where "i = find_slot_for_req (queue (link_at s l)) (en_req_id en)"
  have one: "crm_ok L (upd_link l (rewind_to i) s)" if "\<not> i < 0"
    using that find_slot_range [OF link_okD(1) [OF crm_ok_link [OF assms]], of "en_req_id en"]
    by (intro crm_ok_upd [OF assms(1)]) (simp_all add: i_def rewind_ok)
  show ?thesis
    unfolding cam_req_mgr_process_error_def Some option.case Let_def i_def [symmetric]
    using assms(1) one by (simp add: case_prod_beta)
qed (simp add: cam_req_mgr_process_error_def assms)

lemma process_send_ok:
  assumes "crm_ok L s" "l \<in> L"
  shows "crm_ok L (fst (cam_req_mgr_process_send_req l s))"
proof -
  obtain cs lk rc where send: "cam_req_mgr_send_req CAM_TRIGGER_POINT_SOF (dev_calls s) (link_at s l) = (cs, lk, rc)"
    using prod_cases3 by blast
  note ok = send_req_ok [OF crm_ok_link [OF assms] send]
  have "crm_ok L (upd_link l (\<lambda>_. lk) s)" by (rule crm_ok_upd [OF assms(1)]) (simp_all add: ok)
  then show ?thesis by (simp add: cam_req_mgr_process_send_req_def send)
qed

lemmas handlers_ok = process_trigger_ok process_sched_ok process_add_ok process_flush_ok process_error_ok process_send_ok

subsection \<open>Steps\<close>

inductive crm_step :: "ptr set \<Rightarrow> crm \<Rightarrow> crm \<Rightarrow> bool" for L where
  trigger: "l \<in> L \<Longrightarrow> crm_step L s (fst (cam_req_mgr_process_trigger l data s))"
| sched: "l \<in> L \<Longrightarrow> crm_step L s (fst (cam_req_mgr_process_sched_req l data' s))"
| add: "l \<in> L \<Longrightarrow> crm_step L s (fst (cam_req_mgr_process_add_req l aq s))"
| flush: "l \<in> L \<Longrightarrow> crm_step L s (fst (cam_req_mgr_process_flush_req l fi s))"
| err: "l \<in> L \<Longrightarrow> crm_step L s (fst (cam_req_mgr_process_error l en s))"
| send: "l \<in> L \<Longrightarrow> crm_step L s (fst (cam_req_mgr_process_send_req l s))"

interpretation crm_links: machine "crm_ok L" "crm_step L" "crm_ok L" for L
proof
  fix s t
  assume ok: "crm_ok L s" and step: "crm_step L s t"
  show "crm_ok L t" using step by cases (use handlers_ok [OF ok] in auto)
qed

end
