(* ===== verification/Cam_Crm_Tables.thy ===== *)
theory Cam_Crm_Tables
  imports Cam_Crm_Setup Cam_Crm_Inv
begin

text \<open>
  Setting up a link establishes its invariant: the tables are inserted in the order of their delays
  with the right distance to the next one, every device gets a table and a bit of its own, and a
  table's mask has exactly the bits of its devices. When every device answers with a delay in range
  and memory is found, the set-up succeeds.
\<close>

subsection \<open>Inserting a table\<close>

lemma tbls_ok_tail: "tbls_ok (t # ts) \<Longrightarrow> tbls_ok ts"
  using tbls_ok_Cons by blast

lemma insert_after_ok:
  assumes "tbls_ok (t # ts)" "tbl_ok n" "pd n < pd t" "pd n \<notin> pd ` set ts"
  shows "tbls_ok (insert_tbl_after t ts n) \<and> (\<exists>t' us. insert_tbl_after t ts n = t' # us \<and> pd t' = pd t)"
  using assms
proof (induction ts arbitrary: t)
  case Nil
  then show ?case by (auto simp: tbl_ok_def)
next
  case (Cons u us)
  have ok: "tbl_ok t" "pd u < pd t" "pd_delta t = pd t - pd u" "tbls_ok (u # us)" using Cons.prems(1) by auto
  show ?case
  proof (cases "pd n < pd u")
    case True
    then obtain t' vs where t': "insert_tbl_after u us n = t' # vs" "pd t' = pd u" "tbls_ok (t' # vs)"
      using Cons.IH [OF ok(4) Cons.prems(2) True] Cons.prems(4) by auto
    then show ?thesis using True ok by simp
  next
    case False
    then have "pd u < pd n" using Cons.prems(4) by auto
    then show ?thesis using False ok Cons.prems(2,3) by (auto simp: tbl_ok_def)
  qed
qed

lemma add_tbl_ok:
  assumes "tbls_ok ts" "tbl_ok n" "pd n \<notin> pd ` set ts"
  shows "tbls_ok (cam_req_mgr_add_tbl_to_link n ts)"
proof (cases ts)
  case (Cons t us)
  then show ?thesis
    using assms insert_after_ok [of t us n] by (auto simp: cam_req_mgr_add_tbl_to_link_def tbl_ok_def)
qed (simp add: cam_req_mgr_add_tbl_to_link_def assms)

lemma insert_after_set:
  "(\<lambda>t. t\<lparr>pd_delta := 0\<rparr>) ` set (insert_tbl_after t ts n) = (\<lambda>t. t\<lparr>pd_delta := 0\<rparr>) ` set (n # t # ts)"
  by (induction ts arbitrary: t) (auto simp: insert_commute)

lemma add_tbl_set:
  "(\<lambda>t. t\<lparr>pd_delta := 0\<rparr>) ` set (cam_req_mgr_add_tbl_to_link n ts) = (\<lambda>t. t\<lparr>pd_delta := 0\<rparr>) ` set (n # ts)"
  using insert_after_set by (cases ts) (auto simp: cam_req_mgr_add_tbl_to_link_def)

lemma add_tbl_pred:
  assumes "\<And>t d. P (t\<lparr>pd_delta := d\<rparr>) = P t"
  shows "(\<forall>t\<in>set (cam_req_mgr_add_tbl_to_link n ts). P t) \<longleftrightarrow> P n \<and> (\<forall>t\<in>set ts. P t)"
proof -
  have strip: "(\<forall>t\<in>set us. P t) \<longleftrightarrow> (\<forall>t\<in>(\<lambda>t. t\<lparr>pd_delta := 0\<rparr>) ` set us. P t)" for us
    using assms by simp
  have "(\<forall>t\<in>set (cam_req_mgr_add_tbl_to_link n ts). P t) \<longleftrightarrow> (\<forall>t\<in>set (n # ts). P t)"
    unfolding strip [of "cam_req_mgr_add_tbl_to_link n ts"] strip [of "n # ts"] add_tbl_set ..
  then show ?thesis by simp
qed

lemma add_tbl_pds: "pd ` set (cam_req_mgr_add_tbl_to_link n ts) = insert (pd n) (pd ` set ts)"
proof -
  have "pd ` set us = pd ` ((\<lambda>t. t\<lparr>pd_delta := 0\<rparr>) ` set us)" for us by (simp add: image_image)
  then show ?thesis using add_tbl_set [of n ts] by (metis image_insert list.simps(15))
qed

lemma add_tbl_nonempty: "cam_req_mgr_add_tbl_to_link n ts \<noteq> []"
  using add_tbl_pds [of n ts] by force

lemma tbls_ok_hd_max: "tbls_ok ts \<Longrightarrow> ts \<noteq> [] \<Longrightarrow> pd (hd ts) = Max (pd ` set ts)"
proof -
  assume ok: "tbls_ok ts" and ne: "ts \<noteq> []"
  then obtain t us where ts: "ts = t # us" by (cases ts) auto
  have "pd u \<le> pd t" if "u \<in> set ts" for u using that ts tbls_ok_sorted [of t us u] ok by fastforce
  then show ?thesis using ts by (intro Max_eqI [symmetric]) auto
qed

subsection \<open>Connecting the devices\<close>

definition peers :: "cam_req_mgr_connected_device list \<Rightarrow> int option \<Rightarrow> nat" where
  "peers ds p = length (filter (\<lambda>d. pd_tbl d = p) ds)"

text \<open>A table counts the devices with its delay, and its mask has a bit for each of them.\<close>

definition tbl_counts :: "cam_req_mgr_connected_device list \<Rightarrow> cam_req_mgr_req_tbl \<Rightarrow> bool" where
  "tbl_counts ds t \<longleftrightarrow> dev_count t = int (peers ds (Some (pd t))) \<and>
     (\<forall>n. bit (dev_mask t) n \<longleftrightarrow> n < 32 \<and> n < peers ds (Some (pd t)))"

text \<open>A device's bit is its number among the devices of the same table.\<close>

definition bits_ok :: "cam_req_mgr_connected_device list \<Rightarrow> bool" where
  "bits_ok ds \<longleftrightarrow> (\<forall>i<length ds. dev_bit (ds ! i) = int (peers (take i ds) (pd_tbl (ds ! i))))"

definition conn_ok :: "cam_req_mgr_connected_device list \<Rightarrow> cam_req_mgr_core_link \<Rightarrow> bool" where
  "conn_ok ds lk \<longleftrightarrow> tbls_ok (tbls lk) \<and> list_all tbl_inside (tbls lk) \<and> pd_mask lk = pds_mask (tbls lk) \<and>
     max_delay lk = (if tbls lk = [] then 0 else pd (hd (tbls lk))) \<and> list_all (tbl_counts ds) (tbls lk) \<and>
     list_all (dev_ok (tbls lk)) ds \<and> bits_ok ds"

lemma tbls_ok_map:
  "(\<And>t. pd (f t) = pd t \<and> pd_delta (f t) = pd_delta t \<and> tbl_num_slots (f t) = tbl_num_slots t) \<Longrightarrow>
   tbls_ok (map f ts) = tbls_ok ts"
  by (induction ts rule: tbls_ok.induct) (auto simp: tbl_ok_def)

lemma peers_append: "peers (ds @ [d]) p = peers ds p + (if pd_tbl d = p then 1 else 0)"
  by (simp add: peers_def)

lemma bits_ok_append: "bits_ok ds \<Longrightarrow> dev_bit d = int (peers ds (pd_tbl d)) \<Longrightarrow> bits_ok (ds @ [d])"
  by (auto simp: bits_ok_def nth_append less_Suc_eq)

lemma pd_count_dev [simp]: "map pd (count_dev p ts) = map pd ts"
  by (induction ts) (auto simp: count_dev_def)

lemma count_dev_ok: "tbls_ok (count_dev p ts) = tbls_ok ts"
  unfolding count_dev_def by (rule tbls_ok_map) simp

lemma count_dev_pds: "pd ` set (count_dev p ts) = pd ` set ts"
  by (metis pd_count_dev set_map)

lemma count_dev_inside: "list_all tbl_inside ts \<Longrightarrow> list_all tbl_inside (count_dev p ts)"
  by (auto simp: count_dev_def list_all_iff tbl_inside_def)

lemma count_dev_hd: "ts \<noteq> [] \<Longrightarrow> count_dev p ts \<noteq> [] \<and> pd (hd (count_dev p ts)) = pd (hd ts)"
  by (cases ts) (auto simp: count_dev_def)

lemma bit_or_shift: "bit (m OR push_bit k 1) n \<longleftrightarrow> bit m n \<or> n = k \<and> n < 32" for m :: u32
  unfolding bit_or_iff bit_shift_one ..

lemma count_dev_counts:
  assumes "\<forall>t\<in>set ts. tbl_counts ds t" "pd_tbl d = Some p"
  shows "list_all (tbl_counts (ds @ [d])) (count_dev p ts)"
proof -
  define f where "f t = (if pd t = p then t\<lparr>dev_count := dev_count t + 1,
      dev_mask := dev_mask t OR push_bit (nat (dev_count t)) 1\<rparr> else t)" for t :: cam_req_mgr_req_tbl
  have step: "tbl_counts (ds @ [d]) (f t)" if "tbl_counts ds t" for t
  proof (cases "pd t = p")
    case True
    have n: "nat (dev_count t) = peers ds (Some p)" "dev_count t = int (peers ds (Some p))"
      using that True by (simp_all add: tbl_counts_def)
    define m where "m = dev_mask t OR push_bit (nat (dev_count t)) 1"
    have m: "\<forall>k. bit m k \<longleftrightarrow> k < 32 \<and> k < peers (ds @ [d]) (Some p)"
    proof -
      have "\<forall>k. bit (dev_mask t) k \<longleftrightarrow> k < 32 \<and> k < peers ds (Some p)"
        using that True unfolding tbl_counts_def by simp
      then show ?thesis unfolding m_def bit_or_shift n(1) peers_append assms(2) by (simp add: less_Suc_eq) blast
    qed
    have c: "dev_count t + 1 = int (peers (ds @ [d]) (Some p))"
      unfolding peers_append assms(2) n(2) by simp
    show ?thesis
      unfolding f_def m_def [symmetric] tbl_counts_def using True c m by simp
  next
    case False
    then show ?thesis using that assms(2) by (simp add: f_def tbl_counts_def peers_append)
  qed
  have "count_dev p ts = map f ts" unfolding count_dev_def by (rule map_cong [OF refl]) (simp only: f_def)
  then show ?thesis using assms(1) step by (simp add: list_all_iff)
qed

lemma pds_mask_insert:
  assumes "pd ` set us = insert p (pd ` set ts)"
  shows "pds_mask us = pds_mask ts OR push_bit (nat p) 1"
  by (rule bit_word_eqI) (unfold pds_mask_def bit_or_shift bit_fold_success assms, auto)

lemma pds_mask_bit:
  assumes "tbls_ok ts" "0 \<le> p" "p < CAM_PIPELINE_DELAY_MAX"
  shows "pds_mask ts AND push_bit (nat p) 1 \<noteq> 0 \<longleftrightarrow> p \<in> pd ` set ts"
proof -
  have "pds_mask ts AND push_bit (nat p) 1 \<noteq> 0 \<longleftrightarrow> bit (pds_mask ts) (nat p)"
    by (simp add: and_exp_eq_0_iff_not_bit push_bit_of_1)
  also have "\<dots> \<longleftrightarrow> nat p \<in> nat ` pd ` set ts"
    using assms by (auto simp: pds_mask_def bit_fold_success)
  also have "\<dots> \<longleftrightarrow> p \<in> pd ` set ts"
    using assms(2) tbls_ok_in [OF assms(1)] by (auto simp: tbl_ok_def image_iff eq_nat_nat_iff)
  finally show ?thesis .
qed

lemma find_pd_tbl_in: "p \<in> pd ` set ts \<Longrightarrow> \<exists>t. find_pd_tbl ts p = Some t \<and> t \<in> set ts \<and> pd t = p"
  by (induction ts) auto

lemma attach_ok:
  assumes ok: "conn_ok ds lk" and p: "0 \<le> p" "p < CAM_PIPELINE_DELAY_MAX" "p_delay (dev_info d) = p" "pd_tbl d = Some p"
    and att: "attach_table al p lk = Some (lk1, b)" and bit: "dev_bit d = b"
  shows "conn_ok (ds @ [d]) (lk1\<lparr>max_delay := (if max_delay lk1 < p then p else max_delay lk1)\<rparr>)"
proof -
  define ts where "ts = (if p \<in> pd ` set (tbls lk) then tbls lk
    else cam_req_mgr_add_tbl_to_link (cam_req_mgr_create_pd_tbl\<lparr>pd := p\<rparr>) (tbls lk))"
  have in_mask: "pd_mask lk AND push_bit (nat p) 1 \<noteq> 0 \<longleftrightarrow> p \<in> pd ` set (tbls lk)"
    using ok pds_mask_bit [OF _ p(1,2)] by (simp add: conn_ok_def)
  have new_ok: "tbl_ok (cam_req_mgr_create_pd_tbl\<lparr>pd := p\<rparr>)" and new_inside: "tbl_inside (cam_req_mgr_create_pd_tbl\<lparr>pd := p\<rparr>)"
    using p by (simp_all add: cam_req_mgr_create_pd_tbl_def tbl_ok_def tbl_inside_def)
  have none: "peers ds (Some p) = 0" if "p \<notin> pd ` set (tbls lk)"
    using ok that by (auto simp: conn_ok_def peers_def filter_empty_conv list_all_iff dev_ok_def)
  have new_counts: "tbl_counts ds (cam_req_mgr_create_pd_tbl\<lparr>pd := p\<rparr>)" if "p \<notin> pd ` set (tbls lk)"
    using none [OF that] by (simp add: tbl_counts_def cam_req_mgr_create_pd_tbl_def)
  have tok: "tbls_ok ts" using ok add_tbl_ok [OF _ new_ok] by (simp add: ts_def conn_ok_def)
  have pds: "pd ` set ts = insert p (pd ` set (tbls lk))"
    by (auto simp: ts_def add_tbl_pds)
  have ne: "ts \<noteq> []" using pds by auto
  have inside: "list_all tbl_inside ts"
  proof (cases "p \<in> pd ` set (tbls lk)")
    case False
    then show ?thesis using ok new_inside add_tbl_pred [of tbl_inside] by (simp add: ts_def conn_ok_def list_all_iff tbl_inside_def)
  qed (use ok in \<open>simp add: ts_def conn_ok_def\<close>)
  have counts: "\<forall>t\<in>set ts. tbl_counts ds t"
  proof (cases "p \<in> pd ` set (tbls lk)")
    case False
    then show ?thesis using ok new_counts [OF False] add_tbl_pred [of "tbl_counts ds"]
      by (simp add: ts_def conn_ok_def list_all_iff tbl_counts_def)
  qed (use ok in \<open>simp add: ts_def conn_ok_def list_all_iff\<close>)
  have lk1: "tbls lk1 = count_dev p ts \<and> max_delay lk1 = max_delay lk \<and> b = int (peers ds (Some p)) \<and>
    pd_mask lk1 = pds_mask ts"
  proof (cases "p \<in> pd ` set (tbls lk)")
    case True
    then obtain t where t: "find_pd_tbl (tbls lk) p = Some t" "t \<in> set (tbls lk)" "pd t = p"
      using find_pd_tbl_in by blast
    have "lk1 = upd_tbls (count_dev p) lk" "b = dev_count t"
      using att t(1) True in_mask unfolding attach_table_def by auto
    then show ?thesis
      using True t ok by (simp add: ts_def conn_ok_def list_all_iff tbl_counts_def upd_tbls_def)
  next
    case False
    then have "lk1 = (upd_tbls (\<lambda>ts. count_dev p (cam_req_mgr_add_tbl_to_link (cam_req_mgr_create_pd_tbl\<lparr>pd := p\<rparr>) ts)) lk)
        \<lparr>pd_mask := pd_mask lk OR push_bit (nat p) 1\<rparr>" "b = 0"
      using att in_mask unfolding attach_table_def by (auto split: if_splits)
    moreover have "pd_mask lk OR push_bit (nat p) 1 = pds_mask ts"
      using ok pds_mask_insert [OF pds] by (simp add: conn_ok_def)
    ultimately show ?thesis
      using False none [OF False] by (simp add: ts_def)
  qed
  have hd: "(if max_delay lk < p then p else max_delay lk) = pd (hd ts)"
  proof (cases "tbls lk = []")
    case True
    then show ?thesis using ok p by (simp add: conn_ok_def ts_def cam_req_mgr_add_tbl_to_link_def)
  next
    case False
    have "pd (hd ts) = max p (pd (hd (tbls lk)))"
      using False ok tbls_ok_hd_max [OF tok ne] tbls_ok_hd_max [OF _ False] by (simp add: conn_ok_def pds)
    then show ?thesis using False ok by (simp add: conn_ok_def max_def)
  qed
  have pds2: "pd ` set (count_dev p ts) = pd ` set ts" by (rule count_dev_pds)
  have devs_ok: "list_all (dev_ok (count_dev p ts)) (ds @ [d])"
    using ok p pds by (auto simp: conn_ok_def list_all_iff dev_ok_def pds2)
  have bits: "bits_ok (ds @ [d])" using ok bit lk1 p(4) by (simp add: conn_ok_def bits_ok_append)
  show ?thesis
    using tok inside counts hd lk1 devs_ok bits count_dev_ok [of p ts] count_dev_inside [OF inside, of p]
      count_dev_counts [OF counts p(4)] count_dev_hd [OF ne, of p] pds_mask_cong [OF pds2]
    by (simp add: conn_ok_def split: if_splits)
qed

lemma connect_ok:
  assumes "conn_ok pre lk" "\<forall>d\<in>set ds. 0 \<le> p_delay (dev_info d) \<and> p_delay (dev_info d) < CAM_PIPELINE_DELAY_MAX"
    "connect_devices al i ld ds lk cs = (ds', lk', cs', True)"
  shows "conn_ok (pre @ ds') lk'"
  using assms
proof (induction ds arbitrary: pre i lk cs ds' lk' cs')
  case (Cons d ds)
  define p where "p = p_delay (dev_info d)"
  obtain lk1 b where att: "attach_table (al i) p lk = Some (lk1, b)"
    using Cons.prems(3) by (cases "attach_table (al i) p lk") (auto simp: p_def Let_def)
  define lk2 where "lk2 = lk1\<lparr>max_delay := (if max_delay lk1 < p then p else max_delay lk1)\<rparr>"
  define e where "e = d\<lparr>dev_bit := b, pd_tbl := Some p\<rparr>"
  obtain es where es: "ds' = e # es"
    "connect_devices al (i + 1) ld ds lk2 (cs @ [Link_setup (ld\<lparr>ls_dev_hdl := cd_dev_hdl d\<rparr>)]) = (es, lk', cs', True)"
    using Cons.prems(3) att by (auto simp: p_def [symmetric] Let_def lk2_def e_def split: prod.splits)
  have "conn_ok (pre @ [e]) lk2"
    unfolding lk2_def by (rule attach_ok [OF Cons.prems(1) _ _ _ _ att]) (use Cons.prems(2) in \<open>simp_all add: e_def p_def\<close>)
  from Cons.IH [OF this _ es(2)] Cons.prems(2) show ?case by (simp add: es(1))
qed simp

text \<open>What the loop does not touch.\<close>

lemma attach_frame:
  assumes "attach_table al p lk = Some (lk1, b)"
  shows "queue lk1 = queue lk \<and> in_q_alloc (req lk1) = in_q_alloc (req lk) \<and> apply_data (req lk1) = apply_data (req lk) \<and>
    subscribe_event lk1 = subscribe_event lk \<and> sync_link lk1 = sync_link lk"
  using assms by (auto simp: attach_table_def upd_tbls_def split: if_splits option.splits)

lemma connect_frame:
  assumes "connect_devices al i ld ds lk cs = (ds', lk', cs', b)"
  shows "queue lk' = queue lk \<and> in_q_alloc (req lk') = in_q_alloc (req lk) \<and> apply_data (req lk') = apply_data (req lk) \<and>
    subscribe_event lk' = subscribe_event lk \<and> sync_link lk' = sync_link lk \<and> length ds' = length ds \<and>
    map dev_info ds' = map dev_info ds \<and> map cd_dev_hdl ds' = map cd_dev_hdl ds \<and> map ops ds' = map ops ds"
  using assms
proof (induction ds arbitrary: i lk cs ds' lk' cs')
  case (Cons d ds)
  show ?case
  proof (cases "attach_table (al i) (p_delay (dev_info d)) lk")
    case None
    then show ?thesis using Cons.prems by (auto simp: Let_def)
  next
    case (Some r)
    then obtain lk1 c where att: "attach_table (al i) (p_delay (dev_info d)) lk = Some (lk1, c)" by (cases r) simp
    then show ?thesis
      using Cons.prems attach_frame [OF att] by (auto simp: Let_def split: prod.splits dest!: Cons.IH)
  qed
qed simp

subsection \<open>Setting up a link\<close>

definition answers :: "(ptr \<Rightarrow> cam_req_mgr_kmd_ops) \<Rightarrow> hdl_tbl option \<Rightarrow> u32 \<Rightarrow> bool" where
  "answers ops_at h dev_hdl \<longleftrightarrow>
     (let p = cam_get_device_ops h dev_hdl in
      p \<noteq> 0 \<and> link_setup (ops_at p) \<noteq> None \<and>
      (\<exists>g. get_dev_info (ops_at p) = Some g \<and>
         (\<forall>i. 0 \<le> snd (g i) \<and> 0 \<le> p_delay (fst (g i)) \<and> p_delay (fst (g i)) < CAM_PIPELINE_DELAY_MAX)))"

definition delay_ok :: "cam_req_mgr_connected_device \<Rightarrow> bool" where
  "delay_ok d \<longleftrightarrow> 0 \<le> p_delay (dev_info d) \<and> p_delay (dev_info d) < CAM_PIPELINE_DELAY_MAX"

lemma query_ok:
  assumes "list_all (answers ops_at h) hs" "length ds = length hs"
  shows "\<exists>ds' md' se'. query_devices ops_at h l hs ds md se = (ds', md', se', None) \<and>
    map cd_dev_hdl ds' = hs \<and> list_all delay_ok ds'"
  using assms
proof (induction hs arbitrary: ds md se)
  case (Cons h' hs)
  then obtain d ds1 where ds: "ds = d # ds1" "length ds1 = length hs" by (cases ds) auto
  define p where "p = cam_get_device_ops h h'"
  obtain g where g: "p \<noteq> 0" "link_setup (ops_at p) \<noteq> None" "get_dev_info (ops_at p) = Some g"
    "\<forall>i. 0 \<le> snd (g i) \<and> 0 \<le> p_delay (fst (g i)) \<and> p_delay (fst (g i)) < CAM_PIPELINE_DELAY_MAX"
    using Cons.prems(1) by (auto simp: answers_def p_def Let_def)
  define i where "i = (dev_info d)\<lparr>di_dev_hdl := h'\<rparr>"
  have gi: "0 \<le> snd (g i)" "0 \<le> p_delay (fst (g i))" "p_delay (fst (g i)) < CAM_PIPELINE_DELAY_MAX" using g(4) by auto
  obtain ds' md' se' where IH: "query_devices ops_at h l hs ds1 (if p_delay (fst (g i)) > md then p_delay (fst (g i)) else md)
      (se OR trigger (fst (g i))) = (ds', md', se', None)" "map cd_dev_hdl ds' = hs" "list_all delay_ok ds'"
    using Cons.IH [OF _ ds(2)] Cons.prems(1) unfolding list.pred_inject by blast
  define e where "e = d\<lparr>ops := Some (ops_at p), cd_dev_hdl := h', cd_parent := l, dev_info := fst (g i)\<rparr>"
  have "query_devices ops_at h l (h' # hs) (d # ds1) md se = (e # ds', md', se', None)"
    unfolding query_devices.simps(3) p_def [symmetric] Let_def using g(1-3) gi IH(1)
    by (simp add: op_of_def i_def [symmetric] case_prod_beta e_def del: if_split)
  moreover have "delay_ok e" using gi by (simp add: delay_ok_def e_def)
  ultimately show ?case using IH(2,3) by (simp add: ds(1) e_def)
qed simp

lemma attach_total:
  assumes "conn_ok ds lk" "0 \<le> p" "p < CAM_PIPELINE_DELAY_MAX"
  shows "\<exists>lk1 b. attach_table True p lk = Some (lk1, b)"
proof (cases "p \<in> pd ` set (tbls lk)")
  case True
  then show ?thesis using find_pd_tbl_in [OF True] by (auto simp: attach_table_def)
next
  case False
  then have "\<not> pd_mask lk AND push_bit (nat p) 1 \<noteq> 0"
    using pds_mask_bit [OF _ assms(2,3)] assms(1) by (simp add: conn_ok_def)
  then show ?thesis unfolding attach_table_def by (metis (full_types))
qed

lemma connect_total:
  assumes "conn_ok pre lk" "list_all delay_ok ds" "\<forall>k. al k"
  shows "\<exists>ds' lk' cs'. connect_devices al i ld ds lk cs = (ds', lk', cs', True)"
  using assms
proof (induction ds arbitrary: pre i lk cs)
  case (Cons d ds)
  define p where "p = p_delay (dev_info d)"
  have p: "0 \<le> p" "p < CAM_PIPELINE_DELAY_MAX" using Cons.prems(2) by (auto simp: p_def delay_ok_def)
  obtain lk1 b where att: "attach_table (al i) p lk = Some (lk1, b)"
    using attach_total [OF Cons.prems(1) p] Cons.prems(3) by auto
  define e where "e = d\<lparr>dev_bit := b, pd_tbl := Some p\<rparr>"
  define lk2 where "lk2 = lk1\<lparr>max_delay := (if max_delay lk1 < p then p else max_delay lk1)\<rparr>"
  have "conn_ok (pre @ [e]) lk2"
    unfolding lk2_def by (rule attach_ok [OF Cons.prems(1) p _ _ att]) (simp_all add: e_def p_def)
  from Cons.IH [OF this _ Cons.prems(3)] Cons.prems(2) obtain ds' lk' cs' where
    "connect_devices al (i + 1) ld ds lk2 (cs @ [Link_setup (ld\<lparr>ls_dev_hdl := cd_dev_hdl d\<rparr>)]) = (ds', lk', cs', True)"
    by fastforce
  then show ?case using att by (simp add: p_def [symmetric] Let_def lk2_def)
qed simp

text \<open>A link as it is when it has been reserved.\<close>

definition fresh_link :: "cam_req_mgr_core_link \<Rightarrow> bool" where
  "fresh_link lk \<longleftrightarrow> in_q_alloc (req lk) \<and> queue lk = zero_queue \<and> tbls lk = [] \<and> pd_mask lk = 0 \<and> max_delay lk = 0 \<and>
     apply_inside (apply_data (req lk))"

lemma set_id_shape: "same_shape ts (tbl_set_id_from n ts)"
  by (induction ts arbitrary: n) (auto simp: same_shape_def same_tbl_def tbl_inside_def)

lemma set_id_counts: "list_all (tbl_counts ds) (tbl_set_id_from n ts) = list_all (tbl_counts ds) ts"
  by (induction ts arbitrary: n) (auto simp: tbl_counts_def)

lemma set_skip_counts: "list_all (tbl_counts ds) (cam_req_mgr_tbl_set_all_skip_cnt ts) = list_all (tbl_counts ds) ts"
  by (cases ts) (auto simp: cam_req_mgr_tbl_set_all_skip_cnt_def list_all_iff tbl_counts_def)

lemma set_skip_value: "t \<in> set (cam_req_mgr_tbl_set_all_skip_cnt ts) \<Longrightarrow> skip_traverse t = pd (hd ts) - pd t"
  by (cases ts) (auto simp: cam_req_mgr_tbl_set_all_skip_cnt_def)

lemma setup_queue_ok:
  assumes "queue lk = zero_queue" "cam_req_mgr_setup_in_q lk = (lk1, 0)"
  shows "queue_ok (queue lk1)"
  using assms by (auto simp: cam_req_mgr_setup_in_q_def queue_ok_def zero_queue_def split: if_splits)

text \<open>
  \<open>wired\<close>: the devices of the link and their bits fit the tables, whatever the tables still skip; \<open>set_up\<close>
  adds how often the tables skip a traversal when the link is new.
\<close>

definition wired :: "u32 list \<Rightarrow> cam_req_mgr_core_link \<Rightarrow> bool" where
  "wired hs lk \<longleftrightarrow> link_ok lk \<and> map cd_dev_hdl (devs lk) = hs \<and> list_all (tbl_counts (devs lk)) (tbls lk) \<and> bits_ok (devs lk)"

definition set_up :: "u32 list \<Rightarrow> cam_req_mgr_core_link \<Rightarrow> bool" where
  "set_up hs lk \<longleftrightarrow> link_ok lk \<and> map cd_dev_hdl (devs lk) = hs \<and> list_all (tbl_counts (devs lk)) (tbls lk) \<and>
     bits_ok (devs lk) \<and> (\<forall>t\<in>set (tbls lk). skip_traverse t = max_delay lk - pd t)"

lemma conn_set_up:
  assumes conn: "conn_ok ds lk" and ds: "ds \<noteq> []" "l_dev lk = ds" "num_devs lk = length ds" "map cd_dev_hdl ds = hs"
    and q: "in_q_alloc (req lk)" "queue_ok (queue lk)" "apply_inside (apply_data (req lk))"
  shows "set_up hs (upd_tbls cam_req_mgr_tbl_set_all_skip_cnt (cam_req_mgr_tbl_set_id lk))"
proof -
  define us where "us = cam_req_mgr_tbl_set_all_skip_cnt (tbl_set_id_from (num_tbl (req lk)) (tbls lk))"
  define lk' where "lk' = upd_tbls cam_req_mgr_tbl_set_all_skip_cnt (cam_req_mgr_tbl_set_id lk)"
  have ts: "tbls lk \<noteq> []" using conn ds(1) by (cases ds) (auto simp: conn_ok_def dev_ok_def)
  have sh: "same_shape (tbls lk) us"
    unfolding us_def by (rule same_shape_trans [OF set_id_shape set_all_skip_shape])
  have ok: "link_ok lk" using conn ds q ts by (simp add: conn_ok_def link_ok_def)
  have lk': "tbls lk' = us" "devs lk' = ds" "max_delay lk' = max_delay lk"
    using ds by (simp_all add: lk'_def us_def cam_req_mgr_tbl_set_id_def Let_def upd_tbls_def)
  have "link_ok (upd_tbls (\<lambda>_. us) lk)" using link_ok_upd_tbls [OF ok, of "\<lambda>_. us"] sh by simp
  then have ok': "link_ok lk'"
    by (simp add: lk'_def us_def cam_req_mgr_tbl_set_id_def Let_def upd_tbls_def link_ok_def)
  have skip: "\<forall>t\<in>set us. skip_traverse t = max_delay lk - pd t"
    using set_skip_value [of _ "tbl_set_id_from (num_tbl (req lk)) (tbls lk)"] same_shape_hd [OF set_id_shape ts]
      link_okD(4) [OF ok] by (simp add: us_def)
  have "list_all (tbl_counts ds) us" using conn by (simp add: us_def set_skip_counts set_id_counts conn_ok_def)
  then show ?thesis
    using ok' lk' ds(4) skip conn unfolding lk'_def [symmetric] set_up_def by (simp add: conn_ok_def)
qed

lemma setup_link_ok:
  assumes fresh: "fresh_link lk" and len: "length (l_dev lk) = length (li_dev_hdls li)"
    and ver: "version li = VERSION_1 \<and> length (li_dev_hdls li) \<le> UAPI_MAX_HANDLES \<or>
              version li = VERSION_2 \<and> length (li_dev_hdls li) \<le> CAM_REQ_MGR_MAX_HANDLES_V2"
    and ans: "list_all (answers ops_at h) (li_dev_hdls li)" "li_dev_hdls li \<noteq> []" and al: "\<forall>k. al k"
  shows "\<exists>lk' cs'. cam_req_mgr_setup_link_info ops_at al h l li lk cs = (lk', cs', 0) \<and> set_up (li_dev_hdls li) lk'"
proof -
  define hs where "hs = li_dev_hdls li"
  have hs: "li_devices li = hs" using ver by (auto simp: li_devices_def hs_def)
  define lk0 where "lk0 = lk\<lparr>req := (req lk)\<lparr>num_tbl := 0\<rparr>\<rparr>"
  obtain lk1 where q: "cam_req_mgr_setup_in_q lk0 = (lk1, 0)"
    using fresh by (simp add: cam_req_mgr_setup_in_q_def fresh_link_def lk0_def)
  have q1: "queue_ok (queue lk1)" using fresh by (intro setup_queue_ok [OF _ q]) (simp add: lk0_def fresh_link_def)
  have lk1: "in_q_alloc (req lk1)" "tbls lk1 = []" "pd_mask lk1 = 0" "max_delay lk1 = 0" "apply_inside (apply_data (req lk1))"
    "l_dev lk1 = l_dev lk"
    using q fresh by (auto simp: cam_req_mgr_setup_in_q_def fresh_link_def lk0_def upd_queue_def split: if_splits)
  obtain ds md se where qd: "query_devices ops_at h l hs (l_dev lk1) CAM_PIPELINE_DELAY_0 0 = (ds, md, se, None)"
    "map cd_dev_hdl ds = hs" "list_all delay_ok ds"
    using query_ok [OF ans(1), of "l_dev lk1"] len lk1(6) unfolding hs_def by metis
  have lds: "length ds = length hs" using qd(2) by (metis length_map)
  define lk2 where "lk2 = lk1\<lparr>subscribe_event := se\<rparr>"
  have c0: "conn_ok [] lk2" using lk1 by (simp add: conn_ok_def lk2_def pds_mask_def bits_ok_def)
  define ld where "ld = \<lparr>link_enable = 1, ls_link_hdl = link_hdl lk1, ls_dev_hdl = 0, ls_max_delay = md, ls_subscribe_event = se\<rparr>"
  obtain ds' lk3 cs' where cd: "connect_devices al 0 ld ds lk2 cs = (ds', lk3, cs', True)"
    using connect_total [OF c0 qd(3) al] by metis
  have c1: "conn_ok ds' lk3"
    using connect_ok [OF c0 _ cd] qd(3) by (simp add: list_all_iff delay_ok_def)
  note fr = connect_frame [OF cd]
  define lk4 where "lk4 = lk3\<lparr>l_dev := ds', num_devs := length hs\<rparr>"
  have len': "length ds' = length hs" using fr lds by simp
  have "set_up hs (upd_tbls cam_req_mgr_tbl_set_all_skip_cnt (cam_req_mgr_tbl_set_id lk4))"
    by (rule conn_set_up [of ds'])
      (use c1 fr qd(2) len' lk1 q1 ans(2) in \<open>auto simp: conn_ok_def lk4_def lk2_def hs_def\<close>)
  moreover have "cam_req_mgr_setup_link_info ops_at al h l li lk cs =
      (upd_tbls cam_req_mgr_tbl_set_all_skip_cnt (cam_req_mgr_tbl_set_id lk4), cs', 0)"
    unfolding cam_req_mgr_setup_link_info_def hs hs_def [symmetric] lk0_def [symmetric] q
    using ver qd(1) cd lds
    by (simp add: Let_def hs_def [symmetric] lk2_def [symmetric] ld_def [symmetric] lk4_def) auto
  ultimately show ?thesis by (simp add: hs_def)
qed

end
