(* ===== verification/Cam_Crm_Session.thy ===== *)
theory Cam_Crm_Session
  imports Cam_Crm_Setup
begin

text \<open>
  Sessions and links of the request manager as user space and the drivers see them,
  \<^verbatim>\<open>drivers/cam_req_mgr/cam_req_mgr_core.c\<close>: the ioctl handlers, and the callbacks of the drivers, which
  queue tasks for the link's worker. \<open>run_task\<close> is what the worker does with a task; the handlers it
  runs are those of \<open>Cam_Crm_Process\<close>.

  A function that takes \<^verbatim>\<open>crm_lock\<close> counts it in \<open>crm_lock\<close>, so that a path that releases the lock
  without having taken it shows.
\<close>

subsection \<open>Links of a session\<close>

abbreviation MAXIMUM_LINKS_PER_SESSION :: nat where "MAXIMUM_LINKS_PER_SESSION \<equiv> 4"
abbreviation MAX_LINKS_PER_SESSION :: int where "MAX_LINKS_PER_SESSION \<equiv> 2"
abbreviation CAM_CRM :: u64 where "CAM_CRM \<equiv> 16"
abbreviation CRM_WORKQ_NUM_TASKS :: nat where "CRM_WORKQ_NUM_TASKS \<equiv> 60"
abbreviation CAM_REQ_MGR_WATCHDOG_TIMEOUT :: int where "CAM_REQ_MGR_WATCHDOG_TIMEOUT \<equiv> 5000"

definition links_init :: "ptr \<Rightarrow> nat \<Rightarrow> ptr" where
  "links_init ses i = ses + of_nat (i + 1)"

definition upd_session :: "ptr \<Rightarrow> (cam_req_mgr_core_session \<Rightarrow> cam_req_mgr_core_session) \<Rightarrow> crm \<Rightarrow> crm" where
  "upd_session p f s = s\<lparr>session_at := (session_at s)(p := f (session_at s p))\<rparr>"

definition cam_req_mgr_core_link_reset :: "cam_req_mgr_core_link \<Rightarrow> cam_req_mgr_core_link" where
  "cam_req_mgr_core_link_reset lk = lk\<lparr>link_hdl := 0, num_devs := 0, max_delay := CAM_PIPELINE_DELAY_0,
     link_workq := None, pd_mask := 0, l_dev := [],
     req := (req lk)\<lparr>in_q_alloc := False, l_tbl := [], num_tbl := 0\<rparr>, watchdog := None,
     link_state := CAM_CRM_LINK_STATE_AVAILABLE, link_parent := 0, subscribe_event := 0, trigger_mask := 0,
     sync_link := 0, sync_link_sof_skip := False, open_req_cnt := 0, last_flush_id := 0,
     initial_sync_req := -1, in_msync_mode := False, initial_skip := True, sof_timestamp := 0,
     prev_sof_timestamp := 0\<rparr>"

text \<open>The link that is taken, and the place in the array of links it gets.\<close>

definition first_idx :: "(nat \<Rightarrow> bool) \<Rightarrow> nat option" where
  "first_idx P = find P [0..<MAXIMUM_LINKS_PER_SESSION]"

definition cam_req_mgr_reserve_link :: "bool \<Rightarrow> ptr \<Rightarrow> crm \<Rightarrow> crm \<times> ptr" where
  "cam_req_mgr_reserve_link in_q_found ses s =
     (if ses = 0 then (s, 0)
      else if num_links (session_at s ses) \<ge> MAXIMUM_LINKS_PER_SESSION then (s, 0)
      else
        (case first_idx (\<lambda>i. \<not> is_used (link_at s (links_init ses i))) of
           None \<Rightarrow> (s, 0)
         | Some i \<Rightarrow>
             (let l = links_init ses i;
                  s1 = upd_link l (\<lambda>lk. (cam_req_mgr_core_link_reset lk)\<lparr>is_used := True\<rparr>) s in
              if \<not> in_q_found then (s1, 0)
              else
                (let s2 = upd_link l (\<lambda>lk. lk\<lparr>num_devs := 0, max_delay := 0,
                            req := (req lk)\<lparr>in_q_alloc := True, in_q := zero_queue\<rparr>,
                            link_state := CAM_CRM_LINK_STATE_IDLE, link_parent := ses, sync_link := 0\<rparr>) s1 in
                 case first_idx (\<lambda>j. links (session_at s2 ses) j = 0) of
                   None \<Rightarrow> (s2, 0)
                 | Some j \<Rightarrow>
                     (upd_session ses (\<lambda>se. se\<lparr>links := (links se)(j := l), num_links := num_links se + 1\<rparr>) s2, l)))))"

definition cam_req_mgr_free_link :: "ptr \<Rightarrow> crm \<Rightarrow> crm" where
  "cam_req_mgr_free_link l = upd_link l (\<lambda>lk. lk\<lparr>req := (req lk)\<lparr>in_q_alloc := False\<rparr>\<rparr>)"

definition unreserve_at :: "ptr \<Rightarrow> ptr \<Rightarrow> nat \<Rightarrow> crm \<Rightarrow> crm" where
  "unreserve_at ses l i s =
     (let s1 = (if links (session_at s ses) i = l
                then upd_session ses (\<lambda>se. se\<lparr>links := (links se)(i := 0)\<rparr>)
                       (upd_link (links_init ses i) (\<lambda>lk. lk\<lparr>is_used := False\<rparr>) s)
                else s);
          y = sync_link (link_at s1 l) in
      if y \<noteq> 0 \<and> y = links (session_at s1 ses) i then upd_link y (\<lambda>yk. yk\<lparr>sync_link := 0\<rparr>) s1 else s1)"

definition cam_req_mgr_unreserve_link :: "ptr \<Rightarrow> ptr \<Rightarrow> crm \<Rightarrow> crm" where
  "cam_req_mgr_unreserve_link ses l s =
     (if ses = 0 \<or> l = 0 then s
      else if num_links (session_at s ses) = 0 then s
      else
        (let s1 = fold (unreserve_at ses l) [0..<MAXIMUM_LINKS_PER_SESSION] s;
             s2 = upd_link l (\<lambda>lk. lk\<lparr>sync_link := 0\<rparr>) s1;
             s3 = upd_session ses (\<lambda>se. se\<lparr>num_links := num_links se - 1\<rparr>) s2
         in cam_req_mgr_free_link l s3))"

subsection \<open>Tasks\<close>

text \<open>The addresses of the handlers, and what the worker does with a task.\<close>

abbreviation Fn_process_add_req :: ptr where "Fn_process_add_req \<equiv> 1"
abbreviation Fn_process_error :: ptr where "Fn_process_error \<equiv> 2"
abbreviation Fn_process_trigger :: ptr where "Fn_process_trigger \<equiv> 3"
abbreviation Fn_process_flush_req :: ptr where "Fn_process_flush_req \<equiv> 4"
abbreviation Fn_process_sof_freeze :: ptr where "Fn_process_sof_freeze \<equiv> 5"

definition cam_req_mgr_notify_sof_freeze :: "ptr \<Rightarrow> crm \<Rightarrow> crm" where
  "cam_req_mgr_notify_sof_freeze l s =
     s\<lparr>dev_calls := dev_calls s @ notify_evt \<lparr>ev_link_hdl = link_hdl (link_at s l), ev_dev_hdl = 0, ev_req_id = 0,
         evt_type = CAM_REQ_MGR_LINK_EVT_SOF_FREEZE, ev_error = CRM_KMD_ERR_FATAL\<rparr> (devs (link_at s l))\<rparr>"

text \<open>\<open>notify_rc\<close> is what sending the message to user space returns.\<close>

definition cam_req_mgr_process_sof_freeze :: "int \<Rightarrow> ptr \<Rightarrow> crm_task_payload option \<Rightarrow> crm \<Rightarrow> crm \<times> int" where
  "cam_req_mgr_process_sof_freeze notify_rc l data s =
     (if data = None \<or> l = 0 then (s, code EINVAL)
      else
        (let s1 = cam_req_mgr_notify_sof_freeze l s in
         (s1\<lparr>messages := messages s1 @ [\<lparr>msg_session_hdl = ses_hdl (session_at s1 (link_parent (link_at s1 l))),
              msg_link_hdl = link_hdl (link_at s1 l), msg_request_id = 0\<rparr>]\<rparr>, notify_rc)))"

definition run_task :: "int \<Rightarrow> crm_workq_task \<Rightarrow> crm \<Rightarrow> crm \<times> int" where
  "run_task notify_rc t s =
     (case payload_at s (payload t) of
        Task_dev_add_req aq \<Rightarrow>
          (if process_cb t = Fn_process_add_req then cam_req_mgr_process_add_req (task_priv t) (Some aq) s else (s, 0))
      | Task_notify_err en \<Rightarrow>
          (if process_cb t = Fn_process_error then cam_req_mgr_process_error (task_priv t) (Some en) s else (s, 0))
      | Task_notify_sof td \<Rightarrow>
          (if process_cb t = Fn_process_trigger then cam_req_mgr_process_trigger (task_priv t) (Some td) s else (s, 0))
      | Task_flush_req fi \<Rightarrow>
          (if process_cb t = Fn_process_flush_req then cam_req_mgr_process_flush_req (task_priv t) (Some fi) s else (s, 0))
      | Task_notify_freeze \<Rightarrow>
          (if process_cb t = Fn_process_sof_freeze
           then cam_req_mgr_process_sof_freeze notify_rc (task_priv t) (Some Task_notify_freeze) s else (s, 0))
      | _ \<Rightarrow> (s, 0))"

text \<open>
  The worker of a link: it takes the tasks of each priority in order, runs them and gives them back.
  No handler queues a task for the same link itself, so the tasks pending when it starts are all.
\<close>

definition upd_workq :: "(workq \<Rightarrow> workq) \<Rightarrow> ptr \<Rightarrow> crm \<Rightarrow> crm" where
  "upd_workq f l = upd_link l (\<lambda>lk. lk\<lparr>link_workq := map_option f (link_workq lk)\<rparr>)"

definition work_one :: "int \<Rightarrow> ptr \<Rightarrow> nat \<Rightarrow> crm \<Rightarrow> crm" where
  "work_one notify_rc l i s =
     (case link_workq (link_at s l) of
        None \<Rightarrow> s
      | Some w \<Rightarrow>
          (case take_pending i w of
             None \<Rightarrow> s
           | Some (t, w1) \<Rightarrow>
               upd_workq (cam_req_mgr_workq_put_task t) l
                 (fst (run_task notify_rc (pool w1 t) (upd_workq (\<lambda>_. w1) l s)))))"

definition run_workq :: "int \<Rightarrow> ptr \<Rightarrow> crm \<Rightarrow> crm" where
  "run_workq notify_rc l s =
     (case link_workq (link_at s l) of
        None \<Rightarrow> s
      | Some w \<Rightarrow> (work_one notify_rc l 1 ^^ length (process_head w 1)) ((work_one notify_rc l 0 ^^ length (process_head w 0))
          (upd_workq (\<lambda>w. w\<lparr>work_pending := False\<rparr>) l s)))"

definition enqueue :: "ptr \<Rightarrow> ptr \<Rightarrow> crm_task_payload \<Rightarrow> int \<Rightarrow> crm \<Rightarrow> crm \<times> int" where
  "enqueue l fn task_data busy s =
     (case cam_req_mgr_workq_get_task (link_workq (link_at s l)) of
        (wq, None) \<Rightarrow> (upd_link l (\<lambda>lk. lk\<lparr>link_workq := wq\<rparr>) s, busy)
      | (wq, Some t) \<Rightarrow>
          (let w = the wq;
               s1 = s\<lparr>payload_at := (payload_at s)(payload (pool w t) := task_data)\<rparr>;
               w1 = w\<lparr>pool := (pool w)(t := (pool w t)\<lparr>process_cb := fn\<rparr>)\<rparr> in
           case cam_req_mgr_workq_enqueue_task (Some t) l (int CRM_TASK_PRIORITY_0) (Some w1) of
             (wq2, rc) \<Rightarrow> (upd_link l (\<lambda>lk. lk\<lparr>link_workq := wq2\<rparr>) s1, case rc of Inl e \<Rightarrow> code e | Inr _ \<Rightarrow> 0)))"

definition cam_req_mgr_sof_freeze :: "cam_req_mgr_timer option \<Rightarrow> crm \<Rightarrow> crm" where
  "cam_req_mgr_sof_freeze timer s =
     (case timer of None \<Rightarrow> s
      | Some t \<Rightarrow> fst (enqueue (tm_parent t) Fn_process_sof_freeze Task_notify_freeze 0 s))"

subsection \<open>Callbacks of the drivers\<close>

abbreviation below_ready :: "cam_req_mgr_link_state \<Rightarrow> bool" where
  "below_ready st \<equiv> st = CAM_CRM_LINK_STATE_AVAILABLE \<or> st = CAM_CRM_LINK_STATE_IDLE"

fun dev_handle_to_name :: "u32 \<Rightarrow> cam_req_mgr_connected_device list \<Rightarrow> string" where
  "dev_handle_to_name h [] = ''Invalid dev_hdl''"
| "dev_handle_to_name h (dev # rest) =
     (if h = cd_dev_hdl dev then di_name (dev_info dev) else dev_handle_to_name h rest)"

definition cam_req_mgr_cb_add_req :: "cam_req_mgr_add_request option \<Rightarrow> crm \<Rightarrow> crm \<times> int" where
  "cam_req_mgr_cb_add_req add_req s =
     (case add_req of
        None \<Rightarrow> (s, code EINVAL)
      | Some aq \<Rightarrow>
          (let l = cam_get_device_priv (hdls s) (aq_link_hdl aq) in
           if l = 0 then (s, code EINVAL)
           else if below_ready (link_state (link_at s l)) then (s, code EPERM)
           else if find_slot_for_req (queue (link_at s l)) (aq_req_id aq) < 0 then (s, code ENOENT)
           else enqueue l Fn_process_add_req (Task_dev_add_req aq) (code EBUSY) s))"

definition reset_watchdog :: "ptr \<Rightarrow> crm \<Rightarrow> crm" where
  "reset_watchdog l s = upd_link l (\<lambda>lk. lk\<lparr>watchdog := crm_timer_reset (jiffies s) (watchdog lk)\<rparr>) s"

definition cam_req_mgr_cb_notify_err :: "cam_req_mgr_error_notify option \<Rightarrow> crm \<Rightarrow> crm \<times> int" where
  "cam_req_mgr_cb_notify_err err_info s =
     (case err_info of
        None \<Rightarrow> (s, code EINVAL)
      | Some en \<Rightarrow>
          (let l = cam_get_device_priv (hdls s) (en_link_hdl en) in
           if l = 0 then (s, code EINVAL)
           else if link_state (link_at s l) \<noteq> CAM_CRM_LINK_STATE_READY then (s, code EPERM)
           else enqueue l Fn_process_error (Task_notify_err en) (code EBUSY) (reset_watchdog l s)))"

definition cam_req_mgr_cb_notify_trigger :: "cam_req_mgr_trigger_notify option \<Rightarrow> crm \<Rightarrow> crm \<times> int" where
  "cam_req_mgr_cb_notify_trigger trigger_data s =
     (case trigger_data of
        None \<Rightarrow> (s, code EINVAL)
      | Some td \<Rightarrow>
          (let l = cam_get_device_priv (hdls s) (tn_link_hdl td) in
           if l = 0 then (s, code EINVAL)
           else if below_ready (link_state (link_at s l)) then (s, code EPERM)
           else enqueue l Fn_process_trigger (Task_notify_sof td) (code EBUSY) (reset_watchdog l s)))"

subsection \<open>The ioctls\<close>

definition lock :: "crm \<Rightarrow> crm" where
  "lock s = s\<lparr>crm_lock := crm_lock s + 1\<rparr>"

definition unlock :: "crm \<times> 'r \<Rightarrow> crm \<times> 'r" where
  "unlock r = ((fst r)\<lparr>crm_lock := crm_lock (fst r) - 1\<rparr>, snd r)"

abbreviation locked :: "(crm \<Rightarrow> crm \<times> 'r) \<Rightarrow> crm \<Rightarrow> crm \<times> 'r" where
  "locked f s \<equiv> unlock (f (lock s))"

definition result_code :: "'a result \<Rightarrow> int" where
  "result_code r = (case r of Inl e \<Rightarrow> code e | Inr _ \<Rightarrow> 0)"

text \<open>\<open>ses_addr\<close> is the address the session is allocated at, 0 when there is no memory.\<close>

definition init_links :: "ptr \<Rightarrow> crm \<Rightarrow> crm" where
  "init_links ses s =
     fold (\<lambda>i. upd_link (links_init ses i) (\<lambda>lk. (cam_req_mgr_core_link_reset lk)\<lparr>is_used := False\<rparr>))
       [0..<MAXIMUM_LINKS_PER_SESSION] s"

definition cam_req_mgr_create_session :: "ptr \<Rightarrow> u8 \<Rightarrow> bool \<Rightarrow> crm \<Rightarrow> crm \<times> int \<times> u32" where
  "cam_req_mgr_create_session ses_addr rand ses_info s =
     (if \<not> ses_info then (s, code EINVAL, 0)
      else locked (\<lambda>s.
        if ses_addr = 0 then (s, code ENOMEM, 0)
        else
          (case cam_create_session_hdl rand (hdls s) ses_addr of
             (h, Inl e) \<Rightarrow> (s\<lparr>hdls := h\<rparr>, code e, 0)
           | (h, Inr hv) \<Rightarrow>
               (init_links ses_addr (upd_session ses_addr (\<lambda>_. \<lparr>ses_hdl = hv, num_links = 0, links = (\<lambda>_. 0),
                   force_err_recovery = 0, ses_sync_mode = CAM_REQ_MGR_SYNC_MODE_NO_SYNC\<rparr>)
                  (s\<lparr>hdls := h, session_head := ses_addr # session_head s\<rparr>)), 0, hv))) s)"

text \<open>
  Unlinking. The set-up data that is sent leaves the delay undefined; it is 0 here. The worker has run
  what was queued before the queue goes away.
\<close>

fun disconnect_devices ::
  "cam_req_mgr_core_dev_link_setup \<Rightarrow> cam_req_mgr_connected_device list \<Rightarrow> dev_call list \<Rightarrow> int \<Rightarrow>
   cam_req_mgr_connected_device list \<times> dev_call list \<times> int" where
  "disconnect_devices ld [] cs rc = ([], cs, rc)"
| "disconnect_devices ld (dev # rest) cs rc =
     (let ld' = ld\<lparr>ls_dev_hdl := cd_dev_hdl dev\<rparr>;
          (cs1, rc1) = (case op_of link_setup dev of None \<Rightarrow> (cs, rc)
                        | Some f \<Rightarrow> (cs @ [Link_setup ld'], f (length cs) ld'));
          (rest', cs', rc') = disconnect_devices ld rest cs1 rc1
      in (dev\<lparr>cd_dev_hdl := 0, cd_parent := 0, ops := None\<rparr> # rest', cs', rc'))"

definition cam_req_mgr_disconnect_link :: "ptr \<Rightarrow> crm \<Rightarrow> crm" where
  "cam_req_mgr_disconnect_link l s =
     (let lk = link_at s l in
      case disconnect_devices \<lparr>link_enable = 0, ls_link_hdl = link_hdl lk, ls_dev_hdl = 0, ls_max_delay = 0,
             ls_subscribe_event = 0\<rparr> (devs lk) (dev_calls s) 0 of
        (ds, cs, rc) \<Rightarrow> (upd_link l (\<lambda>lk. lk\<lparr>l_dev := ds @ drop (num_devs lk) (l_dev lk)\<rparr>) s)\<lparr>dev_calls := cs\<rparr>)"

definition link_workq_destroy :: "int \<Rightarrow> ptr \<Rightarrow> crm \<Rightarrow> crm" where
  "link_workq_destroy notify_rc l s = upd_link l (\<lambda>lk. lk\<lparr>link_workq := None\<rparr>) (run_workq notify_rc l s)"

definition unlink_core :: "int \<Rightarrow> ptr \<Rightarrow> crm \<Rightarrow> crm \<times> int" where
  "unlink_core notify_rc l s =
     (let s1 = cam_req_mgr_disconnect_link l (upd_link l (\<lambda>lk. lk\<lparr>link_state := CAM_CRM_LINK_STATE_IDLE\<rparr>) s);
          s2 = upd_link l (\<lambda>lk. lk\<lparr>watchdog := crm_timer_exit (watchdog lk)\<rparr>) s1;
          s3 = link_workq_destroy notify_rc l s2;
          s4 = upd_link l cam_req_mgr_destroy_link_info s3
      in case cam_destroy_device_hdl (hdls s4) (link_hdl (link_at s4 l)) of
           (h, Inl e) \<Rightarrow> (s4\<lparr>hdls := h\<rparr>, code e)
         | (h, Inr _) \<Rightarrow> (upd_link l (\<lambda>lk. lk\<lparr>link_hdl := -1\<rparr>) (s4\<lparr>hdls := h\<rparr>), 0))"

definition destroy_links :: "int \<Rightarrow> ptr \<Rightarrow> crm \<Rightarrow> crm" where
  "destroy_links notify_rc ses s =
     fold (\<lambda>i s. let l = links (session_at s ses) i in
                 if l = 0 then s else cam_req_mgr_free_link l (fst (unlink_core notify_rc l s)))
       [0..<MAXIMUM_LINKS_PER_SESSION] s"

definition cam_req_mgr_destroy_session :: "int \<Rightarrow> u32 option \<Rightarrow> crm \<Rightarrow> crm \<times> int" where
  "cam_req_mgr_destroy_session notify_rc ses_info s =
     (case ses_info of
        None \<Rightarrow> (s, code EINVAL)
      | Some hv \<Rightarrow> locked (\<lambda>s.
          (let ses = cam_get_device_priv (hdls s) hv in
           if ses = 0 then (s, code ENOENT)
           else
             (let s1 = (if num_links (session_at s ses) \<noteq> 0 then destroy_links notify_rc ses s else s);
                  s2 = s1\<lparr>session_head := removeAll ses (session_head s1)\<rparr> in
              case cam_destroy_session_hdl (hdls s2) hv of (h, r) \<Rightarrow> (s2\<lparr>hdls := h\<rparr>, result_code r)))) s)"

definition cam_req_mgr_handle_core_shutdown :: "int \<Rightarrow> crm \<Rightarrow> crm" where
  "cam_req_mgr_handle_core_shutdown notify_rc s =
     fold (\<lambda>ses s. fst (cam_req_mgr_destroy_session notify_rc (Some (ses_hdl (session_at s ses))) s)) (session_head s) s"

text \<open>Everything that can fail while a link is made.\<close>

record link_env =
  e_in_q :: bool
  e_rand :: u8
  e_subdevs :: bool
  e_tbl :: "nat \<Rightarrow> bool"
  e_wq :: bool
  e_job :: bool
  e_pool :: bool
  e_payload :: ptr
  e_ops :: "ptr \<Rightarrow> cam_req_mgr_kmd_ops"
  e_notify_rc :: int

definition cam_req_mgr_setup_payload :: "ptr \<Rightarrow> workq \<Rightarrow> workq \<times> int" where
  "cam_req_mgr_setup_payload task_data w =
     (if task_data = 0 then (w, code ENOMEM)
      else (w\<lparr>pool := (\<lambda>i. if i < num_task w then (pool w i)\<lparr>payload := task_data + of_nat i\<rparr> else pool w i)\<rparr>, 0))"

text \<open>The end of a failed link: the handle is given back, if there is one, and the link is freed.\<close>

definition link_failed :: "bool \<Rightarrow> ptr \<Rightarrow> ptr \<Rightarrow> int \<Rightarrow> crm \<Rightarrow> crm \<times> int \<times> u32" where
  "link_failed has_hdl ses l rc s =
     (let s1 = (if has_hdl then s\<lparr>hdls := fst (cam_destroy_device_hdl (hdls s) (link_hdl (link_at s l)))\<rparr> else s)
      in (cam_req_mgr_unreserve_link ses l s1, rc, -1))"

definition link_start :: "link_env \<Rightarrow> ptr \<Rightarrow> ptr \<Rightarrow> crm \<Rightarrow> crm \<times> int \<times> u32" where
  "link_start env ses l s =
     (let s1 = upd_link l (\<lambda>lk. lk\<lparr>link_state := CAM_CRM_LINK_STATE_READY\<rparr>) s in
      case cam_req_mgr_workq_create (e_wq env) (e_job env) (e_pool env) CRM_WORKQ_NUM_TASKS False 0 (link_workq (link_at s1 l)) of
        (_, wq, Inl e) \<Rightarrow>
          link_failed True ses l (code e) (upd_link l (\<lambda>lk. cam_req_mgr_destroy_link_info (lk\<lparr>link_workq := wq\<rparr>)) s1)
      | (_, wq, Inr _) \<Rightarrow>
          (case cam_req_mgr_setup_payload (e_payload env) (the wq) of
             (w, rc) \<Rightarrow>
               (let s2 = upd_link l (\<lambda>lk. lk\<lparr>link_workq := Some w\<rparr>) s1 in
                if rc < 0
                then link_failed True ses l rc
                       (link_workq_destroy (e_notify_rc env) l (upd_link l cam_req_mgr_destroy_link_info s2))
                else (s2, rc, link_hdl (link_at s2 l)))))"

definition link_common :: "link_env \<Rightarrow> u64 \<Rightarrow> cam_req_mgr_ver_info \<Rightarrow> crm \<Rightarrow> crm \<times> int \<times> u32" where
  "link_common env id_no li s =
     (let ses = cam_get_device_priv (hdls s) (li_session_hdl li) in
      if ses = 0 then (s, code EINVAL, li_link_hdl li)
      else
        (case cam_req_mgr_reserve_link (e_in_q env) ses s of
           (s1, l) \<Rightarrow>
             if l = 0 then (s1, code EINVAL, li_link_hdl li)
             else
               (case cam_create_device_hdl (e_rand env) (hdls s1)
                       \<lparr>c_session_hdl = li_session_hdl li, c_dev_id = id_no, c_ops = 0, c_priv = l\<rparr> of
                  (h, Inl e) \<Rightarrow>
                    (case link_failed False ses l (code e)
                            (upd_link l (\<lambda>lk. lk\<lparr>link_hdl := word_of_int (code e)\<rparr>) (s1\<lparr>hdls := h\<rparr>)) of
                       (s2, rc, _) \<Rightarrow> (s2, rc, li_link_hdl li))
                | (h, Inr hv) \<Rightarrow>
                    (let s2 = upd_link l (\<lambda>lk. lk\<lparr>link_hdl := hv, last_flush_id := 0\<rparr>) (s1\<lparr>hdls := h\<rparr>) in
                     if \<not> e_subdevs env then link_failed True ses l (code ENOMEM) s2
                     else
                       (let s3 = upd_link l (\<lambda>lk. lk\<lparr>l_dev := replicate (length (li_dev_hdls li)) zero_device\<rparr>) s2 in
                        case cam_req_mgr_setup_link_info (e_ops env) (e_tbl env) (hdls s3) l li (link_at s3 l) (dev_calls s3) of
                          (lk, cs, rc) \<Rightarrow>
                            (let s4 = (upd_link l (\<lambda>_. lk) s3)\<lparr>dev_calls := cs\<rparr> in
                             if rc < 0 then link_failed True ses l rc s4 else link_start env ses l s4))))))"

definition cam_req_mgr_link :: "link_env \<Rightarrow> cam_req_mgr_ver_info option \<Rightarrow> crm \<Rightarrow> crm \<times> int \<times> u32" where
  "cam_req_mgr_link env link_info s =
     (case link_info of
        None \<Rightarrow> (s, code EINVAL, 0)
      | Some li \<Rightarrow>
          if length (li_dev_hdls li) > UAPI_MAX_HANDLES then (s, code EINVAL, li_link_hdl li)
          else locked (link_common env CAM_CRM li) s)"

definition cam_req_mgr_link_v2 :: "link_env \<Rightarrow> cam_req_mgr_ver_info option \<Rightarrow> crm \<Rightarrow> crm \<times> int \<times> u32" where
  "cam_req_mgr_link_v2 env link_info s =
     (case link_info of
        None \<Rightarrow> (s, code EINVAL, 0)
      | Some li \<Rightarrow>
          if length (li_dev_hdls li) > CAM_REQ_MGR_MAX_HANDLES_V2 then (s, code EINVAL, li_link_hdl li)
          else locked (link_common env 0 li) s)"

definition cam_req_mgr_unlink :: "int \<Rightarrow> (u32 \<times> u32) option \<Rightarrow> crm \<Rightarrow> crm \<times> int" where
  "cam_req_mgr_unlink notify_rc unlink_info s =
     (case unlink_info of
        None \<Rightarrow> (s, code EINVAL)
      | Some (ui_session_hdl, ui_link_hdl) \<Rightarrow> locked (\<lambda>s.
          (let ses = cam_get_device_priv (hdls s) ui_session_hdl; l = cam_get_device_priv (hdls s) ui_link_hdl in
           if ses = 0 then (s, code EINVAL)
           else if l = 0 then (s, code EINVAL)
           else (case unlink_core notify_rc l s of (s1, rc) \<Rightarrow> (cam_req_mgr_unreserve_link ses l s1, rc)))) s)"

definition cam_req_mgr_schedule_request :: "cam_req_mgr_sched_request option \<Rightarrow> crm \<Rightarrow> crm \<times> int" where
  "cam_req_mgr_schedule_request sched_req s =
     (case sched_req of
        None \<Rightarrow> (s, code EINVAL)
      | Some sr \<Rightarrow> locked (\<lambda>s.
          (let l = cam_get_device_priv (hdls s) (sr_link_hdl sr); lk = link_at s l; ses = link_parent lk;
               force = force_err_recovery (session_at s ses) in
           if l = 0 then (s, code EINVAL)
           else if ses = 0 then (s, code EINVAL)
           else if sr_req_id sr \<le> uint (last_flush_id lk) then (s, code EINVAL)
           else cam_req_mgr_process_sched_req l
                  (Some (sr\<lparr>bubble_enable := (if force = 0 then bubble_enable sr else if force = 1 then 1 else 0)\<rparr>))
                  (upd_link l (\<lambda>lk. lk\<lparr>last_flush_id := 0\<rparr>) s))) s)"

definition cam_req_mgr_set_master_link :: "ptr \<Rightarrow> ptr \<Rightarrow> crm \<Rightarrow> crm" where
  "cam_req_mgr_set_master_link l1 l2 s =
     (if max_delay (link_at s l1) > max_delay (link_at s l2)
      then upd_link l2 (\<lambda>lk. lk\<lparr>initial_skip := True\<rparr>) (upd_link l1 (\<lambda>lk. lk\<lparr>is_master := True\<rparr>) s)
      else if max_delay (link_at s l2) > max_delay (link_at s l1)
      then upd_link l1 (\<lambda>lk. lk\<lparr>initial_skip := True\<rparr>) (upd_link l2 (\<lambda>lk. lk\<lparr>is_master := True\<rparr>) s)
      else s)"

record cam_req_mgr_sync_info =
  sy_session_hdl :: u32
  sy_sync_mode :: int
  sy_num_links :: int
  sy_link_hdl0 :: u32
  sy_link_hdl1 :: u32

definition sync_reset_link :: "cam_req_mgr_core_link \<Rightarrow> cam_req_mgr_core_link" where
  "sync_reset_link lk = lk\<lparr>sync_link_sof_skip := False, sync_link := 0, is_master := False, in_msync_mode := False,
     initial_sync_req := -1\<rparr>"

definition cam_req_mgr_sync_config :: "cam_req_mgr_sync_info option \<Rightarrow> crm \<Rightarrow> crm \<times> int" where
  "cam_req_mgr_sync_config sync_info s =
     (case sync_info of
        None \<Rightarrow> (s, code EINVAL)
      | Some si \<Rightarrow>
          if sy_num_links si < 0 \<or> sy_num_links si > MAX_LINKS_PER_SESSION then (s, code EINVAL)
          else if sy_sync_mode si \<noteq> CAM_REQ_MGR_SYNC_MODE_SYNC \<and> sy_sync_mode si \<noteq> CAM_REQ_MGR_SYNC_MODE_NO_SYNC
          then (s, code EINVAL)
          else if sy_link_hdl0 si = 0 \<or> sy_link_hdl1 si = 0 then (s, code EINVAL)
          else locked (\<lambda>s.
            (let ses = cam_get_device_priv (hdls s) (sy_session_hdl si);
                 l1 = cam_get_device_priv (hdls s) (sy_link_hdl0 si);
                 l2 = cam_get_device_priv (hdls s) (sy_link_hdl1 si) in
             if ses = 0 then (s, code EINVAL)
             else if l1 = 0 then (s, code EINVAL)
             else if l2 = 0 then (s, code EINVAL)
             else
               (let s1 = upd_link l2 sync_reset_link (upd_link l1 sync_reset_link s);
                    s2 = (if sy_sync_mode si = CAM_REQ_MGR_SYNC_MODE_SYNC
                          then cam_req_mgr_set_master_link l1 l2
                                 (upd_link l2 (\<lambda>lk. lk\<lparr>sync_link := l1\<rparr>) (upd_link l1 (\<lambda>lk. lk\<lparr>sync_link := l2\<rparr>) s1))
                          else upd_link l2 (\<lambda>lk. lk\<lparr>initial_skip := True, sof_timestamp := 0\<rparr>)
                                 (upd_link l1 (\<lambda>lk. lk\<lparr>initial_skip := True, sof_timestamp := 0\<rparr>) s1))
                in (upd_session ses (\<lambda>se. se\<lparr>ses_sync_mode := sy_sync_mode si\<rparr>) s2, 0)))) s)"

text \<open>\<open>served\<close> says whether the worker runs before the wait for it ends.\<close>

definition cam_req_mgr_flush_requests :: "int \<Rightarrow> bool \<Rightarrow> cam_req_mgr_flush_info option \<Rightarrow> crm \<Rightarrow> crm \<times> int" where
  "cam_req_mgr_flush_requests notify_rc served flush_info s =
     (case flush_info of
        None \<Rightarrow> unlock (s, code EFAULT)
      | Some fi \<Rightarrow>
          if flush_type fi \<ge> CAM_REQ_MGR_FLUSH_TYPE_MAX then unlock (s, code EINVAL)
          else locked (\<lambda>s.
            (let ses = cam_get_device_priv (hdls s) (fi_session_hdl fi);
                 l = cam_get_device_priv (hdls s) (fi_link_hdl fi) in
             if ses = 0 then (s, code EINVAL)
             else if num_links (session_at s ses) = 0 then (s, 0)
             else if l = 0 then (s, code EINVAL)
             else
               (let s0 = upd_link l (\<lambda>lk. lk\<lparr>workq_comp := 0\<rparr>) s in
                case cam_req_mgr_workq_get_task (link_workq (link_at s l)) of
                  (_, None) \<Rightarrow> (s, code ENOMEM)
                | (_, Some _) \<Rightarrow>
                    (case enqueue l Fn_process_flush_req (Task_flush_req fi) (code ENOMEM) s0 of
                       (s1, rc) \<Rightarrow>
                         if rc < 0 then (s1, rc)
                         else
                           (let s2 = (if served then run_workq notify_rc l s1 else s1) in
                            (s2, if workq_comp (link_at s2 l) = 0 then code ETIMEDOUT else 0)))))) s)"

record cam_req_mgr_link_control_info =
  lc_ops :: int
  lc_session_hdl :: u32
  lc_num_links :: int
  lc_link_hdls :: "u32 list"

definition evt_to_all :: "cam_req_mgr_link_evt_type \<Rightarrow> ptr \<Rightarrow> crm \<Rightarrow> crm" where
  "evt_to_all ty l s =
     s\<lparr>dev_calls := dev_calls s @ notify_evt \<lparr>ev_link_hdl = link_hdl (link_at s l), ev_dev_hdl = 0, ev_req_id = 0,
         evt_type = ty, ev_error = CRM_KMD_ERR_NOT_FOUND\<rparr> (devs (link_at s l))\<rparr>"

fun control_links :: "bool \<Rightarrow> int \<Rightarrow> u32 list \<Rightarrow> int \<Rightarrow> crm \<Rightarrow> crm \<times> int" where
  "control_links timer_alloc op_no [] rc s = (s, rc)"
| "control_links timer_alloc op_no (h # hs) rc s =
     (let l = cam_get_device_priv (hdls s) h in
      if l = 0 then (s, code EINVAL)
      else if op_no = 0 then
        (case crm_timer_init timer_alloc (jiffies s) CAM_REQ_MGR_WATCHDOG_TIMEOUT l (Some Fn_sof_freeze) (watchdog (link_at s l)) of
           (w, rc1) \<Rightarrow>
             control_links timer_alloc op_no hs (if rc1 < 0 then code EFAULT else rc1)
               (evt_to_all CAM_REQ_MGR_LINK_EVT_RESUME l (upd_link l (\<lambda>lk. lk\<lparr>watchdog := w\<rparr>) s)))
      else if op_no = 1 then
        control_links timer_alloc op_no hs rc
          (evt_to_all CAM_REQ_MGR_LINK_EVT_PAUSE l (upd_link l (\<lambda>lk. lk\<lparr>watchdog := crm_timer_exit (watchdog lk)\<rparr>) s))
      else control_links timer_alloc op_no hs (code EINVAL) s)"

definition cam_req_mgr_link_control :: "bool \<Rightarrow> cam_req_mgr_link_control_info option \<Rightarrow> crm \<Rightarrow> crm \<times> int" where
  "cam_req_mgr_link_control timer_alloc control s =
     (case control of
        None \<Rightarrow> (s, code EINVAL)
      | Some c \<Rightarrow>
          if lc_num_links c \<le> 0 \<or> lc_num_links c > MAX_LINKS_PER_SESSION then (s, code EINVAL)
          else locked (control_links timer_alloc (lc_ops c) (take (nat (lc_num_links c)) (lc_link_hdls c)) 0) s)"

fun dump_devices ::
  "cam_req_mgr_dump_info \<Rightarrow> cam_req_mgr_connected_device list \<Rightarrow> dev_call list \<Rightarrow> cam_req_mgr_dump_info \<times> dev_call list" where
  "dump_devices info [] cs = (info, cs)"
| "dump_devices info (dev # rest) cs =
     (let info' = info\<lparr>du_dev_hdl := cd_dev_hdl dev\<rparr> in
      case op_of dump_req dev of
        None \<Rightarrow> dump_devices info' rest cs
      | Some f \<Rightarrow> dump_devices ((f (length cs) info')\<lparr>du_req_id := du_req_id info, du_link_hdl := du_link_hdl info,
                                 du_buf_handle := du_buf_handle info\<rparr>) rest (cs @ [Dump_req info']))"

record cam_dump_req_cmd =
  issue_req_id :: int
  session_handle :: u32
  dr_link_hdl :: u32
  buf_handle :: u32
  dr_offset :: int

definition cam_req_mgr_dump_request :: "cam_dump_req_cmd option \<Rightarrow> crm \<Rightarrow> crm \<times> int \<times> int" where
  "cam_req_mgr_dump_request dump s =
     (case dump of
        None \<Rightarrow> unlock (s, 0, 0)
      | Some d \<Rightarrow> locked (\<lambda>s.
          (let ses = cam_get_device_priv (hdls s) (session_handle d); l = cam_get_device_priv (hdls s) (dr_link_hdl d) in
           if ses = 0 \<or> num_links (session_at s ses) = 0 \<or> l = 0 then (s, 0, dr_offset d)
           else
             (case dump_devices \<lparr>du_req_id = issue_req_id d, du_link_hdl = dr_link_hdl d, du_dev_hdl = 0,
                     du_buf_handle = buf_handle d, du_offset = dr_offset d\<rparr> (devs (link_at s l)) (dev_calls s) of
                (info, cs) \<Rightarrow> (s\<lparr>dev_calls := cs\<rparr>, 0, du_offset info)))) s)"

end
