(* ===== verification/Cam_Crm_Props.thy ===== *)
theory Cam_Crm_Props
  imports Cam_Crm_Tables Cam_Crm_Session
begin

text \<open>
  What the request manager does for a link: a table becomes ready when all its devices have reported
  a request, a link is ready when all its tables are, and at a start of frame every device is handed
  the request that lies as many slots back as its delay is shorter than the longest one. Then what it
  does not do: flushing leaves the tables ready, the count of open requests drifts, and a device that
  reports a delay out of range makes a link that is ready and empty.
\<close>

subsection \<open>Readiness\<close>

text \<open>
  C2: A link is ready for the slot \<open>idx\<close> exactly if every table has the request of the slot
  \<open>max_delay - pd\<close> places before \<open>idx\<close> (round the ring), or that slot is skipped, or the table still
  skips traversals. If it is, every table is told that slot and its request, a table that skips is told
  no request and skips one less; if it is not, the tables are as before.
\<close>

theorem ready_spec:
  assumes "link_ok lk" "0 \<le> idx" "idx < MAX_REQ_SLOTS" "check_link_is_ready idx False lk = (lk', rc)"
  shows "(rc = 0 \<longleftrightarrow> (\<forall>t\<in>set (tbls lk). ts_state (tbl_slot t (slot_at (max_delay lk) idx (pd t))) = CRM_REQ_STATE_READY \<or>
            skip_idx (slot (queue lk) (slot_at (max_delay lk) idx (pd t))) = 1 \<or> skip_traverse t > 0)) \<and>
         (rc = 0 \<longrightarrow> (\<forall>t\<in>set (tbls lk). apply_data (req lk') (pd t) =
            \<lparr>ap_idx = slot_at (max_delay lk) idx (pd t), ap_pd = pd t,
             ap_req_id = (if skip_traverse t > 0 then -1 else req_id (slot (queue lk) (slot_at (max_delay lk) idx (pd t)))),
             ap_skip_idx = 0\<rparr>) \<and> tbls lk' = map dec_skip (tbls lk)) \<and>
         (rc \<noteq> 0 \<longrightarrow> rc = code EAGAIN \<and> tbls lk' = tbls lk)"
proof (cases "link_agrees lk idx")
  case True
  have fnd: "find (\<lambda>u. pd u = pd t) (tbls lk) = Some t" if "t \<in> set (tbls lk)" for t
    using find_distinct [OF tbls_ok_distinct [OF link_okD(3) [OF assms(1)]] that] .
  have rng: "0 \<le> pd t \<and> pd t < CAM_PIPELINE_DELAY_MAX" if "t \<in> set (tbls lk)" for t
    using tbls_ok_in [OF link_okD(3) [OF assms(1)] that] by (simp add: tbl_ok_def)
  show ?thesis
    using True assms(4) fnd rng unfolding check_ready_yes [OF assms(1-3) True]
    by (auto simp: link_agrees_def tbl_agrees_def list_all_iff Let_def tbl_apply_def cleared_def zero_apply_def)
next
  case False
  then show ?thesis
    using assms(4) unfolding check_ready_no [OF assms(1-3) False]
    by (auto simp: link_agrees_def tbl_agrees_def list_all_iff Let_def)
qed

subsection \<open>Sending\<close>

definition wants :: "cam_req_mgr_core_link \<Rightarrow> u32 \<Rightarrow> cam_req_mgr_connected_device \<Rightarrow> bool" where
  "wants lk trg dev \<longleftrightarrow>
     (let a = apply_data (req lk) (p_delay (dev_info dev)) in
      p_delay (dev_info dev) < CAM_PIPELINE_DELAY_MAX \<and> ap_skip_idx a = 0 \<and> 0 \<le> ap_req_id a \<and> has_trigger dev trg)"

definition call_of :: "cam_req_mgr_core_link \<Rightarrow> u32 \<Rightarrow> cam_req_mgr_connected_device \<Rightarrow> dev_call" where
  "call_of lk trg dev =
     (let a = apply_data (req lk) (p_delay (dev_info dev)) in
      Apply_req \<lparr>ar_link_hdl = link_hdl lk, ar_dev_hdl = cd_dev_hdl dev, request_id = ap_req_id a,
        report_if_bubble = recover (slot (queue lk) (ap_idx a)), trigger_point = trg\<rparr>)"

text \<open>A device that takes every request and has asked for no frame of its own.\<close>

definition takes_all :: "cam_req_mgr_connected_device \<Rightarrow> bool" where
  "takes_all dev \<longleftrightarrow> (\<exists>f. op_of apply_req dev = Some f \<and> (\<forall>n r. 0 \<le> f n r))"

definition quiet :: "cam_req_mgr_core_link \<Rightarrow> cam_req_mgr_req_tbl list \<Rightarrow> cam_req_mgr_connected_device \<Rightarrow> bool" where
  "quiet lk ts dev \<longleftrightarrow>
     (let sl = dev_slot ts (pd_tbl dev) (ap_idx (apply_data (req lk) (p_delay (dev_info dev)))) in
      \<not> skip_next_frame sl \<and> \<not> is_applied sl)"

lemma send_alone_none: "list_all (quiet lk ts) ds \<Longrightarrow> send_alone lk trg ds cs ts = (cs, ts, None)"
  by (induction ds) (auto simp: Let_def quiet_def)

definition max_count :: "cam_req_mgr_core_link \<Rightarrow> u32 \<Rightarrow> cam_req_mgr_connected_device list \<Rightarrow> nat" where
  "max_count lk trg ds = length (filter (\<lambda>d. wants lk trg d \<and> p_delay (dev_info d) = max_delay lk) ds)"

lemma send_all_takes:
  assumes "list_all (quiet lk ts) ds" "list_all takes_all ds" "0 \<le> rc"
  shows "\<exists>rc'\<ge>0. send_all lk trg seen ds (cs, ts, cnt, rc) =
    (cs @ map (call_of lk trg) (filter (wants lk trg) ds), ts, cnt - int (max_count lk trg ds), rc')"
  using assms
proof (induction ds arbitrary: seen cs cnt rc)
  case Nil
  then show ?case by (auto simp: max_count_def)
next
  case (Cons d ds)
  obtain f where f: "op_of apply_req d = Some f" "\<And>n r. 0 \<le> f n r" using Cons.prems(2) by (auto simp: takes_all_def)
  have nf: "\<not> f n r < 0" for n r using f(2) [of n r] by linarith
  have q: "\<not> is_applied (dev_slot ts (pd_tbl d) (ap_idx (apply_data (req lk) (p_delay (dev_info d)))))"
    using Cons.prems(1) by (simp add: quiet_def Let_def)
  have rest: "list_all (quiet lk ts) ds" "list_all takes_all ds" using Cons.prems by auto
  show ?case
  proof (cases "wants lk trg d")
    case True
    define r where "r = \<lparr>ar_link_hdl = link_hdl lk, ar_dev_hdl = cd_dev_hdl d,
      request_id = ap_req_id (apply_data (req lk) (p_delay (dev_info d))),
      report_if_bubble = recover (slot (queue lk) (ap_idx (apply_data (req lk) (p_delay (dev_info d))))), trigger_point = trg\<rparr>"
    define cnt' where "cnt' = (if p_delay (dev_info d) = max_delay lk then cnt - 1 else cnt)"
    have "send_all lk trg seen (d # ds) (cs, ts, cnt, rc) =
        send_all lk trg (d # seen) ds (cs @ [Apply_req r], ts, cnt', f (length cs) r)"
      using True q f(1) nf unfolding r_def cnt'_def by (simp add: wants_def Let_def leD)
    moreover have "Apply_req r = call_of lk trg d" by (simp add: call_of_def r_def Let_def)
    moreover have "cnt - int (max_count lk trg (d # ds)) = cnt' - int (max_count lk trg ds)"
      using True by (simp add: max_count_def cnt'_def)
    ultimately show ?thesis using True Cons.IH [OF rest f(2), of "d # seen" "cs @ [Apply_req r]" cnt'] by simp
  next
    case False
    then have "send_all lk trg seen (d # ds) (cs, ts, cnt, rc) = send_all lk trg (d # seen) ds (cs, ts, cnt, rc)"
      using q f(1) nf by (auto simp: wants_def Let_def)
    then show ?thesis using False Cons.IH [OF rest Cons.prems(3), of "d # seen" cs cnt] by (simp add: max_count_def)
  qed
qed

lemma send_req_takes:
  assumes "list_all (quiet lk (tbls lk)) (devs lk)" "list_all takes_all (devs lk)"
  shows "\<exists>rc\<ge>0. cam_req_mgr_send_req trg cs lk =
    (cs @ map (call_of lk trg) (filter (wants lk trg) (devs lk)),
     (upd_tbls (\<lambda>_. tbls lk) lk)\<lparr>open_req_cnt := open_req_cnt lk - int (max_count lk trg (devs lk))\<rparr>, rc)"
proof -
  obtain rc where "0 \<le> rc" "send_all lk trg [] (devs lk) (cs, tbls lk, open_req_cnt lk, 0) =
      (cs @ map (call_of lk trg) (filter (wants lk trg) (devs lk)), tbls lk,
       open_req_cnt lk - int (max_count lk trg (devs lk)), rc)"
    using send_all_takes [OF assms, of 0 trg "[]" cs "open_req_cnt lk"] by auto
  then show ?thesis unfolding cam_req_mgr_send_req_def send_alone_none [OF assms(1)] by simp
qed

subsection \<open>A start of frame\<close>

text \<open>The request a device is due at the slot \<open>idx\<close>; -1 while its table skips.\<close>

definition due :: "cam_req_mgr_core_link \<Rightarrow> int \<Rightarrow> cam_req_mgr_connected_device \<Rightarrow> int" where
  "due lk idx dev =
     (let p = p_delay (dev_info dev) in
      if list_ex (\<lambda>t. pd t = p \<and> skip_traverse t > 0) (tbls lk) then -1
      else req_id (slot (queue lk) (slot_at (max_delay lk) idx p)))"

definition due_call :: "cam_req_mgr_core_link \<Rightarrow> int \<Rightarrow> u32 \<Rightarrow> cam_req_mgr_connected_device \<Rightarrow> dev_call" where
  "due_call lk idx trg dev =
     Apply_req \<lparr>ar_link_hdl = link_hdl lk, ar_dev_hdl = cd_dev_hdl dev, request_id = due lk idx dev,
       report_if_bubble = recover (slot (queue lk) (slot_at (max_delay lk) idx (p_delay (dev_info dev)))), trigger_point = trg\<rparr>"

definition due_calls :: "cam_req_mgr_core_link \<Rightarrow> int \<Rightarrow> u32 \<Rightarrow> dev_call list" where
  "due_calls lk idx trg = map (due_call lk idx trg) (filter (\<lambda>d. 0 \<le> due lk idx d \<and> has_trigger d trg) (devs lk))"

text \<open>No device has asked for a frame to be skipped before a request that is due.\<close>

definition undelayed :: "cam_req_mgr_core_link \<Rightarrow> int \<Rightarrow> bool" where
  "undelayed lk idx \<longleftrightarrow> list_all (\<lambda>t. let sl = tbl_slot t (slot_at (max_delay lk) idx (pd t)) in
     inject_delay sl = 0 \<and> \<not> skip_next_frame sl \<and> \<not> is_applied sl) (tbls lk)"

lemma dec_skip_sel [simp]: "pd (dec_skip t) = pd t" "tbl_slot (dec_skip t) = tbl_slot t"
  by (simp_all add: dec_skip_def)

lemma dev_tbl:
  assumes "link_ok lk" "d \<in> set (devs lk)"
  obtains t where "t \<in> set (tbls lk)" "pd t = p_delay (dev_info d)" "pd_tbl d = Some (pd t)"
    "find (\<lambda>u. pd u = p_delay (dev_info d)) (tbls lk) = Some t"
proof -
  have "dev_ok (tbls lk) d" using assms by (auto simp: link_ok_def list_all_iff)
  then obtain t where t: "t \<in> set (tbls lk)" "pd t = p_delay (dev_info d)" "pd_tbl d = Some (pd t)"
    by (auto simp: dev_ok_def)
  then show thesis
    using that find_distinct [OF tbls_ok_distinct [OF link_okD(3) [OF assms(1)]] t(1)] by simp
qed

lemma find_map_dec: "find (\<lambda>u. Some (pd u) = p) (map dec_skip ts) = map_option dec_skip (find (\<lambda>u. Some (pd u) = p) ts)"
  by (induction ts) auto

lemma ready_calls:
  assumes ok: "link_ok lk" and idx: "0 \<le> idx" "idx < MAX_REQ_SLOTS" and agr: "link_agrees lk idx"
    and und: "undelayed lk idx" and lk': "lk' = fst (check_link_is_ready idx False lk)"
  shows "map (call_of lk' trg) (filter (wants lk' trg) (devs lk')) = due_calls lk idx trg"
    "list_all (quiet lk' (tbls lk')) (devs lk')"
    "\<forall>d\<in>set (devs lk'). wants lk' trg d \<longleftrightarrow> 0 \<le> due lk idx d \<and> has_trigger d trg"
proof -
  have eqs: "devs lk' = devs lk" "queue lk' = queue lk" "link_hdl lk' = link_hdl lk" "tbls lk' = map dec_skip (tbls lk)"
    unfolding lk' check_ready_yes [OF ok idx agr] by simp_all
  have dev: "apply_data (req lk') (p_delay (dev_info d)) =
      \<lparr>ap_idx = slot_at (max_delay lk) idx (p_delay (dev_info d)), ap_pd = p_delay (dev_info d), ap_req_id = due lk idx d,
       ap_skip_idx = 0\<rparr> \<and> p_delay (dev_info d) < CAM_PIPELINE_DELAY_MAX \<and> quiet lk' (tbls lk') d"
    if "d \<in> set (devs lk)" for d
  proof -
    obtain t where t: "t \<in> set (tbls lk)" "pd t = p_delay (dev_info d)" "pd_tbl d = Some (pd t)"
      "find (\<lambda>u. pd u = p_delay (dev_info d)) (tbls lk) = Some t" using dev_tbl [OF ok \<open>d \<in> set (devs lk)\<close>] .
    have p: "0 \<le> p_delay (dev_info d)" "p_delay (dev_info d) < CAM_PIPELINE_DELAY_MAX"
      using tbls_ok_in [OF link_okD(3) [OF ok] t(1)] t(2) by (auto simp: tbl_ok_def)
    have "list_ex (\<lambda>u. pd u = p_delay (dev_info d) \<and> skip_traverse u > 0) (tbls lk) \<longleftrightarrow> skip_traverse t > 0"
    proof -
      have "u = t" if "u \<in> set (tbls lk)" "pd u = p_delay (dev_info d)" for u
        using that t(1,2) tbls_ok_distinct [OF link_okD(3) [OF ok]] by (auto simp: distinct_map inj_on_def)
      then show ?thesis unfolding list_ex_iff using t(1,2) by blast
    qed
    then have ad: "apply_data (req lk') (p_delay (dev_info d)) =
      \<lparr>ap_idx = slot_at (max_delay lk) idx (p_delay (dev_info d)), ap_pd = p_delay (dev_info d), ap_req_id = due lk idx d,
       ap_skip_idx = 0\<rparr>"
      unfolding lk' check_ready_yes [OF ok idx agr] using t p
      by (simp add: tbl_apply_def cleared_def zero_apply_def due_def Let_def)
    have "find (\<lambda>u. Some (pd u) = pd_tbl d) (tbls lk) = Some t" using t by simp
    then have "dev_slot (tbls lk') (pd_tbl d) i = tbl_slot t i" for i
      by (simp add: dev_slot_def eqs(4) find_map_dec)
    moreover have "\<not> skip_next_frame (tbl_slot t (slot_at (max_delay lk) idx (pd t)))"
      "\<not> is_applied (tbl_slot t (slot_at (max_delay lk) idx (pd t)))"
      using und t(1) by (auto simp: undelayed_def list_all_iff Let_def)
    ultimately have "quiet lk' (tbls lk') d" using ad t(2) by (simp add: quiet_def Let_def)
    then show ?thesis using ad p by simp
  qed
  show "list_all (quiet lk' (tbls lk')) (devs lk')" using dev by (simp add: list_all_iff eqs(1))
  show "\<forall>d\<in>set (devs lk'). wants lk' trg d \<longleftrightarrow> 0 \<le> due lk idx d \<and> has_trigger d trg"
    by (simp add: wants_def Let_def dev eqs(1))
  have "filter (wants lk' trg) (devs lk) = filter (\<lambda>d. 0 \<le> due lk idx d \<and> has_trigger d trg) (devs lk)"
    by (rule filter_cong) (simp_all add: wants_def Let_def dev)
  moreover have "call_of lk' trg d = due_call lk idx trg d" if "d \<in> set (devs lk)" for d
    using dev [OF that] by (simp add: call_of_def due_call_def Let_def eqs)
  ultimately show "map (call_of lk' trg) (filter (wants lk' trg) (devs lk')) = due_calls lk idx trg"
    by (simp add: due_calls_def eqs(1))
qed

lemma inject_link_none:
  assumes "link_ok lk" "0 \<le> idx" "idx < MAX_REQ_SLOTS" "undelayed lk idx"
  shows "inject_delay_link idx lk = (lk, 0)"
proof -
  obtain t ts where t: "tbls lk = t # ts" "max_delay lk = pd t" "tbls_ok (t # ts)" using tbls_split [OF assms(1)] by blast
  have "\<forall>u\<in>set (t # ts). inject_delay (tbl_slot u (slot_at (pd t) idx (pd u))) = 0"
    using assms(4) t by (auto simp: undelayed_def list_all_iff Let_def)
  then have "cam_req_mgr_inject_delay (tbls lk) idx = (tbls lk, 0)"
    using inject_delay_none [OF t(3) assms(2,3)] t(1) by simp
  then show ?thesis by (simp add: inject_delay_link_def upd_tbls_def)
qed

lemma upd_link_id: "f (link_at s l) = link_at s l \<Longrightarrow> upd_link l f s = s"
  by (simp add: upd_link_def)

lemma link_ok_stamp [simp]:
  "link_ok (lk\<lparr>prev_sof_timestamp := a, sof_timestamp := b\<rparr>) = link_ok lk"
  by (simp add: link_ok_def)

lemma sof_check_free:
  assumes ok: "link_ok (link_at s l)" and free: "sync_link (link_at s l) = 0" "\<not> in_msync_mode (link_at s l)"
    and und: "undelayed (link_at s l) (rd_idx (queue (link_at s l)))"
  shows "sof_check l s = with_link l (check_link_is_ready (rd_idx (queue (link_at s l))) False) s"
proof -
  define i where "i = rd_idx (queue (link_at s l))"
  have i: "0 \<le> i" "i < MAX_REQ_SLOTS" using link_okD(1) [OF ok] by (auto simp: i_def queue_okD)
  have sl: "sl_idx (slot (queue (link_at s l)) i) = i" using sl_idx_range [OF link_okD(1) [OF ok] i] .
  have inj: "with_link l (inject_delay_link i) s = (s, 0)"
    using inject_link_none [OF ok i] und by (simp add: with_link_def i_def upd_link_id)
  show ?thesis unfolding sof_check_def Let_def i_def [symmetric] sl using free inj by simp
qed

lemma upd_queue_sel [simp]:
  "trigger_mask (upd_queue f lk) = trigger_mask lk" "link_state (upd_queue f lk) = link_state lk"
  "open_req_cnt (upd_queue f lk) = open_req_cnt lk" "devs (upd_queue f lk) = devs lk"
  "trigger_mask (upd_tbls g lk) = trigger_mask lk" "link_state (upd_tbls g lk) = link_state lk"
  "open_req_cnt (upd_tbls g lk) = open_req_cnt lk" "devs (upd_tbls g lk) = devs lk"
  by (simp_all add: upd_queue_def upd_tbls_def)

lemma reset_slot_other: "j \<noteq> i \<Longrightarrow> slot (queue (cam_req_mgr_reset_req_slot j lk)) i = slot (queue lk) i"
  by (simp add: cam_req_mgr_reset_req_slot_def upd_slot_def)

lemma reset_slot_sel [simp]:
  "trigger_mask (cam_req_mgr_reset_req_slot j lk) = trigger_mask lk"
  "link_state (cam_req_mgr_reset_req_slot j lk) = link_state lk"
  "open_req_cnt (cam_req_mgr_reset_req_slot j lk) = open_req_cnt lk"
  "rd_idx (queue (cam_req_mgr_reset_req_slot j lk)) = rd_idx (queue lk)"
  by (simp_all add: cam_req_mgr_reset_req_slot_def upd_slot_def)

lemma dec_idx_other: "0 \<le> i \<Longrightarrow> i < MAX_REQ_SLOTS \<Longrightarrow> 0 < d \<Longrightarrow> d < MAX_REQ_SLOTS \<Longrightarrow> dec_idx i d MAX_REQ_SLOTS \<noteq> i"
  by (auto simp: dec_idx_def Let_def)

lemma apply_complete_free:
  assumes ok: "link_ok (link_at s l)" and free: "sync_link (link_at s l) = 0"
  shows "status (slot (queue (link_at (apply_complete l s) l)) (rd_idx (queue (link_at s l)))) = CRM_SLOT_STATUS_REQ_APPLIED \<and>
    trigger_mask (link_at (apply_complete l s) l) = 0 \<and> dev_calls (apply_complete l s) = dev_calls s \<and>
    open_req_cnt (link_at (apply_complete l s) l) = open_req_cnt (link_at s l) \<and>
    link_state (link_at (apply_complete l s) l) = link_state (link_at s l)"
proof -
  define i where "i = rd_idx (queue (link_at s l))"
  have i: "0 \<le> i" "i < MAX_REQ_SLOTS" using link_okD(1) [OF ok] by (auto simp: i_def queue_okD)
  have n: "num_slots (queue (link_at s l)) = MAX_REQ_SLOTS" using link_okD(1) [OF ok] by (simp add: queue_okD)
  have "dec_idx i (max_delay (link_at s l) + 1) MAX_REQ_SLOTS \<noteq> i"
    using dec_idx_other [OF i] max_delay_range [OF ok] by auto
  then show ?thesis
    unfolding apply_complete_def Let_def i_def [symmetric] n
    using free by (simp add: reset_slot_other upd_slot_def upd_link_def upd_queue_def)
qed

definition recovered :: "cam_req_mgr_link_state \<Rightarrow> cam_req_mgr_link_state" where
  "recovered st = (if st = CAM_CRM_LINK_STATE_ERR then CAM_CRM_LINK_STATE_READY else st)"

lemma process_req_send_free:
  assumes "link_ok (link_at s l)" "sync_link (link_at s l) = 0" "trigger_mask (link_at s l) = 0"
    "subscribe_event (link_at s l) = trg" "list_all (quiet (link_at s l) (tbls (link_at s l))) (devs (link_at s l))"
    "list_all takes_all (devs (link_at s l))" "process_req_send l trg s = (s', rc)"
  shows "0 \<le> rc \<and> dev_calls s' = dev_calls s @ map (call_of (link_at s l) trg) (filter (wants (link_at s l) trg) (devs (link_at s l))) \<and>
    status (slot (queue (link_at s' l)) (rd_idx (queue (link_at s l)))) = CRM_SLOT_STATUS_REQ_APPLIED \<and>
    trigger_mask (link_at s' l) = 0 \<and>
    open_req_cnt (link_at s' l) = open_req_cnt (link_at s l) - int (max_count (link_at s l) trg (devs (link_at s l))) \<and>
    link_state (link_at s' l) = recovered (link_state (link_at s l))"
proof -
  define lk where "lk = link_at s l"
  define cs where "cs = dev_calls s @ map (call_of lk trg) (filter (wants lk trg) (devs lk))"
  define lk1 where "lk1 = (upd_tbls (\<lambda>_. tbls lk) lk)\<lparr>open_req_cnt := open_req_cnt lk - int (max_count lk trg (devs lk))\<rparr>"
  obtain rc1 where rc1: "0 \<le> rc1" "cam_req_mgr_send_req trg (dev_calls s) (link_at s l) = (cs, lk1, rc1)"
    using send_req_takes [OF assms(5,6), of trg "dev_calls s"] by (auto simp: cs_def lk1_def lk_def)
  define s1 where "s1 = (upd_link l (\<lambda>_. lk1) s)\<lparr>dev_calls := cs\<rparr>"
  define s2 where "s2 = upd_link l (\<lambda>lk. lk\<lparr>trigger_mask := trigger_mask lk OR trg,
      link_state := (if link_state lk = CAM_CRM_LINK_STATE_ERR then CAM_CRM_LINK_STATE_READY else link_state lk),
      sync_link_sof_skip := False\<rparr>) s1"
  have lk1: "link_ok lk1" "queue lk1 = queue lk" "sync_link lk1 = 0"
    using send_req_ok [OF assms(1) rc1(2)] assms(2) by (simp_all add: lk_def)
  have s2: "link_ok (link_at s2 l)" "sync_link (link_at s2 l) = 0" "queue (link_at s2 l) = queue lk" "dev_calls s2 = cs"
    "open_req_cnt (link_at s2 l) = open_req_cnt lk1" "trigger_mask (link_at s2 l) = trigger_mask lk1 OR trg"
    "subscribe_event (link_at s2 l) = subscribe_event lk1" "link_state (link_at s2 l) = recovered (link_state lk)"
    using lk1 by (simp_all add: s2_def s1_def upd_link_def) (simp add: lk1_def lk_def upd_tbls_def recovered_def)
  have "trigger_mask (link_at s2 l) = subscribe_event (link_at s2 l)"
    unfolding s2(6,7) using assms(3,4) by (simp add: lk1_def lk_def upd_tbls_def)
  moreover have "process_req_send l trg s = (if trigger_mask (link_at s2 l) = subscribe_event (link_at s2 l)
      then apply_complete l s2 else s2, rc1)"
    unfolding process_req_send_def rc1(2) prod.case Let_def s1_def [symmetric] s2_def [symmetric] using leD [OF rc1(1)] by simp
  ultimately have "s' = apply_complete l s2" "rc = rc1" using assms(7) by simp_all
  then show ?thesis
    using apply_complete_free [OF s2(1,2)] rc1(1) by (simp add: s2(3-5,8) cs_def lk1_def lk_def)
qed

lemma sof_calls:
  assumes "l \<noteq> 0" "link_ok (link_at s l)" "sync_link (link_at s l) = 0" "\<not> in_msync_mode (link_at s l)"
    "tn_trigger td = CAM_TRIGGER_POINT_SOF" "find_slot_for_req (queue (link_at s l)) (tn_req_id td) = -1"
    "i = rd_idx (queue (link_at s l))"
    "status (slot (queue (link_at s l)) i) = CRM_SLOT_STATUS_REQ_ADDED \<or>
     status (slot (queue (link_at s l)) i) = CRM_SLOT_STATUS_REQ_PENDING"
    "trigger_mask (link_at s l) = 0" "subscribe_event (link_at s l) = CAM_TRIGGER_POINT_SOF"
    "link_agrees (link_at s l) i" "undelayed (link_at s l) i" "list_all takes_all (devs (link_at s l))"
    "cam_req_mgr_process_trigger l (Some td) s = (s', rc)"
  shows "0 \<le> rc \<and> dev_calls s' = dev_calls s @ due_calls (link_at s l) i CAM_TRIGGER_POINT_SOF \<and>
    status (slot (queue (link_at s' l)) i) = CRM_SLOT_STATUS_REQ_APPLIED \<and> trigger_mask (link_at s' l) = 0 \<and>
    open_req_cnt (link_at s' l) = open_req_cnt (link_at s l) -
      int (length (filter (\<lambda>d. 0 \<le> due (link_at s l) i d \<and> has_trigger d CAM_TRIGGER_POINT_SOF \<and>
        p_delay (dev_info d) = max_delay (link_at s l)) (devs (link_at s l)))) \<and>
    link_state (link_at s' l) = recovered (link_state (link_at s l))"
proof -
  define lk where "lk = link_at s l"
  define lk1 where "lk1 = lk\<lparr>prev_sof_timestamp := sof_timestamp lk, sof_timestamp := sof_timestamp_val td\<rparr>"
  define s1 where "s1 = upd_link l (\<lambda>lk. lk\<lparr>prev_sof_timestamp := sof_timestamp lk, sof_timestamp := sof_timestamp_val td\<rparr>) s"
  have s1: "link_at s1 l = lk1" "dev_calls s1 = dev_calls s" by (simp_all add: s1_def lk1_def lk_def upd_link_def)
  have ok1: "link_ok lk1" using assms(2) by (simp add: lk1_def lk_def)
  have same: "queue lk1 = queue lk" "tbls lk1 = tbls lk" "devs lk1 = devs lk" "max_delay lk1 = max_delay lk"
    "link_hdl lk1 = link_hdl lk" "sync_link lk1 = 0" "\<not> in_msync_mode lk1"
    using assms(3,4) by (simp_all add: lk1_def lk_def)
  have i: "0 \<le> i" "i < MAX_REQ_SLOTS" using link_okD(1) [OF assms(2)] assms(7) by (auto simp: queue_okD)
  have agr: "link_agrees lk1 i" and und: "undelayed lk1 i"
    using assms(11,12) by (simp_all add: link_agrees_def undelayed_def same lk_def)
  define lk2 where "lk2 = fst (check_link_is_ready i False lk1)"
  have lk2: "link_ok lk2" "queue lk2 = queue lk" "devs lk2 = devs lk" "sync_link lk2 = 0" "subscribe_event lk2 = subscribe_event lk"
    "trigger_mask lk2 = trigger_mask lk" "open_req_cnt lk2 = open_req_cnt lk" "max_delay lk2 = max_delay lk" "link_state lk2 = link_state lk"
    using check_ready_ok [OF ok1 i, of False] unfolding lk2_def check_ready_yes [OF ok1 i agr]
    by (simp_all add: same) (simp_all add: lk1_def)
  define s2 where "s2 = upd_link l (\<lambda>_. lk2) s1"
  have s2: "link_at s2 l = lk2" "dev_calls s2 = dev_calls s" by (simp_all add: s2_def upd_link_def s1)
  have rd: "rd_idx (queue lk1) = i" using assms(7) by (simp add: same lk_def)
  have "check_link_is_ready i False lk1 = (lk2, 0)" unfolding lk2_def by (simp add: check_ready_yes [OF ok1 i agr])
  then have sof: "sof_check l s1 = (s2, 0)"
    using sof_check_free [of s1 l] ok1 und same(6,7) by (simp add: s1 rd with_link_def s2_def)
  have dues: "due lk1 i = due lk i" "due_calls lk1 i CAM_TRIGGER_POINT_SOF = due_calls lk i CAM_TRIGGER_POINT_SOF"
    unfolding due_calls_def due_call_def due_def same by simp_all
  note calls = ready_calls(1) [OF ok1 i agr und lk2_def, of CAM_TRIGGER_POINT_SOF, unfolded dues]
    ready_calls(2) [OF ok1 i agr und lk2_def] ready_calls(3) [OF ok1 i agr und lk2_def, of CAM_TRIGGER_POINT_SOF, unfolded dues]
  have "cam_req_mgr_process_req l td s = process_req_send l CAM_TRIGGER_POINT_SOF s2"
    unfolding cam_req_mgr_process_req_def Let_def s1_def [symmetric] using assms(5,7-9) by (auto simp: sof)
  moreover have "cam_req_mgr_process_trigger l (Some td) s = cam_req_mgr_process_req l td s"
    using assms(1,5-8) unfolding cam_req_mgr_process_trigger_def Let_def by (auto simp: upd_link_id trigger_done_def)
  ultimately have send: "process_req_send l CAM_TRIGGER_POINT_SOF s2 = (s', rc)" using assms(14) by simp
  have "0 \<le> rc \<and> dev_calls s' = dev_calls s @ due_calls lk i CAM_TRIGGER_POINT_SOF \<and>
    status (slot (queue (link_at s' l)) i) = CRM_SLOT_STATUS_REQ_APPLIED \<and> trigger_mask (link_at s' l) = 0 \<and>
    open_req_cnt (link_at s' l) = open_req_cnt lk - int (max_count lk2 CAM_TRIGGER_POINT_SOF (devs lk)) \<and>
    link_state (link_at s' l) = recovered (link_state lk)"
    using process_req_send_free [OF _ _ _ _ _ _ send] lk2 calls assms(7,9,10,13) by (simp add: s2 lk_def [symmetric])
  moreover have "filter (\<lambda>d. wants lk2 CAM_TRIGGER_POINT_SOF d \<and> p_delay (dev_info d) = max_delay lk2) (devs lk) =
      filter (\<lambda>d. 0 \<le> due lk i d \<and> has_trigger d CAM_TRIGGER_POINT_SOF \<and> p_delay (dev_info d) = max_delay lk) (devs lk)"
    using calls(3) by (intro filter_cong) (simp_all add: lk2)
  ultimately show ?thesis by (simp add: max_count_def lk_def)
qed

text \<open>
  C3: At a start of frame with a request ready in every table and no delay asked for, the devices are
  called in the order of the link, each with the request of the slot that lies as many places before the
  read index as its delay is shorter than the longest delay of the link; a device whose table still
  skips traversals or whose slot holds no request is left out. The slot is then applied, and the open
  requests are counted down once for every device of the longest delay that was called; a link that
  was recovering from an error is ready again.
\<close>

theorem sof_applies:
  assumes "l \<noteq> 0" "link_ok (link_at s l)" "sync_link (link_at s l) = 0" "\<not> in_msync_mode (link_at s l)"
    "tn_trigger td = CAM_TRIGGER_POINT_SOF" "find_slot_for_req (queue (link_at s l)) (tn_req_id td) = -1"
    "i = rd_idx (queue (link_at s l))"
    "status (slot (queue (link_at s l)) i) = CRM_SLOT_STATUS_REQ_ADDED \<or>
     status (slot (queue (link_at s l)) i) = CRM_SLOT_STATUS_REQ_PENDING"
    "trigger_mask (link_at s l) = 0" "subscribe_event (link_at s l) = CAM_TRIGGER_POINT_SOF"
    "link_agrees (link_at s l) i" "undelayed (link_at s l) i" "list_all takes_all (devs (link_at s l))"
    "cam_req_mgr_process_trigger l (Some td) s = (s', rc)"
  shows "0 \<le> rc \<and> dev_calls s' = dev_calls s @ due_calls (link_at s l) i CAM_TRIGGER_POINT_SOF \<and>
    status (slot (queue (link_at s' l)) i) = CRM_SLOT_STATUS_REQ_APPLIED \<and> trigger_mask (link_at s' l) = 0 \<and>
    open_req_cnt (link_at s' l) = open_req_cnt (link_at s l) -
      int (length (filter (\<lambda>d. 0 \<le> due (link_at s l) i d \<and> has_trigger d CAM_TRIGGER_POINT_SOF \<and>
        p_delay (dev_info d) = max_delay (link_at s l)) (devs (link_at s l)))) \<and>
    link_state (link_at s' l) = recovered (link_state (link_at s l))"
  using sof_calls [OF assms] .

subsection \<open>A link at work\<close>

definition demo_ops :: cam_req_mgr_kmd_ops where
  "demo_ops = \<lparr>get_dev_info = None, link_setup = None, apply_req = Some (\<lambda>_ _. 0), flush_req = None, process_evt = None,
     dump_req = None\<rparr>"

definition demo_dev :: "u32 \<Rightarrow> int \<Rightarrow> cam_req_mgr_connected_device" where
  "demo_dev h p = \<lparr>cd_dev_hdl = h, dev_bit = 0, pd_tbl = Some p,
     dev_info = \<lparr>di_dev_hdl = h, di_name = [], di_dev_id = 0, p_delay = p, trigger = 1\<rparr>, ops = Some demo_ops, cd_parent = 5\<rparr>"

definition demo_tbl :: "int \<Rightarrow> int \<Rightarrow> crm_req_state \<Rightarrow> cam_req_mgr_req_tbl" where
  "demo_tbl p delta st = \<lparr>tbl_id = 0, pd = p, dev_count = 1, dev_mask = 1, skip_traverse = 0, pd_delta = delta,
     tbl_num_slots = 48, tbl_slot = (\<lambda>i. if i = 0 \<or> i = 1 then zero_tslot\<lparr>ts_state := st\<rparr> else zero_tslot)\<rparr>"

text \<open>Request 1 in slot 0 has been applied, request 2 waits in slot 1.\<close>

definition demo_queue :: cam_req_mgr_req_queue where
  "demo_queue = \<lparr>num_slots = 48,
     slot = (\<lambda>i. if i < 0 \<or> 48 \<le> i then zero_slot
                 else zero_slot\<lparr>sl_idx := i, req_id := (if i < 2 then i + 1 else -1),
                        status := (if i = 0 then CRM_SLOT_STATUS_REQ_APPLIED else if i = 1 then CRM_SLOT_STATUS_REQ_ADDED
                                   else CRM_SLOT_STATUS_NO_REQ)\<rparr>),
     rd_idx = 1, wr_idx = 2, last_applied_idx = 0\<rparr>"

definition demo_link :: "crm_req_state \<Rightarrow> cam_req_mgr_core_link" where
  "demo_link st = \<lparr>link_hdl = 7, num_devs = 2, max_delay = 2, link_workq = None, pd_mask = 6,
     l_dev = [demo_dev 10 2, demo_dev 11 1],
     req = \<lparr>in_q_alloc = True, in_q = demo_queue, l_tbl = [demo_tbl 2 1 st, demo_tbl 1 0 st], num_tbl = 2,
            apply_data = (\<lambda>_. zero_apply)\<rparr>,
     watchdog = None, workq_comp = 0, link_state = CAM_CRM_LINK_STATE_READY, link_parent = 0, subscribe_event = 1,
     trigger_mask = 0, sync_link = 0, sync_link_sof_skip = False, open_req_cnt = 1, last_flush_id = 0, is_used = True,
     is_master = False, initial_skip = False, in_msync_mode = False, initial_sync_req = -1, sof_timestamp = 0,
     prev_sof_timestamp = 0\<rparr>"

definition demo_crm :: "crm_req_state \<Rightarrow> crm" where
  "demo_crm st = \<lparr>link_at = (\<lambda>_. demo_link st),
     session_at = (\<lambda>_. \<lparr>ses_hdl = 0, num_links = 0, links = (\<lambda>_. 0), force_err_recovery = 0, ses_sync_mode = 0\<rparr>),
     session_head = [], hdls = None, payload_at = (\<lambda>_. Task_none), messages = [], dev_calls = [], crm_lock = 0, jiffies = 0\<rparr>"

definition demo_sof :: cam_req_mgr_trigger_notify where
  "demo_sof = \<lparr>tn_link_hdl = 7, tn_dev_hdl = 0, tn_frame_id = 1, tn_trigger = 1, sof_timestamp_val = 1, tn_req_id = 0\<rparr>"

lemma demo_sel [simp]:
  "link_at (demo_crm st) l = demo_link st" "dev_calls (demo_crm st) = []"
  "queue (demo_link st) = demo_queue" "tbls (demo_link st) = [demo_tbl 2 1 st, demo_tbl 1 0 st]"
  "devs (demo_link st) = [demo_dev 10 2, demo_dev 11 1]" "max_delay (demo_link st) = 2" "sync_link (demo_link st) = 0"
  "in_msync_mode (demo_link st) = False" "trigger_mask (demo_link st) = 0" "subscribe_event (demo_link st) = 1"
  "open_req_cnt (demo_link st) = 1" "rd_idx demo_queue = 1" "link_hdl (demo_link st) = 7" "num_slots demo_queue = 48"
  by (simp_all add: demo_crm_def demo_link_def demo_queue_def)

lemma demo_queue_ok: "queue_ok demo_queue"
  by (auto simp: queue_ok_def demo_queue_def)

lemma demo_link_ok: "link_ok (demo_link st)"
proof -
  have "pd_mask (demo_link st) = pds_mask (tbls (demo_link st))"
    by (simp add: demo_link_def demo_tbl_def pds_mask_def SET_SUCCESS_BIT_def)
  then show ?thesis
    using demo_queue_ok
    by (auto simp: link_ok_def demo_tbl_def tbl_ok_def tbl_inside_def dev_ok_def demo_dev_def apply_inside_def zero_apply_def)
      (simp_all add: demo_link_def zero_apply_def)
qed

lemma demo_find_none: "find_slot_for_req demo_queue 0 = -1"
  by code_simp

lemma demo_agrees: "link_agrees (demo_link CRM_REQ_STATE_READY) 1" "undelayed (demo_link CRM_REQ_STATE_READY) 1"
  by (simp_all add: link_agrees_def undelayed_def tbl_agrees_def slot_at_def demo_tbl_def zero_tslot_def)

lemma demo_takes: "list_all takes_all (devs (demo_link st))"
  by (simp add: takes_all_def demo_dev_def demo_ops_def op_of_def)

theorem sof_applies_witness:
  "0 \<le> snd (cam_req_mgr_process_trigger 5 (Some demo_sof) (demo_crm CRM_REQ_STATE_READY)) \<and>
   dev_calls (fst (cam_req_mgr_process_trigger 5 (Some demo_sof) (demo_crm CRM_REQ_STATE_READY))) =
     [Apply_req \<lparr>ar_link_hdl = 7, ar_dev_hdl = 10, request_id = 2, report_if_bubble = 0, trigger_point = 1\<rparr>,
      Apply_req \<lparr>ar_link_hdl = 7, ar_dev_hdl = 11, request_id = 1, report_if_bubble = 0, trigger_point = 1\<rparr>]"
proof -
  have "due_calls (demo_link CRM_REQ_STATE_READY) 1 1 =
     [Apply_req \<lparr>ar_link_hdl = 7, ar_dev_hdl = 10, request_id = 2, report_if_bubble = 0, trigger_point = 1\<rparr>,
      Apply_req \<lparr>ar_link_hdl = 7, ar_dev_hdl = 11, request_id = 1, report_if_bubble = 0, trigger_point = 1\<rparr>]"
    by (simp add: due_calls_def due_call_def due_def demo_dev_def demo_tbl_def slot_at_def demo_queue_def zero_slot_def)
  then show ?thesis
    using sof_applies [of 5 "demo_crm CRM_REQ_STATE_READY" demo_sof 1
        "fst (cam_req_mgr_process_trigger 5 (Some demo_sof) (demo_crm CRM_REQ_STATE_READY))"
        "snd (cam_req_mgr_process_trigger 5 (Some demo_sof) (demo_crm CRM_REQ_STATE_READY))"]
      demo_link_ok demo_agrees demo_takes
    by (simp add: demo_find_none demo_sof_def) (simp add: demo_queue_def)
qed

theorem ready_spec_witness:
  "snd (check_link_is_ready 1 False (demo_link CRM_REQ_STATE_READY)) = 0 \<and>
   ap_req_id (apply_data (req (fst (check_link_is_ready 1 False (demo_link CRM_REQ_STATE_READY)))) 1) = 1 \<and>
   snd (check_link_is_ready 1 False (demo_link CRM_REQ_STATE_PENDING)) = code EAGAIN"
  using ready_spec [OF demo_link_ok, of 1 CRM_REQ_STATE_READY "fst (check_link_is_ready 1 False (demo_link CRM_REQ_STATE_READY))"
      "snd (check_link_is_ready 1 False (demo_link CRM_REQ_STATE_READY))"]
    ready_spec [OF demo_link_ok, of 1 CRM_REQ_STATE_PENDING "fst (check_link_is_ready 1 False (demo_link CRM_REQ_STATE_PENDING))"
      "snd (check_link_is_ready 1 False (demo_link CRM_REQ_STATE_PENDING))"]
  by (simp add: demo_tbl_def slot_at_def demo_queue_def zero_slot_def zero_tslot_def)

subsection \<open>Reporting a request\<close>

definition report :: "u32 \<Rightarrow> int \<Rightarrow> u32 \<Rightarrow> cam_req_mgr_add_request" where
  "report lh r h = \<lparr>aq_link_hdl = lh, aq_dev_hdl = h, aq_req_id = r, skip_before_applying = 0\<rparr>"

definition report_all :: "ptr \<Rightarrow> u32 \<Rightarrow> int \<Rightarrow> u32 list \<Rightarrow> crm \<Rightarrow> crm" where
  "report_all l lh r hs = fold (\<lambda>h s. fst (cam_req_mgr_process_add_req l (Some (report lh r h)) s)) hs"

definition of_tbl :: "cam_req_mgr_core_link \<Rightarrow> cam_req_mgr_req_tbl \<Rightarrow> cam_req_mgr_connected_device set" where
  "of_tbl lk t = {d \<in> set (devs lk). pd_tbl d = Some (pd t)}"

text \<open>Two devices of one table have different bits, all below the number of devices of the table.\<close>

lemma peers_split: "pd_tbl d = p \<Longrightarrow> peers (xs @ d # ys) p = peers xs p + 1 + peers ys p"
  by (simp add: peers_def)

lemma bits_inj:
  assumes "bits_ok ds" "d \<in> set ds" "e \<in> set ds" "pd_tbl d = pd_tbl e" "dev_bit d = dev_bit e"
  shows "d = e"
proof -
  have lt: "int (peers (take i ds) p) < int (peers (take j ds) p)" if "i < j" "j \<le> length ds" "pd_tbl (ds ! i) = p" for i j p
  proof -
    have split: "take j ds = take i ds @ ds ! i # drop (Suc i) (take j ds)"
      using that id_take_nth_drop [of i "take j ds"] by (simp add: min_def)
    show ?thesis using arg_cong [OF split, of "\<lambda>xs. peers xs p"] peers_split [OF that(3)] by simp
  qed
  obtain i j where ij: "i < length ds" "j < length ds" "d = ds ! i" "e = ds ! j"
    using assms(2,3) by (metis in_set_conv_nth)
  have "dev_bit d = int (peers (take i ds) (pd_tbl d))" "dev_bit e = int (peers (take j ds) (pd_tbl d))"
    using assms(1,4) ij by (auto simp: bits_ok_def)
  then have "\<not> i < j" "\<not> j < i"
    using lt [of i j "pd_tbl d"] lt [of j i "pd_tbl d"] assms(4,5) ij by auto
  then show ?thesis using ij by simp
qed

lemma bits_range:
  assumes "bits_ok ds" "d \<in> set ds"
  shows "0 \<le> dev_bit d \<and> dev_bit d < int (peers ds (pd_tbl d))"
proof -
  obtain i where i: "i < length ds" "d = ds ! i" using assms(2) by (metis in_set_conv_nth)
  have split: "ds = take i ds @ d # drop (Suc i) ds" using i id_take_nth_drop by blast
  have "peers ds (pd_tbl d) = peers (take i ds) (pd_tbl d) + 1 + peers (drop (Suc i) ds) (pd_tbl d)"
    using arg_cong [OF split, of "\<lambda>xs. peers xs (pd_tbl d)"] peers_split [OF refl, of "take i ds" d] by simp
  then show ?thesis using assms(1) i by (auto simp: bits_ok_def)
qed

lemma bits_ok_snoc: "bits_ok (ds @ [d]) \<longleftrightarrow> bits_ok ds \<and> dev_bit d = int (peers ds (pd_tbl d))"
  unfolding bits_ok_def by (auto simp: nth_append less_Suc_eq split: if_splits)

lemma bits_surj: "bits_ok ds \<Longrightarrow> n < peers ds p \<Longrightarrow> \<exists>d\<in>set ds. pd_tbl d = p \<and> dev_bit d = int n"
proof (induction ds rule: rev_induct)
  case (snoc d ds)
  then show ?case
    by (cases "n < peers ds p") (auto simp: bits_ok_snoc peers_append split: if_splits)
qed (simp add: peers_def)

text \<open>One report.\<close>

lemma add_req_effect:
  assumes "l \<noteq> 0" "distinct (map cd_dev_hdl (devs lk))" "link_at s l = lk" "d \<in> set (devs lk)" "pd_tbl d = Some p"
    "find_slot_for_req (queue lk) r = idx" "0 \<le> idx"
  shows "cam_req_mgr_process_add_req l (Some (report lh r (cd_dev_hdl d))) s =
    (upd_link l (upd_tbls (map (\<lambda>t. if pd t = p
       then upd_tslot idx (add_slot (report lh r (cd_dev_hdl d)) (dev_bit d) (dev_mask t)) t else t))) s, 0)"
proof -
  have sel: "aq_dev_hdl (report lh r h) = h" "aq_req_id (report lh r h) = r" for h by (simp_all add: report_def)
  show ?thesis
    using assms find_distinct [OF assms(2,4)] by (simp add: cam_req_mgr_process_add_req_def sel Let_def)
qed

definition ready_bits :: "cam_req_mgr_core_link \<Rightarrow> u32 set \<Rightarrow> cam_req_mgr_req_tbl \<Rightarrow> nat set" where
  "ready_bits lk H t = (\<lambda>d. nat (dev_bit d)) ` {d \<in> of_tbl lk t. cd_dev_hdl d \<in> H}"

definition slot_tracks :: "cam_req_mgr_core_link \<Rightarrow> int \<Rightarrow> u32 set \<Rightarrow> cam_req_mgr_req_tbl \<Rightarrow> bool" where
  "slot_tracks lk idx H t \<longleftrightarrow>
     (\<forall>n. bit (req_ready_map (tbl_slot t idx)) n \<longleftrightarrow> n < 32 \<and> n \<in> ready_bits lk H t) \<and>
     ts_state (tbl_slot t idx) =
       (if \<forall>d\<in>of_tbl lk t. cd_dev_hdl d \<notin> H then CRM_REQ_STATE_EMPTY
        else if \<forall>d\<in>of_tbl lk t. cd_dev_hdl d \<in> H then CRM_REQ_STATE_READY else CRM_REQ_STATE_PENDING)"

lemma full_mask:
  assumes "bits_ok (devs lk)" "tbl_counts (devs lk) t" "peers (devs lk) (Some (pd t)) \<le> 32"
    "\<forall>n. bit m n \<longleftrightarrow> n < 32 \<and> n \<in> ready_bits lk H t"
  shows "m = dev_mask t \<longleftrightarrow> (\<forall>d\<in>of_tbl lk t. cd_dev_hdl d \<in> H)"
proof
  assume m: "m = dev_mask t"
  show "\<forall>d\<in>of_tbl lk t. cd_dev_hdl d \<in> H"
  proof
    fix d
    assume d: "d \<in> of_tbl lk t"
    then have dm: "d \<in> set (devs lk)" "pd_tbl d = Some (pd t)" by (auto simp: of_tbl_def)
    have "nat (dev_bit d) < peers (devs lk) (Some (pd t))" using bits_range [OF assms(1) dm(1)] dm(2) by auto
    then have "bit m (nat (dev_bit d))" using assms(2,3) m by (auto simp: tbl_counts_def)
    then obtain e where e: "e \<in> of_tbl lk t" "cd_dev_hdl e \<in> H" "nat (dev_bit e) = nat (dev_bit d)"
      using assms(4) by (auto simp: ready_bits_def)
    have em: "e \<in> set (devs lk)" "pd_tbl e = Some (pd t)" using e(1) by (auto simp: of_tbl_def)
    have "dev_bit e = dev_bit d" using e(3) bits_range [OF assms(1)] dm(1) em(1) by (metis eq_nat_nat_iff)
    then have "e = d" using bits_inj [OF assms(1) em(1) dm(1)] em dm by simp
    then show "cd_dev_hdl d \<in> H" using e(2) by simp
  qed
next
  assume all: "\<forall>d\<in>of_tbl lk t. cd_dev_hdl d \<in> H"
  have le: "n \<in> ready_bits lk H t \<Longrightarrow> n < peers (devs lk) (Some (pd t))" for n
    using bits_range [OF assms(1)] by (force simp: ready_bits_def of_tbl_def)
  have ge: "n \<in> ready_bits lk H t" if "n < peers (devs lk) (Some (pd t))" for n
    using bits_surj [OF assms(1) that] all by (force simp: ready_bits_def of_tbl_def image_iff)
  show "m = dev_mask t"
    by (rule bit_word_eqI) (use assms(2,4) le ge in \<open>auto simp: tbl_counts_def\<close>)
qed

lemma add_slot_report:
  "req_ready_map (add_slot (report lh r h) b m sl) = req_ready_map sl OR push_bit (nat b) 1"
  "ts_state (add_slot (report lh r h) b m sl) =
     (if req_ready_map sl OR push_bit (nat b) 1 = m then CRM_REQ_STATE_READY else CRM_REQ_STATE_PENDING)"
  unfolding add_slot_def Let_def by simp_all

lemma ready_bits_insert:
  assumes "distinct (map cd_dev_hdl (devs lk))" "d \<in> set (devs lk)"
  shows "ready_bits lk (insert (cd_dev_hdl d) H) t =
    (if pd_tbl d = Some (pd t) then insert (nat (dev_bit d)) (ready_bits lk H t) else ready_bits lk H t)"
proof -
  have uniq: "e = d" if "e \<in> set (devs lk)" "cd_dev_hdl e = cd_dev_hdl d" for e
    using that assms by (auto simp: distinct_map inj_on_def)
  have "{e \<in> of_tbl lk t. cd_dev_hdl e \<in> insert (cd_dev_hdl d) H} =
      (if pd_tbl d = Some (pd t) then insert d {e \<in> of_tbl lk t. cd_dev_hdl e \<in> H} else {e \<in> of_tbl lk t. cd_dev_hdl e \<in> H})"
    using assms(2) uniq unfolding of_tbl_def by auto
  then show ?thesis by (simp add: ready_bits_def)
qed

lemma slot_tracks_step:
  assumes "bits_ok (devs lk)" "distinct (map cd_dev_hdl (devs lk))" "tbl_counts (devs lk) t"
    "peers (devs lk) (Some (pd t)) \<le> 32" "d \<in> set (devs lk)" "pd_tbl d = Some p" "slot_tracks lk idx H t"
  shows "slot_tracks lk idx (insert (cd_dev_hdl d) H) (if pd t = p
       then upd_tslot idx (add_slot (report lh r (cd_dev_hdl d)) (dev_bit d) (dev_mask t)) t else t)"
proof (cases "pd t = p")
  case True
  define t' where "t' = upd_tslot idx (add_slot (report lh r (cd_dev_hdl d)) (dev_bit d) (dev_mask t)) t"
  define m where "m = req_ready_map (tbl_slot t idx) OR push_bit (nat (dev_bit d)) 1"
  have t': "tbl_slot t' idx = add_slot (report lh r (cd_dev_hdl d)) (dev_bit d) (dev_mask t) (tbl_slot t idx)" "pd t' = pd t"
    by (simp_all add: t'_def upd_tslot_def)
  have same: "of_tbl lk t' = of_tbl lk t" "ready_bits lk K t' = ready_bits lk K t" for K
    by (simp_all add: of_tbl_def ready_bits_def t'(2))
  have "nat (dev_bit d) < 32" using bits_range [OF assms(1,5)] assms(4,6) True by auto
  then have m: "\<forall>n. bit m n \<longleftrightarrow> n < 32 \<and> n \<in> ready_bits lk (insert (cd_dev_hdl d) H) t"
    unfolding m_def bit_or_shift ready_bits_insert [OF assms(2,5)]
    using assms(6,7) True unfolding slot_tracks_def by auto
  have d: "d \<in> of_tbl lk t" using assms(5,6) True by (simp add: of_tbl_def)
  show ?thesis
    unfolding if_P [OF True] t'_def [symmetric] slot_tracks_def same t'(1) add_slot_report m_def [symmetric]
    using m full_mask [OF assms(1,3,4) m] d by auto
next
  case False
  have "cd_dev_hdl e \<noteq> cd_dev_hdl d" if "e \<in> of_tbl lk t" for e
    using that assms(2,5,6) False by (auto simp: of_tbl_def distinct_map inj_on_def)
  then show ?thesis
    using False assms(6,7) unfolding slot_tracks_def ready_bits_insert [OF assms(2,5)] by auto
qed

lemma report_all_tracks:
  assumes "l \<noteq> 0" "bits_ok (devs lk)" "distinct (map cd_dev_hdl (devs lk))" "\<forall>d\<in>set (devs lk). \<exists>p. pd_tbl d = Some p"
    "length (devs lk) \<le> 32" "find_slot_for_req (queue lk) r = idx" "0 \<le> idx"
    "devs (link_at s l) = devs lk" "queue (link_at s l) = queue lk"
    "\<forall>t\<in>set (tbls (link_at s l)). tbl_counts (devs lk) t \<and> slot_tracks lk idx H t"
    "set rs \<subseteq> cd_dev_hdl ` set (devs lk)"
  shows "\<forall>t\<in>set (tbls (link_at (report_all l lh r rs s) l)). slot_tracks lk idx (H \<union> set rs) t"
  using assms(8-)
proof (induction rs arbitrary: s H)
  case Nil
  then show ?case by (simp add: report_all_def)
next
  case (Cons h rs)
  obtain d where d: "d \<in> set (devs lk)" "h = cd_dev_hdl d" using Cons.prems(4) by auto
  obtain p where p: "pd_tbl d = Some p" using assms(4) d(1) by blast
  define f where "f t = (if pd t = p
    then upd_tslot idx (add_slot (report lh r (cd_dev_hdl d)) (dev_bit d) (dev_mask t)) t else t)" for t :: cam_req_mgr_req_tbl
  have f: "f = (\<lambda>t. if pd t = p
    then upd_tslot idx (add_slot (report lh r (cd_dev_hdl d)) (dev_bit d) (dev_mask t)) t else t)"
    by (rule ext) (simp only: f_def)
  define s1 where "s1 = upd_link l (upd_tbls (map f)) s"
  have step: "fst (cam_req_mgr_process_add_req l (Some (report lh r h)) s) = s1"
    using add_req_effect [OF assms(1), of "link_at s l" s d p r idx lh] assms(3,6,7) Cons.prems(1,2) d p
    by (simp add: s1_def f)
  have s1: "devs (link_at s1 l) = devs lk" "queue (link_at s1 l) = queue lk" "tbls (link_at s1 l) = map f (tbls (link_at s l))"
    using Cons.prems(1,2) by (simp_all add: s1_def)
  have "tbl_counts (devs lk) (f t) \<and> slot_tracks lk idx (insert h H) (f t)" if "t \<in> set (tbls (link_at s l))" for t
  proof -
    have "peers (devs lk) (Some (pd t)) \<le> 32" using assms(5) by (simp add: peers_def order_trans [OF length_filter_le])
    then have "slot_tracks lk idx (insert h H) (f t)"
      unfolding f_def d(2) using slot_tracks_step [OF assms(2,3) _ _ d(1) p] Cons.prems(3) that by blast
    moreover have "tbl_counts (devs lk) (f t) = tbl_counts (devs lk) t" by (simp add: f_def tbl_counts_def upd_tslot_def)
    ultimately show ?thesis using Cons.prems(3) that by blast
  qed
  then have "\<forall>t\<in>set (tbls (link_at s1 l)). tbl_counts (devs lk) t \<and> slot_tracks lk idx (insert h H) t"
    by (simp add: s1(3))
  from Cons.IH [OF s1(1,2) this] Cons.prems(4) show ?case by (simp add: report_all_def step)
qed

text \<open>
  C4: Take a link whose devices fit its tables, at any time of its life, and a request that waits in the input
  queue at a slot which every table holds as empty with no device marked, as after a reset of the slot. When
  devices of the link report the request, in any order and as often as they like, a table's slot for it is
  empty while none of its devices has reported, ready exactly when all of them have, and pending in between.
  (A flush of all requests does not reset the slots of the tables, so afterwards the slot need not be empty.)
\<close>

theorem add_req_ready:
  assumes "l \<noteq> 0" "wired hs (link_at s l)" "distinct hs" "length hs \<le> 32"
    "find_slot_for_req (queue (link_at s l)) r = idx" "0 \<le> idx" "set rs \<subseteq> set hs"
    "\<forall>t\<in>set (tbls (link_at s l)). req_ready_map (tbl_slot t idx) = 0 \<and> ts_state (tbl_slot t idx) = CRM_REQ_STATE_EMPTY"
  shows "\<forall>t\<in>set (tbls (link_at (report_all l lh r rs s) l)). ts_state (tbl_slot t idx) =
     (if \<forall>d\<in>of_tbl (link_at s l) t. cd_dev_hdl d \<notin> set rs then CRM_REQ_STATE_EMPTY
      else if \<forall>d\<in>of_tbl (link_at s l) t. cd_dev_hdl d \<in> set rs then CRM_REQ_STATE_READY else CRM_REQ_STATE_PENDING)"
proof -
  define lk where "lk = link_at s l"
  have hs: "map cd_dev_hdl (devs lk) = hs" "bits_ok (devs lk)" "list_all (tbl_counts (devs lk)) (tbls lk)" "link_ok lk"
    using assms(2) by (auto simp: wired_def lk_def)
  have pd: "\<forall>d\<in>set (devs lk). \<exists>p. pd_tbl d = Some p" using hs(4) by (auto simp: link_ok_def list_all_iff dev_ok_def)
  have len: "length (devs lk) \<le> 32" using hs(1) assms(4) by (metis length_map)
  have "\<forall>t\<in>set (tbls lk). tbl_counts (devs lk) t \<and> slot_tracks lk idx {} t"
    using hs(3) assms(8) by (simp add: list_all_iff slot_tracks_def ready_bits_def lk_def)
  then have "\<forall>t\<in>set (tbls (link_at (report_all l lh r rs s) l)). slot_tracks lk idx ({} \<union> set rs) t"
    using assms(3,5,7) hs(1)
    by (intro report_all_tracks [OF assms(1) hs(2) _ pd len _ assms(6)]) (auto simp: lk_def)
  then show ?thesis by (auto simp: slot_tracks_def lk_def)
qed

subsection \<open>Setting up, and the invariant\<close>

text \<open>
  C5: When every device of a link answers with a delay in range and memory is found, setting up the link
  succeeds: the tables are in falling order of their delays with the right distance to the next, the
  devices are connected in the order given, every device has a table, its bit is its number among the
  devices of that table, a table's mask has the bits of its devices, and a table first skips as many
  traversals as its delay is shorter than the longest one.
\<close>

theorem setup_link_spec:
  assumes "fresh_link lk" "length (l_dev lk) = length (li_dev_hdls li)"
    "version li = VERSION_1 \<and> length (li_dev_hdls li) \<le> UAPI_MAX_HANDLES \<or>
     version li = VERSION_2 \<and> length (li_dev_hdls li) \<le> CAM_REQ_MGR_MAX_HANDLES_V2"
    "list_all (answers ops_at h) (li_dev_hdls li)" "li_dev_hdls li \<noteq> []" "\<forall>k. al k"
  shows "\<exists>lk' cs'. cam_req_mgr_setup_link_info ops_at al h l li lk cs = (lk', cs', 0) \<and> set_up (li_dev_hdls li) lk'"
  by (rule setup_link_ok [OF assms])

text \<open>
  C6: Whatever sequence of tasks the workers of a set of links run - starts of frame, requests
  scheduled, reported, flushed or failed - the read, write and last-applied indices stay inside the 48
  slots, no slot outside the arrays is written, the tables stay in order, and every device keeps a table.
\<close>

theorem crm_reachable_ok:
  assumes "crm_ok L s" "(crm_step L)\<^sup>*\<^sup>* s t"
  shows "crm_ok L t"
  by (rule crm_links.reachable_inv [OF assms])

lemma demo_crm_ok: "crm_ok {5} (demo_crm st)"
  using demo_link_ok by (simp add: crm_ok_def)

theorem crm_reachable_ok_witness:
  "crm_ok {5} (fst (cam_req_mgr_process_trigger 5 (Some demo_sof) (demo_crm CRM_REQ_STATE_READY)))"
  using crm_reachable_ok [OF demo_crm_ok] crm_step.trigger [of 5 "{5}"] by blast

definition demo_info :: "cam_req_mgr_device_info \<Rightarrow> cam_req_mgr_device_info \<times> int" where
  "demo_info i = (i\<lparr>p_delay := 1, trigger := 1\<rparr>, 0)"

definition demo_reg :: "ptr \<Rightarrow> cam_req_mgr_kmd_ops" where
  "demo_reg _ = demo_ops\<lparr>get_dev_info := Some demo_info, link_setup := Some (\<lambda>_ _. 0)\<rparr>"

definition demo_table :: hdl_tbl where
  "demo_table = (case cam_create_device_hdl 0 (Some demo_hdls) \<lparr>c_session_hdl = 0, c_dev_id = 0, c_ops = 9, c_priv = 3\<rparr> of
     (t, _) \<Rightarrow> the t)"

definition demo_handle :: u32 where
  "demo_handle = (case cam_create_device_hdl 0 (Some demo_hdls) \<lparr>c_session_hdl = 0, c_dev_id = 0, c_ops = 9, c_priv = 3\<rparr> of
     (_, r) \<Rightarrow> (case r of Inr h \<Rightarrow> h | Inl _ \<Rightarrow> 0))"

definition demo_fresh :: cam_req_mgr_core_link where
  "demo_fresh = (demo_link CRM_REQ_STATE_EMPTY)\<lparr>max_delay := 0, pd_mask := 0, num_devs := 0, l_dev := [zero_device],
     req := (req (demo_link CRM_REQ_STATE_EMPTY))\<lparr>in_q := zero_queue, l_tbl := []\<rparr>\<rparr>"

definition demo_request :: cam_req_mgr_ver_info where
  "demo_request = \<lparr>version = 1, li_session_hdl = 0, li_dev_hdls = [demo_handle], li_link_hdl = 0\<rparr>"

theorem setup_link_spec_witness:
  "\<exists>lk' cs'. cam_req_mgr_setup_link_info demo_reg (\<lambda>_. True) (Some demo_table) 5 demo_request demo_fresh [] = (lk', cs', 0) \<and>
     set_up [demo_handle] lk'"
proof -
  have "fresh_link demo_fresh"
    by (simp add: fresh_link_def demo_fresh_def demo_link_def apply_inside_def zero_apply_def)
  moreover have "cam_get_device_ops (Some demo_table) demo_handle = 9" by code_simp
  then have "list_all (answers demo_reg (Some demo_table)) (li_dev_hdls demo_request)"
    by (simp add: answers_def demo_request_def demo_reg_def demo_info_def)
  ultimately show ?thesis
    using setup_link_spec [of demo_fresh demo_request demo_reg "Some demo_table" "\<lambda>_. True" 5 "[]"]
    by (simp add: demo_request_def demo_fresh_def)
qed

definition demo_set_up :: crm where
  "demo_set_up = (demo_crm CRM_REQ_STATE_EMPTY)\<lparr>link_at := (\<lambda>_. (demo_link CRM_REQ_STATE_EMPTY)
     \<lparr>req := (req (demo_link CRM_REQ_STATE_EMPTY))\<lparr>l_tbl := [demo_tbl 2 1 CRM_REQ_STATE_EMPTY,
        (demo_tbl 1 0 CRM_REQ_STATE_EMPTY)\<lparr>skip_traverse := 1\<rparr>]\<rparr>\<rparr>)\<rparr>"

lemma demo_set_up_ok: "wired [10, 11] (link_at demo_set_up 5)"
proof -
  define ts where "ts = [demo_tbl 2 1 CRM_REQ_STATE_EMPTY, (demo_tbl 1 0 CRM_REQ_STATE_EMPTY)\<lparr>skip_traverse := 1\<rparr>]"
  have lk: "link_at demo_set_up 5 = upd_tbls (\<lambda>_. ts) (demo_link CRM_REQ_STATE_EMPTY)"
    by (simp add: demo_set_up_def ts_def upd_tbls_def)
  have "same_shape (tbls (demo_link CRM_REQ_STATE_EMPTY)) ts" by (simp add: ts_def same_shape_def)
  then have ok: "link_ok (link_at demo_set_up 5)" unfolding lk by (rule link_ok_upd_tbls [OF demo_link_ok])
  have sel: "devs (link_at demo_set_up 5) = [demo_dev 10 2, demo_dev 11 1]" "tbls (link_at demo_set_up 5) = ts"
    "max_delay (link_at demo_set_up 5) = 2"
    by (simp_all add: lk)
  have one: "bit (1 :: u32) n \<longleftrightarrow> n < 32 \<and> n < 1" for n by (auto simp: bit_1_iff)
  have bits: "bits_ok [demo_dev 10 2, demo_dev 11 1]"
    by (simp add: bits_ok_def demo_dev_def peers_def less_Suc_eq)
  have "list_all (tbl_counts [demo_dev 10 2, demo_dev 11 1]) ts"
    using one by (simp add: ts_def tbl_counts_def demo_tbl_def peers_def demo_dev_def)
  moreover have "\<forall>t\<in>set ts. skip_traverse t = 2 - pd t" by (simp add: ts_def demo_tbl_def)
  ultimately show ?thesis
    using ok bits unfolding wired_def sel by (simp add: demo_dev_def)
qed

lemma add_req_pds: "map pd (tbls (link_at (fst (cam_req_mgr_process_add_req l data s)) l)) = map pd (tbls (link_at s l))"
  by (simp add: cam_req_mgr_process_add_req_def Let_def upd_tslot_def split: option.split)

lemma report_all_pds: "map pd (tbls (link_at (report_all l lh r rs s) l)) = map pd (tbls (link_at s l))"
  unfolding report_all_def by (induction rs arbitrary: s) (simp_all add: add_req_pds)

theorem add_req_ready_witness:
  "list_all (\<lambda>t. ts_state (tbl_slot t 1) = CRM_REQ_STATE_READY) (tbls (link_at (report_all 5 7 2 [11, 10] demo_set_up) 5))"
proof -
  have sel: "queue (link_at demo_set_up 5) = demo_queue" "devs (link_at demo_set_up 5) = [demo_dev 10 2, demo_dev 11 1]"
    "tbls (link_at demo_set_up 5) = [demo_tbl 2 1 CRM_REQ_STATE_EMPTY, (demo_tbl 1 0 CRM_REQ_STATE_EMPTY)\<lparr>skip_traverse := 1\<rparr>]"
    by (simp_all add: demo_set_up_def demo_link_def)
  have fnd: "find_slot_for_req demo_queue 2 = 1" by code_simp
  have "map pd (tbls (link_at (report_all 5 7 2 [11, 10] demo_set_up) 5)) = [2, 1]"
    by (simp add: report_all_pds sel demo_tbl_def)
  from arg_cong [OF this, of set]
  have pds: "pd ` set (tbls (link_at (report_all 5 7 2 [11, 10] demo_set_up) 5)) = {2, 1}" by (simp only: set_map list.set)
  have "\<forall>t\<in>set (tbls (link_at (report_all 5 7 2 [11, 10] demo_set_up) 5)). ts_state (tbl_slot t 1) =
     (if \<forall>d\<in>of_tbl (link_at demo_set_up 5) t. cd_dev_hdl d \<notin> set [11, 10] then CRM_REQ_STATE_EMPTY
      else if \<forall>d\<in>of_tbl (link_at demo_set_up 5) t. cd_dev_hdl d \<in> set [11, 10] then CRM_REQ_STATE_READY
      else CRM_REQ_STATE_PENDING)"
  proof (rule add_req_ready [OF _ demo_set_up_ok])
    show "find_slot_for_req (queue (link_at demo_set_up 5)) 2 = 1" unfolding sel by (rule fnd)
    show "\<forall>t\<in>set (tbls (link_at demo_set_up 5)). req_ready_map (tbl_slot t 1) = 0 \<and> ts_state (tbl_slot t 1) = CRM_REQ_STATE_EMPTY"
      unfolding sel by (simp add: demo_tbl_def zero_tslot_def)
  qed simp_all
  then have rep: "ts_state (tbl_slot t 1) = CRM_REQ_STATE_READY"
    if "t \<in> set (tbls (link_at (report_all 5 7 2 [11, 10] demo_set_up) 5))"
      "\<exists>d\<in>of_tbl (link_at demo_set_up 5) t. cd_dev_hdl d \<in> set [11, 10]"
      "\<forall>d\<in>of_tbl (link_at demo_set_up 5) t. cd_dev_hdl d \<in> set [11, 10]" for t
    using that by meson
  have all: "\<forall>d\<in>of_tbl (link_at demo_set_up 5) t. cd_dev_hdl d \<in> set [11, 10]" for t
  proof -
    have "cd_dev_hdl (demo_dev h p) = h" for h p by (simp add: demo_dev_def)
    then show ?thesis unfolding of_tbl_def sel by auto
  qed
  have "demo_dev 10 2 \<in> of_tbl (link_at demo_set_up 5) t" if "pd t = 2" for t
    unfolding of_tbl_def sel using that by (simp add: demo_dev_def)
  moreover have "demo_dev 11 1 \<in> of_tbl (link_at demo_set_up 5) t" if "pd t = 1" for t
    unfolding of_tbl_def sel using that by (simp add: demo_dev_def)
  ultimately have "\<exists>d\<in>of_tbl (link_at demo_set_up 5) t. cd_dev_hdl d \<in> set [11, 10]" if "pd t \<in> {2, 1}" for t
    using that all by blast
  then show ?thesis unfolding list_all_iff using pds rep all by blast
qed

end
