(* ===== verification/Cam_Crm_Life.thy ===== *)
theory Cam_Crm_Life
  imports Cam_Crm_Props
begin

text \<open>
  The life of a link: how a session hands out its four links and takes them back, what goes wrong after an
  allocation failed, and what the ioctl that makes a link leaves behind in the handle table, the session
  and the link when everything it needs is there.
\<close>

subsection \<open>The links of a session\<close>

text \<open>Every link of the session that is taken stands at its own place of the array, and no other.\<close>

definition ses_ok :: "ptr \<Rightarrow> crm \<Rightarrow> bool" where
  "ses_ok ses s \<longleftrightarrow>
     (\<forall>i<MAXIMUM_LINKS_PER_SESSION. links (session_at s ses) i =
        (if is_used (link_at s (links_init ses i)) then links_init ses i else 0)) \<and>
     num_links (session_at s ses) =
       card {i. i < MAXIMUM_LINKS_PER_SESSION \<and> is_used (link_at s (links_init ses i))}"

text \<open>The addresses of a session's links: the array does not wrap.\<close>

definition ses_addr :: "ptr \<Rightarrow> bool" where
  "ses_addr ses \<longleftrightarrow> ses \<noteq> 0 \<and> unat ses + MAXIMUM_LINKS_PER_SESSION < 2 ^ LENGTH(64)"

lemma links_init_inj: "i < 4 \<Longrightarrow> j < 4 \<Longrightarrow> links_init ses i = links_init ses j \<longleftrightarrow> i = j"
  by (auto simp: links_init_def word_of_nat_eq_iff take_bit_nat_eq_self)

lemma links_init_nonzero:
  assumes "ses_addr ses" "i < 4"
  shows "links_init ses i \<noteq> 0"
proof -
  have lt: "unat ses + (i + 1) < 2 ^ 64" using assms by (simp add: ses_addr_def)
  have "unat (of_nat (i + 1) :: ptr) = i + 1" using assms(2) by (simp only: unat_of_nat) simp
  then have "unat (links_init ses i) = unat ses + (i + 1)"
    unfolding links_init_def unat_word_ariths(1) using lt by (simp del: of_nat_add of_nat_Suc)
  then show ?thesis by auto
qed

lemma first_idx_cong: "(\<And>i. i < 4 \<Longrightarrow> P i = Q i) \<Longrightarrow> first_idx P = first_idx Q"
  unfolding first_idx_def by (intro find_cong) auto

lemma first_idx_Some: "first_idx P = Some i \<Longrightarrow> i < 4 \<and> P i"
  by (auto simp: first_idx_def find_Some_iff)

lemma first_idx_None: "first_idx P = None \<longleftrightarrow> (\<forall>i<4. \<not> P i)"
  by (auto simp: first_idx_def find_None_iff)

definition ses_links :: "ptr \<Rightarrow> crm \<Rightarrow> ptr set" where
  "ses_links ses s = links_init ses ` {i. i < MAXIMUM_LINKS_PER_SESSION \<and> is_used (link_at s (links_init ses i))}"

lemma session_sel [simp]:
  "link_at (upd_session p f s) = link_at s" "session_at (upd_link l g s) = session_at s"
  "session_at (upd_session p f s) p = f (session_at s p)"
  "link_at (upd_link l g s) l = g (link_at s l)" "l' \<noteq> l \<Longrightarrow> link_at (upd_link l g s) l' = link_at s l'"
  by (simp_all add: upd_session_def upd_link_def)

lemma reserve_effect:
  assumes "ses_addr ses" "ses_ok ses s"
  shows "cam_req_mgr_reserve_link True ses s = (s, 0) \<and> (\<forall>i<4. is_used (link_at s (links_init ses i))) \<or>
    (\<exists>i<4. \<not> is_used (link_at s (links_init ses i)) \<and> snd (cam_req_mgr_reserve_link True ses s) = links_init ses i \<and>
       links (session_at (fst (cam_req_mgr_reserve_link True ses s)) ses) = (links (session_at s ses))(i := links_init ses i) \<and>
       num_links (session_at (fst (cam_req_mgr_reserve_link True ses s)) ses) = num_links (session_at s ses) + 1 \<and>
       (\<forall>j<4. is_used (link_at (fst (cam_req_mgr_reserve_link True ses s)) (links_init ses j)) \<longleftrightarrow>
          is_used (link_at s (links_init ses j)) \<or> j = i))"
proof (cases "first_idx (\<lambda>i. \<not> is_used (link_at s (links_init ses i)))")
  case None
  then have all: "\<forall>i<4. is_used (link_at s (links_init ses i))" unfolding first_idx_None by simp
  then have "{i. i < 4 \<and> is_used (link_at s (links_init ses i))} = {i. i < 4}" by auto
  then have "num_links (session_at s ses) \<ge> 4" using assms(2) by (simp add: ses_ok_def)
  then show ?thesis using all assms(1) by (simp add: cam_req_mgr_reserve_link_def ses_addr_def)
next
  case (Some i)
  then have i: "i < 4" "\<not> is_used (link_at s (links_init ses i))" using first_idx_Some by fastforce+
  then have "{i. i < 4 \<and> is_used (link_at s (links_init ses i))} \<subset> {i. i < 4}" by auto
  then have "num_links (session_at s ses) < 4" using assms(2) psubset_card_mono [of "{i. i < (4 :: nat)}"] by (simp add: ses_ok_def)
  moreover have "first_idx (\<lambda>j. links (session_at s ses) j = 0) = Some i"
    unfolding Some [symmetric] using assms links_init_nonzero by (intro first_idx_cong) (auto simp: ses_ok_def)
  ultimately show ?thesis
    using Some i assms(1) by (auto simp: cam_req_mgr_reserve_link_def ses_addr_def Let_def links_init_inj upd_link_def)
qed

lemma unreserve_at_effect:
  "session_at (unreserve_at ses l i s) ses = (if links (session_at s ses) i = l
     then (session_at s ses)\<lparr>links := (links (session_at s ses))(i := 0)\<rparr> else session_at s ses)"
  "is_used (link_at (unreserve_at ses l i s) p) \<longleftrightarrow>
     is_used (link_at s p) \<and> \<not> (links (session_at s ses) i = l \<and> p = links_init ses i)"
  by (auto simp: unreserve_at_def Let_def upd_link_def upd_session_def)

lemma unreserve_fold:
  assumes "distinct xs" "l \<noteq> 0"
  shows "links (session_at (fold (unreserve_at ses l) xs s) ses) =
      (\<lambda>j. if j \<in> set xs \<and> links (session_at s ses) j = l then 0 else links (session_at s ses) j) \<and>
    num_links (session_at (fold (unreserve_at ses l) xs s) ses) = num_links (session_at s ses) \<and>
    (is_used (link_at (fold (unreserve_at ses l) xs s) p) \<longleftrightarrow>
       is_used (link_at s p) \<and> (\<forall>i\<in>set xs. links (session_at s ses) i = l \<longrightarrow> p \<noteq> links_init ses i))"
  using assms(1)
proof (induction xs arbitrary: s)
  case (Cons x xs)
  then show ?case
    using assms(2) by (auto simp: unreserve_at_effect fun_eq_iff)
qed auto

lemma unreserve_step:
  assumes "ses \<noteq> 0" "l \<noteq> 0" "num_links (session_at s ses) \<noteq> 0" "s' = cam_req_mgr_unreserve_link ses l s"
  shows "num_links (session_at s' ses) = num_links (session_at s ses) - 1"
    "i < 4 \<Longrightarrow> links (session_at s' ses) i = (if links (session_at s ses) i = l then 0 else links (session_at s ses) i)"
    "is_used (link_at s' p) \<longleftrightarrow> is_used (link_at s p) \<and> (\<forall>i<4. links (session_at s ses) i = l \<longrightarrow> p \<noteq> links_init ses i)"
proof -
  have eq: "s' = cam_req_mgr_free_link l (upd_session ses (\<lambda>se. se\<lparr>num_links := num_links se - 1\<rparr>)
      (upd_link l (\<lambda>lk. lk\<lparr>sync_link := 0\<rparr>) (fold (unreserve_at ses l) [0..<4] s)))"
    using assms by (simp add: cam_req_mgr_unreserve_link_def Let_def)
  note f = unreserve_fold [OF distinct_upt assms(2), of ses 0 4 s]
  show "num_links (session_at s' ses) = num_links (session_at s ses) - 1"
    unfolding eq using f [of l] by (simp add: cam_req_mgr_free_link_def)
  show "i < 4 \<Longrightarrow> links (session_at s' ses) i = (if links (session_at s ses) i = l then 0 else links (session_at s ses) i)"
    unfolding eq using f [of l] by (simp add: cam_req_mgr_free_link_def)
  have "is_used (link_at s' p) \<longleftrightarrow> is_used (link_at (fold (unreserve_at ses l) [0..<4] s) p)"
    unfolding eq by (simp add: cam_req_mgr_free_link_def upd_link_def)
  then show "is_used (link_at s' p) \<longleftrightarrow> is_used (link_at s p) \<and> (\<forall>i<4. links (session_at s ses) i = l \<longrightarrow> p \<noteq> links_init ses i)"
    using f [of p] by auto
qed

lemma unreserve_effect:
  assumes "ses_addr ses" "ses_ok ses s" "k < 4" "is_used (link_at s (links_init ses k))" "s' = cam_req_mgr_unreserve_link ses (links_init ses k) s"
  shows "\<forall>j<4. links (session_at s' ses) j = (if j = k then 0 else links (session_at s ses) j)"
    "num_links (session_at s' ses) = num_links (session_at s ses) - 1"
    "\<forall>j<4. is_used (link_at s' (links_init ses j)) \<longleftrightarrow> is_used (link_at s (links_init ses j)) \<and> j \<noteq> k"
proof -
  have nz: "links_init ses k \<noteq> 0" "ses \<noteq> 0" using links_init_nonzero [OF assms(1,3)] assms(1) by (auto simp: ses_addr_def)
  have at: "links (session_at s ses) j = links_init ses k \<longleftrightarrow> j = k" if "j < 4" for j
    using that assms(2-4) nz(1) by (auto simp: ses_ok_def links_init_inj)
  have "k \<in> {i. i < 4 \<and> is_used (link_at s (links_init ses i))}" using assms(3,4) by simp
  then have "num_links (session_at s ses) \<noteq> 0" using assms(2) by (auto simp: ses_ok_def)
  note f = unreserve_step [OF nz(2,1) this assms(5)]
  show "\<forall>j<4. links (session_at s' ses) j = (if j = k then 0 else links (session_at s ses) j)"
    "num_links (session_at s' ses) = num_links (session_at s ses) - 1"
    using f(1,2) at by simp_all
  show "\<forall>j<4. is_used (link_at s' (links_init ses j)) \<longleftrightarrow> is_used (link_at s (links_init ses j)) \<and> j \<noteq> k"
    unfolding f(3) using at assms(3) by (auto simp: links_init_inj)
qed

lemma ses_okI:
  assumes "\<forall>i<4. links (session_at s ses) i = (if i \<in> I then links_init ses i else 0)" "I \<subseteq> {..<4}" "num_links (session_at s ses) = card I"
    "\<forall>i<4. is_used (link_at s (links_init ses i)) \<longleftrightarrow> i \<in> I"
  shows "ses_ok ses s" "ses_links ses s = links_init ses ` I"
proof -
  have "{i. i < 4 \<and> is_used (link_at s (links_init ses i))} = I" using assms(2,4) by auto
  then show "ses_ok ses s" "ses_links ses s = links_init ses ` I" using assms by (auto simp: ses_ok_def ses_links_def)
qed

lemma ses_okE:
  assumes "ses_ok ses s"
  obtains I where "\<forall>i<4. links (session_at s ses) i = (if i \<in> I then links_init ses i else 0)" "I \<subseteq> {..<4}"
    "num_links (session_at s ses) = card I" "\<forall>i<4. is_used (link_at s (links_init ses i)) \<longleftrightarrow> i \<in> I" "finite I"
  using assms by (intro that [of "{i. i < 4 \<and> is_used (link_at s (links_init ses i))}"]) (auto simp: ses_ok_def)

lemma reserve_ok:
  assumes "ses_addr ses" "ses_ok ses s" "cam_req_mgr_reserve_link True ses s = (s', l)"
  shows "ses_ok ses s' \<and> (if num_links (session_at s ses) = 4 then l = 0 \<and> s' = s
     else l \<notin> insert 0 (ses_links ses s) \<and> ses_links ses s' = insert l (ses_links ses s))"
proof -
  obtain I where I: "\<forall>i<4. links (session_at s ses) i = (if i \<in> I then links_init ses i else 0)" "I \<subseteq> {..<4}"
    "num_links (session_at s ses) = card I" "\<forall>i<4. is_used (link_at s (links_init ses i)) \<longleftrightarrow> i \<in> I" "finite I"
    using ses_okE [OF assms(2)] .
  have ls: "ses_links ses s = links_init ses ` I" using ses_okI(2) [OF I(1-4)] .
  from reserve_effect [OF assms(1,2)] show ?thesis
  proof (elim disjE exE conjE)
    assume full: "cam_req_mgr_reserve_link True ses s = (s, 0)" "\<forall>i<4. is_used (link_at s (links_init ses i))"
    then have "I = {..<4}" using I(2,4) by auto
    then show ?thesis using full(1) assms(2,3) I(3) by simp
  next
    fix i
    assume i: "i < 4" "\<not> is_used (link_at s (links_init ses i))" "snd (cam_req_mgr_reserve_link True ses s) = links_init ses i"
      "links (session_at (fst (cam_req_mgr_reserve_link True ses s)) ses) = (links (session_at s ses))(i := links_init ses i)"
      "num_links (session_at (fst (cam_req_mgr_reserve_link True ses s)) ses) = num_links (session_at s ses) + 1"
      "\<forall>j<4. is_used (link_at (fst (cam_req_mgr_reserve_link True ses s)) (links_init ses j)) \<longleftrightarrow>
          is_used (link_at s (links_init ses j)) \<or> j = i"
    then have new: "i \<notin> I" "l = links_init ses i" using I(4) assms(3) by auto
    then have "I \<subset> {..<4}" using I(2) i(1) by auto
    then have "card I < 4" using psubset_card_mono [of "{..<4 :: nat}" I] by simp
    moreover have "l \<notin> insert 0 (links_init ses ` I)"
      using new i(1) I(2) links_init_nonzero [OF assms(1) i(1)] by (auto simp: links_init_inj subset_iff)
    moreover have "ses_ok ses s' \<and> ses_links ses s' = links_init ses ` insert i I"
    proof -
      have p1: "\<forall>j<4. links (session_at s' ses) j = (if j \<in> insert i I then links_init ses j else 0)"
        using i(4) I(1) assms(3) by simp
      have p2: "insert i I \<subseteq> {..<4}" "num_links (session_at s' ses) = card (insert i I)"
        using I(2,3,5) i(1,5) new(1) assms(3) by simp_all
      have p3: "\<forall>j<4. is_used (link_at s' (links_init ses j)) \<longleftrightarrow> j \<in> insert i I" using i(6) I(4) assms(3) by auto
      show ?thesis using ses_okI [OF p1 p2 p3] by simp
    qed
    ultimately show ?thesis using I(3) ls new(2) by simp
  qed
qed

lemma unreserve_ok:
  assumes "ses_addr ses" "ses_ok ses s" "l \<in> ses_links ses s"
  shows "ses_ok ses (cam_req_mgr_unreserve_link ses l s) \<and>
    ses_links ses (cam_req_mgr_unreserve_link ses l s) = ses_links ses s - {l}"
proof -
  obtain I where I: "\<forall>i<4. links (session_at s ses) i = (if i \<in> I then links_init ses i else 0)" "I \<subseteq> {..<4}"
    "num_links (session_at s ses) = card I" "\<forall>i<4. is_used (link_at s (links_init ses i)) \<longleftrightarrow> i \<in> I" "finite I"
    using ses_okE [OF assms(2)] .
  have ls: "ses_links ses s = links_init ses ` I" using ses_okI(2) [OF I(1-4)] .
  then obtain k where k: "k \<in> I" "l = links_init ses k" "k < 4" using assms(3) I(2) by auto
  then have "is_used (link_at s (links_init ses k))" using I(4) by simp
  note e = unreserve_effect [OF assms(1,2) k(3) this refl, folded k(2)]
  have "ses_ok ses (cam_req_mgr_unreserve_link ses l s)"
    "ses_links ses (cam_req_mgr_unreserve_link ses l s) = links_init ses ` (I - {k})"
    using ses_okI [of "cam_req_mgr_unreserve_link ses l s" ses "I - {k}"] e I k by (simp_all add: subset_iff)
  moreover have "links_init ses ` (I - {k}) = links_init ses ` I - {l}"
    using I(2) k links_init_inj by (auto simp: subset_iff)
  ultimately show ?thesis using ls by simp
qed

text \<open>
  C10: While the input queues can be allocated, a session of any number of links never hands out a link that is
  in use, refuses a fifth link and nothing else, counts its links, and gives back exactly the link it is told
  to, whichever of its links that is: every link in use stands at its own place of the array of links.
\<close>

theorem session_links_kept:
  assumes "ses_addr ses" "ses_ok ses s" "cam_req_mgr_reserve_link True ses s = (s', l)"
  shows "ses_ok ses s' \<and>
    (if num_links (session_at s ses) = MAXIMUM_LINKS_PER_SESSION then l = 0 \<and> s' = s
     else l \<notin> insert 0 (ses_links ses s) \<and> ses_links ses s' = insert l (ses_links ses s)) \<and>
    (\<forall>l' \<in> ses_links ses s. ses_ok ses (cam_req_mgr_unreserve_link ses l' s) \<and>
       ses_links ses (cam_req_mgr_unreserve_link ses l' s) = ses_links ses s - {l'})"
  using reserve_ok [OF assms] unreserve_ok [OF assms(1,2)] by blast

text \<open>A session without links, and the operations on any array of links.\<close>

lemma reserve_step:
  assumes "ses \<noteq> 0" "num_links (session_at s ses) < 4" "first_idx (\<lambda>i. \<not> is_used (link_at s (links_init ses i))) = Some i"
    "first_idx (\<lambda>j. links (session_at s ses) j = 0) = Some j" "cam_req_mgr_reserve_link True ses s = (s', l)"
  shows "l = links_init ses i" "links (session_at s' ses) = (links (session_at s ses))(j := l)"
    "num_links (session_at s' ses) = num_links (session_at s ses) + 1"
    "is_used (link_at s' p) \<longleftrightarrow> is_used (link_at s p) \<or> p = l"
  using assms by (auto simp: cam_req_mgr_reserve_link_def Let_def upd_link_def)

lemma reserve_fails_step:
  assumes "ses \<noteq> 0" "num_links (session_at s ses) < 4" "first_idx (\<lambda>i. \<not> is_used (link_at s (links_init ses i))) = Some i"
    "cam_req_mgr_reserve_link False ses s = (s', l)"
  shows "l = 0" "session_at s' = session_at s" "is_used (link_at s' p) \<longleftrightarrow> is_used (link_at s p) \<or> p = links_init ses i"
  using assms by (auto simp: cam_req_mgr_reserve_link_def Let_def upd_link_def)

text \<open>
  C35: One failed allocation is enough to break this. The link whose queue could not be allocated stays
  marked as used; from then on the place of a link in the array is not its own place any more, giving a
  link back frees the mark of another one, and a link that is in use is handed out again.
\<close>

theorem reserve_twice:
  assumes "ses_addr ses" "ses_ok ses s" "num_links (session_at s ses) = 0"
    "cam_req_mgr_reserve_link False ses s = (s1, l0)" "cam_req_mgr_reserve_link True ses s1 = (s2, a)"
    "cam_req_mgr_reserve_link True ses s2 = (s3, b)" "cam_req_mgr_reserve_link True ses (cam_req_mgr_unreserve_link ses b s3) = (s4, c)"
  shows "l0 = 0 \<and> a \<noteq> 0 \<and> b \<noteq> a \<and> c = a \<and> links (session_at s4 ses) 0 = a \<and> links (session_at s4 ses) 1 = a"
proof -
  have ses: "ses \<noteq> 0" using assms(1) by (simp add: ses_addr_def)
  have nz: "links_init ses i \<noteq> 0" if "i < 4" for i using links_init_nonzero [OF assms(1) that] .
  have s: "is_used (link_at s (links_init ses i)) \<longleftrightarrow> False" "links (session_at s ses) i = 0" if "i < 4" for i
    using assms(2,3) that by (auto simp: ses_ok_def)
  have upto: "[0..<4] = [0, 1, 2, 3 :: nat]" by (simp add: upt_rec)
  note F = first_idx_def upto links_init_inj nz
  have "first_idx (\<lambda>i. \<not> is_used (link_at s (links_init ses i))) = Some 0" by (simp add: F s)
  note r1 = reserve_fails_step [OF ses _ this assms(4)]
  have u1: "is_used (link_at s1 (links_init ses i)) \<longleftrightarrow> i = 0" if "i < 4" for i using r1 assms(3) s that by (simp add: links_init_inj)
  have l1: "links (session_at s1 ses) i = 0" if "i < 4" for i using r1(2) assms(3) s that by simp
  have "first_idx (\<lambda>i. \<not> is_used (link_at s1 (links_init ses i))) = Some 1" "first_idx (\<lambda>j. links (session_at s1 ses) j = 0) = Some 0"
    by (simp_all add: F u1 l1)
  note r2 = reserve_step [OF ses _ this assms(5)]
  have n1: "num_links (session_at s1 ses) = 0" using r1(2) assms(3) by simp
  have u2: "is_used (link_at s2 (links_init ses i)) \<longleftrightarrow> i = 0 \<or> i = 1" if "i < 4" for i using r2 n1 u1 that by (simp add: links_init_inj)
  have a: "a = links_init ses 1" using r2(1) n1 by simp
  have l2: "links (session_at s2 ses) i = (if i = 0 then a else 0)" if "i < 4" for i using r2(2) n1 l1 that by simp
  have n2: "num_links (session_at s2 ses) = 1" using r2(3) n1 by simp
  have "first_idx (\<lambda>i. \<not> is_used (link_at s2 (links_init ses i))) = Some 2" "first_idx (\<lambda>j. links (session_at s2 ses) j = 0) = Some 1"
    by (simp_all add: F u2 l2 a)
  note r3 = reserve_step [OF ses _ this assms(6)]
  have b: "b = links_init ses 2" using r3(1) n2 by simp
  have u3: "is_used (link_at s3 (links_init ses i)) \<longleftrightarrow> i = 0 \<or> i = 1 \<or> i = 2" if "i < 4" for i
    using r3 n2 u2 that b by (simp add: links_init_inj)
  have l3: "links (session_at s3 ses) i = (if i = 0 then a else if i = 1 then b else 0)" if "i < 4" for i
    using r3(2) n2 l2 that by simp
  have n3: "num_links (session_at s3 ses) = 2" using r3(3) n2 by simp
  define s3' where "s3' = cam_req_mgr_unreserve_link ses b s3"
  have bnz: "b \<noteq> 0" "a \<noteq> 0" "b \<noteq> a" using nz [of 2] nz [of 1] a b by (auto simp: links_init_inj)
  have "num_links (session_at s3 ses) \<noteq> 0" using n3 by simp
  note f = unreserve_step [OF ses bnz(1) this s3'_def]
  have n4: "num_links (session_at s3' ses) = 1" using f(1) n3 by simp
  have l4: "links (session_at s3' ses) i = (if i = 0 then a else 0)" if "i < 4" for i using f(2) l3 that bnz by simp
  have u4: "is_used (link_at s3' (links_init ses i)) \<longleftrightarrow> i = 0 \<or> i = 2" if "i < 4" for i
    unfolding f(3) using u3 l3 that bnz by (auto simp: links_init_inj)
  have "first_idx (\<lambda>i. \<not> is_used (link_at s3' (links_init ses i))) = Some 1" "first_idx (\<lambda>j. links (session_at s3' ses) j = 0) = Some 1"
    by (simp_all add: F u4 l4 bnz)
  note r5 = reserve_step [OF ses _ this assms(7) [folded s3'_def]]
  show ?thesis using r1(1) assms(3) r5(1,2) n4 l4 a bnz by simp
qed

text \<open>A session as it is created.\<close>

definition demo_new_session :: crm where
  "demo_new_session = init_links 100 (demo_crm CRM_REQ_STATE_EMPTY)"

lemma init_links_unused:
  "is_used (link_at (fold (\<lambda>i. upd_link (links_init ses i) (\<lambda>lk. (cam_req_mgr_core_link_reset lk)\<lparr>is_used := False\<rparr>)) xs s) p) \<longleftrightarrow>
     is_used (link_at s p) \<and> p \<notin> links_init ses ` set xs"
  "session_at (fold (\<lambda>i. upd_link (links_init ses i) (\<lambda>lk. (cam_req_mgr_core_link_reset lk)\<lparr>is_used := False\<rparr>)) xs s) = session_at s"
  by (induction xs arbitrary: s) (auto simp: upd_link_def)

lemma demo_new_session_ok: "ses_addr 100" "ses_ok 100 demo_new_session" "num_links (session_at demo_new_session 100) = 0"
  by (auto simp: ses_addr_def ses_ok_def demo_new_session_def init_links_def init_links_unused demo_crm_def)

definition demo_reserved :: crm where
  "demo_reserved = fst (cam_req_mgr_reserve_link True 100 demo_new_session)"

theorem session_links_kept_witness:
  "snd (cam_req_mgr_reserve_link True 100 demo_new_session) \<noteq> 0 \<and> ses_ok 100 demo_reserved \<and>
   ses_ok 100 (cam_req_mgr_unreserve_link 100 (snd (cam_req_mgr_reserve_link True 100 demo_new_session)) demo_reserved)"
proof -
  let ?l = "snd (cam_req_mgr_reserve_link True 100 demo_new_session)"
  have r: "cam_req_mgr_reserve_link True 100 demo_new_session = (demo_reserved, ?l)" by (simp add: demo_reserved_def)
  note first = session_links_kept [OF demo_new_session_ok(1,2) r]
  then have l: "?l \<noteq> 0" "ses_ok 100 demo_reserved" "?l \<in> ses_links 100 demo_reserved" using demo_new_session_ok(3) by simp_all
  have "cam_req_mgr_reserve_link True 100 demo_reserved =
      (fst (cam_req_mgr_reserve_link True 100 demo_reserved), snd (cam_req_mgr_reserve_link True 100 demo_reserved))" by simp
  from session_links_kept [OF demo_new_session_ok(1) l(2) this] l show ?thesis by simp
qed

theorem reserve_twice_witness:
  "\<exists>s1 s2 s3 s4 a b. cam_req_mgr_reserve_link True 100 s1 = (s2, a) \<and> cam_req_mgr_reserve_link True 100 s2 = (s3, b) \<and>
     b \<noteq> a \<and> cam_req_mgr_reserve_link True 100 (cam_req_mgr_unreserve_link 100 b s3) = (s4, a)"
proof -
  define s1 where "s1 = fst (cam_req_mgr_reserve_link False 100 demo_new_session)"
  obtain s2 a where s2: "cam_req_mgr_reserve_link True 100 s1 = (s2, a)" by fastforce
  obtain s3 b where s3: "cam_req_mgr_reserve_link True 100 s2 = (s3, b)" by fastforce
  obtain s4 c where s4: "cam_req_mgr_reserve_link True 100 (cam_req_mgr_unreserve_link 100 b s3) = (s4, c)" by fastforce
  have "cam_req_mgr_reserve_link False 100 demo_new_session = (s1, snd (cam_req_mgr_reserve_link False 100 demo_new_session))"
    by (simp add: s1_def)
  from reserve_twice [OF demo_new_session_ok this s2 s3 s4] show ?thesis using s2 s3 s4 by blast
qed

subsection \<open>Making a link\<close>

text \<open>What setting up a link leaves alone.\<close>

definition link_core :: "cam_req_mgr_core_link \<Rightarrow> u32 \<times> bool \<times> workq option \<times> cam_req_mgr_timer option \<times> ptr \<times> ptr" where
  "link_core lk = (link_hdl lk, is_used lk, link_workq lk, watchdog lk, link_parent lk, sync_link lk)"

lemma link_core_upd [simp]:
  "link_core (upd_queue f lk) = link_core lk" "link_core (upd_tbls g lk) = link_core lk"
  "link_core (cam_req_mgr_tbl_set_id lk) = link_core lk" "link_core (cam_req_mgr_destroy_link_info lk) = link_core lk"
  by (simp_all add: link_core_def upd_queue_def upd_tbls_def cam_req_mgr_tbl_set_id_def cam_req_mgr_destroy_link_info_def
      cam_req_mgr_reset_in_q_def Let_def)

lemma attach_core: "attach_table al p lk = Some (lk', b) \<Longrightarrow> link_core lk' = link_core lk"
  by (auto simp: attach_table_def link_core_def upd_tbls_def split: if_splits option.splits)

lemma connect_core: "connect_devices al i ld ds lk cs = (ds', lk', cs', ok) \<Longrightarrow> link_core lk' = link_core lk"
proof (induction ds arbitrary: i lk cs ds' lk' cs' ok)
  case (Cons d ds)
  show ?case
  proof (cases "attach_table (al i) (p_delay (dev_info d)) lk")
    case None
    then show ?thesis using Cons.prems by (simp add: Let_def)
  next
    case (Some a)
    obtain lk1 b where a: "a = (lk1, b)" by fastforce
    define lk2 where "lk2 = lk1\<lparr>max_delay := (if max_delay lk1 < p_delay (dev_info d) then p_delay (dev_info d) else max_delay lk1)\<rparr>"
    obtain ds1 lk3 cs1 ok1 where r: "connect_devices al (i + 1) ld ds lk2 (cs @ [Link_setup (ld\<lparr>ls_dev_hdl := cd_dev_hdl d\<rparr>)]) = (ds1, lk3, cs1, ok1)"
      using prod_cases4 by blast
    have "link_core lk2 = link_core lk1" by (simp add: lk2_def link_core_def)
    moreover have "lk' = lk3" using Cons.prems Some a r by (simp add: Let_def lk2_def)
    ultimately show ?thesis using Cons.IH [OF r] attach_core [of "al i" "p_delay (dev_info d)" lk lk1 b] Some a by simp
  qed
qed simp

lemma setup_core:
  assumes "cam_req_mgr_setup_link_info ops_at al h l li lk cs = (lk', cs', rc)"
  shows "link_core lk' = link_core lk"
proof -
  define lk0 where "lk0 = lk\<lparr>req := (req lk)\<lparr>num_tbl := 0\<rparr>\<rparr>"
  obtain lk1 rc1 where q: "cam_req_mgr_setup_in_q lk0 = (lk1, rc1)" by fastforce
  have c1: "link_core lk1 = link_core lk"
    using q by (auto simp: cam_req_mgr_setup_in_q_def lk0_def split: if_splits) (simp_all add: link_core_def)
  obtain ds md se e where qd: "query_devices ops_at h l (li_devices li) (l_dev lk1) CAM_PIPELINE_DELAY_0 0 = (ds, md, se, e)"
    using prod_cases4 by blast
  define ld where "ld = \<lparr>link_enable = 1, ls_link_hdl = link_hdl lk1, ls_dev_hdl = 0, ls_max_delay = md, ls_subscribe_event = se\<rparr>"
  obtain ds' lk2 cs2 ok where cd: "connect_devices al 0 ld (take (length (li_devices li)) ds) (lk1\<lparr>subscribe_event := se\<rparr>) cs = (ds', lk2, cs2, ok)"
    using prod_cases4 by blast
  have c2: "link_core lk2 = link_core lk" using connect_core [OF cd] c1 by (simp add: link_core_def)
  have u: "link_core (lk2\<lparr>l_dev := x\<rparr>) = link_core lk2" "link_core (lk2\<lparr>l_dev := x, num_devs := n\<rparr>) = link_core lk2"
    "link_core (lk1\<lparr>l_dev := x\<rparr>) = link_core lk1" for x n
    by (simp_all add: link_core_def)
  show ?thesis
    using assms c1 c2 q qd cd
    by (auto simp: cam_req_mgr_setup_link_info_def Let_def lk0_def [symmetric] ld_def [symmetric] u split: if_splits option.splits)
qed
lemma ses_ok_cong:
  assumes "session_at s' ses = session_at s ses" "\<forall>p. is_used (link_at s' p) = is_used (link_at s p)"
  shows "ses_ok ses s' = ses_ok ses s" "ses_links ses s' = ses_links ses s"
  using assms by (simp_all add: ses_ok_def ses_links_def)

lemma reserve_form:
  assumes "cam_req_mgr_reserve_link True ses s = (s', l)" "l \<noteq> 0"
  obtains i j where "i < 4" "l = links_init ses i"
    "s' = upd_session ses (\<lambda>se. se\<lparr>links := (links se)(j := l), num_links := num_links se + 1\<rparr>)
       (upd_link l (\<lambda>lk. lk\<lparr>num_devs := 0, max_delay := 0, req := (req lk)\<lparr>in_q_alloc := True, in_q := zero_queue\<rparr>,
           link_state := CAM_CRM_LINK_STATE_IDLE, link_parent := ses, sync_link := 0\<rparr>)
         (upd_link l (\<lambda>lk. (cam_req_mgr_core_link_reset lk)\<lparr>is_used := True\<rparr>) s))"
proof -
  have ses: "ses \<noteq> 0" "num_links (session_at s ses) < 4"
    using assms by (auto simp: cam_req_mgr_reserve_link_def split: if_splits)
  then obtain i where i: "first_idx (\<lambda>i. \<not> is_used (link_at s (links_init ses i))) = Some i"
    using assms by (auto simp: cam_req_mgr_reserve_link_def split: option.splits)
  define s2 where "s2 = upd_link (links_init ses i) (\<lambda>lk. lk\<lparr>num_devs := 0, max_delay := 0, req := (req lk)\<lparr>in_q_alloc := True, in_q := zero_queue\<rparr>,
           link_state := CAM_CRM_LINK_STATE_IDLE, link_parent := ses, sync_link := 0\<rparr>)
         (upd_link (links_init ses i) (\<lambda>lk. (cam_req_mgr_core_link_reset lk)\<lparr>is_used := True\<rparr>) s)"
  have eq: "cam_req_mgr_reserve_link True ses s = (case first_idx (\<lambda>j. links (session_at s2 ses) j = 0) of None \<Rightarrow> (s2, 0)
     | Some j \<Rightarrow> (upd_session ses (\<lambda>se. se\<lparr>links := (links se)(j := links_init ses i), num_links := num_links se + 1\<rparr>) s2, links_init ses i))"
    unfolding cam_req_mgr_reserve_link_def Let_def s2_def using ses i by simp
  show thesis
  proof (cases "first_idx (\<lambda>j. links (session_at s2 ses) j = 0)")
    case None
    then show ?thesis using eq assms by simp
  next
    case (Some j)
    then have "l = links_init ses i" "s' = upd_session ses (\<lambda>se. se\<lparr>links := (links se)(j := l), num_links := num_links se + 1\<rparr>) s2"
      using eq assms(1) by simp_all
    then show ?thesis using that first_idx_Some [OF i] unfolding s2_def by blast
  qed
qed

lemma reserve_link_state:
  assumes "cam_req_mgr_reserve_link True ses s = (s', l)" "l \<noteq> 0"
  shows "hdls s' = hdls s" "dev_calls s' = dev_calls s" "crm_lock s' = crm_lock s" "link_workq (link_at s' l) = None"
    "in_q_alloc (req (link_at s' l))" "queue (link_at s' l) = zero_queue" "tbls (link_at s' l) = []" "pd_mask (link_at s' l) = 0"
    "max_delay (link_at s' l) = 0" "apply_data (req (link_at s' l)) = apply_data (req (link_at s l))"
proof -
  obtain i j where s': "s' = upd_session ses (\<lambda>se. se\<lparr>links := (links se)(j := l), num_links := num_links se + 1\<rparr>)
       (upd_link l (\<lambda>lk. lk\<lparr>num_devs := 0, max_delay := 0, req := (req lk)\<lparr>in_q_alloc := True, in_q := zero_queue\<rparr>,
           link_state := CAM_CRM_LINK_STATE_IDLE, link_parent := ses, sync_link := 0\<rparr>)
         (upd_link l (\<lambda>lk. (cam_req_mgr_core_link_reset lk)\<lparr>is_used := True\<rparr>) s))"
    using reserve_form [OF assms] by blast
  show "hdls s' = hdls s" "dev_calls s' = dev_calls s" "crm_lock s' = crm_lock s"
    by (simp_all add: s' upd_session_def upd_link_def)
  show "link_workq (link_at s' l) = None" "in_q_alloc (req (link_at s' l))" "queue (link_at s' l) = zero_queue"
    "tbls (link_at s' l) = []" "pd_mask (link_at s' l) = 0" "max_delay (link_at s' l) = 0"
    "apply_data (req (link_at s' l)) = apply_data (req (link_at s l))"
    by (simp_all add: s' cam_req_mgr_core_link_reset_def)
qed

lemma create_hdl_step:
  assumes "hdl_inv t" "card (dom (hdl_view t)) < CAM_REQ_MGR_MAX_HANDLES"
  obtains t' hv where "cam_create_device_hdl r (Some t) d = (Some t', Ok hv)" "hdl_inv t'" "hdl_view t hv = None"
    "hdl_view t' = (hdl_view t)(hv \<mapsto> (c_session_hdl d, HDL_TYPE_DEV, c_ops d, c_priv d))"
proof -
  have "hdl_create (Device_request r d) t \<noteq> None" using hdls.create_None [OF assms(1)] assms(2) by simp
  then obtain t' hv where c: "cam_create_device_hdl r (Some t) d = (Some t', Ok hv)" "hdl_create (Device_request r d) t = Some (t', hv)"
    using create_device_result [OF assms(1), of r d] by auto
  show thesis using that [OF c(1)] hdls.create_Some [OF assms(1) c(2)] by (simp add: hdl_entry_def)
qed

lemma answers_keep:
  assumes "hdl_inv t" "hdl_inv t'" "hdl_view t hv = None" "hdl_view t' = (hdl_view t)(hv \<mapsto> e)" "answers ops_at (Some t) h"
  shows "answers ops_at (Some t') h"
proof -
  have "h \<noteq> hv" using assms(3,5) by (auto simp: answers_def get_device_view [OF assms(1)] Let_def)
  then have "cam_get_device_ops (Some t') h = cam_get_device_ops (Some t) h"
    by (simp add: get_device_view [OF assms(1)] get_device_view [OF assms(2)] assms(4))
  then show ?thesis using assms(5) by (simp add: answers_def)
qed

text \<open>An environment in which every allocation succeeds.\<close>

definition env_ok :: "link_env \<Rightarrow> bool" where
  "env_ok env \<longleftrightarrow> e_in_q env \<and> e_subdevs env \<and> (\<forall>k. e_tbl env k) \<and> e_wq env \<and> e_job env \<and> e_pool env \<and> e_payload env \<noteq> 0"

lemma link_start_ok:
  assumes "env_ok env" "link_workq (link_at s l) = None"
  shows "\<exists>w. link_start env ses l s =
    (upd_link l (\<lambda>lk. lk\<lparr>link_state := CAM_CRM_LINK_STATE_READY, link_workq := Some w\<rparr>) s, 0, link_hdl (link_at s l))"
proof -
  define s1 where "s1 = upd_link l (\<lambda>lk. lk\<lparr>link_state := CAM_CRM_LINK_STATE_READY\<rparr>) s"
  obtain w j where "cam_req_mgr_workq_create (e_wq env) (e_job env) (e_pool env) CRM_WORKQ_NUM_TASKS False 0 (link_workq (link_at s1 l)) =
      (j, Some w, Inr ())"
    using assms by (auto simp: cam_req_mgr_workq_create_def env_ok_def s1_def Let_def)
  moreover obtain w' where "cam_req_mgr_setup_payload (e_payload env) w = (w', 0)"
    using assms(1) by (simp add: cam_req_mgr_setup_payload_def env_ok_def)
  ultimately have "link_start env ses l s = (upd_link l (\<lambda>lk. lk\<lparr>link_workq := Some w'\<rparr>) s1, 0, link_hdl (link_at s l))"
    by (simp add: link_start_def s1_def [symmetric] Let_def) (simp add: s1_def)
  then show ?thesis by (intro exI [of _ w']) (simp add: s1_def upd_link_def)
qed

lemma set_up_states [simp]:
  "set_up hs (lk\<lparr>link_state := x, link_workq := y\<rparr>) = set_up hs lk"
  by (simp add: set_up_def link_ok_def)

text \<open>The link as it is when its devices are asked, and what linking makes of any answer that is not an error.\<close>

lemma link_common_form:
  assumes ses: "ses_addr ses" "ses_ok ses s" "num_links (session_at s ses) < MAXIMUM_LINKS_PER_SESSION"
    and h: "hdls s = Some t" "hdl_inv t" "card (dom (hdl_view t)) < CAM_REQ_MGR_MAX_HANDLES"
      "cam_get_device_priv (Some t) (li_session_hdl li) = ses"
    and env: "env_ok env" and ad: "\<forall>l. apply_inside (apply_data (req (link_at s l)))"
  obtains l hv t' lk0 where "l \<notin> insert 0 (ses_links ses s)" "hdl_inv t'" "hdl_view t hv = None"
    "hdl_view t' = (hdl_view t)(hv \<mapsto> (li_session_hdl li, HDL_TYPE_DEV, 0, l))" "fresh_link lk0"
    "length (l_dev lk0) = length (li_dev_hdls li)"
    "\<And>lk cs rc. cam_req_mgr_setup_link_info (e_ops env) (e_tbl env) (Some t') l li lk0 (dev_calls s) = (lk, cs, rc) \<Longrightarrow> 0 \<le> rc \<Longrightarrow>
       \<exists>s' w. link_common env id_no li s = (s', 0, hv) \<and> hdls s' = Some t' \<and> ses_ok ses s' \<and>
         ses_links ses s' = insert l (ses_links ses s) \<and> crm_lock s' = crm_lock s \<and> link_hdl (link_at s' l) = hv \<and>
         link_at s' l = lk\<lparr>link_state := CAM_CRM_LINK_STATE_READY, link_workq := Some w\<rparr>"
proof -
  obtain s1 l where r: "cam_req_mgr_reserve_link True ses s = (s1, l)" by fastforce
  have l: "ses_ok ses s1" "l \<notin> insert 0 (ses_links ses s)" "ses_links ses s1 = insert l (ses_links ses s)"
    using reserve_ok [OF ses(1,2) r] ses(3) by auto
  then have "l \<noteq> 0" by simp
  note rl = reserve_link_state [OF r this]
  define d where "d = \<lparr>c_session_hdl = li_session_hdl li, c_dev_id = id_no, c_ops = 0, c_priv = l\<rparr>"
  obtain t' hv where c: "cam_create_device_hdl (e_rand env) (Some t) d = (Some t', Ok hv)" "hdl_inv t'" "hdl_view t hv = None"
    "hdl_view t' = (hdl_view t)(hv \<mapsto> (c_session_hdl d, HDL_TYPE_DEV, c_ops d, c_priv d))"
    using create_hdl_step [OF h(2,3)] .
  define s2 where "s2 = upd_link l (\<lambda>lk. lk\<lparr>link_hdl := hv, last_flush_id := 0\<rparr>) (s1\<lparr>hdls := Some t'\<rparr>)"
  define s3 where "s3 = upd_link l (\<lambda>lk. lk\<lparr>l_dev := replicate (length (li_dev_hdls li)) zero_device\<rparr>) s2"
  have s3: "hdls s3 = Some t'" "crm_lock s3 = crm_lock s" "session_at s3 = session_at s1" "link_hdl (link_at s3 l) = hv"
    "\<forall>p. is_used (link_at s3 p) = is_used (link_at s1 p)" "link_workq (link_at s3 l) = None"
    "length (l_dev (link_at s3 l)) = length (li_dev_hdls li)" "dev_calls s3 = dev_calls s"
    by (simp_all add: s3_def s2_def upd_link_def rl)
  have fresh: "fresh_link (link_at s3 l)" using ad by (simp add: fresh_link_def s3_def s2_def rl)
  have "\<exists>s' w. link_common env id_no li s = (s', 0, hv) \<and> hdls s' = Some t' \<and> ses_ok ses s' \<and>
      ses_links ses s' = insert l (ses_links ses s) \<and> crm_lock s' = crm_lock s \<and> link_hdl (link_at s' l) = hv \<and>
      link_at s' l = lk\<lparr>link_state := CAM_CRM_LINK_STATE_READY, link_workq := Some w\<rparr>"
    if su: "cam_req_mgr_setup_link_info (e_ops env) (e_tbl env) (Some t') l li (link_at s3 l) (dev_calls s) = (lk, cs, rc)" "0 \<le> rc" for lk cs rc
  proof -
    have core: "link_hdl lk = hv" "is_used lk = is_used (link_at s3 l)" "link_workq lk = None"
      using setup_core [OF su(1)] s3 by (simp_all add: link_core_def)
    define s4 where "s4 = (upd_link l (\<lambda>_. lk) s3)\<lparr>dev_calls := cs\<rparr>"
    have "link_workq (link_at s4 l) = None" using core by (simp add: s4_def upd_link_def)
    from link_start_ok [OF env this] obtain w where st: "link_start env ses l s4 =
        (upd_link l (\<lambda>lk. lk\<lparr>link_state := CAM_CRM_LINK_STATE_READY, link_workq := Some w\<rparr>) s4, 0, link_hdl (link_at s4 l))" by metis
    define s5 where "s5 = upd_link l (\<lambda>lk. lk\<lparr>link_state := CAM_CRM_LINK_STATE_READY, link_workq := Some w\<rparr>) s4"
    have e: "cam_req_mgr_reserve_link (e_in_q env) ses s = (s1, l)" "cam_create_device_hdl (e_rand env) (hdls s1) d = (Some t', Inr hv)"
      "ses \<noteq> 0" "e_subdevs env" "link_hdl (link_at s4 l) = hv"
      using env r c(1) h(1) ses(1) core by (simp_all add: env_ok_def rl ses_addr_def s4_def upd_link_def)
    have "link_common env id_no li s = (s5, 0, hv)"
      unfolding link_common_def Let_def h(1,4) e(1) prod.case d_def [symmetric] e(2) sum.case s2_def [symmetric] s3_def [symmetric] s3(1,8)
        su(1) s4_def [symmetric] st e(5) s5_def [symmetric]
      using \<open>l \<noteq> 0\<close> e(3,4) leD [OF su(2)] by simp
    moreover have s5: "hdls s5 = Some t'" "crm_lock s5 = crm_lock s" "session_at s5 ses = session_at s1 ses"
      "\<forall>p. is_used (link_at s5 p) = is_used (link_at s1 p)"
      using s3 core by (simp_all add: s5_def s4_def upd_link_def)
    moreover have "link_at s5 l = lk\<lparr>link_state := CAM_CRM_LINK_STATE_READY, link_workq := Some w\<rparr>" by (simp add: s5_def s4_def upd_link_def)
    ultimately show ?thesis using l core ses_ok_cong [OF s5(3,4)] by (intro exI [of _ s5] exI [of _ w]) simp
  qed
  then show thesis using that [OF l(2) c(2,3) _ fresh s3(7)] c(4) unfolding d_def by simp
qed

lemma lock_sel [simp]:
  "link_at (lock s) = link_at s" "session_at (lock s) = session_at s" "hdls (lock s) = hdls s" "dev_calls (lock s) = dev_calls s"
  "crm_lock (lock s) = crm_lock s + 1"
  by (simp_all add: lock_def)

lemma unlock_pair: "unlock (s, r) = (s\<lparr>crm_lock := crm_lock s - 1\<rparr>, r)"
  by (simp add: unlock_def)

lemma ses_lock [simp]: "ses_ok ses (s\<lparr>crm_lock := n\<rparr>) = ses_ok ses s" "ses_links ses (s\<lparr>crm_lock := n\<rparr>) = ses_links ses s"
  "ses_ok ses (lock s) = ses_ok ses s" "ses_links ses (lock s) = ses_links ses s"
  by (simp_all add: ses_ok_def ses_links_def)

text \<open>
  C9: When the devices answer and memory is found, linking them makes a link that was not in use in the session:
  the handle that is returned was unknown and resolves to the link now, all other handles resolve as before,
  the link's tables are set up for exactly the devices asked for, it is ready, the session
  counts it, and the lock is released.
\<close>

theorem link_creates:
  assumes "ses_addr ses" "ses_ok ses s" "num_links (session_at s ses) < MAXIMUM_LINKS_PER_SESSION"
    "hdls s = Some t" "hdl_inv t" "card (dom (hdl_view t)) < CAM_REQ_MGR_MAX_HANDLES"
    "cam_get_device_priv (Some t) (li_session_hdl li) = ses"
    "version li = VERSION_1" "length (li_dev_hdls li) \<le> UAPI_MAX_HANDLES" "li_dev_hdls li \<noteq> []"
    "list_all (answers (e_ops env) (Some t)) (li_dev_hdls li)" "env_ok env" "\<forall>l. apply_inside (apply_data (req (link_at s l)))"
  shows "\<exists>s' hv l. cam_req_mgr_link env (Some li) s = (s', 0, hv) \<and> cam_get_device_priv (hdls s) hv = 0 \<and>
    cam_get_device_priv (hdls s') hv = l \<and> (\<forall>h. h \<noteq> hv \<longrightarrow> cam_get_device_priv (hdls s') h = cam_get_device_priv (hdls s) h) \<and>
    l \<notin> insert 0 (ses_links ses s) \<and> ses_links ses s' = insert l (ses_links ses s) \<and> ses_ok ses s' \<and>
    set_up (li_dev_hdls li) (link_at s' l) \<and> link_hdl (link_at s' l) = hv \<and>
    link_state (link_at s' l) = CAM_CRM_LINK_STATE_READY \<and> crm_lock s' = crm_lock s"
proof -
  obtain l hv t' lk0 where f: "l \<notin> insert 0 (ses_links ses (lock s))" "hdl_inv t'" "hdl_view t hv = None"
    "hdl_view t' = (hdl_view t)(hv \<mapsto> (li_session_hdl li, HDL_TYPE_DEV, 0, l))" "fresh_link lk0"
    "length (l_dev lk0) = length (li_dev_hdls li)"
    "\<And>lk cs rc. cam_req_mgr_setup_link_info (e_ops env) (e_tbl env) (Some t') l li lk0 (dev_calls (lock s)) = (lk, cs, rc) \<Longrightarrow> 0 \<le> rc \<Longrightarrow>
       \<exists>s' w. link_common env CAM_CRM li (lock s) = (s', 0, hv) \<and> hdls s' = Some t' \<and> ses_ok ses s' \<and>
         ses_links ses s' = insert l (ses_links ses (lock s)) \<and> crm_lock s' = crm_lock (lock s) \<and> link_hdl (link_at s' l) = hv \<and>
         link_at s' l = lk\<lparr>link_state := CAM_CRM_LINK_STATE_READY, link_workq := Some w\<rparr>"
    by (rule link_common_form [of ses "lock s" t li env CAM_CRM]) (use assms in simp_all)
  have "list_all (answers (e_ops env) (Some t')) (li_dev_hdls li)"
    using assms(11) answers_keep [OF assms(5) f(2-4)] by (simp add: list_all_iff)
  moreover have "\<forall>k. e_tbl env k" using assms(12) by (simp add: env_ok_def)
  ultimately obtain lk cs where su: "cam_req_mgr_setup_link_info (e_ops env) (e_tbl env) (Some t') l li lk0 (dev_calls (lock s)) = (lk, cs, 0)"
    "set_up (li_dev_hdls li) lk"
    using setup_link_ok [OF f(5,6) _ _ assms(10)] assms(8,9) by metis
  obtain s1 w where c: "link_common env CAM_CRM li (lock s) = (s1, 0, hv)" "hdls s1 = Some t'" "ses_ok ses s1"
    "ses_links ses s1 = insert l (ses_links ses (lock s))" "crm_lock s1 = crm_lock (lock s)" "link_hdl (link_at s1 l) = hv"
    "link_at s1 l = lk\<lparr>link_state := CAM_CRM_LINK_STATE_READY, link_workq := Some w\<rparr>"
    using f(7) [OF su(1) order_refl] by blast
  have "cam_req_mgr_link env (Some li) s = (s1\<lparr>crm_lock := crm_lock s\<rparr>, 0, hv)"
    using assms(9) c(1,5) by (simp add: cam_req_mgr_link_def unlock_pair)
  moreover have "cam_get_device_priv (Some t') h = (if h = hv then l else cam_get_device_priv (Some t) h)"
    "cam_get_device_priv (Some t) hv = 0" for h
    using f(3,4) by (simp_all add: get_device_view [OF f(2)] get_device_view [OF assms(5)])
  moreover have "link_state (link_at s1 l) = CAM_CRM_LINK_STATE_READY" "set_up (li_dev_hdls li) (link_at s1 l)"
    unfolding c(7) using su(2) by simp_all
  ultimately show ?thesis
    using assms(4) f(1) c(2-6) by (intro exI [of _ "s1\<lparr>crm_lock := crm_lock s\<rparr>"] exI [of _ hv] exI [of _ l]) simp
qed

text \<open>A session with one device.\<close>

definition demo_env :: link_env where
  "demo_env = \<lparr>e_in_q = True, e_rand = 5, e_subdevs = True, e_tbl = (\<lambda>_. True), e_wq = True, e_job = True, e_pool = True,
     e_payload = 8192, e_ops = demo_reg, e_notify_rc = 0\<rparr>"

lemma demo_session_map: "hdl_view demo_session = [demo_hdl \<mapsto> (demo_hdl, HDL_TYPE_SESSION, 0, 4096)]"
proof -
  have "hdl_view demo_hdls = Map.empty"
    by (rule ext) (simp add: hdl_view_def demo_hdls_def cam_req_mgr_util_init_def zero_handle_def Let_def)
  then show ?thesis
    using hdls.create_Some [OF demo_hdls_inv, of "Session_request 9 4096" demo_session demo_hdl]
    by (simp add: hdl_create_def demo_session_create hdl_entry_def)
qed

lemma init_links_apply:
  "apply_data (req (link_at (fold (\<lambda>i. upd_link (links_init ses i) (\<lambda>lk. (cam_req_mgr_core_link_reset lk)\<lparr>is_used := False\<rparr>)) xs s) p)) =
     apply_data (req (link_at s p))"
  by (induction xs arbitrary: s) (simp_all add: upd_link_def cam_req_mgr_core_link_reset_def)

lemma demo_session_room: "card (dom (hdl_view demo_session)) < CAM_REQ_MGR_MAX_HANDLES"
  by (simp add: demo_session_map)

text \<open>A table with a session at address 4096 and one device, whose operations are at address 9.\<close>

lemma demo_device:
  obtains t hv where "hdl_inv t" "card (dom (hdl_view t)) < CAM_REQ_MGR_MAX_HANDLES" "cam_get_device_priv (Some t) demo_hdl = 4096"
    "cam_get_device_ops (Some t) hv = 9"
proof -
  obtain t hv where t: "hdl_inv t" "hdl_view demo_session hv = None" "hdl_view t = (hdl_view demo_session)(hv \<mapsto> (0, HDL_TYPE_DEV, 9, 3))"
    using create_hdl_step [OF demo_session_inv, of 0 "\<lparr>c_session_hdl = 0, c_dev_id = 0, c_ops = 9, c_priv = 3\<rparr>"]
    by (metis cam_create_dev_hdl.select_convs demo_session_room)
  have "hv \<noteq> demo_hdl" using t(2) by (auto simp: demo_session_map)
  then show thesis using that [of t hv] t(1,3) by (simp add: get_device_view [OF t(1)] demo_session_map card_insert_if)
qed

definition demo_empty :: "hdl_tbl \<Rightarrow> crm" where
  "demo_empty t = (init_links 4096 (demo_crm CRM_REQ_STATE_EMPTY))\<lparr>hdls := Some t\<rparr>"

lemma demo_empty_ok:
  "ses_addr 4096" "ses_ok 4096 (demo_empty t)" "num_links (session_at (demo_empty t) 4096) < MAXIMUM_LINKS_PER_SESSION"
  "hdls (demo_empty t) = Some t" "apply_inside (apply_data (req (link_at (demo_empty t) l)))"
  by (auto simp: ses_addr_def ses_ok_def demo_empty_def init_links_def init_links_unused demo_crm_def)
    (simp_all add: init_links_apply demo_link_def apply_inside_def zero_apply_def)

definition demo_ask :: "u32 \<Rightarrow> cam_req_mgr_ver_info" where
  "demo_ask hv = \<lparr>version = 1, li_session_hdl = demo_hdl, li_dev_hdls = [hv], li_link_hdl = 0\<rparr>"

theorem link_creates_witness:
  "\<exists>hv s s' h. cam_req_mgr_link demo_env (Some (demo_ask hv)) s = (s', 0, h) \<and>
     set_up [hv] (link_at s' (cam_get_device_priv (hdls s') h))"
proof -
  obtain t hv where t: "hdl_inv t" "card (dom (hdl_view t)) < CAM_REQ_MGR_MAX_HANDLES" "cam_get_device_priv (Some t) demo_hdl = 4096"
    "cam_get_device_ops (Some t) hv = 9" using demo_device .
  have "list_all (answers (e_ops demo_env) (Some t)) (li_dev_hdls (demo_ask hv))" "env_ok demo_env"
    using t(4) by (simp_all add: answers_def demo_ask_def demo_env_def demo_reg_def demo_info_def env_ok_def)
  then show ?thesis
    using link_creates [OF demo_empty_ok(1-4) t(1,2), of "demo_ask hv" demo_env] demo_empty_ok(5) t(3) by (auto simp: demo_ask_def)
qed

end
