(* ===== verification/Cam_Crm_Work.thy ===== *)
theory Cam_Crm_Work
  imports Cam_Crm_Life
begin

text \<open>
  The request manager together with its work queue and the handle table: a callback or an ioctl finds the
  link behind a handle and queues a task, the worker runs it, and the devices are called.
\<close>

subsection \<open>From a callback to the worker\<close>

text \<open>A work queue with nothing pending and a task to give.\<close>

definition idle :: "workq \<Rightarrow> bool" where
  "idle w \<longleftrightarrow> job w \<and> process_head w 0 = [] \<and> process_head w 1 = [] \<and> empty_head w \<noteq> [] \<and> cancel (pool w (hd (empty_head w))) \<noteq> 1"

definition with_workq :: "workq \<Rightarrow> ptr \<Rightarrow> crm \<Rightarrow> crm" where
  "with_workq w l = upd_link l (\<lambda>lk. lk\<lparr>link_workq := Some w\<rparr>)"

lemma enqueue_idle:
  assumes "link_workq (link_at s l) = Some w" "idle w"
  obtains t w' where "enqueue l fn data busy s = (with_workq w' l (s\<lparr>payload_at := (payload_at s)(payload (pool w' t) := data)\<rparr>), 0)"
    "process_head w' 0 = [t]" "process_head w' 1 = []" "process_cb (pool w' t) = fn" "task_priv (pool w' t) = l"
proof -
  obtain t rest where e: "empty_head w = t # rest" using assms(2) by (cases "empty_head w") (auto simp: idle_def)
  define w' where "w' = w\<lparr>free_cnt := free_cnt w - 1, empty_head := rest,
      pool := (pool w)(t := (pool w t)\<lparr>process_cb := fn, task_priv := l, priority := 0\<rparr>), process_head := (process_head w)(0 := [t]),
      pending_cnt := pending_cnt w + 1, work_pending := True\<rparr>"
  have "enqueue l fn data busy s = (with_workq w' l (s\<lparr>payload_at := (payload_at s)(payload (pool w' t) := data)\<rparr>), 0)"
    using assms e
    by (simp add: enqueue_def cam_req_mgr_workq_get_task_def cam_req_mgr_workq_enqueue_task_def idle_def with_workq_def w'_def Let_def)
  moreover have "process_head w' 0 = [t]" "process_head w' 1 = []" "process_cb (pool w' t) = fn" "task_priv (pool w' t) = l"
    using assms(2) by (simp_all add: w'_def idle_def)
  ultimately show thesis using that by blast
qed

lemma run_single:
  assumes "link_workq (link_at s l) = Some w" "process_head w 0 = [t]" "process_head w 1 = []"
  obtains w' where "run_workq n l s = upd_workq (cam_req_mgr_workq_put_task t) l (fst (run_task n (pool w t) (with_workq w' l s)))"
proof -
  define w1 where "w1 = w\<lparr>work_pending := False, pending_cnt := pending_cnt w - 1, process_head := (process_head w)(0 := [])\<rparr>"
  have s1: "upd_workq (\<lambda>w. w\<lparr>work_pending := False\<rparr>) l s = with_workq (w\<lparr>work_pending := False\<rparr>) l s"
    using assms(1) by (simp add: upd_workq_def with_workq_def upd_link_def)
  have "take_pending 0 (w\<lparr>work_pending := False\<rparr>) = Some (t, w1)" using assms(2) by (simp add: take_pending_def w1_def)
  moreover have "upd_workq (\<lambda>_. w1) l (with_workq (w\<lparr>work_pending := False\<rparr>) l s) = with_workq w1 l s"
    by (simp add: upd_workq_def with_workq_def upd_link_def)
  moreover have "pool w1 t = pool w t" by (simp add: w1_def)
  ultimately have "work_one n l 0 (with_workq (w\<lparr>work_pending := False\<rparr>) l s) =
      upd_workq (cam_req_mgr_workq_put_task t) l (fst (run_task n (pool w t) (with_workq w1 l s)))"
    by (simp add: work_one_def) (simp add: with_workq_def)
  then show thesis using that [of w1] assms by (simp add: run_workq_def s1)
qed

text \<open>A task put into an idle queue is what the worker runs next.\<close>

lemma served:
  assumes "link_workq (link_at s l) = Some w" "idle w"
  obtains s1 s2 T t w' w'' p where "enqueue l fn data busy s = (s1, 0)"
    "run_workq n l s1 = upd_workq (cam_req_mgr_workq_put_task t) l (fst (run_task n T s2))"
    "process_cb T = fn" "task_priv T = l" "payload_at s2 (payload T) = data" "s2 = with_workq w' l (s\<lparr>payload_at := p\<rparr>)"
    "s1 = with_workq w'' l (s\<lparr>payload_at := p\<rparr>)"
proof -
  obtain t w1 where e: "enqueue l fn data busy s = (with_workq w1 l (s\<lparr>payload_at := (payload_at s)(payload (pool w1 t) := data)\<rparr>), 0)"
    "process_head w1 0 = [t]" "process_head w1 1 = []" "process_cb (pool w1 t) = fn" "task_priv (pool w1 t) = l"
    using enqueue_idle [OF assms] by blast
  define p where "p = (payload_at s)(payload (pool w1 t) := data)"
  have "link_workq (link_at (with_workq w1 l (s\<lparr>payload_at := p\<rparr>)) l) = Some w1" by (simp add: with_workq_def)
  from run_single [OF this e(2,3)] obtain w' where r: "run_workq n l (with_workq w1 l (s\<lparr>payload_at := p\<rparr>)) =
      upd_workq (cam_req_mgr_workq_put_task t) l (fst (run_task n (pool w1 t) (with_workq w' l (with_workq w1 l (s\<lparr>payload_at := p\<rparr>)))))"
    by metis
  have "with_workq w' l (with_workq w1 l (s\<lparr>payload_at := p\<rparr>)) = with_workq w' l (s\<lparr>payload_at := p\<rparr>)"
    by (simp add: with_workq_def upd_link_def)
  moreover have "payload_at (with_workq w' l (s\<lparr>payload_at := p\<rparr>)) (payload (pool w1 t)) = data"
    by (simp add: with_workq_def upd_link_def p_def)
  ultimately show thesis using that [OF e(1) [folded p_def]] r e(4,5) by metis
qed
text \<open>The work queue and the watchdog of a link do not matter to what a start of frame does.\<close>

lemma link_view [simp]:
  "link_ok (lk\<lparr>watchdog := x, link_workq := w\<rparr>) = link_ok lk"
  "link_agrees (lk\<lparr>watchdog := x, link_workq := w\<rparr>) i = link_agrees lk i"
  "undelayed (lk\<lparr>watchdog := x, link_workq := w\<rparr>) i = undelayed lk i"
  by (simp_all add: link_ok_def link_agrees_def undelayed_def)

lemma due_view [simp]: "due_calls (lk\<lparr>watchdog := x, link_workq := w\<rparr>) i trg = due_calls lk i trg"
proof -
  have "due (lk\<lparr>watchdog := x, link_workq := w\<rparr>) i = due lk i" by (rule ext) (simp add: due_def Let_def)
  moreover from this have "due_call (lk\<lparr>watchdog := x, link_workq := w\<rparr>) i trg = due_call lk i trg"
    by (intro ext) (simp add: due_call_def)
  ultimately show ?thesis by (simp add: due_calls_def)
qed

text \<open>
  C7: A start of frame reported through the callback by its link handle reaches the devices: the callback
  queues a task, and when the worker has run it every device has been called with the request that is
  due for it, the slot is applied, and no device is called otherwise.
\<close>

theorem trigger_served:
  assumes "l \<noteq> 0" "cam_get_device_priv (hdls s) (tn_link_hdl td) = l" "\<not> below_ready (link_state (link_at s l))"
    "link_workq (link_at s l) = Some w" "idle w" "link_ok (link_at s l)" "sync_link (link_at s l) = 0" "\<not> in_msync_mode (link_at s l)"
    "tn_trigger td = CAM_TRIGGER_POINT_SOF" "find_slot_for_req (queue (link_at s l)) (tn_req_id td) = -1"
    "i = rd_idx (queue (link_at s l))"
    "status (slot (queue (link_at s l)) i) = CRM_SLOT_STATUS_REQ_ADDED \<or>
     status (slot (queue (link_at s l)) i) = CRM_SLOT_STATUS_REQ_PENDING"
    "trigger_mask (link_at s l) = 0" "subscribe_event (link_at s l) = CAM_TRIGGER_POINT_SOF"
    "link_agrees (link_at s l) i" "undelayed (link_at s l) i" "list_all takes_all (devs (link_at s l))"
    "cam_req_mgr_cb_notify_trigger (Some td) s = (s1, rc)" "s2 = run_workq n l s1"
  shows "rc = 0 \<and> dev_calls s1 = dev_calls s \<and> dev_calls s2 = dev_calls s @ due_calls (link_at s l) i CAM_TRIGGER_POINT_SOF \<and>
    status (slot (queue (link_at s2 l)) i) = CRM_SLOT_STATUS_REQ_APPLIED"
proof -
  define s0 where "s0 = reset_watchdog l s"
  have lk0: "link_at s0 l = (link_at s l)\<lparr>watchdog := crm_timer_reset (jiffies s) (watchdog (link_at s l))\<rparr>" "dev_calls s0 = dev_calls s"
    by (simp_all add: s0_def reset_watchdog_def upd_link_def)
  have "link_workq (link_at s0 l) = Some w" using assms(4) by (simp add: lk0)
  from served [OF this assms(5), of Fn_process_trigger "Task_notify_sof td" "code EBUSY" n]
  obtain s1' s2' T t w' w'' p where sv: "enqueue l Fn_process_trigger (Task_notify_sof td) (code EBUSY) s0 = (s1', 0)"
    "run_workq n l s1' = upd_workq (cam_req_mgr_workq_put_task t) l (fst (run_task n T s2'))" "process_cb T = Fn_process_trigger"
    "task_priv T = l" "payload_at s2' (payload T) = Task_notify_sof td" "s2' = with_workq w' l (s0\<lparr>payload_at := p\<rparr>)"
    "s1' = with_workq w'' l (s0\<lparr>payload_at := p\<rparr>)" .
  have cb: "s1 = s1'" "rc = 0" using assms(1-3,18) sv(1) by (auto simp: cam_req_mgr_cb_notify_trigger_def s0_def Let_def)
  have lk2: "link_at s2' l = (link_at s l)\<lparr>watchdog := crm_timer_reset (jiffies s) (watchdog (link_at s l)), link_workq := Some w'\<rparr>"
    "dev_calls s2' = dev_calls s" "dev_calls s1' = dev_calls s"
    by (simp_all add: sv(6,7) with_workq_def upd_link_def lk0)
  obtain s3 rc3 where tr: "cam_req_mgr_process_trigger l (Some td) s2' = (s3, rc3)" by fastforce
  have "dev_calls s3 = dev_calls s @ due_calls (link_at s l) i CAM_TRIGGER_POINT_SOF \<and>
      status (slot (queue (link_at s3 l)) i) = CRM_SLOT_STATUS_REQ_APPLIED"
    using sof_calls [OF assms(1) _ _ _ assms(9) _ _ _ _ _ _ _ _ tr, of i] assms(6-8,10-17) by (simp add: lk2)
  moreover have "s2 = upd_workq (cam_req_mgr_workq_put_task t) l s3"
    using assms(19) cb sv(2-5) tr by (simp add: run_task_def)
  then have "dev_calls s2 = dev_calls s3" "queue (link_at s2 l) = queue (link_at s3 l)"
    by (simp_all add: upd_workq_def upd_link_def)
  ultimately show ?thesis using cb lk2(3) by simp
qed

subsection \<open>Cancelling a request\<close>

lemma flush_devices_calls:
  "fst (flush_devices r ds cs rc) = cs @ map (\<lambda>d. Flush_req (r\<lparr>fl_dev_hdl := cd_dev_hdl d\<rparr>)) (filter (\<lambda>d. op_of flush_req d \<noteq> None) ds)"
  by (induction ds arbitrary: cs rc) (auto simp: Let_def split: option.splits)

definition flush_calls :: "cam_req_mgr_flush_info \<Rightarrow> cam_req_mgr_core_link \<Rightarrow> dev_call list" where
  "flush_calls fi lk = map (\<lambda>d. Flush_req \<lparr>fl_link_hdl = fi_link_hdl fi, fl_dev_hdl = cd_dev_hdl d, fl_type = flush_type fi,
      fl_req_id = fi_req_id fi\<rparr>) (filter (\<lambda>d. op_of flush_req d \<noteq> None) (devs lk))"

lemma flush_notify_effect:
  "dev_calls (fst (flush_notify l fi s)) = dev_calls s @ flush_calls fi (link_at s l)"
  "link_at (fst (flush_notify l fi s)) l = complete (link_at s l)" "crm_lock (fst (flush_notify l fi s)) = crm_lock s"
proof -
  define r where "r = \<lparr>fl_link_hdl = fi_link_hdl fi, fl_dev_hdl = 0 :: u32, fl_type = flush_type fi, fl_req_id = fi_req_id fi\<rparr>"
  obtain cs rc where f: "flush_devices r (devs (link_at s l)) (dev_calls s) 0 = (cs, rc)" by fastforce
  have "cs = dev_calls s @ flush_calls fi (link_at s l)"
    using arg_cong [OF f, of fst] unfolding flush_devices_calls by (simp add: flush_calls_def r_def)
  moreover have "flush_notify l fi s = ((upd_link l complete s)\<lparr>dev_calls := cs\<rparr>, rc)"
    using f by (simp add: flush_notify_def r_def)
  ultimately show "dev_calls (fst (flush_notify l fi s)) = dev_calls s @ flush_calls fi (link_at s l)"
    "link_at (fst (flush_notify l fi s)) l = complete (link_at s l)" "crm_lock (fst (flush_notify l fi s)) = crm_lock s"
    by (simp_all add: upd_link_def)
qed

lemma cancel_effect:
  assumes "l \<noteq> 0" "flush_type fi = CAM_REQ_MGR_FLUSH_TYPE_CANCEL_REQ" "idx = find_slot_for_req (queue (link_at s l)) (fi_req_id fi)"
    "0 \<le> idx" "s' = fst (cam_req_mgr_process_flush_req l (Some fi) s)"
  shows "crm_lock s' = crm_lock s \<and> (if status (slot (queue (link_at s l)) idx) = CRM_SLOT_STATUS_REQ_PENDING \<or>
       status (slot (queue (link_at s l)) idx) = CRM_SLOT_STATUS_REQ_APPLIED then s' = s
     else workq_comp (link_at s' l) = workq_comp (link_at s l) + 1 \<and> queue (link_at s' l) = cam_req_mgr_in_q_skip_idx idx (queue (link_at s l)) \<and>
       dev_calls s' = dev_calls s @ flush_calls fi (link_at s l))"
proof -
  define s1 where "s1 = upd_link l (upd_queue (cam_req_mgr_in_q_skip_idx idx)) s"
  have s1: "link_at s1 l = upd_queue (cam_req_mgr_in_q_skip_idx idx) (link_at s l)" "dev_calls s1 = dev_calls s" "crm_lock s1 = crm_lock s"
    by (simp_all add: s1_def upd_link_def)
  have "flush_calls fi (link_at s1 l) = flush_calls fi (link_at s l)" by (simp add: flush_calls_def s1)
  moreover have "workq_comp (link_at s1 l) = workq_comp (link_at s l)" by (simp add: s1 upd_queue_def)
  moreover have "\<not> idx < 0" using assms(4) by simp
  ultimately show ?thesis
    using assms(1,2,5) flush_notify_effect [of l fi s1]
    by (simp add: cam_req_mgr_process_flush_req_def Let_def assms(3) [symmetric] s1_def [symmetric] s1(2,3)) (simp add: s1)
qed

text \<open>
  C11: Cancelling a request through the ioctl, with the worker free to run. A request that waits in the
  queue is marked to be skipped, every device that can flush is told once, and the call succeeds. A
  request that has been tried or applied is refused by the handler, but the handler then does not wake
  the caller, who waits the whole second and is told that the call timed out.
\<close>

theorem flush_cancel_result:
  assumes "l \<noteq> 0" "ses \<noteq> 0" "cam_get_device_priv (hdls s) (fi_session_hdl fi) = ses" "cam_get_device_priv (hdls s) (fi_link_hdl fi) = l"
    "num_links (session_at s ses) \<noteq> 0" "link_workq (link_at s l) = Some w" "idle w"
    "flush_type fi = CAM_REQ_MGR_FLUSH_TYPE_CANCEL_REQ" "idx = find_slot_for_req (queue (link_at s l)) (fi_req_id fi)" "0 \<le> idx"
    "st = status (slot (queue (link_at s l)) idx)" "cam_req_mgr_flush_requests n True (Some fi) s = (s', rc)"
  shows "crm_lock s' = crm_lock s \<and> (if st = CRM_SLOT_STATUS_REQ_PENDING \<or> st = CRM_SLOT_STATUS_REQ_APPLIED
     then rc = code ETIMEDOUT \<and> queue (link_at s' l) = queue (link_at s l) \<and> dev_calls s' = dev_calls s
     else rc = 0 \<and> queue (link_at s' l) = cam_req_mgr_in_q_skip_idx idx (queue (link_at s l)) \<and>
       dev_calls s' = dev_calls s @ flush_calls fi (link_at s l))"
proof -
  define s0 where "s0 = upd_link l (\<lambda>lk. lk\<lparr>workq_comp := 0\<rparr>) (lock s)"
  have w0: "link_workq (link_at s0 l) = Some w" using assms(6) by (simp add: s0_def)
  obtain t rest where e: "empty_head w = t # rest" using assms(7) by (cases "empty_head w") (auto simp: idle_def)
  from served [OF w0 assms(7), of Fn_process_flush_req "Task_flush_req fi" "code ENOMEM" n]
  obtain s1 s2 T t w' w'' p where sv: "enqueue l Fn_process_flush_req (Task_flush_req fi) (code ENOMEM) s0 = (s1, 0)"
    "run_workq n l s1 = upd_workq (cam_req_mgr_workq_put_task t) l (fst (run_task n T s2))" "process_cb T = Fn_process_flush_req"
    "task_priv T = l" "payload_at s2 (payload T) = Task_flush_req fi" "s2 = with_workq w' l (s0\<lparr>payload_at := p\<rparr>)"
    "s1 = with_workq w'' l (s0\<lparr>payload_at := p\<rparr>)" .
  have s2: "queue (link_at s2 l) = queue (link_at s l)" "devs (link_at s2 l) = devs (link_at s l)" "workq_comp (link_at s2 l) = 0"
    "dev_calls s2 = dev_calls s" "crm_lock s2 = crm_lock s + 1"
    by (simp_all add: sv(6) s0_def with_workq_def upd_link_def)
  define s3 where "s3 = fst (cam_req_mgr_process_flush_req l (Some fi) s2)"
  define s4 where "s4 = upd_workq (cam_req_mgr_workq_put_task t) l s3"
  have "run_workq n l s1 = s4" using sv(2-5) by (simp add: run_task_def s3_def s4_def)
  moreover have le: "\<not> CAM_REQ_MGR_FLUSH_TYPE_MAX \<le> CAM_REQ_MGR_FLUSH_TYPE_CANCEL_REQ" by (simp add: word_le_nat_alt)
  ultimately have res: "cam_req_mgr_flush_requests n True (Some fi) s =
      (s4\<lparr>crm_lock := crm_lock s4 - 1\<rparr>, if workq_comp (link_at s4 l) = 0 then code ETIMEDOUT else 0)"
    unfolding cam_req_mgr_flush_requests_def option.case Let_def
    using assms(1-8) e sv(1) s0_def le by (simp add: unlock_pair cam_req_mgr_workq_get_task_def)
  have s4: "workq_comp (link_at s4 l) = workq_comp (link_at s3 l)" "queue (link_at s4 l) = queue (link_at s3 l)"
    "dev_calls s4 = dev_calls s3" "crm_lock s4 = crm_lock s3"
    by (simp_all add: s4_def upd_workq_def upd_link_def)
  have fc: "flush_calls fi (link_at s2 l) = flush_calls fi (link_at s l)" by (simp add: flush_calls_def s2)
  have idx: "idx = find_slot_for_req (queue (link_at s2 l)) (fi_req_id fi)" using assms(9) by (simp add: s2)
  have eq: "s' = s4\<lparr>crm_lock := crm_lock s4 - 1\<rparr>" "rc = (if workq_comp (link_at s4 l) = 0 then code ETIMEDOUT else 0)"
    using res assms(12) by simp_all
  show ?thesis
    using cancel_effect [OF assms(1,8) idx assms(10) s3_def] unfolding s2 fc assms(11) [symmetric] eq
    by (auto simp: s4 s2)
qed

subsection \<open>A link behind a handle\<close>

definition demo_idle :: workq where
  "demo_idle = \<lparr>job = True, in_irq = False, pending_cnt = 0, free_cnt = 1, process_head = (\<lambda>_. []), empty_head = [0],
     pool = (\<lambda>_. zero_task), num_task = 1, work_pending = False, ran = []\<rparr>"

definition demo_live :: "hdl_tbl \<Rightarrow> crm" where
  "demo_live t = (demo_crm CRM_REQ_STATE_READY)\<lparr>hdls := Some t, link_at := (\<lambda>_. (demo_link CRM_REQ_STATE_READY)\<lparr>link_workq := Some demo_idle\<rparr>),
     session_at := (\<lambda>_. \<lparr>ses_hdl = 0, num_links = 1, links = (\<lambda>_. 5), force_err_recovery = 0, ses_sync_mode = 0\<rparr>)\<rparr>"

lemma demo_idle_ok: "idle demo_idle"
  by (simp add: idle_def demo_idle_def zero_task_def)

lemma demo_handles:
  obtains t hv where "cam_get_device_priv (Some t) hv = 5" "cam_get_device_priv (Some t) demo_hdl = 4096"
proof -
  have "card (dom (hdl_view demo_session)) < CAM_REQ_MGR_MAX_HANDLES" by (simp add: demo_session_map)
  from create_hdl_step [OF demo_session_inv this, of 0 "\<lparr>c_session_hdl = 0, c_dev_id = 0, c_ops = 0, c_priv = 5\<rparr>"]
  obtain t hv where t: "hdl_inv t" "hdl_view demo_session hv = None" "hdl_view t = (hdl_view demo_session)(hv \<mapsto> (0, HDL_TYPE_DEV, 0, 5))"
    by (metis cam_create_dev_hdl.select_convs)
  have "hv \<noteq> demo_hdl" using t(2) by (auto simp: demo_session_map)
  then show thesis using that [of t hv] t(3) by (simp add: get_device_view [OF t(1)] demo_session_map)
qed

lemma workq_view [simp]:
  "link_ok (lk\<lparr>link_workq := w\<rparr>) = link_ok lk" "link_agrees (lk\<lparr>link_workq := w\<rparr>) i = link_agrees lk i"
  "undelayed (lk\<lparr>link_workq := w\<rparr>) i = undelayed lk i" "due_calls (lk\<lparr>link_workq := w\<rparr>) i trg = due_calls lk i trg"
  using link_view [where lk = lk and x = "watchdog lk" and w = w] due_view [where lk = lk and x = "watchdog lk" and w = w]
  by simp_all

lemma demo_live_sel [simp]:
  "link_at (demo_live t) l = (demo_link CRM_REQ_STATE_READY)\<lparr>link_workq := Some demo_idle\<rparr>" "hdls (demo_live t) = Some t"
  "dev_calls (demo_live t) = []" "num_links (session_at (demo_live t) p) = 1"
  by (simp_all add: demo_live_def)

lemma demo_due: "due_calls (demo_link CRM_REQ_STATE_READY) 1 1 =
     [Apply_req \<lparr>ar_link_hdl = 7, ar_dev_hdl = 10, request_id = 2, report_if_bubble = 0, trigger_point = 1\<rparr>,
      Apply_req \<lparr>ar_link_hdl = 7, ar_dev_hdl = 11, request_id = 1, report_if_bubble = 0, trigger_point = 1\<rparr>]"
  by (simp add: due_calls_def due_call_def due_def demo_dev_def demo_tbl_def slot_at_def demo_queue_def zero_slot_def)

theorem trigger_served_witness:
  "\<exists>td s s1. cam_req_mgr_cb_notify_trigger (Some td) s = (s1, 0) \<and> dev_calls s1 = [] \<and> dev_calls (run_workq 0 5 s1) =
     [Apply_req \<lparr>ar_link_hdl = 7, ar_dev_hdl = 10, request_id = 2, report_if_bubble = 0, trigger_point = 1\<rparr>,
      Apply_req \<lparr>ar_link_hdl = 7, ar_dev_hdl = 11, request_id = 1, report_if_bubble = 0, trigger_point = 1\<rparr>]"
proof -
  obtain t hv where h: "cam_get_device_priv (Some t) hv = 5" using demo_handles by blast
  define td where "td = demo_sof\<lparr>tn_link_hdl := hv\<rparr>"
  obtain s1 rc where cb: "cam_req_mgr_cb_notify_trigger (Some td) (demo_live t) = (s1, rc)" by fastforce
  have st: "status (slot demo_queue 1) = CRM_SLOT_STATUS_REQ_ADDED" by (simp add: demo_queue_def)
  have "rc = 0 \<and> dev_calls s1 = dev_calls (demo_live t) \<and>
      dev_calls (run_workq 0 5 s1) = dev_calls (demo_live t) @ due_calls (link_at (demo_live t) 5) 1 CAM_TRIGGER_POINT_SOF \<and>
      status (slot (queue (link_at (run_workq 0 5 s1) 5)) 1) = CRM_SLOT_STATUS_REQ_APPLIED"
    by (rule trigger_served [OF _ _ _ _ demo_idle_ok _ _ _ _ _ _ _ _ _ _ _ _ cb refl])
      (use h demo_link_ok demo_agrees demo_takes st in \<open>simp_all add: td_def demo_sof_def demo_find_none\<close>, simp add: demo_link_def)
  then show ?thesis using cb demo_due by auto
qed

theorem flush_cancel_result_witness:
  "\<exists>fi s s'. cam_req_mgr_flush_requests 0 True (Some fi) s = (s', code ETIMEDOUT) \<and> fi_req_id fi = 1 \<and>
     status (slot (queue (link_at s 5)) 0) = CRM_SLOT_STATUS_REQ_APPLIED"
proof -
  obtain t hv where h: "cam_get_device_priv (Some t) hv = 5" "cam_get_device_priv (Some t) demo_hdl = 4096" using demo_handles by blast
  define fi where "fi = \<lparr>fi_session_hdl = demo_hdl, fi_link_hdl = hv, flush_type = CAM_REQ_MGR_FLUSH_TYPE_CANCEL_REQ, fi_req_id = 1\<rparr>"
  have fnd: "find_slot_for_req demo_queue 1 = 0" by code_simp
  have st: "status (slot demo_queue 0) = CRM_SLOT_STATUS_REQ_APPLIED" by (simp add: demo_queue_def)
  obtain s' rc where f: "cam_req_mgr_flush_requests 0 True (Some fi) (demo_live t) = (s', rc)" by fastforce
  have "rc = code ETIMEDOUT"
    using flush_cancel_result [OF _ _ _ _ _ _ demo_idle_ok _ _ _ _ f, of 5 4096 0 CRM_SLOT_STATUS_REQ_APPLIED] h st
    by (simp add: fi_def fnd)
  then show ?thesis using f st by (intro exI [of _ fi] exI [of _ "demo_live t"] exI [of _ s']) (simp add: fi_def)
qed


end
