(* ===== verification/Cam_Crm_Recover.thy ===== *)
theory Cam_Crm_Recover
  imports Cam_Crm_Work
begin

text \<open>
  Where a link leaves its usual course: a device that reports a delay the manager does not know, a request
  that has to be applied again, and the state a flush of all requests leaves behind.
\<close>

subsection \<open>A delay out of range\<close>

definition misreports :: "(ptr \<Rightarrow> cam_req_mgr_kmd_ops) \<Rightarrow> hdl_tbl option \<Rightarrow> u32 \<Rightarrow> bool" where
  "misreports ops_at h dev_hdl \<longleftrightarrow>
     (let p = cam_get_device_ops h dev_hdl in
      p \<noteq> 0 \<and> link_setup (ops_at p) \<noteq> None \<and>
      (\<exists>g. get_dev_info (ops_at p) = Some g \<and>
         (\<forall>i. 0 \<le> snd (g i) \<and> \<not> (0 \<le> p_delay (fst (g i)) \<and> p_delay (fst (g i)) < CAM_PIPELINE_DELAY_MAX))))"

lemma misreports_keep:
  assumes "hdl_inv t" "hdl_inv t'" "hdl_view t hv = None" "hdl_view t' = (hdl_view t)(hv \<mapsto> e)" "misreports ops_at (Some t) h"
  shows "misreports ops_at (Some t') h"
proof -
  have "h \<noteq> hv" using assms(3,5) by (auto simp: misreports_def get_device_view [OF assms(1)] Let_def)
  then have "cam_get_device_ops (Some t') h = cam_get_device_ops (Some t) h"
    by (simp add: get_device_view [OF assms(1)] get_device_view [OF assms(2)] assms(4))
  then show ?thesis using assms(5) by (simp add: misreports_def)
qed

lemma query_misreport:
  assumes "list_all (answers ops_at h) hs1" "misreports ops_at h dh" "length hs1 < length ds"
  shows "\<exists>ds' md' se' rc. query_devices ops_at h l (hs1 @ dh # hs2) ds md se = (ds', md', se', Some rc) \<and> 0 \<le> rc"
  using assms(1,3)
proof (induction hs1 arbitrary: ds md se)
  case Nil
  then obtain d ds1 where ds: "ds = d # ds1" by (cases ds) auto
  obtain g where g: "cam_get_device_ops h dh \<noteq> 0" "link_setup (ops_at (cam_get_device_ops h dh)) \<noteq> None"
    "get_dev_info (ops_at (cam_get_device_ops h dh)) = Some g"
    "\<And>i. 0 \<le> snd (g i)" "\<And>i. \<not> (0 \<le> p_delay (fst (g i)) \<and> p_delay (fst (g i)) < CAM_PIPELINE_DELAY_MAX)"
    using assms(2) unfolding misreports_def Let_def by blast
  obtain info rc where i: "g ((dev_info d)\<lparr>di_dev_hdl := dh\<rparr>) = (info, rc)" by fastforce
  have "0 \<le> rc" "\<not> (0 \<le> p_delay info \<and> p_delay info < CAM_PIPELINE_DELAY_MAX)"
    using g(4,5) [of "(dev_info d)\<lparr>di_dev_hdl := dh\<rparr>"] i by simp_all
  then show ?case using g(1-3) i by (auto simp: ds op_of_def Let_def)
next
  case (Cons a hs1)
  then obtain d ds1 where ds: "ds = d # ds1" "length hs1 < length ds1" by (cases ds) auto
  obtain g where g: "cam_get_device_ops h a \<noteq> 0" "link_setup (ops_at (cam_get_device_ops h a)) \<noteq> None"
    "get_dev_info (ops_at (cam_get_device_ops h a)) = Some g"
    "\<And>i. 0 \<le> snd (g i)" "\<And>i. 0 \<le> p_delay (fst (g i))" "\<And>i. p_delay (fst (g i)) < CAM_PIPELINE_DELAY_MAX"
    using Cons.prems(1) unfolding list.pred_inject answers_def Let_def by blast
  obtain info rc where i: "g ((dev_info d)\<lparr>di_dev_hdl := a\<rparr>) = (info, rc)" by fastforce
  have "\<not> rc < 0" "\<not> p_delay info \<ge> CAM_PIPELINE_DELAY_MAX" "\<not> p_delay info < 0"
    using g(4-6) [of "(dev_info d)\<lparr>di_dev_hdl := a\<rparr>"] i by simp_all
  moreover obtain ds' md' se' rc' where "query_devices ops_at h l (hs1 @ dh # hs2) ds1 (if p_delay info > md then p_delay info else md)
      (se OR trigger info) = (ds', md', se', Some rc')" "0 \<le> rc'"
    using Cons.IH [OF _ ds(2)] Cons.prems(1) unfolding list.pred_inject by blast
  ultimately show ?case using g(1-3) i by (auto simp: ds(1) op_of_def Let_def)
qed

lemma setup_misreport:
  assumes "fresh_link lk" "length (l_dev lk) = length (li_dev_hdls li)" "version li = VERSION_1" "length (li_dev_hdls li) \<le> UAPI_MAX_HANDLES"
    "li_dev_hdls li = hs1 @ dh # hs2" "list_all (answers ops_at h) hs1" "misreports ops_at h dh"
  shows "\<exists>lk' rc. cam_req_mgr_setup_link_info ops_at al h l li lk cs = (lk', cs, rc) \<and> 0 \<le> rc \<and>
    tbls lk' = [] \<and> num_devs lk' = 0 \<and> num_slots (queue lk') = 0"
proof -
  obtain lk1 where q: "cam_req_mgr_setup_in_q (lk\<lparr>req := (req lk)\<lparr>num_tbl := 0\<rparr>\<rparr>) = (lk1, 0)" "l_dev lk1 = l_dev lk" "in_q_alloc (req lk1)"
    using assms(1) by (auto simp: cam_req_mgr_setup_in_q_def fresh_link_def upd_queue_def)
  have "length hs1 < length (l_dev lk1)" using assms(2,5) q(2) by simp
  from query_misreport [OF assms(6,7) this] obtain ds md se rc where
    qd: "query_devices ops_at h l (hs1 @ dh # hs2) (l_dev lk1) CAM_PIPELINE_DELAY_0 0 = (ds, md, se, Some rc)" "0 \<le> rc"
    by metis
  have "cam_req_mgr_setup_link_info ops_at al h l li lk cs = (cam_req_mgr_destroy_link_info (lk1\<lparr>l_dev := ds\<rparr>), cs, rc)"
    unfolding cam_req_mgr_setup_link_info_def Let_def q(1) using assms(3-5) qd(1) by (simp add: li_devices_def)
  then show ?thesis
    using qd(2) q(3) by (simp add: cam_req_mgr_destroy_link_info_def cam_req_mgr_reset_in_q_def Let_def upd_queue_def upd_tbls_def)
qed
text \<open>
  C36: A device whose description is obtained but has a delay out of range is meant to make the link fail,
  but the return code is then that of the successful query: linking reports success and returns the
  handle of a link that is ready, has no device and no table, and an input queue of no slots. The next
  request scheduled on it advances the write index modulo that number.
\<close>

theorem bad_delay_link:
  assumes "ses_addr ses" "ses_ok ses s" "num_links (session_at s ses) < MAXIMUM_LINKS_PER_SESSION"
    "hdls s = Some t" "hdl_inv t" "card (dom (hdl_view t)) < CAM_REQ_MGR_MAX_HANDLES"
    "cam_get_device_priv (Some t) (li_session_hdl li) = ses"
    "version li = VERSION_1" "length (li_dev_hdls li) \<le> UAPI_MAX_HANDLES" "li_dev_hdls li = hs1 @ dh # hs2"
    "list_all (answers (e_ops env) (Some t)) hs1" "misreports (e_ops env) (Some t) dh" "env_ok env"
    "\<forall>l. apply_inside (apply_data (req (link_at s l)))"
  shows "\<exists>s' hv l. cam_req_mgr_link env (Some li) s = (s', 0, hv) \<and> cam_get_device_priv (hdls s') hv = l \<and> l \<noteq> 0 \<and>
    link_state (link_at s' l) = CAM_CRM_LINK_STATE_READY \<and> tbls (link_at s' l) = [] \<and> num_devs (link_at s' l) = 0 \<and>
    num_slots (queue (link_at s' l)) = 0"
proof -
  obtain l hv t' lk0 where f: "l \<notin> insert 0 (ses_links ses (lock s))" "hdl_inv t'" "hdl_view t hv = None"
    "hdl_view t' = (hdl_view t)(hv \<mapsto> (li_session_hdl li, HDL_TYPE_DEV, 0, l))" "fresh_link lk0"
    "length (l_dev lk0) = length (li_dev_hdls li)"
    "\<And>lk cs rc. cam_req_mgr_setup_link_info (e_ops env) (e_tbl env) (Some t') l li lk0 (dev_calls (lock s)) = (lk, cs, rc) \<Longrightarrow> 0 \<le> rc \<Longrightarrow>
       \<exists>s' w. link_common env CAM_CRM li (lock s) = (s', 0, hv) \<and> hdls s' = Some t' \<and> ses_ok ses s' \<and>
         ses_links ses s' = insert l (ses_links ses (lock s)) \<and> crm_lock s' = crm_lock (lock s) \<and> link_hdl (link_at s' l) = hv \<and>
         link_at s' l = lk\<lparr>link_state := CAM_CRM_LINK_STATE_READY, link_workq := Some w\<rparr>"
    by (rule link_common_form [of ses "lock s" t li env CAM_CRM]) (use assms in simp_all)
  have "list_all (answers (e_ops env) (Some t')) hs1" "misreports (e_ops env) (Some t') dh"
    using assms(11,12) answers_keep [OF assms(5) f(2-4)] misreports_keep [OF assms(5) f(2-4)] by (simp_all add: list_all_iff)
  from setup_misreport [OF f(5,6) assms(8-10) this]
  obtain lk rc where su: "cam_req_mgr_setup_link_info (e_ops env) (e_tbl env) (Some t') l li lk0 (dev_calls (lock s)) = (lk, dev_calls (lock s), rc)"
    "0 \<le> rc" "tbls lk = []" "num_devs lk = 0" "num_slots (queue lk) = 0" by metis
  obtain s1 w where c: "link_common env CAM_CRM li (lock s) = (s1, 0, hv)" "hdls s1 = Some t'"
    "link_at s1 l = lk\<lparr>link_state := CAM_CRM_LINK_STATE_READY, link_workq := Some w\<rparr>"
    using f(7) [OF su(1,2)] by blast
  have "cam_req_mgr_link env (Some li) s = (s1\<lparr>crm_lock := crm_lock s1 - 1\<rparr>, 0, hv)"
    using assms(9) c(1) by (simp add: cam_req_mgr_link_def unlock_pair)
  moreover have "cam_get_device_priv (hdls s1) hv = l" using f(4) by (simp add: c(2) get_device_view [OF f(2)])
  moreover have "link_state (link_at s1 l) = CAM_CRM_LINK_STATE_READY" "tbls (link_at s1 l) = []" "num_devs (link_at s1 l) = 0"
    "num_slots (queue (link_at s1 l)) = 0" unfolding c(3) using su(3-5) by simp_all
  ultimately show ?thesis
    using f(1) by (intro exI [of _ "s1\<lparr>crm_lock := crm_lock s1 - 1\<rparr>"] exI [of _ hv] exI [of _ l]) simp
qed

definition demo_bad_info :: "cam_req_mgr_device_info \<Rightarrow> cam_req_mgr_device_info \<times> int" where
  "demo_bad_info i = (i\<lparr>p_delay := 3, trigger := 1\<rparr>, 0)"

definition demo_bad_env :: link_env where
  "demo_bad_env = demo_env\<lparr>e_ops := (\<lambda>_. demo_ops\<lparr>get_dev_info := Some demo_bad_info, link_setup := Some (\<lambda>_ _. 0)\<rparr>)\<rparr>"

theorem bad_delay_link_witness:
  "\<exists>hv s s' h. cam_req_mgr_link demo_bad_env (Some (demo_ask hv)) s = (s', 0, h) \<and>
     num_slots (queue (link_at s' (cam_get_device_priv (hdls s') h))) = 0"
proof -
  obtain t hv where t: "hdl_inv t" "card (dom (hdl_view t)) < CAM_REQ_MGR_MAX_HANDLES" "cam_get_device_priv (Some t) demo_hdl = 4096"
    "cam_get_device_ops (Some t) hv = 9" using demo_device .
  have "misreports (e_ops demo_bad_env) (Some t) hv" "env_ok demo_bad_env"
    using t(4) by (simp_all add: misreports_def demo_bad_env_def demo_bad_info_def env_ok_def demo_env_def)
  then show ?thesis
    using bad_delay_link [OF demo_empty_ok(1-4) t(1,2), of "demo_ask hv" "[]" hv "[]" demo_bad_env] demo_empty_ok(5) t(3)
    by (auto simp: demo_ask_def)
qed

subsection \<open>Only the devices of the longest delay\<close>

lemma find_slot_none:
  assumes "queue_ok q" "\<And>i. 0 \<le> i \<Longrightarrow> i < MAX_REQ_SLOTS \<Longrightarrow> req_id (slot q i) \<noteq> r"
  shows "find_slot_for_req q r = -1"
  using find_slot_cases [OF assms(1), of r] assms(2) by metis

text \<open>What the devices of the longest delay are called with at the slot \<open>i\<close>.\<close>

definition longest_calls :: "cam_req_mgr_core_link \<Rightarrow> int \<Rightarrow> int \<Rightarrow> u32 \<Rightarrow> dev_call list" where
  "longest_calls lk r rec trg =
     map (\<lambda>d. Apply_req \<lparr>ar_link_hdl = link_hdl lk, ar_dev_hdl = cd_dev_hdl d, request_id = r, report_if_bubble = rec, trigger_point = trg\<rparr>)
       (filter (\<lambda>d. p_delay (dev_info d) = max_delay lk \<and> has_trigger d trg) (devs lk))"

lemma due_longest:
  assumes ok: "link_ok lk" and i: "0 \<le> i" "i < MAX_REQ_SLOTS" and top: "skip_traverse (hd (tbls lk)) = 0" "0 \<le> req_id (slot (queue lk) i)"
    and low: "\<And>t. t \<in> set (tbls lk) \<Longrightarrow> pd t < max_delay lk \<Longrightarrow> skip_traverse t > 0 \<or> req_id (slot (queue lk) (slot_at (max_delay lk) i (pd t))) < 0"
  shows "due_calls lk i trg = longest_calls lk (req_id (slot (queue lk) i)) (recover (slot (queue lk) i)) trg"
proof -
  obtain t0 ts where t0: "tbls lk = t0 # ts" "max_delay lk = pd t0" "tbls_ok (t0 # ts)" using tbls_split [OF ok] by blast
  have top_due: "due lk i d = req_id (slot (queue lk) i)" if "p_delay (dev_info d) = max_delay lk" for d
  proof -
    have "\<not> (\<exists>t\<in>set (tbls lk). pd t = max_delay lk \<and> skip_traverse t > 0)"
      using tbls_ok_sorted [OF t0(3)] top(1) t0(1,2) by force
    then show ?thesis using that i by (auto simp: due_def Let_def list_ex_iff slot_at_self)
  qed
  have low_due: "due lk i d < 0" if d: "d \<in> set (devs lk)" "p_delay (dev_info d) \<noteq> max_delay lk" for d
  proof -
    obtain t where t: "t \<in> set (tbls lk)" "pd t = p_delay (dev_info d)" using dev_tbl [OF ok d(1)] by blast
    have "pd t < max_delay lk" using t d(2) t0(1,2) tbls_ok_sorted [OF t0(3), of t] by auto
    then show ?thesis using low [OF t(1)] t by (auto simp: due_def Let_def list_ex_iff)
  qed
  have "filter (\<lambda>d. 0 \<le> due lk i d \<and> has_trigger d trg) (devs lk) =
      filter (\<lambda>d. p_delay (dev_info d) = max_delay lk \<and> has_trigger d trg) (devs lk)"
    using top(2) top_due low_due by (intro filter_cong) force+
  then show ?thesis
    unfolding due_calls_def longest_calls_def using i by (simp add: due_call_def top_due slot_at_self)
qed
lemma agrees_longest:
  assumes ok: "link_ok lk" and i: "0 \<le> i" "i < MAX_REQ_SLOTS" and top: "ts_state (tbl_slot (hd (tbls lk)) i) = CRM_REQ_STATE_READY"
    and low: "\<And>t. t \<in> set (tbls lk) \<Longrightarrow> pd t < max_delay lk \<Longrightarrow>
      skip_traverse t > 0 \<or> skip_idx (slot (queue lk) (slot_at (max_delay lk) i (pd t))) = 1"
  shows "link_agrees lk i"
proof -
  obtain t0 ts where t0: "tbls lk = t0 # ts" "max_delay lk = pd t0" "tbls_ok (t0 # ts)" using tbls_split [OF ok] by blast
  have "tbl_agrees (queue lk) (max_delay lk) i t" if "t \<in> set (tbls lk)" for t
  proof (cases "t = t0")
    case True
    then show ?thesis using top t0 i by (simp add: tbl_agrees_def slot_at_self)
  next
    case False
    then have "pd t < max_delay lk" using that t0 tbls_ok_sorted [OF t0(3)] by simp
    then show ?thesis using low [OF that] by (auto simp: tbl_agrees_def Let_def)
  qed
  then show ?thesis by (simp add: link_agrees_def list_all_iff)
qed

subsection \<open>Recovering from a bubble\<close>

lemma notify_all_calls:
  "fst (notify_all e ds cs rc) = cs @ map (\<lambda>d. Process_evt (e\<lparr>ev_dev_hdl := cd_dev_hdl d\<rparr>)) (filter (\<lambda>d. op_of process_evt d \<noteq> None) ds)"
  by (induction ds arbitrary: cs rc) (auto simp: Let_def split: option.splits)

definition error_calls :: "cam_req_mgr_core_link \<Rightarrow> int \<Rightarrow> dev_call list" where
  "error_calls lk r = map (\<lambda>d. Process_evt \<lparr>ev_link_hdl = link_hdl lk, ev_dev_hdl = cd_dev_hdl d, ev_req_id = r,
      evt_type = CAM_REQ_MGR_LINK_EVT_ERR, ev_error = CRM_KMD_ERR_BUBBLE\<rparr>) (filter (\<lambda>d. op_of process_evt d \<noteq> None) (devs lk))"

lemma rewind_sel:
  assumes "sync_link lk = 0" "tbls lk = t0 # ts"
  shows "tbls (rewind_to i lk) = map (\<lambda>t. t\<lparr>skip_traverse := pd t0 - pd t\<rparr>) (tbls lk)" "rd_idx (queue (rewind_to i lk)) = i"
    "slot (queue (rewind_to i lk)) j = (if j = i then (slot (queue lk) i)\<lparr>status := CRM_SLOT_STATUS_REQ_ADDED\<rparr> else slot (queue lk) j)"
    "devs (rewind_to i lk) = devs lk" "max_delay (rewind_to i lk) = max_delay lk" "link_hdl (rewind_to i lk) = link_hdl lk"
    "in_msync_mode (rewind_to i lk) = in_msync_mode lk" "trigger_mask (rewind_to i lk) = trigger_mask lk"
    "subscribe_event (rewind_to i lk) = subscribe_event lk"
  using assms by (simp_all add: rewind_to_def Let_def cam_req_mgr_tbl_set_all_skip_cnt_def upd_slot_def upd_queue_def upd_tbls_def)

lemma error_effect:
  assumes "l \<noteq> 0" "en_error en = CRM_KMD_ERR_BUBBLE" "i = find_slot_for_req (queue (link_at s l)) (en_req_id en)" "0 \<le> i"
    "recover (slot (queue (link_at s l)) i) \<noteq> 0"
    "status (slot (queue (link_at s l)) i) = CRM_SLOT_STATUS_REQ_PENDING \<or> status (slot (queue (link_at s l)) i) = CRM_SLOT_STATUS_REQ_APPLIED"
    "cam_req_mgr_process_error l (Some en) s = (s', rc)"
  shows "link_at s' l = rewind_to i (link_at s l)" "dev_calls s' = dev_calls s @ error_calls (link_at s l) (en_req_id en)"
proof -
  define e where "e = \<lparr>ev_link_hdl = link_hdl (link_at s l), ev_dev_hdl = 0, ev_req_id = en_req_id en, evt_type = CAM_REQ_MGR_LINK_EVT_ERR,
      ev_error = CRM_KMD_ERR_BUBBLE\<rparr>"
  obtain cs rc' where n: "notify_all e (devs (link_at s l)) (dev_calls s) 0 = (cs, rc')" by fastforce
  have "cs = dev_calls s @ error_calls (link_at s l) (en_req_id en)"
    using arg_cong [OF n, of fst] unfolding notify_all_calls by (simp add: error_calls_def e_def)
  moreover have "cam_req_mgr_process_error l (Some en) s = ((upd_link l (rewind_to i) s)\<lparr>dev_calls := cs\<rparr>, rc')"
    unfolding cam_req_mgr_process_error_def Let_def assms(3) [symmetric] option.case assms(2) e_def [symmetric] n prod.case
    using assms(1,5,6) leD [OF assms(4)] by (auto simp: n e_def [symmetric])
  ultimately show "link_at s' l = rewind_to i (link_at s l)" "dev_calls s' = dev_calls s @ error_calls (link_at s l) (en_req_id en)"
    using assms(7) by (auto simp: upd_link_def)
qed

text \<open>
  C8: When a device reports that a request that was tried or applied came too late, and the request was
  scheduled with recovery, all devices are told of the error, and the next start of frame applies that
  request again: to the devices of the longest delay only, in order, since the other tables start to
  skip as after the link was made. The link leaves its error state and the request is applied.
\<close>

theorem bubble_recovery:
  assumes "l \<noteq> 0" "lk = link_at s l" "link_ok lk" "sync_link lk = 0" "\<not> in_msync_mode lk" "trigger_mask lk = 0"
    "subscribe_event lk = CAM_TRIGGER_POINT_SOF" "list_all takes_all (devs lk)"
    "en_error en = CRM_KMD_ERR_BUBBLE" "i = find_slot_for_req (queue lk) (en_req_id en)" "0 \<le> i" "0 \<le> en_req_id en"
    "recover (slot (queue lk) i) \<noteq> 0"
    "status (slot (queue lk) i) = CRM_SLOT_STATUS_REQ_PENDING \<or> status (slot (queue lk) i) = CRM_SLOT_STATUS_REQ_APPLIED"
    "ts_state (tbl_slot (hd (tbls lk)) i) = CRM_REQ_STATE_READY" "undelayed lk i"
    "tn_trigger td = CAM_TRIGGER_POINT_SOF" "\<And>j. 0 \<le> j \<Longrightarrow> j < MAX_REQ_SLOTS \<Longrightarrow> req_id (slot (queue lk) j) \<noteq> tn_req_id td"
    "cam_req_mgr_process_error l (Some en) s = (s1, rc1)" "cam_req_mgr_process_trigger l (Some td) s1 = (s2, rc2)"
  shows "0 \<le> rc2 \<and> dev_calls s2 = dev_calls s @ error_calls lk (en_req_id en) @
      longest_calls lk (en_req_id en) (recover (slot (queue lk) i)) CAM_TRIGGER_POINT_SOF \<and>
    status (slot (queue (link_at s2 l)) i) = CRM_SLOT_STATUS_REQ_APPLIED \<and> link_state (link_at s2 l) = CAM_CRM_LINK_STATE_READY"
proof -
  obtain t0 ts where t0: "tbls lk = t0 # ts" "max_delay lk = pd t0" "tbls_ok (t0 # ts)" using tbls_split [OF assms(3)] by blast
  have q: "queue_ok (queue lk)" using link_okD(1) [OF assms(3)] .
  have i: "i < MAX_REQ_SLOTS" "req_id (slot (queue lk) i) = en_req_id en"
    using find_slot_cases [OF q, of "en_req_id en"] assms(10,11) by auto
  define lk1 where "lk1 = rewind_to i lk"
  have e: "link_at s1 l = lk1" "dev_calls s1 = dev_calls s @ error_calls lk (en_req_id en)"
    using error_effect [OF assms(1,9) _ assms(11) _ _ assms(19)] assms(2,10,13,14) by (simp_all add: lk1_def)
  note sel = rewind_sel [OF assms(4) t0(1), where i = i, folded lk1_def]
  have ok1: "link_ok lk1" using rewind_ok [OF assms(3,11) i(1)] by (simp add: lk1_def)
  have st: "link_state lk1 = CAM_CRM_LINK_STATE_ERR" "sync_link lk1 = 0" using assms(4) by (simp_all add: lk1_def rewind_to_def)
  have rq: "req_id (slot (queue lk1) j) = req_id (slot (queue lk) j)" "recover (slot (queue lk1) j) = recover (slot (queue lk) j)" for j
    by (simp_all add: sel(3))
  have top: "hd (tbls lk1) = t0\<lparr>skip_traverse := 0\<rparr>" using t0(1) by (simp add: sel(1))
  have low: "skip_traverse t > 0" if "t \<in> set (tbls lk1)" "pd t < max_delay lk1" for t
    using that t0(2) by (auto simp: sel(1,5))
  have "link_agrees lk1 i" using agrees_longest [OF ok1 assms(11) i(1)] low assms(15) t0(1) by (simp add: top)
  moreover have "undelayed lk1 i" using assms(16) by (auto simp: undelayed_def sel list_all_iff Let_def)
  moreover have "find_slot_for_req (queue lk1) (tn_req_id td) = -1"
    using find_slot_none [OF link_okD(1) [OF ok1]] assms(18) rq by simp
  moreover have dues: "due_calls lk1 i CAM_TRIGGER_POINT_SOF = longest_calls lk (en_req_id en) (recover (slot (queue lk) i)) CAM_TRIGGER_POINT_SOF"
  proof -
    have "skip_traverse (hd (tbls lk1)) = 0" by (simp add: top)
    from due_longest [OF ok1 assms(11) i(1) this] low have "due_calls lk1 i CAM_TRIGGER_POINT_SOF =
        longest_calls lk1 (req_id (slot (queue lk1) i)) (recover (slot (queue lk1) i)) CAM_TRIGGER_POINT_SOF"
      using assms(12) i(2) rq by simp
    then show ?thesis by (simp add: rq i(2) longest_calls_def sel(4-6))
  qed
  ultimately have "0 \<le> rc2 \<and> dev_calls s2 = dev_calls s1 @ due_calls lk1 i CAM_TRIGGER_POINT_SOF \<and>
      status (slot (queue (link_at s2 l)) i) = CRM_SLOT_STATUS_REQ_APPLIED \<and> link_state (link_at s2 l) = recovered (link_state lk1)"
    using sof_calls [OF assms(1) _ _ _ assms(17) _ _ _ _ _ _ _ _ assms(20), of i] ok1 assms(5-8) st(2) by (simp add: e(1) sel)
  then show ?thesis by (simp add: e(2) dues st(1) recovered_def)
qed

definition demo_bubble :: crm where
  "demo_bubble = upd_link 5 (upd_queue (upd_slot 0 (\<lambda>sl. sl\<lparr>recover := 1\<rparr>))) (demo_crm CRM_REQ_STATE_READY)"

definition demo_error :: cam_req_mgr_error_notify where
  "demo_error = \<lparr>en_link_hdl = 7, en_dev_hdl = 10, en_req_id = 1, en_error = CRM_KMD_ERR_BUBBLE\<rparr>"

theorem bubble_recovery_witness:
  "dev_calls (fst (cam_req_mgr_process_trigger 5 (Some demo_sof) (fst (cam_req_mgr_process_error 5 (Some demo_error) demo_bubble)))) =
     [Apply_req \<lparr>ar_link_hdl = 7, ar_dev_hdl = 10, request_id = 1, report_if_bubble = 1, trigger_point = 1\<rparr>]"
proof -
  define lk where "lk = link_at demo_bubble 5"
  define s1 where "s1 = fst (cam_req_mgr_process_error 5 (Some demo_error) demo_bubble)"
  have lk: "lk = upd_queue (upd_slot 0 (\<lambda>sl. sl\<lparr>recover := 1\<rparr>)) (demo_link CRM_REQ_STATE_READY)" "dev_calls demo_bubble = []"
    by (simp_all add: lk_def demo_bubble_def upd_link_def)
  have ok: "link_ok lk" unfolding lk
    using link_ok_upd_queue [OF demo_link_ok] queue_ok_upd_slot [OF demo_queue_ok] by simp
  have sel: "queue lk = upd_slot 0 (\<lambda>sl. sl\<lparr>recover := 1\<rparr>) demo_queue" "devs lk = [demo_dev 10 2, demo_dev 11 1]"
    "tbls lk = [demo_tbl 2 1 CRM_REQ_STATE_READY, demo_tbl 1 0 CRM_REQ_STATE_READY]" "max_delay lk = 2" "link_hdl lk = 7" "sync_link lk = 0"
    "in_msync_mode lk = False" "trigger_mask lk = 0" "subscribe_event lk = 1"
    by (simp_all add: lk) (simp_all add: upd_queue_def demo_link_def)
  have fnd: "find_slot_for_req (queue lk) 1 = 0" unfolding sel by code_simp
  have "req_id (slot (queue lk) j) \<noteq> 0" if "0 \<le> j" "j < MAX_REQ_SLOTS" for j
    using that by (auto simp: sel upd_slot_def demo_queue_def zero_slot_def)
  moreover have "undelayed lk 0" by (simp add: undelayed_def sel demo_tbl_def zero_tslot_def)
  moreover have "list_all takes_all (devs lk)" using demo_takes by (simp add: sel)
  ultimately have "dev_calls (fst (cam_req_mgr_process_trigger 5 (Some demo_sof) s1)) = dev_calls demo_bubble @ error_calls lk 1 @
      longest_calls lk 1 1 CAM_TRIGGER_POINT_SOF"
    using bubble_recovery [of 5 lk demo_bubble demo_error 0 demo_sof s1 "snd (cam_req_mgr_process_error 5 (Some demo_error) demo_bubble)"
        "fst (cam_req_mgr_process_trigger 5 (Some demo_sof) s1)" "snd (cam_req_mgr_process_trigger 5 (Some demo_sof) s1)"] ok fnd
    by (simp add: lk_def [symmetric] sel demo_error_def demo_sof_def s1_def upd_slot_def) (simp add: demo_queue_def demo_tbl_def)
  then show ?thesis
    by (simp add: s1_def [symmetric] lk(2) error_calls_def longest_calls_def sel demo_dev_def op_of_def demo_ops_def)
qed

subsection \<open>Flushing all requests\<close>

lemma flush_all_sel:
  "tbls (flush_all r lk) = tbls lk" "devs (flush_all r lk) = devs lk" "max_delay (flush_all r lk) = max_delay lk"
  "link_hdl (flush_all r lk) = link_hdl lk" "in_msync_mode (flush_all r lk) = in_msync_mode lk" "trigger_mask (flush_all r lk) = trigger_mask lk"
  "subscribe_event (flush_all r lk) = subscribe_event lk" "rd_idx (queue (flush_all r lk)) = 0" "wr_idx (queue (flush_all r lk)) = 0"
  "num_slots (queue (flush_all r lk)) = num_slots (queue lk)"
  "0 \<le> i \<Longrightarrow> i < num_slots (queue lk) \<Longrightarrow> slot (queue (flush_all r lk)) i = flush_slot (slot (queue lk) i)"
  by (simp_all add: flush_all_def) (simp_all add: upd_queue_def)

text \<open>Scheduling on a link that runs alone.\<close>

definition scheduled :: "cam_req_mgr_sched_request \<Rightarrow> cam_req_mgr_core_link \<Rightarrow> cam_req_mgr_core_link" where
  "scheduled sr lk = (upd_queue (\<lambda>q. (upd_slot (wr_idx q) (sched_slot sr) q)\<lparr>wr_idx := inc_idx (wr_idx q) 1 (num_slots q)\<rparr>) lk)
     \<lparr>open_req_cnt := open_req_cnt lk + 1,
      initial_sync_req := (if sr_sync_mode sr = CAM_REQ_MGR_SYNC_MODE_SYNC then (if initial_sync_req lk = -1 then sr_req_id sr else initial_sync_req lk) else -1)\<rparr>"

lemma sched_alone:
  assumes "l \<noteq> 0" "sync_link (link_at s l) = 0"
  shows "link_at (fst (cam_req_mgr_process_sched_req l (Some sr) s)) l = scheduled sr (link_at s l)"
    "dev_calls (fst (cam_req_mgr_process_sched_req l (Some sr) s)) = dev_calls s"
  using assms by (simp_all add: cam_req_mgr_process_sched_req_def Let_def scheduled_def upd_link_def upd_queue_def)

lemma scheduled_sel:
  "tbls (scheduled sr lk) = tbls lk" "devs (scheduled sr lk) = devs lk" "max_delay (scheduled sr lk) = max_delay lk"
  "link_hdl (scheduled sr lk) = link_hdl lk" "in_msync_mode (scheduled sr lk) = in_msync_mode lk" "trigger_mask (scheduled sr lk) = trigger_mask lk"
  "subscribe_event (scheduled sr lk) = subscribe_event lk" "rd_idx (queue (scheduled sr lk)) = rd_idx (queue lk)"
  "sync_link (scheduled sr lk) = sync_link lk"
  "slot (queue (scheduled sr lk)) i = (if i = wr_idx (queue lk) then sched_slot sr (slot (queue lk) i) else slot (queue lk) i)"
  by (simp_all add: scheduled_def upd_slot_def) (simp_all add: upd_queue_def)

lemma scheduled_ok:
  assumes "link_ok lk"
  shows "link_ok (scheduled sr lk)"
proof -
  have q: "queue_ok (queue lk)" using link_okD(1) [OF assms] .
  have "queue_ok ((upd_slot (wr_idx (queue lk)) (sched_slot sr) (queue lk))\<lparr>wr_idx := inc_idx (wr_idx (queue lk)) 1 (num_slots (queue lk))\<rparr>)"
    using queue_ok_wr [OF queue_ok_upd_slot [OF q, of "wr_idx (queue lk)" "sched_slot sr"]] queue_okD [OF q]
    by (simp add: sched_slot_def upd_slot_def)
  then have "link_ok (upd_queue (\<lambda>q. (upd_slot (wr_idx q) (sched_slot sr) q)\<lparr>wr_idx := inc_idx (wr_idx q) 1 (num_slots q)\<rparr>) lk)"
    by (intro link_ok_upd_queue [OF assms])
  then show ?thesis by (simp add: scheduled_def link_ok_def)
qed

text \<open>
  C34: Flushing all requests empties the input queue but leaves the tables of the devices as they are. If
  the request in slot 0 had been reported by all devices of the longest delay, then the next request
  that is scheduled takes slot 0 and is applied to those devices at the next start of frame, although
  not one device has reported it.
\<close>

theorem flush_all_stale:
  assumes "l \<noteq> 0" "lk = link_at s l" "link_ok lk" "sync_link lk = 0" "\<not> in_msync_mode lk" "trigger_mask lk = 0"
    "subscribe_event lk = CAM_TRIGGER_POINT_SOF" "list_all takes_all (devs lk)"
    "ts_state (tbl_slot (hd (tbls lk)) 0) = CRM_REQ_STATE_READY" "skip_traverse (hd (tbls lk)) = 0" "undelayed lk 0"
    "flush_type fi = CAM_REQ_MGR_FLUSH_TYPE_ALL" "s1 = fst (cam_req_mgr_process_flush_req l (Some fi) s)"
    "0 \<le> sr_req_id sr" "sr_sync_mode sr = CAM_REQ_MGR_SYNC_MODE_NO_SYNC" "s2 = fst (cam_req_mgr_process_sched_req l (Some sr) s1)"
    "tn_trigger td = CAM_TRIGGER_POINT_SOF" "tn_req_id td \<noteq> sr_req_id sr" "tn_req_id td \<noteq> -1"
    "cam_req_mgr_process_trigger l (Some td) s2 = (s3, rc)"
  shows "0 \<le> rc \<and> dev_calls s3 = dev_calls s @ longest_calls lk (sr_req_id sr) (bubble_enable sr) CAM_TRIGGER_POINT_SOF \<and>
    status (slot (queue (link_at s3 l)) 0) = CRM_SLOT_STATUS_REQ_APPLIED"
proof -
  define lk1 where "lk1 = flush_all (fi_req_id fi) lk"
  define lk2 where "lk2 = scheduled sr lk1"
  have n: "num_slots (queue lk) = MAX_REQ_SLOTS" using link_okD(1) [OF assms(3)] by (simp add: queue_okD)
  have s1: "link_at s1 l = lk1" "dev_calls s1 = dev_calls s"
    using assms(1,2,12,13) by (simp_all add: cam_req_mgr_process_flush_req_def lk1_def upd_link_def)
  have y: "sync_link lk1 = 0" using assms(4) by (simp add: lk1_def)
  have s2: "link_at s2 l = lk2" "dev_calls s2 = dev_calls s"
    using sched_alone [OF assms(1), of s1 sr] y by (simp_all add: assms(16) s1 lk2_def)
  have ok2: "link_ok lk2" unfolding lk2_def lk1_def by (intro scheduled_ok flush_all_ok assms(3))
  have sel: "tbls lk2 = tbls lk" "devs lk2 = devs lk" "max_delay lk2 = max_delay lk" "link_hdl lk2 = link_hdl lk" "in_msync_mode lk2 = in_msync_mode lk"
    "trigger_mask lk2 = trigger_mask lk" "subscribe_event lk2 = subscribe_event lk" "rd_idx (queue lk2) = 0" "sync_link lk2 = 0"
    by (simp_all add: lk2_def lk1_def scheduled_sel flush_all_sel assms(4))
  have slot0: "status (slot (queue lk2) 0) = CRM_SLOT_STATUS_REQ_ADDED" "req_id (slot (queue lk2) 0) = sr_req_id sr"
    "recover (slot (queue lk2) 0) = bubble_enable sr"
    by (simp_all add: lk2_def lk1_def scheduled_sel flush_all_sel n sched_slot_def)
  have slots: "req_id (slot (queue lk2) j) = -1 \<and> skip_idx (slot (queue lk2) j) = 1" if "0 < j" "j < MAX_REQ_SLOTS" for j
    using that by (simp add: lk2_def lk1_def scheduled_sel flush_all_sel n flush_slot_def)
  have low: "req_id (slot (queue lk2) (slot_at (max_delay lk2) 0 (pd t))) = -1 \<and> skip_idx (slot (queue lk2) (slot_at (max_delay lk2) 0 (pd t))) = 1"
    if "t \<in> set (tbls lk2)" "pd t < max_delay lk2" for t
  proof -
    have "0 \<le> pd t" "max_delay lk2 < CAM_PIPELINE_DELAY_MAX"
      using tbls_ok_in [OF link_okD(3) [OF ok2] that(1)] max_delay_range [OF ok2] by (auto simp: tbl_ok_def)
    then have "slot_at (max_delay lk2) 0 (pd t) = MAX_REQ_SLOTS - (max_delay lk2 - pd t)"
      using that(2) by (auto simp: slot_at_def intro: int_mod_pos_eq [where q = "-1"])
    then show ?thesis using slots [of "slot_at (max_delay lk2) 0 (pd t)"] that(2) \<open>0 \<le> pd t\<close> \<open>max_delay lk2 < CAM_PIPELINE_DELAY_MAX\<close> by simp
  qed
  have agr: "link_agrees lk2 0" using agrees_longest [OF ok2] low assms(9) by (simp add: sel(1))
  have und: "undelayed lk2 0" using assms(11) by (simp add: undelayed_def sel)
  have dues: "due_calls lk2 0 CAM_TRIGGER_POINT_SOF = longest_calls lk (sr_req_id sr) (bubble_enable sr) CAM_TRIGGER_POINT_SOF"
    using due_longest [OF ok2, of 0 CAM_TRIGGER_POINT_SOF] low assms(10,14) by (simp add: slot0 sel longest_calls_def)
  have "find_slot_for_req (queue lk2) (tn_req_id td) = -1"
    using find_slot_none [OF link_okD(1) [OF ok2]] slots slot0(2) assms(18,19) by (metis less_le)
  then show ?thesis
    using sof_calls [OF assms(1) _ _ _ assms(17) _ _ _ _ _ _ _ _ assms(20), of 0] ok2 agr und assms(5-8) slot0(1)
    by (simp add: s2 sel dues)
qed

definition demo_flush :: cam_req_mgr_flush_info where
  "demo_flush = \<lparr>fi_session_hdl = 1, fi_link_hdl = 7, flush_type = CAM_REQ_MGR_FLUSH_TYPE_ALL, fi_req_id = 2\<rparr>"

definition demo_sched :: cam_req_mgr_sched_request where
  "demo_sched = \<lparr>sr_session_hdl = 1, sr_link_hdl = 7, bubble_enable = 0, sr_sync_mode = 0, sr_req_id = 3\<rparr>"

definition demo_flushed :: crm where
  "demo_flushed = fst (cam_req_mgr_process_sched_req 5 (Some demo_sched)
     (fst (cam_req_mgr_process_flush_req 5 (Some demo_flush) (demo_crm CRM_REQ_STATE_READY))))"

theorem flush_all_stale_witness:
  "dev_calls (fst (cam_req_mgr_process_trigger 5 (Some demo_sof) demo_flushed)) =
     [Apply_req \<lparr>ar_link_hdl = 7, ar_dev_hdl = 10, request_id = 3, report_if_bubble = 0, trigger_point = 1\<rparr>]"
proof -
  have und: "undelayed (demo_link CRM_REQ_STATE_READY) 0" by (simp add: undelayed_def demo_tbl_def zero_tslot_def)
  have "dev_calls (fst (cam_req_mgr_process_trigger 5 (Some demo_sof) demo_flushed)) =
      longest_calls (demo_link CRM_REQ_STATE_READY) 3 0 CAM_TRIGGER_POINT_SOF"
    using flush_all_stale [of 5 "demo_link CRM_REQ_STATE_READY" "demo_crm CRM_REQ_STATE_READY" demo_flush
        "fst (cam_req_mgr_process_flush_req 5 (Some demo_flush) (demo_crm CRM_REQ_STATE_READY))" demo_sched demo_flushed demo_sof
        "fst (cam_req_mgr_process_trigger 5 (Some demo_sof) demo_flushed)" "snd (cam_req_mgr_process_trigger 5 (Some demo_sof) demo_flushed)"]
      demo_link_ok und demo_takes
    by (simp add: demo_flush_def demo_sched_def demo_sof_def demo_flushed_def) (simp add: demo_tbl_def)
  then show ?thesis by (simp add: longest_calls_def demo_dev_def)
qed

end
