(* ===== verification/Cam_Common_Util.thy ===== *)
theory Cam_Common_Util
  imports Cam_Prelude
begin

text \<open>
  The helpers of \<^verbatim>\<open>drivers/cam_utils/cam_common_util.c\<close>: the string search, the in-place removal
  of duplicates that \<^verbatim>\<open>cam_sync_merge\<close> uses to refuse a fence listed twice, and the time
  difference. The lemmas give the in-place loop its meaning: the prefix it returns is the array
  with every later copy of an element dropped, so its length is the input's exactly when the
  input has no duplicates.
\<close>

subsection \<open>\<^verbatim>\<open>cam_common_util_get_string_index\<close>\<close>

text \<open>\<^verbatim>\<open>strnstr(s, m, strlen(s))\<close>: the second string occurs in the first.\<close>

fun strnstr :: "string \<Rightarrow> string \<Rightarrow> bool" where
  "strnstr [] m = (m = [])"
| "strnstr (c # s) m = (take (length m) (c # s) = m \<or> strnstr s m)"

fun get_string_index_from :: "nat \<Rightarrow> string list \<Rightarrow> string \<Rightarrow> nat result" where
  "get_string_index_from i [] m = Err EINVAL"
| "get_string_index_from i (s # ss) m =
     (if strnstr s m then Ok i else get_string_index_from (Suc i) ss m)"

definition cam_common_util_get_string_index :: "string list \<Rightarrow> string \<Rightarrow> nat result" where
  "cam_common_util_get_string_index strings matching_string =
     get_string_index_from 0 strings matching_string"

subsection \<open>\<^verbatim>\<open>cam_common_util_remove_duplicate_arr\<close>\<close>

text \<open>The inner loop: the first \<open>j < wr_idx\<close> with \<open>arr[j] = x\<close>, or \<open>wr_idx\<close>.\<close>

function dup_scan :: "int list \<Rightarrow> int \<Rightarrow> nat \<Rightarrow> nat \<Rightarrow> nat" where
  "dup_scan arr x wr_idx j =
     (if j < wr_idx then (if x = arr ! j then j else dup_scan arr x wr_idx (Suc j)) else j)"
  by pat_completeness auto
termination
  by (relation "measure (\<lambda>(arr, x, w, j). w - j)") auto

text \<open>The outer loop; it returns the count and the array as it is left.\<close>

function remove_dup_loop :: "int list \<Rightarrow> nat \<Rightarrow> nat \<Rightarrow> nat \<Rightarrow> nat \<times> int list" where
  "remove_dup_loop arr num i wr_idx =
     (if i < num then
        (let j = dup_scan arr (arr ! i) wr_idx 0 in
         if j = wr_idx then remove_dup_loop (arr[wr_idx := arr ! i]) num (Suc i) (Suc wr_idx)
         else remove_dup_loop arr num (Suc i) wr_idx)
      else (wr_idx, arr))"
  by pat_completeness auto
termination
  by (relation "measure (\<lambda>(arr, num, i, w). num - i)") auto

text \<open>\<open>None\<close> is the \<^verbatim>\<open>NULL\<close> array, for which the function returns 0.\<close>

definition cam_common_util_remove_duplicate_arr :: "int list option \<Rightarrow> nat \<Rightarrow> nat \<times> int list" where
  "cam_common_util_remove_duplicate_arr arr num =
     (case arr of None \<Rightarrow> (0, []) | Some a \<Rightarrow> remove_dup_loop a num 1 1)"

subsection \<open>\<^verbatim>\<open>cam_common_util_get_time_diff\<close>\<close>

record timeval =
  tv_sec :: u64
  tv_usec :: u64

definition cam_common_util_get_time_diff :: "timeval \<Rightarrow> timeval \<Rightarrow> u64" where
  "cam_common_util_get_time_diff t1 t2 =
     (tv_sec t1 - tv_sec t2) * 1000000 + (tv_usec t1 - tv_usec t2)"

declare dup_scan.simps [simp del] remove_dup_loop.simps [simp del]

subsection \<open>The string search finds the first match\<close>

lemma get_string_index_from_Ok:
  "get_string_index_from i ss m = Ok k \<Longrightarrow>
     i \<le> k \<and> k < i + length ss \<and> strnstr (ss ! (k - i)) m \<and> (\<forall>j < k - i. \<not> strnstr (ss ! j) m)"
proof (induction ss arbitrary: i)
  case Nil
  then show ?case by simp
next
  case (Cons s ss)
  show ?case
  proof (cases "strnstr s m")
    case True
    with Cons.prems show ?thesis by simp
  next
    case False
    with Cons.prems have "get_string_index_from (Suc i) ss m = Ok k" by simp
    from Cons.IH [OF this] have IH: "Suc i \<le> k" "k < Suc i + length ss"
      "strnstr (ss ! (k - Suc i)) m" "\<And>j. j < k - Suc i \<Longrightarrow> \<not> strnstr (ss ! j) m" by auto
    then have k: "k - i = Suc (k - Suc i)" by simp
    have "\<not> strnstr ((s # ss) ! j) m" if "j < k - i" for j
      using that False IH(4) [of "j - 1"] by (cases j) auto
    with IH(1,2,3) k show ?thesis by simp
  qed
qed

lemma get_string_index_from_Err:
  "get_string_index_from i ss m = Err e \<longleftrightarrow> e = EINVAL \<and> (\<forall>s \<in> set ss. \<not> strnstr s m)"
  by (induction ss arbitrary: i) auto

subsection \<open>The removal of duplicates\<close>

lemma dup_scan_stop: "w \<le> j \<Longrightarrow> dup_scan arr x w j = j"
  by (simp add: dup_scan.simps)

lemma remove_dup_loop_stop: "num \<le> i \<Longrightarrow> remove_dup_loop arr num i wr = (wr, arr)"
  by (simp add: remove_dup_loop.simps)

lemma dup_scan_bounds: "j \<le> w \<Longrightarrow> j \<le> dup_scan arr x w j \<and> dup_scan arr x w j \<le> w"
proof (induction arr x w j rule: dup_scan.induct)
  case (1 arr x w j)
  then show ?case by (cases "j < w") (auto simp: dup_scan.simps [of arr x w j] dup_scan_stop)
qed

lemma dup_scan_eq_iff:
  "j \<le> w \<Longrightarrow> dup_scan arr x w j = w \<longleftrightarrow> (\<forall>k. j \<le> k \<and> k < w \<longrightarrow> arr ! k \<noteq> x)"
proof (induction arr x w j rule: dup_scan.induct)
  case (1 arr x w j)
  show ?case
  proof (cases "j < w \<and> x \<noteq> arr ! j")
    case True
    with 1 have "dup_scan arr x w (Suc j) = w \<longleftrightarrow> (\<forall>k. Suc j \<le> k \<and> k < w \<longrightarrow> arr ! k \<noteq> x)"
      by simp
    with True show ?thesis
      by (auto simp: dup_scan.simps [of arr x w j]) (metis Suc_le_eq le_neq_implies_less)
  next
    case False
    with 1(2) show ?thesis by (auto simp: dup_scan.simps [of arr x w j])
  qed
qed

lemma dup_scan_full:
  "w \<le> length arr \<Longrightarrow> dup_scan arr x w 0 = w \<longleftrightarrow> x \<notin> set (take w arr)"
  by (auto simp: dup_scan_eq_iff in_set_conv_nth)

text \<open>
  The reference: keep the first copy of each element, in order.
\<close>

definition keep_first :: "'a list \<Rightarrow> 'a list" where
  "keep_first xs = rev (remdups (rev xs))"

lemma keep_first_snoc: "keep_first (xs @ [x]) = (if x \<in> set xs then keep_first xs else keep_first xs @ [x])"
  by (simp add: keep_first_def)

lemma set_keep_first [simp]: "set (keep_first xs) = set xs"
  by (simp add: keep_first_def)

lemma distinct_keep_first [simp]: "distinct (keep_first xs)"
  by (simp add: keep_first_def)

lemma length_keep_first_eq: "length (keep_first xs) = length xs \<longleftrightarrow> distinct xs"
  by (metis keep_first_def length_remdups_eq length_rev remdups_id_iff_distinct distinct_rev)

lemma keep_first_distinct: "distinct xs \<Longrightarrow> keep_first xs = xs"
  by (simp add: keep_first_def distinct_remdups_id)

lemma remove_dup_loop_spec:
  assumes "wr \<le> i" "i \<le> num" "num \<le> length arr" "take wr arr = keep_first xs"
    and "remove_dup_loop arr num i wr = (n, arr')"
  shows "take n arr' = keep_first (xs @ drop i (take num arr)) \<and> n \<le> num \<and> length arr' = length arr"
  using assms
proof (induction arr num i wr arbitrary: xs rule: remove_dup_loop.induct)
  case (1 arr num i wr)
  show ?case
  proof (cases "i < num")
    case False
    with "1.prems" have "i = num" "n = wr" "arr' = arr"
      by (auto simp: remove_dup_loop_stop)
    with "1.prems" show ?thesis by simp
  next
    case True
    let ?x = "arr ! i"
    have split: "drop i (take num arr) = ?x # drop (Suc i) (take num arr)"
      using True "1.prems" by (simp add: Cons_nth_drop_Suc [symmetric])
    have mem: "dup_scan arr ?x wr 0 = wr \<longleftrightarrow> ?x \<notin> set xs"
      using "1.prems" by (simp add: dup_scan_full)
    show ?thesis
    proof (cases "?x \<in> set xs")
      case False
      let ?arr = "arr[wr := ?x]"
      have wl: "wr < length arr" using True "1.prems" by simp
      have "take (Suc wr) ?arr = take wr arr @ [?x]"
        using wl by (simp add: take_Suc_conv_app_nth)
      then have t: "take (Suc wr) ?arr = keep_first (xs @ [?x])"
        using False "1.prems"(4) by (simp add: keep_first_snoc)
      have same: "drop (Suc i) (take num ?arr) = drop (Suc i) (take num arr)"
        using "1.prems"(1) by (simp add: take_update_swap drop_update_cancel)
      have rec: "remove_dup_loop ?arr num (Suc i) (Suc wr) = (n, arr')"
        using True mem False "1.prems"(5) by (simp add: remove_dup_loop.simps [of arr num i wr])
      show ?thesis
        using "1.IH"(1) [OF True refl _ _ _ _ t rec] mem False True "1.prems"(1,3) same split
        by simp
    next
      case dup: True
      have t: "take wr arr = keep_first (xs @ [?x])"
        using dup "1.prems"(4) by (simp add: keep_first_snoc)
      have rec: "remove_dup_loop arr num (Suc i) wr = (n, arr')"
        using True mem dup "1.prems"(5) by (simp add: remove_dup_loop.simps [of arr num i wr])
      show ?thesis
        using "1.IH"(2) [OF True refl _ _ _ _ t rec] mem dup True "1.prems"(1,3) split
        by simp
    qed
  qed
qed

text \<open>The whole function: the prefix it leaves, and when it reports no duplicate.\<close>

lemma remove_duplicate_arr_spec:
  assumes "1 \<le> num" "num \<le> length a"
    and "cam_common_util_remove_duplicate_arr (Some a) num = (n, arr)"
  shows "take n arr = keep_first (take num a)" "n \<le> num" "length arr = length a"
    "n = num \<longleftrightarrow> distinct (take num a)" "n = num \<Longrightarrow> take num arr = take num a"
proof -
  have t1: "take 1 a = keep_first (take 1 a)"
    using assms(1,2) by (cases a) (auto simp: keep_first_def)
  have run: "remove_dup_loop a num 1 1 = (n, arr)"
    using assms(3) by (simp add: cam_common_util_remove_duplicate_arr_def)
  have "take 1 a @ drop 1 (take num a) = take num a"
    using assms(1,2) by (cases a; cases num) auto
  then have spec: "take n arr = keep_first (take num a) \<and> n \<le> num \<and> length arr = length a"
    using remove_dup_loop_spec [OF _ assms(1,2) t1 run] by simp
  then show 1: "take n arr = keep_first (take num a)" "n \<le> num" "length arr = length a" by auto
  have "n \<le> length arr" using 1(2,3) assms(2) by simp
  then have "length (take n arr) = n" by simp
  then have len: "length (keep_first (take num a)) = n" unfolding 1(1) .
  have "length (take num a) = num" using assms(2) by simp
  then show iff: "n = num \<longleftrightarrow> distinct (take num a)"
    using len length_keep_first_eq [of "take num a"] by auto
  show "n = num \<Longrightarrow> take num arr = take num a"
    using iff 1(1) keep_first_distinct by metis
qed

text \<open>
  C31: the loop that removes duplicates in place does what the reference on lists does: it leaves the
  first copy of every value, in their order, at the front of the array, and returns their number; the
  number is unchanged exactly when there was no duplicate, and the array keeps its length.
\<close>

theorem remove_duplicate_equiv:
  assumes "1 \<le> num" "num \<le> length a" "cam_common_util_remove_duplicate_arr (Some a) num = (n, arr)"
  shows "take n arr = keep_first (take num a) \<and> n = length (keep_first (take num a)) \<and>
    (n = num \<longleftrightarrow> distinct (take num a)) \<and> length arr = length a"
proof -
  note r = remove_duplicate_arr_spec [OF assms]
  have "length (take n arr) = n" using r(2,3) assms(2) by simp
  then show ?thesis using r(1,3,4) by simp
qed

theorem remove_duplicate_equiv_witness:
  "fst (cam_common_util_remove_duplicate_arr (Some [3, 5, 3, 7, 5]) 4) = 3 \<and>
   take 3 (snd (cam_common_util_remove_duplicate_arr (Some [3, 5, 3, 7, 5]) 4)) = [3, 5, 7]"
proof -
  obtain n arr where r: "cam_common_util_remove_duplicate_arr (Some [3, 5, 3, 7, 5]) 4 = (n, arr)" by fastforce
  have k: "keep_first [3, 5, 3, 7 :: int] = [3, 5, 7]" by (simp add: keep_first_def)
  have e: "take 4 [3, 5, 3, 7, 5 :: int] = [3, 5, 3, 7]" "1 \<le> (4 :: nat)" "4 \<le> length [3, 5, 3, 7, 5 :: int]" by simp_all
  from remove_duplicate_equiv [OF e(2,3) r, unfolded e(1) k] have t: "take n arr = [3, 5, 7]" "n = length [3, 5, 7 :: int]" by blast+
  have "n = 3" using t(2) by simp
  then show ?thesis using t(1) by (simp add: r)
qed

end
