(* ===== verification/Cam_Sync_Util.thy ===== *)
theory Cam_Sync_Util
  imports Cam_Common_Util
begin

text \<open>
  The fence table of the sync driver: the structures of \<^verbatim>\<open>drivers/cam_sync/cam_sync_private.h\<close>
  and the row operations of \<^verbatim>\<open>drivers/cam_sync/cam_sync_util.c\<close>.

  The table is a map from row numbers to rows and every row access is \<open>sync_table s i\<close> or
  \<open>upd_row i f s\<close>; the invariant of \<open>Cam_Sync_Inv\<close> shows that the numbers a row's lists hold
  stay inside the table. Linked lists are HOL lists, in list order. A callback function and its
  data are opaque numbers (0 is \<^verbatim>\<open>NULL\<close>). The effects on other parts of the kernel are logs in
  the state: \<open>work_queue\<close> is the queue \<^verbatim>\<open>queue_work\<close> fills, \<open>cb_calls\<close> the callbacks that have
  been called and \<open>v4l2_events\<close> the events handed to \<^verbatim>\<open>v4l2_event_queue\<close>. The completion of a
  row is the flag that \<^verbatim>\<open>complete_all\<close> sets. Whether an allocation succeeds is an argument.
  Each operation runs under the locks it takes, so its body is one state change.
\<close>

abbreviation CAM_SYNC_MAX_OBJS :: nat where "CAM_SYNC_MAX_OBJS \<equiv> 1024"
abbreviation SYNC_DEBUG_NAME_LEN :: nat where "SYNC_DEBUG_NAME_LEN \<equiv> 63"

abbreviation CAM_SYNC_TYPE_INDV :: u32 where "CAM_SYNC_TYPE_INDV \<equiv> 0"
abbreviation CAM_SYNC_TYPE_GROUP :: u32 where "CAM_SYNC_TYPE_GROUP \<equiv> 1"

abbreviation CAM_SYNC_STATE_INVALID :: u32 where "CAM_SYNC_STATE_INVALID \<equiv> 0"
abbreviation CAM_SYNC_STATE_ACTIVE :: u32 where "CAM_SYNC_STATE_ACTIVE \<equiv> 1"
abbreviation CAM_SYNC_STATE_SIGNALED_SUCCESS :: u32 where "CAM_SYNC_STATE_SIGNALED_SUCCESS \<equiv> 2"
abbreviation CAM_SYNC_STATE_SIGNALED_ERROR :: u32 where "CAM_SYNC_STATE_SIGNALED_ERROR \<equiv> 3"

abbreviation CAM_SYNC_V4L_EVENT :: u32 where "CAM_SYNC_V4L_EVENT \<equiv> 0x08000000"
abbreviation CAM_SYNC_V4L_EVENT_ID_CB_TRIG :: u32 where "CAM_SYNC_V4L_EVENT_ID_CB_TRIG \<equiv> 0"

datatype sync_list_clean_type = SYNC_LIST_CLEAN_ONE | SYNC_LIST_CLEAN_ALL

record sync_callback_info =
  callback_func :: nat
  cb_data :: nat
  cb_status :: u32
  cb_sync_obj :: nat

type_synonym sync_user_payload = "u64 \<times> u64"

record sync_table_row =
  row_name :: string
  row_type :: u32
  sync_id :: nat
  parents_list :: "nat list"
  children_list :: "nat list"
  state :: u32
  remaining :: u32
  signaled :: bool
  callback_list :: "sync_callback_info list"
  user_payload_list :: "sync_user_payload list"
  ref_cnt :: u32
  client_id :: u32

record sync_event =
  ev_id :: u32
  ev_type :: u32
  ev_sync_obj :: nat
  ev_status :: u32
  ev_payload :: sync_user_payload

record sync_device =
  sync_table :: "nat \<Rightarrow> sync_table_row"
  bitmap :: bitmap
  open_cnt :: int
  work_queue :: "sync_callback_info list"
  cam_sync_eventq :: bool
  err_cnt :: int
  trigger_cb_without_switch :: bool
  v4l2_events :: "sync_event list"
  cb_calls :: "sync_callback_info list"

definition upd_row :: "nat \<Rightarrow> (sync_table_row \<Rightarrow> sync_table_row) \<Rightarrow> sync_device \<Rightarrow> sync_device" where
  "upd_row i f s = s\<lparr>sync_table := (sync_table s)(i := f (sync_table s i))\<rparr>"

definition set_bit_row :: "nat \<Rightarrow> bool \<Rightarrow> sync_device \<Rightarrow> sync_device" where
  "set_bit_row i v s = s\<lparr>bitmap := (bitmap s)(i := v)\<rparr>"

text \<open>A row after \<^verbatim>\<open>memset(row, 0, sizeof(*row))\<close> and the list-head initialisations.\<close>

definition zero_row :: sync_table_row where
  "zero_row = \<lparr>row_name = [], row_type = 0, sync_id = 0, parents_list = [], children_list = [],
     state = 0, remaining = 0, signaled = False, callback_list = [], user_payload_list = [],
     ref_cnt = 0, client_id = 0\<rparr>"

subsection \<open>Rows\<close>

definition cam_sync_util_find_and_set_empty_row :: "sync_device \<Rightarrow> sync_device \<times> nat option" where
  "cam_sync_util_find_and_set_empty_row s =
     (let idx = find_first_zero_bit (bitmap s) CAM_SYNC_MAX_OBJS in
      if idx < CAM_SYNC_MAX_OBJS then (set_bit_row idx True s, Some idx) else (s, None))"

definition strlcpy :: "string \<Rightarrow> nat \<Rightarrow> string" where
  "strlcpy src n = take (n - 1) src"

definition cam_sync_init_row ::
  "sync_device \<Rightarrow> nat \<Rightarrow> string option \<Rightarrow> u32 \<Rightarrow> u32 \<Rightarrow> sync_device \<times> unit result" where
  "cam_sync_init_row s idx name type client =
     (if idx = 0 \<or> CAM_SYNC_MAX_OBJS \<le> idx then (s, Err EINVAL)
      else (upd_row idx (\<lambda>_. zero_row
              \<lparr>row_name := (case name of None \<Rightarrow> [] | Some n \<Rightarrow> strlcpy n SYNC_DEBUG_NAME_LEN),
               row_type := type, client_id := client, sync_id := idx,
               state := CAM_SYNC_STATE_ACTIVE, remaining := 0, ref_cnt := 0\<rparr>) s, Ok ()))"

text \<open>
  The loops that unlink a child or a parent node: all nodes, or the first one with the given id.
\<close>

definition clean_list :: "sync_list_clean_type \<Rightarrow> nat \<Rightarrow> nat list \<Rightarrow> nat list" where
  "clean_list t obj xs = (case t of SYNC_LIST_CLEAN_ONE \<Rightarrow> remove1 obj xs | SYNC_LIST_CLEAN_ALL \<Rightarrow> [])"

definition cam_sync_util_cleanup_children_list ::
  "sync_table_row \<Rightarrow> sync_list_clean_type \<Rightarrow> nat \<Rightarrow> sync_table_row" where
  "cam_sync_util_cleanup_children_list row t obj =
     row\<lparr>children_list := clean_list t obj (children_list row)\<rparr>"

definition cam_sync_util_cleanup_parents_list ::
  "sync_table_row \<Rightarrow> sync_list_clean_type \<Rightarrow> nat \<Rightarrow> sync_table_row" where
  "cam_sync_util_cleanup_parents_list row t obj =
     row\<lparr>parents_list := clean_list t obj (parents_list row)\<rparr>"

definition cam_sync_util_update_parent_state ::
  "sync_table_row \<Rightarrow> u32 \<Rightarrow> sync_table_row \<times> unit result" where
  "cam_sync_util_update_parent_state row new_state =
     (if state row = CAM_SYNC_STATE_ACTIVE \<or> state row = CAM_SYNC_STATE_SIGNALED_SUCCESS
      then (row\<lparr>state := new_state\<rparr>, Ok ())
      else if state row = CAM_SYNC_STATE_SIGNALED_ERROR then (row, Ok ())
      else (row, Err EINVAL))"

subsection \<open>Group objects\<close>

text \<open>
  The loop over the children of a merged fence. \<open>ac\<close> and \<open>ap\<close> say whether the two allocations of
  the \<open>i\<close>-th iteration succeed; a failure stops the loop and gives the error and the iteration.
\<close>

fun init_group_loop ::
  "(nat \<Rightarrow> bool) \<Rightarrow> (nat \<Rightarrow> bool) \<Rightarrow> nat \<Rightarrow> nat \<Rightarrow> nat list \<Rightarrow> sync_device \<Rightarrow>
   sync_device \<times> (errno \<times> nat) option" where
  "init_group_loop ac ap idx i [] s = (s, None)"
| "init_group_loop ac ap idx i (c # cs) s =
     (let child_row = sync_table s c in
      if row_type child_row = CAM_SYNC_TYPE_GROUP \<or> state child_row = CAM_SYNC_STATE_INVALID
      then (s, Some (EINVAL, i))
      else if state child_row = CAM_SYNC_STATE_SIGNALED_ERROR
      then init_group_loop ac ap idx (Suc i) cs
             (upd_row idx (\<lambda>r. r\<lparr>state := CAM_SYNC_STATE_SIGNALED_ERROR\<rparr>) s)
      else if state child_row \<noteq> CAM_SYNC_STATE_ACTIVE
      then init_group_loop ac ap idx (Suc i) cs s
      else
        (let s1 = upd_row idx (\<lambda>r. r\<lparr>client_id := client_id child_row,
                                    remaining := remaining r + 1\<rparr>) s in
         if \<not> ac i then (s1, Some (ENOMEM, i))
         else
           (let s2 = upd_row idx (\<lambda>r. r\<lparr>children_list := children_list r @ [c]\<rparr>) s1 in
            if \<not> ap i then (s2, Some (ENOMEM, i))
            else init_group_loop ac ap idx (Suc i) cs
                   (upd_row c (\<lambda>r. r\<lparr>parents_list := parents_list r @ [idx]\<rparr>) s2))))"

text \<open>The clean-up loop over the children that were visited before the failure, last one first.\<close>

definition unlink_parent :: "nat \<Rightarrow> nat \<Rightarrow> sync_device \<Rightarrow> sync_device" where
  "unlink_parent idx c s =
     upd_row c (\<lambda>r. cam_sync_util_cleanup_parents_list r SYNC_LIST_CLEAN_ONE idx) s"

definition clean_children_info :: "nat \<Rightarrow> nat list \<Rightarrow> sync_device \<Rightarrow> sync_device" where
  "clean_children_info idx visited s =
     (let s1 = upd_row idx (\<lambda>r. r\<lparr>state := CAM_SYNC_STATE_INVALID\<rparr>) s;
          s2 = fold (unlink_parent idx) (rev visited) s1
      in upd_row idx (\<lambda>r. cam_sync_util_cleanup_children_list r SYNC_LIST_CLEAN_ALL 0) s2)"

definition cam_sync_init_group_object ::
  "(nat \<Rightarrow> bool) \<Rightarrow> (nat \<Rightarrow> bool) \<Rightarrow> sync_device \<Rightarrow> nat \<Rightarrow> nat list \<Rightarrow> sync_device \<times> unit result"
  where
  "cam_sync_init_group_object ac ap s idx sync_objs =
     (let s0 = fst (cam_sync_init_row s idx (Some ''merged_fence'') CAM_SYNC_TYPE_GROUP 0) in
      case init_group_loop ac ap idx 0 sync_objs s0 of
        (s1, None) \<Rightarrow>
          (if remaining (sync_table s1 idx) = 0
           then (upd_row idx (\<lambda>r. r\<lparr>state := (if state r \<noteq> CAM_SYNC_STATE_SIGNALED_ERROR
                                               then CAM_SYNC_STATE_SIGNALED_SUCCESS else state r),
                                    signaled := True\<rparr>) s1, Ok ())
           else (s1, Ok ()))
      | (s1, Some (e, i)) \<Rightarrow> (clean_children_info idx (take i sync_objs) s1, Err e))"

subsection \<open>Dispatch\<close>

definition cam_sync_util_send_v4l2_event ::
  "u32 \<Rightarrow> nat \<Rightarrow> u32 \<Rightarrow> u32 \<Rightarrow> sync_user_payload \<Rightarrow> sync_device \<Rightarrow> sync_device" where
  "cam_sync_util_send_v4l2_event event_id sync_obj client status payload s =
     s\<lparr>v4l2_events := v4l2_events s @
        [\<lparr>ev_id = event_id, ev_type = CAM_SYNC_V4L_EVENT + client, ev_sync_obj = sync_obj,
          ev_status = status, ev_payload = payload\<rparr>]\<rparr>"

text \<open>
  The loop over the user payloads: it stops at the first one when no event queue is open, and
  gives back the payloads that stay registered.
\<close>

fun dispatch_user_payloads ::
  "nat \<Rightarrow> u32 \<Rightarrow> sync_user_payload list \<Rightarrow> sync_device \<Rightarrow> sync_device \<times> sync_user_payload list" where
  "dispatch_user_payloads sync_obj status [] s = (s, [])"
| "dispatch_user_payloads sync_obj status (p # ps) s =
     (if \<not> cam_sync_eventq s then (s, p # ps)
      else dispatch_user_payloads sync_obj status ps
             (cam_sync_util_send_v4l2_event CAM_SYNC_V4L_EVENT_ID_CB_TRIG sync_obj
                (client_id (sync_table s sync_obj)) status p s))"

definition cam_sync_util_dispatch_signaled_cb :: "nat \<Rightarrow> u32 \<Rightarrow> sync_device \<Rightarrow> sync_device" where
  "cam_sync_util_dispatch_signaled_cb sync_obj status s =
     (if state (sync_table s sync_obj) = CAM_SYNC_STATE_INVALID then s
      else
        (let cbs = callback_list (sync_table s sync_obj);
             s1 = (upd_row sync_obj (\<lambda>r. r\<lparr>callback_list := []\<rparr>) s)
                    \<lparr>work_queue := work_queue s @ map (\<lambda>cb. cb\<lparr>cb_status := status\<rparr>) cbs\<rparr>;
             (s2, rest) = dispatch_user_payloads sync_obj status
                            (user_payload_list (sync_table s1 sync_obj)) s1
         in upd_row sync_obj (\<lambda>r. r\<lparr>user_payload_list := rest, signaled := True\<rparr>) s2))"

text \<open>One run of the worker: the oldest queued callback is called.\<close>

definition cam_sync_util_cb_dispatch :: "sync_device \<Rightarrow> sync_device" where
  "cam_sync_util_cb_dispatch s =
     (case work_queue s of [] \<Rightarrow> s
      | cb # rest \<Rightarrow> s\<lparr>work_queue := rest, cb_calls := cb_calls s @ [cb]\<rparr>)"

subsection \<open>Destroying an object\<close>

definition unlink_child_of :: "nat \<Rightarrow> nat \<Rightarrow> sync_device \<Rightarrow> sync_device" where
  "unlink_child_of idx c s =
     (if state (sync_table s c) = CAM_SYNC_STATE_INVALID then s
      else upd_row c (\<lambda>r. cam_sync_util_cleanup_parents_list r SYNC_LIST_CLEAN_ONE idx) s)"

definition unlink_parent_of :: "nat \<Rightarrow> nat \<Rightarrow> sync_device \<Rightarrow> sync_device" where
  "unlink_parent_of idx p s =
     (if state (sync_table s p) = CAM_SYNC_STATE_INVALID then s
      else upd_row p (\<lambda>r. cam_sync_util_cleanup_children_list r SYNC_LIST_CLEAN_ONE idx) s)"

definition cam_sync_deinit_object :: "sync_device \<Rightarrow> nat \<Rightarrow> sync_device \<times> unit result" where
  "cam_sync_deinit_object s idx =
     (if idx = 0 \<or> CAM_SYNC_MAX_OBJS \<le> idx then (s, Err EINVAL)
      else if state (sync_table s idx) = CAM_SYNC_STATE_INVALID then (s, Err EINVAL)
      else
        (let row = sync_table s idx;
             temp_child_list = filter (\<lambda>c. 0 < c) (children_list row);
             temp_parent_list = filter (\<lambda>p. 0 < p) (parents_list row);
             s1 = upd_row idx (\<lambda>r. r\<lparr>state := CAM_SYNC_STATE_INVALID,
                    children_list := filter (\<lambda>c. \<not> 0 < c) (children_list r),
                    parents_list := filter (\<lambda>p. \<not> 0 < p) (parents_list r)\<rparr>) s;
             s2 = fold (unlink_child_of idx) temp_child_list s1;
             s3 = fold (unlink_parent_of idx) temp_parent_list s2
         in (set_bit_row idx False (upd_row idx (\<lambda>_. zero_row) s3), Ok ())))"

end
