(* ===== verification/Cam_Sync.thy ===== *)
theory Cam_Sync
  imports Cam_Sync_Util
begin

text \<open>
  The operations of \<^verbatim>\<open>drivers/cam_sync/cam_sync.c\<close>: the in-kernel fence interface
  (\<^verbatim>\<open>cam_sync_create\<close> to \<^verbatim>\<open>cam_sync_reset\<close>), the ioctl handlers over it, and the opening and
  closing of the device.

  A sync object is an \<^verbatim>\<open>int32_t\<close> in the interface, here an \<open>int\<close>, and a row number once it has
  been range checked. The structure an ioctl copies in is an argument (\<open>None\<close> when
  \<^verbatim>\<open>copy_from_user\<close> fails) and whether the copy back succeeds is another.
\<close>

definition in_range :: "int \<Rightarrow> bool" where
  "in_range sync_obj \<longleftrightarrow> \<not> (sync_obj \<ge> int CAM_SYNC_MAX_OBJS \<or> sync_obj \<le> 0)"

text \<open>
  The \<^verbatim>\<open>do\<close> loop that claims a free bit: \<^verbatim>\<open>find_first_zero_bit\<close>, then \<^verbatim>\<open>test_and_set_bit\<close>, again
  while the bit was already set. It ends at once unless another processor takes the bit in between.
\<close>

function claim_bit :: "sync_device \<Rightarrow> (sync_device \<times> nat) option" where
  "claim_bit s =
     (let idx = find_first_zero_bit (bitmap s) CAM_SYNC_MAX_OBJS in
      if CAM_SYNC_MAX_OBJS \<le> idx then None
      else if bitmap s idx then claim_bit (set_bit_row idx True s)
      else Some (set_bit_row idx True s, idx))"
  by pat_completeness auto
termination
  by (relation "measure (\<lambda>s. 0)") (auto dest: find_first_zero_bit_clear simp: not_le)

declare claim_bit.simps [simp del]

definition cam_sync_create :: "sync_device \<Rightarrow> string option \<Rightarrow> u32 \<Rightarrow> sync_device \<times> int result" where
  "cam_sync_create s name client =
     (case claim_bit s of
        None \<Rightarrow> (s\<lparr>err_cnt := err_cnt s + 1\<rparr>, Err ENOMEM)
      | Some (s1, idx) \<Rightarrow>
          (case cam_sync_init_row s1 idx name CAM_SYNC_TYPE_INDV client of
             (s2, Inl _) \<Rightarrow> (set_bit_row idx False s2, Err EINVAL)
           | (s2, Inr _) \<Rightarrow> (s2, Ok (int idx))))"

definition cam_sync_register_callback ::
  "bool \<Rightarrow> sync_device \<Rightarrow> nat \<Rightarrow> nat \<Rightarrow> int \<Rightarrow> sync_device \<times> unit result" where
  "cam_sync_register_callback alloc_ok s cb_func userdata sync_obj =
     (if \<not> in_range sync_obj \<or> cb_func = 0 then (s, Err EINVAL)
      else
        (let i = nat sync_obj; row = sync_table s i in
         if state row = CAM_SYNC_STATE_INVALID then (s, Err EINVAL)
         else if \<not> alloc_ok then (s, Err ENOMEM)
         else if (state row = CAM_SYNC_STATE_SIGNALED_SUCCESS \<or>
                  state row = CAM_SYNC_STATE_SIGNALED_ERROR) \<and> remaining row = 0
         then
           (let cb = \<lparr>callback_func = cb_func, cb_data = userdata, cb_status = state row,
                      cb_sync_obj = i\<rparr> in
            if trigger_cb_without_switch s
            then (s\<lparr>cb_calls := cb_calls s @ [cb]\<rparr>, Ok ())
            else (s\<lparr>work_queue := work_queue s @ [cb]\<rparr>, Ok ()))
         else
           (upd_row i (\<lambda>r. r\<lparr>callback_list := callback_list r @
               [\<lparr>callback_func = cb_func, cb_data = userdata, cb_status = 0,
                 cb_sync_obj = i\<rparr>]\<rparr>) s, Ok ())))"

definition cam_sync_deregister_callback ::
  "sync_device \<Rightarrow> nat \<Rightarrow> nat \<Rightarrow> int \<Rightarrow> sync_device \<times> unit result" where
  "cam_sync_deregister_callback s cb_func userdata sync_obj =
     (if \<not> in_range sync_obj then (s, Err EINVAL)
      else
        (let i = nat sync_obj; row = sync_table s i;
             match = (\<lambda>cb. callback_func cb = cb_func \<and> cb_data cb = userdata) in
         if state row = CAM_SYNC_STATE_INVALID then (s, Err EINVAL)
         else (upd_row i (\<lambda>r. r\<lparr>callback_list := filter (\<lambda>cb. \<not> match cb) (callback_list r)\<rparr>) s,
               if (\<exists>cb \<in> set (callback_list row). match cb) then Ok () else Err ENOENT)))"

subsection \<open>Signaling\<close>

text \<open>
  \<^verbatim>\<open>cam_sync_signal\<close> has two parts. The first runs under the row's lock: the checks, the reference
  count, the new state, the dispatch, and the detaching of the parents list. The second visits the
  detached parents one after the other, each under its own lock.
\<close>

definition signal_locked :: "sync_device \<Rightarrow> int \<Rightarrow> u32 \<Rightarrow> sync_device \<times> (nat list) result" where
  "signal_locked s sync_obj status =
     (if \<not> in_range sync_obj then (s, Err EINVAL)
      else
        (let i = nat sync_obj; row = sync_table s i in
         if state row = CAM_SYNC_STATE_INVALID then (s, Err EINVAL)
         else if row_type row = CAM_SYNC_TYPE_GROUP then (s, Err EINVAL)
         else if state row \<noteq> CAM_SYNC_STATE_ACTIVE then (s, Err EALREADY)
         else if status \<noteq> CAM_SYNC_STATE_SIGNALED_SUCCESS \<and>
                 status \<noteq> CAM_SYNC_STATE_SIGNALED_ERROR then (s, Err EINVAL)
         else
           (let s1 = upd_row i (\<lambda>r. r\<lparr>ref_cnt := ref_cnt r - 1\<rparr>) s in
            if ref_cnt (sync_table s1 i) \<noteq> 0 then (s1, Ok [])
            else
              (let s2 = upd_row i (\<lambda>r. r\<lparr>state := status\<rparr>) s1;
                   s3 = cam_sync_util_dispatch_signaled_cb i status s2
               in (upd_row i (\<lambda>r. r\<lparr>parents_list := []\<rparr>) s3,
                   Ok (parents_list (sync_table s3 i)))))))"

definition signal_parent :: "u32 \<Rightarrow> nat \<Rightarrow> sync_device \<Rightarrow> sync_device" where
  "signal_parent status p s =
     (let s1 = upd_row p (\<lambda>r. r\<lparr>remaining := remaining r - 1\<rparr>) s;
          (row, rc) = cam_sync_util_update_parent_state (sync_table s1 p) status;
          s2 = upd_row p (\<lambda>_. row) s1
      in if is_err rc then s2
         else if remaining row = 0 then cam_sync_util_dispatch_signaled_cb p (state row) s2
         else s2)"

definition cam_sync_signal :: "sync_device \<Rightarrow> int \<Rightarrow> u32 \<Rightarrow> sync_device \<times> unit result" where
  "cam_sync_signal s sync_obj status =
     (case signal_locked s sync_obj status of
        (s1, Inl e) \<Rightarrow> (s1, Err e)
      | (s1, Inr parents) \<Rightarrow> (fold (signal_parent status) parents s1, Ok ()))"

subsection \<open>Merging, references, destruction\<close>

definition cam_sync_check_valid :: "sync_device \<Rightarrow> int \<Rightarrow> unit result" where
  "cam_sync_check_valid s sync_obj =
     (if \<not> in_range sync_obj then Err EINVAL
      else if \<not> bitmap s (nat sync_obj) then Err EINVAL
      else if state (sync_table s (nat sync_obj)) = CAM_SYNC_STATE_INVALID then Err EINVAL
      else Ok ())"

fun check_valid_all :: "sync_device \<Rightarrow> int list \<Rightarrow> unit result" where
  "check_valid_all s [] = Ok ()"
| "check_valid_all s (obj # objs) =
     (case cam_sync_check_valid s obj of Inl e \<Rightarrow> Err e | Inr _ \<Rightarrow> check_valid_all s objs)"

definition cam_sync_merge ::
  "(nat \<Rightarrow> bool) \<Rightarrow> (nat \<Rightarrow> bool) \<Rightarrow> sync_device \<Rightarrow> int list option \<Rightarrow> nat \<Rightarrow>
   sync_device \<times> int result" where
  "cam_sync_merge ac ap s sync_obj num_objs =
     (if sync_obj = None then (s, Err EINVAL)
      else if num_objs \<le> 1 then (s, Err EINVAL)
      else
        (let (n, arr) = cam_common_util_remove_duplicate_arr sync_obj num_objs in
         if n \<noteq> num_objs then (s, Err EINVAL)
         else
           (case check_valid_all s (take num_objs arr) of
              Inl e \<Rightarrow> (s, Err e)
            | Inr _ \<Rightarrow>
                (case claim_bit s of
                   None \<Rightarrow> (s, Err ENOMEM)
                 | Some (s1, idx) \<Rightarrow>
                     (case cam_sync_init_group_object ac ap s1 idx (map nat (take num_objs arr)) of
                        (s2, Inl _) \<Rightarrow> (set_bit_row idx False s2, Err EINVAL)
                      | (s2, Inr _) \<Rightarrow> (s2, Ok (int idx)))))))"

definition cam_sync_get_obj_ref :: "sync_device \<Rightarrow> int \<Rightarrow> sync_device \<times> unit result" where
  "cam_sync_get_obj_ref s sync_obj =
     (if \<not> in_range sync_obj then (s, Err EINVAL)
      else if state (sync_table s (nat sync_obj)) \<noteq> CAM_SYNC_STATE_ACTIVE then (s, Err EINVAL)
      else (upd_row (nat sync_obj) (\<lambda>r. r\<lparr>ref_cnt := ref_cnt r + 1\<rparr>) s, Ok ()))"

definition cam_sync_put_obj_ref :: "sync_device \<Rightarrow> int \<Rightarrow> sync_device \<times> unit result" where
  "cam_sync_put_obj_ref s sync_obj =
     (if \<not> in_range sync_obj then (s, Err EINVAL)
      else (upd_row (nat sync_obj) (\<lambda>r. r\<lparr>ref_cnt := ref_cnt r - 1\<rparr>) s, Ok ()))"

text \<open>The \<^verbatim>\<open>int32_t\<close> argument becomes the \<^verbatim>\<open>uint32_t\<close> row number of the callee.\<close>

definition cam_sync_destroy :: "sync_device \<Rightarrow> int \<Rightarrow> sync_device \<times> unit result" where
  "cam_sync_destroy s sync_obj = cam_sync_deinit_object s (nat (sync_obj mod 2 ^ 32))"

text \<open>
  Waiting changes nothing itself; what happened meanwhile is the argument: the time left when the
  completion was seen (0 for a timeout) and the state of the device at that moment.
\<close>

definition cam_sync_wait :: "sync_device \<Rightarrow> int \<Rightarrow> nat \<Rightarrow> sync_device \<Rightarrow> unit result" where
  "cam_sync_wait s sync_obj timeleft s' =
     (if \<not> in_range sync_obj then Err EINVAL
      else if state (sync_table s (nat sync_obj)) = CAM_SYNC_STATE_INVALID then Err EINVAL
      else if timeleft = 0 then Err ETIMEDOUT
      else if state (sync_table s' (nat sync_obj)) = CAM_SYNC_STATE_SIGNALED_SUCCESS then Ok ()
      else Err EINVAL)"

definition cam_sync_reset :: "sync_device \<Rightarrow> int \<Rightarrow> sync_device \<times> unit result" where
  "cam_sync_reset s sync_obj =
     (if \<not> in_range sync_obj then (s, Err EINVAL)
      else if state (sync_table s (nat sync_obj)) = CAM_SYNC_STATE_INVALID then (s, Err EINVAL)
      else (upd_row (nat sync_obj) (\<lambda>r. r\<lparr>state := CAM_SYNC_STATE_ACTIVE, remaining := 0,
              ref_cnt := 0, signaled := False, callback_list := [], parents_list := [],
              children_list := [], user_payload_list := []\<rparr>) s, Ok ()))"

subsection \<open>Ioctl handlers\<close>

record cam_private_ioctl_arg =
  ioctl_id :: u32
  ioctl_size :: u32
  ioctl_result :: "unit result"
  ioctl_ptr :: u64

record cam_sync_info =
  info_name :: string
  info_sync_obj :: int

record cam_sync_create2 =
  create2_name :: string
  create2_sync_obj :: int
  create2_client_id :: u32

record cam_sync_signal_info =
  signal_sync_obj :: int
  signal_sync_state :: u32

record cam_sync_merge_info =
  merge_sync_objs :: "int list option"
  merge_num_objs :: u32
  merge_merged :: int

record cam_sync_userpayload_info =
  up_sync_obj :: int
  up_payload :: sync_user_payload

record cam_sync_wait_info =
  wait_sync_obj :: int
  wait_timeout_ms :: u64

text \<open>The checks every handler starts with; \<open>usr\<close> is what \<^verbatim>\<open>copy_from_user\<close> brings in.\<close>

definition ioctl_copy_in :: "cam_private_ioctl_arg \<Rightarrow> u32 \<Rightarrow> 'a option \<Rightarrow> 'a result" where
  "ioctl_copy_in k sz usr =
     (if ioctl_size k \<noteq> sz then Err EINVAL
      else if ioctl_ptr k = 0 then Err EINVAL
      else case usr of None \<Rightarrow> Err EFAULT | Some u \<Rightarrow> Ok u)"

text \<open>
  The handlers that give a structure back return it beside the result code: it is what user space
  sees when the code is \<open>Ok\<close>.
\<close>

definition cam_sync_handle_create ::
  "sync_device \<Rightarrow> cam_private_ioctl_arg \<Rightarrow> cam_sync_info option \<Rightarrow> bool \<Rightarrow>
   sync_device \<times> cam_sync_info result" where
  "cam_sync_handle_create s k usr copy_out_ok =
     (case ioctl_copy_in k 68 usr of
        Inl e \<Rightarrow> (s, Err e)
      | Inr u \<Rightarrow>
          (case cam_sync_create s (Some (info_name u)) 0 of
             (s1, Inl e) \<Rightarrow> (s1, Err e)
           | (s1, Inr obj) \<Rightarrow>
               (s1, if copy_out_ok then Ok (u\<lparr>info_sync_obj := obj\<rparr>) else Err EFAULT)))"

definition cam_sync_handle_create2 ::
  "sync_device \<Rightarrow> cam_private_ioctl_arg \<Rightarrow> cam_sync_create2 option \<Rightarrow> bool \<Rightarrow>
   sync_device \<times> cam_sync_create2 result" where
  "cam_sync_handle_create2 s k usr copy_out_ok =
     (case ioctl_copy_in k 72 usr of
        Inl e \<Rightarrow> (s, Err e)
      | Inr u \<Rightarrow>
          (case cam_sync_create s (Some (create2_name u)) (create2_client_id u) of
             (s1, Inl e) \<Rightarrow> (s1, Err e)
           | (s1, Inr obj) \<Rightarrow>
               (s1, if copy_out_ok then Ok (u\<lparr>create2_sync_obj := obj\<rparr>) else Err EFAULT)))"

definition cam_sync_handle_signal ::
  "sync_device \<Rightarrow> cam_private_ioctl_arg \<Rightarrow> cam_sync_signal_info option \<Rightarrow>
   sync_device \<times> unit result" where
  "cam_sync_handle_signal s k usr =
     (case ioctl_copy_in k 8 usr of
        Inl e \<Rightarrow> (s, Err e)
      | Inr u \<Rightarrow>
          (case cam_sync_get_obj_ref s (signal_sync_obj u) of
             (s1, Inl e) \<Rightarrow> (s1, Err e)
           | (s1, Inr _) \<Rightarrow> cam_sync_signal s1 (signal_sync_obj u) (signal_sync_state u)))"

text \<open>\<open>alloc_ok\<close>: the array for the fence numbers could be allocated.\<close>

definition cam_sync_handle_merge ::
  "bool \<Rightarrow> (nat \<Rightarrow> bool) \<Rightarrow> (nat \<Rightarrow> bool) \<Rightarrow> sync_device \<Rightarrow> cam_private_ioctl_arg \<Rightarrow>
   cam_sync_merge_info option \<Rightarrow> bool \<Rightarrow> sync_device \<times> cam_sync_merge_info result" where
  "cam_sync_handle_merge alloc_ok ac ap s k usr copy_out_ok =
     (case ioctl_copy_in k 16 usr of
        Inl e \<Rightarrow> (s, Err e)
      | Inr u \<Rightarrow>
          (if of_nat CAM_SYNC_MAX_OBJS \<le> merge_num_objs u then (s, Err EINVAL)
           else if \<not> alloc_ok then (s, Err ENOMEM)
           else
             (case merge_sync_objs u of
                None \<Rightarrow> (s, Err EFAULT)
              | Some objs \<Rightarrow>
                  (case cam_sync_merge ac ap s (Some objs) (unat (merge_num_objs u)) of
                     (s1, Inl e) \<Rightarrow> (s1, Err e)
                   | (s1, Inr obj) \<Rightarrow>
                       (s1, if copy_out_ok then Ok (u\<lparr>merge_merged := obj\<rparr>) else Err EFAULT)))))"

definition cam_sync_handle_wait ::
  "sync_device \<Rightarrow> cam_private_ioctl_arg \<Rightarrow> cam_sync_wait_info option \<Rightarrow> nat \<Rightarrow> sync_device \<Rightarrow>
   cam_private_ioctl_arg \<times> unit result" where
  "cam_sync_handle_wait s k usr timeleft s' =
     (case ioctl_copy_in k 16 usr of
        Inl e \<Rightarrow> (k, Err e)
      | Inr u \<Rightarrow> (k\<lparr>ioctl_result := cam_sync_wait s (wait_sync_obj u) timeleft s'\<rparr>, Ok ()))"

definition cam_sync_handle_destroy ::
  "sync_device \<Rightarrow> cam_private_ioctl_arg \<Rightarrow> cam_sync_info option \<Rightarrow> sync_device \<times> unit result" where
  "cam_sync_handle_destroy s k usr =
     (case ioctl_copy_in k 68 usr of
        Inl e \<Rightarrow> (s, Err e)
      | Inr u \<Rightarrow> cam_sync_destroy s (info_sync_obj u))"

definition cam_sync_handle_register_user_payload ::
  "bool \<Rightarrow> sync_device \<Rightarrow> cam_private_ioctl_arg \<Rightarrow> cam_sync_userpayload_info option \<Rightarrow>
   sync_device \<times> unit result" where
  "cam_sync_handle_register_user_payload alloc_ok s k usr =
     (case ioctl_copy_in k 24 usr of
        Inl e \<Rightarrow> (s, Err e)
      | Inr u \<Rightarrow>
          (let i = nat (up_sync_obj u mod 2 ^ 32); row = sync_table s i in
           if CAM_SYNC_MAX_OBJS \<le> i \<or> i = 0 then (s, Err EINVAL)
           else if \<not> alloc_ok then (s, Err ENOMEM)
           else if state row = CAM_SYNC_STATE_INVALID then (s, Err EINVAL)
           else if state row = CAM_SYNC_STATE_SIGNALED_SUCCESS \<or>
                   state row = CAM_SYNC_STATE_SIGNALED_ERROR
           then (cam_sync_util_send_v4l2_event CAM_SYNC_V4L_EVENT_ID_CB_TRIG i (client_id row)
                   (state row) (up_payload u) s, Ok ())
           else if up_payload u \<in> set (user_payload_list row) then (s, Err EALREADY)
           else (upd_row i (\<lambda>r. r\<lparr>user_payload_list := user_payload_list r @ [up_payload u]\<rparr>) s,
                 Ok ())))"

definition cam_sync_handle_deregister_user_payload ::
  "sync_device \<Rightarrow> cam_private_ioctl_arg \<Rightarrow> cam_sync_userpayload_info option \<Rightarrow>
   sync_device \<times> unit result" where
  "cam_sync_handle_deregister_user_payload s k usr =
     (case ioctl_copy_in k 24 usr of
        Inl e \<Rightarrow> (s, Err e)
      | Inr u \<Rightarrow>
          (let i = nat (up_sync_obj u mod 2 ^ 32); row = sync_table s i in
           if CAM_SYNC_MAX_OBJS \<le> i \<or> i = 0 then (s, Err EINVAL)
           else if state row = CAM_SYNC_STATE_INVALID then (s, Err EINVAL)
           else (upd_row i (\<lambda>r. r\<lparr>user_payload_list :=
                   filter (\<lambda>p. p \<noteq> up_payload u) (user_payload_list r)\<rparr>) s, Ok ())))"

definition cam_sync_handle_reset ::
  "bool \<Rightarrow> sync_device \<Rightarrow> cam_private_ioctl_arg \<Rightarrow> cam_sync_userpayload_info option \<Rightarrow>
   sync_device \<times> unit result" where
  "cam_sync_handle_reset alloc_ok s k usr =
     (case ioctl_copy_in k 24 usr of
        Inl e \<Rightarrow> (s, Err e)
      | Inr u \<Rightarrow>
          (case cam_sync_reset s (up_sync_obj u) of
             (s1, Inl e) \<Rightarrow> (s1, Err e)
           | (s1, Inr _) \<Rightarrow> cam_sync_handle_register_user_payload alloc_ok s1 k usr))"

text \<open>
  The dispatcher. \<open>sync_user_env\<close> holds what the outside world contributes to one call: the bytes
  behind the pointer read as the structure each handler copies in, whether the copy back and the
  allocations succeed, and how a wait ends.
\<close>

abbreviation CAM_SYNC_CREATE :: u32 where "CAM_SYNC_CREATE \<equiv> 0"
abbreviation CAM_SYNC_DESTROY :: u32 where "CAM_SYNC_DESTROY \<equiv> 1"
abbreviation CAM_SYNC_SIGNAL :: u32 where "CAM_SYNC_SIGNAL \<equiv> 2"
abbreviation CAM_SYNC_MERGE :: u32 where "CAM_SYNC_MERGE \<equiv> 3"
abbreviation CAM_SYNC_REGISTER_PAYLOAD :: u32 where "CAM_SYNC_REGISTER_PAYLOAD \<equiv> 4"
abbreviation CAM_SYNC_DEREGISTER_PAYLOAD :: u32 where "CAM_SYNC_DEREGISTER_PAYLOAD \<equiv> 5"
abbreviation CAM_SYNC_WAIT :: u32 where "CAM_SYNC_WAIT \<equiv> 6"
abbreviation CAM_SYNC_CREATE2 :: u32 where "CAM_SYNC_CREATE2 \<equiv> 10"
abbreviation CAM_SYNC_RESET :: u32 where "CAM_SYNC_RESET \<equiv> 11"

record sync_user_env =
  env_info :: "cam_sync_info option"
  env_create2 :: "cam_sync_create2 option"
  env_signal :: "cam_sync_signal_info option"
  env_merge :: "cam_sync_merge_info option"
  env_payload :: "cam_sync_userpayload_info option"
  env_wait :: "cam_sync_wait_info option"
  env_copy_out :: bool
  env_alloc :: bool
  env_alloc_child :: "nat \<Rightarrow> bool"
  env_alloc_parent :: "nat \<Rightarrow> bool"
  env_timeleft :: nat
  env_woken :: sync_device

definition drop_out :: "sync_device \<times> 'a result \<Rightarrow> sync_device \<times> unit result" where
  "drop_out = (\<lambda>(s, r). (s, map_sum id (\<lambda>_. ()) r))"

definition cam_sync_dev_ioctl ::
  "sync_user_env \<Rightarrow> bool \<Rightarrow> sync_device \<Rightarrow> cam_private_ioctl_arg \<Rightarrow>
   (sync_device \<times> unit result) \<times> cam_private_ioctl_arg" where
  "cam_sync_dev_ioctl u private_cmd s k =
     (if \<not> private_cmd then ((s, Err ENOIOCTLCMD), k)
      else if ioctl_id k = CAM_SYNC_CREATE
      then (drop_out (cam_sync_handle_create s k (env_info u) (env_copy_out u)), k)
      else if ioctl_id k = CAM_SYNC_DESTROY
      then (cam_sync_handle_destroy s k (env_info u), k)
      else if ioctl_id k = CAM_SYNC_REGISTER_PAYLOAD
      then (cam_sync_handle_register_user_payload (env_alloc u) s k (env_payload u), k)
      else if ioctl_id k = CAM_SYNC_DEREGISTER_PAYLOAD
      then (cam_sync_handle_deregister_user_payload s k (env_payload u), k)
      else if ioctl_id k = CAM_SYNC_SIGNAL
      then (cam_sync_handle_signal s k (env_signal u), k)
      else if ioctl_id k = CAM_SYNC_MERGE
      then (drop_out (cam_sync_handle_merge (env_alloc u) (env_alloc_child u) (env_alloc_parent u)
              s k (env_merge u) (env_copy_out u)), k)
      else if ioctl_id k = CAM_SYNC_WAIT
      then (case cam_sync_handle_wait s k (env_wait u) (env_timeleft u) (env_woken u) of
              (k', rc) \<Rightarrow> ((s, rc), k'))
      else if ioctl_id k = CAM_SYNC_CREATE2
      then (drop_out (cam_sync_handle_create2 s k (env_create2 u) (env_copy_out u)), k)
      else if ioctl_id k = CAM_SYNC_RESET
      then (cam_sync_handle_reset (env_alloc u) s k (env_payload u), k)
      else ((s, Err ENOIOCTLCMD), k))"

subsection \<open>Opening and closing the device\<close>

text \<open>\<open>fh_err\<close>: what \<^verbatim>\<open>v4l2_fh_open\<close> failed with; \<open>None\<close> as the device is a file without driver data.\<close>

definition cam_sync_open :: "errno option \<Rightarrow> sync_device option \<Rightarrow> sync_device option \<times> unit result" where
  "cam_sync_open fh_err sd =
     (case sd of
        None \<Rightarrow> (None, Err ENODEV)
      | Some s \<Rightarrow>
          (let s0 = s\<lparr>err_cnt := 0\<rparr> in
           case fh_err of
             Some e \<Rightarrow> (Some s0, Err e)
           | None \<Rightarrow>
               (let s1 = s0\<lparr>open_cnt := open_cnt s0 + 1\<rparr> in
                if 1 < open_cnt s1 then (Some s1, Ok ())
                else (Some (s1\<lparr>cam_sync_eventq := True\<rparr>), Ok ()))))"

text \<open>The two loops of \<^verbatim>\<open>cam_sync_close\<close>; the second component is the code of the last call.\<close>

definition close_signal :: "nat \<Rightarrow> sync_device \<times> unit result \<Rightarrow> sync_device \<times> unit result" where
  "close_signal i = (\<lambda>(s, rc).
     if state (sync_table s i) = CAM_SYNC_STATE_ACTIVE
     then cam_sync_signal s (int i) CAM_SYNC_STATE_SIGNALED_ERROR else (s, rc))"

definition close_destroy :: "nat \<Rightarrow> sync_device \<times> unit result \<Rightarrow> sync_device \<times> unit result" where
  "close_destroy i = (\<lambda>(s, rc).
     if state (sync_table s i) \<noteq> CAM_SYNC_STATE_INVALID then cam_sync_destroy s (int i) else (s, rc))"

text \<open>\<^verbatim>\<open>flush_workqueue\<close>: every queued callback runs.\<close>

definition flush_workqueue :: "sync_device \<Rightarrow> sync_device" where
  "flush_workqueue s = (cam_sync_util_cb_dispatch ^^ length (work_queue s)) s"

definition cam_sync_close :: "sync_device option \<Rightarrow> sync_device option \<times> unit result" where
  "cam_sync_close sd =
     (case sd of
        None \<Rightarrow> (None, Err ENODEV)
      | Some s \<Rightarrow>
          (let s0 = s\<lparr>err_cnt := 0, open_cnt := open_cnt s - 1\<rparr> in
           if open_cnt s0 \<noteq> 0 then (Some s0, Ok ())
           else
             (let (s1, rc1) = fold close_signal [1..<CAM_SYNC_MAX_OBJS] (s0, Ok ());
                  s2 = flush_workqueue s1;
                  (s3, rc2) = fold close_destroy [1..<CAM_SYNC_MAX_OBJS] (s2, rc1)
              in (Some (s3\<lparr>cam_sync_eventq := False\<rparr>), rc2))))"

text \<open>The tables as \<^verbatim>\<open>cam_sync_probe\<close> leaves them: all rows zero, bit 0 taken.\<close>

definition sync_probe_state :: sync_device where
  "sync_probe_state = \<lparr>sync_table = (\<lambda>_. zero_row), bitmap = (\<lambda>i. i = 0), open_cnt = 0,
     work_queue = [], cam_sync_eventq = False, err_cnt = 0, trigger_cb_without_switch = False,
     v4l2_events = [], cb_calls = []\<rparr>"

end
