(* ===== verification/Cam_Sync_Inv.thy ===== *)
theory Cam_Sync_Inv
  imports Cam_Sync
begin

text \<open>
  The invariant of the fence table and its preservation by every operation of \<open>Cam_Sync\<close>.

  \<open>sync_inv_pend s ps\<close> says that the bitmap and the row states agree, that states are one of the
  four defined ones, that a parents list holds live group rows which list the child in turn, that
  only an active individual fence has parents, and that \<^verbatim>\<open>remaining\<close> of a group covers the
  children still linked to it and the decrements \<open>ps\<close> a running \<^verbatim>\<open>cam_sync_signal\<close> has yet to make.
  The last clause is what keeps the unsigned \<^verbatim>\<open>remaining--\<close> from wrapping around.
\<close>

definition core :: "sync_table_row \<Rightarrow> u32 \<times> u32 \<times> nat list \<times> nat list \<times> u32" where
  "core r = (row_type r, state r, parents_list r, children_list r, remaining r)"

definition same_core :: "sync_device \<Rightarrow> sync_device \<Rightarrow> bool" where
  "same_core s t \<longleftrightarrow> bitmap t = bitmap s \<and> (\<forall>i. core (sync_table t i) = core (sync_table s i))"

definition linked :: "sync_device \<Rightarrow> nat \<Rightarrow> nat set" where
  "linked s p = {c. p \<in> set (parents_list (sync_table s c))}"

definition live_group :: "sync_device \<Rightarrow> nat \<Rightarrow> bool" where
  "live_group s p \<longleftrightarrow> 0 < p \<and> p < CAM_SYNC_MAX_OBJS \<and>
     row_type (sync_table s p) = CAM_SYNC_TYPE_GROUP \<and>
     state (sync_table s p) \<noteq> CAM_SYNC_STATE_INVALID"

definition sync_inv_pend :: "sync_device \<Rightarrow> nat list \<Rightarrow> bool" where
  "sync_inv_pend s ps \<longleftrightarrow>
     (bitmap s 0 \<and> state (sync_table s 0) = CAM_SYNC_STATE_INVALID) \<and>
     (\<forall>i\<ge>CAM_SYNC_MAX_OBJS. core (sync_table s i) = core zero_row) \<and>
     (\<forall>i. 0 < i \<and> i < CAM_SYNC_MAX_OBJS \<longrightarrow>
        bitmap s i = (state (sync_table s i) \<noteq> CAM_SYNC_STATE_INVALID)) \<and>
     (\<forall>i. state (sync_table s i) \<in> {CAM_SYNC_STATE_INVALID, CAM_SYNC_STATE_ACTIVE,
        CAM_SYNC_STATE_SIGNALED_SUCCESS, CAM_SYNC_STATE_SIGNALED_ERROR}) \<and>
     (\<forall>c. \<forall>p \<in> set (parents_list (sync_table s c)).
        live_group s p \<and> c \<in> set (children_list (sync_table s p))) \<and>
     (\<forall>c. distinct (parents_list (sync_table s c)) \<and>
        (parents_list (sync_table s c) \<noteq> [] \<longrightarrow>
           row_type (sync_table s c) \<noteq> CAM_SYNC_TYPE_GROUP \<and>
           state (sync_table s c) = CAM_SYNC_STATE_ACTIVE)) \<and>
     (\<forall>p. card (linked s p) + count_list ps p \<le> unat (remaining (sync_table s p))) \<and>
     (\<forall>p \<in> set ps. live_group s p) \<and>
     (\<forall>p. \<forall>c \<in> set (children_list (sync_table s p)). 0 < c \<and> c < CAM_SYNC_MAX_OBJS)"

abbreviation sync_inv :: "sync_device \<Rightarrow> bool" where
  "sync_inv s \<equiv> sync_inv_pend s []"

subsection \<open>Reading the state after an update\<close>

lemma upd_row_simps [simp]:
  "sync_table (upd_row i f s) = (sync_table s)(i := f (sync_table s i))"
  "bitmap (upd_row i f s) = bitmap s"
  "open_cnt (upd_row i f s) = open_cnt s"
  "work_queue (upd_row i f s) = work_queue s"
  "cam_sync_eventq (upd_row i f s) = cam_sync_eventq s"
  "err_cnt (upd_row i f s) = err_cnt s"
  "trigger_cb_without_switch (upd_row i f s) = trigger_cb_without_switch s"
  "v4l2_events (upd_row i f s) = v4l2_events s"
  "cb_calls (upd_row i f s) = cb_calls s"
  by (simp_all add: upd_row_def)

lemma set_bit_row_simps [simp]:
  "sync_table (set_bit_row i v s) = sync_table s"
  "bitmap (set_bit_row i v s) = (bitmap s)(i := v)"
  "open_cnt (set_bit_row i v s) = open_cnt s"
  "work_queue (set_bit_row i v s) = work_queue s"
  "cam_sync_eventq (set_bit_row i v s) = cam_sync_eventq s"
  "err_cnt (set_bit_row i v s) = err_cnt s"
  "v4l2_events (set_bit_row i v s) = v4l2_events s"
  "cb_calls (set_bit_row i v s) = cb_calls s"
  by (simp_all add: set_bit_row_def)

lemma zero_row_simps [simp]:
  "parents_list zero_row = []" "children_list zero_row = []" "state zero_row = 0"
  "remaining zero_row = 0" "row_type zero_row = 0" "callback_list zero_row = []"
  "user_payload_list zero_row = []" "signaled zero_row = False" "ref_cnt zero_row = 0"
  "client_id zero_row = 0"
  by (simp_all add: zero_row_def)

lemma in_range_iff: "in_range x \<longleftrightarrow> 0 < x \<and> x < 1024"
  by (auto simp: in_range_def)

lemma in_range_int [simp]: "in_range (int i) \<longleftrightarrow> 0 < i \<and> i < CAM_SYNC_MAX_OBJS"
  by (auto simp: in_range_def)

lemma claim_bit_eq:
  "claim_bit s = (let idx = find_first_zero_bit (bitmap s) CAM_SYNC_MAX_OBJS in
     if CAM_SYNC_MAX_OBJS \<le> idx then None else Some (set_bit_row idx True s, idx))"
  using find_first_zero_bit_clear [of "bitmap s" CAM_SYNC_MAX_OBJS]
  by (simp add: claim_bit.simps [of s] Let_def)

lemma claim_bit_Some:
  assumes "claim_bit s = Some (t, i)"
  shows "i < CAM_SYNC_MAX_OBJS" "\<not> bitmap s i" "t = set_bit_row i True s"
  using assms find_first_zero_bit_clear [of "bitmap s" CAM_SYNC_MAX_OBJS]
  by (auto simp: claim_bit_eq Let_def split: if_splits)

subsection \<open>Parts of the invariant\<close>

lemma core_eqD:
  "core r = core r' \<Longrightarrow> row_type r = row_type r' \<and> state r = state r' \<and>
     parents_list r = parents_list r' \<and> children_list r = children_list r' \<and>
     remaining r = remaining r'"
  by (simp add: core_def)

lemma same_core_fields:
  assumes "same_core s t"
  shows "row_type (sync_table t i) = row_type (sync_table s i)"
    "state (sync_table t i) = state (sync_table s i)"
    "parents_list (sync_table t i) = parents_list (sync_table s i)"
    "children_list (sync_table t i) = children_list (sync_table s i)"
    "remaining (sync_table t i) = remaining (sync_table s i)"
    "bitmap t = bitmap s"
  using assms by (auto simp: same_core_def core_def)

lemma same_core_refl [simp]: "same_core s s"
  by (simp add: same_core_def)

lemma same_core_trans: "same_core s t \<Longrightarrow> same_core t u \<Longrightarrow> same_core s u"
  by (simp add: same_core_def)

lemma same_core_upd_row: "(\<And>r. core (f r) = core r) \<Longrightarrow> same_core s (upd_row i f s)"
  by (simp add: same_core_def)

lemma same_core_inv:
  assumes "same_core s t"
  shows "sync_inv_pend t ps = sync_inv_pend s ps"
proof -
  note f = same_core_fields [OF assms]
  have "linked t p = linked s p" "live_group t p = live_group s p" for p
    by (simp_all add: linked_def live_group_def f)
  moreover have "core (sync_table t i) = core (sync_table s i)" for i
    using assms by (simp add: same_core_def)
  ultimately show ?thesis by (simp add: sync_inv_pend_def f)
qed

lemma inv_bit0: "sync_inv_pend s ps \<Longrightarrow> bitmap s 0 \<and> state (sync_table s 0) = 0"
  by (simp add: sync_inv_pend_def)

lemma inv_outside: "sync_inv_pend s ps \<Longrightarrow> CAM_SYNC_MAX_OBJS \<le> i \<Longrightarrow> core (sync_table s i) = core zero_row"
  by (simp add: sync_inv_pend_def)

lemma inv_bitmap:
  "sync_inv_pend s ps \<Longrightarrow> 0 < i \<Longrightarrow> i < CAM_SYNC_MAX_OBJS \<Longrightarrow>
     bitmap s i = (state (sync_table s i) \<noteq> CAM_SYNC_STATE_INVALID)"
  by (simp add: sync_inv_pend_def)

lemma inv_state: "sync_inv_pend s ps \<Longrightarrow> state (sync_table s i) \<in> {0, 1, 2, 3}"
  by (simp add: sync_inv_pend_def)

lemma inv_parent:
  "sync_inv_pend s ps \<Longrightarrow> p \<in> set (parents_list (sync_table s c)) \<Longrightarrow>
     live_group s p \<and> c \<in> set (children_list (sync_table s p))"
  by (simp add: sync_inv_pend_def)

lemma inv_distinct: "sync_inv_pend s ps \<Longrightarrow> distinct (parents_list (sync_table s c))"
  by (simp add: sync_inv_pend_def)

lemma inv_has_parents:
  "sync_inv_pend s ps \<Longrightarrow> parents_list (sync_table s c) \<noteq> [] \<Longrightarrow>
     row_type (sync_table s c) \<noteq> CAM_SYNC_TYPE_GROUP \<and> state (sync_table s c) = CAM_SYNC_STATE_ACTIVE"
  by (simp add: sync_inv_pend_def)

lemma inv_remaining:
  "sync_inv_pend s ps \<Longrightarrow>
     card (linked s p) + count_list ps p \<le> unat (remaining (sync_table s p))"
  by (simp add: sync_inv_pend_def)

lemma inv_children:
  "sync_inv_pend s ps \<Longrightarrow> c \<in> set (children_list (sync_table s p)) \<Longrightarrow>
     0 < c \<and> c < CAM_SYNC_MAX_OBJS"
  by (simp add: sync_inv_pend_def)

lemma sync_inv_pendI:
  assumes "bitmap s 0" "state (sync_table s 0) = CAM_SYNC_STATE_INVALID"
    and "\<And>i. CAM_SYNC_MAX_OBJS \<le> i \<Longrightarrow> core (sync_table s i) = core zero_row"
    and "\<And>i. 0 < i \<Longrightarrow> i < CAM_SYNC_MAX_OBJS \<Longrightarrow>
        bitmap s i = (state (sync_table s i) \<noteq> CAM_SYNC_STATE_INVALID)"
    and "\<And>i. state (sync_table s i) \<in> {0, 1, 2, 3}"
    and "\<And>c p. p \<in> set (parents_list (sync_table s c)) \<Longrightarrow>
        live_group s p \<and> c \<in> set (children_list (sync_table s p))"
    and "\<And>c. distinct (parents_list (sync_table s c))"
    and "\<And>c. parents_list (sync_table s c) \<noteq> [] \<Longrightarrow>
        row_type (sync_table s c) \<noteq> CAM_SYNC_TYPE_GROUP \<and> state (sync_table s c) = CAM_SYNC_STATE_ACTIVE"
    and "\<And>p. card (linked s p) + count_list ps p \<le> unat (remaining (sync_table s p))"
    and "\<And>p. p \<in> set ps \<Longrightarrow> live_group s p"
    and "\<And>p c. c \<in> set (children_list (sync_table s p)) \<Longrightarrow> 0 < c \<and> c < CAM_SYNC_MAX_OBJS"
  shows "sync_inv_pend s ps"
  unfolding sync_inv_pend_def using assms by simp

lemma inv_no_parents:
  "sync_inv_pend s ps \<Longrightarrow> state (sync_table s c) \<noteq> CAM_SYNC_STATE_ACTIVE \<Longrightarrow>
     parents_list (sync_table s c) = []"
  using inv_has_parents by blast

lemma finite_linked: "sync_inv_pend s ps \<Longrightarrow> finite (linked s p)"
proof -
  assume inv: "sync_inv_pend s ps"
  have "linked s p \<subseteq> {..<CAM_SYNC_MAX_OBJS}"
    using inv_parent [OF inv] inv_children [OF inv] by (auto simp: linked_def)
  then show ?thesis by (rule finite_subset) simp
qed

lemma inv_linked_live: "sync_inv_pend s ps \<Longrightarrow> c \<in> linked s p \<Longrightarrow> live_group s p"
  using inv_parent by (auto simp: linked_def)

subsection \<open>Dispatch leaves the core of every row alone\<close>

lemma dispatch_user_payloads_frame:
  "dispatch_user_payloads obj st ps s = (t, rest) \<Longrightarrow>
     sync_table t = sync_table s \<and> bitmap t = bitmap s \<and> work_queue t = work_queue s \<and>
     cam_sync_eventq t = cam_sync_eventq s \<and> cb_calls t = cb_calls s \<and> open_cnt t = open_cnt s"
  by (induction ps arbitrary: s) (auto simp: cam_sync_util_send_v4l2_event_def split: if_splits)

lemma dispatch_same_core: "same_core s (cam_sync_util_dispatch_signaled_cb obj st s)"
  by (auto simp: cam_sync_util_dispatch_signaled_cb_def same_core_def core_def Let_def
      dest!: dispatch_user_payloads_frame split: prod.splits)

lemma dispatch_other_row:
  "i \<noteq> obj \<Longrightarrow> sync_table (cam_sync_util_dispatch_signaled_cb obj st s) i = sync_table s i"
  by (auto simp: cam_sync_util_dispatch_signaled_cb_def Let_def
      dest!: dispatch_user_payloads_frame split: prod.splits)

lemma dispatch_ref_cnt:
  "ref_cnt (sync_table (cam_sync_util_dispatch_signaled_cb obj st s) i) = ref_cnt (sync_table s i)"
  by (auto simp: cam_sync_util_dispatch_signaled_cb_def Let_def
      dest!: dispatch_user_payloads_frame split: prod.splits)

subsection \<open>Operations that do not touch the links\<close>

lemma register_callback_same_core:
  "same_core s (fst (cam_sync_register_callback a s f d obj))"
  by (auto simp: cam_sync_register_callback_def same_core_def core_def Let_def)

lemma deregister_callback_same_core:
  "same_core s (fst (cam_sync_deregister_callback s f d obj))"
  by (auto simp: cam_sync_deregister_callback_def same_core_def core_def Let_def)

lemma get_obj_ref_same_core: "same_core s (fst (cam_sync_get_obj_ref s obj))"
  by (auto simp: cam_sync_get_obj_ref_def same_core_def core_def)

lemma put_obj_ref_same_core: "same_core s (fst (cam_sync_put_obj_ref s obj))"
  by (auto simp: cam_sync_put_obj_ref_def same_core_def core_def)

lemma register_payload_same_core:
  "same_core s (fst (cam_sync_handle_register_user_payload a s k usr))"
  by (auto simp: cam_sync_handle_register_user_payload_def same_core_def core_def Let_def
      cam_sync_util_send_v4l2_event_def split: sum.splits)

lemma deregister_payload_same_core:
  "same_core s (fst (cam_sync_handle_deregister_user_payload s k usr))"
  by (auto simp: cam_sync_handle_deregister_user_payload_def same_core_def core_def Let_def
      split: sum.splits)

lemma cb_dispatch_same_core: "same_core s (cam_sync_util_cb_dispatch s)"
  by (auto simp: cam_sync_util_cb_dispatch_def same_core_def split: list.splits)

lemma flush_same_core: "same_core s (flush_workqueue s)"
proof -
  have "same_core s ((cam_sync_util_cb_dispatch ^^ n) s)" for n
    by (induction n) (auto intro: same_core_trans cb_dispatch_same_core)
  then show ?thesis by (simp add: flush_workqueue_def)
qed

lemmas same_core_ops = register_callback_same_core deregister_callback_same_core
  get_obj_ref_same_core put_obj_ref_same_core register_payload_same_core
  deregister_payload_same_core cb_dispatch_same_core flush_same_core

lemma count_list_distinct: "distinct xs \<Longrightarrow> count_list xs x = (if x \<in> set xs then 1 else 0)"
  by (induction xs) auto

subsection \<open>A fresh row\<close>

text \<open>
  Claiming a free index and initialising its row, for a single fence and for a group alike.
\<close>

lemma fresh_linked_empty:
  assumes "sync_inv_pend s ps" "state (sync_table s i) = CAM_SYNC_STATE_INVALID"
  shows "linked s i = {}"
  using assms inv_linked_live by (fastforce simp: live_group_def)

lemma inv_claim_init:
  assumes inv: "sync_inv s" and fresh: "\<not> bitmap s i" "i < CAM_SYNC_MAX_OBJS"
    and row: "row_type r = ty" "state r = CAM_SYNC_STATE_ACTIVE" "parents_list r = []"
      "children_list r = []"
  shows "sync_inv (upd_row i (\<lambda>_. r) (set_bit_row i True s))" (is "sync_inv ?t")
proof -
  have pos: "0 < i" using fresh inv_bit0 [OF inv] by (cases i) auto
  have inval: "state (sync_table s i) = CAM_SYNC_STATE_INVALID"
    using inv_bitmap [OF inv pos] fresh by simp
  have nopar: "i \<notin> set (parents_list (sync_table s c))" for c
    using inv_parent [OF inv, of i c] inval by (auto simp: live_group_def)
  have nop: "parents_list (sync_table s i) = []" using inv_no_parents [OF inv] inval by simp
  have lk: "linked ?t p = linked s p" for p using nop row by (auto simp: linked_def)
  have lg: "live_group ?t p" if "live_group s p" for p
    using that inval by (auto simp: live_group_def)
  have "card (linked ?t p) \<le> unat (remaining (sync_table ?t p))" for p
    using inv_remaining [OF inv, of p] fresh_linked_empty [OF inv inval] by (simp add: lk)
  moreover have "live_group ?t p \<and> c \<in> set (children_list (sync_table ?t p))"
    if "p \<in> set (parents_list (sync_table ?t c))" for p c
    using that row nopar inv_parent [OF inv, of p c] lg by (auto split: if_splits)
  ultimately show ?thesis
    using inv pos fresh row inv_bit0 [OF inv] unfolding sync_inv_pend_def by auto
qed

lemma init_row_eq:
  "0 < i \<Longrightarrow> i < CAM_SYNC_MAX_OBJS \<Longrightarrow> \<exists>r. cam_sync_init_row s i n ty cl = (upd_row i (\<lambda>_. r) s, Ok ()) \<and>
     row_type r = ty \<and> state r = CAM_SYNC_STATE_ACTIVE \<and> parents_list r = [] \<and>
     children_list r = [] \<and> remaining r = 0 \<and> client_id r = cl \<and> sync_id r = i \<and>
     callback_list r = [] \<and> user_payload_list r = [] \<and> ref_cnt r = 0 \<and> \<not> signaled r"
  by (auto simp: cam_sync_init_row_def zero_row_def)

lemma claim_bit_pos:
  assumes "sync_inv s" "claim_bit s = Some (t, i)"
  shows "0 < i"
  using claim_bit_Some [OF assms(2)] inv_bit0 [OF assms(1)] by (cases i) auto

lemma create_inv [cam_inv]:
  assumes inv: "sync_inv s"
  shows "sync_inv (fst (cam_sync_create s name client))"
proof (cases "claim_bit s")
  case None
  have "same_core s (s\<lparr>err_cnt := err_cnt s + 1\<rparr>)" by (simp add: same_core_def)
  with None inv show ?thesis by (simp add: cam_sync_create_def same_core_inv)
next
  case (Some ti)
  obtain t i where ti: "ti = (t, i)" by force
  note c = claim_bit_Some [OF Some [unfolded ti]] claim_bit_pos [OF inv Some [unfolded ti]]
  obtain r where "cam_sync_init_row t i name CAM_SYNC_TYPE_INDV client = (upd_row i (\<lambda>_. r) t, Ok ())"
    "state r = CAM_SYNC_STATE_ACTIVE" "parents_list r = []" "children_list r = []"
    using init_row_eq [OF c(4,1), of t name CAM_SYNC_TYPE_INDV client] by auto
  then show ?thesis
    using Some ti c inv_claim_init [OF inv c(2,1)] by (simp add: cam_sync_create_def)
qed

subsection \<open>Signaling\<close>

lemma signal_locked_Ok_cases:
  assumes "signal_locked s obj st = (t, Ok ps)"
  obtains (counted) "same_core s t" "ps = []"
  | (signaled) i where "i = nat obj" "0 < i" "i < CAM_SYNC_MAX_OBJS"
      "row_type (sync_table s i) \<noteq> CAM_SYNC_TYPE_GROUP"
      "state (sync_table s i) = CAM_SYNC_STATE_ACTIVE"
      "st \<in> {CAM_SYNC_STATE_SIGNALED_SUCCESS, CAM_SYNC_STATE_SIGNALED_ERROR}"
      "ref_cnt (sync_table s i) = 1" "ps = parents_list (sync_table s i)"
      "same_core (upd_row i (\<lambda>r. r\<lparr>state := st, parents_list := []\<rparr>) s) t"
proof (cases "ref_cnt (sync_table s (nat obj)) = 1")
  case False
  then have "same_core s t" "ps = []"
    using assms by (auto simp: signal_locked_def Let_def same_core_def core_def split: if_splits)
  then show thesis by (rule counted)
next
  case True
  let ?i = "nat obj"
  let ?s2 = "upd_row ?i (\<lambda>r. r\<lparr>state := st\<rparr>) (upd_row ?i (\<lambda>r. r\<lparr>ref_cnt := ref_cnt r - 1\<rparr>) s)"
  let ?s3 = "cam_sync_util_dispatch_signaled_cb ?i st ?s2"
  have g: "in_range obj" "state (sync_table s ?i) = CAM_SYNC_STATE_ACTIVE"
    "row_type (sync_table s ?i) \<noteq> CAM_SYNC_TYPE_GROUP"
    "st \<in> {CAM_SYNC_STATE_SIGNALED_SUCCESS, CAM_SYNC_STATE_SIGNALED_ERROR}"
    and t: "t = upd_row ?i (\<lambda>r. r\<lparr>parents_list := []\<rparr>) ?s3"
    and ps: "ps = parents_list (sync_table ?s3 ?i)"
    using assms True by (auto simp: signal_locked_def Let_def split: if_splits)
  have d: "same_core ?s2 ?s3" by (rule dispatch_same_core)
  have "same_core (upd_row ?i (\<lambda>r. r\<lparr>state := st, parents_list := []\<rparr>) s) t"
    using d unfolding t by (auto simp: same_core_def core_def)
  moreover have "ps = parents_list (sync_table s ?i)"
    using same_core_fields(3) [OF d, of ?i] by (simp add: ps)
  ultimately show thesis
    using g True signaled [of ?i] by (auto simp: in_range_iff)
qed

lemma linked_detach:
  "linked (upd_row i (\<lambda>r. r\<lparr>state := st, parents_list := []\<rparr>) s) p = linked s p - {i}"
  by (auto simp: linked_def)

lemma detach_inv:
  assumes inv: "sync_inv s" and i: "0 < i" "i < CAM_SYNC_MAX_OBJS"
    and ind: "row_type (sync_table s i) \<noteq> CAM_SYNC_TYPE_GROUP"
    and act: "state (sync_table s i) = CAM_SYNC_STATE_ACTIVE"
    and st: "st \<in> {CAM_SYNC_STATE_SIGNALED_SUCCESS, CAM_SYNC_STATE_SIGNALED_ERROR}"
  shows "sync_inv_pend (upd_row i (\<lambda>r. r\<lparr>state := st, parents_list := []\<rparr>) s)
           (parents_list (sync_table s i))" (is "sync_inv_pend ?t ?ps")
proof -
  have lg: "live_group ?t p = live_group s p" for p
    using ind by (auto simp: live_group_def)
  have cnt: "count_list ?ps p = (if p \<in> set ?ps then 1 else 0)" for p
    using inv_distinct [OF inv, of i] by (rule count_list_distinct)
  have mem: "i \<in> linked s p \<longleftrightarrow> p \<in> set ?ps" for p by (simp add: linked_def)
  have rem: "remaining (sync_table ?t p) = remaining (sync_table s p)" for p by simp
  have "card (linked s p - {i}) + count_list ?ps p = card (linked s p)" for p
    using finite_linked [OF inv, of p] card_Suc_Diff1 [of "linked s p" i] mem [of p] cnt [of p]
    by auto
  then have card: "card (linked ?t p) + count_list ?ps p \<le> unat (remaining (sync_table ?t p))" for p
    using inv_remaining [OF inv, of p] rem [of p] linked_detach [of i st s p] by simp
  have par: "live_group ?t p \<and> c \<in> set (children_list (sync_table ?t p))"
    if "p \<in> set (parents_list (sync_table ?t c))" for p c
    using that inv_parent [OF inv, of p c] by (auto simp: lg split: if_splits)
  have pend: "live_group ?t p" if "p \<in> set ?ps" for p
    using that inv_parent [OF inv, of p i] by (simp add: lg)
  show ?thesis
    using inv i act st card par pend unfolding sync_inv_pend_def by auto
qed

lemma signal_locked_inv:
  assumes "sync_inv s" "signal_locked s obj st = (t, Ok ps)"
  shows "sync_inv_pend t ps"
  using assms(2)
proof (cases rule: signal_locked_Ok_cases)
  case counted
  with assms(1) show ?thesis by (simp add: same_core_inv)
next
  case (signaled i)
  with detach_inv [OF assms(1) signaled(2-6)] same_core_inv [OF signaled(9)] show ?thesis by simp
qed

lemma signal_locked_Err: "signal_locked s obj st = (t, Err e) \<Longrightarrow> t = s"
  by (auto simp: signal_locked_def Let_def split: if_splits)

lemma signal_locked_status:
  "signal_locked s obj st = (t, Ok ps) \<Longrightarrow> ps \<noteq> [] \<Longrightarrow>
     st \<in> {CAM_SYNC_STATE_SIGNALED_SUCCESS, CAM_SYNC_STATE_SIGNALED_ERROR}"
  by (auto elim!: signal_locked_Ok_cases)

text \<open>The state a parent takes when a child is signaled: an error stays.\<close>

definition parent_state :: "u32 \<Rightarrow> u32 \<Rightarrow> u32" where
  "parent_state old st = (if old = CAM_SYNC_STATE_SIGNALED_ERROR then old else st)"

lemma row_state_self: "r\<lparr>remaining := n, state := state r\<rparr> = r\<lparr>remaining := n\<rparr>"
  by (cases r) simp

lemma signal_parent_core:
  assumes "state (sync_table s p) \<in> {1, 2, 3}"
  shows "same_core (upd_row p (\<lambda>r. r\<lparr>remaining := remaining r - 1,
           state := parent_state (state r) st\<rparr>) s) (signal_parent st p s)"
proof -
  let ?r = "sync_table s p"
  let ?u = "upd_row p (\<lambda>r. r\<lparr>remaining := remaining r - 1, state := parent_state (state r) st\<rparr>) s"
  have "cam_sync_util_update_parent_state (?r\<lparr>remaining := remaining ?r - 1\<rparr>) st =
      (?r\<lparr>remaining := remaining ?r - 1, state := parent_state (state ?r) st\<rparr>, Ok ())"
    using assms row_state_self [of ?r "remaining ?r - 1"]
    by (auto simp: cam_sync_util_update_parent_state_def parent_state_def)
  then have "signal_parent st p s =
      (if remaining ?r - 1 = 0 then cam_sync_util_dispatch_signaled_cb p (parent_state (state ?r) st) ?u
       else ?u)"
    by (simp add: signal_parent_def Let_def upd_row_def)
  then show ?thesis using dispatch_same_core by simp
qed

lemma unat_minus_one_word: "0 < unat (w :: u32) \<Longrightarrow> unat (w - 1) = unat w - 1"
  by (metis gr_implies_not0 unat_0 unat_minus_one)

lemma signal_parent_inv:
  assumes inv: "sync_inv_pend s (p # ps)"
    and st: "st \<in> {CAM_SYNC_STATE_SIGNALED_SUCCESS, CAM_SYNC_STATE_SIGNALED_ERROR}"
  shows "sync_inv_pend (signal_parent st p s) ps"
proof -
  let ?t = "upd_row p (\<lambda>r. r\<lparr>remaining := remaining r - 1, state := parent_state (state r) st\<rparr>) s"
  have lgp: "live_group s p" using inv by (simp add: sync_inv_pend_def)
  then have state: "state (sync_table s p) \<in> {1, 2, 3}"
    using inv_state [OF inv, of p] by (auto simp: live_group_def)
  have nz: "parent_state (state (sync_table s p)) st \<in> {2, 3}"
    using st by (auto simp: parent_state_def)
  have lg: "live_group ?t q = live_group s q" for q
    using lgp nz by (auto simp: live_group_def)
  have lk: "linked ?t q = linked s q" for q by (auto simp: linked_def)
  have nop: "parents_list (sync_table s p) = []"
    using lgp inv_has_parents [OF inv, of p] by (auto simp: live_group_def)
  have "card (linked s p) + Suc (count_list ps p) \<le> unat (remaining (sync_table s p))"
    using inv_remaining [OF inv, of p] by simp
  then have card: "card (linked s q) + count_list ps q \<le> unat (remaining (sync_table ?t q))" for q
    using inv_remaining [OF inv, of q] by (auto simp: unat_minus_one_word)
  have par: "live_group ?t q \<and> c \<in> set (children_list (sync_table ?t q))"
    if "q \<in> set (parents_list (sync_table ?t c))" for q c
    using that inv_parent [OF inv, of q c] by (auto simp: lg split: if_splits)
  have "sync_inv_pend ?t ps"
    using inv lgp nz nop card par lg unfolding sync_inv_pend_def lk
    by (auto simp: live_group_def core_def)
  then show ?thesis using same_core_inv [OF signal_parent_core [OF state]] by blast
qed

lemma signal_parents_inv:
  assumes "sync_inv_pend s ps"
    and "ps \<noteq> [] \<Longrightarrow> st \<in> {CAM_SYNC_STATE_SIGNALED_SUCCESS, CAM_SYNC_STATE_SIGNALED_ERROR}"
  shows "sync_inv (fold (signal_parent st) ps s)"
  using assms
proof (induction ps arbitrary: s)
  case Nil
  then show ?case by simp
next
  case (Cons p ps)
  then have "sync_inv_pend (signal_parent st p s) ps" using signal_parent_inv by simp
  with Cons show ?case by simp
qed

lemma signal_inv [cam_inv]:
  assumes "sync_inv s"
  shows "sync_inv (fst (cam_sync_signal s obj st))"
proof (cases "signal_locked s obj st")
  case (Pair t r)
  show ?thesis
  proof (cases r)
    case (Inl e)
    with Pair assms signal_locked_Err [of s obj st t e] show ?thesis
      by (simp add: cam_sync_signal_def)
  next
    case (Inr ps)
    with Pair signal_locked_inv [OF assms] signal_locked_status signal_parents_inv show ?thesis
      by (simp add: cam_sync_signal_def)
  qed
qed

end
