(* ===== verification/Cam_Sync_Links.thy ===== *)
theory Cam_Sync_Links
  imports Cam_Sync_Inv
begin

text \<open>
  The operations that make and break the links between fences: merging, destroying, resetting, and
  the closing of the device. Each keeps the invariant; a reset does so for a fence that is not a
  group. The last part puts the operations together as a step relation.
\<close>

subsection \<open>Taking a row out of the table\<close>

text \<open>
  Both the destruction of an object and the clean-up of a failed merge end in a state in which the
  row is invalid and no other row names it as a parent.
\<close>

lemma inv_kill:
  assumes inv: "sync_inv s" and i: "0 < i" "i < CAM_SYNC_MAX_OBJS"
    and bits: "bitmap t = (bitmap s)(i := False)"
    and dead: "state (sync_table t i) = CAM_SYNC_STATE_INVALID" "parents_list (sync_table t i) = []"
      "children_list (sync_table t i) = []"
    and same: "\<And>c. c \<noteq> i \<Longrightarrow> row_type (sync_table t c) = row_type (sync_table s c) \<and>
        state (sync_table t c) = state (sync_table s c) \<and>
        remaining (sync_table t c) = remaining (sync_table s c)"
    and par: "\<And>c. c \<noteq> i \<Longrightarrow> distinct (parents_list (sync_table t c)) \<and>
        set (parents_list (sync_table t c)) = set (parents_list (sync_table s c)) - {i}"
    and chl: "\<And>c. c \<noteq> i \<Longrightarrow>
        set (children_list (sync_table t c)) \<subseteq> set (children_list (sync_table s c)) \<and>
        set (children_list (sync_table s c)) - {i} \<subseteq> set (children_list (sync_table t c))"
  shows "sync_inv t"
proof -
  have mem: "p \<in> set (parents_list (sync_table t c)) \<longleftrightarrow>
      c \<noteq> i \<and> p \<noteq> i \<and> p \<in> set (parents_list (sync_table s c))" for p c
    using par [of c] dead by (cases "c = i") auto
  then have lk: "linked t p = (if p = i then {} else linked s p - {i})" for p
    by (auto simp: linked_def)
  have card: "card (linked t p) \<le> unat (remaining (sync_table t p))" for p
  proof (cases "p = i")
    case True
    then show ?thesis by (simp add: lk)
  next
    case False
    have "card (linked s p - {i}) \<le> card (linked s p)"
      using finite_linked [OF inv] by (intro card_mono) auto
    then show ?thesis using inv_remaining [OF inv, of p] False same by (simp add: lk)
  qed
  have parents: "live_group t p \<and> c \<in> set (children_list (sync_table t p))"
    if "p \<in> set (parents_list (sync_table t c))" for p c
  proof -
    have c: "c \<noteq> i" using that dead by auto
    with that par have "p \<noteq> i" "p \<in> set (parents_list (sync_table s c))" by auto
    then show ?thesis using inv_parent [OF inv, of p c] same [of p] chl [of p] c
      by (auto simp: live_group_def)
  qed
  have out: "core (sync_table t c) = core zero_row" if "CAM_SYNC_MAX_OBJS \<le> c" for c
    using that i same [of c] par [of c] chl [of c] core_eqD [OF inv_outside [OF inv that]]
    by (auto simp: core_def)
  have hasp: "row_type (sync_table t c) \<noteq> 1 \<and> state (sync_table t c) = 1"
    if ne: "parents_list (sync_table t c) \<noteq> []" for c
  proof -
    have c: "c \<noteq> i" using ne dead by auto
    obtain p where "p \<in> set (parents_list (sync_table t c))" using ne by fastforce
    then have "p \<in> set (parents_list (sync_table s c))" using mem by simp
    then have "parents_list (sync_table s c) \<noteq> []" by (cases "parents_list (sync_table s c)") auto
    then show ?thesis using inv_has_parents [OF inv, of c] same [OF c] by simp
  qed
  have st: "state (sync_table t c) \<in> {0, 1, 2, 3}" for c
    using inv_state [OF inv, of c] same [of c] dead by (cases "c = i") auto
  have ch: "0 < c \<and> c < CAM_SYNC_MAX_OBJS" if "c \<in> set (children_list (sync_table t p))" for c p
    using that inv_children [OF inv, of c p] chl [of p] dead by (cases "p = i") auto
  have bm: "bitmap t c = (state (sync_table t c) \<noteq> 0)" if "0 < c" "c < CAM_SYNC_MAX_OBJS" for c
    using inv_bitmap [OF inv that] same [of c] dead bits by (cases "c = i") auto
  have dist: "distinct (parents_list (sync_table t c))" for c
    using par [of c] dead by (cases "c = i") auto
  show ?thesis
    unfolding sync_inv_pend_def
    using card parents out hasp st ch bm dist inv_bit0 [OF inv] i same [of 0] bits by auto
qed

subsection \<open>Unlinking\<close>

text \<open>
  \<open>shrink i s t\<close>: \<open>t\<close> is \<open>s\<close> with some mentions of row \<open>i\<close> dropped from the lists.
\<close>

definition shrink_row :: "nat \<Rightarrow> sync_table_row \<Rightarrow> sync_table_row \<Rightarrow> bool" where
  "shrink_row i r r' \<longleftrightarrow> row_type r' = row_type r \<and> state r' = state r \<and> remaining r' = remaining r \<and>
     (distinct (parents_list r) \<longrightarrow> distinct (parents_list r')) \<and>
     set (parents_list r') \<subseteq> set (parents_list r) \<and>
     set (parents_list r) - {i} \<subseteq> set (parents_list r') \<and>
     set (children_list r') \<subseteq> set (children_list r) \<and>
     set (children_list r) - {i} \<subseteq> set (children_list r')"

definition shrink :: "nat \<Rightarrow> sync_device \<Rightarrow> sync_device \<Rightarrow> bool" where
  "shrink i s t \<longleftrightarrow> bitmap t = bitmap s \<and> (\<forall>c. shrink_row i (sync_table s c) (sync_table t c))"

lemma shrink_row_trans: "shrink_row i r r' \<Longrightarrow> shrink_row i r' r'' \<Longrightarrow> shrink_row i r r''"
  unfolding shrink_row_def by auto

lemma shrink_refl: "shrink i s s"
  by (simp add: shrink_def shrink_row_def)

lemma shrink_trans: "shrink i s t \<Longrightarrow> shrink i t u \<Longrightarrow> shrink i s u"
  unfolding shrink_def using shrink_row_trans by metis

lemma shrinkD:
  assumes "shrink i s t"
  shows "bitmap t = bitmap s" "row_type (sync_table t c) = row_type (sync_table s c)"
    "state (sync_table t c) = state (sync_table s c)"
    "remaining (sync_table t c) = remaining (sync_table s c)"
    "distinct (parents_list (sync_table s c)) \<Longrightarrow> distinct (parents_list (sync_table t c))"
    "set (parents_list (sync_table t c)) \<subseteq> set (parents_list (sync_table s c))"
    "set (parents_list (sync_table s c)) - {i} \<subseteq> set (parents_list (sync_table t c))"
    "set (children_list (sync_table t c)) \<subseteq> set (children_list (sync_table s c))"
    "set (children_list (sync_table s c)) - {i} \<subseteq> set (children_list (sync_table t c))"
  using assms by (simp_all add: shrink_def shrink_row_def)

lemma shrink_fold: "(\<And>c s. shrink i s (f c s)) \<Longrightarrow> shrink i s (fold f cs s)"
proof (induction cs arbitrary: s)
  case Nil
  then show ?case by (simp add: shrink_refl)
next
  case (Cons c cs)
  have "shrink i s (f c s)" "shrink i (f c s) (fold f cs (f c s))" using Cons by auto
  then show ?case using shrink_trans by auto
qed

lemma shrink_steps:
  "shrink i s (unlink_parent i c s)"
  "shrink i s (unlink_child_of i c s)"
  "shrink i s (unlink_parent_of i c s)"
  by (auto simp: shrink_def shrink_row_def unlink_parent_def unlink_child_of_def unlink_parent_of_def
      cam_sync_util_cleanup_parents_list_def cam_sync_util_cleanup_children_list_def clean_list_def
      dest: in_set_remove1 set_remove1_subset [THEN subsetD])

lemma unlink_child_of_mem:
  assumes "distinct (parents_list (sync_table s c))" "state (sync_table s c) \<noteq> CAM_SYNC_STATE_INVALID"
  shows "i \<notin> set (parents_list (sync_table (unlink_child_of i c s) c))"
  using assms by (simp add: unlink_child_of_def cam_sync_util_cleanup_parents_list_def clean_list_def)

lemma unlink_parent_mem:
  assumes "distinct (parents_list (sync_table s c))"
  shows "i \<notin> set (parents_list (sync_table (unlink_parent i c s) c))"
  using assms by (simp add: unlink_parent_def cam_sync_util_cleanup_parents_list_def clean_list_def)

lemma fold_unlinks:
  assumes "c \<in> set cs" "\<And>d. distinct (parents_list (sync_table s d))"
    and sh: "\<And>c s. shrink i s (f c s)"
    and mem: "\<And>s. distinct (parents_list (sync_table s c)) \<Longrightarrow> P (state (sync_table s c)) \<Longrightarrow>
        i \<notin> set (parents_list (sync_table (f c s) c))"
    and P: "P (state (sync_table s c))"
  shows "i \<notin> set (parents_list (sync_table (fold f cs s) c))"
proof -
  obtain xs ys where cs: "cs = xs @ c # ys" using assms(1) by (meson split_list)
  let ?s = "fold f xs s"
  have 1: "shrink i s ?s" by (rule shrink_fold [OF sh])
  then have "distinct (parents_list (sync_table ?s c))" "P (state (sync_table ?s c))"
    using assms(2) P by (simp_all add: shrinkD)
  then have "i \<notin> set (parents_list (sync_table (f c ?s) c))" by (rule mem)
  moreover have "shrink i (f c ?s) (fold f ys (f c ?s))" by (rule shrink_fold [OF sh])
  from shrinkD(6) [OF this, of c] calculation show ?thesis by (auto simp: cs)
qed

subsection \<open>Destroying an object\<close>

lemma deinit_inv [cam_inv]:
  assumes inv: "sync_inv s"
  shows "sync_inv (fst (cam_sync_deinit_object s i))"
proof (cases "i = 0 \<or> CAM_SYNC_MAX_OBJS \<le> i \<or> state (sync_table s i) = CAM_SYNC_STATE_INVALID")
  case True
  then show ?thesis using inv by (auto simp: cam_sync_deinit_object_def)
next
  case False
  let ?row = "sync_table s i"
  define s1 where "s1 = upd_row i (\<lambda>r. r\<lparr>state := CAM_SYNC_STATE_INVALID,
      children_list := filter (\<lambda>c. \<not> 0 < c) (children_list r),
      parents_list := filter (\<lambda>p. \<not> 0 < p) (parents_list r)\<rparr>) s"
  define s2 where "s2 = fold (unlink_child_of i) (filter (\<lambda>c. 0 < c) (children_list ?row)) s1"
  define s3 where "s3 = fold (unlink_parent_of i) (filter (\<lambda>p. 0 < p) (parents_list ?row)) s2"
  define t where "t = set_bit_row i False (upd_row i (\<lambda>_. zero_row) s3)"
  have t: "fst (cam_sync_deinit_object s i) = t"
    using False by (simp add: cam_sync_deinit_object_def s1_def s2_def s3_def t_def Let_def)
  have 12: "shrink i s1 s2" unfolding s2_def by (rule shrink_fold) (rule shrink_steps)
  have 23: "shrink i s2 s3" unfolding s3_def by (rule shrink_fold) (rule shrink_steps)
  have sh: "shrink i s1 s3" by (rule shrink_trans [OF 12 23])
  have d1: "distinct (parents_list (sync_table s1 d))" for d
    using inv_distinct [OF inv] by (simp add: s1_def)
  have out: "i \<notin> set (parents_list (sync_table s3 c))" if c: "c \<noteq> i" for c
  proof (cases "i \<in> set (parents_list (sync_table s c))")
    case True
    then have "parents_list (sync_table s c) \<noteq> []" by auto
    with True have ch: "c \<in> set (filter (\<lambda>c. 0 < c) (children_list ?row))"
      "state (sync_table s c) \<noteq> CAM_SYNC_STATE_INVALID"
      using inv_parent [OF inv True] inv_children [OF inv, of c i] inv_has_parents [OF inv, of c]
      by (auto simp: live_group_def)
    then have "i \<notin> set (parents_list (sync_table s2 c))"
      unfolding s2_def using c
      by (intro fold_unlinks [where P = "\<lambda>x. x \<noteq> CAM_SYNC_STATE_INVALID"] d1 shrink_steps
          unlink_child_of_mem) (auto simp: s1_def)
    then show ?thesis using shrinkD(6) [OF 23, of c] by auto
  next
    case False
    then have "i \<notin> set (parents_list (sync_table s1 c))" using c by (simp add: s1_def)
    then show ?thesis using shrinkD(6) [OF sh, of c] by auto
  qed
  have same: "row_type (sync_table t c) = row_type (sync_table s c) \<and>
      state (sync_table t c) = state (sync_table s c) \<and>
      remaining (sync_table t c) = remaining (sync_table s c)" if "c \<noteq> i" for c
    using that by (simp add: t_def shrinkD [OF sh] s1_def)
  have par: "distinct (parents_list (sync_table t c)) \<and>
      set (parents_list (sync_table t c)) = set (parents_list (sync_table s c)) - {i}" if "c \<noteq> i" for c
    using that shrinkD(5-7) [OF sh, of c] d1 [of c] out [of c] by (auto simp: t_def s1_def)
  have chl: "set (children_list (sync_table t c)) \<subseteq> set (children_list (sync_table s c)) \<and>
      set (children_list (sync_table s c)) - {i} \<subseteq> set (children_list (sync_table t c))" if "c \<noteq> i" for c
    using that shrinkD(8,9) [OF sh, of c] by (auto simp: t_def s1_def)
  have bits: "bitmap t = (bitmap s)(i := False)" by (simp add: t_def shrinkD [OF sh] s1_def)
  show ?thesis unfolding t
    using False by (intro inv_kill [OF inv _ _ bits _ _ _ same par chl]) (auto simp: t_def)
qed

lemma destroy_inv [cam_inv]: "sync_inv s \<Longrightarrow> sync_inv (fst (cam_sync_destroy s obj))"
  by (simp add: cam_sync_destroy_def deinit_inv)

subsection \<open>Merging\<close>

text \<open>
  What the loop of \<^verbatim>\<open>cam_sync_init_group_object\<close> keeps: the invariant, with \<open>i\<close> a live group
  whose linked children are among those visited, and a count too small to wrap.
\<close>

lemma link_inv:
  assumes inv: "sync_inv s" and g: "live_group s i" and c: "0 < c" "c < CAM_SYNC_MAX_OBJS" "c \<noteq> i"
    and act: "row_type (sync_table s c) \<noteq> CAM_SYNC_TYPE_GROUP" "state (sync_table s c) = CAM_SYNC_STATE_ACTIVE"
    and new: "c \<notin> linked s i" and small: "unat (remaining (sync_table s i)) < 2 ^ 32 - 1"
    and t: "t = upd_row i (\<lambda>r. r\<lparr>client_id := cl, remaining := remaining r + 1\<rparr>) s"
    and u: "u = upd_row i (\<lambda>r. r\<lparr>children_list := children_list r @ [c]\<rparr>) t"
    and v: "v = upd_row c (\<lambda>r. r\<lparr>parents_list := parents_list r @ [i]\<rparr>) u"
  shows "sync_inv t" "sync_inv u" "sync_inv v"
proof -
  have rem: "unat (remaining (sync_table s i) + 1) = Suc (unat (remaining (sync_table s i)))"
    using small by (simp add: unat_word_ariths)
  have ip: "parents_list (sync_table s i) = []"
    using g inv_has_parents [OF inv, of i] by (auto simp: live_group_def)
  have lkt: "linked t p = linked s p" "linked u p = linked s p"
    and lkv: "linked v p = (if p = i then insert c (linked s p) else linked s p)" for p
    using c by (auto simp: t u v linked_def)
  have lg: "live_group t p = live_group s p" "live_group u p = live_group s p"
    "live_group v p = live_group s p" for p
    using c by (auto simp: t u v live_group_def)
  have parv: "live_group v p \<and> d \<in> set (children_list (sync_table v p))"
    if "p \<in> set (parents_list (sync_table v d))" for p d
    using that inv_parent [OF inv, of p d] g c by (auto simp: lg) (auto simp: t u v split: if_splits)
  have "card (insert c (linked s i)) = Suc (card (linked s i))"
    using finite_linked [OF inv] new by simp
  then have cardv: "card (linked v p) \<le> unat (remaining (sync_table v p))" for p
    using inv_remaining [OF inv, of p] rem c by (auto simp: lkv) (auto simp: t u v)
  have in_i: "i < CAM_SYNC_MAX_OBJS" using g by (simp add: live_group_def)
  have iv: "i \<notin> set (parents_list (sync_table s c))" using new by (simp add: linked_def)
  have ct: "card (linked s p) \<le> unat (remaining (sync_table t p))"
    "card (linked s p) \<le> unat (remaining (sync_table u p))" for p
    using inv_remaining [OF inv, of p] rem by (auto simp: t u)
  note parts = inv_bit0 [OF inv] inv_outside [OF inv] inv_bitmap [OF inv] inv_state [OF inv, simplified]
    inv_parent [OF inv] inv_distinct [OF inv] inv_has_parents [OF inv] inv_children [OF inv]
  show "sync_inv t"
    by (rule sync_inv_pendI; (unfold lkt lg)?)
      (use parts ct in_i in \<open>auto simp: t core_def split: if_splits\<close>)
  show "sync_inv u"
    by (rule sync_inv_pendI; (unfold lkt lg)?)
      (use parts ct in_i c in \<open>auto simp: t u core_def split: if_splits\<close>)
  show "sync_inv v"
    by (rule sync_inv_pendI; (rule parv)?)
      (use parts cardv in_i c act iv ip in \<open>auto simp: t u v core_def split: if_splits\<close>)
qed

text \<open>An error of an already signaled child marks the new group.\<close>

lemma mark_error_inv:
  assumes "sync_inv s" "live_group s i"
  shows "sync_inv (upd_row i (\<lambda>r. r\<lparr>state := CAM_SYNC_STATE_SIGNALED_ERROR\<rparr>) s)" (is "sync_inv ?t")
proof -
  have ip: "parents_list (sync_table s i) = []"
    using assms inv_has_parents [OF assms(1), of i] by (auto simp: live_group_def)
  have "linked ?t p = linked s p" "live_group ?t p = live_group s p" for p
    using assms(2) by (auto simp: linked_def live_group_def)
  then show ?thesis
    using assms ip unfolding sync_inv_pend_def by (auto simp: live_group_def core_def)
qed

lemma init_group_loop_inv:
  assumes "sync_inv s" "live_group s i" "linked s i \<subseteq> set (take n objs)" "drop n objs = cs"
    "unat (remaining (sync_table s i)) + length cs < 2 ^ 32"
    "init_group_loop ac ap i n cs s = (t, res)"
    and objs: "distinct objs" "i \<notin> set objs" "\<forall>c \<in> set objs. 0 < c \<and> c < CAM_SYNC_MAX_OBJS"
  shows "sync_inv t \<and> live_group t i \<and> bitmap t = bitmap s \<and>
    linked t i \<subseteq> set (case res of None \<Rightarrow> objs | Some (e, k) \<Rightarrow> take k objs)"
  using assms(1-6)
proof (induction cs arbitrary: s n)
  case Nil
  then show ?case using set_take_subset by fastforce
next
  case (Cons c cs)
  let ?r = "sync_table s c"
  let ?t1 = "upd_row i (\<lambda>r. r\<lparr>client_id := client_id ?r, remaining := remaining r + 1\<rparr>) s"
  let ?t2 = "upd_row i (\<lambda>r. r\<lparr>children_list := children_list r @ [c]\<rparr>) ?t1"
  let ?t3 = "upd_row c (\<lambda>r. r\<lparr>parents_list := parents_list r @ [i]\<rparr>) ?t2"
  let ?e = "upd_row i (\<lambda>r. r\<lparr>state := CAM_SYNC_STATE_SIGNALED_ERROR\<rparr>) s"
  have n: "n < length objs" "objs ! n = c" "drop (Suc n) objs = cs"
    using Cons.prems(4) by (rule_tac [1] ccontr, auto simp: nth_via_drop)
      (metis drop_Suc tl_drop list.sel(3))
  then have tk: "set (take (Suc n) objs) = insert c (set (take n objs))"
    by (simp add: take_Suc_conv_app_nth)
  have ci: "c \<noteq> i" "0 < c" "c < CAM_SYNC_MAX_OBJS" "c \<notin> linked s i"
  proof -
    have "objs = take n objs @ c # cs" using n id_take_nth_drop [of n objs] by simp
    then have "c \<in> set objs" "c \<notin> set (take n objs)"
      using objs(1) by (metis in_set_conv_decomp, metis distinct_append disjoint_insert(1) list.simps(15))
    then show "c \<noteq> i" "0 < c" "c < CAM_SYNC_MAX_OBJS" "c \<notin> linked s i" using objs Cons.prems(3) by auto
  qed
  consider (bad) "row_type ?r = CAM_SYNC_TYPE_GROUP \<or> state ?r = CAM_SYNC_STATE_INVALID"
    | (err) "row_type ?r \<noteq> CAM_SYNC_TYPE_GROUP" "state ?r = CAM_SYNC_STATE_SIGNALED_ERROR"
    | (skip) "row_type ?r \<noteq> CAM_SYNC_TYPE_GROUP" "state ?r = CAM_SYNC_STATE_SIGNALED_SUCCESS"
    | (act) "row_type ?r \<noteq> CAM_SYNC_TYPE_GROUP" "state ?r = CAM_SYNC_STATE_ACTIVE"
    using inv_state [OF Cons.prems(1), of c] by auto
  then show ?case
  proof cases
    case bad
    then show ?thesis using Cons.prems by auto
  next
    case err
    have "live_group ?e i" "linked ?e i \<subseteq> set (take (Suc n) objs)"
      using Cons.prems(2,3) tk by (auto simp: live_group_def linked_def)
    from Cons.IH [OF mark_error_inv [OF Cons.prems(1,2)] this n(3)] show ?thesis
      using Cons.prems(5,6) err by simp
  next
    case skip
    have "linked s i \<subseteq> set (take (Suc n) objs)" using Cons.prems(3) tk by auto
    from Cons.IH [OF Cons.prems(1,2) this n(3)] show ?thesis
      using Cons.prems(5,6) skip by simp
  next
    case act
    have wrap: "unat (remaining (sync_table s i)) < 2 ^ 32 - 1" using Cons.prems(5) by simp
    have lk: "linked ?t1 i \<subseteq> set (take n objs)" "linked ?t2 i \<subseteq> set (take n objs)"
      "linked ?t3 i \<subseteq> set (take (Suc n) objs)"
      using ci Cons.prems(3) tk by (auto simp: linked_def split: if_splits)
    have lg: "live_group ?t1 i" "live_group ?t2 i" "live_group ?t3 i"
      using Cons.prems(2) ci by (auto simp: live_group_def)
    have rem: "unat (remaining (sync_table ?t3 i)) + length cs < 2 ^ 32"
      using wrap ci Cons.prems(5) by (simp add: unat_word_ariths)
    note link = link_inv [OF Cons.prems(1,2) ci(2,3,1) act ci(4) wrap refl refl refl]
    show ?thesis
    proof (cases "ac n \<and> ap n")
      case True
      from Cons.IH [OF link(3) lg(3) lk(3) n(3) rem] show ?thesis
        using Cons.prems(6) act True ci(1) by simp
    next
      case False
      then show ?thesis
        using Cons.prems(6) act link(1,2) lg(1,2) lk(1,2) by (auto simp: Let_def split: if_splits)
    qed
  qed
qed

lemma clean_children_info_inv:
  assumes inv: "sync_inv s" and g: "live_group s i" and lk: "linked s i \<subseteq> set visited"
    and i: "i \<notin> set visited"
  shows "sync_inv (set_bit_row i False (clean_children_info i visited s))"
proof -
  define t where "t = set_bit_row i False (clean_children_info i visited s)"
  define s1 where "s1 = upd_row i (\<lambda>r. r\<lparr>state := CAM_SYNC_STATE_INVALID\<rparr>) s"
  define s2 where "s2 = fold (unlink_parent i) (rev visited) s1"
  have sh: "shrink i s1 s2" unfolding s2_def by (rule shrink_fold) (rule shrink_steps)
  have ip: "parents_list (sync_table s i) = []"
    using g inv_has_parents [OF inv, of i] by (auto simp: live_group_def)
  have t: "t = set_bit_row i False
      (upd_row i (\<lambda>r. cam_sync_util_cleanup_children_list r SYNC_LIST_CLEAN_ALL 0) s2)"
    by (simp add: t_def clean_children_info_def s1_def s2_def Let_def)
  have row: "sync_table t c = (if c = i then (sync_table s2 i)\<lparr>children_list := []\<rparr> else sync_table s2 c)" for c
    by (simp add: t cam_sync_util_cleanup_children_list_def clean_list_def)
  have d1: "distinct (parents_list (sync_table s1 d))" for d
    using inv_distinct [OF inv] by (simp add: s1_def)
  have out: "i \<notin> set (parents_list (sync_table s2 c))" if "c \<noteq> i" for c
  proof (cases "c \<in> set visited")
    case True
    then show ?thesis unfolding s2_def
      by (intro fold_unlinks [where P = "\<lambda>_. True"] d1 shrink_steps unlink_parent_mem) auto
  next
    case False
    then have "i \<notin> set (parents_list (sync_table s1 c))" using lk that by (auto simp: linked_def s1_def)
    then show ?thesis using shrinkD(6) [OF sh, of c] by auto
  qed
  have same: "row_type (sync_table t c) = row_type (sync_table s c) \<and>
      state (sync_table t c) = state (sync_table s c) \<and>
      remaining (sync_table t c) = remaining (sync_table s c)" if "c \<noteq> i" for c
    using that by (simp add: row shrinkD [OF sh] s1_def)
  have par: "distinct (parents_list (sync_table t c)) \<and>
      set (parents_list (sync_table t c)) = set (parents_list (sync_table s c)) - {i}" if "c \<noteq> i" for c
    using that shrinkD(5-7) [OF sh, of c] d1 [of c] out [of c] by (auto simp: row s1_def)
  have chl: "set (children_list (sync_table t c)) \<subseteq> set (children_list (sync_table s c)) \<and>
      set (children_list (sync_table s c)) - {i} \<subseteq> set (children_list (sync_table t c))" if "c \<noteq> i" for c
    using that shrinkD(8,9) [OF sh, of c] by (auto simp: row s1_def)
  have bits: "bitmap t = (bitmap s)(i := False)" by (simp add: t shrinkD [OF sh] s1_def)
  have dead: "state (sync_table t i) = CAM_SYNC_STATE_INVALID" "parents_list (sync_table t i) = []"
    "children_list (sync_table t i) = []"
    using shrinkD(3,6) [OF sh, of i] ip by (simp_all add: row s1_def)
  show ?thesis unfolding t_def [symmetric]
    using g by (intro inv_kill [OF inv _ _ bits dead same par chl]) (auto simp: live_group_def)
qed

lemma complete_group_inv:
  assumes "sync_inv s" "live_group s i"
  shows "sync_inv (upd_row i (\<lambda>r. r\<lparr>state := (if state r \<noteq> CAM_SYNC_STATE_SIGNALED_ERROR
      then CAM_SYNC_STATE_SIGNALED_SUCCESS else state r), signaled := True\<rparr>) s)" (is "sync_inv ?t")
proof -
  have ip: "parents_list (sync_table s i) = []"
    using assms inv_has_parents [OF assms(1), of i] by (auto simp: live_group_def)
  have "linked ?t p = linked s p" "live_group ?t p = live_group s p" for p
    using assms(2) by (auto simp: linked_def live_group_def)
  then show ?thesis
    using assms ip unfolding sync_inv_pend_def by (auto simp: live_group_def core_def)
qed

text \<open>The whole of \<^verbatim>\<open>cam_sync_init_group_object\<close> on a claimed row, with the caller's clean-up.\<close>

lemma init_group_object_inv:
  assumes inv: "sync_inv s" and fresh: "\<not> bitmap s i" "i < CAM_SYNC_MAX_OBJS"
    and objs: "distinct objs" "\<forall>c \<in> set objs. 0 < c \<and> c < CAM_SYNC_MAX_OBJS \<and> bitmap s c"
    and run: "cam_sync_init_group_object ac ap (set_bit_row i True s) i objs = (t, r)"
  shows "sync_inv (case r of Inl _ \<Rightarrow> set_bit_row i False t | Inr _ \<Rightarrow> t)"
proof -
  have pos: "0 < i" using fresh inv_bit0 [OF inv] by (cases i) auto
  obtain row where row: "cam_sync_init_row (set_bit_row i True s) i (Some ''merged_fence'') CAM_SYNC_TYPE_GROUP 0
      = (upd_row i (\<lambda>_. row) (set_bit_row i True s), Ok ())"
    "row_type row = CAM_SYNC_TYPE_GROUP" "state row = CAM_SYNC_STATE_ACTIVE" "parents_list row = []"
    "children_list row = []" "remaining row = 0"
    using init_row_eq [OF pos fresh(2), of "set_bit_row i True s" "Some ''merged_fence''"] by metis
  let ?s0 = "upd_row i (\<lambda>_. row) (set_bit_row i True s)"
  have inv0: "sync_inv ?s0" by (rule inv_claim_init [OF inv fresh row(2-5)])
  have g0: "live_group ?s0 i" using pos fresh row by (simp add: live_group_def)
  have "state (sync_table s i) = CAM_SYNC_STATE_INVALID" using inv_bitmap [OF inv pos fresh(2)] fresh by simp
  then have lk0: "linked ?s0 i = {}"
    using fresh_linked_empty [OF inv] row(4) by (auto simp: linked_def)
  have ni: "i \<notin> set objs" using objs fresh by auto
  have "set objs \<subseteq> {..<CAM_SYNC_MAX_OBJS}" using objs(2) by auto
  then have "card (set objs) \<le> CAM_SYNC_MAX_OBJS" using card_mono [of "{..<CAM_SYNC_MAX_OBJS}" "set objs"] by simp
  then have len: "length objs \<le> CAM_SYNC_MAX_OBJS" using distinct_card [OF objs(1)] by simp
  obtain s1 res where loop: "init_group_loop ac ap i 0 objs ?s0 = (s1, res)" by force
  have L: "sync_inv s1 \<and> live_group s1 i \<and> bitmap s1 = bitmap ?s0 \<and>
      linked s1 i \<subseteq> set (case res of None \<Rightarrow> objs | Some (e, k) \<Rightarrow> take k objs)"
    using objs len row by (intro init_group_loop_inv [OF inv0 g0 _ _ _ loop objs(1) ni]) (auto simp: lk0)
  show ?thesis
  proof (cases res)
    case None
    then have "r = Ok ()" "t = s1 \<or> t = upd_row i (\<lambda>r. r\<lparr>state := (if state r \<noteq> CAM_SYNC_STATE_SIGNALED_ERROR
        then CAM_SYNC_STATE_SIGNALED_SUCCESS else state r), signaled := True\<rparr>) s1"
      using run loop row(1) by (auto simp: cam_sync_init_group_object_def Let_def split: if_splits)
    then show ?thesis using L complete_group_inv [of s1 i] by auto
  next
    case (Some ek)
    obtain e k where ek: "ek = (e, k)" by force
    have "r = Err e" "t = clean_children_info i (take k objs) s1"
      using run loop row(1) Some ek by (auto simp: cam_sync_init_group_object_def Let_def)
    moreover have "i \<notin> set (take k objs)" using ni set_take_subset by fastforce
    ultimately show ?thesis using L Some ek clean_children_info_inv [of s1 i "take k objs"] by simp
  qed
qed

lemma check_valid_all_Ok:
  "check_valid_all s objs = Ok () \<longleftrightarrow> (\<forall>obj \<in> set objs. in_range obj \<and> bitmap s (nat obj) \<and>
     state (sync_table s (nat obj)) \<noteq> CAM_SYNC_STATE_INVALID)"
  by (induction objs) (auto simp: cam_sync_check_valid_def split: sum.splits)

lemma merge_inv [cam_inv]:
  assumes inv: "sync_inv s" and len: "case arr of None \<Rightarrow> True | Some a \<Rightarrow> num \<le> length a"
  shows "sync_inv (fst (cam_sync_merge ac ap s arr num))"
proof (cases "\<exists>a n b t i. arr = Some a \<and> 1 < num \<and>
    cam_common_util_remove_duplicate_arr (Some a) num = (num, b) \<and>
    check_valid_all s (take num b) = Ok () \<and> claim_bit s = Some (t, i)")
  case False
  then have "fst (cam_sync_merge ac ap s arr num) = s"
    by (auto simp: cam_sync_merge_def split: option.splits sum.splits prod.splits if_splits)
  with inv show ?thesis by simp
next
  case True
  then obtain a b t i where h: "arr = Some a" "1 < num"
    "cam_common_util_remove_duplicate_arr (Some a) num = (num, b)"
    "check_valid_all s (take num b) = Ok ()" "claim_bit s = Some (t, i)" by auto
  note c = claim_bit_Some [OF h(5)]
  have la: "1 \<le> num" "num \<le> length a" using len h(1,2) by auto
  note dup = remove_duplicate_arr_spec [OF la h(3)]
  let ?objs = "map nat (take num b)"
  have valid: "in_range x \<and> bitmap s (nat x)" if "x \<in> set (take num b)" for x
    using h(4) that by (auto simp: check_valid_all_Ok)
  have "distinct (take num b)" using dup(4,5) by simp
  moreover have "inj_on nat (set (take num b))"
    using valid by (intro inj_onI) (metis in_range_iff less_imp_le nat_0_le)
  ultimately have dist: "distinct ?objs" by (simp add: distinct_map)
  have ok: "\<forall>c \<in> set ?objs. 0 < c \<and> c < CAM_SYNC_MAX_OBJS \<and> bitmap s c"
    using valid by (fastforce simp: in_range_iff nat_less_iff)
  obtain u r where run: "cam_sync_init_group_object ac ap t i ?objs = (u, r)" by force
  have "fst (cam_sync_merge ac ap s arr num) = (case r of Inl _ \<Rightarrow> set_bit_row i False u | Inr _ \<Rightarrow> u)"
    using h run by (auto simp: cam_sync_merge_def split: sum.splits)
  then show ?thesis
    using init_group_object_inv [OF inv c(2,1) dist ok] run c(3) by simp
qed

subsection \<open>Resetting\<close>

lemma reset_inv [cam_inv]:
  assumes inv: "sync_inv s" and ind: "row_type (sync_table s (nat obj)) \<noteq> CAM_SYNC_TYPE_GROUP"
  shows "sync_inv (fst (cam_sync_reset s obj))"
proof (cases "in_range obj \<and> state (sync_table s (nat obj)) \<noteq> CAM_SYNC_STATE_INVALID")
  case False
  then show ?thesis using inv by (auto simp: cam_sync_reset_def)
next
  case True
  let ?i = "nat obj"
  let ?t = "fst (cam_sync_reset s obj)"
  have row: "sync_table ?t c = (if c = ?i then (sync_table s ?i)\<lparr>state := CAM_SYNC_STATE_ACTIVE,
      remaining := 0, ref_cnt := 0, signaled := False, callback_list := [], parents_list := [],
      children_list := [], user_payload_list := []\<rparr> else sync_table s c)" "bitmap ?t = bitmap s" for c
    using True by (auto simp: cam_sync_reset_def)
  have nop: "linked s ?i = {}" using ind inv_linked_live [OF inv] by (auto simp: live_group_def)
  have lg: "live_group ?t p = live_group s p" for p using ind by (auto simp: live_group_def row)
  have lk: "linked ?t p = linked s p - {?i}" for p by (auto simp: linked_def row split: if_splits)
  have card: "card (linked ?t p) \<le> unat (remaining (sync_table ?t p))" for p
  proof (cases "p = ?i")
    case True
    then show ?thesis by (simp add: lk nop)
  next
    case False
    have "card (linked s p - {?i}) \<le> card (linked s p)"
      using finite_linked [OF inv] by (intro card_mono) auto
    then show ?thesis using False inv_remaining [OF inv, of p] by (simp add: lk row)
  qed
  have pos: "0 < ?i" "?i < CAM_SYNC_MAX_OBJS" using True by (auto simp: in_range_iff)
  have par: "live_group ?t p \<and> c \<in> set (children_list (sync_table ?t p))"
    if "p \<in> set (parents_list (sync_table ?t c))" for p c
    using that inv_parent [OF inv, of p c] ind by (auto simp: lg) (auto simp: row live_group_def split: if_splits)
  note parts = inv_bit0 [OF inv] inv_outside [OF inv] inv_bitmap [OF inv] inv_state [OF inv, simplified]
    inv_distinct [OF inv] inv_has_parents [OF inv] inv_children [OF inv]
  show ?thesis
    by (rule sync_inv_pendI; (rule par)?)
      (use parts card pos ind True in \<open>auto simp: row split: if_splits\<close>)
qed

subsection \<open>Opening and closing\<close>

lemma close_loops_inv:
  assumes "sync_inv s"
  shows "sync_inv (fst (fold close_signal xs (s, rc)))" "sync_inv (fst (fold close_destroy xs (s, rc)))"
proof -
  have step: "sync_inv (fst (close_signal i p))" "sync_inv (fst (close_destroy i p))"
    if "sync_inv (fst p)" for i p
    using that signal_inv [of "fst p"] destroy_inv [of "fst p"]
    by (auto simp: close_signal_def close_destroy_def split: prod.splits)
  show "sync_inv (fst (fold close_signal xs (s, rc)))" "sync_inv (fst (fold close_destroy xs (s, rc)))"
    using assms
    by (simp_all add: step fold_invariant [where Q = "\<lambda>_. True" and P = "\<lambda>p. sync_inv (fst p)"])
qed

lemma open_inv [cam_inv]: "sync_inv s \<Longrightarrow> cam_sync_open e (Some s) = (Some t, r) \<Longrightarrow> sync_inv t"
  by (auto simp: cam_sync_open_def Let_def same_core_def sync_inv_pend_def linked_def live_group_def
      split: option.splits if_splits)

lemma close_inv [cam_inv]:
  assumes inv: "sync_inv s" and run: "cam_sync_close (Some s) = (Some t, r)"
  shows "sync_inv t"
proof -
  let ?s0 = "s\<lparr>err_cnt := 0, open_cnt := open_cnt s - 1\<rparr>"
  have 0: "sync_inv ?s0"
    using inv same_core_inv [of s ?s0] by (simp add: same_core_def)
  obtain s1 rc1 where 1: "fold close_signal [1..<CAM_SYNC_MAX_OBJS] (?s0, Ok ()) = (s1, rc1)" by force
  then have i1: "sync_inv s1" using close_loops_inv(1) [OF 0] by (metis fst_conv)
  have i2: "sync_inv (flush_workqueue s1)" using same_core_inv [OF flush_same_core] i1 by simp
  obtain s3 rc3 where 3: "fold close_destroy [1..<CAM_SYNC_MAX_OBJS] (flush_workqueue s1, rc1) = (s3, rc3)" by force
  then have i3: "sync_inv s3" using close_loops_inv(2) [OF i2] by (metis fst_conv)
  have i4: "sync_inv (s3\<lparr>cam_sync_eventq := False\<rparr>)"
    using i3 same_core_inv [of s3 "s3\<lparr>cam_sync_eventq := False\<rparr>"] by (simp add: same_core_def)
  show ?thesis using run 0 i4 1 3
    by (auto simp: cam_sync_close_def Let_def simp del: upt_rec_numeral split: if_splits)
qed

end
