(* ===== verification/Cam_Sync_Table.thy ===== *)
theory Cam_Sync_Table
  imports Cam_Sync_Links
begin

text \<open>
  What every call keeps of the fence table, the reset of a merged fence included. Such a reset empties the list of the
  children of a group while the children still name it as their parent, so the links and the count of \<open>sync_inv\<close> are
  lost; the agreement of bitmap and rows, the range of the states and the range of the links stay.
\<close>

definition row_fine :: "sync_table_row \<Rightarrow> bool" where
  "row_fine r \<longleftrightarrow> state r \<in> {CAM_SYNC_STATE_INVALID, CAM_SYNC_STATE_ACTIVE, CAM_SYNC_STATE_SIGNALED_SUCCESS, CAM_SYNC_STATE_SIGNALED_ERROR} \<and>
     (\<forall>x \<in> set (parents_list r) \<union> set (children_list r). 0 < x \<and> x < CAM_SYNC_MAX_OBJS)"

text \<open>\<open>table_but X\<close>: the rows of \<open>X\<close> are being set up or taken down.\<close>

definition table_but :: "nat set \<Rightarrow> sync_device \<Rightarrow> bool" where
  "table_but X s \<longleftrightarrow>
     (bitmap s 0 \<and> state (sync_table s 0) = CAM_SYNC_STATE_INVALID) \<and>
     (\<forall>i\<ge>CAM_SYNC_MAX_OBJS. core (sync_table s i) = core zero_row) \<and>
     (\<forall>i. 0 < i \<and> i < CAM_SYNC_MAX_OBJS \<and> i \<notin> X \<longrightarrow> bitmap s i = (state (sync_table s i) \<noteq> CAM_SYNC_STATE_INVALID)) \<and>
     (\<forall>i. row_fine (sync_table s i))"

abbreviation table_inv :: "sync_device \<Rightarrow> bool" where
  "table_inv s \<equiv> table_but {} s"

subsection \<open>Changes of one row\<close>

lemma table_same_core:
  assumes "same_core s t"
  shows "table_but X t = table_but X s"
proof -
  note f = same_core_fields [OF assms]
  have "row_fine (sync_table t i) = row_fine (sync_table s i)" for i by (simp add: row_fine_def f)
  moreover have "core (sync_table t i) = core (sync_table s i)" for i using assms by (simp add: same_core_def)
  ultimately show ?thesis by (simp add: table_but_def f)
qed

lemma table_upd:
  assumes "table_but X s" "0 < i" "i < CAM_SYNC_MAX_OBJS" "row_fine (f (sync_table s i))"
    "i \<notin> X \<Longrightarrow> state (f (sync_table s i)) = CAM_SYNC_STATE_INVALID \<longleftrightarrow> state (sync_table s i) = CAM_SYNC_STATE_INVALID"
  shows "table_but X (upd_row i f s)"
  using assms by (auto simp: table_but_def)

lemma table_hold: "table_but X s \<Longrightarrow> X \<subseteq> Y \<Longrightarrow> table_but Y s"
  by (auto simp: table_but_def)

lemma table_claim:
  assumes "table_inv s" "0 < i" "i < CAM_SYNC_MAX_OBJS" "row_fine r" "state r \<noteq> CAM_SYNC_STATE_INVALID"
  shows "table_inv (upd_row i (\<lambda>_. r) (set_bit_row i True s))"
  using assms by (auto simp: table_but_def)

lemma table_release:
  assumes "table_but {i} s" "0 < i" "state (sync_table s i) = CAM_SYNC_STATE_INVALID"
  shows "table_inv (set_bit_row i False s)"
  using assms by (auto simp: table_but_def)

lemma table_shrink:
  assumes "table_but X s" "shrink i s t"
  shows "table_but X t"
proof -
  note sh = shrinkD [OF assms(2)]
  have "row_fine (sync_table t c)" for c
  proof -
    have "row_fine (sync_table s c)" using assms(1) by (simp add: table_but_def)
    moreover have "set (parents_list (sync_table t c)) \<union> set (children_list (sync_table t c)) \<subseteq>
        set (parents_list (sync_table s c)) \<union> set (children_list (sync_table s c))" using sh(6,8) [of c] by blast
    ultimately show ?thesis unfolding row_fine_def sh(3) by blast
  qed
  moreover have "core (sync_table t c) = core zero_row" if "CAM_SYNC_MAX_OBJS \<le> c" for c
  proof -
    have "core (sync_table s c) = core zero_row" using assms(1) that by (simp add: table_but_def)
    then show ?thesis using sh(2,3,4,6,8) [of c] by (simp add: core_def)
  qed
  ultimately show ?thesis using assms(1) by (simp add: table_but_def sh(1,3))
qed

lemma table_range:
  assumes "table_but X s" "x \<in> set (parents_list (sync_table s i)) \<or> x \<in> set (children_list (sync_table s i))"
  shows "0 < x \<and> x < CAM_SYNC_MAX_OBJS"
  using assms by (auto simp: table_but_def row_fine_def)

lemma table_fine: "table_but X s \<Longrightarrow> row_fine (sync_table s i)"
  by (simp add: table_but_def)

subsection \<open>The operations\<close>

lemma table_create: "table_inv s \<Longrightarrow> table_inv (fst (cam_sync_create s n cl))"
proof (cases "claim_bit s")
  case (Some p)
  assume inv: "table_inv s"
  obtain t i where p: "p = (t, i)" by force
  note c = claim_bit_Some [OF Some [unfolded p]]
  have i: "0 < i" using c(2) inv by (cases i) (auto simp: table_but_def)
  obtain r where r: "cam_sync_init_row t i n CAM_SYNC_TYPE_INDV cl = (upd_row i (\<lambda>_. r) t, Ok ())"
    "state r = CAM_SYNC_STATE_ACTIVE" "parents_list r = []" "children_list r = []"
    using init_row_eq [OF i c(1), of t n CAM_SYNC_TYPE_INDV cl] by auto
  have "table_inv (upd_row i (\<lambda>_. r) (set_bit_row i True s))" by (rule table_claim [OF inv i c(1)]) (use r in \<open>simp_all add: row_fine_def\<close>)
  then show ?thesis using Some p c r by (simp add: cam_sync_create_def)
qed (simp add: cam_sync_create_def table_but_def)

lemma table_signal_parent:
  assumes "table_inv s" "0 < p" "p < CAM_SYNC_MAX_OBJS" "st \<in> {CAM_SYNC_STATE_SIGNALED_SUCCESS, CAM_SYNC_STATE_SIGNALED_ERROR}"
  shows "table_inv (signal_parent st p s)"
proof -
  define s1 where "s1 = upd_row p (\<lambda>r. r\<lparr>remaining := remaining r - 1\<rparr>) s"
  obtain row rc where row: "cam_sync_util_update_parent_state (sync_table s1 p) st = (row, rc)" by fastforce
  have 1: "table_inv s1" unfolding s1_def
    by (rule table_upd [OF assms(1-3)]) (use table_fine [OF assms(1), of p] in \<open>simp_all add: row_fine_def\<close>)
  have r: "row_fine row" "state row = CAM_SYNC_STATE_INVALID \<longleftrightarrow> state (sync_table s1 p) = CAM_SYNC_STATE_INVALID"
    using row table_fine [OF 1, of p] assms(4) by (auto simp: cam_sync_util_update_parent_state_def row_fine_def split: if_splits)
  have 2: "table_inv (upd_row p (\<lambda>_. row) s1)" by (rule table_upd [OF 1 assms(2,3)]) (use r in simp_all)
  moreover have "table_inv (cam_sync_util_dispatch_signaled_cb p x (upd_row p (\<lambda>_. row) s1))" for x
    using 2 table_same_core [OF dispatch_same_core] by blast
  ultimately show ?thesis unfolding signal_parent_def s1_def [symmetric] Let_def row prod.case by simp
qed

lemma table_signal:
  assumes inv: "table_inv s"
  shows "table_inv (fst (cam_sync_signal s obj st))"
proof (cases "signal_locked s obj st")
  case (Pair t r)
  show ?thesis
  proof (cases r)
    case (Inl e)
    then show ?thesis using Pair signal_locked_Err [of s obj st t e] inv by (simp add: cam_sync_signal_def)
  next
    case (Inr ps)
    have "table_inv t \<and> (\<forall>p \<in> set ps. 0 < p \<and> p < CAM_SYNC_MAX_OBJS)" using Pair [unfolded Inr]
    proof (cases rule: signal_locked_Ok_cases)
      case counted
      then show ?thesis using inv table_same_core by simp
    next
      case (signaled i)
      let ?u = "upd_row i (\<lambda>r. r\<lparr>state := st, parents_list := []\<rparr>) s"
      have "table_inv ?u"
        by (rule table_upd [OF inv signaled(2,3)]) (use signaled table_fine [OF inv, of i] in \<open>auto simp: row_fine_def\<close>)
      then show ?thesis using table_same_core [OF signaled(9)] table_range [OF inv, of _ i] signaled(8) by simp
    qed
    moreover have "ps \<noteq> [] \<Longrightarrow> st \<in> {CAM_SYNC_STATE_SIGNALED_SUCCESS, CAM_SYNC_STATE_SIGNALED_ERROR}"
      using signal_locked_status [OF Pair [unfolded Inr]] .
    ultimately have "table_inv (fold (signal_parent st) ps t)"
      by (induction ps arbitrary: t) (simp_all add: table_signal_parent)
    then show ?thesis using Pair Inr by (simp add: cam_sync_signal_def)
  qed
qed

lemma table_destroy:
  assumes inv: "table_inv s"
  shows "table_inv (fst (cam_sync_destroy s obj))"
proof -
  define i where "i = nat (obj mod 2 ^ 32)"
  define s1 where "s1 = upd_row i (\<lambda>r. r\<lparr>state := CAM_SYNC_STATE_INVALID, children_list := filter (\<lambda>c. \<not> 0 < c) (children_list r),
      parents_list := filter (\<lambda>p. \<not> 0 < p) (parents_list r)\<rparr>) s"
  define s3 where "s3 = fold (unlink_parent_of i) (filter (\<lambda>p. 0 < p) (parents_list (sync_table s i)))
      (fold (unlink_child_of i) (filter (\<lambda>c. 0 < c) (children_list (sync_table s i))) s1)"
  have sh: "shrink i s1 s3" unfolding s3_def by (rule shrink_trans [OF shrink_fold shrink_fold]) (rule shrink_steps)+
  have "table_inv (set_bit_row i False (upd_row i (\<lambda>_. zero_row) s3))" if i: "0 < i" "i < CAM_SYNC_MAX_OBJS"
  proof -
    have "table_but {i} s1" unfolding s1_def
      by (rule table_upd [OF table_hold [OF inv] i]) (use table_fine [OF inv, of i] in \<open>auto simp: row_fine_def\<close>)
    then have "table_but {i} s3" by (rule table_shrink [OF _ sh])
    then have "table_but {i} (upd_row i (\<lambda>_. zero_row) s3)" by (rule table_upd [OF _ i]) (simp_all add: row_fine_def)
    then show ?thesis by (rule table_release) (use i in simp_all)
  qed
  moreover have "fst (cam_sync_destroy s obj) = s \<or> 0 < i \<and> i < CAM_SYNC_MAX_OBJS \<and>
      fst (cam_sync_destroy s obj) = set_bit_row i False (upd_row i (\<lambda>_. zero_row) s3)"
    unfolding s3_def s1_def i_def by (auto simp: cam_sync_destroy_def cam_sync_deinit_object_def Let_def)
  ultimately show ?thesis using inv by auto
qed

lemma table_reset:
  assumes inv: "table_inv s"
  shows "table_inv (fst (cam_sync_reset s obj))"
proof (cases "in_range obj \<and> state (sync_table s (nat obj)) \<noteq> CAM_SYNC_STATE_INVALID")
  case True
  then have i: "0 < nat obj" "nat obj < CAM_SYNC_MAX_OBJS" by (auto simp: in_range_iff)
  show ?thesis using True by (simp add: cam_sync_reset_def) (rule table_upd [OF inv i]; simp add: row_fine_def)
qed (use inv in \<open>auto simp: cam_sync_reset_def\<close>)

lemma table_group_loop:
  assumes "table_inv s" "bitmap s idx" "0 < idx" "idx < CAM_SYNC_MAX_OBJS" "\<forall>c \<in> set cs. 0 < c \<and> c < CAM_SYNC_MAX_OBJS"
  shows "table_inv (fst (init_group_loop ac ap idx i cs s))"
  using assms
proof (induction cs arbitrary: i s)
  case (Cons c cs)
  note inv = Cons.prems(1) and idx = Cons.prems(3,4)
  have c: "0 < c" "c < CAM_SYNC_MAX_OBJS" "\<forall>c \<in> set cs. 0 < c \<and> c < CAM_SYNC_MAX_OBJS" using Cons.prems(5) by simp_all
  have live: "state (sync_table s idx) \<noteq> CAM_SYNC_STATE_INVALID" using inv Cons.prems(2) idx by (simp add: table_but_def)
  have e: "table_inv (upd_row idx (\<lambda>r. r\<lparr>state := CAM_SYNC_STATE_SIGNALED_ERROR\<rparr>) s)"
    by (rule table_upd [OF inv idx]) (use live table_fine [OF inv, of idx] in \<open>auto simp: row_fine_def\<close>)
  define s1 where "s1 = upd_row idx (\<lambda>r. r\<lparr>client_id := client_id (sync_table s c), remaining := remaining r + 1\<rparr>) s"
  define s2 where "s2 = upd_row idx (\<lambda>r. r\<lparr>children_list := children_list r @ [c]\<rparr>) s1"
  define s3 where "s3 = upd_row c (\<lambda>r. r\<lparr>parents_list := parents_list r @ [idx]\<rparr>) s2"
  have i1: "table_inv s1" unfolding s1_def by (rule table_upd [OF inv idx]) (use table_fine [OF inv, of idx] in \<open>simp_all add: row_fine_def\<close>)
  have i2: "table_inv s2" unfolding s2_def by (rule table_upd [OF i1 idx]) (use c table_fine [OF i1, of idx] in \<open>auto simp: row_fine_def\<close>)
  have i3: "table_inv s3" unfolding s3_def by (rule table_upd [OF i2 c(1,2)]) (use idx table_fine [OF i2, of c] in \<open>auto simp: row_fine_def\<close>)
  have b: "bitmap s3 idx" using Cons.prems(2) by (simp add: s3_def s2_def s1_def)
  have "table_inv (fst (init_group_loop ac ap idx (Suc i) cs u))" if "u \<in> {s, s3, upd_row idx (\<lambda>r. r\<lparr>state := CAM_SYNC_STATE_SIGNALED_ERROR\<rparr>) s}" for u
    using that Cons.IH [OF inv _ idx c(3)] Cons.IH [OF e _ idx c(3)] Cons.IH [OF i3 b idx c(3)] Cons.prems(2) by auto
  then show ?case using inv i1 i2 by (simp add: Let_def s1_def [symmetric] s2_def [symmetric] s3_def [symmetric])
qed simp

lemma group_loop_bitmap: "bitmap (fst (init_group_loop ac ap idx i cs s)) = bitmap s"
  by (induction cs arbitrary: i s) (simp_all add: Let_def)

lemma table_group_object:
  assumes inv: "table_inv s" and i: "0 < i" "i < CAM_SYNC_MAX_OBJS" and cs: "\<forall>c \<in> set cs. 0 < c \<and> c < CAM_SYNC_MAX_OBJS"
    and run: "cam_sync_init_group_object ac ap (set_bit_row i True s) i cs = (t, r)"
  shows "case r of Inr _ \<Rightarrow> table_inv t | Inl _ \<Rightarrow> table_inv (set_bit_row i False t)"
proof -
  let ?s = "set_bit_row i True s"
  obtain row where row: "cam_sync_init_row ?s i (Some ''merged_fence'') CAM_SYNC_TYPE_GROUP 0 = (upd_row i (\<lambda>_. row) ?s, Ok ())"
    "state row = CAM_SYNC_STATE_ACTIVE" "parents_list row = []" "children_list row = []"
    using init_row_eq [OF i, of ?s "Some ''merged_fence''" CAM_SYNC_TYPE_GROUP 0] by auto
  have 0: "table_inv (upd_row i (\<lambda>_. row) ?s)" by (rule table_claim [OF inv i]) (use row in \<open>simp_all add: row_fine_def\<close>)
  obtain u e where l: "init_group_loop ac ap i 0 cs (upd_row i (\<lambda>_. row) ?s) = (u, e)" by fastforce
  have u: "table_inv u" "bitmap u i"
    using table_group_loop [OF 0 _ i cs, of ac ap 0] group_loop_bitmap [of ac ap i 0 cs "upd_row i (\<lambda>_. row) ?s"] l by simp_all
  have live: "state (sync_table u i) \<noteq> CAM_SYNC_STATE_INVALID" using u i by (simp add: table_but_def)
  show ?thesis
  proof (cases e)
    case None
    have "table_inv (upd_row i (\<lambda>r. r\<lparr>state := (if state r \<noteq> CAM_SYNC_STATE_SIGNALED_ERROR then CAM_SYNC_STATE_SIGNALED_SUCCESS else state r), signaled := True\<rparr>) u)"
      by (rule table_upd [OF u(1) i]) (use live table_fine [OF u(1), of i] in \<open>auto simp: row_fine_def\<close>)
    then show ?thesis using run row l None u(1) by (auto simp: cam_sync_init_group_object_def split: if_splits)
  next
    case (Some q)
    obtain x k where q: "q = (x, k)" by force
    define u1 where "u1 = upd_row i (\<lambda>r. r\<lparr>state := CAM_SYNC_STATE_INVALID\<rparr>) u"
    define u2 where "u2 = fold (unlink_parent i) (rev (take k cs)) u1"
    define u3 where "u3 = upd_row i (\<lambda>r. cam_sync_util_cleanup_children_list r SYNC_LIST_CLEAN_ALL 0) u2"
    have 1: "table_but {i} u1" unfolding u1_def
      by (rule table_upd [OF table_hold [OF u(1)] i]) (use table_fine [OF u(1), of i] in \<open>auto simp: row_fine_def\<close>)
    have sh: "shrink i u1 u2" unfolding u2_def by (rule shrink_fold) (rule shrink_steps)
    have 2: "table_but {i} u2" by (rule table_shrink [OF 1 sh])
    have 3: "table_but {i} u3" unfolding u3_def
      by (rule table_upd [OF 2 i]) (use table_fine [OF 2, of i] in \<open>auto simp: row_fine_def cam_sync_util_cleanup_children_list_def clean_list_def\<close>)
    have "state (sync_table u3 i) = CAM_SYNC_STATE_INVALID"
      using shrinkD(3) [OF sh, of i] by (simp add: u3_def u1_def cam_sync_util_cleanup_children_list_def)
    from table_release [OF 3 i(1) this] show ?thesis
      using run row l Some q by (auto simp: cam_sync_init_group_object_def clean_children_info_def Let_def u1_def u2_def u3_def)
  qed
qed

lemma table_merge:
  assumes inv: "table_inv s"
  shows "table_inv (fst (cam_sync_merge ac ap s (Some arr) num))"
proof -
  obtain n xs where d: "cam_common_util_remove_duplicate_arr (Some arr) num = (n, xs)" by fastforce
  show ?thesis
  proof (cases "num \<le> 1 \<or> n \<noteq> num \<or> is_err (check_valid_all s (take num xs)) \<or> claim_bit s = None")
    case True
    then show ?thesis using inv d by (auto simp: cam_sync_merge_def is_err_def split: sum.split)
  next
    case False
    then obtain t i where c: "claim_bit s = Some (t, i)" by auto
    note cb = claim_bit_Some [OF c]
    have i: "0 < i" using cb(2) inv by (cases i) (auto simp: table_but_def)
    have "check_valid_all s (take num xs) = Ok ()" using False by (cases "check_valid_all s (take num xs)") (auto simp: is_err_def)
    then have cs: "\<forall>c \<in> set (map nat (take num xs)). 0 < c \<and> c < CAM_SYNC_MAX_OBJS" and ok: "check_valid_all s (take num xs) = Ok ()"
      using check_valid_all_Ok by (fastforce simp: in_range_iff)+
    obtain u r where g: "cam_sync_init_group_object ac ap (set_bit_row i True s) i (map nat (take num xs)) = (u, r)" by fastforce
    from table_group_object [OF inv i cb(1) cs g] show ?thesis
      using False d c cb(3) g ok by (cases r) (auto simp: cam_sync_merge_def)
  qed
qed

lemma table_close:
  assumes inv: "table_inv s" and run: "cam_sync_close (Some s) = (Some t, r)"
  shows "table_inv t"
proof -
  have step: "table_inv (fst (close_signal i p))" "table_inv (fst (close_destroy i p))" if "table_inv (fst p)" for i p
    using that table_signal [of "fst p"] table_destroy [of "fst p"] by (auto simp: close_signal_def close_destroy_def split: prod.splits)
  have loop: "table_inv (fst (fold close_signal xs (u, rc)))" "table_inv (fst (fold close_destroy xs (u, rc)))" if "table_inv u" for xs u rc
    using that by (simp_all add: step fold_invariant [where Q = "\<lambda>_. True" and P = "\<lambda>p. table_inv (fst p)"])
  let ?s0 = "s\<lparr>err_cnt := 0, open_cnt := open_cnt s - 1\<rparr>"
  have 0: "table_inv ?s0" using inv by (simp add: table_but_def)
  obtain s1 rc1 where 1: "fold close_signal [1..<CAM_SYNC_MAX_OBJS] (?s0, Ok ()) = (s1, rc1)" by force
  then have i1: "table_inv s1" using loop(1) [OF 0] by (metis fst_conv)
  have i2: "table_inv (flush_workqueue s1)" using table_same_core [OF flush_same_core] i1 by simp
  obtain s3 rc3 where 3: "fold close_destroy [1..<CAM_SYNC_MAX_OBJS] (flush_workqueue s1, rc1) = (s3, rc3)" by force
  then have "table_inv s3" using loop(2) [OF i2] by (metis fst_conv)
  then have "table_inv (s3\<lparr>cam_sync_eventq := False\<rparr>)" by (simp add: table_but_def)
  then show ?thesis using run 0 1 3
    by (auto simp: cam_sync_close_def Let_def simp del: upt_rec_numeral split: if_splits)
qed

lemma table_open: "table_inv s \<Longrightarrow> cam_sync_open e (Some s) = (Some t, r) \<Longrightarrow> table_inv t"
  by (auto simp: cam_sync_open_def Let_def table_but_def split: option.splits if_splits)

lemmas table_ops = table_create table_signal table_merge table_destroy table_reset table_close table_open

end
