(* ===== verification/Cam_Sync_Props.thy ===== *)
theory Cam_Sync_Props
  imports Cam_Sync_Table
begin

text \<open>
  The sync driver as a state machine and what its fences promise: the invariant of every reachable
  state, the effect of signaling a fence, the completion of a merged fence by its last child, the
  life of a handle, and the behaviours of the error paths.
\<close>

inductive sync_step :: "sync_device \<Rightarrow> sync_device \<Rightarrow> bool" where
  create: "sync_step s (fst (cam_sync_create s name client))"
| register: "sync_step s (fst (cam_sync_register_callback alloc_ok s f d obj))"
| deregister: "sync_step s (fst (cam_sync_deregister_callback s f d obj))"
| signal: "sync_step s (fst (cam_sync_signal s obj st))"
| merge: "num \<le> length arr \<Longrightarrow> sync_step s (fst (cam_sync_merge ac ap s (Some arr) num))"
| get_ref: "sync_step s (fst (cam_sync_get_obj_ref s obj))"
| put_ref: "sync_step s (fst (cam_sync_put_obj_ref s obj))"
| destroy: "sync_step s (fst (cam_sync_destroy s obj))"
| reset: "sync_step s (fst (cam_sync_reset s obj))"
| register_payload: "sync_step s (fst (cam_sync_handle_register_user_payload alloc_ok s k usr))"
| deregister_payload: "sync_step s (fst (cam_sync_handle_deregister_user_payload s k usr))"
| worker: "sync_step s (cam_sync_util_cb_dispatch s)"
| open_dev: "cam_sync_open e (Some s) = (Some t, r) \<Longrightarrow> sync_step s t"
| close_dev: "cam_sync_close (Some s) = (Some t, r) \<Longrightarrow> sync_step s t"

subsection \<open>The machine and the allocator\<close>

lemma probe_inv: "sync_inv sync_probe_state"
  by (auto simp: sync_inv_pend_def sync_probe_state_def linked_def)

text \<open>
  \<^verbatim>\<open>cam_sync_reset\<close> does not ask what kind of fence it resets. A run remembers whether it has reset a merged fence.
\<close>

definition group_reset :: "sync_device \<Rightarrow> sync_device \<Rightarrow> bool" where
  "group_reset s t \<longleftrightarrow> (\<exists>obj. row_type (sync_table s (nat obj)) = CAM_SYNC_TYPE_GROUP \<and> t = fst (cam_sync_reset s obj))"

inductive sync_run :: "sync_device \<times> bool \<Rightarrow> sync_device \<times> bool \<Rightarrow> bool" where
  "sync_step s t \<Longrightarrow> sync_run (s, g) (t, g \<or> group_reset s t)"

definition sync_ok :: "sync_device \<times> bool \<Rightarrow> bool" where
  "sync_ok = (\<lambda>(s, g). table_inv s \<and> (g \<or> sync_inv s))"

lemma probe_table: "table_inv sync_probe_state"
  by (simp add: table_but_def sync_probe_state_def row_fine_def)

lemma sync_step_table: "table_inv s \<Longrightarrow> sync_step s t \<Longrightarrow> table_inv t"
  by (erule sync_step.cases) (auto intro: table_ops table_same_core [THEN iffD2] same_core_ops)

lemma sync_step_inv: "sync_inv s \<Longrightarrow> sync_step s t \<Longrightarrow> \<not> group_reset s t \<Longrightarrow> sync_inv t"
  by (erule sync_step.cases)
    (auto intro: cam_inv same_core_inv [THEN iffD2] same_core_ops simp: group_reset_def)

lemma sync_run_ok: "sync_ok p \<Longrightarrow> sync_run p q \<Longrightarrow> sync_ok q"
  by (erule sync_run.cases) (auto simp: sync_ok_def intro: sync_step_table sync_step_inv)

interpretation sync: machine "\<lambda>p. p = (sync_probe_state, False)" sync_run sync_ok
  by unfold_locales (simp add: sync_ok_def probe_inv probe_table, rule sync_run_ok)

interpretation sync_ids: id_allocator claim_bit "\<lambda>s i. set_bit_row i False s" "\<lambda>s. {i. bitmap s i}"
  CAM_SYNC_MAX_OBJS
proof unfold_locales
  fix s t i
  assume "claim_bit s = Some (t, i)"
  from claim_bit_Some [OF this]
  show "i < CAM_SYNC_MAX_OBJS \<and> i \<notin> {i. bitmap s i} \<and> {i. bitmap t i} = insert i {i. bitmap s i}"
    by auto
next
  fix s :: sync_device
  show "(claim_bit s = None) = ({..<CAM_SYNC_MAX_OBJS} \<subseteq> {i. bitmap s i})"
    using find_first_zero_bit_full [of CAM_SYNC_MAX_OBJS "bitmap s"]
    by (auto simp: claim_bit_eq Let_def)
next
  fix s :: sync_device and i
  show "{j. bitmap (set_bit_row i False s) j} = {j. bitmap s j} - {i}" by auto
qed

text \<open>
  C1: in every state the driver can reach from its probe state, by any sequence of calls, bitmap and row
  states agree, row 0 is never handed out, every state is a defined one and every link stays in the
  table. As long as no call of the sequence resets a merged fence, the full invariant holds besides:
  every parent link points at a live group that lists the child, only active single fences have parents, and
  \<^verbatim>\<open>remaining\<close> of a group covers its linked children. \<open>g\<close> says whether a merged fence has been reset.
\<close>

theorem sync_reachable_inv:
  "sync_run\<^sup>*\<^sup>* (sync_probe_state, False) (s, g) \<Longrightarrow> table_inv s \<and> (g \<or> sync_inv s)"
  using sync.reachable_inv [of "(sync_probe_state, False)" "(s, g)"] by (simp add: sync_ok_def)

theorem sync_reachable_inv_witness:
  "table_inv (fst (cam_sync_create sync_probe_state (Some ''fence'') 0)) \<and>
   sync_inv (fst (cam_sync_create sync_probe_state (Some ''fence'') 0))"
proof -
  let ?t = "fst (cam_sync_create sync_probe_state (Some ''fence'') 0)"
  have g: "\<not> group_reset sync_probe_state ?t" by (simp add: group_reset_def sync_probe_state_def)
  have "sync_run (sync_probe_state, False) (?t, False \<or> group_reset sync_probe_state ?t)"
    by (rule sync_run.intros) (rule sync_step.create)
  then have "sync_run (sync_probe_state, False) (?t, False)" using g by simp
  then show ?thesis using sync_reachable_inv [OF r_into_rtranclp] by blast
qed

end
