(* ===== verification/Cam_Sync_Signal.thy ===== *)
theory Cam_Sync_Signal
  imports Cam_Sync_Props
begin

text \<open>
  What signaling does: the row of the fence itself, the callbacks and events it releases, and the
  rows of the groups it belongs to. The main results are \<open>signal_effect\<close> for a single fence and
  \<open>group_completes\<close> for a merged one.
\<close>

definition event_of :: "sync_device \<Rightarrow> nat \<Rightarrow> u32 \<Rightarrow> sync_user_payload \<Rightarrow> sync_event" where
  "event_of s obj st p = \<lparr>ev_id = CAM_SYNC_V4L_EVENT_ID_CB_TRIG,
     ev_type = CAM_SYNC_V4L_EVENT + client_id (sync_table s obj), ev_sync_obj = obj,
     ev_status = st, ev_payload = p\<rparr>"

text \<open>Signaling a list of fences one after the other.\<close>

fun signal_seq :: "sync_device \<Rightarrow> (nat \<times> u32) list \<Rightarrow> sync_device" where
  "signal_seq s [] = s"
| "signal_seq s ((c, st) # css) = signal_seq (fst (cam_sync_signal s (int c) st)) css"

text \<open>The state of a group after children were signaled with the given states, in that order.\<close>

definition group_state :: "u32 \<Rightarrow> u32 list \<Rightarrow> u32" where
  "group_state old sts = (if CAM_SYNC_STATE_SIGNALED_ERROR \<in> set (old # sts)
     then CAM_SYNC_STATE_SIGNALED_ERROR else last (old # sts))"

text \<open>A fence that the next signal call will really signal.\<close>

definition signalable :: "sync_device \<Rightarrow> nat \<Rightarrow> bool" where
  "signalable s c \<longleftrightarrow> 0 < c \<and> c < CAM_SYNC_MAX_OBJS \<and>
     row_type (sync_table s c) \<noteq> CAM_SYNC_TYPE_GROUP \<and>
     state (sync_table s c) = CAM_SYNC_STATE_ACTIVE \<and> ref_cnt (sync_table s c) = 1"

subsection \<open>Dispatch\<close>

lemma dispatch_user_payloads_open:
  "cam_sync_eventq s \<Longrightarrow> dispatch_user_payloads obj st ps s =
     (s\<lparr>v4l2_events := v4l2_events s @ map (event_of s obj st) ps\<rparr>, [])"
proof (induction ps arbitrary: s)
  case Nil
  then show ?case by simp
next
  case (Cons p ps)
  have "event_of (s\<lparr>v4l2_events := es\<rparr>) obj st = event_of s obj st" for es
    by (simp add: event_of_def fun_eq_iff)
  with Cons show ?case
    by (simp add: cam_sync_util_send_v4l2_event_def) (simp add: event_of_def)
qed

lemma dispatch_user_payloads_closed:
  "\<not> cam_sync_eventq s \<Longrightarrow> dispatch_user_payloads obj st ps s = (s, ps)"
  by (cases ps) auto

lemma dispatch_eq:
  assumes "state (sync_table s obj) \<noteq> CAM_SYNC_STATE_INVALID"
  shows "cam_sync_util_dispatch_signaled_cb obj st s =
    upd_row obj (\<lambda>r. r\<lparr>callback_list := [],
       user_payload_list := (if cam_sync_eventq s then [] else user_payload_list r), signaled := True\<rparr>)
      (s\<lparr>work_queue := work_queue s @ map (\<lambda>cb. cb\<lparr>cb_status := st\<rparr>) (callback_list (sync_table s obj)),
         v4l2_events := v4l2_events s @
           (if cam_sync_eventq s then map (event_of s obj st) (user_payload_list (sync_table s obj)) else [])\<rparr>)"
proof -
  let ?s1 = "(upd_row obj (\<lambda>r. r\<lparr>callback_list := []\<rparr>) s)
      \<lparr>work_queue := work_queue s @ map (\<lambda>cb. cb\<lparr>cb_status := st\<rparr>) (callback_list (sync_table s obj))\<rparr>"
  have ev: "event_of ?s1 obj st = event_of s obj st" by (simp add: event_of_def fun_eq_iff)
  show ?thesis
  proof (cases "cam_sync_eventq s")
    case True
    then have "dispatch_user_payloads obj st (user_payload_list (sync_table s obj)) ?s1 =
        (?s1\<lparr>v4l2_events := v4l2_events s @ map (event_of s obj st) (user_payload_list (sync_table s obj))\<rparr>, [])"
      using dispatch_user_payloads_open [of ?s1 obj st] ev by simp
    with assms True show ?thesis
      by (simp add: cam_sync_util_dispatch_signaled_cb_def Let_def upd_row_def)
  next
    case False
    then have "dispatch_user_payloads obj st (user_payload_list (sync_table s obj)) ?s1 =
        (?s1, user_payload_list (sync_table s obj))"
      using dispatch_user_payloads_closed [of ?s1 obj st] by simp
    with assms False show ?thesis
      by (simp add: cam_sync_util_dispatch_signaled_cb_def Let_def upd_row_def)
  qed
qed

lemma dispatch_row:
  assumes "state (sync_table s obj) \<noteq> CAM_SYNC_STATE_INVALID"
  shows "sync_table (cam_sync_util_dispatch_signaled_cb obj st s) obj =
    (sync_table s obj)\<lparr>callback_list := [],
       user_payload_list := (if cam_sync_eventq s then [] else user_payload_list (sync_table s obj)),
       signaled := True\<rparr>"
  using assms by (simp add: dispatch_eq)

lemma dispatch_outputs:
  assumes "state (sync_table s obj) \<noteq> CAM_SYNC_STATE_INVALID"
  shows "work_queue (cam_sync_util_dispatch_signaled_cb obj st s) =
      work_queue s @ map (\<lambda>cb. cb\<lparr>cb_status := st\<rparr>) (callback_list (sync_table s obj))"
    "v4l2_events (cam_sync_util_dispatch_signaled_cb obj st s) = v4l2_events s @
      (if cam_sync_eventq s then map (event_of s obj st) (user_payload_list (sync_table s obj)) else [])"
  using assms by (simp_all add: dispatch_eq)

lemma dispatch_invalid:
  "state (sync_table s obj) = CAM_SYNC_STATE_INVALID \<Longrightarrow> cam_sync_util_dispatch_signaled_cb obj st s = s"
  by (simp add: cam_sync_util_dispatch_signaled_cb_def)

text \<open>Dispatching only adds to the queues.\<close>

lemma dispatch_extends:
  "\<exists>cbs evs. work_queue (cam_sync_util_dispatch_signaled_cb obj st s) = work_queue s @ cbs \<and>
     v4l2_events (cam_sync_util_dispatch_signaled_cb obj st s) = v4l2_events s @ evs"
  by (cases "state (sync_table s obj) = CAM_SYNC_STATE_INVALID")
    (auto simp: dispatch_invalid dispatch_outputs)

subsection \<open>One parent\<close>

lemma signal_parent_other: "q \<noteq> p \<Longrightarrow> sync_table (signal_parent st p s) q = sync_table s q"
  by (auto simp: signal_parent_def Let_def dispatch_other_row split: prod.splits)

lemma signal_parent_extends:
  "\<exists>cbs evs. work_queue (signal_parent st p s) = work_queue s @ cbs \<and>
     v4l2_events (signal_parent st p s) = v4l2_events s @ evs"
proof -
  let ?s1 = "upd_row p (\<lambda>r. r\<lparr>remaining := remaining r - 1\<rparr>) s"
  obtain row rc where u: "cam_sync_util_update_parent_state (sync_table ?s1 p) st = (row, rc)" by force
  show ?thesis
    using u dispatch_extends [of p "state row" "upd_row p (\<lambda>_. row) ?s1"]
    by (simp add: signal_parent_def Let_def)
qed

lemma signal_parent_row:
  assumes "state (sync_table s p) \<in> {1, 2, 3}" "st \<noteq> CAM_SYNC_STATE_INVALID"
  defines "r \<equiv> sync_table s p" and "r' \<equiv> sync_table (signal_parent st p s) p"
  shows "remaining r' = remaining r - 1" "state r' = parent_state (state r) st"
    "row_type r' = row_type r" "signaled r' \<longleftrightarrow> signaled r \<or> remaining r = 1"
proof -
  have eq: "cam_sync_util_update_parent_state (r\<lparr>remaining := remaining r - 1\<rparr>) st =
      (r\<lparr>remaining := remaining r - 1, state := parent_state (state r) st\<rparr>, Ok ())"
    using assms(1) row_state_self [of r "remaining r - 1"]
    by (auto simp: cam_sync_util_update_parent_state_def parent_state_def r_def)
  have nz: "parent_state (state r) st \<noteq> 0" using assms(1,2) by (auto simp: parent_state_def r_def)
  show "remaining r' = remaining r - 1" "state r' = parent_state (state r) st"
    "row_type r' = row_type r" "signaled r' \<longleftrightarrow> signaled r \<or> remaining r = 1"
    using eq nz
    by (simp_all add: r'_def r_def [symmetric] signal_parent_def Let_def dispatch_row)
qed

lemma signal_parents_other:
  "q \<notin> set ps \<Longrightarrow> sync_table (fold (signal_parent st) ps s) q = sync_table s q"
  by (induction ps arbitrary: s) (auto simp: signal_parent_other)

lemma signal_parents_extends:
  "\<exists>cbs evs. work_queue (fold (signal_parent st) ps s) = work_queue s @ cbs \<and>
     v4l2_events (fold (signal_parent st) ps s) = v4l2_events s @ evs"
proof (induction ps arbitrary: s)
  case Nil
  then show ?case by simp
next
  case (Cons p ps)
  show ?case using signal_parent_extends [of st p s] Cons [of "signal_parent st p s"] by auto
qed

lemma signal_parents_row:
  assumes "distinct ps" "p \<in> set ps" "state (sync_table s p) \<in> {1, 2, 3}" "st \<noteq> CAM_SYNC_STATE_INVALID"
  defines "r \<equiv> sync_table s p" and "r' \<equiv> sync_table (fold (signal_parent st) ps s) p"
  shows "remaining r' = remaining r - 1 \<and> state r' = parent_state (state r) st \<and>
    row_type r' = row_type r \<and> (signaled r' \<longleftrightarrow> signaled r \<or> remaining r = 1)"
proof -
  obtain xs ys where ps: "ps = xs @ p # ys" "p \<notin> set xs" "p \<notin> set ys"
    using assms(1,2) by (metis distinct.simps(2) distinct_append not_distinct_conv_prefix split_list_first)
  let ?t = "fold (signal_parent st) xs s"
  have t: "sync_table ?t p = r" using ps signal_parents_other by (simp add: r_def)
  have "r' = sync_table (signal_parent st p ?t) p"
    using ps signal_parents_other by (simp add: r'_def)
  then show ?thesis using signal_parent_row [of ?t p st] assms(3,4) t by (simp add: r_def)
qed

subsection \<open>One fence\<close>

lemma signal_locked_eq:
  assumes "signalable s i" "st \<in> {CAM_SYNC_STATE_SIGNALED_SUCCESS, CAM_SYNC_STATE_SIGNALED_ERROR}"
  defines "r \<equiv> (sync_table s i)\<lparr>state := st, ref_cnt := 0, callback_list := [],
      user_payload_list := (if cam_sync_eventq s then [] else user_payload_list (sync_table s i)),
      signaled := True, parents_list := []\<rparr>"
  shows "\<exists>t. signal_locked s (int i) st = (t, Ok (parents_list (sync_table s i))) \<and>
    sync_table t = (sync_table s)(i := r) \<and>
    work_queue t = work_queue s @ map (\<lambda>cb. cb\<lparr>cb_status := st\<rparr>) (callback_list (sync_table s i)) \<and>
    v4l2_events t = v4l2_events s @
      (if cam_sync_eventq s then map (event_of s i st) (user_payload_list (sync_table s i)) else [])"
  using assms
  by (auto simp: signal_locked_def signalable_def Let_def dispatch_eq event_of_def fun_eq_iff)

lemma signal_other_row:
  assumes "signalable s i" "st \<in> {CAM_SYNC_STATE_SIGNALED_SUCCESS, CAM_SYNC_STATE_SIGNALED_ERROR}"
    "d \<noteq> i" "d \<notin> set (parents_list (sync_table s i))"
  shows "sync_table (fst (cam_sync_signal s (int i) st)) d = sync_table s d"
  using signal_locked_eq [OF assms(1,2)] assms(3,4)
  by (auto simp: cam_sync_signal_def signal_parents_other)

lemma signal_own_row:
  assumes "sync_inv s" "signalable s i"
    "st \<in> {CAM_SYNC_STATE_SIGNALED_SUCCESS, CAM_SYNC_STATE_SIGNALED_ERROR}"
  shows "sync_table (fst (cam_sync_signal s (int i) st)) i =
    (sync_table s i)\<lparr>state := st, ref_cnt := 0, callback_list := [],
      user_payload_list := (if cam_sync_eventq s then [] else user_payload_list (sync_table s i)),
      signaled := True, parents_list := []\<rparr>"
proof -
  have "i \<notin> set (parents_list (sync_table s i))"
    using inv_parent [OF assms(1), of i i] assms(2) by (auto simp: live_group_def signalable_def)
  then show ?thesis
    using signal_locked_eq [OF assms(2,3)] by (auto simp: cam_sync_signal_def signal_parents_other)
qed

lemma signal_parent_of_row:
  assumes inv: "sync_inv s" and sg: "signalable s i"
    and st: "st \<in> {CAM_SYNC_STATE_SIGNALED_SUCCESS, CAM_SYNC_STATE_SIGNALED_ERROR}"
    and p: "p \<in> set (parents_list (sync_table s i))"
  defines "r \<equiv> sync_table s p" and "r' \<equiv> sync_table (fst (cam_sync_signal s (int i) st)) p"
  shows "remaining r' = remaining r - 1 \<and> state r' = parent_state (state r) st \<and>
    row_type r' = row_type r \<and> (signaled r' \<longleftrightarrow> signaled r \<or> remaining r = 1)"
proof -
  obtain t where t: "signal_locked s (int i) st = (t, Ok (parents_list (sync_table s i)))"
    "\<And>d. d \<noteq> i \<Longrightarrow> sync_table t d = sync_table s d"
    using signal_locked_eq [OF sg st] by auto
  have lg: "live_group s p" using inv_parent [OF inv p] by simp
  then have "p \<noteq> i" using sg by (auto simp: live_group_def signalable_def)
  then have tp: "sync_table t p = r" using t(2) by (simp add: r_def)
  moreover have "state r \<in> {1, 2, 3}"
    using lg inv_state [OF inv, of p] by (auto simp: live_group_def r_def)
  ultimately show ?thesis
    using signal_parents_row [OF inv_distinct [OF inv] p, of t st] st t(1)
    by (auto simp: r'_def cam_sync_signal_def)
qed

text \<open>
  C12: signaling an active single fence whose reference count is one takes effect completely: the
  call succeeds, the fence takes the given state and is completed, every registered kernel callback
  is queued once, in order and with that state, every user payload is sent as an event, and the
  fence keeps no callback, payload or parent link.
\<close>

theorem signal_effect:
  assumes inv: "sync_inv s" and sg: "signalable s i" and q: "cam_sync_eventq s"
    and st: "st \<in> {CAM_SYNC_STATE_SIGNALED_SUCCESS, CAM_SYNC_STATE_SIGNALED_ERROR}"
  shows "\<exists>t cbs evs. cam_sync_signal s (int i) st = (t, Ok ()) \<and>
    sync_table t i = (sync_table s i)\<lparr>state := st, ref_cnt := 0, callback_list := [],
      user_payload_list := [], signaled := True, parents_list := []\<rparr> \<and>
    work_queue t = work_queue s @
      map (\<lambda>cb. cb\<lparr>cb_status := st\<rparr>) (callback_list (sync_table s i)) @ cbs \<and>
    v4l2_events t = v4l2_events s @ map (event_of s i st) (user_payload_list (sync_table s i)) @ evs"
proof -
  let ?ps = "parents_list (sync_table s i)"
  obtain u where u: "signal_locked s (int i) st = (u, Ok ?ps)"
    "work_queue u = work_queue s @ map (\<lambda>cb. cb\<lparr>cb_status := st\<rparr>) (callback_list (sync_table s i))"
    "v4l2_events u = v4l2_events s @ map (event_of s i st) (user_payload_list (sync_table s i))"
    using signal_locked_eq [OF sg st] q by auto
  obtain cbs evs where ext: "work_queue (fold (signal_parent st) ?ps u) = work_queue u @ cbs"
    "v4l2_events (fold (signal_parent st) ?ps u) = v4l2_events u @ evs"
    using signal_parents_extends by blast
  have run: "cam_sync_signal s (int i) st = (fold (signal_parent st) ?ps u, Ok ())"
    using u(1) by (simp add: cam_sync_signal_def)
  have "sync_table (fold (signal_parent st) ?ps u) i = (sync_table s i)\<lparr>state := st, ref_cnt := 0,
      callback_list := [], user_payload_list := [], signaled := True, parents_list := []\<rparr>"
    using signal_own_row [OF inv sg st] q run by simp
  then show ?thesis using run ext u(2,3) by (intro exI [of _ "fold (signal_parent st) ?ps u"]) auto
qed

subsection \<open>A merged fence\<close>

lemma group_state_Cons: "group_state old (st # sts) = group_state (parent_state old st) sts"
  by (auto simp: group_state_def parent_state_def)

lemma signal_seq_group:
  assumes "sync_inv s" "distinct (map fst css)"
    "\<And>c st. (c, st) \<in> set css \<Longrightarrow> signalable s c \<and> p \<in> set (parents_list (sync_table s c)) \<and>
       st \<in> {CAM_SYNC_STATE_SIGNALED_SUCCESS, CAM_SYNC_STATE_SIGNALED_ERROR}"
  shows "remaining (sync_table (signal_seq s css) p) = remaining (sync_table s p) - of_nat (length css) \<and>
    state (sync_table (signal_seq s css) p) = group_state (state (sync_table s p)) (map snd css) \<and>
    (signaled (sync_table (signal_seq s css) p) \<longleftrightarrow> signaled (sync_table s p) \<or>
       css \<noteq> [] \<and> remaining (sync_table s p) = of_nat (length css))"
  using assms
proof (induction css arbitrary: s)
  case Nil
  then show ?case by (simp add: group_state_def)
next
  case (Cons a css)
  obtain c st where a: "a = (c, st)" by force
  let ?t = "fst (cam_sync_signal s (int c) st)"
  let ?u = "sync_table ?t p"
  have c: "signalable s c" "p \<in> set (parents_list (sync_table s c))"
    "st \<in> {CAM_SYNC_STATE_SIGNALED_SUCCESS, CAM_SYNC_STATE_SIGNALED_ERROR}"
    using Cons.prems(3) a by auto
  note row = signal_parent_of_row [OF Cons.prems(1) c(1,3,2)]
  have inv: "sync_inv ?t" by (rule signal_inv [OF Cons.prems(1)])
  have same: "sync_table ?t d = sync_table s d" if "(d, x) \<in> set css" for d x
  proof (rule signal_other_row [OF c(1,3)])
    show "d \<noteq> c" using that Cons.prems(2) a by force
    have "signalable s d" using Cons.prems(3) that by auto
    then show "d \<notin> set (parents_list (sync_table s c))"
      using inv_parent [OF Cons.prems(1), of d c] by (auto simp: live_group_def signalable_def)
  qed
  have ok: "signalable ?t d \<and> p \<in> set (parents_list (sync_table ?t d)) \<and>
      x \<in> {CAM_SYNC_STATE_SIGNALED_SUCCESS, CAM_SYNC_STATE_SIGNALED_ERROR}" if "(d, x) \<in> set css" for d x
    using same [OF that] Cons.prems(3) [of d x] that by (simp add: signalable_def)
  have IH: "remaining (sync_table (signal_seq ?t css) p) = remaining ?u - of_nat (length css) \<and>
      state (sync_table (signal_seq ?t css) p) = group_state (state ?u) (map snd css) \<and>
      (signaled (sync_table (signal_seq ?t css) p) \<longleftrightarrow>
        signaled ?u \<or> css \<noteq> [] \<and> remaining ?u = of_nat (length css))"
    by (rule Cons.IH [OF inv _ ok]) (use Cons.prems(2) in auto)
  have "set (map fst css) \<subseteq> linked ?t p" using ok by (auto simp: linked_def)
  then have "length css \<le> card (linked ?t p)"
    using Cons.prems(2) distinct_card [of "map fst css"] card_mono [OF finite_linked [OF inv], of "set (map fst css)" p]
    by simp
  then have "length css \<le> unat (remaining ?u)" using inv_remaining [OF inv, of p] by simp
  then have nz: "css \<noteq> [] \<Longrightarrow> remaining (sync_table s p) \<noteq> 1" using row by (cases css) auto
  have sig: "signaled ?u \<longleftrightarrow> signaled (sync_table s p) \<or> css = [] \<and> remaining (sync_table s p) = 1"
    using row nz by blast
  have "remaining ?u = of_nat (length css) \<longleftrightarrow> remaining (sync_table s p) = of_nat (length (a # css))"
    using row by (auto simp: algebra_simps)
  then show ?case
    using IH row sig by (auto simp: a group_state_Cons algebra_simps)
qed

text \<open>
  C13: a merged fence is completed by the last of its children and not before. When some of the
  children still linked to it are signaled, in any order, its count goes down by their number, it
  is completed exactly if they were all that remained, and its state is an error if it or any of
  the children ended in error, else the state of the child signaled last.
\<close>

theorem group_completes:
  assumes "sync_inv s" "css \<noteq> []" "distinct (map fst css)"
    and "\<forall>(c, st) \<in> set css. signalable s c \<and> p \<in> set (parents_list (sync_table s c)) \<and>
       st \<in> {CAM_SYNC_STATE_SIGNALED_SUCCESS, CAM_SYNC_STATE_SIGNALED_ERROR}"
    and "\<not> signaled (sync_table s p)"
  shows "sync_inv (signal_seq s css) \<and>
    remaining (sync_table (signal_seq s css) p) = remaining (sync_table s p) - of_nat (length css) \<and>
    (signaled (sync_table (signal_seq s css) p) \<longleftrightarrow> remaining (sync_table s p) = of_nat (length css)) \<and>
    state (sync_table (signal_seq s css) p) =
      (if CAM_SYNC_STATE_SIGNALED_ERROR \<in> set (state (sync_table s p) # map snd css)
       then CAM_SYNC_STATE_SIGNALED_ERROR else snd (last css))"
proof -
  have "sync_inv t \<Longrightarrow> sync_inv (signal_seq t cs)" for t cs
    by (induction t cs rule: signal_seq.induct) (auto intro: signal_inv)
  then have inv: "sync_inv (signal_seq s css)" using assms(1) .
  have g: "signalable s c \<and> p \<in> set (parents_list (sync_table s c)) \<and>
      st \<in> {CAM_SYNC_STATE_SIGNALED_SUCCESS, CAM_SYNC_STATE_SIGNALED_ERROR}" if "(c, st) \<in> set css" for c st
    using assms(4) that by blast
  have "last (map snd css) = snd (last css)" using assms(2) by (rule last_map)
  then show ?thesis
    using inv signal_seq_group [OF assms(1,3) g] assms(2,5) by (simp add: group_state_def)
qed

end
