(* ===== verification/Cam_Sync_Life.thy ===== *)
theory Cam_Sync_Life
  imports Cam_Sync_Signal
begin

text \<open>
  The life of a fence handle: creation, merging and its undoing on failure, destruction. The last
  section runs the model on small tables: witnesses of the properties, and the behaviours of
  \<^verbatim>\<open>cam_sync.c\<close> that its comments or its other operations do not lead one to expect.
\<close>

subsection \<open>Creation\<close>

definition new_row :: "nat \<Rightarrow> string option \<Rightarrow> u32 \<Rightarrow> u32 \<Rightarrow> sync_table_row" where
  "new_row idx name type client = zero_row
     \<lparr>row_name := (case name of None \<Rightarrow> [] | Some n \<Rightarrow> strlcpy n SYNC_DEBUG_NAME_LEN),
      row_type := type, client_id := client, sync_id := idx, state := CAM_SYNC_STATE_ACTIVE\<rparr>"

lemma new_row_simps [simp]:
  "row_type (new_row i n ty cl) = ty" "state (new_row i n ty cl) = 1" "parents_list (new_row i n ty cl) = []"
  "children_list (new_row i n ty cl) = []" "remaining (new_row i n ty cl) = 0" "sync_id (new_row i n ty cl) = i"
  "callback_list (new_row i n ty cl) = []" "user_payload_list (new_row i n ty cl) = []"
  "ref_cnt (new_row i n ty cl) = 0" "signaled (new_row i n ty cl) = False" "client_id (new_row i n ty cl) = cl"
  by (simp_all add: new_row_def)

lemma upd_row_upd_row: "upd_row i f (upd_row i g s) = upd_row i (\<lambda>r. f (g r)) s"
  by (simp add: upd_row_def)

lemma init_row_new:
  "0 < i \<Longrightarrow> i < CAM_SYNC_MAX_OBJS \<Longrightarrow>
     cam_sync_init_row s i n ty cl = (upd_row i (\<lambda>_. new_row i n ty cl) s, Ok ())"
  by (simp add: cam_sync_init_row_def new_row_def zero_row_def)

lemma create_at:
  assumes "find_first_zero_bit (bitmap s) CAM_SYNC_MAX_OBJS = k" "0 < k" "k < CAM_SYNC_MAX_OBJS"
  shows "cam_sync_create s n cl =
    (upd_row k (\<lambda>_. new_row k n CAM_SYNC_TYPE_INDV cl) (set_bit_row k True s), Ok (int k))"
  using assms by (simp add: cam_sync_create_def claim_bit_eq init_row_new Let_def)

text \<open>
  C20: \<^verbatim>\<open>cam_sync_create\<close> either returns the lowest handle between 1 and 1023 that was free, whose row is a
  fresh active single fence, and leaves every other row alone; or it fails with \<^verbatim>\<open>-ENOMEM\<close>, and
  then every index was taken and no row has changed.
\<close>

theorem create_spec:
  assumes "sync_inv s"
  shows "case cam_sync_create s name client of
      (t, Inr h) \<Rightarrow> 0 < h \<and> h < 1024 \<and> \<not> bitmap s (nat h) \<and> (\<forall>i < nat h. bitmap s i) \<and>
        bitmap t = (bitmap s)(nat h := True) \<and>
        sync_table t = (sync_table s)(nat h := new_row (nat h) name CAM_SYNC_TYPE_INDV client)
    | (t, Inl e) \<Rightarrow> e = ENOMEM \<and> (\<forall>i < CAM_SYNC_MAX_OBJS. bitmap s i) \<and>
        sync_table t = sync_table s \<and> bitmap t = bitmap s"
proof -
  let ?k = "find_first_zero_bit (bitmap s) CAM_SYNC_MAX_OBJS"
  have pos: "0 < ?k" using inv_bit0 [OF assms] by (intro find_first_zero_bit_pos) auto
  show ?thesis
  proof (cases "?k < CAM_SYNC_MAX_OBJS")
    case True
    then show ?thesis
      using create_at [OF refl pos True, of name client] find_first_zero_bit_clear [OF True] find_first_zero_bit_least pos by auto
  next
    case False
    then show ?thesis
      using find_first_zero_bit_full [of CAM_SYNC_MAX_OBJS "bitmap s"]
      by (simp add: cam_sync_create_def claim_bit_eq Let_def)
  qed
qed

subsection \<open>Merging\<close>

lemma init_group_loop_rows:
  assumes "distinct cs" "i \<notin> set cs" "init_group_loop ac ap i n cs s = (t, res)"
  shows "bitmap t = bitmap s \<and> (\<forall>e k. res = Some (e, k) \<longrightarrow> n \<le> k \<and> k < n + length cs) \<and>
    (\<forall>c. c \<noteq> i \<longrightarrow> sync_table t c = sync_table s c \<or>
       c \<in> set (case res of None \<Rightarrow> cs | Some (e, k) \<Rightarrow> take (k - n) cs) \<and>
       sync_table t c = (sync_table s c)\<lparr>parents_list := parents_list (sync_table s c) @ [i]\<rparr>)"
  using assms
proof (induction cs arbitrary: s n)
  case Nil
  then show ?case by simp
next
  case (Cons c cs)
  let ?r = "sync_table s c"
  let ?t2 = "upd_row i (\<lambda>r. r\<lparr>client_id := client_id ?r, remaining := remaining r + 1,
      children_list := children_list r @ [c]\<rparr>) s"
  let ?t3 = "upd_row c (\<lambda>r. r\<lparr>parents_list := parents_list r @ [i]\<rparr>) ?t2"
  let ?e = "upd_row i (\<lambda>r. r\<lparr>state := CAM_SYNC_STATE_SIGNALED_ERROR\<rparr>) s"
  have tk: "take (k - n) (c # cs) = c # take (k - Suc n) cs" if "Suc n \<le> k" for k
    using that by (metis Suc_diff_Suc Suc_le_lessD take_Suc_Cons)
  have ok: "distinct cs" "i \<notin> set cs" "c \<noteq> i" "c \<notin> set cs" using Cons.prems by auto
  let ?V = "\<lambda>cs n. set (case res of None \<Rightarrow> cs | Some (e, k) \<Rightarrow> take (k - n) cs)"
  have visited: "?V (c # cs) n = insert c (?V cs (Suc n))"
    "\<forall>e k. res = Some (e, k) \<longrightarrow> n \<le> k \<and> k < n + length (c # cs)"
    if "\<forall>e k. res = Some (e, k) \<longrightarrow> Suc n \<le> k \<and> k < Suc n + length cs"
    using that tk by (auto split: option.splits)
  consider (stop) "\<forall>d. d \<noteq> i \<longrightarrow> sync_table t d = sync_table s d" "bitmap t = bitmap s" "\<exists>e. res = Some (e, n)"
    | (err) "init_group_loop ac ap i (Suc n) cs ?e = (t, res)"
    | (skip) "init_group_loop ac ap i (Suc n) cs s = (t, res)"
    | (act) "init_group_loop ac ap i (Suc n) cs ?t3 = (t, res)"
    using Cons.prems(3) by (auto simp: Let_def upd_row_upd_row split: if_splits)
  then show ?case
  proof cases
    case stop
    then show ?thesis by auto
  next
    case err
    note IH = Cons.IH [OF ok(1,2) err]
    have "sync_table ?e d = sync_table s d" if "d \<noteq> i" for d using that by simp
    with IH visited [OF IH [THEN conjunct2, THEN conjunct1]] show ?thesis by fastforce
  next
    case skip
    note IH = Cons.IH [OF ok(1,2) skip]
    with visited [OF IH [THEN conjunct2, THEN conjunct1]] show ?thesis by fastforce
  next
    case act
    note IH = Cons.IH [OF ok(1,2) act]
    note V = visited [OF IH [THEN conjunct2, THEN conjunct1]]
    have rows: "sync_table t d = sync_table s d \<or> d \<in> ?V (c # cs) n \<and>
        sync_table t d = (sync_table s d)\<lparr>parents_list := parents_list (sync_table s d) @ [i]\<rparr>"
      if d: "d \<noteq> i" for d
    proof (cases "d = c")
      case True
      moreover have "c \<notin> ?V cs (Suc n)" using ok(4) set_take_subset by (fastforce split: option.splits)
      ultimately show ?thesis using IH d V(1) by auto
    next
      case False
      then have "sync_table ?t3 d = sync_table s d" using d by simp
      then show ?thesis using IH d V(1) by auto
    qed
    show ?thesis using IH V(2) rows by auto
  qed
qed

text \<open>Unlinking restores a parents list exactly.\<close>

lemma unlink_parent_row:
  "sync_table (unlink_parent i c s) d = (if d = c then (sync_table s c)\<lparr>parents_list :=
     remove1 i (parents_list (sync_table s c))\<rparr> else sync_table s d)"
  by (simp add: unlink_parent_def cam_sync_util_cleanup_parents_list_def clean_list_def)

lemma unlink_fold_rows:
  "distinct cs \<Longrightarrow> sync_table (fold (unlink_parent i) cs s) d =
     (if d \<in> set cs then (sync_table s d)\<lparr>parents_list := remove1 i (parents_list (sync_table s d))\<rparr>
      else sync_table s d)"
  by (induction cs arbitrary: s) (auto simp: unlink_parent_row)

lemma row_parents_self: "r\<lparr>parents_list := parents_list r\<rparr> = r"
  by (cases r) simp

lemma remove1_snoc_same: "i \<notin> set xs \<Longrightarrow> remove1 i (xs @ [i]) = xs"
  by (induction xs) auto

lemma init_group_object_fail:
  assumes inv: "sync_inv s" and fresh: "\<not> bitmap s i" "i < CAM_SYNC_MAX_OBJS"
    and objs: "distinct objs" "i \<notin> set objs"
    and run: "cam_sync_init_group_object ac ap (set_bit_row i True s) i objs = (t, Inl e)"
  shows "bitmap t = (bitmap s)(i := True) \<and> (\<forall>c. c \<noteq> i \<longrightarrow> sync_table t c = sync_table s c)"
proof -
  have pos: "0 < i" using fresh inv_bit0 [OF inv] by (cases i) auto
  let ?s0 = "upd_row i (\<lambda>_. new_row i (Some ''merged_fence'') CAM_SYNC_TYPE_GROUP 0) (set_bit_row i True s)"
  obtain u res where loop: "init_group_loop ac ap i 0 objs ?s0 = (u, res)" by force
  obtain e' k where res: "res = Some (e', k)" and t: "t = clean_children_info i (take k objs) u"
    using run loop pos fresh
    by (cases res) (auto simp: cam_sync_init_group_object_def init_row_new Let_def split: if_splits)
  have rows: "bitmap u = bitmap ?s0" "\<And>c. c \<noteq> i \<Longrightarrow> sync_table u c = sync_table s c \<or>
      c \<in> set (take k objs) \<and> sync_table u c = (sync_table s c)\<lparr>parents_list := parents_list (sync_table s c) @ [i]\<rparr>"
    using init_group_loop_rows [OF objs loop] res by auto
  have "state (sync_table s i) = CAM_SYNC_STATE_INVALID" using inv_bitmap [OF inv pos fresh(2)] fresh by simp
  then have np: "i \<notin> set (parents_list (sync_table s c))" for c
    using inv_parent [OF inv, of i c] by (auto simp: live_group_def)
  have dist: "distinct (rev (take k objs))" using objs by simp
  have un: "sync_table t c = (if c \<in> set (take k objs)
      then (sync_table u c)\<lparr>parents_list := remove1 i (parents_list (sync_table u c))\<rparr>
      else sync_table u c)" if "c \<noteq> i" for c
    using that unlink_fold_rows [OF dist] by (simp add: t clean_children_info_def Let_def)
  have "sync_table t c = sync_table s c" if c: "c \<noteq> i" for c
    using un [OF c] rows(2) [OF c] np [of c]
    by (auto simp: remove1_idem remove1_snoc_same row_parents_self)
  moreover have "bitmap (fold (unlink_parent i) cs v) = bitmap v" for cs v
    by (induction cs arbitrary: v) (auto simp: unlink_parent_def)
  ultimately show ?thesis using rows(1) by (simp add: t clean_children_info_def Let_def)
qed

text \<open>What a call of \<^verbatim>\<open>cam_sync_merge\<close> hands to the group initialisation.\<close>

lemma merge_args:
  assumes "1 < num" "num \<le> length a" "cam_common_util_remove_duplicate_arr (Some a) num = (num, b)"
    "check_valid_all s (take num b) = Ok ()"
  shows "take num b = take num a" "distinct (map nat (take num a))"
    "\<forall>c \<in> set (map nat (take num a)). 0 < c \<and> c < CAM_SYNC_MAX_OBJS \<and> bitmap s c \<and>
       state (sync_table s c) \<noteq> CAM_SYNC_STATE_INVALID"
proof -
  have one: "1 \<le> num" using assms(1) by simp
  note dup = remove_duplicate_arr_spec [OF one assms(2,3)]
  show eq: "take num b = take num a" using dup(5) by simp
  have valid: "in_range x \<and> bitmap s (nat x) \<and> state (sync_table s (nat x)) \<noteq> CAM_SYNC_STATE_INVALID"
    if "x \<in> set (take num a)" for x
    using assms(4) that by (auto simp: check_valid_all_Ok eq)
  have "inj_on nat (set (take num a))"
    using valid by (intro inj_onI) (metis in_range_iff less_imp_le nat_0_le)
  moreover have "distinct (take num a)" using dup(4) by simp
  ultimately show "distinct (map nat (take num a))" by (simp add: distinct_map)
  show "\<forall>c \<in> set (map nat (take num a)). 0 < c \<and> c < CAM_SYNC_MAX_OBJS \<and> bitmap s c \<and>
       state (sync_table s c) \<noteq> CAM_SYNC_STATE_INVALID"
    using valid by (fastforce simp: in_range_iff nat_less_iff)
qed

text \<open>
  C15: a merge that fails undoes everything it did: no index stays taken, and the row of every fence
  that was in use is exactly what it was before, even when an allocation failed or a bad child
  turned up half way through the list.
\<close>

theorem merge_failure_atomic:
  assumes inv: "sync_inv s" and len: "num \<le> length a"
    and run: "cam_sync_merge ac ap s (Some a) num = (t, Inl e)"
  shows "bitmap t = bitmap s \<and> (\<forall>c. bitmap s c \<longrightarrow> sync_table t c = sync_table s c)"
proof (cases "t = s")
  case True
  then show ?thesis by simp
next
  case False
  then obtain b u i v e' where h: "1 < num" "cam_common_util_remove_duplicate_arr (Some a) num = (num, b)"
    "check_valid_all s (take num b) = Ok ()" "claim_bit s = Some (u, i)"
    "cam_sync_init_group_object ac ap u i (map nat (take num b)) = (v, Inl e')" "t = set_bit_row i False v"
    using run by (auto simp: cam_sync_merge_def split: if_splits option.splits sum.splits prod.splits)
  note c = claim_bit_Some [OF h(4)]
  note args = merge_args [OF h(1) len h(2,3)]
  have "i \<notin> set (map nat (take num a))" using args(3) c(2) by blast
  then have "bitmap v = (bitmap s)(i := True) \<and> (\<forall>d. d \<noteq> i \<longrightarrow> sync_table v d = sync_table s d)"
    using init_group_object_fail [OF inv c(2,1) args(2)] h(5) c(3) args(1) by simp
  then show ?thesis using h(6) c(2) by (auto simp: fun_eq_iff)
qed

text \<open>The loop when nothing fails.\<close>

lemma init_group_loop_ok:
  assumes "\<And>n. ac n" "\<And>n. ap n" "distinct cs" "i \<notin> set cs"
    "\<forall>c \<in> set cs. row_type (sync_table s c) \<noteq> CAM_SYNC_TYPE_GROUP \<and> state (sync_table s c) \<in> {1, 2, 3}"
  defines "act \<equiv> filter (\<lambda>c. state (sync_table s c) = CAM_SYNC_STATE_ACTIVE) cs"
  shows "\<exists>t. init_group_loop ac ap i n cs s = (t, None) \<and>
    remaining (sync_table t i) = remaining (sync_table s i) + of_nat (length act) \<and>
    children_list (sync_table t i) = children_list (sync_table s i) @ act \<and>
    state (sync_table t i) = (if \<exists>c \<in> set cs. state (sync_table s c) = CAM_SYNC_STATE_SIGNALED_ERROR
       then CAM_SYNC_STATE_SIGNALED_ERROR else state (sync_table s i)) \<and>
    row_type (sync_table t i) = row_type (sync_table s i) \<and>
    signaled (sync_table t i) = signaled (sync_table s i) \<and>
    (\<forall>c. c \<noteq> i \<longrightarrow> sync_table t c = (if c \<in> set act
       then (sync_table s c)\<lparr>parents_list := parents_list (sync_table s c) @ [i]\<rparr> else sync_table s c))"
  using assms(3-5) unfolding act_def
proof (induction cs arbitrary: s n)
  case Nil
  then show ?case by simp
next
  case (Cons c cs)
  let ?r = "sync_table s c"
  let ?t3 = "upd_row c (\<lambda>r. r\<lparr>parents_list := parents_list r @ [i]\<rparr>)
      (upd_row i (\<lambda>r. r\<lparr>client_id := client_id ?r, remaining := remaining r + 1,
         children_list := children_list r @ [c]\<rparr>) s)"
  let ?e = "upd_row i (\<lambda>r. r\<lparr>state := CAM_SYNC_STATE_SIGNALED_ERROR\<rparr>) s"
  define s' where "s' = (if state ?r = 1 then ?t3 else if state ?r = 3 then ?e else s)"
  have ci: "c \<noteq> i" "c \<notin> set cs" "distinct cs" "i \<notin> set cs" using Cons.prems by auto
  have run: "init_group_loop ac ap i n (c # cs) s = init_group_loop ac ap i (Suc n) cs s'"
    using Cons.prems(3) assms(1,2) by (auto simp: s'_def Let_def upd_row_upd_row)
  have rows: "sync_table s' d = sync_table s d" if "d \<in> set cs" for d
    using that ci by (auto simp: s'_def)
  have flt: "filter (\<lambda>c. state (sync_table s' c) = 1) cs = filter (\<lambda>c. state (sync_table s c) = 1) cs"
    using rows by (intro filter_cong) auto
  obtain t where t: "init_group_loop ac ap i (Suc n) cs s' = (t, None)"
    "remaining (sync_table t i) = remaining (sync_table s' i) + of_nat (length (filter (\<lambda>c. state (sync_table s c) = 1) cs))"
    "children_list (sync_table t i) = children_list (sync_table s' i) @ filter (\<lambda>c. state (sync_table s c) = 1) cs"
    "state (sync_table t i) = (if \<exists>c \<in> set cs. state (sync_table s' c) = 3 then 3 else state (sync_table s' i))"
    "row_type (sync_table t i) = row_type (sync_table s' i)" "signaled (sync_table t i) = signaled (sync_table s' i)"
    "\<And>d. d \<noteq> i \<Longrightarrow> sync_table t d = (if d \<in> set (filter (\<lambda>c. state (sync_table s c) = 1) cs)
       then (sync_table s' d)\<lparr>parents_list := parents_list (sync_table s' d) @ [i]\<rparr> else sync_table s' d)"
    using Cons.IH [of s' "Suc n"] Cons.prems(3) ci rows unfolding flt by fastforce
  have ex: "(\<exists>c \<in> set cs. state (sync_table s' c) = 3) = (\<exists>c \<in> set cs. state (sync_table s c) = 3)"
    using rows by simp
  have ti: "remaining (sync_table s' i) = remaining (sync_table s i) + (if state ?r = 1 then 1 else 0)"
    "children_list (sync_table s' i) = children_list (sync_table s i) @ (if state ?r = 1 then [c] else [])"
    "state (sync_table s' i) = (if state ?r = 3 then 3 else state (sync_table s i))"
    "row_type (sync_table s' i) = row_type (sync_table s i)" "signaled (sync_table s' i) = signaled (sync_table s i)"
    using ci by (auto simp: s'_def)
  have td: "sync_table t d = (if d \<in> set (filter (\<lambda>c. state (sync_table s c) = 1) (c # cs))
       then (sync_table s d)\<lparr>parents_list := parents_list (sync_table s d) @ [i]\<rparr> else sync_table s d)"
    if "d \<noteq> i" for d
    using t(7) [OF that] that ci rows [of d] by (auto simp: s'_def)
  show ?case unfolding run
    by (intro exI [of _ t]) (use t(1-6) ti td in \<open>auto simp: ex algebra_simps\<close>)
qed

text \<open>
  C14: merging valid, distinct single fences while an index is free succeeds, and the new handle is
  an unused index holding a group whose children are exactly the fences still active, each of which
  now names the group as a parent; the count of the group is the number of those children, and a
  group without any is completed at once, in error exactly if one of the fences had ended in error.
\<close>

theorem merge_spec:
  assumes inv: "sync_inv s" and len: "1 < length a"
    and dist: "distinct a"
    and ok: "\<forall>x \<in> set a. in_range x \<and> bitmap s (nat x) \<and>
        row_type (sync_table s (nat x)) \<noteq> CAM_SYNC_TYPE_GROUP"
    and room: "\<exists>i < CAM_SYNC_MAX_OBJS. \<not> bitmap s i"
  defines "act \<equiv> filter (\<lambda>c. state (sync_table s c) = CAM_SYNC_STATE_ACTIVE) (map nat a)"
    and "err \<equiv> \<exists>x \<in> set a. state (sync_table s (nat x)) = CAM_SYNC_STATE_SIGNALED_ERROR"
  shows "\<exists>t m. cam_sync_merge (\<lambda>_. True) (\<lambda>_. True) s (Some a) (length a) = (t, Ok (int m)) \<and>
    0 < m \<and> m < CAM_SYNC_MAX_OBJS \<and> \<not> bitmap s m \<and>
    row_type (sync_table t m) = CAM_SYNC_TYPE_GROUP \<and> children_list (sync_table t m) = act \<and>
    remaining (sync_table t m) = of_nat (length act) \<and>
    (signaled (sync_table t m) \<longleftrightarrow> act = []) \<and>
    state (sync_table t m) = (if err then CAM_SYNC_STATE_SIGNALED_ERROR
       else if act = [] then CAM_SYNC_STATE_SIGNALED_SUCCESS else CAM_SYNC_STATE_ACTIVE) \<and>
    (\<forall>c. c \<noteq> m \<longrightarrow> parents_list (sync_table t c) =
       parents_list (sync_table s c) @ (if c \<in> set act then [m] else []))"
proof -
  let ?objs = "map nat a"
  obtain n b where dup: "cam_common_util_remove_duplicate_arr (Some a) (length a) = (n, b)" by force
  have one: "1 \<le> length a" using len by simp
  note ds = remove_duplicate_arr_spec [OF one order_refl dup]
  have n: "n = length a" using ds(4) dist by simp
  have b: "take (length a) b = a" using ds(5) n by simp
  have live: "state (sync_table s (nat x)) \<in> {1, 2, 3}" if "x \<in> set a" for x
    using ok that inv_bitmap [OF inv, of "nat x"] inv_state [OF inv, of "nat x"]
    by (auto simp: in_range_iff nat_less_iff)
  have valid: "check_valid_all s a = Ok ()" using ok live by (fastforce simp: check_valid_all_Ok)
  obtain u m where cl: "claim_bit s = Some (u, m)"
    using room sync_ids.alloc_None [of s] by (cases "claim_bit s") auto
  note c = claim_bit_Some [OF cl] claim_bit_pos [OF inv cl]
  note args = merge_args [OF len order_refl dup [unfolded n]]
  have obj: "distinct ?objs" "m \<notin> set ?objs"
    using args(2,3) valid b c(2) by auto
  define s0 where "s0 = upd_row m (\<lambda>_. new_row m (Some ''merged_fence'') CAM_SYNC_TYPE_GROUP 0) u"
  have same: "sync_table s0 d = sync_table s d" if "d \<noteq> m" for d using that c(3) by (simp add: s0_def)
  have rm: "remaining (sync_table s0 m) = 0" "children_list (sync_table s0 m) = []" "state (sync_table s0 m) = 1"
    "row_type (sync_table s0 m) = 1" "\<not> signaled (sync_table s0 m)"
    by (simp_all add: s0_def)
  have dm: "nat x \<noteq> m" if "x \<in> set a" for x using that obj(2) by auto
  have act0: "filter (\<lambda>c. state (sync_table s0 c) = 1) ?objs = act"
    unfolding act_def using same dm by (intro filter_cong) auto
  have err0: "(\<exists>c \<in> set ?objs. state (sync_table s0 c) = 3) = err"
    unfolding err_def using same dm by auto
  have pre: "\<forall>c \<in> set ?objs. row_type (sync_table s0 c) \<noteq> CAM_SYNC_TYPE_GROUP \<and> state (sync_table s0 c) \<in> {1, 2, 3}"
    using ok live same dm by auto
  obtain t where t: "init_group_loop (\<lambda>_. True) (\<lambda>_. True) m 0 ?objs s0 = (t, None)"
    "remaining (sync_table t m) = of_nat (length act)" "children_list (sync_table t m) = act"
    "state (sync_table t m) = (if err then 3 else 1)" "row_type (sync_table t m) = 1"
    "\<not> signaled (sync_table t m)"
    "\<And>d. d \<noteq> m \<Longrightarrow> sync_table t d = (if d \<in> set act
       then (sync_table s0 d)\<lparr>parents_list := parents_list (sync_table s0 d) @ [m]\<rparr> else sync_table s0 d)"
    using init_group_loop_ok [where ac = "\<lambda>_. True" and ap = "\<lambda>_. True", OF TrueI TrueI obj pre, of 0]
    unfolding act0 err0 rm by (elim exE conjE) (simp add: rm)
  have "length act \<le> length a" unfolding act_def by (metis length_filter_le length_map)
  moreover have "length a \<le> CAM_SYNC_MAX_OBJS"
  proof -
    have "set ?objs \<subseteq> {..<CAM_SYNC_MAX_OBJS}" using args(3) valid b by auto
    then have "card (set ?objs) \<le> CAM_SYNC_MAX_OBJS"
      using card_mono [of "{..<CAM_SYNC_MAX_OBJS}" "set ?objs"] by simp
    then show ?thesis using distinct_card [OF obj(1)] by simp
  qed
  ultimately have z: "(of_nat (length act) :: u32) = 0 \<longleftrightarrow> act = []"
    by (simp add: of_nat_u32_eq_0)
  let ?t' = "if act = [] then upd_row m (\<lambda>r. r\<lparr>state := (if state r \<noteq> 3 then 2 else state r), signaled := True\<rparr>) t else t"
  have run: "cam_sync_merge (\<lambda>_. True) (\<lambda>_. True) s (Some a) (length a) = (?t', Ok (int m))"
    using len dup n b valid cl c t(1,2) z
    by (simp add: cam_sync_merge_def cam_sync_init_group_object_def init_row_new Let_def s0_def)
  have par: "parents_list (sync_table ?t' d) = parents_list (sync_table s d) @ (if d \<in> set act then [m] else [])"
    if "d \<noteq> m" for d
    using t(7) [OF that] same [OF that] that by auto
  show ?thesis
    by (intro exI [of _ ?t'] exI [of _ m] conjI run) (use c t(2-6) par in \<open>auto\<close>)
qed

subsection \<open>Destruction\<close>

text \<open>The second loop takes the destroyed fence off the lists of the groups it waited in.\<close>

lemma unlink_parents_children:
  assumes "\<And>p. state (sync_table s p) \<noteq> CAM_SYNC_STATE_INVALID \<or> p \<notin> set ps" "distinct ps"
  shows "children_list (sync_table (fold (unlink_parent_of i) ps s) c) =
    (if c \<in> set ps then remove1 i (children_list (sync_table s c)) else children_list (sync_table s c))"
  using assms
proof (induction ps arbitrary: s)
  case (Cons p ps)
  let ?s = "unlink_parent_of i p s"
  have st: "state (sync_table ?s q) = state (sync_table s q)" for q
    by (simp add: unlink_parent_of_def cam_sync_util_cleanup_children_list_def)
  have "state (sync_table s p) \<noteq> CAM_SYNC_STATE_INVALID" using Cons.prems(1) [of p] by simp
  then have ch: "children_list (sync_table ?s q) = (if q = p then remove1 i (children_list (sync_table s q)) else children_list (sync_table s q))" for q
    by (simp add: unlink_parent_of_def cam_sync_util_cleanup_children_list_def clean_list_def)
  have "state (sync_table ?s q) \<noteq> CAM_SYNC_STATE_INVALID \<or> q \<notin> set ps" for q using Cons.prems(1) [of q] st by auto
  from Cons.IH [OF this] Cons.prems(2) ch show ?case by auto
qed simp

lemma unlink_children_children:
  "children_list (sync_table (fold (unlink_child_of i) cs s) c) = children_list (sync_table s c)"
proof (induction cs arbitrary: s)
  case (Cons d cs)
  then show ?case by (simp add: unlink_child_of_def cam_sync_util_cleanup_parents_list_def)
qed simp

text \<open>
  C23: destroying a live fence frees its index, clears its row, removes it from the parents list
  of every other row, and takes it once off the children list of each group in its own parents list;
  every other children list, and the state and count of every other fence, stay as they were. (A group
  whose child was signaled before is no longer in the child's parents list, so it keeps the entry.) A
  second destroy of the same handle is refused.
\<close>

theorem destroy_spec:
  assumes inv: "sync_inv s" and i: "0 < i" "i < CAM_SYNC_MAX_OBJS"
    and live: "state (sync_table s i) \<noteq> CAM_SYNC_STATE_INVALID"
  shows "\<exists>t. cam_sync_destroy s (int i) = (t, Ok ()) \<and> sync_inv t \<and> \<not> bitmap t i \<and>
    sync_table t i = zero_row \<and> linked t i = {} \<and>
    (\<forall>c. c \<noteq> i \<longrightarrow> state (sync_table t c) = state (sync_table s c) \<and>
       remaining (sync_table t c) = remaining (sync_table s c) \<and>
       set (parents_list (sync_table t c)) = set (parents_list (sync_table s c)) - {i} \<and>
       children_list (sync_table t c) =
         (if c \<in> set (parents_list (sync_table s i)) then remove1 i (children_list (sync_table s c)) else children_list (sync_table s c))) \<and>
    cam_sync_destroy t (int i) = (t, Err EINVAL)"
proof -
  let ?r = "sync_table s i"
  define s1 where "s1 = upd_row i (\<lambda>r. r\<lparr>state := CAM_SYNC_STATE_INVALID,
      children_list := filter (\<lambda>c. \<not> 0 < c) (children_list r),
      parents_list := filter (\<lambda>p. \<not> 0 < p) (parents_list r)\<rparr>) s"
  define s3 where "s3 = fold (unlink_parent_of i) (filter (\<lambda>p. 0 < p) (parents_list ?r))
      (fold (unlink_child_of i) (filter (\<lambda>c. 0 < c) (children_list ?r)) s1)"
  define t where "t = set_bit_row i False (upd_row i (\<lambda>_. zero_row) s3)"
  have m: "nat (int i mod 2 ^ 32) = i" using i by (simp add: nat_mod_distrib)
  have run: "cam_sync_destroy s (int i) = (t, Ok ())"
    using i live by (simp add: cam_sync_destroy_def m cam_sync_deinit_object_def s1_def s3_def t_def Let_def)
  then have it: "sync_inv t" using destroy_inv [OF inv, of "int i"] by simp
  have zi: "sync_table t i = zero_row" "\<not> bitmap t i" by (simp_all add: t_def)
  have lk: "linked t i = {}" using fresh_linked_empty [OF it] zi by simp
  have sh: "shrink i s1 s3"
    unfolding s3_def by (rule shrink_trans [OF shrink_fold shrink_fold]) (rule shrink_steps)+
  have rows: "state (sync_table t c) = state (sync_table s c) \<and>
      remaining (sync_table t c) = remaining (sync_table s c) \<and>
      set (parents_list (sync_table t c)) = set (parents_list (sync_table s c)) - {i}" if "c \<noteq> i" for c
  proof -
    have "i \<notin> set (parents_list (sync_table t c))" using lk by (auto simp: linked_def)
    then show ?thesis using that shrinkD(3,4,6,7) [OF sh, of c] by (auto simp: t_def s1_def)
  qed
  have chl: "children_list (sync_table t c) =
      (if c \<in> set (parents_list ?r) then remove1 i (children_list (sync_table s c)) else children_list (sync_table s c))" if "c \<noteq> i" for c
  proof -
    let ?s2 = "fold (unlink_child_of i) (filter (\<lambda>c. 0 < c) (children_list ?r)) s1"
    have st: "state (sync_table ?s2 p) = state (sync_table s p)" if "p \<noteq> i" for p
    proof -
      have "shrink i s1 ?s2" by (rule shrink_fold) (rule shrink_steps)
      from shrinkD(3) [OF this, of p] that show ?thesis by (simp add: s1_def)
    qed
    have par: "0 < p \<and> p \<noteq> i \<and> state (sync_table s p) \<noteq> CAM_SYNC_STATE_INVALID" if "p \<in> set (parents_list ?r)" for p
    proof -
      have "parents_list ?r \<noteq> []" using that by auto
      from inv_has_parents [OF inv this] inv_parent [OF inv that] show ?thesis by (auto simp: live_group_def)
    qed
    then have ps: "filter (\<lambda>p. 0 < p) (parents_list ?r) = parents_list ?r" by (simp add: filter_id_conv)
    have "state (sync_table ?s2 p) \<noteq> CAM_SYNC_STATE_INVALID \<or> p \<notin> set (parents_list ?r)" for p using par st by metis
    from unlink_parents_children [OF this inv_distinct [OF inv]] that show ?thesis
      by (simp add: t_def s3_def ps unlink_children_children) (simp add: s1_def)
  qed
  have again: "cam_sync_destroy t (int i) = (t, Err EINVAL)"
    using i by (simp add: cam_sync_destroy_def m cam_sync_deinit_object_def zi)
  show ?thesis using run it zi lk rows chl again by blast
qed

end
