(* ===== verification/Cam_Sync_Findings.thy ===== *)
theory Cam_Sync_Findings
  imports Cam_Sync_Life
begin

text \<open>
  Small runs of the sync driver. The first part builds a table with two fences and their merge, for
  the witnesses of the properties. The rest proves two behaviours of \<^verbatim>\<open>cam_sync.c\<close> that are easy
  to get wrong for a client: a merged fence that is reset loses its children while they still name it,
  and a signal with an invalid state takes a reference that no later signal returns.
\<close>

subsection \<open>A table with two fences and their merge\<close>

definition demo_two :: sync_device where
  "demo_two = fst (cam_sync_create (fst (cam_sync_create sync_probe_state None 0)) None 7)"

definition demo_merged :: sync_device where
  "demo_merged = fst (cam_sync_merge (\<lambda>_. True) (\<lambda>_. True) demo_two (Some [1, 2]) 2)"

text \<open>Both fences with one reference, on an opened device.\<close>

definition demo_ready :: sync_device where
  "demo_ready = (fst (cam_sync_get_obj_ref (fst (cam_sync_get_obj_ref demo_merged 1)) 2))
     \<lparr>cam_sync_eventq := True\<rparr>"

lemma ffz_demo:
  "find_first_zero_bit (\<lambda>i. i = 0) 1024 = 1"
  "find_first_zero_bit ((\<lambda>i. i = 0)(Suc 0 := True)) 1024 = 2"
  "find_first_zero_bit ((\<lambda>i. i = 0)(Suc 0 := True, 2 := True)) 1024 = 3"
  by (rule find_first_zero_bit_eqI; auto)+

lemma demo_two_eq:
  "demo_two = sync_probe_state\<lparr>
     sync_table := (\<lambda>_. zero_row)(1 := new_row 1 None CAM_SYNC_TYPE_INDV 0, 2 := new_row 2 None CAM_SYNC_TYPE_INDV 7),
     bitmap := (\<lambda>i. i = 0)(1 := True, 2 := True)\<rparr>"
proof -
  let ?s1 = "upd_row 1 (\<lambda>_. new_row 1 None CAM_SYNC_TYPE_INDV 0) (set_bit_row 1 True sync_probe_state)"
  have 1: "cam_sync_create sync_probe_state None 0 = (?s1, Ok 1)"
    using create_at [of sync_probe_state 1 None 0] ffz_demo(1) by (simp add: sync_probe_state_def)
  have "cam_sync_create ?s1 None 7 =
      (upd_row 2 (\<lambda>_. new_row 2 None CAM_SYNC_TYPE_INDV 7) (set_bit_row 2 True ?s1), Ok 2)"
    using create_at [of ?s1 2 None 7] ffz_demo(2) by (simp add: sync_probe_state_def)
  then show ?thesis
    by (simp add: demo_two_def 1) (simp add: upd_row_def set_bit_row_def sync_probe_state_def)
qed

lemma demo_merge_run:
  "cam_sync_merge (\<lambda>_. True) (\<lambda>_. True) demo_two (Some [1, 2]) 2 =
    (sync_probe_state\<lparr>sync_table := (\<lambda>_. zero_row)
        (1 := (new_row 1 None CAM_SYNC_TYPE_INDV 0)\<lparr>parents_list := [3]\<rparr>,
         2 := (new_row 2 None CAM_SYNC_TYPE_INDV 7)\<lparr>parents_list := [3]\<rparr>,
         3 := (new_row 3 (Some ''merged_fence'') CAM_SYNC_TYPE_GROUP 7)\<lparr>remaining := 2, children_list := [1, 2]\<rparr>),
        bitmap := (\<lambda>i. i = 0)(1 := True, 2 := True, 3 := True)\<rparr>, Ok 3)"
proof -
  have d: "cam_common_util_remove_duplicate_arr (Some [1, 2]) 2 = (2, [1, 2])"
    by (simp add: cam_common_util_remove_duplicate_arr_def remove_dup_loop.simps dup_scan.simps)
  have v: "check_valid_all demo_two [1, 2] = Ok ()"
    by (simp add: cam_sync_check_valid_def demo_two_eq in_range_iff)
  have c: "claim_bit demo_two = Some (set_bit_row 3 True demo_two, 3)"
    using ffz_demo(3) by (simp add: claim_bit_eq demo_two_eq Let_def)
  have g: "cam_sync_init_group_object (\<lambda>_. True) (\<lambda>_. True) (set_bit_row 3 True demo_two) 3 [1, 2] =
    (sync_probe_state\<lparr>sync_table := (\<lambda>_. zero_row)
        (1 := (new_row 1 None CAM_SYNC_TYPE_INDV 0)\<lparr>parents_list := [3]\<rparr>,
         2 := (new_row 2 None CAM_SYNC_TYPE_INDV 7)\<lparr>parents_list := [3]\<rparr>,
         3 := (new_row 3 (Some ''merged_fence'') CAM_SYNC_TYPE_GROUP 7)\<lparr>remaining := 2, children_list := [1, 2]\<rparr>),
        bitmap := (\<lambda>i. i = 0)(1 := True, 2 := True, 3 := True)\<rparr>, Ok ())"
    by (simp add: cam_sync_init_group_object_def init_row_new demo_two_eq Let_def)
      (simp add: upd_row_def set_bit_row_def new_row_def fun_eq_iff)
  show ?thesis
    using g v by (simp add: cam_sync_merge_def d c del: check_valid_all.simps)
qed

lemma demo_ready_eq:
  "demo_ready = sync_probe_state\<lparr>sync_table := (\<lambda>_. zero_row)
        (1 := (new_row 1 None CAM_SYNC_TYPE_INDV 0)\<lparr>parents_list := [3], ref_cnt := 1\<rparr>,
         2 := (new_row 2 None CAM_SYNC_TYPE_INDV 7)\<lparr>parents_list := [3], ref_cnt := 1\<rparr>,
         3 := (new_row 3 (Some ''merged_fence'') CAM_SYNC_TYPE_GROUP 7)\<lparr>remaining := 2, children_list := [1, 2]\<rparr>),
        bitmap := (\<lambda>i. i = 0)(1 := True, 2 := True, 3 := True), cam_sync_eventq := True\<rparr>"
  by (simp add: demo_ready_def demo_merged_def demo_merge_run cam_sync_get_obj_ref_def in_range_iff)
    (simp add: upd_row_def fun_eq_iff new_row_def)

lemma demo_inv: "sync_inv demo_two" "sync_inv demo_merged" "sync_inv demo_ready"
proof -
  show 2: "sync_inv demo_two" unfolding demo_two_def by (intro create_inv probe_inv)
  show m: "sync_inv demo_merged" unfolding demo_merged_def by (rule merge_inv [OF 2]) simp
  let ?s = "fst (cam_sync_get_obj_ref (fst (cam_sync_get_obj_ref demo_merged 1)) 2)"
  have "sync_inv ?s" using m same_core_inv [OF get_obj_ref_same_core] by simp
  moreover have "same_core ?s (?s\<lparr>cam_sync_eventq := True\<rparr>)" by (simp add: same_core_def)
  ultimately show "sync_inv demo_ready" unfolding demo_ready_def using same_core_inv by blast
qed

lemma demo_signalable: "signalable demo_ready 1" "signalable demo_ready 2"
  by (simp_all add: signalable_def demo_ready_eq)

subsection \<open>Witnesses\<close>

theorem signal_effect_witness:
  "\<exists>t cbs evs. cam_sync_signal demo_ready (int 1) CAM_SYNC_STATE_SIGNALED_SUCCESS = (t, Ok ()) \<and>
    sync_table t 1 = (sync_table demo_ready 1)\<lparr>state := CAM_SYNC_STATE_SIGNALED_SUCCESS, ref_cnt := 0,
      callback_list := [], user_payload_list := [], signaled := True, parents_list := []\<rparr> \<and>
    work_queue t = work_queue demo_ready @ map (\<lambda>cb. cb\<lparr>cb_status := CAM_SYNC_STATE_SIGNALED_SUCCESS\<rparr>)
      (callback_list (sync_table demo_ready 1)) @ cbs \<and>
    v4l2_events t = v4l2_events demo_ready @ map (event_of demo_ready 1 CAM_SYNC_STATE_SIGNALED_SUCCESS)
      (user_payload_list (sync_table demo_ready 1)) @ evs"
  by (rule signal_effect [OF demo_inv(3) demo_signalable(1)]) (simp_all add: demo_ready_eq)

theorem group_completes_witness:
  "signaled (sync_table (signal_seq demo_ready [(2, CAM_SYNC_STATE_SIGNALED_SUCCESS), (1, CAM_SYNC_STATE_SIGNALED_ERROR)]) 3) \<and>
   state (sync_table (signal_seq demo_ready [(2, CAM_SYNC_STATE_SIGNALED_SUCCESS), (1, CAM_SYNC_STATE_SIGNALED_ERROR)]) 3)
     = CAM_SYNC_STATE_SIGNALED_ERROR"
proof -
  have "\<forall>(c, st) \<in> set [(2, CAM_SYNC_STATE_SIGNALED_SUCCESS), (1, CAM_SYNC_STATE_SIGNALED_ERROR)].
      signalable demo_ready c \<and> 3 \<in> set (parents_list (sync_table demo_ready c)) \<and>
      st \<in> {CAM_SYNC_STATE_SIGNALED_SUCCESS, CAM_SYNC_STATE_SIGNALED_ERROR}"
    by (simp add: signalable_def demo_ready_eq)
  moreover have "\<not> signaled (sync_table demo_ready 3)" "remaining (sync_table demo_ready 3) = 2"
    by (simp_all add: demo_ready_eq)
  ultimately show ?thesis
    using group_completes [OF demo_inv(3), of "[(2, CAM_SYNC_STATE_SIGNALED_SUCCESS), (1, CAM_SYNC_STATE_SIGNALED_ERROR)]" 3]
    by simp
qed

theorem create_spec_witness:
  "case cam_sync_create demo_two None 0 of
      (t, Inr h) \<Rightarrow> 0 < h \<and> h < 1024 \<and> \<not> bitmap demo_two (nat h) \<and> (\<forall>i < nat h. bitmap demo_two i) \<and> bitmap t = (bitmap demo_two)(nat h := True) \<and>
        sync_table t = (sync_table demo_two)(nat h := new_row (nat h) None CAM_SYNC_TYPE_INDV 0)
    | (t, Inl e) \<Rightarrow> e = ENOMEM \<and> (\<forall>i < CAM_SYNC_MAX_OBJS. bitmap demo_two i) \<and>
        sync_table t = sync_table demo_two \<and> bitmap t = bitmap demo_two"
  by (rule create_spec [OF demo_inv(1)])

text \<open>The second allocation of the loop fails for the second child.\<close>

lemma demo_merge_fails:
  "\<exists>t. cam_sync_merge (\<lambda>_. True) (\<lambda>i. i = 0) demo_two (Some [1, 2]) 2 = (t, Inl EINVAL)"
proof -
  have d: "cam_common_util_remove_duplicate_arr (Some [1, 2]) 2 = (2, [1, 2])"
    by (simp add: cam_common_util_remove_duplicate_arr_def remove_dup_loop.simps dup_scan.simps)
  have v: "check_valid_all demo_two [1, 2] = Ok ()"
    by (simp add: cam_sync_check_valid_def demo_two_eq in_range_iff)
  have c: "claim_bit demo_two = Some (set_bit_row 3 True demo_two, 3)"
    using ffz_demo(3) by (simp add: claim_bit_eq demo_two_eq Let_def)
  have "\<exists>u. cam_sync_init_group_object (\<lambda>_. True) (\<lambda>i. i = 0) (set_bit_row 3 True demo_two) 3 [1, 2] = (u, Inl ENOMEM)"
    by (simp add: cam_sync_init_group_object_def init_row_new demo_two_eq Let_def)
  then obtain u where
    "cam_sync_init_group_object (\<lambda>_. True) (\<lambda>i. i = 0) (set_bit_row 3 True demo_two) 3 [1, 2] = (u, Inl ENOMEM)" ..
  with v show ?thesis by (simp add: cam_sync_merge_def d c del: check_valid_all.simps)
qed

theorem merge_failure_atomic_witness:
  "\<exists>t. cam_sync_merge (\<lambda>_. True) (\<lambda>i. i = 0) demo_two (Some [1, 2]) 2 = (t, Inl EINVAL) \<and>
     bitmap t = bitmap demo_two \<and> (\<forall>c. bitmap demo_two c \<longrightarrow> sync_table t c = sync_table demo_two c)"
proof -
  obtain t where t: "cam_sync_merge (\<lambda>_. True) (\<lambda>i. i = 0) demo_two (Some [1, 2]) 2 = (t, Inl EINVAL)"
    using demo_merge_fails by blast
  then show ?thesis using merge_failure_atomic [OF demo_inv(1) _ t] by simp
qed

theorem merge_spec_witness:
  "\<exists>t m. cam_sync_merge (\<lambda>_. True) (\<lambda>_. True) demo_two (Some [1, 2]) (length [1, 2 :: int]) = (t, Ok (int m)) \<and>
     remaining (sync_table t m) = 2"
proof -
  have "\<exists>i < CAM_SYNC_MAX_OBJS. \<not> bitmap demo_two i" by (intro exI [of _ 3]) (simp add: demo_two_eq)
  then show ?thesis
    using merge_spec [OF demo_inv(1), of "[1, 2]"] by (auto simp: demo_two_eq in_range_iff)
qed

theorem destroy_spec_witness:
  "\<exists>t. cam_sync_destroy demo_merged (int 1) = (t, Ok ()) \<and> children_list (sync_table t 3) = [2] \<and>
     cam_sync_destroy t (int 1) = (t, Err EINVAL)"
  using destroy_spec [OF demo_inv(2), of 1] by (auto simp: demo_merged_def demo_merge_run)

subsection \<open>Resetting a merged fence\<close>

text \<open>
  A RESET of a merged fence drops its list of children, which still name it as a parent: the links
  and the count of the group no longer agree with the lists of its children.
\<close>

theorem reset_breaks_links:
  "\<exists>t. cam_sync_reset demo_merged 3 = (t, Ok ()) \<and> row_type (sync_table t 3) = CAM_SYNC_TYPE_GROUP \<and>
     children_list (sync_table t 3) = [] \<and> remaining (sync_table t 3) = 0 \<and>
     parents_list (sync_table t 1) = [3] \<and> parents_list (sync_table t 2) = [3] \<and> \<not> sync_inv t"
proof -
  define t where "t = fst (cam_sync_reset demo_merged 3)"
  have r: "cam_sync_reset demo_merged 3 = (t, Ok ())"
    by (simp add: t_def cam_sync_reset_def demo_merged_def demo_merge_run in_range_iff new_row_def)
  have f: "row_type (sync_table t 3) = CAM_SYNC_TYPE_GROUP" "children_list (sync_table t 3) = []" "remaining (sync_table t 3) = 0"
      "parents_list (sync_table t 1) = [3]" "parents_list (sync_table t 2) = [3]"
    by (simp_all add: t_def cam_sync_reset_def demo_merged_def demo_merge_run in_range_iff new_row_def)
  then have "\<not> sync_inv t" using inv_parent [of t "[]" 3 1] by auto
  then show ?thesis using r f by simp
qed

subsection \<open>Signaling without the one reference\<close>

lemma signal_not_last_ref:
  assumes "0 < i" "i < CAM_SYNC_MAX_OBJS" "row_type (sync_table s i) \<noteq> CAM_SYNC_TYPE_GROUP"
    "state (sync_table s i) = CAM_SYNC_STATE_ACTIVE" "ref_cnt (sync_table s i) \<noteq> 1"
    "st \<in> {CAM_SYNC_STATE_SIGNALED_SUCCESS, CAM_SYNC_STATE_SIGNALED_ERROR}"
  shows "cam_sync_signal s (int i) st = (upd_row i (\<lambda>r. r\<lparr>ref_cnt := ref_cnt r - 1\<rparr>) s, Ok ())"
  using assms by (auto simp: cam_sync_signal_def signal_locked_def Let_def)

text \<open>
  C40: a SIGNAL ioctl with an undefined state is refused but keeps the reference it took, so the next
  SIGNAL ioctl, with a proper state, reports success and yet leaves the fence active and sends
  nothing.
\<close>

theorem bad_signal_loses_fence:
  assumes "0 < i" "i < CAM_SYNC_MAX_OBJS" "row_type (sync_table s i) \<noteq> CAM_SYNC_TYPE_GROUP"
    "state (sync_table s i) = CAM_SYNC_STATE_ACTIVE" "ref_cnt (sync_table s i) = 0"
    and bad: "bad \<notin> {CAM_SYNC_STATE_SIGNALED_SUCCESS, CAM_SYNC_STATE_SIGNALED_ERROR}"
    and good: "good \<in> {CAM_SYNC_STATE_SIGNALED_SUCCESS, CAM_SYNC_STATE_SIGNALED_ERROR}"
    and k: "ioctl_size k = 8" "ioctl_ptr k \<noteq> 0"
  shows "\<exists>t u. cam_sync_handle_signal s k (Some \<lparr>signal_sync_obj = int i, signal_sync_state = bad\<rparr>) = (t, Err EINVAL) \<and>
    cam_sync_handle_signal t k (Some \<lparr>signal_sync_obj = int i, signal_sync_state = good\<rparr>) = (u, Ok ()) \<and>
    state (sync_table u i) = CAM_SYNC_STATE_ACTIVE \<and> \<not> (signaled (sync_table u i) \<and> \<not> signaled (sync_table s i)) \<and>
    work_queue u = work_queue s \<and> v4l2_events u = v4l2_events s"
proof -
  let ?t = "upd_row i (\<lambda>r. r\<lparr>ref_cnt := ref_cnt r + 1\<rparr>) s"
  let ?t2 = "upd_row i (\<lambda>r. r\<lparr>ref_cnt := ref_cnt r + 1\<rparr>) ?t"
  have g1: "cam_sync_get_obj_ref s (int i) = (?t, Ok ())" "cam_sync_get_obj_ref ?t (int i) = (?t2, Ok ())"
    using assms by (simp_all add: cam_sync_get_obj_ref_def)
  have b: "cam_sync_signal ?t (int i) bad = (?t, Err EINVAL)"
    using assms bad by (simp add: cam_sync_signal_def signal_locked_def Let_def)
  have g: "cam_sync_signal ?t2 (int i) good = (upd_row i (\<lambda>r. r\<lparr>ref_cnt := ref_cnt r - 1\<rparr>) ?t2, Ok ())"
    using assms good by (intro signal_not_last_ref) auto
  show ?thesis using assms k g1 b g by (simp add: cam_sync_handle_signal_def ioctl_copy_in_def)
qed

theorem bad_signal_loses_fence_witness:
  "\<exists>t u. cam_sync_handle_signal demo_two \<lparr>ioctl_id = 2, ioctl_size = 8, ioctl_result = Ok (), ioctl_ptr = 16\<rparr>
      (Some \<lparr>signal_sync_obj = int 1, signal_sync_state = 0\<rparr>) = (t, Err EINVAL) \<and>
    cam_sync_handle_signal t \<lparr>ioctl_id = 2, ioctl_size = 8, ioctl_result = Ok (), ioctl_ptr = 16\<rparr>
      (Some \<lparr>signal_sync_obj = int 1, signal_sync_state = 2\<rparr>) = (u, Ok ()) \<and>
    state (sync_table u 1) = CAM_SYNC_STATE_ACTIVE"
  using bad_signal_loses_fence [of 1 demo_two 0 2
      "\<lparr>ioctl_id = 2, ioctl_size = 8, ioctl_result = Ok (), ioctl_ptr = 16\<rparr>"]
  by (auto simp: demo_two_eq)

end
