(* ===== verification/Cam_Ring.thy ===== *)
theory Cam_Ring
  imports Cam_Prelude
begin

text \<open>
  Ring buffers of words with a read and a write index: the layout the host and the ICP firmware
  share for their queues. \<open>ring_words\<close> is the list of words between the two indices, \<open>ring_write\<close>
  the memory after some words were written at an index with wrap-around, and \<open>memcpy_words\<close> the
  copy the code makes in one or two pieces.
\<close>

definition ring_len :: "nat \<Rightarrow> nat \<Rightarrow> nat \<Rightarrow> nat" where
  "ring_len n r w = (w + n - r) mod n"

definition ring_words :: "(nat \<Rightarrow> 'a) \<Rightarrow> nat \<Rightarrow> nat \<Rightarrow> nat \<Rightarrow> 'a list" where
  "ring_words mem n r w = map (\<lambda>i. mem ((r + i) mod n)) [0..<ring_len n r w]"

definition memcpy_words :: "(nat \<Rightarrow> 'a) \<Rightarrow> nat \<Rightarrow> 'a list \<Rightarrow> nat \<Rightarrow> 'a" where
  "memcpy_words mem dst xs = (\<lambda>p. if dst \<le> p \<and> p < dst + length xs then xs ! (p - dst) else mem p)"

definition ring_write :: "(nat \<Rightarrow> 'a) \<Rightarrow> nat \<Rightarrow> nat \<Rightarrow> 'a list \<Rightarrow> nat \<Rightarrow> 'a" where
  "ring_write mem n w xs =
     (if w + length xs < n then memcpy_words mem w xs
      else memcpy_words (memcpy_words mem w (take (n - w) xs)) 0 (drop (n - w) xs))"

subsection \<open>Indices\<close>

lemma ring_len_less: "0 < n \<Longrightarrow> ring_len n r w < n"
  by (simp add: ring_len_def)

lemma ring_len_eq:
  "r < n \<Longrightarrow> w < n \<Longrightarrow> ring_len n r w = (if r \<le> w then w - r else n - (r - w))"
  by (auto simp: ring_len_def mod_if)

lemma ring_len_0: "r < n \<Longrightarrow> w < n \<Longrightarrow> ring_len n r w = 0 \<longleftrightarrow> r = w"
  by (auto simp: ring_len_eq)

lemma ring_words_length [simp]: "length (ring_words mem n r w) = ring_len n r w"
  by (simp add: ring_words_def)

lemma ring_words_nil: "r < n \<Longrightarrow> ring_words mem n r r = []"
  by (simp add: ring_words_def ring_len_eq)

lemma ring_pos: "r < n \<Longrightarrow> i < n \<Longrightarrow> (r + i) mod n = (if r + i < n then r + i else r + i - n)" for r :: nat
  by (auto simp: le_mod_geq)

lemma ring_len_write:
  assumes "r < n" "w < n" "ring_len n r w + k < n"
  shows "ring_len n r ((w + k) mod n) = ring_len n r w + k"
  using assms ring_pos [of w n k] by (auto simp: ring_len_eq split: if_splits)

lemma ring_write_at:
  assumes "w < n" "length xs < n" "j < length xs"
  shows "ring_write mem n w xs ((w + j) mod n) = xs ! j"
  using assms by (auto simp: ring_write_def memcpy_words_def ring_pos)

lemma ring_write_other:
  assumes "w < n" "length xs < n" "p < n" "\<And>j. j < length xs \<Longrightarrow> p \<noteq> (w + j) mod n"
  shows "ring_write mem n w xs p = mem p"
proof -
  have "\<not> (w \<le> p \<and> p < w + length xs)"
  proof
    assume "w \<le> p \<and> p < w + length xs"
    then have "p - w < length xs" "(w + (p - w)) mod n = p" using assms(3) by auto
    then show False using assms(4) by metis
  qed
  moreover have "\<not> p + n < w + length xs"
  proof
    assume a: "p + n < w + length xs"
    then have "p + n - w < length xs" "(w + (p + n - w)) mod n = p" using assms(1,3) by auto
    then show False using assms(4) by metis
  qed
  ultimately show ?thesis using assms by (auto simp: ring_write_def memcpy_words_def)
qed

lemma ring_write_outside: "w < n \<Longrightarrow> length xs < n \<Longrightarrow> n \<le> p \<Longrightarrow> ring_write mem n w xs p = mem p"
  by (auto simp: ring_write_def memcpy_words_def)

lemma mod_pos_distinct: "i < k \<Longrightarrow> k < n \<Longrightarrow> (r + i) mod n \<noteq> (r + k) mod n" for r :: nat
proof
  assume "i < k" "k < n" "(r + i) mod n = (r + k) mod n"
  then have "n dvd k - i" by (metis add_diff_cancel_left le_add1 mod_eq_dvd_iff_nat nat_add_left_cancel_le less_imp_le)
  with \<open>i < k\<close> \<open>k < n\<close> show False by (auto dest: dvd_imp_le)
qed

subsection \<open>Writing appends, reading drops\<close>

lemma ring_write_words:
  assumes "r < n" "w < n" "ring_len n r w + length xs < n"
  shows "ring_words (ring_write mem n w xs) n r ((w + length xs) mod n) = ring_words mem n r w @ xs"
proof (rule nth_equalityI)
  let ?l = "ring_len n r w" and ?m = "ring_write mem n w xs"
  have w: "w = (r + ?l) mod n" using assms(1,2) by (auto simp: ring_len_eq)
  show "length (ring_words ?m n r ((w + length xs) mod n)) = length (ring_words mem n r w @ xs)"
    using ring_len_write [OF assms] by simp
  fix i
  assume "i < length (ring_words ?m n r ((w + length xs) mod n))"
  then have i: "i < ?l + length xs" using ring_len_write [OF assms] by simp
  then have lhs: "ring_words ?m n r ((w + length xs) mod n) ! i = ?m ((r + i) mod n)"
    using ring_len_write [OF assms] by (simp add: ring_words_def)
  show "ring_words ?m n r ((w + length xs) mod n) ! i = (ring_words mem n r w @ xs) ! i"
  proof (cases "i < ?l")
    case True
    have "?m ((r + i) mod n) = mem ((r + i) mod n)"
    proof (rule ring_write_other)
      fix j assume "j < length xs"
      then have "(r + i) mod n \<noteq> (r + (?l + j)) mod n" using True assms(3) by (intro mod_pos_distinct) auto
      then show "(r + i) mod n \<noteq> (w + j) mod n" by (subst w) (simp add: mod_simps add.assoc)
    qed (use assms in auto)
    with lhs True show ?thesis by (simp add: nth_append ring_words_def)
  next
    case False
    then obtain j where j: "i = ?l + j" using le_Suc_ex not_less by blast
    then have "(r + i) mod n = (w + j) mod n" by (subst w) (simp add: mod_simps add.assoc)
    moreover have "j < length xs" "length xs < n" using i j assms(3) by auto
    ultimately show ?thesis using lhs j ring_write_at [OF assms(2), of xs j mem] by (simp add: nth_append)
  qed
qed

lemma ring_words_drop:
  assumes "r < n" "w < n" "k \<le> ring_len n r w"
  shows "ring_words mem n ((r + k) mod n) w = drop k (ring_words mem n r w)"
proof -
  have "ring_len n ((r + k) mod n) w = ring_len n r w - k"
    using assms ring_pos [of r n k] ring_len_less [of n r w] by (auto simp: ring_len_eq split: if_splits)
  then show ?thesis
    by (intro nth_equalityI) (auto simp: ring_words_def mod_simps add.assoc)
qed

end
