(* ===== verification/Cam_Hfi.thy ===== *)
theory Cam_Hfi
  imports Cam_Ring
begin

text \<open>
  The host-firmware interface of the ICP, \<^verbatim>\<open>drivers/cam_icp/hfi.c\<close>: three queues in memory shared
  with the firmware, a command queue the host writes and a message and a debug queue it reads.

  \<open>hfi_sys\<close> is everything the functions touch: the driver's \<^verbatim>\<open>g_hfi\<close>, the shared memory (queue
  headers and the words of each queue, addressed in words from the start of the queue), the writes
  made to the ICP registers, in order, and whether each of the two mutexes is held. What a register
  read returns is an argument of the functions that read one. A packet is the words at the address
  the caller passes, so a caller's buffer is a function from word offsets.
\<close>

datatype hfi_state = HFI_DEINIT | HFI_INIT | HFI_READY

record hfi_mem =
  mem_len :: u64
  mem_kva :: ptr
  mem_iova :: u32

record hfi_mem_info =
  map_qtbl :: hfi_mem
  map_cmd_q :: hfi_mem
  map_msg_q :: hfi_mem
  map_dbg_q :: hfi_mem
  map_sfr_buf :: hfi_mem
  map_sec_heap :: hfi_mem
  map_shmem :: hfi_mem
  map_qdss :: hfi_mem
  map_io_mem :: hfi_mem

record hfi_q_hdr =
  qhdr_status :: u32
  qhdr_start_addr :: u32
  qhdr_type :: u32
  qhdr_q_size :: u32
  qhdr_pkt_size :: u32
  qhdr_pkt_drop_cnt :: u32
  qhdr_rx_wm :: u32
  qhdr_tx_wm :: u32
  qhdr_rx_req :: u32
  qhdr_tx_req :: u32
  qhdr_rx_irq_status :: u32
  qhdr_tx_irq_status :: u32
  qhdr_read_idx :: u32
  qhdr_write_idx :: u32

record hfi_qtbl_hdr =
  qtbl_version :: u32
  qtbl_size :: u32
  qtbl_qhdr0_offset :: u32
  qtbl_qhdr_size :: u32
  qtbl_num_q :: u32
  qtbl_num_active_q :: u32

record hfi_info =
  hfi_map :: hfi_mem_info
  hfi_st :: hfi_state
  cmd_q_state :: bool
  msg_q_state :: bool
  csr_base :: ptr

record hfi_sys =
  g_hfi :: "hfi_info option"
  q_tbl_hdr :: hfi_qtbl_hdr
  q_hdr :: "nat \<Rightarrow> hfi_q_hdr"
  cmd_q :: "nat \<Rightarrow> u32"
  msg_q :: "nat \<Rightarrow> u32"
  dbg_q :: "nat \<Rightarrow> u32"
  sfr_size :: u32
  csr_writes :: "(u32 \<times> u32) list"
  hfi_cmd_q_mutex :: bool
  hfi_msg_q_mutex :: bool

abbreviation Q_CMD :: nat where "Q_CMD \<equiv> 0"
abbreviation Q_MSG :: nat where "Q_MSG \<equiv> 1"
abbreviation Q_DBG :: nat where "Q_DBG \<equiv> 2"
abbreviation BYTE_WORD_SHIFT :: nat where "BYTE_WORD_SHIFT \<equiv> 2"
abbreviation ICP_CMD_Q_SIZE_IN_BYTES :: u32 where "ICP_CMD_Q_SIZE_IN_BYTES \<equiv> 4096"
abbreviation ICP_MSG_Q_SIZE_IN_BYTES :: u32 where "ICP_MSG_Q_SIZE_IN_BYTES \<equiv> 4096"
abbreviation ICP_DBG_Q_SIZE_IN_BYTES :: u32 where "ICP_DBG_Q_SIZE_IN_BYTES \<equiv> 102400"
abbreviation ICP_MSG_SFR_SIZE_IN_BYTES :: u32 where "ICP_MSG_SFR_SIZE_IN_BYTES \<equiv> 4096"
abbreviation ICP_HFI_MAX_PKT_SIZE_IN_WORDS :: u32 where "ICP_HFI_MAX_PKT_SIZE_IN_WORDS \<equiv> 25600"
abbreviation ICP_HFI_MAX_PKT_SIZE_MSGQ_IN_WORDS :: u32 where "ICP_HFI_MAX_PKT_SIZE_MSGQ_IN_WORDS \<equiv> 256"

abbreviation INTR_DISABLE :: u32 where "INTR_DISABLE \<equiv> 0"
abbreviation INTR_ENABLE :: u32 where "INTR_ENABLE \<equiv> 1"
abbreviation INTR_ENABLE_WD0 :: u32 where "INTR_ENABLE_WD0 \<equiv> 2"
abbreviation ICP_INIT_RESP_RESET :: u32 where "ICP_INIT_RESP_RESET \<equiv> 0"
abbreviation ICP_INIT_RESP_SUCCESS :: u32 where "ICP_INIT_RESP_SUCCESS \<equiv> 1"
abbreviation ICP_INIT_RESP_FAILED :: u32 where "ICP_INIT_RESP_FAILED \<equiv> 2"
abbreviation HFI_MAX_POLL_TRY :: nat where "HFI_MAX_POLL_TRY \<equiv> 5"
abbreviation HFI_MAX_PC_POLL_TRY :: nat where "HFI_MAX_PC_POLL_TRY \<equiv> 150"

abbreviation HFI_REG_A5_CSR_NSEC_RESET :: u32 where "HFI_REG_A5_CSR_NSEC_RESET \<equiv> 0x4"
abbreviation HFI_REG_A5_CSR_A5_CONTROL :: u32 where "HFI_REG_A5_CSR_A5_CONTROL \<equiv> 0x8"
abbreviation HFI_REG_A5_CSR_A2HOSTINTEN :: u32 where "HFI_REG_A5_CSR_A2HOSTINTEN \<equiv> 0x10"
abbreviation HFI_REG_A5_CSR_HOST2ICPINT :: u32 where "HFI_REG_A5_CSR_HOST2ICPINT \<equiv> 0x30"
abbreviation HFI_REG_HOST_ICP_INIT_REQUEST :: u32 where "HFI_REG_HOST_ICP_INIT_REQUEST \<equiv> 0x48"
abbreviation HFI_REG_SHARED_MEM_PTR :: u32 where "HFI_REG_SHARED_MEM_PTR \<equiv> 0x50"
abbreviation HFI_REG_SHARED_MEM_SIZE :: u32 where "HFI_REG_SHARED_MEM_SIZE \<equiv> 0x54"
abbreviation HFI_REG_QTBL_PTR :: u32 where "HFI_REG_QTBL_PTR \<equiv> 0x58"
abbreviation HFI_REG_UNCACHED_HEAP_PTR :: u32 where "HFI_REG_UNCACHED_HEAP_PTR \<equiv> 0x5C"
abbreviation HFI_REG_UNCACHED_HEAP_SIZE :: u32 where "HFI_REG_UNCACHED_HEAP_SIZE \<equiv> 0x60"
abbreviation HFI_REG_SFR_PTR :: u32 where "HFI_REG_SFR_PTR \<equiv> 0x68"
abbreviation HFI_REG_QDSS_IOVA :: u32 where "HFI_REG_QDSS_IOVA \<equiv> 0x6C"
abbreviation HFI_REG_QDSS_IOVA_SIZE :: u32 where "HFI_REG_QDSS_IOVA_SIZE \<equiv> 0x70"
abbreviation HFI_REG_IO_REGION_IOVA :: u32 where "HFI_REG_IO_REGION_IOVA \<equiv> 0x74"
abbreviation HFI_REG_IO_REGION_SIZE :: u32 where "HFI_REG_IO_REGION_SIZE \<equiv> 0x78"

abbreviation ICP_FLAG_CSR_WAKE_UP_EN :: u32 where "ICP_FLAG_CSR_WAKE_UP_EN \<equiv> push_bit 4 1"
abbreviation ICP_FLAG_CSR_A5_EN :: u32 where "ICP_FLAG_CSR_A5_EN \<equiv> push_bit 9 1"
abbreviation ICP_CSR_EN_CLKGATE_WFI :: u32 where "ICP_CSR_EN_CLKGATE_WFI \<equiv> push_bit 12 1"
abbreviation ICP_CSR_EDBGRQ :: u32 where "ICP_CSR_EDBGRQ \<equiv> push_bit 14 1"
abbreviation ICP_CSR_DBGSWENABLE :: u32 where "ICP_CSR_DBGSWENABLE \<equiv> push_bit 22 1"
abbreviation ICP_CSR_A5_STATUS_WFI :: u32 where "ICP_CSR_A5_STATUS_WFI \<equiv> push_bit 7 1"

text \<open>A write to a register of the mapped ICP block, by its offset.\<close>

definition cam_io_w_mb :: "u32 \<Rightarrow> u32 \<Rightarrow> hfi_sys \<Rightarrow> hfi_sys" where
  "cam_io_w_mb v reg s = s\<lparr>csr_writes := csr_writes s @ [(reg, v)]\<rparr>"

subsection \<open>Writing a command\<close>

text \<open>
  The copy into the queue, in one piece or split at its end; offsets and counts are in words, the
  source's byte counts shifted back.
\<close>

definition copy_in :: "(nat \<Rightarrow> u32) \<Rightarrow> hfi_q_hdr \<Rightarrow> u32 \<Rightarrow> (nat \<Rightarrow> u32) \<Rightarrow> (nat \<Rightarrow> u32) \<times> u32" where
  "copy_in write_q q size_in_words cmd =
     (let new_write_idx = qhdr_write_idx q + size_in_words;
          write_ptr = unat (qhdr_write_idx q) in
      if new_write_idx < qhdr_q_size q
      then (memcpy_words write_q write_ptr (map cmd [0..<unat size_in_words]), new_write_idx)
      else
        (let new_write_idx = new_write_idx - qhdr_q_size q;
             temp = unat (size_in_words - new_write_idx);
             m1 = memcpy_words write_q write_ptr (map cmd [0..<temp])
         in (memcpy_words m1 0 (map (\<lambda>i. cmd (temp + i)) [0..<unat new_write_idx]), new_write_idx)))"

definition hfi_write_cmd :: "(nat \<Rightarrow> u32) option \<Rightarrow> hfi_sys \<Rightarrow> hfi_sys \<times> unit result" where
  "hfi_write_cmd cmd_ptr s =
     (case cmd_ptr of
        None \<Rightarrow> (s, Err EINVAL)
      | Some cmd \<Rightarrow>
          (case g_hfi s of
             None \<Rightarrow> (s, Err ENODEV)
           | Some h \<Rightarrow>
               if hfi_st h \<noteq> HFI_READY \<or> \<not> cmd_q_state h then (s, Err ENODEV)
               else
                 (let q = q_hdr s Q_CMD;
                      size_in_words = drop_bit BYTE_WORD_SHIFT (cmd 0);
                      read_idx = qhdr_read_idx q;
                      empty_space =
                        (if qhdr_write_idx q \<ge> read_idx
                         then qhdr_q_size q - (qhdr_write_idx q - read_idx)
                         else read_idx - qhdr_write_idx q)
                  in if size_in_words = 0 then (s, Err EINVAL)
                     else if empty_space \<le> size_in_words then (s, Err EIO)
                     else
                       (case copy_in (cmd_q s) q size_in_words cmd of
                          (m, new_write_idx) \<Rightarrow>
                            (cam_io_w_mb INTR_ENABLE HFI_REG_A5_CSR_HOST2ICPINT
                               (s\<lparr>cmd_q := m, q_hdr := (q_hdr s)(Q_CMD := q\<lparr>qhdr_write_idx := new_write_idx\<rparr>)\<rparr>),
                             Ok ())))))"

subsection \<open>Reading messages\<close>

text \<open>The words copied to the caller, and the new read index.\<close>

definition copy_out :: "(nat \<Rightarrow> u32) \<Rightarrow> hfi_q_hdr \<Rightarrow> u32 \<Rightarrow> u32 list \<times> u32" where
  "copy_out read_q q size_in_words =
     (let new_read_idx = qhdr_read_idx q + size_in_words;
          read_ptr = unat (qhdr_read_idx q) in
      if new_read_idx < qhdr_q_size q
      then (map (\<lambda>i. read_q (read_ptr + i)) [0..<unat size_in_words], new_read_idx)
      else
        (let new_read_idx = new_read_idx - qhdr_q_size q;
             temp = unat (size_in_words - new_read_idx)
         in (map (\<lambda>i. read_q (read_ptr + i)) [0..<temp] @ map read_q [0..<unat new_read_idx],
             new_read_idx)))"

text \<open>The words between the two pointers, the queue's size taken from the constants.\<close>

definition avail_words :: "nat \<Rightarrow> hfi_q_hdr \<Rightarrow> u32" where
  "avail_words q_id q =
     (if qhdr_write_idx q > qhdr_read_idx q then qhdr_write_idx q - qhdr_read_idx q
      else
        (let word_diff = qhdr_read_idx q - qhdr_write_idx q in
         if q_id = Q_MSG then drop_bit BYTE_WORD_SHIFT ICP_MSG_Q_SIZE_IN_BYTES - word_diff
         else drop_bit BYTE_WORD_SHIFT ICP_DBG_Q_SIZE_IN_BYTES - word_diff))"

definition hfi_read_message :: "bool \<Rightarrow> nat \<Rightarrow> hfi_sys \<Rightarrow> hfi_sys \<times> (u32 list) result" where
  "hfi_read_message pmsg q_id s =
     (if \<not> pmsg then (s, Err EINVAL)
      else if q_id > Q_DBG then (s, Err EINVAL)
      else
        (case g_hfi s of
           None \<Rightarrow> (s, Err ENODEV)
         | Some h \<Rightarrow>
             if hfi_st h \<noteq> HFI_READY \<or> \<not> msg_q_state h then (s, Err ENODEV)
             else
               (let q = q_hdr s q_id;
                    read_q = if q_id = Q_MSG then msg_q s else dbg_q s;
                    size_upper_bound = if q_id = Q_MSG then ICP_HFI_MAX_PKT_SIZE_MSGQ_IN_WORDS
                                       else ICP_HFI_MAX_PKT_SIZE_IN_WORDS;
                    size_in_words = avail_words q_id q
                in if qhdr_read_idx q = qhdr_write_idx q then (s, Err EIO)
                   else if size_in_words = 0 \<or> size_in_words > size_upper_bound
                   then (s\<lparr>q_hdr := (q_hdr s)(q_id := q\<lparr>qhdr_read_idx := qhdr_write_idx q\<rparr>)\<rparr>, Err EIO)
                   else
                     (case copy_out read_q q size_in_words of
                        (ws, new_read_idx) \<Rightarrow>
                          (s\<lparr>q_hdr := (q_hdr s)(q_id := q\<lparr>qhdr_read_idx := new_read_idx\<rparr>)\<rparr>, Ok ws)))))"

subsection \<open>Property and system commands\<close>

abbreviation HFI_CMD_SYS_INIT :: u32 where "HFI_CMD_SYS_INIT \<equiv> 0x10001"
abbreviation HFI_CMD_SYS_PC_PREP :: u32 where "HFI_CMD_SYS_PC_PREP \<equiv> 0x10002"
abbreviation HFI_CMD_SYS_SET_PROPERTY :: u32 where "HFI_CMD_SYS_SET_PROPERTY \<equiv> 0x10003"
abbreviation HFI_CMD_SYS_GET_PROPERTY :: u32 where "HFI_CMD_SYS_GET_PROPERTY \<equiv> 0x10004"
abbreviation HFI_CMD_SYS_PING :: u32 where "HFI_CMD_SYS_PING \<equiv> 0x10005"
abbreviation HFI_CMD_SYS_RESET :: u32 where "HFI_CMD_SYS_RESET \<equiv> 0x10006"
abbreviation HFI_CMD_IPEBPS_CREATE_HANDLE :: u32 where "HFI_CMD_IPEBPS_CREATE_HANDLE \<equiv> 0x1010008"
abbreviation HFI_CMD_IPEBPS_ASYNC_COMMAND_INDIRECT :: u32 where "HFI_CMD_IPEBPS_ASYNC_COMMAND_INDIRECT \<equiv> 0x101000e"
abbreviation HFI_PROP_SYS_DEBUG_CFG :: u32 where "HFI_PROP_SYS_DEBUG_CFG \<equiv> 1"
abbreviation HFI_PROP_SYS_UBWC_CFG :: u32 where "HFI_PROP_SYS_UBWC_CFG \<equiv> 2"
abbreviation HFI_PROP_SYS_IPEBPS_PC :: u32 where "HFI_PROP_SYS_IPEBPS_PC \<equiv> 5"
abbreviation HFI_PROP_SYS_FW_DUMP_CFG :: u32 where "HFI_PROP_SYS_FW_DUMP_CFG \<equiv> 8"

text \<open>A packet built by the host, as the words its structure lays out; a 64-bit field is two words.\<close>

definition words_of_u64 :: "u64 \<Rightarrow> u32 list" where
  "words_of_u64 d = [ucast d, ucast (drop_bit 32 d)]"

definition send_packet :: "u32 list \<Rightarrow> hfi_sys \<Rightarrow> hfi_sys" where
  "send_packet ws s = fst (hfi_write_cmd (Some (\<lambda>i. ws ! i)) s)"

definition hfi_cmd_ubwc_config :: "bool \<Rightarrow> u32 \<times> u32 \<Rightarrow> hfi_sys \<Rightarrow> hfi_sys \<times> unit result" where
  "hfi_cmd_ubwc_config alloc_ok ubwc_cfg s =
     (if \<not> alloc_ok then (s, Err ENOMEM)
      else (send_packet [24, HFI_CMD_SYS_SET_PROPERTY, 1, HFI_PROP_SYS_UBWC_CFG, fst ubwc_cfg, snd ubwc_cfg] s,
            Ok ()))"

definition hfi_enable_ipe_bps_pc :: "bool \<Rightarrow> bool \<Rightarrow> u32 \<Rightarrow> hfi_sys \<Rightarrow> hfi_sys \<times> unit result" where
  "hfi_enable_ipe_bps_pc alloc_ok enable core_info s =
     (if \<not> alloc_ok then (s, Err ENOMEM)
      else (send_packet [24, HFI_CMD_SYS_SET_PROPERTY, 1, HFI_PROP_SYS_IPEBPS_PC,
              if enable then 1 else 0, core_info] s, Ok ()))"

definition hfi_set_debug_level :: "bool \<Rightarrow> u64 \<Rightarrow> u32 \<Rightarrow> hfi_sys \<Rightarrow> hfi_sys \<times> unit result" where
  "hfi_set_debug_level alloc_ok a5_dbg_type lvl s =
     (let val = 0x1 OR 0x2 OR 0x4 OR 0x8 OR 0x10 OR 0x20 OR 0x01000000 OR 0x10000000 in
      if lvl > val then (s, Err EINVAL)
      else if \<not> alloc_ok then (s, Err ENOMEM)
      else (send_packet [24, HFI_CMD_SYS_SET_PROPERTY, 1, HFI_PROP_SYS_DEBUG_CFG, lvl, ucast a5_dbg_type] s,
            Ok ()))"

definition hfi_set_fw_dump_level :: "bool \<Rightarrow> u32 \<Rightarrow> hfi_sys \<Rightarrow> hfi_sys \<times> unit result" where
  "hfi_set_fw_dump_level alloc_ok lvl s =
     (if \<not> alloc_ok then (s, Err ENOMEM)
      else (send_packet [20, HFI_CMD_SYS_SET_PROPERTY, 1, HFI_PROP_SYS_FW_DUMP_CFG, lvl] s, Ok ()))"

text \<open>\<open>stack\<close> is what the uninitialised \<^verbatim>\<open>user_data2\<close> of the create-handle packet holds.\<close>

definition hfi_send_system_cmd :: "u64 \<Rightarrow> u32 \<Rightarrow> u64 \<Rightarrow> hfi_sys \<Rightarrow> hfi_sys" where
  "hfi_send_system_cmd stack type data s =
     (if type = HFI_CMD_SYS_INIT then send_packet [8, type] s
      else if type = HFI_CMD_SYS_PC_PREP then send_packet [8, type] s
      else if type = HFI_CMD_SYS_SET_PROPERTY
      then (if ucast data = HFI_PROP_SYS_DEBUG_CFG then send_packet [16, type, 1, HFI_PROP_SYS_DEBUG_CFG] s else s)
      else if type = HFI_CMD_SYS_GET_PROPERTY then s
      else if type = HFI_CMD_SYS_PING then send_packet ([16, type] @ words_of_u64 data) s
      else if type = HFI_CMD_SYS_RESET then send_packet ([16, type] @ words_of_u64 data) s
      else if type = HFI_CMD_IPEBPS_CREATE_HANDLE
      then send_packet ([28, type, ucast data] @ words_of_u64 0 @ words_of_u64 stack) s
      else s)"

subsection \<open>The ICP processor\<close>

text \<open>
  \<open>status i\<close> is the value the status register has at the \<open>i\<close>-th read of the poll; the loop only
  waits, so the number of reads is all it yields.
\<close>

function wait_wfi :: "(nat \<Rightarrow> u32) \<Rightarrow> nat \<Rightarrow> nat" where
  "wait_wfi status try =
     (if try < HFI_MAX_PC_POLL_TRY then
        (if status try AND ICP_CSR_A5_STATUS_WFI \<noteq> 0 then try else wait_wfi status (Suc try))
      else try)"
  by pat_completeness auto
termination
  by (relation "measure (\<lambda>(st, t). HFI_MAX_PC_POLL_TRY - t)") auto

definition cam_hfi_disable_cpu :: "u32 \<Rightarrow> u32 \<Rightarrow> hfi_sys \<Rightarrow> hfi_sys" where
  "cam_hfi_disable_cpu control nsec s =
     (let val = control AND NOT (ICP_FLAG_CSR_A5_EN OR ICP_FLAG_CSR_WAKE_UP_EN);
          s1 = cam_io_w_mb val HFI_REG_A5_CSR_A5_CONTROL s;
          s2 = cam_io_w_mb nsec HFI_REG_A5_CSR_NSEC_RESET s1;
          s3 = cam_io_w_mb 0 HFI_REG_HOST_ICP_INIT_REQUEST s2
      in cam_io_w_mb INTR_DISABLE HFI_REG_A5_CSR_A2HOSTINTEN s3)"

definition cam_hfi_enable_cpu :: "hfi_sys \<Rightarrow> hfi_sys" where
  "cam_hfi_enable_cpu s =
     cam_io_w_mb 0x10 HFI_REG_A5_CSR_NSEC_RESET (cam_io_w_mb ICP_FLAG_CSR_A5_EN HFI_REG_A5_CSR_A5_CONTROL s)"

datatype poll_result = Poll_failed | Poll_end nat u32

text \<open>The poll for the firmware's answer: \<open>resp i\<close> is what the \<open>i\<close>-th try reads.\<close>

function poll_init :: "(nat \<Rightarrow> u32) \<Rightarrow> nat \<Rightarrow> u32 \<Rightarrow> poll_result" where
  "poll_init resp retry_cnt status =
     (if retry_cnt < HFI_MAX_POLL_TRY then
        (if resp retry_cnt = ICP_INIT_RESP_SUCCESS then Poll_end retry_cnt (resp retry_cnt)
         else if resp retry_cnt = ICP_INIT_RESP_FAILED then Poll_failed
         else poll_init resp (Suc retry_cnt) (resp retry_cnt))
      else Poll_end retry_cnt status)"
  by pat_completeness auto
termination
  by (relation "measure (\<lambda>(r, n, st). HFI_MAX_POLL_TRY - n)") auto

definition poll_ok :: "(nat \<Rightarrow> u32) \<Rightarrow> bool" where
  "poll_ok resp = (case poll_init resp 0 0 of
     Poll_failed \<Rightarrow> False
   | Poll_end n status \<Rightarrow> \<not> (n = HFI_MAX_POLL_TRY \<and> status = ICP_INIT_RESP_RESET))"

definition write_regions :: "bool \<Rightarrow> hfi_mem_info \<Rightarrow> hfi_sys \<Rightarrow> hfi_sys" where
  "write_regions request m s =
     fold (\<lambda>(reg, v). cam_io_w_mb v reg)
       ([(HFI_REG_QTBL_PTR, mem_iova (map_qtbl m)), (HFI_REG_SFR_PTR, mem_iova (map_sfr_buf m)),
         (HFI_REG_SHARED_MEM_PTR, mem_iova (map_shmem m)), (HFI_REG_SHARED_MEM_SIZE, ucast (mem_len (map_shmem m))),
         (HFI_REG_UNCACHED_HEAP_PTR, mem_iova (map_sec_heap m)),
         (HFI_REG_UNCACHED_HEAP_SIZE, ucast (mem_len (map_sec_heap m)))] @
        (if request then [(HFI_REG_HOST_ICP_INIT_REQUEST, 1)] else []) @
        [(HFI_REG_QDSS_IOVA, mem_iova (map_qdss m)), (HFI_REG_QDSS_IOVA_SIZE, ucast (mem_len (map_qdss m))),
         (HFI_REG_IO_REGION_IOVA, mem_iova (map_io_mem m)), (HFI_REG_IO_REGION_SIZE, ucast (mem_len (map_io_mem m)))]) s"

definition cam_hfi_resume :: "hfi_mem_info \<Rightarrow> ptr \<Rightarrow> bool \<Rightarrow> (nat \<Rightarrow> u32) \<Rightarrow> hfi_sys \<Rightarrow> hfi_sys \<times> unit result" where
  "cam_hfi_resume m icp_base debug resp s =
     (let s1 = cam_hfi_enable_cpu s;
          s2 = s1\<lparr>g_hfi := map_option (\<lambda>h. h\<lparr>csr_base := icp_base\<rparr>) (g_hfi s1)\<rparr>;
          s3 = if debug then cam_io_w_mb (ICP_FLAG_CSR_WAKE_UP_EN OR ICP_FLAG_CSR_A5_EN OR ICP_CSR_EDBGRQ OR
                      ICP_CSR_DBGSWENABLE) HFI_REG_A5_CSR_A5_CONTROL s2 else s2;
          s4 = cam_io_w_mb (ICP_FLAG_CSR_WAKE_UP_EN OR ICP_FLAG_CSR_A5_EN OR ICP_CSR_EN_CLKGATE_WFI)
                 HFI_REG_A5_CSR_A5_CONTROL s3
      in if \<not> poll_ok resp then (s4, Err EINVAL)
         else (write_regions False m (cam_io_w_mb (INTR_ENABLE OR INTR_ENABLE_WD0) HFI_REG_A5_CSR_A2HOSTINTEN s4),
               Ok ()))"

subsection \<open>Setting the queues up\<close>

definition init_q_hdr :: "u32 \<Rightarrow> u32 \<Rightarrow> hfi_q_hdr \<Rightarrow> hfi_q_hdr" where
  "init_q_hdr iova size_in_bytes q = q\<lparr>qhdr_status := 1, qhdr_start_addr := iova,
     qhdr_q_size := drop_bit BYTE_WORD_SHIFT size_in_bytes, qhdr_pkt_size := 0, qhdr_pkt_drop_cnt := 0,
     qhdr_read_idx := 0, qhdr_write_idx := 0\<rparr>"

definition set_mode :: "u32 \<Rightarrow> u32 \<Rightarrow> u32 \<Rightarrow> u32 \<Rightarrow> u32 \<Rightarrow> hfi_q_hdr \<Rightarrow> hfi_q_hdr" where
  "set_mode ty rx_wm tx_wm rx_req tx_req q = q\<lparr>qhdr_type := ty, qhdr_rx_wm := rx_wm, qhdr_tx_wm := tx_wm,
     qhdr_rx_req := rx_req, qhdr_tx_req := tx_req, qhdr_rx_irq_status := 0, qhdr_tx_irq_status := 0\<rparr>"

text \<open>\<^verbatim>\<open>INTR_MODE\<close> is 0, \<^verbatim>\<open>WM_MODE\<close> 1 and \<^verbatim>\<open>POLL_MODE\<close> 2; another value leaves the headers.\<close>

definition set_event_mode :: "u8 \<Rightarrow> (nat \<Rightarrow> hfi_q_hdr) \<Rightarrow> nat \<Rightarrow> hfi_q_hdr" where
  "set_event_mode mode hs =
     (if mode = 0 then
        hs(Q_CMD := set_mode 0 1 1 1 0 (hs Q_CMD), Q_MSG := set_mode 1 1 1 1 0 (hs Q_MSG),
           Q_DBG := set_mode 2 1 1024 0 0 (hs Q_DBG))
      else if mode = 2 then
        hs(Q_CMD := (hs Q_CMD)\<lparr>qhdr_type := 0 OR 0x02000000 OR 0x00020000\<rparr>,
           Q_MSG := (hs Q_MSG)\<lparr>qhdr_type := 1 OR 0x02000000 OR 0x00020000\<rparr>,
           Q_DBG := (hs Q_DBG)\<lparr>qhdr_type := 2 OR 0x02000000 OR 0x00020000\<rparr>)
      else if mode = 1 then
        hs(Q_CMD := set_mode (0 OR 0x01000000 OR 0x00010000) 1 1 0 1 (hs Q_CMD),
           Q_MSG := set_mode (1 OR 0x01000000 OR 0x00010000) 1 1 1 0 (hs Q_MSG),
           Q_DBG := set_mode (2 OR 0x01000000 OR 0x00010000) 1 1024 0 0 (hs Q_DBG))
      else hs)"

definition zero_hfi_mem :: hfi_mem where
  "zero_hfi_mem = \<lparr>mem_len = 0, mem_kva = 0, mem_iova = 0\<rparr>"

definition zero_hfi_info :: hfi_info where
  "zero_hfi_info = \<lparr>hfi_map = \<lparr>map_qtbl = zero_hfi_mem, map_cmd_q = zero_hfi_mem, map_msg_q = zero_hfi_mem,
     map_dbg_q = zero_hfi_mem, map_sfr_buf = zero_hfi_mem, map_sec_heap = zero_hfi_mem, map_shmem = zero_hfi_mem,
     map_qdss = zero_hfi_mem, map_io_mem = zero_hfi_mem\<rparr>, hfi_st = HFI_DEINIT, cmd_q_state = False,
     msg_q_state = False, csr_base = 0\<rparr>"

definition init_queues :: "u8 \<Rightarrow> hfi_mem_info \<Rightarrow> hfi_sys \<Rightarrow> hfi_sys" where
  "init_queues mode m s =
     s\<lparr>q_tbl_hdr := \<lparr>qtbl_version = 0xFFFFFFFF, qtbl_size = 24 + 4 * 956, qtbl_qhdr0_offset = 24,
          qtbl_qhdr_size = 956, qtbl_num_q = 3, qtbl_num_active_q = 3\<rparr>,
       q_hdr := set_event_mode mode ((q_hdr s)
          (Q_CMD := init_q_hdr (mem_iova (map_cmd_q m)) ICP_CMD_Q_SIZE_IN_BYTES (q_hdr s Q_CMD),
           Q_MSG := init_q_hdr (mem_iova (map_msg_q m)) ICP_MSG_Q_SIZE_IN_BYTES (q_hdr s Q_MSG),
           Q_DBG := init_q_hdr (mem_iova (map_dbg_q m)) ICP_DBG_Q_SIZE_IN_BYTES (q_hdr s Q_DBG))),
       sfr_size := ICP_MSG_SFR_SIZE_IN_BYTES\<rparr>"

definition lock_both :: "hfi_sys \<Rightarrow> hfi_sys" where
  "lock_both s = s\<lparr>hfi_cmd_q_mutex := True, hfi_msg_q_mutex := True\<rparr>"

definition unlock_both :: "hfi_sys \<Rightarrow> hfi_sys" where
  "unlock_both s = s\<lparr>hfi_cmd_q_mutex := False, hfi_msg_q_mutex := False\<rparr>"

definition cam_hfi_init ::
  "bool \<Rightarrow> u8 \<Rightarrow> hfi_mem_info \<Rightarrow> ptr \<Rightarrow> bool \<Rightarrow> (nat \<Rightarrow> u32) \<Rightarrow> hfi_sys \<Rightarrow> hfi_sys \<times> unit result" where
  "cam_hfi_init alloc_ok event_driven_mode m icp_base debug resp s0 =
     (let s = lock_both s0 in
      case (case g_hfi s of None \<Rightarrow> (if alloc_ok then Some zero_hfi_info else None) | Some h \<Rightarrow> Some h) of
        None \<Rightarrow> (unlock_both s, Err ENOMEM)
      | Some h \<Rightarrow>
          if hfi_st h \<noteq> HFI_DEINIT then (s\<lparr>g_hfi := Some h\<rparr>, Err EINVAL)
          else
            (let s1 = s\<lparr>g_hfi := Some (h\<lparr>hfi_map := m, hfi_st := HFI_DEINIT\<rparr>)\<rparr>;
                 s2 = if debug then cam_io_w_mb (ICP_FLAG_CSR_A5_EN OR ICP_FLAG_CSR_WAKE_UP_EN OR ICP_CSR_EDBGRQ OR
                             ICP_CSR_DBGSWENABLE) HFI_REG_A5_CSR_A5_CONTROL s1 else s1;
                 s3 = cam_io_w_mb (ICP_FLAG_CSR_A5_EN OR ICP_FLAG_CSR_WAKE_UP_EN OR ICP_CSR_EN_CLKGATE_WFI)
                        HFI_REG_A5_CSR_A5_CONTROL s2;
                 s4 = write_regions True m (init_queues event_driven_mode m s3)
             in if \<not> poll_ok resp then (unlock_both (s4\<lparr>g_hfi := None\<rparr>), Ok ())
                else
                  (unlock_both (cam_io_w_mb (INTR_ENABLE OR INTR_ENABLE_WD0) HFI_REG_A5_CSR_A2HOSTINTEN
                     (s4\<lparr>g_hfi := Some (h\<lparr>hfi_map := m, csr_base := icp_base, hfi_st := HFI_READY,
                          cmd_q_state := True, msg_q_state := True\<rparr>)\<rparr>)), Ok ())))"

definition cam_hfi_deinit :: "hfi_sys \<Rightarrow> hfi_sys" where
  "cam_hfi_deinit s = s\<lparr>g_hfi := None\<rparr>"

declare wait_wfi.simps [simp del] poll_init.simps [simp del]

subsection \<open>Well-formed queues\<close>

definition wf_q :: "nat \<Rightarrow> hfi_q_hdr \<Rightarrow> bool" where
  "wf_q n q \<longleftrightarrow> n < 2 ^ 31 \<and> unat (qhdr_q_size q) = n \<and> unat (qhdr_read_idx q) < n \<and> unat (qhdr_write_idx q) < n"

definition q_words :: "(nat \<Rightarrow> u32) \<Rightarrow> hfi_q_hdr \<Rightarrow> u32 list" where
  "q_words m q = ring_words m (unat (qhdr_q_size q)) (unat (qhdr_read_idx q)) (unat (qhdr_write_idx q))"

definition packet :: "(nat \<Rightarrow> u32) \<Rightarrow> u32 list" where
  "packet cmd = map cmd [0..<unat (drop_bit BYTE_WORD_SHIFT (cmd 0))]"

lemma empty_space_nat:
  assumes "wf_q n q"
  shows "unat (if qhdr_write_idx q \<ge> qhdr_read_idx q then qhdr_q_size q - (qhdr_write_idx q - qhdr_read_idx q)
      else qhdr_read_idx q - qhdr_write_idx q) = n - length (q_words m q)"
proof -
  let ?r = "qhdr_read_idx q" and ?w = "qhdr_write_idx q"
  have b: "unat (qhdr_q_size q) = n" "unat ?r < n" "unat ?w < n" using assms by (auto simp: wf_q_def)
  show ?thesis
  proof (cases "?r \<le> ?w")
    case True
    then have d: "unat (?w - ?r) = unat ?w - unat ?r" by (simp add: unat_sub)
    then have "?w - ?r \<le> qhdr_q_size q" using b by (simp add: word_le_nat_alt)
    with True d b show ?thesis
      by (simp add: unat_sub q_words_def ring_len_eq word_le_nat_alt)
  next
    case False
    with b show ?thesis
      by (auto simp: unat_sub q_words_def ring_len_eq word_le_nat_alt)
  qed
qed

lemma copy_in_ring:
  assumes "wf_q n q" "unat sz < n"
  shows "copy_in m q sz cmd = (ring_write m n (unat (qhdr_write_idx q)) (map cmd [0..<unat sz]),
      of_nat ((unat (qhdr_write_idx q) + unat sz) mod n))"
proof -
  let ?w = "qhdr_write_idx q"
  have b: "unat (qhdr_q_size q) = n" "unat ?w < n" "n < 2 ^ 31" using assms by (auto simp: wf_q_def)
  have nw: "unat (?w + sz) = unat ?w + unat sz" using b assms(2) by (intro unat_add_small) simp
  show ?thesis
  proof (cases "unat ?w + unat sz < n")
    case True
    then have "?w + sz < qhdr_q_size q" using nw b by (simp add: word_less_nat_alt)
    with True nw show ?thesis by (simp add: copy_in_def ring_write_def)
  next
    case False
    then have le: "qhdr_q_size q \<le> ?w + sz" using nw b by (simp add: word_le_nat_alt)
    have u: "unat (?w + sz - qhdr_q_size q) = unat ?w + unat sz - n" using le nw b by (simp add: unat_sub)
    have "?w \<le> qhdr_q_size q" using b by (simp add: word_le_nat_alt)
    then have t: "unat (sz - (?w + sz - qhdr_q_size q)) = n - unat ?w"
      using b by (simp add: unat_sub)
    have split: "take (n - unat ?w) (map cmd [0..<unat sz]) = map cmd [0..<n - unat ?w]"
      "drop (n - unat ?w) (map cmd [0..<unat sz]) = map (\<lambda>i. cmd (n - unat ?w + i)) [0..<unat ?w + unat sz - n]"
      using False b by (simp_all add: take_map drop_map_upt add.commute [of "unat sz"])
    have "of_nat ((unat ?w + unat sz) mod n) = ?w + sz - qhdr_q_size q"
      using False assms(2) b u ring_pos [of "unat ?w" n "unat sz"] by (simp flip: u)
    then show ?thesis
      using leD [OF le] False t u split by (simp add: copy_in_def ring_write_def Let_def)
  qed
qed

text \<open>The same on the reading side.\<close>

lemma copy_out_ring:
  assumes "wf_q n q" "unat sz = length (q_words m q)"
  shows "copy_out m q sz = (q_words m q, of_nat ((unat (qhdr_read_idx q) + unat sz) mod n))"
proof -
  let ?r = "qhdr_read_idx q" and ?w = "qhdr_write_idx q"
  have b: "unat (qhdr_q_size q) = n" "unat ?r < n" "unat ?w < n" "n < 2 ^ 31" using assms by (auto simp: wf_q_def)
  have sz: "unat sz < n" using assms(2) b ring_len_less [of n] by (simp add: q_words_def)
  have nr: "unat (?r + sz) = unat ?r + unat sz" using b sz by (intro unat_add_small) simp
  have q: "q_words m q = map (\<lambda>i. m ((unat ?r + i) mod n)) [0..<unat sz]"
    using assms(2) b by (simp add: q_words_def ring_words_def)
  show ?thesis
  proof (cases "unat ?r + unat sz < n")
    case True
    then have "?r + sz < qhdr_q_size q" using nr b by (simp add: word_less_nat_alt)
    with True nr show ?thesis by (simp add: copy_out_def q)
  next
    case False
    then have le: "qhdr_q_size q \<le> ?r + sz" using nr b by (simp add: word_le_nat_alt)
    have u: "unat (?r + sz - qhdr_q_size q) = unat ?r + unat sz - n" using le nr b by (simp add: unat_sub)
    have "?r \<le> qhdr_q_size q" using b by (simp add: word_le_nat_alt)
    then have t: "unat (sz - (?r + sz - qhdr_q_size q)) = n - unat ?r" using b by (simp add: unat_sub)
    have ws: "q_words m q = map (\<lambda>i. m (unat ?r + i)) [0..<n - unat ?r] @ map m [0..<unat ?r + unat sz - n]"
      using False b sz by (intro nth_equalityI) (auto simp: q nth_append ring_pos add.commute)
    have "of_nat ((unat ?r + unat sz) mod n) = ?r + sz - qhdr_q_size q"
      using False sz b u ring_pos [of "unat ?r" n "unat sz"] by (simp flip: u)
    then show ?thesis
      using leD [OF le] t u ws by (simp add: copy_out_def Let_def)
  qed
qed

subsection \<open>The command queue\<close>

text \<open>The host is ready and the command queue's indices are in range.\<close>

definition cmd_ready :: "hfi_sys \<Rightarrow> bool" where
  "cmd_ready s \<longleftrightarrow> (\<exists>h. g_hfi s = Some h \<and> hfi_st h = HFI_READY \<and> cmd_q_state h) \<and>
     wf_q (unat (qhdr_q_size (q_hdr s Q_CMD))) (q_hdr s Q_CMD)"

abbreviation cmd_words :: "hfi_sys \<Rightarrow> u32 list" where
  "cmd_words s \<equiv> q_words (cmd_q s) (q_hdr s Q_CMD)"

lemma wf_q_length: "wf_q n q \<Longrightarrow> length (q_words m q) < n"
  by (auto simp: wf_q_def q_words_def intro: ring_len_less)

lemma hfi_write_cmd_ready:
  assumes "cmd_ready s" "packet cmd \<noteq> []"
  defines "n \<equiv> unat (qhdr_q_size (q_hdr s Q_CMD))" and "w \<equiv> unat (qhdr_write_idx (q_hdr s Q_CMD))"
  shows "hfi_write_cmd (Some cmd) s =
    (if length (cmd_words s) + length (packet cmd) < n
     then (cam_io_w_mb INTR_ENABLE HFI_REG_A5_CSR_HOST2ICPINT (s\<lparr>cmd_q := ring_write (cmd_q s) n w (packet cmd),
        q_hdr := (q_hdr s)(Q_CMD := (q_hdr s Q_CMD)\<lparr>qhdr_write_idx := of_nat ((w + length (packet cmd)) mod n)\<rparr>)\<rparr>), Ok ())
     else (s, Err EIO))"
proof -
  let ?q = "q_hdr s Q_CMD"
  define sz where "sz = drop_bit BYTE_WORD_SHIFT (cmd 0)"
  obtain h where h: "g_hfi s = Some h" "hfi_st h = HFI_READY" "cmd_q_state h" and wf: "wf_q n ?q"
    using assms(1) by (auto simp: cmd_ready_def n_def)
  define e where "e = (if qhdr_write_idx ?q \<ge> qhdr_read_idx ?q then qhdr_q_size ?q - (qhdr_write_idx ?q - qhdr_read_idx ?q)
      else qhdr_read_idx ?q - qhdr_write_idx ?q)"
  have len: "length (packet cmd) = unat sz" by (simp add: packet_def sz_def)
  then have nz: "sz \<noteq> 0" using assms(2) by auto
  have "unat e = n - length (cmd_words s)" unfolding e_def by (rule empty_space_nat [OF wf])
  then have e: "e \<le> sz \<longleftrightarrow> \<not> length (cmd_words s) + length (packet cmd) < n"
    using wf_q_length [OF wf, of "cmd_q s"] len by (auto simp: word_le_nat_alt)
  have run: "hfi_write_cmd (Some cmd) s = (if e \<le> sz then (s, Err EIO) else
      (case copy_in (cmd_q s) ?q sz cmd of (m, v) \<Rightarrow>
         (cam_io_w_mb INTR_ENABLE HFI_REG_A5_CSR_HOST2ICPINT (s\<lparr>cmd_q := m, q_hdr := (q_hdr s)(Q_CMD := ?q\<lparr>qhdr_write_idx := v\<rparr>)\<rparr>), Ok ())))"
    using h nz by (simp add: hfi_write_cmd_def sz_def e_def Let_def)
  show ?thesis
  proof (cases "e \<le> sz")
    case True
    then show ?thesis using run e by simp
  next
    case False
    then have "unat sz < n" using e len by simp
    from copy_in_ring [OF wf this, of "cmd_q s" cmd] False run e len show ?thesis
      by (simp add: packet_def sz_def w_def)
  qed
qed

lemma cam_io_w_mb_simps [simp]:
  "g_hfi (cam_io_w_mb v r s) = g_hfi s" "q_hdr (cam_io_w_mb v r s) = q_hdr s" "cmd_q (cam_io_w_mb v r s) = cmd_q s"
  "msg_q (cam_io_w_mb v r s) = msg_q s" "dbg_q (cam_io_w_mb v r s) = dbg_q s"
  "csr_writes (cam_io_w_mb v r s) = csr_writes s @ [(r, v)]"
  by (simp_all add: cam_io_w_mb_def)

lemma hfi_write_cmd_fits:
  assumes ready: "cmd_ready s" and pkt: "packet cmd \<noteq> []"
    and fits: "length (cmd_words s) + length (packet cmd) < unat (qhdr_q_size (q_hdr s Q_CMD))"
  obtains t where "hfi_write_cmd (Some cmd) s = (t, Ok ())" "cmd_ready t" "cmd_words t = cmd_words s @ packet cmd"
    "\<And>p. unat (qhdr_q_size (q_hdr s Q_CMD)) \<le> p \<Longrightarrow> cmd_q t p = cmd_q s p"
    "qhdr_read_idx (q_hdr t Q_CMD) = qhdr_read_idx (q_hdr s Q_CMD)" "qhdr_q_size (q_hdr t Q_CMD) = qhdr_q_size (q_hdr s Q_CMD)"
    "csr_writes t = csr_writes s @ [(HFI_REG_A5_CSR_HOST2ICPINT, INTR_ENABLE)]"
proof -
  let ?q = "q_hdr s Q_CMD"
  define n where "n = unat (qhdr_q_size ?q)"
  define w where "w = unat (qhdr_write_idx ?q)"
  define q' where "q' = ?q\<lparr>qhdr_write_idx := of_nat ((w + length (packet cmd)) mod n)\<rparr>"
  define t where "t = cam_io_w_mb INTR_ENABLE HFI_REG_A5_CSR_HOST2ICPINT
    (s\<lparr>cmd_q := ring_write (cmd_q s) n w (packet cmd), q_hdr := (q_hdr s)(Q_CMD := q')\<rparr>)"
  have run: "hfi_write_cmd (Some cmd) s = (t, Ok ())"
    using hfi_write_cmd_ready [OF ready pkt] fits by (simp add: t_def q'_def n_def w_def)
  have wf: "wf_q n ?q" using ready by (simp add: cmd_ready_def n_def)
  then have b: "n < 2 ^ 31" "unat (qhdr_read_idx ?q) < n" "w < n" by (auto simp: wf_q_def w_def)
  then have "(w + length (packet cmd)) mod n < n" by simp
  then have v: "unat (of_nat ((w + length (packet cmd)) mod n) :: u32) = (w + length (packet cmd)) mod n"
    using b(1) by (intro unat_of_nat_u32) simp
  have wf': "wf_q n q'" using wf v b by (simp add: wf_q_def q'_def)
  have words: "cmd_words t = cmd_words s @ packet cmd"
    using ring_write_words [of "unat (qhdr_read_idx ?q)" n w "packet cmd" "cmd_q s"] b fits v
    by (simp add: q_words_def n_def w_def t_def q'_def)
  have "length (packet cmd) < n" using fits by (simp add: n_def)
  then have out: "cmd_q t p = cmd_q s p" if "unat (qhdr_q_size ?q) \<le> p" for p
    using ring_write_outside [OF b(3) _ that [folded n_def]] by (simp add: t_def)
  have "cmd_ready t" using ready wf' by (simp add: cmd_ready_def t_def q'_def n_def)
  then show thesis using that [OF run _ words out] by (simp add: t_def q'_def)
qed

lemma hfi_write_cmd_full:
  assumes "cmd_ready s" "packet cmd \<noteq> []"
    and "\<not> length (cmd_words s) + length (packet cmd) < unat (qhdr_q_size (q_hdr s Q_CMD))"
  shows "hfi_write_cmd (Some cmd) s = (s, Err EIO)"
  using hfi_write_cmd_ready [OF assms(1,2)] assms(3) by simp

text \<open>
  C29: on a ready interface, writing a command that fits appends its words to the command queue,
  leaves every word outside the queue alone and rings the firmware's doorbell once, after the
  write; a command that does not fit changes nothing. One slot always stays free.
\<close>

theorem hfi_write_cmd_appends:
  assumes ready: "cmd_ready s" and pkt: "packet cmd \<noteq> []"
  shows "case hfi_write_cmd (Some cmd) s of
      (t, Inl e) \<Rightarrow> t = s \<and> e = EIO \<and> unat (qhdr_q_size (q_hdr s Q_CMD)) \<le> length (cmd_words s) + length (packet cmd)
    | (t, Inr _) \<Rightarrow> length (cmd_words s) + length (packet cmd) < unat (qhdr_q_size (q_hdr s Q_CMD)) \<and>
        cmd_ready t \<and> cmd_words t = cmd_words s @ packet cmd \<and>
        (\<forall>p. unat (qhdr_q_size (q_hdr s Q_CMD)) \<le> p \<longrightarrow> cmd_q t p = cmd_q s p) \<and>
        qhdr_read_idx (q_hdr t Q_CMD) = qhdr_read_idx (q_hdr s Q_CMD) \<and>
        csr_writes t = csr_writes s @ [(HFI_REG_A5_CSR_HOST2ICPINT, INTR_ENABLE)]"
proof (cases "length (cmd_words s) + length (packet cmd) < unat (qhdr_q_size (q_hdr s Q_CMD))")
  case False
  then show ?thesis using hfi_write_cmd_full [OF ready pkt False] by simp
next
  case True
  show ?thesis by (rule hfi_write_cmd_fits [OF ready pkt True]) (use True in simp)
qed

text \<open>A packet is well formed when its first word is its size in bytes.\<close>

definition packet_ok :: "u32 list \<Rightarrow> bool" where
  "packet_ok xs \<longleftrightarrow> xs \<noteq> [] \<and> unat (drop_bit BYTE_WORD_SHIFT (xs ! 0)) = length xs"

definition cmd_inv :: "hfi_sys \<Rightarrow> bool" where
  "cmd_inv s \<longleftrightarrow> cmd_ready s \<and> qhdr_q_size (q_hdr s Q_CMD) = 1024"

lemma packet_ok_packet: "packet_ok xs \<Longrightarrow> packet (\<lambda>i. xs ! i) = xs"
  by (simp add: packet_ok_def packet_def map_nth)

subsection \<open>The message queues\<close>

definition q_mem :: "nat \<Rightarrow> hfi_sys \<Rightarrow> nat \<Rightarrow> u32" where
  "q_mem q_id s = (if q_id = Q_MSG then msg_q s else dbg_q s)"

definition q_bound :: "nat \<Rightarrow> nat" where
  "q_bound q_id = (if q_id = Q_MSG then 256 else 25600)"

definition msg_ready :: "nat \<Rightarrow> hfi_sys \<Rightarrow> bool" where
  "msg_ready q_id s \<longleftrightarrow> (\<exists>h. g_hfi s = Some h \<and> hfi_st h = HFI_READY \<and> msg_q_state h) \<and>
     q_id \<in> {Q_MSG, Q_DBG} \<and> wf_q (if q_id = Q_MSG then 1024 else 25600) (q_hdr s q_id)"

abbreviation msg_words :: "nat \<Rightarrow> hfi_sys \<Rightarrow> u32 list" where
  "msg_words q_id s \<equiv> q_words (q_mem q_id s) (q_hdr s q_id)"

lemma avail_words_length:
  assumes "wf_q (if q_id = Q_MSG then 1024 else 25600) q" "qhdr_read_idx q \<noteq> qhdr_write_idx q"
  shows "unat (avail_words q_id q) = length (q_words m q)"
proof -
  let ?r = "qhdr_read_idx q" and ?w = "qhdr_write_idx q"
  define n :: nat where "n = (if q_id = Q_MSG then 1024 else 25600)"
  define c :: u32 where "c = (if q_id = Q_MSG then 1024 else 25600)"
  have c: "unat c = n" by (simp add: c_def n_def)
  have b: "unat (qhdr_q_size q) = n" "unat ?r < n" "unat ?w < n" using assms(1) by (auto simp: wf_q_def n_def)
  have a: "avail_words q_id q = (if ?w > ?r then ?w - ?r else c - (?r - ?w))"
    by (simp add: avail_words_def Let_def c_def)
  show ?thesis
  proof (cases "?w > ?r")
    case True
    then show ?thesis using a b by (simp add: unat_sub word_less_nat_alt word_le_nat_alt q_words_def ring_len_eq)
  next
    case False
    then have le: "?w \<le> ?r" by simp
    then have d: "unat (?r - ?w) = unat ?r - unat ?w" by (simp add: unat_sub)
    then have "?r - ?w \<le> c" using b c by (simp add: word_le_nat_alt)
    moreover have "unat ?w < unat ?r" using le assms(2) by (simp add: word_le_nat_alt order_le_less word_unat_eq_iff)
    ultimately show ?thesis using a False b c d by (simp add: unat_sub q_words_def ring_len_eq)
  qed
qed

text \<open>
  reading the message or debug queue returns all the words the firmware has put there, in order,
  and empties the queue; if they are more than the largest packet the host accepts they are all
  discarded and the call reports \<^verbatim>\<open>EIO\<close>, as it does for an empty queue, which is left as it is.
\<close>

theorem hfi_read_message_takes_all:
  assumes "msg_ready q_id s"
  shows "case hfi_read_message True q_id s of
      (t, Inr ws) \<Rightarrow> ws = msg_words q_id s \<and> ws \<noteq> [] \<and> length ws \<le> q_bound q_id \<and>
        msg_ready q_id t \<and> msg_words q_id t = []
    | (t, Inl e) \<Rightarrow> e = EIO \<and> msg_ready q_id t \<and> msg_words q_id t = [] \<and>
        (msg_words q_id s = [] \<and> t = s \<or> q_bound q_id < length (msg_words q_id s))"
proof -
  let ?q = "q_hdr s q_id"
  define n :: nat where "n = (if q_id = Q_MSG then 1024 else 25600)"
  define sz where "sz = avail_words q_id ?q"
  define b :: u32 where "b = (if q_id = Q_MSG then 256 else 25600)"
  obtain h where h: "g_hfi s = Some h" "hfi_st h = HFI_READY" "msg_q_state h" and id: "q_id = Q_MSG \<or> q_id = Q_DBG"
    and wf: "wf_q n ?q" using assms by (auto simp: msg_ready_def n_def)
  have lt: "\<not> q_id > Q_DBG" using id by auto
  have bnd: "unat b = q_bound q_id" by (simp add: b_def q_bound_def)
  have nb: "unat (qhdr_q_size ?q) = n" "unat (qhdr_read_idx ?q) < n" "unat (qhdr_write_idx ?q) < n" "n < 2 ^ 31"
    using wf by (auto simp: wf_q_def)
  have run: "hfi_read_message True q_id s =
    (if qhdr_read_idx ?q = qhdr_write_idx ?q then (s, Err EIO)
     else if sz = 0 \<or> sz > b
     then (s\<lparr>q_hdr := (q_hdr s)(q_id := ?q\<lparr>qhdr_read_idx := qhdr_write_idx ?q\<rparr>)\<rparr>, Err EIO)
     else (case copy_out (q_mem q_id s) ?q sz of (ws, v) \<Rightarrow>
        (s\<lparr>q_hdr := (q_hdr s)(q_id := ?q\<lparr>qhdr_read_idx := v\<rparr>)\<rparr>, Ok ws)))"
    using h lt by (simp add: hfi_read_message_def sz_def b_def q_mem_def Let_def)
  have empty: "msg_ready q_id (s\<lparr>q_hdr := (q_hdr s)(q_id := ?q\<lparr>qhdr_read_idx := qhdr_write_idx ?q\<rparr>)\<rparr>)"
    "q_words m (?q\<lparr>qhdr_read_idx := qhdr_write_idx ?q\<rparr>) = []" for m
    using assms nb ring_words_nil [of "unat (qhdr_write_idx ?q)" n] by (auto simp: msg_ready_def wf_q_def n_def q_words_def)
  show ?thesis
  proof (cases "qhdr_read_idx ?q = qhdr_write_idx ?q")
    case True
    then have "msg_words q_id s = []" using nb by (simp add: q_words_def ring_words_nil)
    with True run assms show ?thesis by simp
  next
    case False
    have len: "unat sz = length (msg_words q_id s)"
      using avail_words_length [OF _ False] wf by (simp add: sz_def n_def)
    have "ring_len n (unat (qhdr_read_idx ?q)) (unat (qhdr_write_idx ?q)) \<noteq> 0"
      using False nb by (simp add: ring_len_0 word_unat_eq_iff)
    then have nz: "sz \<noteq> 0" "msg_words q_id s \<noteq> []" using len nb by (auto simp: q_words_def simp flip: length_0_conv)
    have w: "(unat (qhdr_read_idx ?q) + unat sz) mod n = unat (qhdr_write_idx ?q)"
      using len nb by (auto simp: q_words_def ring_len_eq)
    show ?thesis
    proof (cases "sz > b")
      case True
      then show ?thesis using run False empty len bnd by (simp add: q_mem_def word_less_nat_alt)
    next
      case le: False
      then show ?thesis
        using run False nz copy_out_ring [OF wf len] w empty len bnd by (simp add: q_mem_def word_less_nat_alt not_less)
    qed
  qed
qed

subsection \<open>Bringing the interface up\<close>

lemma write_regions_simps [simp]:
  "g_hfi (write_regions b m s) = g_hfi s" "q_hdr (write_regions b m s) = q_hdr s"
  by (simp_all add: write_regions_def)

lemma event_mode_idx [simp]:
  "qhdr_q_size (set_event_mode mode hs i) = qhdr_q_size (hs i)"
  "qhdr_read_idx (set_event_mode mode hs i) = qhdr_read_idx (hs i)"
  "qhdr_write_idx (set_event_mode mode hs i) = qhdr_write_idx (hs i)"
  by (simp_all add: set_event_mode_def set_mode_def)

lemma init_queues_idx:
  "qhdr_q_size (q_hdr (init_queues mode m s) Q_CMD) = 1024" "qhdr_q_size (q_hdr (init_queues mode m s) Q_MSG) = 1024"
  "qhdr_q_size (q_hdr (init_queues mode m s) (Suc 0)) = 1024" "qhdr_q_size (q_hdr (init_queues mode m s) Q_DBG) = 25600"
  by (simp_all add: init_queues_def init_q_hdr_def)

lemma init_queues_empty:
  assumes "i = Q_CMD \<or> i = Q_MSG \<or> i = Q_DBG"
  shows "qhdr_read_idx (q_hdr (init_queues mode m s) i) = 0" "qhdr_write_idx (q_hdr (init_queues mode m s) i) = 0"
  using assms by (auto simp: init_queues_def init_q_hdr_def)

lemma poll_ok_iff:
  "poll_ok resp \<longleftrightarrow>
     (\<exists>i < HFI_MAX_POLL_TRY. resp i = ICP_INIT_RESP_SUCCESS \<and> (\<forall>j < i. resp j \<noteq> ICP_INIT_RESP_FAILED)) \<or>
     (\<forall>i < HFI_MAX_POLL_TRY. resp i \<noteq> ICP_INIT_RESP_FAILED) \<and> resp 4 \<noteq> ICP_INIT_RESP_RESET"
proof -
  have five: "(\<forall>i < HFI_MAX_POLL_TRY. P i) \<longleftrightarrow> P 0 \<and> P 1 \<and> P 2 \<and> P 3 \<and> P 4"
    "(\<exists>i < HFI_MAX_POLL_TRY. P i) \<longleftrightarrow> P 0 \<or> P 1 \<or> P 2 \<or> P 3 \<or> P 4" for P
    by (auto simp: numeral_eq_Suc less_Suc_eq)
  have less: "(\<forall>j < (0::nat). P j)" "(\<forall>j < (1::nat). P j) \<longleftrightarrow> P 0" "(\<forall>j < (2::nat). P j) \<longleftrightarrow> P 0 \<and> P 1"
    "(\<forall>j < (3::nat). P j) \<longleftrightarrow> P 0 \<and> P 1 \<and> P 2" "(\<forall>j < (4::nat). P j) \<longleftrightarrow> P 0 \<and> P 1 \<and> P 2 \<and> P 3" for P :: "nat \<Rightarrow> bool"
    by (auto simp: numeral_eq_Suc less_Suc_eq)
  show ?thesis
    unfolding five less poll_ok_def by (simp add: poll_init.simps numeral_eq_Suc) 
qed

text \<open>
  when the firmware answers, initialisation leaves the interface ready, with all three queues
  empty and of their size in words, and both mutexes released.
\<close>

theorem hfi_init_ready:
  assumes "g_hfi s = None" "poll_ok resp"
  shows "\<exists>t. cam_hfi_init True mode m base debug resp s = (t, Ok ()) \<and> cmd_inv t \<and> cmd_words t = [] \<and>
    msg_ready Q_MSG t \<and> msg_words Q_MSG t = [] \<and> msg_ready Q_DBG t \<and> msg_words Q_DBG t = [] \<and>
    \<not> hfi_cmd_q_mutex t \<and> \<not> hfi_msg_q_mutex t"
  using assms
  by (simp add: cam_hfi_init_def Let_def lock_both_def unlock_both_def zero_hfi_info_def cmd_inv_def cmd_ready_def
      msg_ready_def wf_q_def q_words_def init_queues_idx init_queues_empty ring_words_nil)

text \<open>
  when the firmware reports failure, or never answers, initialisation reports success all the
  same; the interface is gone, so the next command fails with \<^verbatim>\<open>ENODEV\<close>.
\<close>

theorem hfi_init_failure_unreported:
  assumes "g_hfi s = None" "\<not> poll_ok resp"
  shows "\<exists>t. cam_hfi_init True mode m base debug resp s = (t, Ok ()) \<and> g_hfi t = None \<and>
    hfi_write_cmd (Some cmd) t = (t, Err ENODEV)"
  using assms by (simp add: cam_hfi_init_def Let_def lock_both_def unlock_both_def hfi_write_cmd_def zero_hfi_info_def)

text \<open>
  initialising an interface that is already up is refused, but returns with both queue mutexes
  held, so that the next command or read blocks forever.
\<close>

theorem hfi_reinit_keeps_mutexes:
  assumes "g_hfi s = Some h" "hfi_st h = HFI_READY"
  shows "\<exists>t. cam_hfi_init alloc_ok mode m base debug resp s = (t, Err EINVAL) \<and> hfi_cmd_q_mutex t \<and> hfi_msg_q_mutex t"
  using assms by (simp add: cam_hfi_init_def Let_def lock_both_def)

subsection \<open>A small run\<close>

definition demo_map :: hfi_mem_info where
  "demo_map = hfi_map zero_hfi_info"

definition demo_down :: hfi_sys where
  "demo_down = \<lparr>g_hfi = None, q_tbl_hdr = \<lparr>qtbl_version = 0, qtbl_size = 0, qtbl_qhdr0_offset = 0, qtbl_qhdr_size = 0,
     qtbl_num_q = 0, qtbl_num_active_q = 0\<rparr>,
     q_hdr = (\<lambda>_. \<lparr>qhdr_status = 0, qhdr_start_addr = 0, qhdr_type = 0, qhdr_q_size = 0, qhdr_pkt_size = 0,
       qhdr_pkt_drop_cnt = 0, qhdr_rx_wm = 0, qhdr_tx_wm = 0, qhdr_rx_req = 0, qhdr_tx_req = 0, qhdr_rx_irq_status = 0,
       qhdr_tx_irq_status = 0, qhdr_read_idx = 0, qhdr_write_idx = 0\<rparr>),
     cmd_q = (\<lambda>_. 0), msg_q = (\<lambda>_. 7), dbg_q = (\<lambda>_. 0), sfr_size = 0, csr_writes = [], hfi_cmd_q_mutex = False,
     hfi_msg_q_mutex = False\<rparr>"

definition demo_up :: hfi_sys where
  "demo_up = fst (cam_hfi_init True 0 demo_map 4096 False (\<lambda>i. if i = 2 then 1 else 0) demo_down)"

lemma demo_down_none: "g_hfi demo_down = None"
  by (simp add: demo_down_def)

lemma demo_poll: "poll_ok (\<lambda>i. if i = 2 then 1 else 0)" "\<not> poll_ok (\<lambda>_. 2)" "\<not> poll_ok (\<lambda>_. 0)"
  by (simp_all add: poll_ok_def poll_init.simps)

lemma demo_up_inv: "cmd_inv demo_up" "cmd_words demo_up = []"
  using demo_poll(1)
  by (simp_all add: demo_up_def demo_down_def cam_hfi_init_def Let_def lock_both_def unlock_both_def zero_hfi_info_def
      cmd_inv_def cmd_ready_def wf_q_def q_words_def init_queues_idx init_queues_empty ring_words_nil)

theorem hfi_init_ready_witness:
  "\<exists>t. cam_hfi_init True 0 demo_map 4096 False (\<lambda>i. if i = 2 then 1 else 0) demo_down = (t, Ok ()) \<and> cmd_words t = []"
  using hfi_init_ready [OF demo_down_none demo_poll(1)] by blast

theorem hfi_init_failure_unreported_witness:
  "\<exists>t. cam_hfi_init True 0 demo_map 4096 False (\<lambda>_. 2) demo_down = (t, Ok ()) \<and> g_hfi t = None"
  using hfi_init_failure_unreported [OF demo_down_none demo_poll(2)] by blast

theorem hfi_reinit_keeps_mutexes_witness:
  "\<exists>t. cam_hfi_init True 0 demo_map 4096 False (\<lambda>_. 1) demo_up = (t, Err EINVAL) \<and> hfi_cmd_q_mutex t"
proof -
  obtain h where "g_hfi demo_up = Some h" "hfi_st h = HFI_READY"
    using demo_up_inv(1) by (auto simp: cmd_inv_def cmd_ready_def)
  then show ?thesis using hfi_reinit_keeps_mutexes by blast
qed

theorem hfi_write_cmd_appends_witness:
  "\<exists>t. hfi_write_cmd (Some (\<lambda>i. [8, HFI_CMD_SYS_INIT] ! i)) demo_up = (t, Ok ()) \<and> cmd_words t = [8, HFI_CMD_SYS_INIT]"
proof -
  have p: "packet (\<lambda>i. [8, HFI_CMD_SYS_INIT] ! i) = [8, HFI_CMD_SYS_INIT]"
    by (rule packet_ok_packet) (simp add: packet_ok_def)
  have n: "unat (qhdr_q_size (q_hdr demo_up Q_CMD)) = 1024" "cmd_ready demo_up" using demo_up_inv(1) by (simp_all add: cmd_inv_def)
  show ?thesis
    using hfi_write_cmd_appends [OF n(2), of "\<lambda>i. [8, HFI_CMD_SYS_INIT] ! i"] p n demo_up_inv(2)
    by (cases "hfi_write_cmd (Some (\<lambda>i. [8, HFI_CMD_SYS_INIT] ! i)) demo_up") (auto split: sum.splits)
qed

definition demo_msg :: hfi_sys where
  "demo_msg = demo_up\<lparr>q_hdr := (q_hdr demo_up)(Q_MSG := (q_hdr demo_up Q_MSG)\<lparr>qhdr_q_size := 1024, qhdr_read_idx := 1023, qhdr_write_idx := 2\<rparr>),
     msg_q := (\<lambda>i. if i = 1023 then 12 else 5),
     g_hfi := Some (zero_hfi_info\<lparr>hfi_st := HFI_READY, msg_q_state := True\<rparr>)\<rparr>"

theorem hfi_read_message_takes_all_witness:
  "\<exists>t. hfi_read_message True Q_MSG demo_msg = (t, Ok [12, 5, 5]) \<and> msg_words Q_MSG t = []"
proof -
  have r: "msg_ready Q_MSG demo_msg" by (simp add: msg_ready_def demo_msg_def wf_q_def)
  have w: "msg_words Q_MSG demo_msg = [12, 5, 5]"
    by (simp add: q_words_def ring_words_def demo_msg_def q_mem_def ring_len_def upt_rec)
  show ?thesis
    using hfi_read_message_takes_all [OF r] w
    by (cases "hfi_read_message True Q_MSG demo_msg") (auto simp: q_bound_def split: sum.splits)
qed

end
