(* ===== verification/Cam_Cdm_Util.thy ===== *)
theory Cam_Cdm_Util
  imports Cam_Ring
begin

text \<open>
  The command language of the camera data mover, \<^verbatim>\<open>drivers/cam_cdm/cam_cdm_util.c\<close>: the functions
  that write commands into a buffer for the hardware, the interpreter that executes a buffer in
  software for the virtual CDM, and the functions that walk a buffer to dump it.

  Memory is a function from word offsets, a position in it the word offset of a pointer. The bit
  fields of the C structures are laid out from bit 0 up. Register writes are recorded in order as
  pairs of address and value. The interpreter's loop has fuel, since its \<^verbatim>\<open>uint32_t\<close> size can wrap.
\<close>

abbreviation CAM_CDM_CMD_DMI :: u32 where "CAM_CDM_CMD_DMI \<equiv> 0x1"
abbreviation CAM_CDM_CMD_REG_CONT :: u32 where "CAM_CDM_CMD_REG_CONT \<equiv> 0x3"
abbreviation CAM_CDM_CMD_REG_RANDOM :: u32 where "CAM_CDM_CMD_REG_RANDOM \<equiv> 0x4"
abbreviation CAM_CDM_CMD_BUFF_INDIRECT :: u32 where "CAM_CDM_CMD_BUFF_INDIRECT \<equiv> 0x5"
abbreviation CAM_CDM_CMD_GEN_IRQ :: u32 where "CAM_CDM_CMD_GEN_IRQ \<equiv> 0x6"
abbreviation CAM_CDM_CMD_WAIT_EVENT :: u32 where "CAM_CDM_CMD_WAIT_EVENT \<equiv> 0x7"
abbreviation CAM_CDM_CMD_CHANGE_BASE :: u32 where "CAM_CDM_CMD_CHANGE_BASE \<equiv> 0x8"
abbreviation CAM_CDM_CMD_PERF_CTRL :: u32 where "CAM_CDM_CMD_PERF_CTRL \<equiv> 0x9"
abbreviation CAM_CDM_CMD_DMI_32 :: u32 where "CAM_CDM_CMD_DMI_32 \<equiv> 0xa"
abbreviation CAM_CDM_CMD_DMI_64 :: u32 where "CAM_CDM_CMD_DMI_64 \<equiv> 0xb"
abbreviation CAM_CDM_CMD_SWD_DMI_32 :: u32 where "CAM_CDM_CMD_SWD_DMI_32 \<equiv> 0x70"
abbreviation CAM_CDM_CMD_SWD_DMI_64 :: u32 where "CAM_CDM_CMD_SWD_DMI_64 \<equiv> 0x71"
abbreviation CAM_CDM_COMMAND_OFFSET :: nat where "CAM_CDM_COMMAND_OFFSET \<equiv> 24"
abbreviation CAM_CDM_REG_OFFSET_MASK :: u32 where "CAM_CDM_REG_OFFSET_MASK \<equiv> 0x00FFFFFF"

type_synonym mem = "nat \<Rightarrow> u32"
type_synonym io_writes = "(ptr \<times> u32) list"

subsection \<open>Bit fields\<close>

text \<open>\<open>get_field lo n w\<close> reads the \<open>n\<close> bits of \<open>w\<close> from bit \<open>lo\<close>, \<open>set_field\<close> assigns them.\<close>

definition get_field :: "nat \<Rightarrow> nat \<Rightarrow> u32 \<Rightarrow> u32" where
  "get_field lo n w = drop_bit lo w AND mask n"

definition set_field :: "nat \<Rightarrow> nat \<Rightarrow> u32 \<Rightarrow> u32 \<Rightarrow> u32" where
  "set_field lo n v w = (w AND NOT (push_bit lo (mask n))) OR push_bit lo (v AND mask n)"

subsection \<open>Sizes\<close>

definition CDMCmdHeaderSizes :: "u32 list" where
  "CDMCmdHeaderSizes = [0, 3, 0, 2, 1, 2, 2, 3, 1, 1, 3, 3, 0, 0]"

definition cdm_get_cmd_header_size :: "u32 \<Rightarrow> u32" where
  "cdm_get_cmd_header_size command = CDMCmdHeaderSizes ! unat command"

definition cdm_required_size_reg_continuous :: "u32 \<Rightarrow> u32" where
  "cdm_required_size_reg_continuous numVals = cdm_get_cmd_header_size CAM_CDM_CMD_REG_CONT + numVals"

definition cdm_required_size_reg_random :: "u32 \<Rightarrow> u32" where
  "cdm_required_size_reg_random numRegVals = cdm_get_cmd_header_size CAM_CDM_CMD_REG_RANDOM + 2 * numRegVals"

definition cdm_required_size_dmi :: u32 where
  "cdm_required_size_dmi = cdm_get_cmd_header_size CAM_CDM_CMD_DMI"

definition cdm_required_size_genirq :: u32 where
  "cdm_required_size_genirq = cdm_get_cmd_header_size CAM_CDM_CMD_GEN_IRQ"

definition cdm_required_size_indirect :: u32 where
  "cdm_required_size_indirect = cdm_get_cmd_header_size CAM_CDM_CMD_BUFF_INDIRECT"

definition cdm_required_size_changebase :: u32 where
  "cdm_required_size_changebase = cdm_get_cmd_header_size CAM_CDM_CMD_CHANGE_BASE"

text \<open>Byte offsets of the address words inside the two commands that carry one.\<close>

definition cdm_offsetof_dmi_addr :: u32 where "cdm_offsetof_dmi_addr = 4"
definition cdm_offsetof_indirect_addr :: u32 where "cdm_offsetof_indirect_addr = 4"

subsection \<open>Writing commands\<close>

definition cdm_write_regcontinuous :: "mem \<Rightarrow> nat \<Rightarrow> u32 \<Rightarrow> u32 list \<Rightarrow> mem \<times> nat" where
  "cdm_write_regcontinuous m p reg vals =
     (let numVals = of_nat (length vals);
          m1 = m(p := set_field 16 8 0 (set_field 24 8 CAM_CDM_CMD_REG_CONT (set_field 0 16 numVals (m p))));
          m2 = m1(p + 1 := set_field 0 24 reg (set_field 24 8 0 (m1 (p + 1))));
          p1 = p + unat (cdm_get_cmd_header_size CAM_CDM_CMD_REG_CONT)
      in (memcpy_words m2 p1 vals, p1 + length vals))"

text \<open>The register/value pairs are copied as they lie in memory.\<close>

definition flat_pairs :: "(u32 \<times> u32) list \<Rightarrow> u32 list" where
  "flat_pairs rvs = concat (map (\<lambda>(r, v). [r, v]) rvs)"

definition cdm_write_regrandom :: "mem \<Rightarrow> nat \<Rightarrow> (u32 \<times> u32) list \<Rightarrow> mem \<times> nat" where
  "cdm_write_regrandom m p regVals =
     (let numRegVals = of_nat (length regVals);
          m1 = m(p := set_field 16 8 0 (set_field 24 8 CAM_CDM_CMD_REG_RANDOM (set_field 0 16 numRegVals (m p))));
          p1 = p + unat (cdm_get_cmd_header_size CAM_CDM_CMD_REG_RANDOM)
      in (memcpy_words m1 p1 (flat_pairs regVals), p1 + 2 * length regVals))"

definition cdm_write_dmi :: "mem \<Rightarrow> nat \<Rightarrow> u8 \<Rightarrow> u32 \<Rightarrow> u8 \<Rightarrow> u32 \<Rightarrow> u32 \<Rightarrow> mem \<times> nat" where
  "cdm_write_dmi m p dmiCmd DMIAddr DMISel dmiBufferAddr len =
     (let w0 = set_field 0 16 (len - 1) (set_field 24 8 (ucast dmiCmd) (m p));
          w2 = set_field 24 8 (ucast DMISel) (set_field 0 24 DMIAddr (m (p + 2)))
      in (m(p := w0, p + 1 := dmiBufferAddr, p + 2 := w2), p + unat (cdm_get_cmd_header_size CAM_CDM_CMD_DMI)))"

definition cdm_write_indirect :: "mem \<Rightarrow> nat \<Rightarrow> u32 \<Rightarrow> u32 \<Rightarrow> mem \<times> nat" where
  "cdm_write_indirect m p indirectBufAddr len =
     (m(p := set_field 0 16 (len - 1) (set_field 24 8 CAM_CDM_CMD_BUFF_INDIRECT (m p)), p + 1 := indirectBufAddr),
      p + unat (cdm_get_cmd_header_size CAM_CDM_CMD_BUFF_INDIRECT))"

definition cdm_write_changebase :: "mem \<Rightarrow> nat \<Rightarrow> u32 \<Rightarrow> mem \<times> nat" where
  "cdm_write_changebase m p base =
     (m(p := set_field 0 24 base (set_field 24 8 CAM_CDM_CMD_CHANGE_BASE (m p))),
      p + unat (cdm_get_cmd_header_size CAM_CDM_CMD_CHANGE_BASE))"

definition cdm_write_genirq :: "mem \<Rightarrow> nat \<Rightarrow> u32 \<Rightarrow> mem" where
  "cdm_write_genirq m p userdata = m(p := set_field 24 8 CAM_CDM_CMD_GEN_IRQ (m p), p + 1 := userdata)"

subsection \<open>Executing a buffer in software\<close>

record cam_soc_reg_map =
  mem_base :: ptr
  mem_cam_base :: u32

fun cam_cdm_get_ioremap_from_base :: "u32 \<Rightarrow> cam_soc_reg_map option list \<Rightarrow> ptr result" where
  "cam_cdm_get_ioremap_from_base hw_base [] = Err EINVAL"
| "cam_cdm_get_ioremap_from_base hw_base (e # es) =
     (case e of
        Some r \<Rightarrow> if mem_cam_base r = hw_base then Ok (mem_base r) else cam_cdm_get_ioremap_from_base hw_base es
      | None \<Rightarrow> cam_cdm_get_ioremap_from_base hw_base es)"

text \<open>
  Register writes: none at a \<^verbatim>\<open>NULL\<close> address; \<^verbatim>\<open>cam_io_memcpy\<close> writes the words at consecutive
  addresses.
\<close>

definition cam_io_w :: "u32 \<Rightarrow> ptr \<Rightarrow> io_writes" where
  "cam_io_w data addr = (if addr = 0 then [] else [(addr, data)])"

definition cam_io_memcpy :: "ptr \<Rightarrow> u32 list \<Rightarrow> io_writes" where
  "cam_io_memcpy dest ws =
     (if dest = 0 then [] else map (\<lambda>i. (dest + 4 * of_nat i, ws ! i)) [0..<length ws])"

definition cam_cdm_util_reg_cont_write :: "ptr \<Rightarrow> mem \<Rightarrow> nat \<Rightarrow> u32 \<Rightarrow> (io_writes \<times> u32) result" where
  "cam_cdm_util_reg_cont_write base_addr m p cmd_buf_size =
     (let hdr = cdm_get_cmd_header_size CAM_CDM_CMD_REG_CONT;
          count = unat (get_field 0 16 (m p));
          offset = get_field 0 24 (m (p + 1)) in
      if cmd_buf_size < hdr \<or> base_addr = 0 then Err EINVAL
      else if count = 0 \<or> 0x10000 < count \<or> unat cmd_buf_size < count * 4 + unat hdr then Err EINVAL
      else Ok (cam_io_memcpy (base_addr + ucast offset) (map (\<lambda>i. m (p + unat hdr + i)) [0..<count]),
               of_nat (count * 4) + 4 * hdr))"

definition cam_cdm_util_reg_random_write :: "ptr \<Rightarrow> mem \<Rightarrow> nat \<Rightarrow> u32 \<Rightarrow> (io_writes \<times> u32) result" where
  "cam_cdm_util_reg_random_write base_addr m p cmd_buf_size =
     (let hdr = cdm_get_cmd_header_size CAM_CDM_CMD_REG_RANDOM;
          count = unat (get_field 0 16 (m p));
          d = p + unat hdr in
      if base_addr = 0 then Err EINVAL
      else if count = 0 \<or> 0x10000 < count \<or> unat cmd_buf_size < count * 8 + unat hdr then Err EINVAL
      else Ok (concat (map (\<lambda>i. cam_io_w (m (d + 2 * i + 1)) (base_addr + ucast (m (d + 2 * i)))) [0..<count]),
               of_nat (count * 8) + 4 * hdr))"

definition cam_cdm_util_swd_dmi_write :: "u32 \<Rightarrow> ptr \<Rightarrow> mem \<Rightarrow> nat \<Rightarrow> u32 \<Rightarrow> (io_writes \<times> u32) result" where
  "cam_cdm_util_swd_dmi_write cdm_cmd_type base_addr m p cmd_buf_size =
     (let len = unat (get_field 0 16 (m p));
          reg = base_addr + ucast (get_field 0 24 (m (p + 2)));
          d = p + unat cdm_required_size_dmi in
      if unat cmd_buf_size < unat cdm_required_size_dmi + len + 1 then Err EINVAL
      else
        Ok (if cdm_cmd_type = CAM_CDM_CMD_SWD_DMI_64
            then concat (map (\<lambda>i. cam_io_w (m (d + 2 * i)) (reg + 12) @ cam_io_w (m (d + 2 * i + 1)) (reg + 8))
                   [0..<(len + 1) div 8])
            else concat (map (\<lambda>i. cam_io_w (m (d + i)) (reg + 12)) [0..<(len + 1) div 4]),
            4 * cdm_required_size_dmi + of_nat len + 1))"

text \<open>
  One command of the interpreter's loop: the new base, the register writes and the bytes used.
\<close>

definition cdm_exec_cmd ::
  "cam_soc_reg_map option list \<Rightarrow> mem \<Rightarrow> nat \<Rightarrow> u32 \<Rightarrow> ptr \<Rightarrow> (ptr \<times> io_writes \<times> u32) result" where
  "cdm_exec_cmd base_table m p cmd_buf_size base =
     (let cdm_cmd_type = drop_bit CAM_CDM_COMMAND_OFFSET (m p) in
      if cdm_cmd_type = CAM_CDM_CMD_REG_CONT
      then map_sum id (\<lambda>(ws, used). (base, ws, used)) (cam_cdm_util_reg_cont_write base m p cmd_buf_size)
      else if cdm_cmd_type = CAM_CDM_CMD_REG_RANDOM
      then map_sum id (\<lambda>(ws, used). (base, ws, used)) (cam_cdm_util_reg_random_write base m p cmd_buf_size)
      else if cdm_cmd_type = CAM_CDM_CMD_SWD_DMI_32 \<or> cdm_cmd_type = CAM_CDM_CMD_SWD_DMI_64
      then (if base = 0 then Err EINVAL
            else map_sum id (\<lambda>(ws, used). (base, ws, used))
                   (cam_cdm_util_swd_dmi_write cdm_cmd_type base m p cmd_buf_size))
      else if cdm_cmd_type = CAM_CDM_CMD_CHANGE_BASE
      then map_sum id (\<lambda>b. (b, [], 4 * cdm_required_size_changebase))
             (cam_cdm_get_ioremap_from_base (get_field 0 24 (m p)) base_table)
      else Err EINVAL)"

text \<open>The loop. \<open>None\<close>: the fuel, a bound on the number of commands, did not suffice.\<close>

fun cmd_buf_loop ::
  "nat \<Rightarrow> cam_soc_reg_map option list \<Rightarrow> mem \<Rightarrow> nat \<Rightarrow> u32 \<Rightarrow> ptr \<Rightarrow> io_writes \<Rightarrow>
   (ptr \<times> io_writes \<times> unit result) option" where
  "cmd_buf_loop fuel base_table m p cmd_buf_size base out =
     (if cmd_buf_size > 0 then
        (case fuel of
           0 \<Rightarrow> None
         | Suc n \<Rightarrow>
             (case cdm_exec_cmd base_table m p cmd_buf_size base of
                Inl e \<Rightarrow> Some (base, out, Err e)
              | Inr (base', ws, used_bytes) \<Rightarrow>
                  cmd_buf_loop n base_table m (p + unat used_bytes div 4) (cmd_buf_size - used_bytes) base' (out @ ws)))
      else Some (base, out, Ok ()))"

definition cam_cdm_util_cmd_buf_write ::
  "nat \<Rightarrow> cam_soc_reg_map option list \<Rightarrow> mem \<Rightarrow> nat \<Rightarrow> u32 \<Rightarrow> ptr \<Rightarrow> (ptr \<times> io_writes \<times> unit result) option" where
  "cam_cdm_util_cmd_buf_write fuel base_table m cmd_buf cmd_buf_size current_device_base =
     cmd_buf_loop fuel base_table m cmd_buf cmd_buf_size current_device_base []"

subsection \<open>Dumping a buffer\<close>

text \<open>
  \<open>dst_entries\<close> records what was written to the destination: the offset of the entry's header, its
  tag and its data words; the header takes 48 bytes.
\<close>

record cam_cdm_cmd_buf_dump_info =
  src_start :: "nat option"
  src_end :: "nat option"
  dst_start :: ptr
  dst_offset :: u32
  dst_max_size :: u32
  dst_entries :: "(u32 \<times> string \<times> u32 list) list"

abbreviation dump_header_size :: nat where "dump_header_size \<equiv> 48"

definition dump_entry :: "string \<Rightarrow> u32 list \<Rightarrow> cam_cdm_cmd_buf_dump_info \<Rightarrow> cam_cdm_cmd_buf_dump_info" where
  "dump_entry tag ws d = d\<lparr>dst_entries := dst_entries d @ [(dst_offset d, tag, ws)],
     dst_offset := dst_offset d + of_nat (4 * length ws) + of_nat dump_header_size\<rparr>"

definition cam_cdm_util_dump_reg_cont_cmd_v2 ::
  "mem \<Rightarrow> nat \<Rightarrow> cam_cdm_cmd_buf_dump_info \<Rightarrow> cam_cdm_cmd_buf_dump_info \<times> nat" where
  "cam_cdm_util_dump_reg_cont_cmd_v2 m p d =
     (let hdr = unat (CDMCmdHeaderSizes ! unat CAM_CDM_CMD_REG_CONT);
          count = unat (get_field 0 16 (m p));
          min_len = of_nat (4 * count + dump_header_size);
          remain_len = dst_max_size d - dst_offset d in
      if remain_len < min_len then (d, hdr)
      else (dump_entry ''CDM_REG_CONT:''
              ([get_field 0 24 (m (p + 1)), of_nat count] @ map (\<lambda>i. m (p + hdr + i)) [0..<count]) d,
            hdr + count))"

definition cam_cdm_util_dump_reg_random_cmd_v2 ::
  "mem \<Rightarrow> nat \<Rightarrow> cam_cdm_cmd_buf_dump_info \<Rightarrow> cam_cdm_cmd_buf_dump_info \<times> nat" where
  "cam_cdm_util_dump_reg_random_cmd_v2 m p d =
     (let hdr = unat (CDMCmdHeaderSizes ! unat CAM_CDM_CMD_REG_RANDOM);
          count = unat (get_field 0 16 (m p));
          min_len = of_nat (2 * 4 * count + dump_header_size);
          remain_len = dst_max_size d - dst_offset d in
      if remain_len < min_len then (d, hdr)
      else (dump_entry ''CDM_REG_RANDOM:''
              ([of_nat count] @ concat (map (\<lambda>i. [m (p + hdr + 2 * i) AND CAM_CDM_REG_OFFSET_MASK, m (p + hdr + 2 * i + 1)])
                 [0..<count])) d,
            hdr + 2 * count))"

text \<open>One command of the walk: the dump so far and the words to skip.\<close>

definition dump_cmd_v2 :: "mem \<Rightarrow> nat \<Rightarrow> cam_cdm_cmd_buf_dump_info \<Rightarrow> cam_cdm_cmd_buf_dump_info \<times> nat" where
  "dump_cmd_v2 m p d =
     (let cmd = drop_bit CAM_CDM_COMMAND_OFFSET (m p) in
      if cmd = CAM_CDM_CMD_DMI \<or> cmd = CAM_CDM_CMD_DMI_32 \<or> cmd = CAM_CDM_CMD_DMI_64
      then (d, unat (CDMCmdHeaderSizes ! unat CAM_CDM_CMD_DMI))
      else if cmd = CAM_CDM_CMD_REG_CONT then cam_cdm_util_dump_reg_cont_cmd_v2 m p d
      else if cmd = CAM_CDM_CMD_REG_RANDOM then cam_cdm_util_dump_reg_random_cmd_v2 m p d
      else if cmd = CAM_CDM_CMD_BUFF_INDIRECT then (d, unat (CDMCmdHeaderSizes ! unat CAM_CDM_CMD_BUFF_INDIRECT))
      else if cmd = CAM_CDM_CMD_GEN_IRQ then (d, unat (CDMCmdHeaderSizes ! unat CAM_CDM_CMD_GEN_IRQ))
      else if cmd = CAM_CDM_CMD_WAIT_EVENT then (d, unat (CDMCmdHeaderSizes ! unat CAM_CDM_CMD_WAIT_EVENT))
      else if cmd = CAM_CDM_CMD_CHANGE_BASE then (d, unat (CDMCmdHeaderSizes ! unat CAM_CDM_CMD_CHANGE_BASE))
      else if cmd = CAM_CDM_CMD_PERF_CTRL then (d, unat (CDMCmdHeaderSizes ! unat CAM_CDM_CMD_PERF_CTRL))
      else (d, 1))"

lemma dump_cmd_v2_pos: "0 < snd (dump_cmd_v2 m p d)"
  by (auto simp: dump_cmd_v2_def cam_cdm_util_dump_reg_cont_cmd_v2_def cam_cdm_util_dump_reg_random_cmd_v2_def
      CDMCmdHeaderSizes_def Let_def)

function dump_loop_v2 :: "mem \<Rightarrow> nat \<Rightarrow> nat \<Rightarrow> cam_cdm_cmd_buf_dump_info \<Rightarrow> cam_cdm_cmd_buf_dump_info" where
  "dump_loop_v2 m buf_now src_last d =
     (let r = dump_cmd_v2 m buf_now d in
      if buf_now + snd r \<le> src_last then dump_loop_v2 m (buf_now + snd r) src_last (fst r) else fst r)"
  by pat_completeness auto
termination
proof (relation "measure (\<lambda>(m, p, e, d). Suc e - p)")
  fix m p e d r
  assume "r = dump_cmd_v2 m p d" "p + snd r \<le> e"
  then show "((m, p + snd r, e, fst r), (m, p, e, d)) \<in> measure (\<lambda>(m, p, e, d). Suc e - p)"
    using dump_cmd_v2_pos [of m p d] by auto
qed simp

definition cam_cdm_util_dump_cmd_bufs_v2 :: "mem \<Rightarrow> cam_cdm_cmd_buf_dump_info option \<Rightarrow> cam_cdm_cmd_buf_dump_info option" where
  "cam_cdm_util_dump_cmd_bufs_v2 m dump_info =
     (case dump_info of
        None \<Rightarrow> None
      | Some d \<Rightarrow>
          (case (src_start d, src_end d) of
             (Some b, Some e) \<Rightarrow> if dst_start d = 0 then Some d else Some (dump_loop_v2 m b e d)
           | _ \<Rightarrow> Some d))"

declare cmd_buf_loop.simps [simp del] dump_loop_v2.simps [simp del]

subsection \<open>Bit fields\<close>

lemma get_set_same: "lo + n \<le> 32 \<Longrightarrow> get_field lo n (set_field lo n v w) = v AND mask n"
  by (rule bit_word_eqI) (auto simp: get_field_def set_field_def bit_simps)

lemma get_set_other:
  "lo + n \<le> 32 \<Longrightarrow> lo + n \<le> lo' \<or> lo' + n' \<le> lo \<Longrightarrow> get_field lo n (set_field lo' n' v w) = get_field lo n w"
  by (rule bit_word_eqI) (auto simp: get_field_def set_field_def bit_simps)

lemma cmd_field: "drop_bit 24 w = get_field 24 8 w"
  by (rule bit_word_eqI) (auto simp: get_field_def bit_simps dest: bit_imp_le_length)

lemma unat_and_mask16: "n < 2 ^ 16 \<Longrightarrow> unat ((of_nat n :: u32) AND mask 16) = n"
  by (simp add: unsigned_take_bit_eq unat_of_nat take_bit_nat_eq_self flip: take_bit_eq_mask)

lemma and_mask_small: "unat (v :: u32) < 2 ^ k \<Longrightarrow> v AND mask k = v"
  by (simp add: take_bit_nat_eq_self unsigned_take_bit_eq word_unat_eq_iff flip: take_bit_eq_mask)

lemmas field_simps_cdm = get_set_same get_set_other cmd_field

subsection \<open>A program and the buffer it is written to\<close>

datatype cdm_op = Reg_cont u32 "u32 list" | Reg_random "(u32 \<times> u32) list" | Change_base u32

definition cdm_emit :: "cdm_op \<Rightarrow> mem \<times> nat \<Rightarrow> mem \<times> nat" where
  "cdm_emit op = (\<lambda>(m, p). case op of
      Reg_cont reg vals \<Rightarrow> cdm_write_regcontinuous m p reg vals
    | Reg_random rvs \<Rightarrow> cdm_write_regrandom m p rvs
    | Change_base b \<Rightarrow> cdm_write_changebase m p b)"

definition op_len :: "cdm_op \<Rightarrow> nat" where
  "op_len op = (case op of Reg_cont reg vals \<Rightarrow> 2 + length vals | Reg_random rvs \<Rightarrow> 1 + 2 * length rvs | Change_base b \<Rightarrow> 1)"

text \<open>What a program means: the register writes it makes, from a base, and the base it ends with.\<close>

fun cdm_sem :: "cam_soc_reg_map option list \<Rightarrow> cdm_op list \<Rightarrow> ptr \<Rightarrow> (ptr \<times> io_writes) option" where
  "cdm_sem tbl [] base = Some (base, [])"
| "cdm_sem tbl (Reg_cont reg vals # ops) base =
     (if base = 0 then None
      else map_option (\<lambda>(b, ws). (b, cam_io_memcpy (base + ucast reg) vals @ ws)) (cdm_sem tbl ops base))"
| "cdm_sem tbl (Reg_random rvs # ops) base =
     (if base = 0 then None
      else map_option (\<lambda>(b, ws). (b, concat (map (\<lambda>(r, v). cam_io_w v (base + ucast r)) rvs) @ ws)) (cdm_sem tbl ops base))"
| "cdm_sem tbl (Change_base b # ops) base =
     (case cam_cdm_get_ioremap_from_base b tbl of Inl _ \<Rightarrow> None | Inr base' \<Rightarrow> cdm_sem tbl ops base')"

text \<open>The operands fit their fields.\<close>

definition op_fits :: "cdm_op \<Rightarrow> bool" where
  "op_fits op = (case op of
      Reg_cont reg vals \<Rightarrow> vals \<noteq> [] \<and> length vals < 2 ^ 16 \<and> unat reg < 2 ^ 24
    | Reg_random rvs \<Rightarrow> rvs \<noteq> [] \<and> length rvs < 2 ^ 16
    | Change_base b \<Rightarrow> unat b < 2 ^ 24)"

lemma header_sizes [simp]:
  "cdm_get_cmd_header_size CAM_CDM_CMD_REG_CONT = 2" "cdm_get_cmd_header_size CAM_CDM_CMD_REG_RANDOM = 1"
  "cdm_get_cmd_header_size CAM_CDM_CMD_CHANGE_BASE = 1" "cdm_required_size_dmi = 3" "cdm_required_size_changebase = 1"
  by (simp_all add: cdm_get_cmd_header_size_def CDMCmdHeaderSizes_def cdm_required_size_dmi_def cdm_required_size_changebase_def)

lemma emit_pos: "snd (cdm_emit op (m, p)) = p + op_len op"
  by (cases op) (auto simp: cdm_emit_def op_len_def cdm_write_regcontinuous_def cdm_write_regrandom_def
      cdm_write_changebase_def Let_def)

lemma emit_below: "q < p \<Longrightarrow> fst (cdm_emit op (m, p)) q = m q"
  by (cases op) (auto simp: cdm_emit_def cdm_write_regcontinuous_def cdm_write_regrandom_def
      cdm_write_changebase_def Let_def memcpy_words_def)

lemma emit_all_below: "q < p \<Longrightarrow> fst (fold cdm_emit ops (m, p)) q = m q"
proof (induction ops arbitrary: m p)
  case (Cons op ops)
  obtain m' p' where e: "cdm_emit op (m, p) = (m', p')" by fastforce
  then have "p' = p + op_len op" "m' q = m q" using emit_pos [of op m p] emit_below [OF Cons.prems, of op m] by auto
  then show ?case using Cons.IH [of p' m'] Cons.prems e by simp
qed simp

text \<open>Memory \<open>m\<close> holds the program from word \<open>p\<close> on.\<close>

fun encoded :: "mem \<Rightarrow> nat \<Rightarrow> cdm_op list \<Rightarrow> bool" where
  "encoded m p [] = True"
| "encoded m p (op # ops) =
     ((\<exists>m0. \<forall>q. p \<le> q \<and> q < p + op_len op \<longrightarrow> m q = fst (cdm_emit op (m0, p)) q) \<and> encoded m (p + op_len op) ops)"

lemma emit_encoded: "encoded (fst (fold cdm_emit ops (m, p))) p ops"
proof (induction ops arbitrary: m p)
  case (Cons op ops)
  obtain m' p' where e: "cdm_emit op (m, p) = (m', p')" by fastforce
  then have p': "p' = p + op_len op" using emit_pos [of op m p] by simp
  have "fst (fold cdm_emit ops (m', p')) q = fst (cdm_emit op (m, p)) q" if "q < p + op_len op" for q
    using emit_all_below [of q p'] that e p' by simp
  then have "\<forall>q. p \<le> q \<and> q < p + op_len op \<longrightarrow> fst (fold cdm_emit (op # ops) (m, p)) q = fst (cdm_emit op (m, p)) q"
    using e by simp
  moreover have "encoded (fst (fold cdm_emit (op # ops) (m, p))) (p + op_len op) ops"
    using Cons.IH [of m' p'] e p' by simp
  ultimately show ?case unfolding encoded.simps by blast
qed simp

lemma flat_pairs_simps [simp]: "flat_pairs [] = []" "flat_pairs (x # xs) = fst x # snd x # flat_pairs xs"
  by (auto simp: flat_pairs_def split: prod.splits)

lemma flat_pairs_nth:
  "i < length rvs \<Longrightarrow> flat_pairs rvs ! (2 * i) = fst (rvs ! i) \<and> flat_pairs rvs ! (2 * i + 1) = snd (rvs ! i)"
proof (induction rvs arbitrary: i)
  case (Cons a rvs)
  then show ?case by (cases i) auto
qed simp

lemma flat_pairs_length [simp]: "length (flat_pairs rvs) = 2 * length rvs"
  by (induction rvs) auto

subsection \<open>Executing one command\<close>

lemma exec_reg_cont:
  assumes enc: "\<And>q. p \<le> q \<Longrightarrow> q < p + 2 + length vals \<Longrightarrow> m q = fst (cdm_write_regcontinuous m0 p reg vals) q"
    and ok: "vals \<noteq> []" "length vals < 2 ^ 16" "unat reg < 2 ^ 24" "base \<noteq> 0" "4 * (2 + length vals) \<le> unat sz"
  shows "cdm_exec_cmd tbl m p sz base =
    Ok (base, cam_io_memcpy (base + ucast reg) vals, of_nat (4 * (2 + length vals)))"
proof -
  have w: "m p = set_field 16 8 0 (set_field 24 8 CAM_CDM_CMD_REG_CONT (set_field 0 16 (of_nat (length vals)) (m0 p)))"
    "m (p + 1) = set_field 0 24 reg (set_field 24 8 0 (m0 (p + 1)))"
    using enc [of p] enc [of "p + 1"] ok(1) by (simp_all add: cdm_write_regcontinuous_def Let_def memcpy_words_def)
  have cmd: "drop_bit 24 (m p) = CAM_CDM_CMD_REG_CONT"
    by (simp add: cmd_field w get_set_other get_set_same mask_eq_exp_minus_1)
  have cnt: "unat (get_field 0 16 (m p)) = length vals"
    using unat_and_mask16 [OF ok(2)] by (simp add: w get_set_other get_set_same)
  have off: "get_field 0 24 (m (p + 1)) = reg"
    using and_mask_small [OF ok(3)] unfolding w(2) by (simp add: get_set_same)
  have dat: "map (\<lambda>i. m (p + 2 + i)) [0..<length vals] = vals"
    using enc by (intro nth_equalityI) (simp_all add: cdm_write_regcontinuous_def Let_def memcpy_words_def)
  have szb: "\<not> sz < 2" "\<not> unat sz < length vals * 4 + 2" using ok(1,5) by (auto simp: word_less_nat_alt)
  show ?thesis
    using cmd cnt off dat szb ok by (simp add: cdm_exec_cmd_def cam_cdm_util_reg_cont_write_def Let_def)
qed

lemma exec_reg_random:
  assumes enc: "\<And>q. p \<le> q \<Longrightarrow> q < p + 1 + 2 * length rvs \<Longrightarrow> m q = fst (cdm_write_regrandom m0 p rvs) q"
    and ok: "rvs \<noteq> []" "length rvs < 2 ^ 16" "base \<noteq> 0" "4 * (1 + 2 * length rvs) \<le> unat sz"
  shows "cdm_exec_cmd tbl m p sz base =
    Ok (base, concat (map (\<lambda>(r, v). cam_io_w v (base + ucast r)) rvs), of_nat (4 * (1 + 2 * length rvs)))"
proof -
  have w: "m p = set_field 16 8 0 (set_field 24 8 CAM_CDM_CMD_REG_RANDOM (set_field 0 16 (of_nat (length rvs)) (m0 p)))"
    using enc [of p] by (simp add: cdm_write_regrandom_def Let_def memcpy_words_def)
  have cmd: "drop_bit 24 (m p) = CAM_CDM_CMD_REG_RANDOM"
    by (simp add: cmd_field w get_set_other get_set_same mask_eq_exp_minus_1)
  have cnt: "unat (get_field 0 16 (m p)) = length rvs"
    using unat_and_mask16 [OF ok(2)] by (simp add: w get_set_other get_set_same)
  have dat: "m (p + 1 + 2 * i) = fst (rvs ! i)" "m (p + 1 + 2 * i + 1) = snd (rvs ! i)" if "i < length rvs" for i
    using enc [of "p + 1 + 2 * i"] enc [of "p + 1 + 2 * i + 1"] that flat_pairs_nth [OF that]
    by (simp_all add: cdm_write_regrandom_def Let_def memcpy_words_def)
  have "map (\<lambda>i. cam_io_w (m (p + 1 + 2 * i + 1)) (base + ucast (m (p + 1 + 2 * i)))) [0..<length rvs] =
      map (\<lambda>(r, v). cam_io_w v (base + ucast r)) rvs"
    using dat by (intro nth_equalityI) (simp_all split: prod.splits)
  moreover have "\<not> unat sz < length rvs * 8 + 1" using ok(4) by simp
  ultimately show ?thesis
    using cmd cnt ok by (simp add: cdm_exec_cmd_def cam_cdm_util_reg_random_write_def Let_def)
qed

lemma exec_change_base:
  assumes "m p = fst (cdm_write_changebase m0 p b) p" "unat b < 2 ^ 24" "cam_cdm_get_ioremap_from_base b tbl = Ok base'"
  shows "cdm_exec_cmd tbl m p sz base = Ok (base', [], 4)"
proof -
  have w: "m p = set_field 0 24 b (set_field 24 8 CAM_CDM_CMD_CHANGE_BASE (m0 p))"
    using assms(1) by (simp add: cdm_write_changebase_def)
  have cmd: "drop_bit 24 (m p) = CAM_CDM_CMD_CHANGE_BASE"
    by (simp add: cmd_field w get_set_other get_set_same mask_eq_exp_minus_1)
  have "get_field 0 24 (m p) = b" using and_mask_small [OF assms(2)] by (simp add: w get_set_same)
  with cmd assms(3) show ?thesis by (simp add: cdm_exec_cmd_def Let_def)
qed

subsection \<open>Executing a program\<close>

abbreviation prog_len :: "cdm_op list \<Rightarrow> nat" where
  "prog_len ops \<equiv> sum_list (map op_len ops)"

lemma exec_op:
  assumes "encoded m p (op # ops)" "op_fits op" "cdm_sem tbl (op # ops) base = Some (base', ws)" "4 * op_len op \<le> unat sz"
  obtains b ws1 ws2 where "cdm_exec_cmd tbl m p sz base = Ok (b, ws1, of_nat (4 * op_len op))"
    "cdm_sem tbl ops b = Some (base', ws2)" "ws = ws1 @ ws2"
proof -
  obtain m0 where enc: "\<And>q. p \<le> q \<Longrightarrow> q < p + op_len op \<Longrightarrow> m q = fst (cdm_emit op (m0, p)) q"
    using assms(1) by auto
  show thesis
  proof (cases op)
    case (Reg_cont reg vals)
    have e: "m q = fst (cdm_write_regcontinuous m0 p reg vals) q" if "p \<le> q" "q < p + 2 + length vals" for q
      using enc [OF that(1)] that Reg_cont by (simp add: cdm_emit_def op_len_def)
    show thesis
      using that [of base "cam_io_memcpy (base + ucast reg) vals"] exec_reg_cont [OF e, of base sz tbl] assms(2-4) Reg_cont
      by (auto simp: op_fits_def op_len_def split: if_splits)
  next
    case (Reg_random rvs)
    have e: "m q = fst (cdm_write_regrandom m0 p rvs) q" if "p \<le> q" "q < p + 1 + 2 * length rvs" for q
      using enc [OF that(1)] that Reg_random by (simp add: cdm_emit_def op_len_def)
    show thesis
      using that [of base "concat (map (\<lambda>(r, v). cam_io_w v (base + ucast r)) rvs)"] exec_reg_random [OF e, of base sz tbl]
        assms(2-4) Reg_random
      by (auto simp: op_fits_def op_len_def split: if_splits)
  next
    case (Change_base b)
    then obtain b' where b': "cam_cdm_get_ioremap_from_base b tbl = Ok b'" "cdm_sem tbl ops b' = Some (base', ws)"
      using assms(3) by (auto split: sum.splits)
    have "m p = fst (cdm_write_changebase m0 p b) p"
      using enc [of p] Change_base by (simp add: cdm_emit_def op_len_def)
    from exec_change_base [of m p m0 b tbl b' sz base, OF this _ b'(1)] show thesis
      using that [of b' "[]"] b'(2) assms(2) Change_base by (simp add: op_fits_def op_len_def)
  qed
qed

lemma loop_runs:
  assumes "encoded m p ops" "\<forall>op \<in> set ops. op_fits op" "cdm_sem tbl ops base = Some (base', ws)"
    "unat sz = 4 * prog_len ops" "length ops \<le> fuel"
  shows "cmd_buf_loop fuel tbl m p sz base out = Some (base', out @ ws, Ok ())"
  using assms
proof (induction ops arbitrary: p base sz out ws fuel)
  case Nil
  then have "sz = 0" by (simp add: unat_eq_zero)
  then show ?case using Nil by (simp add: cmd_buf_loop.simps)
next
  case (Cons op ops)
  obtain n where n: "fuel = Suc n" "length ops \<le> n" using Cons.prems(5) by (cases fuel) auto
  have le: "4 * op_len op \<le> unat sz" using Cons.prems(4) by simp
  have pos: "0 < op_len op" by (cases op) (simp_all add: op_len_def)
  then have sz: "0 < sz" using Cons.prems(4) by (simp add: word_less_nat_alt)
  have "unat sz < 2 ^ LENGTH(32)" by (rule unsigned_less)
  then have lt: "4 * op_len op < 2 ^ 32" using le by simp
  have u: "unat (of_nat (4 * op_len op) :: u32) = 4 * op_len op" using lt by (rule unat_of_nat_u32)
  have "(of_nat (4 * op_len op) :: u32) \<le> sz" using u le by (simp add: word_le_nat_alt)
  then have rest: "unat (sz - of_nat (4 * op_len op)) = 4 * prog_len ops"
    using u Cons.prems(4) by (simp add: unat_sub)
  have "op_fits op" using Cons.prems(2) by simp
  then show ?case
  proof (rule exec_op [OF Cons.prems(1) _ Cons.prems(3) le])
    fix b ws1 ws2
    assume x: "cdm_exec_cmd tbl m p sz base = Ok (b, ws1, of_nat (4 * op_len op))"
      "cdm_sem tbl ops b = Some (base', ws2)" "ws = ws1 @ ws2"
    have "cmd_buf_loop fuel tbl m p sz base out =
        cmd_buf_loop n tbl m (p + op_len op) (sz - of_nat (4 * op_len op)) b (out @ ws1)"
      using sz x(1) n(1) u by (subst cmd_buf_loop.simps) simp
    also have "\<dots> = Some (base', (out @ ws1) @ ws2, Ok ())"
      using Cons.prems(1,2) x(2) rest n(2) by (intro Cons.IH) simp_all
    finally show ?thesis using x(3) by simp
  qed
qed

text \<open>
  C16: a program written into a buffer with the driver's own functions and then executed by its
  software interpreter makes exactly the register writes the program means, in order, and ends with
  the base the program selects; the interpreter stops at the end of the buffer.
\<close>

theorem cdm_roundtrip:
  assumes "\<forall>op \<in> set ops. op_fits op" "cdm_sem tbl ops base = Some (base', ws)" "4 * prog_len ops < 2 ^ 32"
  shows "cam_cdm_util_cmd_buf_write (length ops) tbl (fst (fold cdm_emit ops (m, p))) p (of_nat (4 * prog_len ops)) base =
    Some (base', ws, Ok ())"
  unfolding cam_cdm_util_cmd_buf_write_def
  using loop_runs [OF emit_encoded assms(1,2) unat_of_nat_u32 [OF assms(3)] order_refl, of m p "[]"] by simp

subsection \<open>What the writers touch\<close>

text \<open>
  C33: the functions that write a command change only the words from the given position up to the
  position they return, and the number of these words is what the size functions announce to the
  callers that reserve the space.
\<close>

theorem cdm_write_within:
  assumes "length vals < 2 ^ 30" "length rvs < 2 ^ 30"
  shows "(case cdm_write_regcontinuous m p reg vals of (m', p') \<Rightarrow>
       p' = p + unat (cdm_required_size_reg_continuous (of_nat (length vals))) \<and> (\<forall>q. q < p \<or> p' \<le> q \<longrightarrow> m' q = m q)) \<and>
    (case cdm_write_regrandom m p rvs of (m', p') \<Rightarrow>
       p' = p + unat (cdm_required_size_reg_random (of_nat (length rvs))) \<and> (\<forall>q. q < p \<or> p' \<le> q \<longrightarrow> m' q = m q)) \<and>
    (case cdm_write_dmi m p c a sel addr len of (m', p') \<Rightarrow>
       p' = p + unat cdm_required_size_dmi \<and> (\<forall>q. q < p \<or> p' \<le> q \<longrightarrow> m' q = m q)) \<and>
    (case cdm_write_indirect m p addr len of (m', p') \<Rightarrow>
       p' = p + unat cdm_required_size_indirect \<and> (\<forall>q. q < p \<or> p' \<le> q \<longrightarrow> m' q = m q)) \<and>
    (case cdm_write_changebase m p b of (m', p') \<Rightarrow>
       p' = p + unat cdm_required_size_changebase \<and> (\<forall>q. q < p \<or> p' \<le> q \<longrightarrow> m' q = m q)) \<and>
    (\<forall>q. q < p \<or> p + unat cdm_required_size_genirq \<le> q \<longrightarrow> cdm_write_genirq m p u q = m q)"
proof -
  have "unat (2 + of_nat (length vals) :: u32) = 2 + length vals"
    using assms(1) unat_add_small [of 2 "of_nat (length vals)"] by (simp add: unat_of_nat_u32)
  moreover have "unat (1 + 2 * of_nat (length rvs) :: u32) = 1 + 2 * length rvs"
    using assms(2) unat_add_small [of 1 "of_nat (2 * length rvs)"] unat_of_nat_u32 [of "2 * length rvs"] by simp
  ultimately show ?thesis
    by (simp add: cdm_write_regcontinuous_def cdm_write_regrandom_def cdm_write_dmi_def cdm_write_indirect_def
        cdm_write_changebase_def cdm_write_genirq_def cdm_required_size_reg_continuous_def
        cdm_required_size_reg_random_def cdm_required_size_indirect_def cdm_required_size_genirq_def
        cdm_get_cmd_header_size_def CDMCmdHeaderSizes_def Let_def memcpy_words_def)
qed

theorem cdm_write_within_witness:
  "snd (cdm_write_regcontinuous (\<lambda>_. 0) 5 0x40 [7, 8]) = 5 + unat (cdm_required_size_reg_continuous (of_nat (length [7, 8 :: u32])))"
  using cdm_write_within [where vals = "[7, 8]" and rvs = "[]" and m = "\<lambda>_. 0" and p = 5 and reg = "0x40", THEN conjunct1]
  by (cases "cdm_write_regcontinuous (\<lambda>_. 0) 5 0x40 [7, 8]") simp

subsection \<open>Truncated buffers\<close>

lemma get_field_16_less: "unat (get_field 0 16 w) < 2 ^ 16"
proof -
  have "get_field 0 16 w = take_bit 16 w" by (simp add: get_field_def take_bit_eq_mask)
  then show ?thesis using take_bit_nat_less_exp [of 16 "unat w"] by (simp add: unsigned_take_bit_eq)
qed

text \<open>
  the bounds check of a continuous register write counts the header in words but the size in
  bytes. A last command whose final data word is missing is therefore accepted: the word after the
  buffer is written to a register, the remaining size wraps to \<open>2\<^sup>3\<^sup>2 - 4\<close>, and the
  interpreter goes on behind the buffer.
\<close>

theorem cdm_truncated_reg_cont:
  assumes count: "count = unat (get_field 0 16 (m p))" "0 < count"
    and cmd: "drop_bit CAM_CDM_COMMAND_OFFSET (m p) = CAM_CDM_CMD_REG_CONT" and base: "base \<noteq> 0"
    and buf: "buf_end = p + (count + 1)" "sz = of_nat (4 * (buf_end - p))"
  shows "cmd_buf_loop (Suc n) tbl m p sz base out =
      cmd_buf_loop n tbl m (buf_end + 1) (- 4) base
        (out @ cam_io_memcpy (base + ucast (get_field 0 24 (m (p + 1)))) (map (\<lambda>i. m (p + 2 + i)) [0..<count])) \<and>
    last (map (\<lambda>i. m (p + 2 + i)) [0..<count]) = m buf_end"
proof
  have lt: "count < 2 ^ 16" using count get_field_16_less by simp
  have sz: "sz = of_nat (4 * count + 4)" using buf by simp
  have usz: "unat sz = 4 * count + 4" unfolding sz using lt by (intro unat_of_nat_u32) simp
  have used: "of_nat (count * 4) + 4 * 2 = (of_nat (4 * count + 8) :: u32)" by simp
  have uused: "unat (of_nat (4 * count + 8) :: u32) = 4 * count + 8" using lt by (intro unat_of_nat_u32) simp
  have pos: "0 < sz" "\<not> sz < 2" using usz count(2) by (simp_all add: word_less_nat_alt)
  have rest: "sz - of_nat (4 * count + 8) = - 4" by (simp add: sz)
  have x: "cdm_exec_cmd tbl m p sz base =
      Ok (base, cam_io_memcpy (base + ucast (get_field 0 24 (m (p + 1)))) (map (\<lambda>i. m (p + 2 + i)) [0..<count]), of_nat (4 * count + 8))"
    using cmd base count lt pos usz
    by (simp add: cdm_exec_cmd_def cam_cdm_util_reg_cont_write_def Let_def)
  have "p + unat (of_nat (4 * count + 8) :: u32) div 4 = buf_end + 1" using uused buf(1) by simp
  then show "cmd_buf_loop (Suc n) tbl m p sz base out =
      cmd_buf_loop n tbl m (buf_end + 1) (- 4) base
        (out @ cam_io_memcpy (base + ucast (get_field 0 24 (m (p + 1)))) (map (\<lambda>i. m (p + 2 + i)) [0..<count]))"
    using pos(1) x rest by (subst cmd_buf_loop.simps) (simp del: of_nat_add of_nat_mult)
  show "last (map (\<lambda>i. m (p + 2 + i)) [0..<count]) = m buf_end"
    using count(2) buf(1) by (simp add: last_map)
qed

definition demo_cdm_mem :: mem where
  "demo_cdm_mem = (\<lambda>i. if i = 0 then 0x03000001 else if i = 1 then 0x10 else 0xBAD)"

lemma demo_cdm_fields:
  "drop_bit 24 (demo_cdm_mem 0) = 3" "get_field 0 16 (demo_cdm_mem 0) = 1" "get_field 0 24 (demo_cdm_mem 1) = 0x10"
  by (simp_all add: demo_cdm_mem_def get_field_def mask_eq_exp_minus_1)

text \<open>The buffer is the two header words; the value 0xBAD behind it is written to a register.\<close>

theorem cdm_truncated_reg_cont_witness:
  "cmd_buf_loop 1 [] demo_cdm_mem 0 8 4096 [] = cmd_buf_loop 0 [] demo_cdm_mem 3 (- 4) 4096 [(4112, 0xBAD)]"
proof -
  have "cmd_buf_loop (Suc 0) [] demo_cdm_mem 0 8 4096 [] = cmd_buf_loop 0 [] demo_cdm_mem (2 + 1) (- 4) 4096
      ([] @ cam_io_memcpy (4096 + ucast (get_field 0 24 (demo_cdm_mem (0 + 1)))) (map (\<lambda>i. demo_cdm_mem (0 + 2 + i)) [0..<1]))"
    by (rule cdm_truncated_reg_cont [THEN conjunct1]) (simp_all add: demo_cdm_fields)
  moreover have "cam_io_memcpy (4096 + ucast (get_field 0 24 (demo_cdm_mem (0 + 1)))) (map (\<lambda>i. demo_cdm_mem (0 + 2 + i)) [0..<1]) =
      [(4112, 0xBAD)]"
    using demo_cdm_fields(3) by (simp add: cam_io_memcpy_def demo_cdm_mem_def)
  ultimately show ?thesis by simp
qed

subsection \<open>The dump buffer\<close>

text \<open>
  the dump of a continuous register write checks for its header and its data but also stores
  the offset and the count. With exactly the checked space left it ends 8 bytes behind the
  destination, and as the space left is then computed modulo \<open>2\<^sup>3\<^sup>2\<close> the next command is dumped there
  as well, whatever its size.
\<close>

theorem cdm_dump_overruns:
  assumes "count = unat (get_field 0 16 (m p))" "unat (dst_max_size d) < 2 ^ 31"
    and "unat (dst_offset d) + 4 * count + dump_header_size = unat (dst_max_size d)"
  shows "unat (dst_offset (fst (cam_cdm_util_dump_reg_cont_cmd_v2 m p d))) = unat (dst_max_size d) + 8 \<and>
    (\<forall>q. dst_entries (fst (cam_cdm_util_dump_reg_cont_cmd_v2 m q (fst (cam_cdm_util_dump_reg_cont_cmd_v2 m p d)))) \<noteq>
         dst_entries (fst (cam_cdm_util_dump_reg_cont_cmd_v2 m p d)))"
proof -
  define d' where "d' = fst (cam_cdm_util_dump_reg_cont_cmd_v2 m p d)"
  have c: "unat (get_field 0 16 (m q)) < 2 ^ 16" for q by (rule get_field_16_less)
  have e: "dst_max_size d - dst_offset d = of_nat (4 * count + dump_header_size)"
  proof -
    have "dst_offset d \<le> dst_max_size d" using assms(3) by (simp add: word_le_nat_alt)
    then have "unat (dst_max_size d - dst_offset d) = 4 * count + dump_header_size" using assms(3) by (simp add: unat_sub)
    then have "of_nat (unat (dst_max_size d - dst_offset d)) = (of_nat (4 * count + dump_header_size) :: u32)" by (rule arg_cong)
    then show ?thesis by simp
  qed
  have d': "d' = dump_entry ''CDM_REG_CONT:'' ([get_field 0 24 (m (p + 1)), of_nat count] @ map (\<lambda>i. m (p + 2 + i)) [0..<count]) d"
    using e assms(1) by (simp add: d'_def cam_cdm_util_dump_reg_cont_cmd_v2_def Let_def CDMCmdHeaderSizes_def)
  have off: "dst_offset d' = dst_max_size d + 8" "dst_max_size d' = dst_max_size d"
    using e by (auto simp: d' dump_entry_def algebra_simps)
  have u: "unat (dst_max_size d + 8) = unat (dst_max_size d) + 8" using assms(2) unat_add_small [of "dst_max_size d" 8] by simp
  have big: "\<not> dst_max_size d' - dst_offset d' < of_nat (4 * unat (get_field 0 16 (m q)) + dump_header_size)" for q
  proof -
    have "unat (of_nat (4 * unat (get_field 0 16 (m q)) + dump_header_size) :: u32) = 4 * unat (get_field 0 16 (m q)) + dump_header_size"
      using c [of q] by (intro unat_of_nat_u32) simp
    moreover have "dst_max_size d' - dst_offset d' = - 8" using off by simp
    ultimately show ?thesis using c [of q] by (simp add: word_less_nat_alt)
  qed
  have "dst_entries (fst (cam_cdm_util_dump_reg_cont_cmd_v2 m q d')) \<noteq> dst_entries d'" for q
    using big [of q] by (simp add: cam_cdm_util_dump_reg_cont_cmd_v2_def Let_def dump_entry_def)
  then show ?thesis using off(1) u by (simp flip: d'_def)
qed

definition demo_dump :: cam_cdm_cmd_buf_dump_info where
  "demo_dump = \<lparr>src_start = Some 0, src_end = Some 2, dst_start = 4096, dst_offset = 0, dst_max_size = 52, dst_entries = []\<rparr>"

theorem cdm_dump_overruns_witness:
  "unat (dst_offset (fst (cam_cdm_util_dump_reg_cont_cmd_v2 demo_cdm_mem 0 demo_dump))) = 52 + 8"
proof -
  have "1 = unat (get_field 0 16 (demo_cdm_mem 0))" by (simp add: demo_cdm_fields)
  from cdm_dump_overruns [of 1 demo_cdm_mem 0 demo_dump, OF this] show ?thesis by (simp add: demo_dump_def)
qed

text \<open>A program of three commands for the round trip.\<close>

theorem cdm_roundtrip_witness:
  "cam_cdm_util_cmd_buf_write 3 [None, Some \<lparr>mem_base = 0x1000, mem_cam_base = 0x40000\<rparr>]
     (fst (fold cdm_emit [Change_base 0x40000, Reg_cont 0x10 [1, 2], Reg_random [(0x20, 3)]] (\<lambda>_. 0xFFFFFFFF, 0))) 0 32 0 =
   Some (0x1000, [(0x1010, 1), (0x1014, 2), (0x1020, 3)], Ok ())"
  using cdm_roundtrip [where ops = "[Change_base 0x40000, Reg_cont 0x10 [1, 2], Reg_random [(0x20, 3)]]"
      and tbl = "[None, Some \<lparr>mem_base = 0x1000, mem_cam_base = 0x40000\<rparr>]" and base = 0 and base' = "0x1000"
      and ws = "[(0x1010, 1), (0x1014, 2), (0x1020, 3)]" and m = "\<lambda>_. 0xFFFFFFFF" and p = 0]
  by (simp add: op_fits_def op_len_def cam_io_memcpy_def cam_io_w_def upt_rec numeral_3_eq_3)

end
