(* ===== verification/Cam_Ctx.thy ===== *)
theory Cam_Ctx
  imports Cam_Sync_Signal Cam_Packet_Util Cam_Hdl_Table
begin

text \<open>
  The context framework, \<^verbatim>\<open>drivers/cam_core/cam_context_utils.c\<close> and \<^verbatim>\<open>cam_context.c\<close>: the request objects of a device
  context on their way from the free list over the pending list (waiting for input fences) and the active list (in the
  hardware) back to the free list.

  Contexts and requests live in two stores, and a pointer to one is its number. A list head is the list of the requests
  linked behind it. Adding a request to a list while it is still linked in one breaks the links of both in C; here
  \<open>corrupt\<close> records that it happened. The fences, the memory manager and the handle table are the models of
  \<open>Cam_Sync\<close>, \<open>Cam_Mem_Mgr\<close> and \<open>Cam_Hdl_Table\<close>; packets lie in byte memory. The hardware manager below a context is the
  record \<open>cam_hw_mgr_intf\<close> of its function pointers: each answer may depend on all calls it has seen, which \<open>hw_calls\<close>
  keeps. An operation runs under the locks it takes, so its body is one state change. Results are the \<^verbatim>\<open>int\<close> codes.
\<close>

abbreviation CAM_CTX_CFG_MAX :: nat where "CAM_CTX_CFG_MAX \<equiv> 20"
abbreviation CAM_CTX_REQ_MAX :: nat where "CAM_CTX_REQ_MAX \<equiv> 20"
abbreviation CAM_CTX_RES_MAX :: u32 where "CAM_CTX_RES_MAX \<equiv> 20"
abbreviation CAM_FLUSH_TYPE_REQ :: u32 where "CAM_FLUSH_TYPE_REQ \<equiv> 0"
abbreviation CAM_FLUSH_TYPE_ALL :: u32 where "CAM_FLUSH_TYPE_ALL \<equiv> 1"
abbreviation SZ_PACKET :: u64 where "SZ_PACKET \<equiv> 64"

subsection \<open>Data\<close>

datatype cam_context_state =
  CAM_CTX_UNINIT | CAM_CTX_AVAILABLE | CAM_CTX_ACQUIRED | CAM_CTX_READY | CAM_CTX_ACTIVATED

text \<open>The state machine a context points to: the static table of one driver.\<close>

datatype ctx_machine = JPEG_machine | ICP_machine | LRME_machine | FD_machine

record cam_hw_update_entry =
  he_handle :: int
  he_offset :: u32
  he_len :: u32
  he_flags :: u32
  he_addr :: u64

record cam_ctx_request =
  rq_id :: u64
  rq_priv :: ptr
  rq_upd :: "cam_hw_update_entry list"
  rq_in :: "int list"
  rq_out :: "int list"
  rq_acked :: nat
  rq_flushed :: bool
  rq_ctx :: "nat option"
  rq_packet :: ptr

record cam_context =
  cx_name :: string
  cx_dev_id :: u64
  cx_id :: u32
  cx_session :: u32
  cx_dev_hdl :: u32
  cx_link_hdl :: u32
  cx_active :: "nat list"
  cx_pending :: "nat list"
  cx_wait :: "nat list"
  cx_free :: "nat list"
  cx_base :: nat
  cx_size :: nat
  cx_intf :: bool
  cx_crm :: ptr
  cx_state :: cam_context_state
  cx_machine :: "ctx_machine option"
  cx_hw_map :: ptr
  cx_refs :: nat
  cx_last_flush :: u32
  cx_index :: u64

datatype hw_call =
    Hw_acquire u32 u64
  | Hw_release ptr
  | Hw_start ptr
  | Hw_stop ptr
  | Hw_prepare ptr ptr u64
  | Hw_stream ptr ptr
  | Hw_config ptr u64 "cam_hw_update_entry list" "int list" ptr
  | Hw_flush ptr u32 "ptr list" "ptr list"
  | Hw_pf ptr ptr u64 u32
  | Hw_dump ptr u32 u32 u64
  | Hw_close

record hw_prepared =
  hp_upd :: "cam_hw_update_entry list"
  hp_out :: "int list"
  hp_in :: "int list"
  hp_priv :: ptr
  hp_packet :: ptr

text \<open>
  \<open>None\<close> is a \<^verbatim>\<open>NULL\<close> function pointer. The pointers the code calls without a test, \<^verbatim>\<open>hw_acquire\<close>, \<^verbatim>\<open>hw_prepare_update\<close> and
  \<^verbatim>\<open>hw_config\<close>, are plain functions.
\<close>

record cam_hw_mgr_intf =
  hw_acquire :: "hw_call list \<Rightarrow> int \<times> ptr"
  hw_release :: bool
  hw_start :: "(hw_call list \<Rightarrow> int) option"
  hw_stop :: bool
  hw_prepare_update :: "hw_call list \<Rightarrow> int \<times> hw_prepared"
  hw_config_stream_settings :: "(hw_call list \<Rightarrow> int) option"
  hw_config :: "hw_call list \<Rightarrow> int"
  hw_flush :: bool
  hw_cmd :: bool
  hw_dump :: "(hw_call list \<Rightarrow> int \<times> u32) option"
  hw_close :: bool

record ctx_sys =
  sy :: sync_device
  mm :: mem
  ht :: "hdl_tbl option"
  bm :: bmem
  ctxs :: "nat \<Rightarrow> cam_context"
  reqs :: "nat \<Rightarrow> cam_ctx_request"
  free_ctx_list :: "nat list"
  ctx_size :: nat
  node_name :: string
  hw_calls :: "hw_call list"
  corrupt :: bool

text \<open>What the outside contributes to a call: the manager, whether the caller is in interrupt context, the memory
  environment, a random byte for handles, and which allocations succeed.\<close>

record ctx_env =
  ce_hw :: cam_hw_mgr_intf
  ce_irq :: bool
  ce_mem :: mem_env
  ce_rand :: u8
  ce_alloc :: "nat \<Rightarrow> bool"

definition rc_of :: "'a result \<Rightarrow> int" where
  "rc_of r = (case r of Inl e \<Rightarrow> code e | Inr _ \<Rightarrow> 0)"

definition upd_ctx :: "nat \<Rightarrow> (cam_context \<Rightarrow> cam_context) \<Rightarrow> ctx_sys \<Rightarrow> ctx_sys" where
  "upd_ctx c f s = s\<lparr>ctxs := (ctxs s)(c := f (ctxs s c))\<rparr>"

definition upd_req :: "nat \<Rightarrow> (cam_ctx_request \<Rightarrow> cam_ctx_request) \<Rightarrow> ctx_sys \<Rightarrow> ctx_sys" where
  "upd_req r f s = s\<lparr>reqs := (reqs s)(r := f (reqs s r))\<rparr>"

definition call_hw :: "hw_call \<Rightarrow> ctx_sys \<Rightarrow> ctx_sys" where
  "call_hw k s = s\<lparr>hw_calls := hw_calls s @ [k]\<rparr>"

definition rd64 :: "bmem \<Rightarrow> ptr \<Rightarrow> u64" where
  "rd64 m a = ucast (rd32 m a) OR push_bit 32 (ucast (rd32 m (a + 4)))"

definition zero_request :: cam_ctx_request where
  "zero_request = \<lparr>rq_id = 0, rq_priv = 0, rq_upd = [], rq_in = [], rq_out = [], rq_acked = 0, rq_flushed = False,
     rq_ctx = None, rq_packet = 0\<rparr>"

subsection \<open>Request lists\<close>

definition linked_in :: "cam_context \<Rightarrow> nat set" where
  "linked_in x = set (cx_active x) \<union> set (cx_pending x) \<union> set (cx_wait x) \<union> set (cx_free x)"

text \<open>\<^verbatim>\<open>list_del_init(&req->list)\<close>: the request leaves the list it is linked in.\<close>

definition list_del_init :: "nat \<Rightarrow> nat \<Rightarrow> ctx_sys \<Rightarrow> ctx_sys" where
  "list_del_init c r = upd_ctx c (\<lambda>x. x\<lparr>cx_active := removeAll r (cx_active x), cx_pending := removeAll r (cx_pending x),
     cx_wait := removeAll r (cx_wait x), cx_free := removeAll r (cx_free x)\<rparr>)"

definition mark_corrupt :: "nat \<Rightarrow> nat \<Rightarrow> ctx_sys \<Rightarrow> ctx_sys" where
  "mark_corrupt c r s = s\<lparr>corrupt := (corrupt s \<or> r \<in> linked_in (ctxs s c))\<rparr>"

definition add_active :: "nat \<Rightarrow> nat \<Rightarrow> ctx_sys \<Rightarrow> ctx_sys" where
  "add_active c r s = upd_ctx c (\<lambda>x. x\<lparr>cx_active := cx_active x @ [r]\<rparr>) (mark_corrupt c r s)"

definition add_pending :: "nat \<Rightarrow> nat \<Rightarrow> ctx_sys \<Rightarrow> ctx_sys" where
  "add_pending c r s = upd_ctx c (\<lambda>x. x\<lparr>cx_pending := cx_pending x @ [r]\<rparr>) (mark_corrupt c r s)"

definition add_free :: "nat \<Rightarrow> nat \<Rightarrow> ctx_sys \<Rightarrow> ctx_sys" where
  "add_free c r s = upd_ctx c (\<lambda>x. x\<lparr>cx_free := cx_free x @ [r]\<rparr>) (mark_corrupt c r s)"

subsection \<open>References to a context\<close>

definition cam_node_put_ctxt_to_free_list :: "nat \<Rightarrow> ctx_sys \<Rightarrow> ctx_sys" where
  "cam_node_put_ctxt_to_free_list c s = s\<lparr>free_ctx_list := free_ctx_list s @ [c]\<rparr>"

text \<open>\<^verbatim>\<open>kref_put\<close> and \<^verbatim>\<open>kref_get_unless_zero\<close>: a count of zero stays zero.\<close>

definition cam_context_putref :: "nat \<Rightarrow> ctx_sys \<Rightarrow> ctx_sys" where
  "cam_context_putref c s =
     (let n = cx_refs (ctxs s c); s1 = upd_ctx c (\<lambda>x. x\<lparr>cx_refs := n - 1\<rparr>) s in
      if n = 0 then s else if n = 1 then cam_node_put_ctxt_to_free_list c s1 else s1)"

definition cam_context_getref :: "nat \<Rightarrow> ctx_sys \<Rightarrow> ctx_sys" where
  "cam_context_getref c s =
     (let n = cx_refs (ctxs s c) in if n = 0 then s else upd_ctx c (\<lambda>x. x\<lparr>cx_refs := n + 1\<rparr>) s)"

definition cam_context_validate_thread :: "ctx_env \<Rightarrow> int" where
  "cam_context_validate_thread env = (if ce_irq env then code EINVAL else 0)"

subsection \<open>Completion\<close>

definition sys_signal :: "u32 \<Rightarrow> int \<Rightarrow> ctx_sys \<Rightarrow> ctx_sys" where
  "sys_signal st f s = s\<lparr>sy := fst (cam_sync_signal (sy s) f st)\<rparr>"

text \<open>\<open>done\<close> is the request number of the event, \<open>None\<close> for a \<^verbatim>\<open>NULL\<close> payload.\<close>

definition cam_context_buf_done_from_hw :: "ctx_env \<Rightarrow> nat \<Rightarrow> u64 option \<Rightarrow> u32 \<Rightarrow> ctx_sys \<Rightarrow> ctx_sys \<times> int" where
  "cam_context_buf_done_from_hw env c done bubble_state s =
     (case done of None \<Rightarrow> (s, code EINVAL)
      | Some dn \<Rightarrow>
          if cam_context_validate_thread env \<noteq> 0 then (s, cam_context_validate_thread env)
          else
            (case cx_active (ctxs s c) of
               [] \<Rightarrow> (s, code EIO)
             | r # _ \<Rightarrow>
                 if dn \<noteq> rq_id (reqs s r) then (s, code EIO)
                 else if rq_out (reqs s r) = [] then (s, code EIO)
                 else
                   (let s1 = list_del_init c r s;
                        res = (if bubble_state = 0 then CAM_SYNC_STATE_SIGNALED_SUCCESS else CAM_SYNC_STATE_SIGNALED_ERROR);
                        s2 = fold (sys_signal res) (rq_out (reqs s r)) s1;
                        s3 = upd_req r (\<lambda>q. q\<lparr>rq_out := map (\<lambda>_. - 1) (rq_out q)\<rparr>) s2;
                        s4 = add_free c r s3
                    in (upd_req r (\<lambda>q. q\<lparr>rq_ctx := None\<rparr>) s4, 0))))"

subsection \<open>Submission to the hardware\<close>

definition cam_context_apply_req_to_hw :: "ctx_env \<Rightarrow> nat \<Rightarrow> nat \<Rightarrow> ctx_sys \<Rightarrow> ctx_sys \<times> int" where
  "cam_context_apply_req_to_hw env c r s =
     (if \<not> cx_intf (ctxs s c) then (s, code EFAULT)
      else
        (let s1 = add_active c r (list_del_init c r s); q = reqs s1 r;
             s2 = call_hw (Hw_config (cx_hw_map (ctxs s1 c)) (rq_id q) (rq_upd q) (rq_out q) (rq_priv q)) s1;
             rc = hw_config (ce_hw env) (hw_calls s2)
         in if rc \<noteq> 0 then (add_free c r (list_del_init c r s2), rc) else (s2, rc)))"

subsection \<open>Flushing\<close>

abbreviation sync_cb :: nat where "sync_cb \<equiv> 1"

text \<open>The loop that takes the callbacks of a request back; the result says whether the last one was among them.\<close>

fun deregister_loop :: "nat \<Rightarrow> nat \<Rightarrow> int list \<Rightarrow> bool \<Rightarrow> ctx_sys \<Rightarrow> ctx_sys \<times> bool" where
  "deregister_loop c r [] free s = (s, free)"
| "deregister_loop c r (f # fs) free s =
     (let (y, rc) = cam_sync_deregister_callback (sy s) sync_cb (Suc r) f; s1 = s\<lparr>sy := y\<rparr> in
      if is_err rc then deregister_loop c r fs free s1
      else
        (let s2 = upd_req r (\<lambda>q. q\<lparr>rq_acked := rq_acked q + 1\<rparr>) (cam_context_putref c s1) in
         deregister_loop c r fs (free \<or> rq_acked (reqs s2 r) = length (rq_in (reqs s2 r))) s2))"

text \<open>The loop that signals the output fences of a flushed request; a fence that is already signaled ends it.\<close>

fun signal_error_loop :: "int list \<Rightarrow> ctx_sys \<Rightarrow> ctx_sys" where
  "signal_error_loop [] s = s"
| "signal_error_loop (f # fs) s =
     (if f = -1 then signal_error_loop fs s
      else
        (let (y, rc) = cam_sync_signal (sy s) f CAM_SYNC_STATE_SIGNALED_ERROR; s1 = s\<lparr>sy := y\<rparr> in
         if rc = Err EALREADY then s1 else signal_error_loop fs s1))"

definition flush_pending_req :: "nat \<Rightarrow> nat \<Rightarrow> ctx_sys \<Rightarrow> ctx_sys" where
  "flush_pending_req c r s =
     (let s1 = upd_req r (\<lambda>q. q\<lparr>rq_flushed := True\<rparr>) s;
          (s2, free) = deregister_loop c r (rq_in (reqs s1 r)) False s1;
          s3 = signal_error_loop (rq_out (reqs s2 r)) s2
      in if free then add_free c r (upd_req r (\<lambda>q. q\<lparr>rq_ctx := None\<rparr>) s3) else s3)"

definition flush_active_req :: "nat \<Rightarrow> nat \<Rightarrow> ctx_sys \<Rightarrow> ctx_sys" where
  "flush_active_req c r s =
     upd_req r (\<lambda>q. q\<lparr>rq_ctx := None\<rparr>) (add_free c r (signal_error_loop (rq_out (reqs s r)) s))"

definition cam_context_flush_ctx_to_hw :: "ctx_env \<Rightarrow> nat \<Rightarrow> ctx_sys \<Rightarrow> ctx_sys \<times> int" where
  "cam_context_flush_ctx_to_hw env c s =
     (let temp_list = cx_pending (ctxs s c);
          s1 = upd_ctx c (\<lambda>x. x\<lparr>cx_pending := []\<rparr>) s;
          pend = map (\<lambda>r. rq_priv (reqs s r)) temp_list;
          s2 = fold (flush_pending_req c) temp_list s1;
          act = map (\<lambda>r. rq_priv (reqs s2 r)) (cx_active (ctxs s2 c));
          s3 = (if hw_flush (ce_hw env) \<and> (pend \<noteq> [] \<or> act \<noteq> [])
                then call_hw (Hw_flush (cx_hw_map (ctxs s2 c)) CAM_FLUSH_TYPE_ALL pend act) s2 else s2);
          active = cx_active (ctxs s3 c);
          s4 = upd_ctx c (\<lambda>x. x\<lparr>cx_active := []\<rparr>) s3
      in (fold (flush_active_req c) active s4, 0))"

text \<open>
  A single request: it is looked for among the pending ones and, where the manager can flush, among the active ones.
\<close>

definition cam_context_flush_req_to_hw :: "ctx_env \<Rightarrow> nat \<Rightarrow> u64 \<Rightarrow> ctx_sys \<Rightarrow> ctx_sys \<times> int" where
  "cam_context_flush_req_to_hw env c req_id s =
     (case find (\<lambda>r. rq_id (reqs s r) = req_id) (cx_pending (ctxs s c)) of
        Some r \<Rightarrow>
          (let s1 = upd_req r (\<lambda>q. q\<lparr>rq_flushed := True\<rparr>) (list_del_init c r s);
               s2 = (if hw_flush (ce_hw env)
                     then call_hw (Hw_flush (cx_hw_map (ctxs s1 c)) CAM_FLUSH_TYPE_REQ [rq_priv (reqs s1 r)] []) s1 else s1);
               (s3, free) = deregister_loop c r (rq_in (reqs s2 r)) False s2;
               s4 = signal_error_loop (rq_out (reqs s3 r)) s3
           in (if free then add_free c r (upd_req r (\<lambda>q. q\<lparr>rq_ctx := None\<rparr>) s4) else s4, 0))
      | None \<Rightarrow>
          (if \<not> hw_flush (ce_hw env) then (s, 0)
           else
             (case find (\<lambda>r. rq_id (reqs s r) = req_id) (cx_active (ctxs s c)) of
                None \<Rightarrow> (s, 0)
              | Some r \<Rightarrow>
                  (let s1 = list_del_init c r s;
                       s2 = call_hw (Hw_flush (cx_hw_map (ctxs s1 c)) CAM_FLUSH_TYPE_REQ [] [rq_priv (reqs s1 r)]) s1;
                       s3 = signal_error_loop (rq_out (reqs s2 r)) s2
                   in (add_free c r (upd_req r (\<lambda>q. q\<lparr>rq_ctx := None\<rparr>) s3), 0)))))"

subsection \<open>The callback of the input fences\<close>

definition cam_context_sync_callback :: "ctx_env \<Rightarrow> u32 \<Rightarrow> nat \<Rightarrow> ctx_sys \<Rightarrow> ctx_sys" where
  "cam_context_sync_callback env status data s =
     (if data = 0 then s
      else if cam_context_validate_thread env \<noteq> 0 then s
      else
        (let r = data - 1 in
         case rq_ctx (reqs s r) of
           None \<Rightarrow> s
         | Some c \<Rightarrow>
             (let s1 = upd_req r (\<lambda>q. q\<lparr>rq_acked := rq_acked q + 1\<rparr>) s;
                  s2 =
                    (if rq_acked (reqs s1 r) = length (rq_in (reqs s1 r))
                     then
                       (let s3 = (if status = CAM_SYNC_STATE_SIGNALED_ERROR
                                  then fst (cam_context_flush_req_to_hw env c (rq_id (reqs s1 r)) s1) else s1)
                        in if \<not> rq_flushed (reqs s3 r) then fst (cam_context_apply_req_to_hw env c r s3)
                           else add_free c r (list_del_init c r
                                  (upd_req r (\<lambda>q. q\<lparr>rq_flushed := False, rq_ctx := None\<rparr>) s3)))
                     else s1)
              in cam_context_putref c s2)))"

text \<open>
  One run of the worker of the sync driver: the oldest queued callback leaves the queue and is called. Callbacks of
  other users are not part of this state.
\<close>

definition sync_worker :: "ctx_env \<Rightarrow> ctx_sys \<Rightarrow> ctx_sys" where
  "sync_worker env s =
     (case work_queue (sy s) of
        [] \<Rightarrow> s
      | cb # _ \<Rightarrow>
          (let s1 = s\<lparr>sy := cam_sync_util_cb_dispatch (sy s)\<rparr> in
           if callback_func cb = sync_cb then cam_context_sync_callback env (cb_status cb) (cb_data cb) s1 else s1))"

subsection \<open>Packets\<close>

record cam_config_dev_cmd =
  cd_session :: u32
  cd_dev :: u32
  cd_offset :: u64
  cd_packet :: u64

text \<open>The loops over the output fences and their clean-up; the number counts the references taken.\<close>

fun get_refs :: "int list \<Rightarrow> nat \<Rightarrow> ctx_sys \<Rightarrow> ctx_sys \<times> int \<times> nat" where
  "get_refs [] i s = (s, 0, i)"
| "get_refs (f # fs) i s =
     (case cam_sync_get_obj_ref (sy s) f of
        (y, Inl e) \<Rightarrow> (s\<lparr>sy := y\<rparr>, code e, i)
      | (y, Inr _) \<Rightarrow> get_refs fs (Suc i) (s\<lparr>sy := y\<rparr>))"

definition put_refs :: "int list \<Rightarrow> ctx_sys \<Rightarrow> ctx_sys" where
  "put_refs = fold (\<lambda>f s. s\<lparr>sy := fst (cam_sync_put_obj_ref (sy s) f)\<rparr>)"

text \<open>
  The loop that registers the callbacks. When the sync driver is set to call them without a switch of context, a fence
  that is signaled already calls back at once.
\<close>

fun register_loop :: "ctx_env \<Rightarrow> nat \<Rightarrow> nat \<Rightarrow> nat \<Rightarrow> int list \<Rightarrow> ctx_sys \<Rightarrow> ctx_sys \<times> int" where
  "register_loop env c r j [] s = (s, 0)"
| "register_loop env c r j (f # fs) s =
     (let s1 = cam_context_getref c s in
      case cam_sync_register_callback (ce_alloc env j) (sy s1) sync_cb (Suc r) f of
        (y, Inl e) \<Rightarrow> (cam_context_putref c (list_del_init c r (s1\<lparr>sy := y\<rparr>)), code e)
      | (y, Inr _) \<Rightarrow>
          register_loop env c r (Suc j) fs
            (if length (cb_calls (sy s1)) < length (cb_calls y)
             then cam_context_sync_callback env (cb_status (last (cb_calls y))) (Suc r) (s1\<lparr>sy := y\<rparr>)
             else s1\<lparr>sy := y\<rparr>))"

definition put_cpu :: "ctx_env \<Rightarrow> u64 \<Rightarrow> ctx_sys \<Rightarrow> ctx_sys" where
  "put_cpu env h s = s\<lparr>mm := fst (cam_mem_put_cpu_buf (ce_mem env) (ucast h) (mm s))\<rparr>"

text \<open>The label \<^verbatim>\<open>free_req\<close>, and \<^verbatim>\<open>free_cpu_buf\<close> before it.\<close>

definition free_req :: "nat \<Rightarrow> nat \<Rightarrow> int \<Rightarrow> ctx_sys \<Rightarrow> ctx_sys \<times> int" where
  "free_req c r rc s = (upd_req r (\<lambda>q. q\<lparr>rq_ctx := None\<rparr>) (add_free c r s), rc)"

definition free_cpu_buf :: "ctx_env \<Rightarrow> u64 \<Rightarrow> nat \<Rightarrow> nat \<Rightarrow> int \<Rightarrow> ctx_sys \<Rightarrow> ctx_sys \<times> int" where
  "free_cpu_buf env h c r rc s = free_req c r rc (put_cpu env h s)"

text \<open>The part behind \<^verbatim>\<open>hw_prepare_update\<close>: the request is filled, its fences are taken and its callbacks registered.\<close>

definition submit_req :: "ctx_env \<Rightarrow> nat \<Rightarrow> nat \<Rightarrow> u64 \<Rightarrow> ctx_sys \<Rightarrow> ctx_sys \<times> int" where
  "submit_req env c r h s =
     (let out = rq_out (reqs s r); ins = rq_in (reqs s r); (s1, rc, i) = get_refs out 0 s in
      if rc \<noteq> 0 then free_cpu_buf env h c r rc (put_refs (rev (take i out)) s1)
      else if ins = [] then (put_cpu env h s1, 0)
      else
        (let s2 = add_pending c r s1 in
         case check_valid_all (sy s2) ins of
           Inl e \<Rightarrow> free_cpu_buf env h c r (code e) (put_refs (rev out) s2)
         | Inr _ \<Rightarrow>
             (let (s3, rc) = register_loop env c r 0 ins s2 in
              if rc \<noteq> 0 then free_cpu_buf env h c r rc (put_refs (rev out) s3)
              else (put_cpu env h s3, 0))))"

definition fill_request :: "nat \<Rightarrow> u64 \<Rightarrow> hw_prepared \<Rightarrow> cam_ctx_request \<Rightarrow> cam_ctx_request" where
  "fill_request c rid p q =
     q\<lparr>rq_id := rid, rq_priv := hp_priv p, rq_upd := hp_upd p, rq_in := hp_in p, rq_out := hp_out p, rq_acked := 0,
       rq_packet := hp_packet p\<rparr>"

definition cam_context_prepare_dev_to_hw :: "ctx_env \<Rightarrow> nat \<Rightarrow> cam_config_dev_cmd option \<Rightarrow> ctx_sys \<Rightarrow> ctx_sys \<times> int" where
  "cam_context_prepare_dev_to_hw env c cmd s =
     (case cmd of None \<Rightarrow> (s, code EINVAL)
      | Some k \<Rightarrow>
          if \<not> cx_intf (ctxs s c) then (s, code EFAULT)
          else if cam_context_validate_thread env \<noteq> 0 then (s, cam_context_validate_thread env)
          else
            (case cx_free (ctxs s c) of
               [] \<Rightarrow> (s, code ENOMEM)
             | r # _ \<Rightarrow>
                 (let s1 = upd_req r (\<lambda>_. zero_request\<lparr>rq_ctx := Some c\<rparr>) (list_del_init c r s);
                      (m, rc, va, len) = cam_mem_get_cpu_buf (ce_mem env) (ucast (cd_packet k)) (mm s1);
                      s2 = s1\<lparr>mm := m\<rparr>
                  in if rc \<noteq> 0 then free_req c r (code EINVAL) s2
                     else if len < SZ_PACKET \<or> len - SZ_PACKET \<le> cd_offset k
                     then free_cpu_buf env (cd_packet k) c r (code EINVAL) s2
                     else
                       (let packet = va + ucast (ucast (cd_offset k) :: u32); rid = rd64 (bm s2) (packet + 8) in
                        if rid \<le> ucast (cx_last_flush (ctxs s2 c))
                        then free_cpu_buf env (cd_packet k) c r (code EINVAL) s2
                        else
                          (let s3 = upd_ctx c (\<lambda>x. x\<lparr>cx_last_flush := 0\<rparr>) s2;
                               s4 = call_hw (Hw_prepare (cx_hw_map (ctxs s3 c)) packet (len - cd_offset k)) s3;
                               (rc, p) = hw_prepare_update (ce_hw env) (hw_calls s4)
                           in if rc \<noteq> 0 then free_cpu_buf env (cd_packet k) c r (code EFAULT) s4
                              else submit_req env c r (cd_packet k) (upd_req r (fill_request c rid p) s4))))))"

definition cam_context_config_dev_to_hw :: "ctx_env \<Rightarrow> nat \<Rightarrow> cam_config_dev_cmd option \<Rightarrow> ctx_sys \<Rightarrow> ctx_sys \<times> int" where
  "cam_context_config_dev_to_hw env c cmd s =
     (case cmd of None \<Rightarrow> (s, code EINVAL)
      | Some k \<Rightarrow>
          (case hw_config_stream_settings (ce_hw env) of None \<Rightarrow> (s, code EFAULT)
           | Some f \<Rightarrow>
               if cam_context_validate_thread env \<noteq> 0 then (s, cam_context_validate_thread env)
               else
                 (let (m, rc, va, len) = cam_mem_get_cpu_buf (ce_mem env) (ucast (cd_packet k)) (mm s); s1 = s\<lparr>mm := m\<rparr> in
                  if rc \<noteq> 0 then (s1, code EINVAL)
                  else if len < SZ_PACKET \<or> len - SZ_PACKET \<le> cd_offset k then (s1, code EINVAL)
                  else
                    (let s2 = call_hw (Hw_stream (cx_hw_map (ctxs s1 c)) (va + ucast (ucast (cd_offset k) :: u32))) s1 in
                     (s2, if f (hw_calls s2) \<noteq> 0 then code EFAULT else 0)))))"

subsection \<open>Acquiring, starting, stopping, releasing\<close>

record cam_acquire_dev_cmd =
  ad_session :: u32
  ad_handle_type :: u32
  ad_num_resources :: u32
  ad_resource_hdl :: u64

text \<open>The number of a context is its address minus one, 0 being \<^verbatim>\<open>NULL\<close>. The third result is the handle for user space.\<close>

definition ctx_ptr :: "nat \<Rightarrow> ptr" where
  "ctx_ptr c = of_nat (Suc c)"

definition cam_context_acquire_dev_to_hw ::
  "ctx_env \<Rightarrow> nat \<Rightarrow> cam_acquire_dev_cmd option \<Rightarrow> ctx_sys \<Rightarrow> ctx_sys \<times> int \<times> u32" where
  "cam_context_acquire_dev_to_hw env c cmd s =
     (case cmd of None \<Rightarrow> (s, code EINVAL, 0)
      | Some k \<Rightarrow>
          if \<not> cx_intf (ctxs s c) then (s, code EFAULT, 0)
          else if CAM_CTX_RES_MAX < ad_num_resources k then (s, code ENOMEM, 0)
          else if ad_handle_type k \<noteq> 1 then (s, code EINVAL, 0)
          else
            (let s1 = call_hw (Hw_acquire (ad_num_resources k) (ad_resource_hdl k)) s;
                 (rc, map) = hw_acquire (ce_hw env) (hw_calls s1)
             in if rc \<noteq> 0 then (s1, rc, 0)
                else
                  (let s2 = upd_ctx c (\<lambda>x. x\<lparr>cx_hw_map := map\<rparr>) s1;
                       (h, r) = cam_create_device_hdl (ce_rand env) (ht s2)
                         \<lparr>c_session_hdl = ad_session k, c_dev_id = cx_dev_id (ctxs s2 c), c_ops = cx_crm (ctxs s2 c), c_priv = ctx_ptr c\<rparr>;
                       s3 = s2\<lparr>ht := h\<rparr>
                   in case r of
                        Inl _ \<Rightarrow>
                          (upd_ctx c (\<lambda>x. x\<lparr>cx_hw_map := 0, cx_dev_hdl := - 1\<rparr>) (call_hw (Hw_release map) s3), code EFAULT, 0)
                      | Inr dh \<Rightarrow>
                          if sint dh \<le> 0
                          then (upd_ctx c (\<lambda>x. x\<lparr>cx_hw_map := 0, cx_dev_hdl := - 1\<rparr>) (call_hw (Hw_release map) s3), code EFAULT, 0)
                          else (upd_ctx c (\<lambda>x. x\<lparr>cx_dev_hdl := dh, cx_session := ad_session k\<rparr>) s3, 0, dh))))"

definition cam_context_release_dev_to_hw :: "ctx_env \<Rightarrow> nat \<Rightarrow> ctx_sys \<Rightarrow> ctx_sys \<times> int" where
  "cam_context_release_dev_to_hw env c s =
     (if \<not> cx_intf (ctxs s c) \<or> \<not> hw_release (ce_hw env) then (s, code EINVAL)
      else
        (upd_ctx c (\<lambda>x. x\<lparr>cx_hw_map := 0, cx_session := - 1, cx_dev_hdl := - 1, cx_link_hdl := - 1, cx_last_flush := 0\<rparr>)
           (call_hw (Hw_release (cx_hw_map (ctxs s c))) s), 0))"

definition cam_context_flush_dev_to_hw :: "ctx_env \<Rightarrow> nat \<Rightarrow> (u32 \<times> u64) option \<Rightarrow> ctx_sys \<Rightarrow> ctx_sys \<times> int" where
  "cam_context_flush_dev_to_hw env c cmd s =
     (case cmd of None \<Rightarrow> (s, code EINVAL)
      | Some (flush_type, req_id) \<Rightarrow>
          if \<not> cx_intf (ctxs s c) then (s, code EFAULT)
          else if flush_type = CAM_FLUSH_TYPE_ALL
          then cam_context_flush_ctx_to_hw env c (upd_ctx c (\<lambda>x. x\<lparr>cx_last_flush := ucast req_id\<rparr>) s)
          else if flush_type = CAM_FLUSH_TYPE_REQ then cam_context_flush_req_to_hw env c req_id s
          else (s, code EINVAL))"

text \<open>\<open>cmd\<close>: the session and the device handle of the command.\<close>

definition cam_context_start_dev_to_hw :: "ctx_env \<Rightarrow> nat \<Rightarrow> (u32 \<times> u32) option \<Rightarrow> ctx_sys \<Rightarrow> ctx_sys \<times> int" where
  "cam_context_start_dev_to_hw env c cmd s =
     (case cmd of None \<Rightarrow> (s, code EINVAL)
      | Some (session, dev) \<Rightarrow>
          if \<not> cx_intf (ctxs s c) then (s, code EFAULT)
          else if session \<noteq> cx_session (ctxs s c) \<or> dev \<noteq> cx_dev_hdl (ctxs s c) then (s, code EPERM)
          else
            (case hw_start (ce_hw env) of None \<Rightarrow> (s, 0)
             | Some f \<Rightarrow> (let s1 = call_hw (Hw_start (cx_hw_map (ctxs s c))) s in (s1, f (hw_calls s1)))))"

definition cam_context_stop_dev_to_hw :: "ctx_env \<Rightarrow> nat \<Rightarrow> ctx_sys \<Rightarrow> ctx_sys \<times> int" where
  "cam_context_stop_dev_to_hw env c s =
     (if \<not> cx_intf (ctxs s c) then (s, code EFAULT)
      else if cam_context_validate_thread env \<noteq> 0 then (s, cam_context_validate_thread env)
      else
        (let (s1, rc) = cam_context_flush_ctx_to_hw env c s in
         if rc \<noteq> 0 then (s1, rc)
         else (if hw_stop (ce_hw env) then call_hw (Hw_stop (cx_hw_map (ctxs s1 c))) s1 else s1, 0)))"

end
