(* ===== verification/Cam_Ctx_Dev.thy ===== *)
theory Cam_Ctx_Dev
  imports Cam_Ctx
begin

text \<open>
  The devices that use the context framework: the dump of a context (\<^verbatim>\<open>drivers/cam_core/cam_context_utils.c\<close>), the state
  machines of the JPEG, ICP, LRME and face detection contexts (\<^verbatim>\<open>cam_jpeg_context.c\<close>, \<^verbatim>\<open>cam_icp_context.c\<close>,
  \<^verbatim>\<open>cam_lrme_context.c\<close>, \<^verbatim>\<open>cam_fd_context.c\<close>), the dispatch over a state machine (\<^verbatim>\<open>cam_context.c\<close>) and the node that hands
  contexts out (\<^verbatim>\<open>cam_node.c\<close>).

  A state machine is a table of optional operations per state, \<open>None\<close> for \<^verbatim>\<open>NULL\<close>. The payloads of the operations that none
  of the four drivers has are their addresses only.
\<close>

subsection \<open>Dumping a context\<close>

definition wr64 :: "ptr \<Rightarrow> u64 \<Rightarrow> bmem \<Rightarrow> bmem" where
  "wr64 a v m = wr32 (a + 4) (ucast (drop_bit 32 v)) (wr32 a (ucast v) m)"

primrec write_words :: "ptr \<Rightarrow> u64 list \<Rightarrow> bmem \<Rightarrow> bmem" where
  "write_words a [] m = m"
| "write_words a (w # ws) m = write_words (a + 8) ws (wr64 a w m)"

primrec write_bytes :: "ptr \<Rightarrow> char list \<Rightarrow> bmem \<Rightarrow> bmem" where
  "write_bytes a [] m = m"
| "write_bytes a (x # xs) m = write_bytes (a + 1) xs (m(a := of_char x))"

fun state_value :: "cam_context_state \<Rightarrow> u64" where
  "state_value CAM_CTX_UNINIT = 0" | "state_value CAM_CTX_AVAILABLE = 1" | "state_value CAM_CTX_ACQUIRED = 2"
| "state_value CAM_CTX_READY = 3" | "state_value CAM_CTX_ACTIVATED = 4"

definition dump_words :: "cam_context \<Rightarrow> cam_ctx_request \<Rightarrow> u64 list" where
  "dump_words x q =
     [ucast (cx_id x), of_nat (cx_refs x), ucast (cx_last_flush x), state_value (cx_state x), of_nat (length (rq_out q))]
     @ map word_of_int (filter (\<lambda>f. f \<noteq> - 1) (rq_out q)) @ map word_of_int (filter (\<lambda>f. f \<noteq> - 1) (rq_in q))
     @ [of_nat (length (rq_in q))]"

abbreviation SZ_DUMP_HEADER :: u64 where "SZ_DUMP_HEADER \<equiv> 48"

text \<open>\<open>off\<close> is the offset in the dump buffer, returned updated; \<open>\<^verbatim>\<open>remain_len\<close>\<close> has 32 bits.\<close>

definition cam_context_dump_context :: "ctx_env \<Rightarrow> nat \<Rightarrow> u32 \<Rightarrow> u32 \<Rightarrow> ctx_sys \<Rightarrow> ctx_sys \<times> int \<times> u32" where
  "cam_context_dump_context env c h off s =
     (case cx_active (ctxs s c) of
        [] \<Rightarrow> (s, code EIO, off)
      | r # _ \<Rightarrow>
          (let (m, rc, cpu_addr, buf_len) = cam_mem_get_cpu_buf (ce_mem env) h (mm s); s1 = s\<lparr>mm := m\<rparr> in
           if cpu_addr = 0 \<or> buf_len = 0 \<or> rc \<noteq> 0 then (s1, rc, off)
           else
             (let remain_len = (ucast (buf_len - scast off) :: u32);
                  dst = cpu_addr + scast off; ws = dump_words (ctxs s1 c) (reqs s1 r);
                  tag = take 31 (cx_name (ctxs s1 c) @ ''_CTXT_DUMP:'') @ [CHR 0x00];
                  s2 = s1\<lparr>bm := wr64 (dst + 32) (8 * of_nat (length ws)) (write_words (dst + SZ_DUMP_HEADER) ws
                             (wr32 (dst + 40) 8 (write_bytes dst tag (bm s1))))\<rparr>;
                  (s3, off') = (if remain_len < 160 then (s1, off)
                                else (s2, off + ucast (8 * of_nat (length ws) + SZ_DUMP_HEADER :: u64)));
                  (m, rc) = cam_mem_put_cpu_buf (ce_mem env) h (mm s3)
              in (s3\<lparr>mm := m\<rparr>, rc, off'))))"

text \<open>\<open>cmd\<close>: buffer handle, offset and request; the offset is returned updated.\<close>

definition cam_context_dump_dev_to_hw ::
  "ctx_env \<Rightarrow> nat \<Rightarrow> (u32 \<times> u32 \<times> u64) option \<Rightarrow> ctx_sys \<Rightarrow> ctx_sys \<times> int \<times> u32" where
  "cam_context_dump_dev_to_hw env c cmd s =
     (case cmd of None \<Rightarrow> (s, code EINVAL, 0)
      | Some (h, off, rid) \<Rightarrow>
          if \<not> cx_intf (ctxs s c) then (s, code EFAULT, off)
          else
            (case hw_dump (ce_hw env) of
               None \<Rightarrow> (s, 0, off)
             | Some f \<Rightarrow>
                 (let s1 = call_hw (Hw_dump (cx_hw_map (ctxs s c)) h off rid) s; (rc, off') = f (hw_calls s1) in
                  if rc \<noteq> 0 then (s1, rc, off)
                  else if off' \<noteq> off
                  then (let (s2, _, off'') = cam_context_dump_context env c h off' s1 in (s2, 0, off''))
                  else (s1, 0, off))))"

definition cam_context_dump_pf_info_to_hw :: "ctx_env \<Rightarrow> nat \<Rightarrow> ptr \<Rightarrow> u64 \<Rightarrow> u32 \<Rightarrow> ctx_sys \<Rightarrow> ctx_sys \<times> int" where
  "cam_context_dump_pf_info_to_hw env c packet iova buf_info s =
     (if \<not> cx_intf (ctxs s c) then (s, code EFAULT)
      else (if hw_cmd (ce_hw env) then call_hw (Hw_pf (cx_hw_map (ctxs s c)) packet iova buf_info) s else s, 0))"

text \<open>The loop over the active requests after a page fault; the code is that of the last call.\<close>

fun pf_loop :: "ctx_env \<Rightarrow> nat \<Rightarrow> u64 \<Rightarrow> u32 \<Rightarrow> nat list \<Rightarrow> int \<Rightarrow> ctx_sys \<Rightarrow> ctx_sys \<times> int" where
  "pf_loop env c iova b [] rc s = (s, rc)"
| "pf_loop env c iova b (r # rs) rc s =
     (let (s1, rc1) = cam_context_dump_pf_info_to_hw env c (rq_packet (reqs s r)) iova b s in pf_loop env c iova b rs rc1 s1)"

subsection \<open>Tables of operations\<close>

type_synonym dev_op = "ctx_env \<Rightarrow> nat \<Rightarrow> ctx_sys \<Rightarrow> ctx_sys \<times> int"

record cam_ctx_ops =
  op_acquire_dev :: "(ctx_env \<Rightarrow> nat \<Rightarrow> cam_acquire_dev_cmd option \<Rightarrow> ctx_sys \<Rightarrow> ctx_sys \<times> int \<times> u32) option"
  op_release_dev :: "dev_op option"
  op_config_dev :: "(ctx_env \<Rightarrow> nat \<Rightarrow> cam_config_dev_cmd option \<Rightarrow> ctx_sys \<Rightarrow> ctx_sys \<times> int) option"
  op_start_dev :: "(ctx_env \<Rightarrow> nat \<Rightarrow> (u32 \<times> u32) option \<Rightarrow> ctx_sys \<Rightarrow> ctx_sys \<times> int) option"
  op_stop_dev :: "dev_op option"
  op_flush_dev :: "(ctx_env \<Rightarrow> nat \<Rightarrow> (u32 \<times> u64) option \<Rightarrow> ctx_sys \<Rightarrow> ctx_sys \<times> int) option"
  op_dump_dev :: "(ctx_env \<Rightarrow> nat \<Rightarrow> (u32 \<times> u32 \<times> u64) option \<Rightarrow> ctx_sys \<Rightarrow> ctx_sys \<times> int \<times> u32) option"
  op_irq :: "(ctx_env \<Rightarrow> nat \<Rightarrow> u32 \<Rightarrow> u64 option \<Rightarrow> ctx_sys \<Rightarrow> ctx_sys \<times> int) option"
  op_pagefault :: "(ctx_env \<Rightarrow> nat \<Rightarrow> u64 \<Rightarrow> u32 \<Rightarrow> ctx_sys \<Rightarrow> ctx_sys \<times> int) option"
  op_acquire_hw :: "(ctx_env \<Rightarrow> nat \<Rightarrow> ptr \<Rightarrow> ctx_sys \<Rightarrow> ctx_sys \<times> int) option"
  op_release_hw :: "(ctx_env \<Rightarrow> nat \<Rightarrow> ptr \<Rightarrow> ctx_sys \<Rightarrow> ctx_sys \<times> int) option"
  op_get_dev_info :: "(ctx_env \<Rightarrow> nat \<Rightarrow> ptr \<Rightarrow> ctx_sys \<Rightarrow> ctx_sys \<times> int) option"
  op_link :: "(ctx_env \<Rightarrow> nat \<Rightarrow> ptr \<Rightarrow> ctx_sys \<Rightarrow> ctx_sys \<times> int) option"
  op_unlink :: "(ctx_env \<Rightarrow> nat \<Rightarrow> ptr \<Rightarrow> ctx_sys \<Rightarrow> ctx_sys \<times> int) option"
  op_apply_req :: "(ctx_env \<Rightarrow> nat \<Rightarrow> ptr \<Rightarrow> ctx_sys \<Rightarrow> ctx_sys \<times> int) option"
  op_flush_req :: "(ctx_env \<Rightarrow> nat \<Rightarrow> ptr \<Rightarrow> ctx_sys \<Rightarrow> ctx_sys \<times> int) option"
  op_process_evt :: "(ctx_env \<Rightarrow> nat \<Rightarrow> ptr \<Rightarrow> ctx_sys \<Rightarrow> ctx_sys \<times> int) option"
  op_dump_req :: "(ctx_env \<Rightarrow> nat \<Rightarrow> ptr \<Rightarrow> ctx_sys \<Rightarrow> ctx_sys \<times> int) option"

definition no_ops :: cam_ctx_ops where
  "no_ops = \<lparr>op_acquire_dev = None, op_release_dev = None, op_config_dev = None, op_start_dev = None, op_stop_dev = None,
     op_flush_dev = None, op_dump_dev = None, op_irq = None, op_pagefault = None, op_acquire_hw = None, op_release_hw = None,
     op_get_dev_info = None, op_link = None, op_unlink = None, op_apply_req = None, op_flush_req = None,
     op_process_evt = None, op_dump_req = None\<rparr>"

definition set_state :: "nat \<Rightarrow> cam_context_state \<Rightarrow> ctx_sys \<Rightarrow> ctx_sys" where
  "set_state c st = upd_ctx c (\<lambda>x. x\<lparr>cx_state := st\<rparr>)"

subsection \<open>JPEG\<close>

definition cam_jpeg_context_dump_active_request :: "ctx_env \<Rightarrow> nat \<Rightarrow> u64 \<Rightarrow> u32 \<Rightarrow> ctx_sys \<Rightarrow> ctx_sys \<times> int" where
  "cam_jpeg_context_dump_active_request env c iova b s = pf_loop env c iova b (cx_active (ctxs s c)) 0 s"

definition cam_jpeg_ctx_acquire_dev_in_available ::
  "ctx_env \<Rightarrow> nat \<Rightarrow> cam_acquire_dev_cmd option \<Rightarrow> ctx_sys \<Rightarrow> ctx_sys \<times> int \<times> u32" where
  "cam_jpeg_ctx_acquire_dev_in_available env c cmd s =
     (let (s1, rc, h) = cam_context_acquire_dev_to_hw env c cmd s in
      if rc \<noteq> 0 then (s1, rc, h) else (set_state c CAM_CTX_ACQUIRED s1, rc, h))"

definition cam_jpeg_ctx_release_dev_in_acquired :: dev_op where
  "cam_jpeg_ctx_release_dev_in_acquired env c s =
     (let (s1, rc) = cam_context_release_dev_to_hw env c s in (set_state c CAM_CTX_AVAILABLE s1, rc))"

definition cam_jpeg_ctx_dump_dev_in_acquired ::
  "ctx_env \<Rightarrow> nat \<Rightarrow> (u32 \<times> u32 \<times> u64) option \<Rightarrow> ctx_sys \<Rightarrow> ctx_sys \<times> int \<times> u32" where
  "cam_jpeg_ctx_dump_dev_in_acquired env c cmd s = cam_context_dump_dev_to_hw env c cmd s"

definition cam_jpeg_ctx_flush_dev_in_acquired :: "ctx_env \<Rightarrow> nat \<Rightarrow> (u32 \<times> u64) option \<Rightarrow> ctx_sys \<Rightarrow> ctx_sys \<times> int" where
  "cam_jpeg_ctx_flush_dev_in_acquired env c cmd s = cam_context_flush_dev_to_hw env c cmd s"

definition cam_jpeg_ctx_config_dev_in_acquired ::
  "ctx_env \<Rightarrow> nat \<Rightarrow> cam_config_dev_cmd option \<Rightarrow> ctx_sys \<Rightarrow> ctx_sys \<times> int" where
  "cam_jpeg_ctx_config_dev_in_acquired env c cmd s = cam_context_prepare_dev_to_hw env c cmd s"

definition cam_jpeg_ctx_handle_buf_done_in_acquired :: "ctx_env \<Rightarrow> nat \<Rightarrow> u32 \<Rightarrow> u64 option \<Rightarrow> ctx_sys \<Rightarrow> ctx_sys \<times> int" where
  "cam_jpeg_ctx_handle_buf_done_in_acquired env c evt_id done s = cam_context_buf_done_from_hw env c done evt_id s"

definition cam_jpeg_ctx_stop_dev_in_acquired :: dev_op where
  "cam_jpeg_ctx_stop_dev_in_acquired env c s = cam_context_stop_dev_to_hw env c s"

fun cam_jpeg_ctx_state_machine :: "cam_context_state \<Rightarrow> cam_ctx_ops" where
  "cam_jpeg_ctx_state_machine CAM_CTX_AVAILABLE = no_ops\<lparr>op_acquire_dev := Some cam_jpeg_ctx_acquire_dev_in_available\<rparr>"
| "cam_jpeg_ctx_state_machine CAM_CTX_ACQUIRED =
     no_ops\<lparr>op_release_dev := Some cam_jpeg_ctx_release_dev_in_acquired, op_config_dev := Some cam_jpeg_ctx_config_dev_in_acquired,
       op_stop_dev := Some cam_jpeg_ctx_stop_dev_in_acquired, op_flush_dev := Some cam_jpeg_ctx_flush_dev_in_acquired,
       op_dump_dev := Some cam_jpeg_ctx_dump_dev_in_acquired, op_irq := Some cam_jpeg_ctx_handle_buf_done_in_acquired,
       op_pagefault := Some cam_jpeg_context_dump_active_request\<rparr>"
| "cam_jpeg_ctx_state_machine _ = no_ops"

subsection \<open>ICP\<close>

definition cam_icp_context_dump_active_request :: "ctx_env \<Rightarrow> nat \<Rightarrow> u64 \<Rightarrow> u32 \<Rightarrow> ctx_sys \<Rightarrow> ctx_sys \<times> int" where
  "cam_icp_context_dump_active_request env c iova b s =
     (if cx_state (ctxs s c) \<notin> {CAM_CTX_READY, CAM_CTX_ACTIVATED} then (s, code EINVAL)
      else pf_loop env c iova b (cx_active (ctxs s c)) 0 s)"

definition cam_icp_acquire_dev_in_available ::
  "ctx_env \<Rightarrow> nat \<Rightarrow> cam_acquire_dev_cmd option \<Rightarrow> ctx_sys \<Rightarrow> ctx_sys \<times> int \<times> u32" where
  "cam_icp_acquire_dev_in_available env c cmd s =
     (let (s1, rc, h) = cam_context_acquire_dev_to_hw env c cmd s in
      if rc = 0 then (set_state c CAM_CTX_ACQUIRED s1, rc, h) else (s1, rc, h))"

definition cam_icp_release_dev_in_acquired :: dev_op where
  "cam_icp_release_dev_in_acquired env c s =
     (let (s1, rc) = cam_context_release_dev_to_hw env c s in (set_state c CAM_CTX_AVAILABLE s1, rc))"

definition cam_icp_start_dev_in_acquired :: "ctx_env \<Rightarrow> nat \<Rightarrow> (u32 \<times> u32) option \<Rightarrow> ctx_sys \<Rightarrow> ctx_sys \<times> int" where
  "cam_icp_start_dev_in_acquired env c cmd s =
     (let (s1, rc) = cam_context_start_dev_to_hw env c cmd s in
      if rc = 0 then (set_state c CAM_CTX_READY s1, rc) else (s1, rc))"

definition cam_icp_dump_dev_in_ready ::
  "ctx_env \<Rightarrow> nat \<Rightarrow> (u32 \<times> u32 \<times> u64) option \<Rightarrow> ctx_sys \<Rightarrow> ctx_sys \<times> int \<times> u32" where
  "cam_icp_dump_dev_in_ready env c cmd s = cam_context_dump_dev_to_hw env c cmd s"

definition cam_icp_flush_dev_in_ready :: "ctx_env \<Rightarrow> nat \<Rightarrow> (u32 \<times> u64) option \<Rightarrow> ctx_sys \<Rightarrow> ctx_sys \<times> int" where
  "cam_icp_flush_dev_in_ready env c cmd s = cam_context_flush_dev_to_hw env c cmd s"

text \<open>Settings of a stream go to the manager at once, everything else becomes a request.\<close>

definition cam_icp_config_dev_in_ready :: "ctx_env \<Rightarrow> nat \<Rightarrow> cam_config_dev_cmd option \<Rightarrow> ctx_sys \<Rightarrow> ctx_sys \<times> int" where
  "cam_icp_config_dev_in_ready env c cmd s =
     (case cmd of None \<Rightarrow> (s, code EINVAL)
      | Some k \<Rightarrow>
          (let (m, rc, va, len) = cam_mem_get_cpu_buf (ce_mem env) (ucast (cd_packet k)) (mm s); s1 = s\<lparr>mm := m\<rparr> in
           if rc \<noteq> 0 then (s1, code EINVAL)
           else if len < SZ_PACKET \<or> len - SZ_PACKET \<le> cd_offset k then (s1, code EINVAL)
           else
             (let op = rd32 (bm s1) (va + ucast (ucast (cd_offset k) :: u32)) AND 0xff in
              if op = 2 \<or> op = 3 then cam_context_config_dev_to_hw env c cmd s1
              else cam_context_prepare_dev_to_hw env c cmd s1)))"

definition cam_icp_stop_dev_in_ready :: dev_op where
  "cam_icp_stop_dev_in_ready env c s =
     (let (s1, rc) = cam_context_stop_dev_to_hw env c s in (set_state c CAM_CTX_ACQUIRED s1, rc))"

definition cam_icp_release_dev_in_ready :: dev_op where
  "cam_icp_release_dev_in_ready env c s = cam_icp_release_dev_in_acquired env c (fst (cam_icp_stop_dev_in_ready env c s))"

definition cam_icp_handle_buf_done_in_ready :: "ctx_env \<Rightarrow> nat \<Rightarrow> u32 \<Rightarrow> u64 option \<Rightarrow> ctx_sys \<Rightarrow> ctx_sys \<times> int" where
  "cam_icp_handle_buf_done_in_ready env c evt_id done s = cam_context_buf_done_from_hw env c done evt_id s"

fun cam_icp_ctx_state_machine :: "cam_context_state \<Rightarrow> cam_ctx_ops" where
  "cam_icp_ctx_state_machine CAM_CTX_UNINIT = no_ops"
| "cam_icp_ctx_state_machine CAM_CTX_AVAILABLE = no_ops\<lparr>op_acquire_dev := Some cam_icp_acquire_dev_in_available\<rparr>"
| "cam_icp_ctx_state_machine CAM_CTX_ACQUIRED =
     no_ops\<lparr>op_release_dev := Some cam_icp_release_dev_in_acquired, op_start_dev := Some cam_icp_start_dev_in_acquired,
       op_config_dev := Some cam_icp_config_dev_in_ready, op_flush_dev := Some cam_icp_flush_dev_in_ready,
       op_dump_dev := Some cam_icp_dump_dev_in_ready, op_irq := Some cam_icp_handle_buf_done_in_ready,
       op_pagefault := Some cam_icp_context_dump_active_request\<rparr>"
| "cam_icp_ctx_state_machine CAM_CTX_READY =
     no_ops\<lparr>op_stop_dev := Some cam_icp_stop_dev_in_ready, op_release_dev := Some cam_icp_release_dev_in_ready,
       op_config_dev := Some cam_icp_config_dev_in_ready, op_flush_dev := Some cam_icp_flush_dev_in_ready,
       op_dump_dev := Some cam_icp_dump_dev_in_ready, op_irq := Some cam_icp_handle_buf_done_in_ready,
       op_pagefault := Some cam_icp_context_dump_active_request\<rparr>"
| "cam_icp_ctx_state_machine CAM_CTX_ACTIVATED = no_ops\<lparr>op_pagefault := Some cam_icp_context_dump_active_request\<rparr>"

subsection \<open>LRME\<close>

definition cam_lrme_ctx_acquire_dev_in_available ::
  "ctx_env \<Rightarrow> nat \<Rightarrow> cam_acquire_dev_cmd option \<Rightarrow> ctx_sys \<Rightarrow> ctx_sys \<times> int \<times> u32" where
  "cam_lrme_ctx_acquire_dev_in_available env c cmd s =
     (let ctxt_to_hw_map = cx_hw_map (ctxs s c); (s1, rc, h) = cam_context_acquire_dev_to_hw env c cmd s in
      if rc \<noteq> 0 then (s1, rc, h)
      else (set_state c CAM_CTX_ACQUIRED
              (upd_ctx c (\<lambda>x. x\<lparr>cx_hw_map := ctxt_to_hw_map OR push_bit 32 (cx_index x)\<rparr>) s1), rc, h))"

definition cam_lrme_ctx_release_dev_in_acquired :: dev_op where
  "cam_lrme_ctx_release_dev_in_acquired env c s =
     (let (s1, rc) = cam_context_release_dev_to_hw env c s in
      if rc \<noteq> 0 then (s1, rc) else (set_state c CAM_CTX_AVAILABLE s1, rc))"

definition cam_lrme_ctx_start_dev_in_acquired :: "ctx_env \<Rightarrow> nat \<Rightarrow> (u32 \<times> u32) option \<Rightarrow> ctx_sys \<Rightarrow> ctx_sys \<times> int" where
  "cam_lrme_ctx_start_dev_in_acquired env c cmd s =
     (let (s1, rc) = cam_context_start_dev_to_hw env c cmd s in
      if rc \<noteq> 0 then (s1, rc) else (set_state c CAM_CTX_ACTIVATED s1, rc))"

definition cam_lrme_ctx_config_dev_in_activated ::
  "ctx_env \<Rightarrow> nat \<Rightarrow> cam_config_dev_cmd option \<Rightarrow> ctx_sys \<Rightarrow> ctx_sys \<times> int" where
  "cam_lrme_ctx_config_dev_in_activated env c cmd s = cam_context_prepare_dev_to_hw env c cmd s"

definition cam_lrme_ctx_dump_dev_in_activated ::
  "ctx_env \<Rightarrow> nat \<Rightarrow> (u32 \<times> u32 \<times> u64) option \<Rightarrow> ctx_sys \<Rightarrow> ctx_sys \<times> int \<times> u32" where
  "cam_lrme_ctx_dump_dev_in_activated env c cmd s = cam_context_dump_dev_to_hw env c cmd s"

definition cam_lrme_ctx_flush_dev_in_activated :: "ctx_env \<Rightarrow> nat \<Rightarrow> (u32 \<times> u64) option \<Rightarrow> ctx_sys \<Rightarrow> ctx_sys \<times> int" where
  "cam_lrme_ctx_flush_dev_in_activated env c cmd s = cam_context_flush_dev_to_hw env c cmd s"

definition cam_lrme_ctx_stop_dev_in_activated :: dev_op where
  "cam_lrme_ctx_stop_dev_in_activated env c s =
     (let (s1, rc) = cam_context_stop_dev_to_hw env c s in
      if rc \<noteq> 0 then (s1, rc) else (set_state c CAM_CTX_ACQUIRED s1, rc))"

definition cam_lrme_ctx_release_dev_in_activated :: dev_op where
  "cam_lrme_ctx_release_dev_in_activated env c s =
     (let (s1, rc) = cam_lrme_ctx_stop_dev_in_activated env c s in
      if rc \<noteq> 0 then (s1, rc)
      else
        (let (s2, rc) = cam_context_release_dev_to_hw env c s1 in
         if rc \<noteq> 0 then (s2, rc) else (set_state c CAM_CTX_AVAILABLE s2, rc)))"

definition cam_lrme_ctx_handle_irq_in_activated :: "ctx_env \<Rightarrow> nat \<Rightarrow> u32 \<Rightarrow> u64 option \<Rightarrow> ctx_sys \<Rightarrow> ctx_sys \<times> int" where
  "cam_lrme_ctx_handle_irq_in_activated env c evt_id done s = cam_context_buf_done_from_hw env c done evt_id s"

fun cam_lrme_ctx_state_machine :: "cam_context_state \<Rightarrow> cam_ctx_ops" where
  "cam_lrme_ctx_state_machine CAM_CTX_AVAILABLE = no_ops\<lparr>op_acquire_dev := Some cam_lrme_ctx_acquire_dev_in_available\<rparr>"
| "cam_lrme_ctx_state_machine CAM_CTX_ACQUIRED =
     no_ops\<lparr>op_config_dev := Some cam_lrme_ctx_config_dev_in_activated, op_release_dev := Some cam_lrme_ctx_release_dev_in_acquired,
       op_start_dev := Some cam_lrme_ctx_start_dev_in_acquired\<rparr>"
| "cam_lrme_ctx_state_machine CAM_CTX_ACTIVATED =
     no_ops\<lparr>op_config_dev := Some cam_lrme_ctx_config_dev_in_activated, op_release_dev := Some cam_lrme_ctx_release_dev_in_activated,
       op_stop_dev := Some cam_lrme_ctx_stop_dev_in_activated, op_flush_dev := Some cam_lrme_ctx_flush_dev_in_activated,
       op_dump_dev := Some cam_lrme_ctx_dump_dev_in_activated, op_irq := Some cam_lrme_ctx_handle_irq_in_activated\<rparr>"
| "cam_lrme_ctx_state_machine _ = no_ops"

subsection \<open>Face detection\<close>

definition cam_fd_ctx_acquire_dev_in_available ::
  "ctx_env \<Rightarrow> nat \<Rightarrow> cam_acquire_dev_cmd option \<Rightarrow> ctx_sys \<Rightarrow> ctx_sys \<times> int \<times> u32" where
  "cam_fd_ctx_acquire_dev_in_available env c cmd s =
     (let (s1, rc, h) = cam_context_acquire_dev_to_hw env c cmd s in
      if rc \<noteq> 0 then (s1, rc, h) else (set_state c CAM_CTX_ACQUIRED s1, rc, h))"

definition cam_fd_ctx_release_dev_in_acquired :: dev_op where
  "cam_fd_ctx_release_dev_in_acquired env c s =
     (let (s1, rc) = cam_context_release_dev_to_hw env c s in
      if rc \<noteq> 0 then (s1, rc) else (set_state c CAM_CTX_AVAILABLE s1, rc))"

definition cam_fd_ctx_config_dev_in_acquired ::
  "ctx_env \<Rightarrow> nat \<Rightarrow> cam_config_dev_cmd option \<Rightarrow> ctx_sys \<Rightarrow> ctx_sys \<times> int" where
  "cam_fd_ctx_config_dev_in_acquired env c cmd s = cam_context_prepare_dev_to_hw env c cmd s"

definition cam_fd_ctx_start_dev_in_acquired :: "ctx_env \<Rightarrow> nat \<Rightarrow> (u32 \<times> u32) option \<Rightarrow> ctx_sys \<Rightarrow> ctx_sys \<times> int" where
  "cam_fd_ctx_start_dev_in_acquired env c cmd s =
     (let (s1, rc) = cam_context_start_dev_to_hw env c cmd s in
      if rc \<noteq> 0 then (s1, rc) else (set_state c CAM_CTX_ACTIVATED s1, rc))"

definition cam_fd_ctx_stop_dev_in_activated :: dev_op where
  "cam_fd_ctx_stop_dev_in_activated env c s =
     (let (s1, rc) = cam_context_stop_dev_to_hw env c s in
      if rc \<noteq> 0 then (s1, rc) else (set_state c CAM_CTX_ACQUIRED s1, rc))"

definition cam_fd_ctx_release_dev_in_activated :: dev_op where
  "cam_fd_ctx_release_dev_in_activated env c s =
     (let (s1, rc) = cam_fd_ctx_stop_dev_in_activated env c s in
      if rc \<noteq> 0 then (s1, rc) else cam_fd_ctx_release_dev_in_acquired env c s1)"

definition cam_fd_ctx_dump_dev_in_activated ::
  "ctx_env \<Rightarrow> nat \<Rightarrow> (u32 \<times> u32 \<times> u64) option \<Rightarrow> ctx_sys \<Rightarrow> ctx_sys \<times> int \<times> u32" where
  "cam_fd_ctx_dump_dev_in_activated env c cmd s = cam_context_dump_dev_to_hw env c cmd s"

definition cam_fd_ctx_flush_dev_in_activated :: "ctx_env \<Rightarrow> nat \<Rightarrow> (u32 \<times> u64) option \<Rightarrow> ctx_sys \<Rightarrow> ctx_sys \<times> int" where
  "cam_fd_ctx_flush_dev_in_activated env c cmd s = cam_context_flush_dev_to_hw env c cmd s"

definition cam_fd_ctx_config_dev_in_activated ::
  "ctx_env \<Rightarrow> nat \<Rightarrow> cam_config_dev_cmd option \<Rightarrow> ctx_sys \<Rightarrow> ctx_sys \<times> int" where
  "cam_fd_ctx_config_dev_in_activated env c cmd s = cam_context_prepare_dev_to_hw env c cmd s"

definition cam_fd_ctx_handle_irq_in_activated :: "ctx_env \<Rightarrow> nat \<Rightarrow> u32 \<Rightarrow> u64 option \<Rightarrow> ctx_sys \<Rightarrow> ctx_sys \<times> int" where
  "cam_fd_ctx_handle_irq_in_activated env c evt_id done s = cam_context_buf_done_from_hw env c done evt_id s"

fun cam_fd_ctx_state_machine :: "cam_context_state \<Rightarrow> cam_ctx_ops" where
  "cam_fd_ctx_state_machine CAM_CTX_AVAILABLE = no_ops\<lparr>op_acquire_dev := Some cam_fd_ctx_acquire_dev_in_available\<rparr>"
| "cam_fd_ctx_state_machine CAM_CTX_ACQUIRED =
     no_ops\<lparr>op_release_dev := Some cam_fd_ctx_release_dev_in_acquired, op_config_dev := Some cam_fd_ctx_config_dev_in_acquired,
       op_start_dev := Some cam_fd_ctx_start_dev_in_acquired\<rparr>"
| "cam_fd_ctx_state_machine CAM_CTX_ACTIVATED =
     no_ops\<lparr>op_stop_dev := Some cam_fd_ctx_stop_dev_in_activated, op_release_dev := Some cam_fd_ctx_release_dev_in_activated,
       op_config_dev := Some cam_fd_ctx_config_dev_in_activated, op_flush_dev := Some cam_fd_ctx_flush_dev_in_activated,
       op_dump_dev := Some cam_fd_ctx_dump_dev_in_activated, op_irq := Some cam_fd_ctx_handle_irq_in_activated\<rparr>"
| "cam_fd_ctx_state_machine _ = no_ops"

text \<open>The entry of the current state in the table a context points to.\<close>

definition ctx_ops :: "cam_context \<Rightarrow> cam_ctx_ops option" where
  "ctx_ops x =
     (case cx_machine x of None \<Rightarrow> None
      | Some JPEG_machine \<Rightarrow> Some (cam_jpeg_ctx_state_machine (cx_state x))
      | Some ICP_machine \<Rightarrow> Some (cam_icp_ctx_state_machine (cx_state x))
      | Some LRME_machine \<Rightarrow> Some (cam_lrme_ctx_state_machine (cx_state x))
      | Some FD_machine \<Rightarrow> Some (cam_fd_ctx_state_machine (cx_state x)))"

end
