(* ===== verification/Cam_Ctx_Node.thy ===== *)
theory Cam_Ctx_Node
  imports Cam_Ctx_Dev
begin

text \<open>
  The dispatch of \<^verbatim>\<open>drivers/cam_core/cam_context.c\<close> over the state machine of a context, and the node of
  \<^verbatim>\<open>drivers/cam_core/cam_node.c\<close> that hands contexts out, finds them by device handle and takes them back when the last
  reference is gone.
\<close>

subsection \<open>Initialisation\<close>

text \<open>\<open>name\<close>, \<open>did\<close>, \<open>ctx_id\<close>, \<open>crm\<close>: the arguments; the requests are those numbered from \<open>base\<close>. \<open>hw\<close>: the manager is given.\<close>

definition cam_context_init ::
  "nat \<Rightarrow> string \<Rightarrow> u64 \<Rightarrow> u32 \<Rightarrow> ptr \<Rightarrow> bool \<Rightarrow> nat \<Rightarrow> nat \<Rightarrow> ctx_sys \<Rightarrow> ctx_sys \<times> int" where
  "cam_context_init c name did ctx_id crm hw base n s =
     (if \<not> hw then (s, code EINVAL)
      else
        (fold (\<lambda>r. upd_req r (\<lambda>q. q\<lparr>rq_ctx := Some c\<rparr>)) [base..<base + n]
           (upd_ctx c (\<lambda>_. \<lparr>cx_name = take 19 name, cx_dev_id = did, cx_id = ctx_id, cx_session = - 1, cx_dev_hdl = - 1,
              cx_link_hdl = - 1, cx_active = [], cx_pending = [], cx_wait = [], cx_free = [base..<base + n], cx_base = base,
              cx_size = n, cx_intf = True, cx_crm = crm, cx_state = CAM_CTX_AVAILABLE, cx_machine = None, cx_hw_map = 0,
              cx_refs = 0, cx_last_flush = 0, cx_index = 0\<rparr>) s), 0))"

definition zero_context :: cam_context where
  "zero_context = \<lparr>cx_name = [], cx_dev_id = 0, cx_id = 0, cx_session = 0, cx_dev_hdl = 0, cx_link_hdl = 0, cx_active = [],
     cx_pending = [], cx_wait = [], cx_free = [], cx_base = 0, cx_size = 0, cx_intf = False, cx_crm = 0,
     cx_state = CAM_CTX_UNINIT, cx_machine = None, cx_hw_map = 0, cx_refs = 0, cx_last_flush = 0, cx_index = 0\<rparr>"

definition cam_context_deinit :: "nat \<Rightarrow> ctx_sys \<Rightarrow> ctx_sys \<times> int" where
  "cam_context_deinit c s = (upd_ctx c (\<lambda>_. zero_context) s, 0)"

text \<open>The contexts of the four drivers.\<close>

definition set_machine :: "nat \<Rightarrow> ctx_machine \<Rightarrow> ctx_sys \<times> int \<Rightarrow> ctx_sys \<times> int" where
  "set_machine c m = (\<lambda>(s, rc). (if rc \<noteq> 0 then s else upd_ctx c (\<lambda>x. x\<lparr>cx_machine := Some m\<rparr>) s, rc))"

definition cam_jpeg_context_init :: "nat \<Rightarrow> bool \<Rightarrow> u32 \<Rightarrow> nat \<Rightarrow> ptr \<Rightarrow> ctx_sys \<Rightarrow> ctx_sys \<times> int" where
  "cam_jpeg_context_init c hw ctx_id base ctx s =
     set_machine c JPEG_machine
       (cam_context_init c ''cam-jpeg'' 0x200 ctx_id 0 hw base CAM_CTX_REQ_MAX
          (fold (\<lambda>r. upd_req r (\<lambda>_. zero_request\<lparr>rq_priv := ctx\<rparr>)) [base..<base + CAM_CTX_REQ_MAX] s))"

definition cam_icp_context_init :: "nat \<Rightarrow> bool \<Rightarrow> u32 \<Rightarrow> nat \<Rightarrow> ctx_sys \<Rightarrow> ctx_sys \<times> int" where
  "cam_icp_context_init c hw ctx_id base s =
     set_machine c ICP_machine (cam_context_init c ''cam-icp'' 0x100 ctx_id 0 hw base CAM_CTX_REQ_MAX s)"

definition cam_lrme_context_init :: "nat \<Rightarrow> bool \<Rightarrow> u32 \<Rightarrow> nat \<Rightarrow> ctx_sys \<Rightarrow> ctx_sys \<times> int" where
  "cam_lrme_context_init c hw index base s =
     (let s0 = fold (\<lambda>r. upd_req r (\<lambda>_. zero_request)) [base..<base + CAM_CTX_REQ_MAX] s;
          (s1, rc) = cam_context_init c ''cam-lrme'' 0x800 index 0 hw base CAM_CTX_REQ_MAX s0
      in if rc \<noteq> 0 then (s1, rc) else (upd_ctx c (\<lambda>x. x\<lparr>cx_index := ucast index, cx_machine := Some LRME_machine\<rparr>) s1, rc))"

definition cam_fd_context_init :: "nat \<Rightarrow> bool \<Rightarrow> u32 \<Rightarrow> nat \<Rightarrow> ctx_sys \<Rightarrow> ctx_sys \<times> int" where
  "cam_fd_context_init c hw ctx_id base s =
     set_machine c FD_machine
       (cam_context_init c ''cam-fd'' 0x400 ctx_id 0 hw base CAM_CTX_REQ_MAX
          (fold (\<lambda>r. upd_req r (\<lambda>_. zero_request)) [base..<base + CAM_CTX_REQ_MAX] s))"

subsection \<open>Dispatch\<close>

definition cam_context_handle_hw_event :: "ctx_env \<Rightarrow> nat \<Rightarrow> u32 \<Rightarrow> u64 option \<Rightarrow> ctx_sys \<Rightarrow> ctx_sys \<times> int" where
  "cam_context_handle_hw_event env c evt_id data s =
     (case ctx_ops (ctxs s c) of None \<Rightarrow> (s, code EINVAL)
      | Some ops \<Rightarrow> (case op_irq ops of None \<Rightarrow> (s, 0) | Some f \<Rightarrow> f env c evt_id data s))"

definition cam_context_dump_pf_info :: "ctx_env \<Rightarrow> nat \<Rightarrow> u64 \<Rightarrow> u32 \<Rightarrow> ctx_sys \<Rightarrow> ctx_sys \<times> int" where
  "cam_context_dump_pf_info env c iova b s =
     (case ctx_ops (ctxs s c) of None \<Rightarrow> (s, code EINVAL)
      | Some ops \<Rightarrow> (case op_pagefault ops of None \<Rightarrow> (s, 0) | Some f \<Rightarrow> f env c iova b s))"

definition reset_lists :: "nat \<Rightarrow> ctx_sys \<Rightarrow> ctx_sys" where
  "reset_lists c = upd_ctx c (\<lambda>x. x\<lparr>cx_active := [], cx_wait := [], cx_pending := [], cx_free := [cx_base x..<cx_base x + cx_size x]\<rparr>)"

definition cam_context_handle_acquire_dev ::
  "ctx_env \<Rightarrow> nat \<Rightarrow> cam_acquire_dev_cmd option \<Rightarrow> ctx_sys \<Rightarrow> ctx_sys \<times> int \<times> u32" where
  "cam_context_handle_acquire_dev env c cmd s =
     (case ctx_ops (ctxs s c) of None \<Rightarrow> (s, code EINVAL, 0)
      | Some ops \<Rightarrow>
          if cmd = None then (s, code EINVAL, 0)
          else
            (let (s1, rc, h) = (case op_acquire_dev ops of None \<Rightarrow> (s, code EPROTO, 0) | Some f \<Rightarrow> f env c cmd s) in
             (reset_lists c s1, rc, h)))"

definition cam_context_handle_release_dev :: "ctx_env \<Rightarrow> nat \<Rightarrow> ctx_sys \<Rightarrow> ctx_sys \<times> int" where
  "cam_context_handle_release_dev env c s =
     (case ctx_ops (ctxs s c) of None \<Rightarrow> (s, code EINVAL)
      | Some ops \<Rightarrow> (case op_release_dev ops of None \<Rightarrow> (s, code EPROTO) | Some f \<Rightarrow> f env c s))"

definition cam_context_handle_flush_dev :: "ctx_env \<Rightarrow> nat \<Rightarrow> (u32 \<times> u64) option \<Rightarrow> ctx_sys \<Rightarrow> ctx_sys \<times> int" where
  "cam_context_handle_flush_dev env c cmd s =
     (case ctx_ops (ctxs s c) of None \<Rightarrow> (s, code EINVAL)
      | Some ops \<Rightarrow>
          if cmd = None then (s, code EINVAL)
          else (case op_flush_dev ops of None \<Rightarrow> (s, 0) | Some f \<Rightarrow> f env c cmd s))"

definition cam_context_handle_config_dev :: "ctx_env \<Rightarrow> nat \<Rightarrow> cam_config_dev_cmd option \<Rightarrow> ctx_sys \<Rightarrow> ctx_sys \<times> int" where
  "cam_context_handle_config_dev env c cmd s =
     (case ctx_ops (ctxs s c) of None \<Rightarrow> (s, code EINVAL)
      | Some ops \<Rightarrow>
          if cmd = None then (s, code EINVAL)
          else (case op_config_dev ops of None \<Rightarrow> (s, code EPROTO) | Some f \<Rightarrow> f env c cmd s))"

definition cam_context_handle_start_dev :: "ctx_env \<Rightarrow> nat \<Rightarrow> (u32 \<times> u32) option \<Rightarrow> ctx_sys \<Rightarrow> ctx_sys \<times> int" where
  "cam_context_handle_start_dev env c cmd s =
     (case ctx_ops (ctxs s c) of None \<Rightarrow> (s, code EINVAL)
      | Some ops \<Rightarrow>
          if cmd = None then (s, code EINVAL)
          else (case op_start_dev ops of None \<Rightarrow> (s, 0) | Some f \<Rightarrow> f env c cmd s))"

definition cam_context_handle_stop_dev :: "ctx_env \<Rightarrow> nat \<Rightarrow> ctx_sys \<Rightarrow> ctx_sys \<times> int" where
  "cam_context_handle_stop_dev env c s =
     (case ctx_ops (ctxs s c) of None \<Rightarrow> (s, code EINVAL)
      | Some ops \<Rightarrow>
          (let (s1, rc) = (case op_stop_dev ops of None \<Rightarrow> (s, 0) | Some f \<Rightarrow> f env c s) in
           (upd_ctx c (\<lambda>x. x\<lparr>cx_last_flush := 0\<rparr>) s1, rc)))"

definition cam_context_handle_dump_dev ::
  "ctx_env \<Rightarrow> nat \<Rightarrow> (u32 \<times> u32 \<times> u64) option \<Rightarrow> ctx_sys \<Rightarrow> ctx_sys \<times> int \<times> u32" where
  "cam_context_handle_dump_dev env c cmd s =
     (case ctx_ops (ctxs s c) of None \<Rightarrow> (s, code EINVAL, 0)
      | Some ops \<Rightarrow>
          (case cmd of None \<Rightarrow> (s, code EINVAL, 0)
           | Some (h, off, rid) \<Rightarrow> (case op_dump_dev ops of None \<Rightarrow> (s, 0, off) | Some f \<Rightarrow> f env c cmd s)))"

text \<open>
  The dispatch for operations whose payload is not looked at: \<open>absent\<close> is the code for a state without the operation, and
  \<open>null_ok\<close> says that a \<^verbatim>\<open>NULL\<close> payload is passed on.
\<close>

definition dispatch_op ::
  "(cam_ctx_ops \<Rightarrow> (ctx_env \<Rightarrow> nat \<Rightarrow> ptr \<Rightarrow> ctx_sys \<Rightarrow> ctx_sys \<times> int) option) \<Rightarrow> bool \<Rightarrow> int \<Rightarrow>
   ctx_env \<Rightarrow> nat \<Rightarrow> ptr \<Rightarrow> ctx_sys \<Rightarrow> ctx_sys \<times> int" where
  "dispatch_op sel null_ok absent env c arg s =
     (case ctx_ops (ctxs s c) of None \<Rightarrow> (s, code EINVAL)
      | Some ops \<Rightarrow>
          if \<not> null_ok \<and> arg = 0 then (s, code EINVAL)
          else (case sel ops of None \<Rightarrow> (s, absent) | Some f \<Rightarrow> f env c arg s))"

definition cam_context_handle_acquire_hw where
  "cam_context_handle_acquire_hw = dispatch_op op_acquire_hw False (code EPROTO)"
definition cam_context_handle_release_hw where
  "cam_context_handle_release_hw = dispatch_op op_release_hw False (code EPROTO)"
definition cam_context_handle_crm_get_dev_info where
  "cam_context_handle_crm_get_dev_info = dispatch_op op_get_dev_info False (code EPROTO)"
definition cam_context_handle_crm_link where
  "cam_context_handle_crm_link = dispatch_op op_link False (code EPROTO)"
definition cam_context_handle_crm_unlink where
  "cam_context_handle_crm_unlink = dispatch_op op_unlink False (code EPROTO)"
definition cam_context_handle_crm_apply_req where
  "cam_context_handle_crm_apply_req = dispatch_op op_apply_req False (code EPROTO)"
definition cam_context_handle_crm_flush_req where
  "cam_context_handle_crm_flush_req = dispatch_op op_flush_req True (code EPROTO)"
definition cam_context_handle_crm_process_evt where
  "cam_context_handle_crm_process_evt = dispatch_op op_process_evt True 0"
definition cam_context_handle_crm_dump_req where
  "cam_context_handle_crm_dump_req = dispatch_op op_dump_req True 0"

definition cam_context_shutdown :: "ctx_env \<Rightarrow> nat \<Rightarrow> ctx_sys \<Rightarrow> ctx_sys \<times> int" where
  "cam_context_shutdown env c s =
     (let s1 =
        (if cx_state (ctxs s c) \<notin> {CAM_CTX_UNINIT, CAM_CTX_AVAILABLE}
         then (let (s0, rc) = cam_context_handle_release_dev env c s in if rc \<noteq> 0 then s0 else cam_context_putref c s0)
         else s);
        (h, r) = cam_destroy_device_hdl (ht s1) (cx_dev_hdl (ctxs s1 c));
        s2 = s1\<lparr>ht := h\<rparr>
      in if is_err r then (s2, rc_of r) else (upd_ctx c (\<lambda>x. x\<lparr>cx_dev_hdl := - 1\<rparr>) s2, 0))"

subsection \<open>The node\<close>

definition cam_node_get_ctxt_from_free_list :: "ctx_sys \<Rightarrow> (ctx_sys \<times> nat) option" where
  "cam_node_get_ctxt_from_free_list s =
     (case free_ctx_list s of [] \<Rightarrow> None
      | c # cs \<Rightarrow> Some (upd_ctx c (\<lambda>x. x\<lparr>cx_refs := 1\<rparr>) (s\<lparr>free_ctx_list := cs\<rparr>), c))"

definition cam_node_init :: "string \<Rightarrow> nat \<Rightarrow> ctx_sys \<Rightarrow> ctx_sys \<times> int" where
  "cam_node_init name n s =
     (let s0 = s\<lparr>node_name := take 19 name, ctx_size := n\<rparr>; ready = takeWhile (\<lambda>i. cx_machine (ctxs s i) \<noteq> None) [0..<n] in
      (s0\<lparr>free_ctx_list := ready\<rparr>, if length ready < n then - 1 else 0))"

text \<open>The context a command names: the handles are positive, the table knows the device, and the context is one of this node.\<close>

definition node_ctx :: "u32 \<Rightarrow> u32 \<Rightarrow> ctx_sys \<Rightarrow> nat option" where
  "node_ctx session dev s =
     (if sint dev \<le> 0 \<or> sint session \<le> 0 then None
      else
        (let p = cam_get_device_priv (ht s) dev in
         if p = 0 then None
         else if node_name s \<noteq> cx_name (ctxs s (unat p - 1)) then None
         else Some (unat p - 1)))"

definition cam_node_handle_acquire_dev :: "ctx_env \<Rightarrow> cam_acquire_dev_cmd option \<Rightarrow> ctx_sys \<Rightarrow> ctx_sys \<times> int \<times> u32" where
  "cam_node_handle_acquire_dev env cmd s =
     (if cmd = None then (s, code EINVAL, 0)
      else
        (case cam_node_get_ctxt_from_free_list s of None \<Rightarrow> (s, code ENOMEM, 0)
         | Some (s1, c) \<Rightarrow>
             (let (s2, rc, h) = cam_context_handle_acquire_dev env c cmd (upd_ctx c (\<lambda>x. x\<lparr>cx_last_flush := 0\<rparr>) s1) in
              if rc \<noteq> 0 then (cam_context_putref c s2, rc, h) else (s2, 0, h))))"

definition cam_node_handle_start_dev :: "ctx_env \<Rightarrow> u32 \<Rightarrow> u32 \<Rightarrow> ctx_sys \<Rightarrow> ctx_sys \<times> int" where
  "cam_node_handle_start_dev env session dev s =
     (case node_ctx session dev s of None \<Rightarrow> (s, code EINVAL)
      | Some c \<Rightarrow> cam_context_handle_start_dev env c (Some (session, dev)) s)"

definition cam_node_handle_stop_dev :: "ctx_env \<Rightarrow> u32 \<Rightarrow> u32 \<Rightarrow> ctx_sys \<Rightarrow> ctx_sys \<times> int" where
  "cam_node_handle_stop_dev env session dev s =
     (case node_ctx session dev s of None \<Rightarrow> (s, code EINVAL) | Some c \<Rightarrow> cam_context_handle_stop_dev env c s)"

definition cam_node_handle_config_dev :: "ctx_env \<Rightarrow> cam_config_dev_cmd \<Rightarrow> ctx_sys \<Rightarrow> ctx_sys \<times> int" where
  "cam_node_handle_config_dev env k s =
     (case node_ctx (cd_session k) (cd_dev k) s of None \<Rightarrow> (s, code EINVAL)
      | Some c \<Rightarrow> cam_context_handle_config_dev env c (Some k) s)"

definition cam_node_handle_flush_dev :: "ctx_env \<Rightarrow> u32 \<Rightarrow> u32 \<Rightarrow> u32 \<Rightarrow> u64 \<Rightarrow> ctx_sys \<Rightarrow> ctx_sys \<times> int" where
  "cam_node_handle_flush_dev env session dev flush_type req_id s =
     (case node_ctx session dev s of None \<Rightarrow> (s, code EINVAL)
      | Some c \<Rightarrow> cam_context_handle_flush_dev env c (Some (flush_type, req_id)) s)"

text \<open>The dump command is not compared with the name of the node.\<close>

definition cam_node_handle_dump_dev :: "ctx_env \<Rightarrow> u32 \<Rightarrow> u32 \<Rightarrow> u32 \<times> u32 \<times> u64 \<Rightarrow> ctx_sys \<Rightarrow> ctx_sys \<times> int \<times> u32" where
  "cam_node_handle_dump_dev env session dev cmd s =
     (if sint dev \<le> 0 \<or> sint session \<le> 0 then (s, code EINVAL, 0)
      else
        (let p = cam_get_device_priv (ht s) dev in
         if p = 0 then (s, code EINVAL, 0) else cam_context_handle_dump_dev env (unat p - 1) (Some cmd) s))"

definition cam_node_handle_release_dev :: "ctx_env \<Rightarrow> u32 \<Rightarrow> u32 \<Rightarrow> ctx_sys \<Rightarrow> ctx_sys \<times> int" where
  "cam_node_handle_release_dev env session dev s =
     (case node_ctx session dev s of None \<Rightarrow> (s, code EINVAL)
      | Some c \<Rightarrow>
          (let s1 = (if cx_state (ctxs s c) \<noteq> CAM_CTX_UNINIT
                     then cam_context_putref c (fst (cam_context_handle_release_dev env c s)) else s);
               (h, r) = cam_destroy_device_hdl (ht s1) dev;
               s2 = s1\<lparr>ht := h\<rparr>
           in if is_err r then (s2, rc_of r) else (upd_ctx c (\<lambda>x. x\<lparr>cx_dev_hdl := - 1\<rparr>) s2, 0)))"

definition cam_node_handle_acquire_hw :: "ctx_env \<Rightarrow> u32 \<Rightarrow> u32 \<Rightarrow> ptr \<Rightarrow> ctx_sys \<Rightarrow> ctx_sys \<times> int" where
  "cam_node_handle_acquire_hw env session dev arg s =
     (case node_ctx session dev s of None \<Rightarrow> (s, code EINVAL) | Some c \<Rightarrow> cam_context_handle_acquire_hw env c arg s)"

definition cam_node_handle_release_hw :: "ctx_env \<Rightarrow> u32 \<Rightarrow> u32 \<Rightarrow> ptr \<Rightarrow> ctx_sys \<Rightarrow> ctx_sys \<times> int" where
  "cam_node_handle_release_hw env session dev arg s =
     (case node_ctx session dev s of None \<Rightarrow> (s, code EINVAL) | Some c \<Rightarrow> cam_context_handle_release_hw env c arg s)"

definition shutdown_ctx :: "ctx_env \<Rightarrow> nat \<Rightarrow> ctx_sys \<Rightarrow> ctx_sys" where
  "shutdown_ctx env c s = (if 0 < sint (cx_dev_hdl (ctxs s c)) then fst (cam_context_shutdown env c s) else s)"

definition cam_node_shutdown :: "ctx_env \<Rightarrow> ctx_sys \<Rightarrow> ctx_sys \<times> int" where
  "cam_node_shutdown env s =
     (let s1 = fold (shutdown_ctx env) [0..<ctx_size s] s in
      (if hw_close (ce_hw env) then call_hw Hw_close s1 else s1, 0))"

text \<open>The requests of the request manager name the device only.\<close>

definition crm_ctx :: "u32 \<Rightarrow> ctx_sys \<Rightarrow> nat option" where
  "crm_ctx dev s = (let p = cam_get_device_priv (ht s) dev in if p = 0 then None else Some (unat p - 1))"

definition node_crm ::
  "(ctx_env \<Rightarrow> nat \<Rightarrow> ptr \<Rightarrow> ctx_sys \<Rightarrow> ctx_sys \<times> int) \<Rightarrow> ctx_env \<Rightarrow> u32 \<Rightarrow> ptr \<Rightarrow> ctx_sys \<Rightarrow> ctx_sys \<times> int" where
  "node_crm f env dev arg s =
     (if arg = 0 then (s, code EINVAL) else case crm_ctx dev s of None \<Rightarrow> (s, code EINVAL) | Some c \<Rightarrow> f env c arg s)"

definition cam_node_crm_get_dev_info where
  "cam_node_crm_get_dev_info = node_crm cam_context_handle_crm_get_dev_info"
definition cam_node_crm_link_setup where
  "cam_node_crm_link_setup link_enable =
     node_crm (if link_enable then cam_context_handle_crm_link else cam_context_handle_crm_unlink)"
definition cam_node_crm_apply_req where
  "cam_node_crm_apply_req = node_crm cam_context_handle_crm_apply_req"
definition cam_node_crm_flush_req where
  "cam_node_crm_flush_req = node_crm cam_context_handle_crm_flush_req"
definition cam_node_crm_process_evt where
  "cam_node_crm_process_evt = node_crm cam_context_handle_crm_process_evt"
definition cam_node_crm_dump_req where
  "cam_node_crm_dump_req = node_crm cam_context_handle_crm_dump_req"

text \<open>
  The ioctls. The structure a command copies in comes with it, \<open>None\<close> when the copy fails, and \<open>out\<close> says whether the copy
  back succeeds. \<open>caps\<close> is the answer of \<^verbatim>\<open>hw_get_caps\<close>, \<open>None\<close> also when the manager has no such function. The commands
  for the hardware come with the version they give and with the address of the structure allocated for them, 0 if there is
  no memory.
\<close>

datatype node_cmd =
    Node_query "int option"
  | Node_acquire "cam_acquire_dev_cmd option"
  | Node_acquire_hw "u32 option" ptr "(u32 \<times> u32) option"
  | Node_start "(u32 \<times> u32) option"
  | Node_stop "(u32 \<times> u32) option"
  | Node_config "cam_config_dev_cmd option"
  | Node_release "(u32 \<times> u32) option"
  | Node_release_hw "u32 option" ptr "(u32 \<times> u32) option"
  | Node_flush "(u32 \<times> u32 \<times> u32 \<times> u64) option"
  | Node_dump "(u32 \<times> u32 \<times> u32 \<times> u32 \<times> u64) option"
  | Node_unknown

definition hw_ioctl ::
  "u32 option \<Rightarrow> ptr \<Rightarrow> (u32 \<times> u32) option \<Rightarrow> (u32 \<Rightarrow> u32 \<Rightarrow> ptr \<Rightarrow> ctx_sys \<Rightarrow> ctx_sys \<times> int) \<Rightarrow> ctx_sys \<Rightarrow> ctx_sys \<times> int" where
  "hw_ioctl version mem k f s =
     (case version of None \<Rightarrow> (s, code EFAULT)
      | Some v \<Rightarrow>
          if v \<noteq> 1 then (s, code EINVAL)
          else if mem = 0 then (s, code ENOMEM)
          else (case k of None \<Rightarrow> (s, code EFAULT) | Some (se, d) \<Rightarrow> f se d mem s))"

definition cam_node_handle_ioctl :: "ctx_env \<Rightarrow> bool \<Rightarrow> node_cmd \<Rightarrow> ctx_sys \<Rightarrow> ctx_sys \<times> int" where
  "cam_node_handle_ioctl env out cmd s =
     (case cmd of
        Node_query caps \<Rightarrow>
          (s, case caps of None \<Rightarrow> code EFAULT | Some rc \<Rightarrow> if rc = 0 \<and> \<not> out then code EFAULT else rc)
      | Node_acquire None \<Rightarrow> (s, code EFAULT)
      | Node_acquire k \<Rightarrow>
          (let (s1, rc, h) = cam_node_handle_acquire_dev env k s in (s1, if rc = 0 \<and> \<not> out then code EFAULT else rc))
      | Node_acquire_hw version mem k \<Rightarrow>
          (let (s1, rc) = hw_ioctl version mem k (cam_node_handle_acquire_hw env) s in (s1, if rc = 0 \<and> \<not> out then code EFAULT else rc))
      | Node_start None \<Rightarrow> (s, code EFAULT)
      | Node_start (Some (se, d)) \<Rightarrow> cam_node_handle_start_dev env se d s
      | Node_stop None \<Rightarrow> (s, code EFAULT)
      | Node_stop (Some (se, d)) \<Rightarrow> cam_node_handle_stop_dev env se d s
      | Node_config None \<Rightarrow> (s, code EFAULT)
      | Node_config (Some k) \<Rightarrow> cam_node_handle_config_dev env k s
      | Node_release None \<Rightarrow> (s, code EFAULT)
      | Node_release (Some (se, d)) \<Rightarrow> cam_node_handle_release_dev env se d s
      | Node_release_hw version mem k \<Rightarrow> hw_ioctl version mem k (cam_node_handle_release_hw env) s
      | Node_flush None \<Rightarrow> (s, code EFAULT)
      | Node_flush (Some (se, d, ty, rid)) \<Rightarrow> cam_node_handle_flush_dev env se d ty rid s
      | Node_dump None \<Rightarrow> (s, code EFAULT)
      | Node_dump (Some (se, d, k)) \<Rightarrow>
          (let (s1, rc, off) = cam_node_handle_dump_dev env se d k s in (s1, if rc = 0 \<and> \<not> out then code EFAULT else rc))
      | Node_unknown \<Rightarrow> (s, code EINVAL))"

end
