(* ===== verification/Cam_Ctx_Cbs.thy ===== *)
theory Cam_Ctx_Cbs
  imports Cam_Ctx_Node "HOL-Library.Multiset"
begin

text \<open>
  The callbacks a user of the sync driver has outstanding, as a multiset: those registered with a fence and those in the
  queue of the worker. \<open>fence_callbacks\<close> is the contract the context framework relies on: deregistering takes back the
  callbacks of one fence and says whether there were any, and signaling only moves callbacks. It is interpreted on the fence table.
\<close>

type_synonym cb_key = "nat \<times> nat"

definition cb_key :: "sync_callback_info \<Rightarrow> cb_key" where
  "cb_key cb = (callback_func cb, cb_data cb)"

definition row_keys :: "sync_device \<Rightarrow> nat \<Rightarrow> cb_key multiset" where
  "row_keys y i = image_mset cb_key (mset (callback_list (sync_table y i)))"

definition outstanding :: "sync_device \<Rightarrow> cb_key multiset" where
  "outstanding y = (\<Sum>i<CAM_SYNC_MAX_OBJS. row_keys y i) + image_mset cb_key (mset (work_queue y))"

text \<open>No callback is registered with a row that is not in use, and callbacks wait for the worker.\<close>

definition cbs_inv :: "sync_device \<Rightarrow> bool" where
  "cbs_inv y \<longleftrightarrow> sync_inv y \<and> \<not> trigger_cb_without_switch y \<and>
     (\<forall>i. state (sync_table y i) = CAM_SYNC_STATE_INVALID \<longrightarrow> callback_list (sync_table y i) = [])"

lemma cbs_inv_sync: "cbs_inv y \<Longrightarrow> sync_inv y"
  by (simp add: cbs_inv_def)

subsection \<open>The contract\<close>

locale fence_callbacks =
  fixes inv :: "'y \<Rightarrow> bool"
    and outst :: "'y \<Rightarrow> 'k multiset"
    and armed :: "'y \<Rightarrow> int \<Rightarrow> 'k multiset"
    and deregister :: "'k \<Rightarrow> int \<Rightarrow> 'y \<Rightarrow> 'y \<times> bool"
    and signal :: "int \<Rightarrow> u32 \<Rightarrow> 'y \<Rightarrow> 'y"
  assumes armed_sub: "armed y f \<subseteq># outst y"
    and deregister_inv: "inv y \<Longrightarrow> inv (fst (deregister k f y))"
    and deregister_outst: "inv y \<Longrightarrow> outst (fst (deregister k f y)) = outst y - replicate_mset (count (armed y f) k) k"
    and deregister_armed: "inv y \<Longrightarrow> armed (fst (deregister k f y)) g =
          (if g = f then armed y g - replicate_mset (count (armed y g) k) k else armed y g)"
    and deregister_found: "inv y \<Longrightarrow> snd (deregister k f y) \<longleftrightarrow> k \<in># armed y f"
    and signal_inv: "inv y \<Longrightarrow> inv (signal f st y)"
    and signal_outst: "inv y \<Longrightarrow> outst (signal f st y) = outst y"
    and signal_armed: "inv y \<Longrightarrow> armed (signal f st y) g \<subseteq># armed y g"
begin

lemma deregister_found_step:
  assumes "inv y" "snd (deregister k f y)" "count (armed y f) k \<le> 1"
  shows "outst y = add_mset k (outst (fst (deregister k f y)))" "count (armed (fst (deregister k f y)) f) k = 0"
proof -
  have k: "k \<in># armed y f" using deregister_found assms(1,2) by blast
  then have one: "count (armed y f) k = 1" using assms(3) by (metis One_nat_def Suc_leI count_greater_zero_iff le_antisym)
  have "k \<in># outst y" using k armed_sub [of y f] by (rule mset_subset_eqD [rotated])
  then show "outst y = add_mset k (outst (fst (deregister k f y)))"
    using deregister_outst [OF assms(1), of k f] one by (simp add: insert_DiffM)
  show "count (armed (fst (deregister k f y)) f) k = 0"
    using deregister_armed [OF assms(1), of k f f] by simp
qed

lemma deregister_missing_step:
  assumes "inv y" "\<not> snd (deregister k f y)"
  shows "outst (fst (deregister k f y)) = outst y" "armed (fst (deregister k f y)) g = armed y g"
proof -
  have "count (armed y f) k = 0" using deregister_found assms by (simp add: not_in_iff)
  then show "outst (fst (deregister k f y)) = outst y" "armed (fst (deregister k f y)) g = armed y g"
    using deregister_outst [OF assms(1), of k f] deregister_armed [OF assms(1), of k f g] by auto
qed

lemma signals_keep:
  assumes "inv y"
  shows "inv (fold (\<lambda>(f, st). signal f st) fs y) \<and> outst (fold (\<lambda>(f, st). signal f st) fs y) = outst y \<and>
    armed (fold (\<lambda>(f, st). signal f st) fs y) g \<subseteq># armed y g"
  using assms
proof (induction fs arbitrary: y)
  case (Cons p fs)
  obtain f st where p: "p = (f, st)" by (cases p)
  show ?case
    using Cons.IH [OF signal_inv [OF Cons.prems, of f st]] signal_outst [OF Cons.prems, of f st]
      signal_armed [OF Cons.prems, of f st g] by (auto simp: p intro: subset_mset.trans)
qed simp

lemma deregister_all:
  assumes "inv y"
  shows "inv (fold (\<lambda>f y. fst (deregister k f y)) fs y) \<and>
    (\<forall>f \<in> set fs. count (armed (fold (\<lambda>f y. fst (deregister k f y)) fs y) f) k = 0) \<and>
    (\<forall>f. count (armed (fold (\<lambda>f y. fst (deregister k f y)) fs y) f) k \<le> count (armed y f) k)"
  using assms
proof (induction fs arbitrary: y)
  case (Cons f fs)
  let ?y = "fst (deregister k f y)"
  have le: "count (armed ?y g) k \<le> count (armed y g) k" for g
    using deregister_armed [OF Cons.prems, of k f g] by simp
  have z: "count (armed ?y f) k = 0" using deregister_armed [OF Cons.prems, of k f f] by simp
  note IH = Cons.IH [OF deregister_inv [OF Cons.prems, of k f]]
  show ?case
  proof (intro conjI allI ballI)
    fix g
    show "count (armed (fold (\<lambda>f y. fst (deregister k f y)) (f # fs) y) g) k \<le> count (armed y g) k"
      using IH le [of g] by (auto intro: le_trans)
  next
    fix g assume "g \<in> set (f # fs)"
    then show "count (armed (fold (\<lambda>f y. fst (deregister k f y)) (f # fs) y) g) k = 0"
      using IH z by (cases "g \<in> set fs") (simp, metis fold_simps(2) le_zero_eq set_ConsD)
  qed (use IH in simp)
qed simp

end

subsection \<open>Counting\<close>

lemma outstanding_cong:
  "(\<And>i. i < CAM_SYNC_MAX_OBJS \<Longrightarrow> row_keys z i = row_keys y i) \<Longrightarrow> work_queue z = work_queue y \<Longrightarrow> outstanding z = outstanding y"
  by (simp add: outstanding_def)

lemma row_keys_upd: "row_keys (upd_row i f y) j = (if j = i then image_mset cb_key (mset (callback_list (f (sync_table y i)))) else row_keys y j)"
  by (simp add: row_keys_def)

lemma outstanding_split:
  "i < CAM_SYNC_MAX_OBJS \<Longrightarrow> outstanding y =
     row_keys y i + ((\<Sum>j \<in> {..<CAM_SYNC_MAX_OBJS} - {i}. row_keys y j) + image_mset cb_key (mset (work_queue y)))"
  by (simp add: outstanding_def sum.remove [of "{..<1024}" i])

lemma outstanding_upd_row:
  assumes "i < CAM_SYNC_MAX_OBJS"
  shows "outstanding (upd_row i f y) + row_keys y i = outstanding y + image_mset cb_key (mset (callback_list (f (sync_table y i))))"
  using outstanding_split [OF assms, of y] outstanding_split [OF assms, of "upd_row i f y"] by (simp add: row_keys_upd)

lemma row_keys_sub: "i < CAM_SYNC_MAX_OBJS \<Longrightarrow> row_keys y i \<subseteq># outstanding y"
  using outstanding_split [of i y] by simp

subsection \<open>Signaling keeps the callbacks\<close>

lemma row_keys_dispatch:
  assumes "state (sync_table y i) \<noteq> CAM_SYNC_STATE_INVALID"
  shows "row_keys (cam_sync_util_dispatch_signaled_cb i st y) j = (if j = i then {#} else row_keys y j)"
  using assms by (simp add: dispatch_eq row_keys_def)

lemma outstanding_dispatch:
  assumes "i < CAM_SYNC_MAX_OBJS"
  shows "outstanding (cam_sync_util_dispatch_signaled_cb i st y) = outstanding y"
proof (cases "state (sync_table y i) = CAM_SYNC_STATE_INVALID")
  case False
  have k: "image_mset cb_key (mset (map (\<lambda>cb. cb\<lparr>cb_status := st\<rparr>) xs)) = image_mset cb_key (mset xs)" for xs
    by (induction xs) (simp_all add: cb_key_def)
  note k' = k [unfolded mset_map]
  show ?thesis
    unfolding outstanding_split [OF assms, of "cam_sync_util_dispatch_signaled_cb i st y"] outstanding_split [OF assms, of y]
    using False by (simp add: row_keys_dispatch dispatch_outputs k') (simp add: row_keys_def)
qed (simp add: dispatch_invalid)

text \<open>A change of the fence table that only moves callbacks to the queue.\<close>

definition moved :: "sync_device \<Rightarrow> sync_device \<Rightarrow> bool" where
  "moved y z \<longleftrightarrow> outstanding z = outstanding y \<and> trigger_cb_without_switch z = trigger_cb_without_switch y \<and>
     (\<forall>i. callback_list (sync_table z i) = callback_list (sync_table y i) \<or> callback_list (sync_table z i) = []) \<and>
     (\<forall>i. state (sync_table z i) = CAM_SYNC_STATE_INVALID \<longrightarrow> state (sync_table y i) = CAM_SYNC_STATE_INVALID)"

lemma moved_refl [simp, intro!]: "moved y y"
  by (simp add: moved_def)

lemma moved_trans: "moved x y \<Longrightarrow> moved y z \<Longrightarrow> moved x z"
  unfolding moved_def by metis

lemma moved_cbs_inv: "cbs_inv y \<Longrightarrow> moved y z \<Longrightarrow> sync_inv z \<Longrightarrow> cbs_inv z"
  unfolding moved_def cbs_inv_def by metis

lemma moved_row_keys: "moved y z \<Longrightarrow> row_keys z i \<subseteq># row_keys y i"
  unfolding moved_def row_keys_def by (metis empty_le image_mset_empty mset.simps(1) subset_mset.order_refl)

lemma moved_upd_row:
  assumes "callback_list (f (sync_table y i)) = callback_list (sync_table y i)"
    "state (f (sync_table y i)) = CAM_SYNC_STATE_INVALID \<Longrightarrow> state (sync_table y i) = CAM_SYNC_STATE_INVALID"
  shows "moved y (upd_row i f y)"
proof -
  have "outstanding (upd_row i f y) = outstanding y"
    by (rule outstanding_cong) (simp_all add: row_keys_upd assms(1), simp add: row_keys_def)
  then show ?thesis using assms by (simp add: moved_def)
qed

lemma moved_dispatch: "i < CAM_SYNC_MAX_OBJS \<Longrightarrow> moved y (cam_sync_util_dispatch_signaled_cb i st y)"
  using outstanding_dispatch [of i st y]
  by (cases "state (sync_table y i) = CAM_SYNC_STATE_INVALID") (auto simp: moved_def dispatch_invalid dispatch_eq)

lemma moved_signal_parent:
  assumes "p < CAM_SYNC_MAX_OBJS" "st \<noteq> CAM_SYNC_STATE_INVALID"
  shows "moved y (signal_parent st p y)"
proof -
  define y1 where "y1 = upd_row p (\<lambda>r. r\<lparr>remaining := remaining r - 1\<rparr>) y"
  define row where "row = fst (cam_sync_util_update_parent_state (sync_table y1 p) st)"
  have 1: "moved y y1" unfolding y1_def by (rule moved_upd_row) simp_all
  have 2: "moved y1 (upd_row p (\<lambda>_. row) y1)" unfolding row_def
    by (rule moved_upd_row) (use assms(2) in \<open>auto simp: cam_sync_util_update_parent_state_def split: if_splits\<close>)
  note 3 = moved_trans [OF 1 2] moved_dispatch [OF assms(1)]
  show ?thesis
    unfolding signal_parent_def y1_def [symmetric] Let_def
    using 3(1) moved_trans [OF 3] by (auto simp: row_def split: prod.splits)
qed

lemma moved_signal_parents:
  "\<forall>p \<in> set ps. p < CAM_SYNC_MAX_OBJS \<Longrightarrow> st \<noteq> CAM_SYNC_STATE_INVALID \<Longrightarrow> moved y (fold (signal_parent st) ps y)"
  by (induction ps arbitrary: y) (auto intro: moved_trans [OF moved_signal_parent])

lemma moved_signal_locked:
  assumes "sync_inv y" "signal_locked y f st = (z, r)"
  shows "moved y z" "r = Inr ps \<Longrightarrow> ps \<noteq> [] \<Longrightarrow> st \<noteq> CAM_SYNC_STATE_INVALID" "r = Inr ps \<Longrightarrow> p \<in> set ps \<Longrightarrow> p < CAM_SYNC_MAX_OBJS"
proof -
  let ?i = "nat f"
  define y1 where "y1 = upd_row ?i (\<lambda>r. r\<lparr>ref_cnt := ref_cnt r - 1\<rparr>) y"
  define y2 where "y2 = upd_row ?i (\<lambda>r. r\<lparr>state := st\<rparr>) y1"
  define y3 where "y3 = cam_sync_util_dispatch_signaled_cb ?i st y2"
  have 1: "moved y y1" unfolding y1_def by (rule moved_upd_row) simp_all
  have pl: "parents_list (sync_table y3 ?i) = parents_list (sync_table y ?i)"
    by (cases "state (sync_table y2 ?i) = CAM_SYNC_STATE_INVALID")
      (simp_all add: y3_def dispatch_invalid dispatch_row y2_def y1_def)
  have par: "p < CAM_SYNC_MAX_OBJS" if "p \<in> set (parents_list (sync_table y3 ?i))"
    using that assms(1) unfolding pl sync_inv_pend_def live_group_def by blast
  have 2: "moved y (upd_row ?i (\<lambda>r. r\<lparr>parents_list := []\<rparr>) y3)" if "in_range f" "st \<noteq> CAM_SYNC_STATE_INVALID"
  proof -
    have "?i < CAM_SYNC_MAX_OBJS" using that(1) by (auto simp: in_range_def)
    moreover have "moved y1 y2" unfolding y2_def by (rule moved_upd_row) (use that in simp_all)
    ultimately have "moved y y3" unfolding y3_def using 1 moved_dispatch [of ?i y2 st] by (blast intro: moved_trans)
    then show ?thesis by (rule moved_trans) (rule moved_upd_row; simp)
  qed
  note def = assms(2) [unfolded signal_locked_def Let_def, folded y1_def, folded y2_def, folded y3_def]
  show "moved y z" using def 1 2 by (auto split: if_splits)
  show "r = Inr ps \<Longrightarrow> ps \<noteq> [] \<Longrightarrow> st \<noteq> CAM_SYNC_STATE_INVALID" using def by (auto split: if_splits)
  show "r = Inr ps \<Longrightarrow> p \<in> set ps \<Longrightarrow> p < CAM_SYNC_MAX_OBJS" using def par by (auto split: if_splits)
qed

lemma moved_signal: "sync_inv y \<Longrightarrow> moved y (fst (cam_sync_signal y f st))"
proof (cases "signal_locked y f st")
  case (Pair z r)
  assume inv: "sync_inv y"
  note l = moved_signal_locked [OF inv Pair]
  show ?thesis
  proof (cases r)
    case (Inr ps)
    have "moved z (fold (signal_parent st) ps z)"
      using moved_signal_parents [of ps st z] l(2,3) [OF Inr] by (cases "ps = []") auto
    then show ?thesis using l(1) Pair Inr by (simp add: cam_sync_signal_def moved_trans)
  qed (use l(1) Pair in \<open>simp add: cam_sync_signal_def\<close>)
qed

lemma cbs_inv_signal: "cbs_inv y \<Longrightarrow> cbs_inv (fst (cam_sync_signal y f st))"
  by (rule moved_cbs_inv) (auto simp: cbs_inv_sync intro: moved_signal signal_inv)

subsection \<open>Registering and deregistering\<close>

lemma register_spec:
  assumes "cbs_inv y" "cam_sync_register_callback True y 1 d f = (z, r)" "in_range f"
    "state (sync_table y (nat f)) \<noteq> CAM_SYNC_STATE_INVALID"
  shows "r = Ok ()" "cbs_inv z" "outstanding z = add_mset (1, d) (outstanding y)" "cb_calls z = cb_calls y"
    "row_keys z i = row_keys y i \<or> i = nat f \<and> row_keys z i = add_mset (1, d) (row_keys y i)"
    "state (sync_table z i) = state (sync_table y i)"
    "bitmap z = bitmap y"
proof -
  have i: "nat f < CAM_SYNC_MAX_OBJS" using assms(3) by (auto simp: in_range_def)
  have si: "sync_inv z"
    using same_core_inv [OF register_callback_same_core, of True y 1 d f] assms(1,2) by (simp add: cbs_inv_def)
  let ?cb = "\<lparr>callback_func = 1, cb_data = d, cb_status = 0, cb_sync_obj = nat f\<rparr>"
  let ?reg = "upd_row (nat f) (\<lambda>r. r\<lparr>callback_list := callback_list r @ [?cb]\<rparr>) y"
  have reg: "outstanding ?reg = add_mset (1, d) (outstanding y)"
    using outstanding_upd_row [OF i, of "\<lambda>r. r\<lparr>callback_list := callback_list r @ [?cb]\<rparr>" y] row_keys_sub [OF i, of y]
    by (simp add: cb_key_def row_keys_def [symmetric])
  have t: "\<not> trigger_cb_without_switch y" using assms(1) by (simp add: cbs_inv_def)
  note def = assms(2) [unfolded cam_sync_register_callback_def Let_def]
  show "r = Ok ()" using def assms(3,4) t by (auto split: if_splits)
  show "cb_calls z = cb_calls y" using def t by (auto split: if_splits)
  show "outstanding z = add_mset (1, d) (outstanding y)"
    using def assms(3,4) t reg by (auto split: if_splits simp: outstanding_def row_keys_def cb_key_def)
  show "row_keys z i = row_keys y i \<or> i = nat f \<and> row_keys z i = add_mset (1, d) (row_keys y i)"
    using def assms(3,4) t by (auto split: if_splits simp: row_keys_def cb_key_def)
  show st: "state (sync_table z i) = state (sync_table y i)" for i using def by (auto split: if_splits)
  show "bitmap z = bitmap y" using def by (auto split: if_splits)
  have "callback_list (sync_table z i) = []" if "state (sync_table z i) = CAM_SYNC_STATE_INVALID" for i
    using def assms(1,4) that unfolding cbs_inv_def by (auto split: if_splits)
  moreover have "trigger_cb_without_switch z = trigger_cb_without_switch y" using def by (auto split: if_splits)
  ultimately show "cbs_inv z" using si t by (simp add: cbs_inv_def)
qed

definition deregister :: "cb_key \<Rightarrow> int \<Rightarrow> sync_device \<Rightarrow> sync_device \<times> bool" where
  "deregister k f y = map_prod id (\<lambda>r. \<not> is_err r) (cam_sync_deregister_callback y (fst k) (snd k) f)"

definition armed :: "sync_device \<Rightarrow> int \<Rightarrow> cb_key multiset" where
  "armed y f = (if in_range f \<and> state (sync_table y (nat f)) \<noteq> CAM_SYNC_STATE_INVALID then row_keys y (nat f) else {#})"

lemma mset_filter_key: "image_mset cb_key {#x \<in># mset xs. callback_func x = fst k \<longrightarrow> cb_data x \<noteq> snd k#} =
    image_mset cb_key (mset xs) - replicate_mset (count (image_mset cb_key (mset xs)) k) k"
proof (induction xs)
  case (Cons x xs)
  have "cb_key x = k \<longleftrightarrow> callback_func x = fst k \<and> cb_data x = snd k" by (cases k) (simp add: cb_key_def)
  then show ?case using Cons by (auto simp: multiset_eq_iff)
qed simp

lemma deregister_row:
  assumes "in_range f" "state (sync_table y (nat f)) \<noteq> CAM_SYNC_STATE_INVALID"
  shows "row_keys (fst (deregister k f y)) i =
    (if i = nat f then row_keys y i - replicate_mset (count (row_keys y i) k) k else row_keys y i)"
  using assms by (auto simp: deregister_def cam_sync_deregister_callback_def Let_def row_keys_def mset_filter_key)

lemma deregister_state [simp]: "state (sync_table (fst (deregister k f y)) i) = state (sync_table y i)"
  by (simp add: deregister_def cam_sync_deregister_callback_def Let_def)

interpretation fences: fence_callbacks cbs_inv outstanding armed deregister "\<lambda>f st y. fst (cam_sync_signal y f st)"
proof unfold_locales
  fix y f show "armed y f \<subseteq># outstanding y"
    using row_keys_sub [of "nat f" y] by (auto simp: armed_def in_range_def)
next
  fix y :: sync_device and k f assume y: "cbs_inv y"
  show "cbs_inv (fst (deregister k f y))"
    using y same_core_inv [OF deregister_callback_same_core, of y "fst k" "snd k" f]
    by (auto simp: cbs_inv_def deregister_def cam_sync_deregister_callback_def Let_def split: if_splits)
next
  fix y :: sync_device and k f assume y: "cbs_inv y"
  show "outstanding (fst (deregister k f y)) = outstanding y - replicate_mset (count (armed y f) k) k"
  proof (cases "in_range f \<and> state (sync_table y (nat f)) \<noteq> CAM_SYNC_STATE_INVALID")
    case True
    then have i: "nat f < CAM_SYNC_MAX_OBJS" by (auto simp: in_range_def)
    have w: "work_queue (fst (deregister k f y)) = work_queue y"
      by (simp add: deregister_def cam_sync_deregister_callback_def Let_def)
    have "replicate_mset (count (row_keys y (nat f)) k) k \<subseteq># row_keys y (nat f)"
      by (simp add: count_le_replicate_mset_subset_eq [symmetric])
    then show ?thesis
      unfolding outstanding_split [OF i, of "fst (deregister k f y)"] outstanding_split [OF i, of y]
      using True by (simp add: deregister_row armed_def w subset_mset.add_diff_assoc2)
  qed (auto simp: armed_def deregister_def cam_sync_deregister_callback_def Let_def)
next
  fix y :: sync_device and k f g assume y: "cbs_inv y"
  show "armed (fst (deregister k f y)) g = (if g = f then armed y g - replicate_mset (count (armed y g) k) k else armed y g)"
  proof (cases "in_range f \<and> state (sync_table y (nat f)) \<noteq> CAM_SYNC_STATE_INVALID")
    case True
    then show ?thesis by (auto simp: armed_def deregister_row in_range_def)
  next
    case False
    then have "fst (deregister k f y) = y" by (auto simp: deregister_def cam_sync_deregister_callback_def Let_def)
    then show ?thesis using False by (auto simp: armed_def)
  qed
next
  fix y :: sync_device and k f assume "cbs_inv y"
  have "(\<exists>cb \<in> set xs. callback_func cb = fst k \<and> cb_data cb = snd k) \<longleftrightarrow> k \<in># image_mset cb_key (mset xs)" for xs
    by (cases k) (auto simp: cb_key_def image_iff)
  then show "snd (deregister k f y) = (k \<in># armed y f)"
    by (auto simp: armed_def deregister_def cam_sync_deregister_callback_def Let_def row_keys_def)
next
  fix y f st g assume y: "cbs_inv y"
  note m = moved_signal [OF cbs_inv_sync [OF y], of f st]
  show "outstanding (fst (cam_sync_signal y f st)) = outstanding y" using m by (simp add: moved_def)
  show "cbs_inv (fst (cam_sync_signal y f st))" by (rule cbs_inv_signal [OF y])
  show "armed (fst (cam_sync_signal y f st)) g \<subseteq># armed y g"
  proof (cases "in_range g \<and> state (sync_table y (nat g)) \<noteq> CAM_SYNC_STATE_INVALID")
    case False
    then show ?thesis using moved_row_keys [OF m, of "nat g"] y by (auto simp: armed_def row_keys_def cbs_inv_def)
  qed (use moved_row_keys [OF m, of "nat g"] in \<open>auto simp: armed_def\<close>)
qed

end
