(* ===== verification/Cam_Ctx_Inv.thy ===== *)
theory Cam_Ctx_Inv
  imports Cam_Ctx_Cbs
begin

text \<open>
  The invariant of the context framework. A request of a context is on exactly one of its lists or, flushed, on its way
  back; as long as it waits for input fences, the callbacks it has seen and those outstanding add up to its fences; the
  references to a context are one for its user and one for every callback outstanding for its requests.

  \<open>ctx_inv Z W H e\<close> is the invariant in the middle of an operation: the requests \<open>H\<close> are in its hands and on no list, those
  of \<open>W\<close> among them still wait, those of \<open>Z\<close> may have seen their last callback, and it holds \<open>e c\<close> references to the
  context \<open>c\<close>. The file has one lemma for each thing an operation does to a request.
\<close>

definition pool :: "cam_context \<Rightarrow> nat set" where
  "pool x = {cx_base x..<cx_base x + cx_size x}"

abbreviation key :: "nat \<Rightarrow> cb_key" where
  "key r \<equiv> (sync_cb, Suc r)"

definition cbs :: "ctx_sys \<Rightarrow> nat \<Rightarrow> nat" where
  "cbs s r = count (outstanding (sy s)) (key r)"

definition ctx_cbs :: "ctx_sys \<Rightarrow> nat \<Rightarrow> nat" where
  "ctx_cbs s c = size {#k \<in># outstanding (sy s). \<exists>r \<in> pool (ctxs s c). k = key r#}"

definition flying :: "ctx_sys \<Rightarrow> nat \<Rightarrow> nat \<Rightarrow> bool" where
  "flying s c r \<longleftrightarrow> rq_ctx (reqs s r) = Some c \<and> rq_flushed (reqs s r)"

definition own :: "cam_context \<Rightarrow> nat" where
  "own x = (if cx_state x = CAM_CTX_UNINIT \<or> cx_state x = CAM_CTX_AVAILABLE then 0 else 1)"

definition on_lists :: "cam_context \<Rightarrow> nat list" where
  "on_lists x = cx_active x @ cx_pending x @ cx_free x"

definition counted :: "nat set \<Rightarrow> ctx_sys \<Rightarrow> nat \<Rightarrow> bool" where
  "counted Z s r \<longleftrightarrow> rq_acked (reqs s r) + cbs s r = length (rq_in (reqs s r)) \<and> (r \<in> Z \<or> 0 < cbs s r) \<and>
     (\<forall>i. count (row_keys (sy s) i) (key r) \<le> 1 \<and> (0 < count (row_keys (sy s) i) (key r) \<longrightarrow> int i \<in> set (rq_in (reqs s r))))"

definition req_ok :: "nat set \<Rightarrow> nat set \<Rightarrow> ctx_sys \<Rightarrow> nat \<Rightarrow> bool" where
  "req_ok Z W s r \<longleftrightarrow>
     (case rq_ctx (reqs s r) of
        None \<Rightarrow> cbs s r = 0 \<and> r \<notin> W
      | Some c \<Rightarrow> c < ctx_size s \<and> r \<in> pool (ctxs s c) \<and>
          (if r \<in> set (cx_pending (ctxs s c)) \<or> rq_flushed (reqs s r) \<or> r \<in> W then counted Z s r else cbs s r = 0))"

definition lists_ok :: "nat set \<Rightarrow> ctx_sys \<Rightarrow> nat \<Rightarrow> bool" where
  "lists_ok H s c \<longleftrightarrow>
     cx_wait (ctxs s c) = [] \<and> distinct (on_lists (ctxs s c)) \<and>
     (\<forall>r \<in> set (on_lists (ctxs s c)). r \<in> pool (ctxs s c) \<and> r \<notin> H \<and> \<not> flying s c r) \<and>
     (\<forall>r \<in> set (cx_active (ctxs s c)) \<union> set (cx_pending (ctxs s c)). rq_ctx (reqs s r) = Some c) \<and>
     (\<forall>r \<in> pool (ctxs s c). r \<in> set (on_lists (ctxs s c)) \<or> r \<in> H \<or> flying s c r)"

definition refs_ok :: "(nat \<Rightarrow> nat) \<Rightarrow> ctx_sys \<Rightarrow> nat \<Rightarrow> bool" where
  "refs_ok e s c \<longleftrightarrow> cx_refs (ctxs s c) = own (ctxs s c) + ctx_cbs s c + e c"

definition pools_ok :: "ctx_sys \<Rightarrow> bool" where
  "pools_ok s \<longleftrightarrow> (\<forall>c<ctx_size s. cx_intf (ctxs s c)) \<and> (\<forall>c<ctx_size s. \<forall>d<ctx_size s. c \<noteq> d \<longrightarrow> pool (ctxs s c) \<inter> pool (ctxs s d) = {})"

definition free_ok :: "ctx_sys \<Rightarrow> bool" where
  "free_ok s \<longleftrightarrow> distinct (free_ctx_list s) \<and> (\<forall>c. c \<in> set (free_ctx_list s) \<longleftrightarrow> c < ctx_size s \<and> cx_refs (ctxs s c) = 0)"

definition ctx_inv :: "nat set \<Rightarrow> nat set \<Rightarrow> nat set \<Rightarrow> (nat \<Rightarrow> nat) \<Rightarrow> ctx_sys \<Rightarrow> bool" where
  "ctx_inv Z W H e s \<longleftrightarrow> cbs_inv (sy s) \<and> \<not> corrupt s \<and> (\<forall>r. req_ok Z W s r) \<and>
     (\<forall>c<ctx_size s. lists_ok H s c \<and> refs_ok e s c) \<and> pools_ok s \<and> free_ok s"

abbreviation ctx_ok :: "ctx_sys \<Rightarrow> bool" where
  "ctx_ok s \<equiv> ctx_inv {} {} {} (\<lambda>_. 0) s"

lemma pool_upd [simp]:
  "pool (x\<lparr>cx_active := l\<rparr>) = pool x" "pool (x\<lparr>cx_pending := l\<rparr>) = pool x" "pool (x\<lparr>cx_wait := l\<rparr>) = pool x"
  "pool (x\<lparr>cx_free := l\<rparr>) = pool x" "pool (x\<lparr>cx_refs := n\<rparr>) = pool x" "pool (x\<lparr>cx_state := st\<rparr>) = pool x"
  "pool (x\<lparr>cx_last_flush := v\<rparr>) = pool x"
  by (simp_all add: pool_def)

lemma own_upd [simp]:
  "own (x\<lparr>cx_active := l\<rparr>) = own x" "own (x\<lparr>cx_pending := l\<rparr>) = own x" "own (x\<lparr>cx_wait := l\<rparr>) = own x"
  "own (x\<lparr>cx_free := l\<rparr>) = own x" "own (x\<lparr>cx_refs := n\<rparr>) = own x" "own (x\<lparr>cx_last_flush := v\<rparr>) = own x"
  by (simp_all add: own_def)

lemma ctx_invD:
  assumes "ctx_inv Z W H e s"
  shows "cbs_inv (sy s)" "\<not> corrupt s" "req_ok Z W s r" "c < ctx_size s \<Longrightarrow> lists_ok H s c" "c < ctx_size s \<Longrightarrow> refs_ok e s c"
    "pools_ok s" "free_ok s"
  using assms by (simp_all add: ctx_inv_def)

lemma ctx_invI:
  assumes "cbs_inv (sy s)" "\<not> corrupt s" "\<And>r. req_ok Z W s r" "\<And>c. c < ctx_size s \<Longrightarrow> lists_ok H s c"
    "\<And>c. c < ctx_size s \<Longrightarrow> refs_ok e s c" "pools_ok s" "free_ok s"
  shows "ctx_inv Z W H e s"
  using assms by (simp add: ctx_inv_def)

subsection \<open>What the invariant reads\<close>

lemma upd_ctx_simps [simp]:
  "sy (upd_ctx c f s) = sy s" "mm (upd_ctx c f s) = mm s" "ht (upd_ctx c f s) = ht s" "bm (upd_ctx c f s) = bm s"
  "ctxs (upd_ctx c f s) = (ctxs s)(c := f (ctxs s c))" "reqs (upd_ctx c f s) = reqs s"
  "free_ctx_list (upd_ctx c f s) = free_ctx_list s" "ctx_size (upd_ctx c f s) = ctx_size s"
  "node_name (upd_ctx c f s) = node_name s" "hw_calls (upd_ctx c f s) = hw_calls s" "corrupt (upd_ctx c f s) = corrupt s"
  by (simp_all add: upd_ctx_def)

lemma upd_req_simps [simp]:
  "sy (upd_req r f s) = sy s" "mm (upd_req r f s) = mm s" "ht (upd_req r f s) = ht s" "bm (upd_req r f s) = bm s"
  "reqs (upd_req r f s) = (reqs s)(r := f (reqs s r))" "ctxs (upd_req r f s) = ctxs s"
  "free_ctx_list (upd_req r f s) = free_ctx_list s" "ctx_size (upd_req r f s) = ctx_size s"
  "node_name (upd_req r f s) = node_name s" "hw_calls (upd_req r f s) = hw_calls s" "corrupt (upd_req r f s) = corrupt s"
  by (simp_all add: upd_req_def)

lemma call_hw_simps [simp]:
  "sy (call_hw k s) = sy s" "mm (call_hw k s) = mm s" "ht (call_hw k s) = ht s" "bm (call_hw k s) = bm s"
  "reqs (call_hw k s) = reqs s" "ctxs (call_hw k s) = ctxs s" "free_ctx_list (call_hw k s) = free_ctx_list s"
  "ctx_size (call_hw k s) = ctx_size s" "node_name (call_hw k s) = node_name s" "corrupt (call_hw k s) = corrupt s"
  by (simp_all add: call_hw_def)

lemmas inv_parts = ctx_inv_def req_ok_def lists_ok_def refs_ok_def pools_ok_def free_ok_def flying_def cbs_def ctx_cbs_def counted_def

definition ctx_view :: "ctx_sys \<Rightarrow> sync_device \<times> bool \<times> (nat \<Rightarrow> cam_ctx_request) \<times> nat \<times> nat list" where
  "ctx_view s = (sy s, corrupt s, reqs s, ctx_size s, free_ctx_list s)"

definition list_view :: "cam_context \<Rightarrow> nat list \<times> nat list \<times> nat list \<times> nat list \<times> nat \<times> nat \<times> nat \<times> nat \<times> bool" where
  "list_view x = (cx_active x, cx_pending x, cx_wait x, cx_free x, cx_base x, cx_size x, cx_refs x, own x, cx_intf x)"

lemma ctx_inv_cong:
  assumes "ctx_view t = ctx_view s" "\<And>c. list_view (ctxs t c) = list_view (ctxs s c)"
  shows "ctx_inv Z W H e t = ctx_inv Z W H e s"
proof -
  have v: "sy t = sy s" "corrupt t = corrupt s" "reqs t = reqs s" "ctx_size t = ctx_size s" "free_ctx_list t = free_ctx_list s"
    using assms(1) by (simp_all add: ctx_view_def)
  have l: "cx_active (ctxs t c) = cx_active (ctxs s c)" "cx_pending (ctxs t c) = cx_pending (ctxs s c)"
    "cx_wait (ctxs t c) = cx_wait (ctxs s c)" "cx_free (ctxs t c) = cx_free (ctxs s c)" "pool (ctxs t c) = pool (ctxs s c)"
    "cx_refs (ctxs t c) = cx_refs (ctxs s c)" "own (ctxs t c) = own (ctxs s c)" "on_lists (ctxs t c) = on_lists (ctxs s c)"
    "cx_intf (ctxs t c) = cx_intf (ctxs s c)" for c
    using assms(2) [of c] by (simp_all add: list_view_def pool_def on_lists_def)
  show ?thesis unfolding inv_parts v l ..
qed

lemma ctx_inv_other [simp]:
  "ctx_inv Z W H e (call_hw k s) = ctx_inv Z W H e s" "ctx_inv Z W H e (s\<lparr>mm := m\<rparr>) = ctx_inv Z W H e s"
  "ctx_inv Z W H e (s\<lparr>ht := h\<rparr>) = ctx_inv Z W H e s" "ctx_inv Z W H e (s\<lparr>bm := b\<rparr>) = ctx_inv Z W H e s"
  by (rule ctx_inv_cong; simp add: ctx_view_def)+

lemma ctx_inv_upd_ctx:
  "list_view (f (ctxs s c)) = list_view (ctxs s c) \<Longrightarrow> ctx_inv Z W H e (upd_ctx c f s) = ctx_inv Z W H e s"
  by (rule ctx_inv_cong) (simp_all add: ctx_view_def)

text \<open>A request that an operation does not touch keeps its clause.\<close>

lemma counted_mono:
  assumes "counted Z s r" "reqs t r = reqs s r" "cbs t r = cbs s r" "r \<in> Z \<Longrightarrow> r \<in> Z'"
    "\<And>i. count (row_keys (sy t) i) (key r) \<le> count (row_keys (sy s) i) (key r)"
  shows "counted Z' t r"
proof -
  have "count (row_keys (sy t) i) (key r) \<le> 1 \<and> (0 < count (row_keys (sy t) i) (key r) \<longrightarrow> int i \<in> set (rq_in (reqs t r)))" for i
    using assms(1) assms(5) [of i] unfolding counted_def assms(2) by (meson le_trans less_le_trans)
  then show ?thesis using assms(1,4) unfolding counted_def assms(2,3) by auto
qed

lemma req_ok_cong:
  assumes "req_ok Z W s r" "reqs t r = reqs s r" "cbs t r = cbs s r" "\<And>i. count (row_keys (sy t) i) (key r) = count (row_keys (sy s) i) (key r)"
    "ctx_size t = ctx_size s" "\<And>c. pool (ctxs t c) = pool (ctxs s c)"
    "\<And>c. rq_ctx (reqs s r) = Some c \<Longrightarrow> r \<in> set (cx_pending (ctxs t c)) \<longleftrightarrow> r \<in> set (cx_pending (ctxs s c))"
    "r \<in> W' \<longleftrightarrow> r \<in> W" "r \<in> Z \<Longrightarrow> r \<in> Z'"
  shows "req_ok Z' W' t r"
proof -
  have "counted Z' t r" if "counted Z s r"
    by (rule counted_mono [OF that]) (use assms in auto)
  then show ?thesis using assms by (auto simp: req_ok_def split: option.splits)
qed

text \<open>A fence table in which callbacks have moved to the queue.\<close>

lemma ctx_inv_moved:
  assumes "ctx_inv Z W H e s" "moved (sy s) y" "cbs_inv y"
  shows "ctx_inv Z W H e (s\<lparr>sy := y\<rparr>)"
proof -
  have o: "outstanding y = outstanding (sy s)" using assms(2) by (simp add: moved_def)
  have c: "count (row_keys y i) (key r) \<le> count (row_keys (sy s) i) (key r)" for i r
    using moved_row_keys [OF assms(2), of i] by (rule mset_subset_eq_count)
  have "counted Z (s\<lparr>sy := y\<rparr>) r" if "counted Z s r" for r
    by (rule counted_mono [OF that]) (use c o in \<open>auto simp: cbs_def\<close>)
  then have "req_ok Z W (s\<lparr>sy := y\<rparr>) r" for r
    using ctx_invD(3) [OF assms(1), of r] by (auto simp: req_ok_def cbs_def o split: option.splits)
  then show ?thesis
    using assms by (auto simp: ctx_inv_def lists_ok_def flying_def refs_ok_def ctx_cbs_def o pools_ok_def free_ok_def)
qed

lemma ctx_inv_signal: "ctx_inv Z W H e s \<Longrightarrow> ctx_inv Z W H e (sys_signal st f s)"
  unfolding sys_signal_def
  by (rule ctx_inv_moved) (auto dest!: ctx_invD(1) intro: moved_signal cbs_inv_signal cbs_inv_sync)

lemma ctx_inv_signals: "ctx_inv Z W H e s \<Longrightarrow> ctx_inv Z W H e (fold (sys_signal st) fs s)"
  by (induction fs arbitrary: s) (auto intro: ctx_inv_signal)

lemma ctx_inv_signal_error: "ctx_inv Z W H e s \<Longrightarrow> ctx_inv Z W H e (signal_error_loop fs s)"
proof (induction fs arbitrary: s)
  case (Cons f fs)
  have "ctx_inv Z W H e (sys_signal CAM_SYNC_STATE_SIGNALED_ERROR f s)" by (rule ctx_inv_signal) (rule Cons.prems)
  then show ?case
    using Cons by (auto simp: sys_signal_def Let_def split: prod.split)
qed simp

subsection \<open>Taking a request off its list and putting it on another\<close>

lemma list_del_init_simps [simp]:
  "sy (list_del_init c r s) = sy s" "reqs (list_del_init c r s) = reqs s" "corrupt (list_del_init c r s) = corrupt s"
  "ctx_size (list_del_init c r s) = ctx_size s" "free_ctx_list (list_del_init c r s) = free_ctx_list s"
  "mm (list_del_init c r s) = mm s" "bm (list_del_init c r s) = bm s" "hw_calls (list_del_init c r s) = hw_calls s"
  "ht (list_del_init c r s) = ht s"
  "d \<noteq> c \<Longrightarrow> ctxs (list_del_init c r s) d = ctxs s d" "pool (ctxs (list_del_init c r s) d) = pool (ctxs s d)"
  "own (ctxs (list_del_init c r s) d) = own (ctxs s d)" "cx_refs (ctxs (list_del_init c r s) d) = cx_refs (ctxs s d)"
  "cx_intf (ctxs (list_del_init c r s) d) = cx_intf (ctxs s d)"
  by (simp_all add: list_del_init_def pool_def own_def)

definition add_simps_of :: "(nat \<Rightarrow> nat \<Rightarrow> ctx_sys \<Rightarrow> ctx_sys) \<Rightarrow> bool" where
  "add_simps_of add \<longleftrightarrow> (\<forall>c r s. sy (add c r s) = sy s \<and> reqs (add c r s) = reqs s \<and> ctx_size (add c r s) = ctx_size s \<and>
     free_ctx_list (add c r s) = free_ctx_list s \<and> corrupt (add c r s) = (corrupt s \<or> r \<in> linked_in (ctxs s c)) \<and>
     (\<forall>d. pool (ctxs (add c r s) d) = pool (ctxs s d) \<and> own (ctxs (add c r s) d) = own (ctxs s d) \<and>
        cx_refs (ctxs (add c r s) d) = cx_refs (ctxs s d) \<and> cx_intf (ctxs (add c r s) d) = cx_intf (ctxs s d) \<and> (d \<noteq> c \<longrightarrow> ctxs (add c r s) d = ctxs s d)))"

lemma add_list: "add_simps_of add_active" "add_simps_of add_pending" "add_simps_of add_free"
  by (simp_all add: add_simps_of_def add_active_def add_pending_def add_free_def mark_corrupt_def pool_def own_def)

lemma refs_ok_cong:
  "sy t = sy s \<Longrightarrow> pool (ctxs t c) = pool (ctxs s c) \<Longrightarrow> own (ctxs t c) = own (ctxs s c) \<Longrightarrow> cx_refs (ctxs t c) = cx_refs (ctxs s c) \<Longrightarrow>
     refs_ok e t c = refs_ok e s c"
  by (simp add: refs_ok_def ctx_cbs_def)

lemma hand_unlinked:
  assumes "ctx_inv Z W H e s" "c < ctx_size s" "r \<in> H"
  shows "r \<notin> linked_in (ctxs s c)"
  using ctx_invD(4) [OF assms(1,2)] assms(3) by (auto simp: lists_ok_def linked_in_def on_lists_def)

text \<open>Where the lists of one context change and \<open>r\<close> is the only request affected.\<close>

lemma ctx_inv_step:
  assumes inv: "ctx_inv Z W H e s" and c: "c < ctx_size s" "r \<in> pool (ctxs s c)"
    and same: "sy t = sy s" "corrupt t = corrupt s" "ctx_size t = ctx_size s" "free_ctx_list t = free_ctx_list s"
    and reqs: "\<And>q. q \<noteq> r \<Longrightarrow> reqs t q = reqs s q"
    and view: "\<And>d. pool (ctxs t d) = pool (ctxs s d) \<and> own (ctxs t d) = own (ctxs s d) \<and> cx_refs (ctxs t d) = cx_refs (ctxs s d) \<and>
        cx_intf (ctxs t d) = cx_intf (ctxs s d)"
    and other: "\<And>d. d \<noteq> c \<Longrightarrow> list_view (ctxs t d) = list_view (ctxs s d)"
    and pend: "\<And>q. q \<noteq> r \<Longrightarrow> q \<in> set (cx_pending (ctxs t c)) \<longleftrightarrow> q \<in> set (cx_pending (ctxs s c))"
    and sets: "W' - {r} = W - {r}" "Z - {r} \<subseteq> Z'" "H' - {r} = H - {r}"
    and r: "req_ok Z' W' t r" "lists_ok H' t c"
  shows "ctx_inv Z' W' H' e t"
proof (rule ctx_invI)
  show "cbs_inv (sy t)" "\<not> corrupt t" using ctx_invD(1,2) [OF inv] same by simp_all
  have cb: "cbs t q = cbs s q" for q by (simp add: cbs_def same)
  have pd: "q \<in> set (cx_pending (ctxs t d)) \<longleftrightarrow> q \<in> set (cx_pending (ctxs s d))" if "q \<noteq> r" for q d
    using pend [OF that] other [of d] by (cases "d = c") (auto simp: list_view_def)
  show "req_ok Z' W' t q" for q
  proof (cases "q = r")
    case False
    have "req_ok Z W s q" by (rule ctx_invD(3) [OF inv])
    then show ?thesis
      by (rule req_ok_cong) (use False reqs cb same view pd sets in auto)
  qed (use r in simp)
  show "lists_ok H' t d" if "d < ctx_size t" for d
  proof (cases "d = c")
    case False
    then have d: "d < ctx_size s" "r \<notin> pool (ctxs s d)"
      using that same c ctx_invD(6) [OF inv] by (auto simp: pools_ok_def)
    have l: "on_lists (ctxs t d) = on_lists (ctxs s d)" "cx_wait (ctxs t d) = cx_wait (ctxs s d)" "cx_active (ctxs t d) = cx_active (ctxs s d)"
      "cx_pending (ctxs t d) = cx_pending (ctxs s d)" "pool (ctxs t d) = pool (ctxs s d)"
      using other [OF False] view [of d] by (simp_all add: list_view_def on_lists_def)
    have q: "reqs t q = reqs s q \<and> (q \<in> H' \<longleftrightarrow> q \<in> H)" if "q \<in> pool (ctxs s d)" for q
    proof -
      have "q \<noteq> r" using that d(2) by blast
      then show ?thesis using reqs [of q] sets(3) by blast
    qed
    have lo: "lists_ok H s d" by (rule ctx_invD(4) [OF inv d(1)])
    then have sub: "set (on_lists (ctxs s d)) \<subseteq> pool (ctxs s d)" by (auto simp: lists_ok_def)
    then have sub2: "set (cx_active (ctxs s d)) \<union> set (cx_pending (ctxs s d)) \<subseteq> pool (ctxs s d)" by (auto simp: on_lists_def)
    show ?thesis using lo unfolding lists_ok_def l flying_def
      by (simp add: q subsetD [OF sub] subsetD [OF sub2] del: Un_iff cong: ball_cong)
  qed (use r in simp)
  show "refs_ok e t d" if "d < ctx_size t" for d
    using refs_ok_cong [of t s d e] ctx_invD(5) [OF inv, of d] that same view [of d] by simp
  show "pools_ok t" "free_ok t" using ctx_invD(6,7) [OF inv] same view by (simp_all add: pools_ok_def free_ok_def)
qed

end
