(* ===== verification/Cam_Ctx_Move.thy ===== *)
theory Cam_Ctx_Move
  imports Cam_Ctx_Inv
begin

text \<open>
  Requests that move between the lists of a context, references that come and go, and a callback that leaves the queue of
  the worker: each move keeps the invariant, with the request or the reference in the hands of the operation.
\<close>

lemma lists_okD:
  assumes "ctx_inv Z W H e s" "c < ctx_size s"
  shows "cx_wait (ctxs s c) = []" "distinct (cx_active (ctxs s c))" "distinct (cx_pending (ctxs s c))" "distinct (cx_free (ctxs s c))"
    "set (cx_active (ctxs s c)) \<inter> set (cx_pending (ctxs s c)) = {}" "set (cx_active (ctxs s c)) \<inter> set (cx_free (ctxs s c)) = {}"
    "set (cx_pending (ctxs s c)) \<inter> set (cx_free (ctxs s c)) = {}"
    "r \<in> set (cx_active (ctxs s c)) \<Longrightarrow> rq_ctx (reqs s r) = Some c" "r \<in> set (cx_pending (ctxs s c)) \<Longrightarrow> rq_ctx (reqs s r) = Some c"
    "r \<in> set (on_lists (ctxs s c)) \<Longrightarrow> r \<in> pool (ctxs s c) \<and> r \<notin> H \<and> \<not> flying s c r"
    "r \<in> pool (ctxs s c) \<Longrightarrow> r \<in> set (on_lists (ctxs s c)) \<or> r \<in> H \<or> flying s c r"
  using ctx_invD(4) [OF assms] by (auto simp: lists_ok_def on_lists_def)

lemma ctx_lists_del:
  "cx_active (ctxs (list_del_init c r s) c) = removeAll r (cx_active (ctxs s c))"
  "cx_pending (ctxs (list_del_init c r s) c) = removeAll r (cx_pending (ctxs s c))"
  "cx_wait (ctxs (list_del_init c r s) c) = removeAll r (cx_wait (ctxs s c))"
  "cx_free (ctxs (list_del_init c r s) c) = removeAll r (cx_free (ctxs s c))"
  by (simp_all add: list_del_init_def)

lemma lists_ok_del:
  assumes "ctx_inv Z W H e s" "c < ctx_size s" "r \<in> set (on_lists (ctxs s c))"
  shows "lists_ok (insert r H) (list_del_init c r s) c"
  using ctx_invD(4) [OF assms(1,2)] assms(3) unfolding lists_ok_def on_lists_def flying_def
  by (auto simp: ctx_lists_del distinct_removeAll)

lemma del_other [simp]: "d \<noteq> c \<Longrightarrow> list_view (ctxs (list_del_init c r s) d) = list_view (ctxs s d)"
  by simp

lemma del_hand:
  assumes "ctx_inv Z W H e s" "c < ctx_size s" "r \<in> set (cx_active (ctxs s c)) \<union> set (cx_free (ctxs s c))"
  shows "ctx_inv Z W (insert r H) e (list_del_init c r s)"
proof (rule ctx_inv_step [OF assms(1,2), of r])
  have r: "r \<in> set (on_lists (ctxs s c))" "r \<notin> set (cx_pending (ctxs s c))"
    using assms(3) lists_okD(5,7) [OF assms(1,2)] by (auto simp: on_lists_def)
  show "r \<in> pool (ctxs s c)" using lists_okD(10) [OF assms(1,2) r(1)] by simp
  show "lists_ok (insert r H) (list_del_init c r s) c" by (rule lists_ok_del [OF assms(1,2) r(1)])
  have "r \<notin> set (cx_pending (ctxs s d)) \<and> r \<notin> set (cx_pending (ctxs (list_del_init c r s) d)) \<or> d \<noteq> c" for d
    using r(2) by (auto simp: ctx_lists_del)
  then show "req_ok Z W (list_del_init c r s) r"
    by (intro req_ok_cong [OF ctx_invD(3) [OF assms(1)]]) (auto simp: cbs_def ctx_lists_del, metis list_del_init_simps(10), metis list_del_init_simps(10))
qed (auto simp: ctx_lists_del)

lemma del_pending:
  assumes "ctx_inv Z W H e s" "c < ctx_size s" "r \<in> set (cx_pending (ctxs s c))"
  shows "ctx_inv Z (insert r W) (insert r H) e (list_del_init c r s)"
proof (rule ctx_inv_step [OF assms(1,2), of r])
  have r: "r \<in> set (on_lists (ctxs s c))" using assms(3) by (simp add: on_lists_def)
  show "r \<in> pool (ctxs s c)" using lists_okD(10) [OF assms(1,2) r] by simp
  show "lists_ok (insert r H) (list_del_init c r s) c" by (rule lists_ok_del [OF assms(1,2) r])
  have "counted Z s r" using ctx_invD(3) [OF assms(1), of r] assms(3) lists_okD(9) [OF assms(1,2,3)] by (simp add: req_ok_def)
  then have "counted Z (list_del_init c r s) r" by (rule counted_mono) (simp_all add: cbs_def)
  then show "req_ok Z (insert r W) (list_del_init c r s) r"
    using ctx_invD(3) [OF assms(1), of r] lists_okD(9) [OF assms(1-3)] by (simp add: req_ok_def)
qed (auto simp: ctx_lists_del)

text \<open>Commuting with changes of a request.\<close>

lemma add_free_upd_req: "add_free c r (upd_req q f s) = upd_req q f (add_free c r s)"
  by (simp add: add_free_def mark_corrupt_def upd_ctx_def upd_req_def)

lemma list_del_upd_req: "list_del_init c r (upd_req q f s) = upd_req q f (list_del_init c r s)"
  by (simp add: list_del_init_def upd_ctx_def upd_req_def)

lemma add_free_lists:
  "cx_free (ctxs (add_free c r s) c) = cx_free (ctxs s c) @ [r]" "cx_active (ctxs (add_free c r s) d) = cx_active (ctxs s d)"
  "cx_pending (ctxs (add_free c r s) d) = cx_pending (ctxs s d)" "cx_wait (ctxs (add_free c r s) d) = cx_wait (ctxs s d)"
  by (simp_all add: add_free_def mark_corrupt_def)

lemma add_active_lists:
  "cx_active (ctxs (add_active c r s) c) = cx_active (ctxs s c) @ [r]" "cx_free (ctxs (add_active c r s) d) = cx_free (ctxs s d)"
  "cx_pending (ctxs (add_active c r s) d) = cx_pending (ctxs s d)" "cx_wait (ctxs (add_active c r s) d) = cx_wait (ctxs s d)"
  by (simp_all add: add_active_def mark_corrupt_def)

lemma add_simps:
  assumes "add_simps_of add"
  shows "sy (add c r s) = sy s" "reqs (add c r s) = reqs s" "ctx_size (add c r s) = ctx_size s"
    "free_ctx_list (add c r s) = free_ctx_list s" "corrupt (add c r s) = (corrupt s \<or> r \<in> linked_in (ctxs s c))"
    "pool (ctxs (add c r s) d) = pool (ctxs s d)" "own (ctxs (add c r s) d) = own (ctxs s d)"
    "cx_refs (ctxs (add c r s) d) = cx_refs (ctxs s d)" "cx_intf (ctxs (add c r s) d) = cx_intf (ctxs s d)" "d \<noteq> c \<Longrightarrow> ctxs (add c r s) d = ctxs s d"
  using assms unfolding add_simps_of_def by blast+

lemmas add_free_simps [simp] = add_simps [OF add_list(3)]
lemmas add_active_simps [simp] = add_simps [OF add_list(1)]
lemmas add_pending_simps [simp] = add_simps [OF add_list(2)]

text \<open>A request in the hands of an operation that nobody calls back any more goes to the free list.\<close>

lemma put_free:
  assumes inv: "ctx_inv Z W H e s" and c: "c < ctx_size s" "r \<in> pool (ctxs s c)" "r \<in> H" and k: "cbs s r = 0"
    and f: "rq_ctx (f (reqs s r)) = None \<or> rq_ctx (f (reqs s r)) = Some c \<and> \<not> rq_flushed (f (reqs s r))"
  shows "ctx_inv Z (W - {r}) (H - {r}) e (upd_req r f (add_free c r s))"
proof (rule ctx_inv_step [OF inv c(1,2)])
  have u: "r \<notin> linked_in (ctxs s c)" by (rule hand_unlinked [OF inv c(1,3)])
  then have np: "r \<notin> set (cx_pending (ctxs s c))" by (simp add: linked_in_def)
  show "corrupt (upd_req r f (add_free c r s)) = corrupt s" using u by simp
  show "req_ok Z (W - {r}) (upd_req r f (add_free c r s)) r"
    using f c np k by (auto simp: req_ok_def cbs_def add_free_lists)
  show "lists_ok (H - {r}) (upd_req r f (add_free c r s)) c"
    using ctx_invD(4) [OF inv c(1)] u f c(2) unfolding lists_ok_def on_lists_def flying_def
    by (auto simp: add_free_lists linked_in_def)
qed (auto simp: add_free_lists list_view_def)

lemma put_active:
  assumes inv: "ctx_inv Z W H e s" and c: "c < ctx_size s" "r \<in> pool (ctxs s c)" "r \<in> H" and k: "cbs s r = 0"
    and f: "rq_ctx (reqs s r) = Some c" "\<not> rq_flushed (reqs s r)"
  shows "ctx_inv Z (W - {r}) (H - {r}) e (add_active c r s)"
proof (rule ctx_inv_step [OF inv c(1,2)])
  have u: "r \<notin> linked_in (ctxs s c)" by (rule hand_unlinked [OF inv c(1,3)])
  then have np: "r \<notin> set (cx_pending (ctxs s c))" by (simp add: linked_in_def)
  show "corrupt (add_active c r s) = corrupt s" using u by simp
  show "req_ok Z (W - {r}) (add_active c r s) r"
    using f c np k by (auto simp: req_ok_def cbs_def add_active_lists)
  show "lists_ok (H - {r}) (add_active c r s) c"
    using ctx_invD(4) [OF inv c(1)] u f c(2) unfolding lists_ok_def on_lists_def flying_def
    by (auto simp: add_active_lists linked_in_def)
qed (auto simp: add_active_lists list_view_def)

lemma mark_flushed:
  assumes inv: "ctx_inv Z W H e s" and c: "c < ctx_size s" "r \<in> pool (ctxs s c)" "r \<in> H" "r \<in> W" "rq_ctx (reqs s r) = Some c"
  shows "ctx_inv Z (W - {r}) (H - {r}) e (upd_req r (\<lambda>q. q\<lparr>rq_flushed := True\<rparr>) s)"
proof (rule ctx_inv_step [OF inv c(1,2)])
  have u: "r \<notin> linked_in (ctxs s c)" by (rule hand_unlinked [OF inv c(1,3)])
  have "counted Z s r" using ctx_invD(3) [OF inv, of r] c by (simp add: req_ok_def)
  then show "req_ok Z (W - {r}) (upd_req r (\<lambda>q. q\<lparr>rq_flushed := True\<rparr>) s) r"
    using c by (auto simp: req_ok_def cbs_def counted_def)
  show "lists_ok (H - {r}) (upd_req r (\<lambda>q. q\<lparr>rq_flushed := True\<rparr>) s) c"
    using ctx_invD(4) [OF inv c(1)] u c unfolding lists_ok_def on_lists_def flying_def
    by (auto simp: linked_in_def)
qed auto

text \<open>A flushed request that has seen its last callback goes to the free list.\<close>

lemma land:
  assumes inv: "ctx_inv Z W H e s" and c: "c < ctx_size s" "flying s c r" and k: "cbs s r = 0" and w: "r \<notin> W" "r \<notin> H"
    and f: "rq_ctx (f (reqs s r)) = None"
  shows "ctx_inv Z W H e (add_free c r (upd_req r f s))" (is "ctx_inv Z W H e ?t")
proof -
  have p: "r \<in> pool (ctxs s c)" using ctx_invD(3) [OF inv, of r] c(2) by (simp add: req_ok_def flying_def)
  have nl: "r \<notin> set (on_lists (ctxs s c))" using lists_okD(10) [OF inv c(1), of r] c(2) by blast
  have u: "r \<notin> linked_in (ctxs s c)" using nl lists_okD(1) [OF inv c(1)] by (auto simp: linked_in_def on_lists_def)
  show ?thesis
  proof (rule ctx_inv_step [OF inv c(1) p])
    show "corrupt ?t = corrupt s" using u by simp
    show "req_ok Z W ?t r" using f k w by (simp add: req_ok_def cbs_def)
    show "lists_ok H ?t c"
      using ctx_invD(4) [OF inv c(1)] nl f p u w unfolding lists_ok_def on_lists_def flying_def
      by (auto simp: add_free_lists linked_in_def)
  qed (auto simp: add_free_lists list_view_def)
qed

subsection \<open>References\<close>

lemma putref_simps [simp]:
  "sy (cam_context_putref c s) = sy s" "reqs (cam_context_putref c s) = reqs s" "corrupt (cam_context_putref c s) = corrupt s"
  "ctx_size (cam_context_putref c s) = ctx_size s" "pool (ctxs (cam_context_putref c s) d) = pool (ctxs s d)"
  "own (ctxs (cam_context_putref c s) d) = own (ctxs s d)" "cx_active (ctxs (cam_context_putref c s) d) = cx_active (ctxs s d)"
  "cx_pending (ctxs (cam_context_putref c s) d) = cx_pending (ctxs s d)" "cx_wait (ctxs (cam_context_putref c s) d) = cx_wait (ctxs s d)"
  "cx_free (ctxs (cam_context_putref c s) d) = cx_free (ctxs s d)" "on_lists (ctxs (cam_context_putref c s) d) = on_lists (ctxs s d)"
  "cx_state (ctxs (cam_context_putref c s) d) = cx_state (ctxs s d)" "cx_machine (ctxs (cam_context_putref c s) d) = cx_machine (ctxs s d)"
  "cx_intf (ctxs (cam_context_putref c s) d) = cx_intf (ctxs s d)"
  "cx_refs (ctxs (cam_context_putref c s) d) = (if d = c then cx_refs (ctxs s d) - 1 else cx_refs (ctxs s d))"
  by (simp_all add: cam_context_putref_def cam_node_put_ctxt_to_free_list_def Let_def pool_def own_def on_lists_def)

lemma free_ok_putref:
  "free_ok s \<Longrightarrow> c < ctx_size s \<Longrightarrow> 0 < cx_refs (ctxs s c) \<Longrightarrow> free_ok (cam_context_putref c s)"
  by (auto simp: free_ok_def cam_context_putref_def cam_node_put_ctxt_to_free_list_def Let_def)

lemma putref_inv:
  assumes inv: "ctx_inv Z W H e s" and c: "c < ctx_size s" "e c = Suc n"
  shows "ctx_inv Z W H (e(c := n)) (cam_context_putref c s)"
proof (rule ctx_invI)
  have pos: "0 < cx_refs (ctxs s c)" using ctx_invD(5) [OF inv c(1)] c(2) by (simp add: refs_ok_def)
  show "free_ok (cam_context_putref c s)" by (rule free_ok_putref [OF ctx_invD(7) [OF inv] c(1) pos])
  show "req_ok Z W (cam_context_putref c s) r" for r
    by (rule req_ok_cong [OF ctx_invD(3) [OF inv]]) (simp_all add: cbs_def)
  show "lists_ok H (cam_context_putref c s) d" if "d < ctx_size (cam_context_putref c s)" for d
    using ctx_invD(4) [OF inv, of d] that by (simp add: lists_ok_def flying_def)
  show "refs_ok (e(c := n)) (cam_context_putref c s) d" if "d < ctx_size (cam_context_putref c s)" for d
    using ctx_invD(5) [OF inv, of d] that c by (auto simp: refs_ok_def ctx_cbs_def)
  show "pools_ok (cam_context_putref c s)" using ctx_invD(6) [OF inv] by (simp add: pools_ok_def)
qed (use ctx_invD(1,2) [OF inv] in simp_all)

text \<open>One callback of \<open>r\<close> less is outstanding: its reference to the context is in the hands of the operation.\<close>

lemma ctx_cbs_less:
  assumes o: "outstanding (sy s) = add_mset (key r) (outstanding y)" and pools: "pools_ok s" and c: "c < ctx_size s" "r \<in> pool (ctxs s c)"
    and d: "d < ctx_size s"
  shows "ctx_cbs s d = ctx_cbs (s\<lparr>sy := y\<rparr>) d + (if d = c then 1 else 0)"
proof -
  have "d \<noteq> c \<Longrightarrow> r \<notin> pool (ctxs s d)" using pools c d by (auto simp: pools_ok_def)
  then show ?thesis using c by (auto simp: ctx_cbs_def o)
qed

lemma callback_taken:
  assumes inv: "ctx_inv Z W H e s" and c: "c < ctx_size s" "rq_ctx (reqs s r) = Some c"
    and y: "cbs_inv y" "outstanding (sy s) = add_mset (key r) (outstanding y)" "\<And>i. row_keys y i \<subseteq># row_keys (sy s) i"
  shows "ctx_inv (insert r Z) W H (e(c := Suc (e c))) (upd_req r (\<lambda>q. q\<lparr>rq_acked := rq_acked q + 1\<rparr>) (s\<lparr>sy := y\<rparr>))"
    (is "ctx_inv _ _ _ ?e ?t")
proof (rule ctx_invI)
  have ok: "req_ok Z W s r" by (rule ctx_invD(3) [OF inv])
  have k: "0 < cbs s r" using y(2) by (simp add: cbs_def)
  have p: "r \<in> pool (ctxs s c)" using ok c by (simp add: req_ok_def)
  have ct: "counted Z s r" and w: "r \<in> set (cx_pending (ctxs s c)) \<or> rq_flushed (reqs s r) \<or> r \<in> W"
    using ok c k by (auto simp: req_ok_def split: if_splits)
  have cnt: "count (row_keys y i) x \<le> count (row_keys (sy s) i) x" for i x using y(3) by (rule mset_subset_eq_count)
  have cb: "cbs s q = cbs (s\<lparr>sy := y\<rparr>) q + (if q = r then 1 else 0)" for q using y(2) by (simp add: cbs_def)
  show "cbs_inv (sy ?t)" "\<not> corrupt ?t" using y(1) ctx_invD(2) [OF inv] by simp_all
  have fl: "flying ?t d q = flying s d q" for d q by (simp add: flying_def)
  have same: "ctxs ?t = ctxs s" "ctx_size ?t = ctx_size s" by simp_all
  show "lists_ok H ?t d" if "d < ctx_size ?t" for d
    using ctx_invD(4) [OF inv, of d] that unfolding lists_ok_def fl same by simp
  show "refs_ok ?e ?t d" if "d < ctx_size ?t" for d
    using ctx_invD(5) [OF inv, of d] ctx_cbs_less [OF y(2) ctx_invD(6) [OF inv] c(1) p, of d] that
    by (auto simp: refs_ok_def ctx_cbs_def)
  show "pools_ok ?t" "free_ok ?t" using ctx_invD(6,7) [OF inv] by (simp_all add: pools_ok_def free_ok_def)
  show "req_ok (insert r Z) W ?t q" for q
  proof (cases "q = r")
    case True
    have "count (row_keys y i) (key r) \<le> 1 \<and> (0 < count (row_keys y i) (key r) \<longrightarrow> int i \<in> set (rq_in (reqs s r)))" for i
      using ct cnt [of i "key r"] unfolding counted_def by (meson le_trans less_le_trans)
    then have "counted (insert r Z) ?t r" using ct cb [of r] by (simp add: counted_def cbs_def)
    then show ?thesis using True c p w by (auto simp: req_ok_def)
  next
    case False
    have r: "reqs ?t q = reqs s q" "cbs ?t q = cbs s q" using False cb [of q] by (simp_all add: cbs_def)
    have "counted (insert r Z) ?t q" if "counted Z s q"
      by (rule counted_mono [OF that r]) (use cnt in simp_all)
    then show ?thesis using ctx_invD(3) [OF inv, of q] False r by (auto simp: req_ok_def split: option.splits)
  qed
qed

end
