(* ===== verification/Cam_Ctx_Ops.thy ===== *)
theory Cam_Ctx_Ops
  imports Cam_Ctx_Move
begin

text \<open>The operations of the context framework keep the invariant.\<close>

lemma putref_upd_req: "cam_context_putref c (upd_req r f s) = upd_req r f (cam_context_putref c s)"
  by (simp add: cam_context_putref_def cam_node_put_ctxt_to_free_list_def upd_req_def upd_ctx_def Let_def)

lemma callback_list_self: "r\<lparr>callback_list := callback_list r\<rparr> = r"
  by (cases r) simp

lemma deregister_missing:
  assumes "\<not> snd (deregister k f y)"
  shows "fst (deregister k f y) = y"
proof -
  have "filter (\<lambda>cb. \<not> (callback_func cb = fst k \<and> cb_data cb = snd k)) xs = xs"
    if "\<not> (\<exists>cb \<in> set xs. callback_func cb = fst k \<and> cb_data cb = snd k)" for xs
    using that by (induction xs) auto
  then show ?thesis
    using assms by (auto simp: deregister_def cam_sync_deregister_callback_def Let_def upd_row_def callback_list_self split: if_splits)
qed

lemma deregister_row_sub: "row_keys (fst (deregister k f y)) i \<subseteq># row_keys y i"
proof (cases "in_range f \<and> state (sync_table y (nat f)) \<noteq> CAM_SYNC_STATE_INVALID")
  case False
  then have "fst (deregister k f y) = y" by (auto simp: deregister_def cam_sync_deregister_callback_def Let_def)
  then show ?thesis by simp
qed (simp add: deregister_row)

definition same_but :: "nat \<Rightarrow> ctx_sys \<Rightarrow> ctx_sys \<Rightarrow> bool" where
  "same_but r s t \<longleftrightarrow> ctx_size t = ctx_size s \<and> (\<forall>q. q \<noteq> r \<longrightarrow> reqs t q = reqs s q) \<and>
     (\<exists>n. reqs t r = (reqs s r)\<lparr>rq_acked := n\<rparr>) \<and> (\<forall>d. pool (ctxs t d) = pool (ctxs s d) \<and> cx_intf (ctxs t d) = cx_intf (ctxs s d) \<and>
       cx_active (ctxs t d) = cx_active (ctxs s d) \<and> cx_pending (ctxs t d) = cx_pending (ctxs s d) \<and> cx_free (ctxs t d) = cx_free (ctxs s d)
       \<and> cx_wait (ctxs t d) = cx_wait (ctxs s d) \<and> cx_machine (ctxs t d) = cx_machine (ctxs s d) \<and> cx_state (ctxs t d) = cx_state (ctxs s d))"

lemma same_but_refl [simp]: "same_but r s s"
proof -
  have "reqs s r = (reqs s r)\<lparr>rq_acked := rq_acked (reqs s r)\<rparr>" by (cases "reqs s r") simp
  then have "\<exists>n. reqs s r = (reqs s r)\<lparr>rq_acked := n\<rparr>" by blast
  then show ?thesis by (simp add: same_but_def)
qed

lemma same_but_trans: "same_but r s t \<Longrightarrow> same_but r t u \<Longrightarrow> same_but r s u"
  by (auto simp: same_but_def)

lemma deregister_loop_inv:
  assumes "ctx_inv (insert r Z) W H e s" "c < ctx_size s" "flying s c r" "deregister_loop c r fs free s = (t, free')" "free \<Longrightarrow> cbs s r = 0"
  shows "ctx_inv (insert r Z) W H e t \<and> same_but r s t \<and> cbs t r \<le> cbs s r \<and> (free' \<longleftrightarrow> free \<or> (cbs s r \<noteq> 0 \<and> cbs t r = 0))"
  using assms
proof (induction fs arbitrary: s free)
  case Nil
  then show ?case by auto
next
  case (Cons f fs)
  obtain y rc where d: "cam_sync_deregister_callback (sy s) sync_cb (Suc r) f = (y, rc)" by fastforce
  then have dk: "deregister (key r) f (sy s) = (y, \<not> is_err rc)" by (simp add: deregister_def)
  have cx: "rq_ctx (reqs s r) = Some c" "rq_flushed (reqs s r)" using Cons.prems(3) by (simp_all add: flying_def)
  show ?case
  proof (cases "is_err rc")
    case True
    then have "y = sy s" using deregister_missing [of "key r" f "sy s"] dk by simp
    then show ?thesis using Cons True d by simp
  next
    case False
    have ci: "cbs_inv (sy s)" by (rule ctx_invD(1) [OF Cons.prems(1)])
    have ct: "counted (insert r Z) s r" using ctx_invD(3) [OF Cons.prems(1), of r] cx by (simp add: req_ok_def)
    then have one: "count (armed (sy s) f) (key r) \<le> 1" by (simp add: counted_def armed_def)
    note st = fences.deregister_found_step [OF ci _ one] fences.deregister_inv [OF ci, of "key r" f]
    let ?s1 = "s\<lparr>sy := y\<rparr>"
    let ?s2 = "upd_req r (\<lambda>q. q\<lparr>rq_acked := rq_acked q + 1\<rparr>) (cam_context_putref c ?s1)"
    have o: "outstanding (sy s) = add_mset (key r) (outstanding y)" using st(1) dk False by simp
    have y: "cbs_inv y" using st(3) dk by simp
    have rk: "row_keys y i \<subseteq># row_keys (sy s) i" for i using deregister_row_sub [of "key r" f "sy s" i] dk by simp
    have "ctx_inv (insert r (insert r Z)) W H (e(c := Suc (e c))) (upd_req r (\<lambda>q. q\<lparr>rq_acked := rq_acked q + 1\<rparr>) ?s1)"
      by (rule callback_taken [OF Cons.prems(1,2) cx(1) y o rk])
    from putref_inv [OF this, of c "e c"] Cons.prems(2)
    have inv2: "ctx_inv (insert r Z) W H e ?s2" by (simp add: putref_upd_req)
    have cb: "cbs s r = Suc (cbs ?s2 r)" using o by (simp add: cbs_def)
    have fl: "flying ?s2 c r" using cx by (simp add: flying_def)
    have "counted (insert r Z) ?s2 r" using ctx_invD(3) [OF inv2, of r] cx by (simp add: req_ok_def)
    then have full: "rq_acked (reqs ?s2 r) = length (rq_in (reqs ?s2 r)) \<longleftrightarrow> cbs ?s2 r = 0" unfolding counted_def by arith
    have nf: "\<not> free" using Cons.prems(5) cb by auto
    have run: "deregister_loop c r fs (rq_acked (reqs ?s2 r) = length (rq_in (reqs ?s2 r))) ?s2 = (t, free')"
      using Cons.prems(4) d False nf by (simp add: Let_def)
    have sb: "same_but r s ?s2" by (auto simp: same_but_def)
    have sz: "c < ctx_size ?s2" using Cons.prems(2) by simp
    from Cons.IH [OF inv2 sz fl run] full
    have "ctx_inv (insert r Z) W H e t \<and> same_but r ?s2 t \<and> cbs t r \<le> cbs ?s2 r \<and>
       (free' \<longleftrightarrow> cbs ?s2 r = 0 \<or> cbs ?s2 r \<noteq> 0 \<and> cbs t r = 0)" by simp
    then show ?thesis using cb nf same_but_trans [OF sb] by auto
  qed
qed

text \<open>What a flushed request is left with: all its callbacks gone and on the free list, or still called back.\<close>

lemma Z_drop:
  assumes "ctx_inv (insert r Z) W H e s" "0 < cbs s r \<or> rq_ctx (reqs s r) = None \<or>
     (\<exists>c. rq_ctx (reqs s r) = Some c \<and> r \<notin> set (cx_pending (ctxs s c)) \<and> \<not> rq_flushed (reqs s r) \<and> r \<notin> W)"
  shows "ctx_inv Z W H e s"
proof -
  have "req_ok Z W s q" for q
    using ctx_invD(3) [OF assms(1), of q] assms(2) by (cases "q = r") (auto simp: req_ok_def counted_def split: option.splits)
  then show ?thesis using assms(1) by (simp add: ctx_inv_def)
qed

lemma Z_mono: "ctx_inv Z W H e s \<Longrightarrow> Z \<subseteq> Z' \<Longrightarrow> ctx_inv Z' W H e s"
proof -
  assume s: "ctx_inv Z W H e s" and Z: "Z \<subseteq> Z'"
  have "req_ok Z' W s r" for r by (rule req_ok_cong [OF ctx_invD(3) [OF s]]) (use Z in auto)
  then show ?thesis using s by (simp add: ctx_inv_def)
qed

lemma signal_error_loop_simps [simp]:
  "reqs (signal_error_loop fs s) = reqs s" "ctxs (signal_error_loop fs s) = ctxs s" "ctx_size (signal_error_loop fs s) = ctx_size s"
  "hw_calls (signal_error_loop fs s) = hw_calls s" "free_ctx_list (signal_error_loop fs s) = free_ctx_list s"
  "corrupt (signal_error_loop fs s) = corrupt s" "mm (signal_error_loop fs s) = mm s" "ht (signal_error_loop fs s) = ht s"
  by (induction fs arbitrary: s) (auto simp: Let_def split: prod.split)

lemma cbs_signal_error [simp]: "cbs_inv (sy s) \<Longrightarrow> cbs (signal_error_loop fs s) r = cbs s r"
proof (induction fs arbitrary: s)
  case (Cons f fs)
  obtain y rc where g: "cam_sync_signal (sy s) f CAM_SYNC_STATE_SIGNALED_ERROR = (y, rc)" by fastforce
  have "cbs_inv y" "outstanding y = outstanding (sy s)"
    using fences.signal_inv [OF Cons.prems, of f 3] fences.signal_outst [OF Cons.prems, of f 3] g by simp_all
  then show ?case using Cons g by (auto simp: cbs_def Let_def)
qed simp

lemma finish_flush:
  assumes inv: "ctx_inv Z W H e s" and c: "c < ctx_size s" "flying s c r" "r \<notin> W" "r \<notin> H"
    and run: "deregister_loop c r fs False s = (t, free)"
  shows "ctx_inv Z W H e (if free then add_free c r (upd_req r (\<lambda>q. q\<lparr>rq_ctx := None\<rparr>) (signal_error_loop gs t)) else signal_error_loop gs t)"
proof -
  have inv1: "ctx_inv (insert r Z) W H e s" by (rule Z_mono [OF inv]) blast
  from deregister_loop_inv [OF inv1 c(1,2) run]
  have t: "ctx_inv (insert r Z) W H e t" "same_but r s t" "free \<longleftrightarrow> cbs s r \<noteq> 0 \<and> cbs t r = 0" by auto
  have ct: "counted Z s r" using ctx_invD(3) [OF inv, of r] c(2) by (simp add: req_ok_def flying_def)
  let ?u = "signal_error_loop gs t"
  have u: "ctx_inv (insert r Z) W H e ?u" by (rule ctx_inv_signal_error [OF t(1)])
  have cb: "cbs ?u r = cbs t r" using ctx_invD(1) [OF t(1)] by simp
  have fl: "flying ?u c r" using t(2) c(2) by (auto simp: same_but_def flying_def)
  show ?thesis
  proof (cases free)
    case True
    have "ctx_inv (insert r Z) W H e (add_free c r (upd_req r (\<lambda>q. q\<lparr>rq_ctx := None\<rparr>) ?u))"
      by (rule land [OF u]) (use t c fl cb True in \<open>auto simp: same_but_def\<close>)
    then show ?thesis using True by (simp add: Z_drop)
  next
    case False
    show ?thesis
    proof (cases "cbs t r = 0")
      case True
      then have "r \<in> Z" using False t(3) ct by (auto simp: counted_def)
      then show ?thesis using u False by (simp add: insert_absorb)
    next
      case pos: False
      then show ?thesis using Z_drop [OF u] False cb by simp
    qed
  qed
qed

lemma flush_pending_req_inv:
  assumes inv: "ctx_inv Z W H e s" and c: "c < ctx_size s" "r \<in> pool (ctxs s c)" "r \<in> H" "r \<in> W" "rq_ctx (reqs s r) = Some c"
  shows "ctx_inv Z (W - {r}) (H - {r}) e (flush_pending_req c r s)"
proof -
  let ?s = "upd_req r (\<lambda>q. q\<lparr>rq_flushed := True\<rparr>) s"
  have i: "ctx_inv Z (W - {r}) (H - {r}) e ?s" by (rule mark_flushed [OF assms])
  obtain t fr where run: "deregister_loop c r (rq_in (reqs ?s r)) False ?s = (t, fr)" by fastforce
  have "flying ?s c r" using c by (simp add: flying_def)
  from finish_flush [OF i _ this _ _ run, of "rq_out (reqs t r)"] c show ?thesis
    using run by (simp add: flush_pending_req_def Let_def)
qed

lemma flush_active_req_inv:
  assumes inv: "ctx_inv Z W H e s" and c: "c < ctx_size s" "r \<in> pool (ctxs s c)" "r \<in> H" "cbs s r = 0"
  shows "ctx_inv Z (W - {r}) (H - {r}) e (flush_active_req c r s)"
  unfolding flush_active_req_def
  by (rule put_free) (use c ctx_inv_signal_error [OF inv] ctx_invD(1) [OF inv] in simp_all)

subsection \<open>Flushing a context\<close>

lemma deregister_loop_same: "same_but r s (fst (deregister_loop c r fs free s))"
proof (induction fs arbitrary: s free)
  case (Cons f fs)
  have 1: "same_but r s (s\<lparr>sy := y\<rparr>)" for y
    using same_but_refl [of r s, unfolded same_but_def] by (simp add: same_but_def)
  have 2: "same_but r s (upd_req r (\<lambda>q. q\<lparr>rq_acked := rq_acked q + 1\<rparr>) (cam_context_putref c (s\<lparr>sy := y\<rparr>)))" for y
    by (auto simp: same_but_def)
  show ?case using same_but_trans [OF 1 Cons.IH] same_but_trans [OF 2 Cons.IH]
    by (auto simp: Let_def split: prod.split)
qed simp

definition others :: "nat \<Rightarrow> nat \<Rightarrow> ctx_sys \<Rightarrow> ctx_sys \<Rightarrow> bool" where
  "others c r s t \<longleftrightarrow> ctx_size t = ctx_size s \<and> (\<forall>q. q \<noteq> r \<longrightarrow> reqs t q = reqs s q) \<and>
     (\<forall>d. pool (ctxs t d) = pool (ctxs s d) \<and> cx_intf (ctxs t d) = cx_intf (ctxs s d) \<and> cx_machine (ctxs t d) = cx_machine (ctxs s d) \<and>
        cx_state (ctxs t d) = cx_state (ctxs s d) \<and> cx_active (ctxs t d) = cx_active (ctxs s d) \<and> cx_pending (ctxs t d) = cx_pending (ctxs s d) \<and>
        (d \<noteq> c \<longrightarrow> cx_free (ctxs t d) = cx_free (ctxs s d)))"

lemma add_free_more [simp]:
  "cx_machine (ctxs (add_free c r s) d) = cx_machine (ctxs s d)"
  "cx_state (ctxs (add_free c r s) d) = cx_state (ctxs s d)"
  by (simp_all add: add_free_def mark_corrupt_def)

lemma others_flush_pending: "others c r s (flush_pending_req c r s)"
proof -
  let ?s = "upd_req r (\<lambda>q. q\<lparr>rq_flushed := True\<rparr>) s"
  obtain t fr where run: "deregister_loop c r (rq_in (reqs ?s r)) False ?s = (t, fr)" by fastforce
  have "same_but r ?s t" using deregister_loop_same [of r ?s c "rq_in (reqs ?s r)" False] run by simp
  then show ?thesis using run
    by (auto simp: flush_pending_req_def others_def same_but_def Let_def add_free_lists)
qed

lemma others_flush_active: "others c r s (flush_active_req c r s)"
  by (auto simp: flush_active_req_def others_def add_free_lists)

lemma flush_pending_all:
  assumes "ctx_inv Z W H e s" "c < ctx_size s" "distinct rs" "set rs \<subseteq> pool (ctxs s c)" "set rs \<subseteq> H" "set rs \<subseteq> W"
    "\<forall>r \<in> set rs. rq_ctx (reqs s r) = Some c"
  shows "ctx_inv Z (W - set rs) (H - set rs) e (fold (flush_pending_req c) rs s)"
  using assms
proof (induction rs arbitrary: s W H)
  case (Cons r rs)
  let ?t = "flush_pending_req c r s"
  have i: "ctx_inv Z (W - {r}) (H - {r}) e ?t" using Cons.prems by (intro flush_pending_req_inv) auto
  have o: "others c r s ?t" by (rule others_flush_pending)
  have "\<forall>q \<in> set rs. rq_ctx (reqs ?t q) = Some c"
  proof
    fix q assume q: "q \<in> set rs"
    then have "q \<noteq> r" using Cons.prems(3) by auto
    then show "rq_ctx (reqs ?t q) = Some c" using o q Cons.prems(7) by (simp add: others_def)
  qed
  then have "ctx_inv Z (W - {r} - set rs) (H - {r} - set rs) e (fold (flush_pending_req c) rs ?t)"
    using Cons.prems o by (intro Cons.IH [OF i]) (auto simp: others_def)
  then show ?case by (simp add: Diff_insert2 [symmetric])
qed simp

lemma cbs_flush_active: "cbs_inv (sy s) \<Longrightarrow> cbs (flush_active_req c r s) q = cbs s q"
  using cbs_signal_error [of s "rq_out (reqs s r)" q] by (simp add: flush_active_req_def cbs_def)

lemma flush_active_all:
  assumes "ctx_inv Z W H e s" "c < ctx_size s" "distinct rs" "set rs \<subseteq> pool (ctxs s c)" "set rs \<subseteq> H" "\<forall>r \<in> set rs. cbs s r = 0"
  shows "ctx_inv Z (W - set rs) (H - set rs) e (fold (flush_active_req c) rs s)"
  using assms
proof (induction rs arbitrary: s W H)
  case (Cons r rs)
  let ?t = "flush_active_req c r s"
  have i: "ctx_inv Z (W - {r}) (H - {r}) e ?t" using Cons.prems by (intro flush_active_req_inv) auto
  have o: "others c r s ?t" by (rule others_flush_active)
  have "ctx_inv Z (W - {r} - set rs) (H - {r} - set rs) e (fold (flush_active_req c) rs ?t)"
    using Cons.prems o cbs_flush_active [OF ctx_invD(1) [OF Cons.prems(1)], of c r]
    by (intro Cons.IH [OF i]) (auto simp: others_def)
  then show ?case by (simp add: Diff_insert2 [symmetric])
qed simp

lemma splice_pending:
  assumes inv: "ctx_inv Z W H e s" and c: "c < ctx_size s"
  shows "ctx_inv Z (W \<union> set (cx_pending (ctxs s c))) (H \<union> set (cx_pending (ctxs s c))) e (upd_ctx c (\<lambda>x. x\<lparr>cx_pending := []\<rparr>) s)"
    (is "ctx_inv Z ?W ?H e ?t")
proof (rule ctx_invI)
  have p: "pool (ctxs ?t d) = pool (ctxs s d)" "own (ctxs ?t d) = own (ctxs s d)" "cx_refs (ctxs ?t d) = cx_refs (ctxs s d)" for d
    by (simp_all add: pool_def own_def)
  show "req_ok Z ?W ?t r" for r
  proof -
    have ct: "counted Z ?t r" if "counted Z s r" by (rule counted_mono [OF that]) (simp_all add: cbs_def)
    show ?thesis using ctx_invD(3) [OF inv, of r] ct lists_okD(9) [OF inv c, of r]
      by (auto simp: req_ok_def cbs_def p split: option.splits if_splits)
  qed
  show "lists_ok ?H ?t d" if "d < ctx_size ?t" for d
  proof (cases "d = c")
    case True
    then show ?thesis using ctx_invD(4) [OF inv c] unfolding lists_ok_def on_lists_def flying_def
      by (auto simp: pool_def)
  next
    case False
    then have "pool (ctxs s c) \<inter> pool (ctxs s d) = {}" using ctx_invD(6) [OF inv] that c by (auto simp: pools_ok_def)
    moreover have "set (cx_pending (ctxs s c)) \<subseteq> pool (ctxs s c)" using lists_okD(10) [OF inv c] by (auto simp: on_lists_def)
    ultimately show ?thesis using ctx_invD(4) [OF inv, of d] that False unfolding lists_ok_def flying_def by auto
  qed
  show "refs_ok e ?t d" if "d < ctx_size ?t" for d
    using refs_ok_cong [of ?t s d e] ctx_invD(5) [OF inv, of d] that p by simp
  show "pools_ok ?t" "free_ok ?t" using ctx_invD(6,7) [OF inv] p by (simp_all add: pools_ok_def free_ok_def)
qed (use ctx_invD(1,2) [OF inv] in simp_all)

lemma splice_active:
  assumes inv: "ctx_inv Z W H e s" and c: "c < ctx_size s"
  shows "ctx_inv Z W (H \<union> set (cx_active (ctxs s c))) e (upd_ctx c (\<lambda>x. x\<lparr>cx_active := []\<rparr>) s)"
    (is "ctx_inv Z W ?H e ?t")
proof (rule ctx_invI)
  have p: "pool (ctxs ?t d) = pool (ctxs s d)" "own (ctxs ?t d) = own (ctxs s d)" "cx_refs (ctxs ?t d) = cx_refs (ctxs s d)"
    "cx_pending (ctxs ?t d) = cx_pending (ctxs s d)" for d
    by (simp_all add: pool_def own_def)
  show "req_ok Z W ?t r" for r
    by (rule req_ok_cong [OF ctx_invD(3) [OF inv]]) (simp_all only: p, simp_all add: cbs_def)
  show "lists_ok ?H ?t d" if "d < ctx_size ?t" for d
  proof (cases "d = c")
    case True
    then show ?thesis using ctx_invD(4) [OF inv c] unfolding lists_ok_def on_lists_def flying_def
      by (auto simp: pool_def)
  next
    case False
    then have "pool (ctxs s c) \<inter> pool (ctxs s d) = {}" using ctx_invD(6) [OF inv] that c by (auto simp: pools_ok_def)
    moreover have "set (cx_active (ctxs s c)) \<subseteq> pool (ctxs s c)" using lists_okD(10) [OF inv c] by (auto simp: on_lists_def)
    ultimately show ?thesis using ctx_invD(4) [OF inv, of d] that False unfolding lists_ok_def flying_def by auto
  qed
  show "refs_ok e ?t d" if "d < ctx_size ?t" for d
    using refs_ok_cong [of ?t s d e] ctx_invD(5) [OF inv, of d] that p by simp
  show "pools_ok ?t" "free_ok ?t" using ctx_invD(6,7) [OF inv] p by (simp_all add: pools_ok_def free_ok_def)
qed (use ctx_invD(1,2) [OF inv] in simp_all)

lemma others_fold:
  assumes "\<And>r s. others c r s (f r s)"
  shows "ctx_size (fold f rs s) = ctx_size s" "pool (ctxs (fold f rs s) d) = pool (ctxs s d)"
    "cx_active (ctxs (fold f rs s) d) = cx_active (ctxs s d)" "cx_pending (ctxs (fold f rs s) d) = cx_pending (ctxs s d)"
    "cx_intf (ctxs (fold f rs s) d) = cx_intf (ctxs s d)" "cx_machine (ctxs (fold f rs s) d) = cx_machine (ctxs s d)"
    "cx_state (ctxs (fold f rs s) d) = cx_state (ctxs s d)" "q \<notin> set rs \<Longrightarrow> reqs (fold f rs s) q = reqs s q"
  using assms by (induction rs arbitrary: s) (auto simp: others_def)

lemmas fold_pending = others_fold [OF others_flush_pending]
lemmas fold_active = others_fold [OF others_flush_active]

lemma active_quiet:
  assumes "ctx_inv Z W H e s" "c < ctx_size s" "r \<in> set (cx_active (ctxs s c))" "W \<subseteq> H"
  shows "cbs s r = 0"
proof -
  have l: "rq_ctx (reqs s r) = Some c" "r \<notin> set (cx_pending (ctxs s c))" "\<not> flying s c r" "r \<notin> H"
    using lists_okD [OF assms(1,2)] assms(3) by (auto simp: on_lists_def)
  moreover have "r \<notin> W" using l(4) assms(4) by blast
  ultimately show ?thesis using ctx_invD(3) [OF assms(1), of r] by (auto simp: req_ok_def flying_def)
qed

lemma flush_ctx_inv:
  assumes inv: "ctx_inv Z {} {} e s" and c: "c < ctx_size s"
  shows "ctx_inv Z {} {} e (fst (cam_context_flush_ctx_to_hw env c s))"
proof -
  let ?p = "cx_pending (ctxs s c)" and ?s1 = "upd_ctx c (\<lambda>x. x\<lparr>cx_pending := []\<rparr>) s"
  define s2 where "s2 = fold (flush_pending_req c) ?p ?s1"
  have i1: "ctx_inv Z (set ?p) (set ?p) e ?s1" using splice_pending [OF inv c] by simp
  have pp: "set ?p \<subseteq> pool (ctxs s c)" "distinct ?p" "\<forall>r \<in> set ?p. rq_ctx (reqs s r) = Some c"
    using lists_okD [OF inv c] by (auto simp: on_lists_def)
  have i2: "ctx_inv Z {} {} e s2"
    using flush_pending_all [OF i1, of c ?p] pp c unfolding s2_def by (simp add: pool_def)
  define s3 where "s3 = (if hw_flush (ce_hw env) \<and> (map (\<lambda>r. rq_priv (reqs s r)) ?p \<noteq> [] \<or> map (\<lambda>r. rq_priv (reqs s2 r)) (cx_active (ctxs s2 c)) \<noteq> [])
      then call_hw (Hw_flush (cx_hw_map (ctxs s2 c)) CAM_FLUSH_TYPE_ALL (map (\<lambda>r. rq_priv (reqs s r)) ?p)
        (map (\<lambda>r. rq_priv (reqs s2 r)) (cx_active (ctxs s2 c)))) s2 else s2)"
  have i3: "ctx_inv Z {} {} e s3" "ctx_size s3 = ctx_size s2" using i2 by (simp_all add: s3_def)
  have c2: "c < ctx_size s2" using c fold_pending(1) [of c ?p ?s1] by (simp add: s2_def)
  let ?a = "cx_active (ctxs s3 c)" and ?s4 = "upd_ctx c (\<lambda>x. x\<lparr>cx_active := []\<rparr>) s3"
  have c3: "c < ctx_size s3" using c2 i3 by simp
  have i4: "ctx_inv Z {} (set ?a) e ?s4" using splice_active [OF i3(1) c3] by simp
  have aa: "set ?a \<subseteq> pool (ctxs s3 c)" "distinct ?a" using lists_okD [OF i3(1) c3] by (auto simp: on_lists_def)
  have "\<forall>r \<in> set ?a. cbs s3 r = 0" using active_quiet [OF i3(1) c3] by simp
  then have q: "\<forall>r \<in> set ?a. cbs ?s4 r = 0" by (simp add: cbs_def)
  have "ctx_inv Z ({} - set ?a) (set ?a - set ?a) e (fold (flush_active_req c) ?a ?s4)"
    by (rule flush_active_all [OF i4]) (use c3 aa q in \<open>simp_all add: pool_def\<close>)
  then show ?thesis
    unfolding cam_context_flush_ctx_to_hw_def Let_def s2_def [symmetric] s3_def [symmetric] by simp
qed

end
