(* ===== verification/Cam_Ctx_Steps.thy ===== *)
theory Cam_Ctx_Steps
  imports Cam_Ctx_Ops
begin

text \<open>
  The flush of one request, the hand-over to the hardware, the completion of a request and the callback of an input
  fence, which may flush or hand over, keep the invariant.
\<close>

lemma pending_wait:
  assumes "ctx_inv Z W H e s" "c < ctx_size s" "r \<in> set (cx_pending (ctxs s c))"
  shows "r \<in> pool (ctxs s c)" "rq_ctx (reqs s r) = Some c" "\<not> rq_flushed (reqs s r)" "r \<notin> H"
  using lists_okD(9,10) [OF assms(1,2), of r] assms(3) by (auto simp: on_lists_def flying_def)

lemma flush_req_inv:
  assumes inv: "ctx_inv Z {} {} e s" and c: "c < ctx_size s"
  shows "ctx_inv Z {} {} e (fst (cam_context_flush_req_to_hw env c rid s))"
proof (cases "find (\<lambda>r. rq_id (reqs s r) = rid) (cx_pending (ctxs s c))")
  case (Some r)
  then have r: "r \<in> set (cx_pending (ctxs s c))" by (auto simp: find_Some_iff)
  note p = pending_wait [OF inv c r]
  let ?d = "list_del_init c r s" and ?s1 = "upd_req r (\<lambda>q. q\<lparr>rq_flushed := True\<rparr>) (list_del_init c r s)"
  define s2 where "s2 = (if hw_flush (ce_hw env)
      then call_hw (Hw_flush (cx_hw_map (ctxs ?s1 c)) CAM_FLUSH_TYPE_REQ [rq_priv (reqs ?s1 r)] []) ?s1 else ?s1)"
  have "ctx_inv Z {r} {r} e ?d" using del_pending [OF inv c r] by simp
  from mark_flushed [OF this, of c r] have "ctx_inv Z {} {} e ?s1" using c p by simp
  then have i2: "ctx_inv Z {} {} e s2" by (simp add: s2_def)
  have q: "flying s2 c r" "c < ctx_size s2" using p c by (simp_all add: s2_def flying_def)
  obtain t fr where run: "deregister_loop c r (rq_in (reqs s2 r)) False s2 = (t, fr)" by fastforce
  from finish_flush [OF i2 q(2,1) _ _ run, of "rq_out (reqs t r)"] show ?thesis
    using Some run unfolding cam_context_flush_req_to_hw_def by (simp add: Let_def s2_def)
next
  case None
  show ?thesis
  proof (cases "find (\<lambda>r. rq_id (reqs s r) = rid) (cx_active (ctxs s c))")
    case (Some r)
    then have r: "r \<in> set (cx_active (ctxs s c))" by (auto simp: find_Some_iff)
    let ?d = "list_del_init c r s"
    let ?s2 = "call_hw (Hw_flush (cx_hw_map (ctxs ?d c)) CAM_FLUSH_TYPE_REQ [] [rq_priv (reqs ?d r)]) ?d"
    have p: "r \<in> pool (ctxs s c)" using lists_okD(10) [OF inv c, of r] r by (simp add: on_lists_def)
    have k: "cbs s r = 0" using active_quiet [OF inv c r] by simp
    have i: "ctx_inv Z {} {r} e ?s2" using del_hand [OF inv c, of r] r by simp
    let ?u = "signal_error_loop (rq_out (reqs ?s2 r)) ?s2"
    have "cbs ?u r = 0" using cbs_signal_error [OF ctx_invD(1) [OF i]] k by (simp add: cbs_def)
    then have "ctx_inv Z {} {} e (upd_req r (\<lambda>q. q\<lparr>rq_ctx := None\<rparr>) (add_free c r ?u))"
      using put_free [OF ctx_inv_signal_error [OF i], where c = c and r = r] c p by simp
    then show ?thesis using None Some inv
      by (simp add: cam_context_flush_req_to_hw_def Let_def add_free_upd_req)
  qed (use None inv in \<open>simp add: cam_context_flush_req_to_hw_def\<close>)
qed

lemma list_del_absent:
  assumes "r \<notin> linked_in (ctxs s c)"
  shows "list_del_init c r s = s"
proof -
  have "x\<lparr>cx_active := cx_active x, cx_pending := cx_pending x, cx_wait := cx_wait x, cx_free := cx_free x\<rparr> = x" for x :: cam_context
    by (cases x) simp
  then show ?thesis using assms by (simp add: list_del_init_def linked_in_def upd_ctx_def removeAll_id)
qed

lemma upd_req_self: "upd_req r (\<lambda>q. q) s = s"
  by (simp add: upd_req_def)

lemma intf_ok: "ctx_inv Z W H e s \<Longrightarrow> c < ctx_size s \<Longrightarrow> cx_intf (ctxs s c)"
  by (auto dest: ctx_invD(6) simp: pools_ok_def)

lemma apply_req_inv:
  assumes inv: "ctx_inv Z {} {} e s" and c: "c < ctx_size s" "r \<in> set (cx_pending (ctxs s c))" and k: "cbs s r = 0"
  shows "ctx_inv (Z - {r}) {} {} e (fst (cam_context_apply_req_to_hw env c r s))"
proof -
  note p = pending_wait [OF inv c]
  let ?d = "list_del_init c r s" and ?s1 = "add_active c r (list_del_init c r s)"
  have i0: "ctx_inv Z {r} {r} e ?d" using del_pending [OF inv c] by simp
  have i1: "ctx_inv Z {} {} e ?s1" using put_active [OF i0, of c r] c p k by (simp add: cbs_def)
  have np: "r \<notin> set (cx_pending (ctxs ?s1 c))" by (simp add: add_active_lists ctx_lists_del)
  have i1': "ctx_inv (Z - {r}) {} {} e ?s1"
    by (rule Z_drop [of r]) (use Z_mono [OF i1] np p in auto)
  let ?q = "reqs ?s1 r"
  let ?s2 = "call_hw (Hw_config (cx_hw_map (ctxs ?s1 c)) (rq_id ?q) (rq_upd ?q) (rq_out ?q) (rq_priv ?q)) ?s1"
  have i2: "ctx_inv (Z - {r}) {} {} e ?s2" using i1' by simp
  have a: "r \<in> set (cx_active (ctxs ?s2 c))" by (simp add: add_active_lists)
  have "ctx_inv (Z - {r}) {} {r} e (list_del_init c r ?s2)" using del_hand [OF i2, of c r] c a by simp
  then have "ctx_inv (Z - {r}) {} {} e (add_free c r (list_del_init c r ?s2))"
    using put_free [of "Z - {r}" "{}" "{r}" e "list_del_init c r ?s2" c r "\<lambda>q. q"] c p k by (simp add: upd_req_self cbs_def)
  then show ?thesis
    using i2 intf_ok [OF inv c(1)] by (simp add: cam_context_apply_req_to_hw_def Let_def)
qed

lemma buf_done_inv:
  assumes inv: "ctx_inv Z {} {} e s" and c: "c < ctx_size s"
  shows "ctx_inv Z {} {} e (fst (cam_context_buf_done_from_hw env c done b s))"
proof (cases "cx_active (ctxs s c)")
  case (Cons r rs)
  then have r: "r \<in> set (cx_active (ctxs s c))" by simp
  have p: "r \<in> pool (ctxs s c)" using lists_okD(10) [OF inv c, of r] r by (simp add: on_lists_def)
  have i: "ctx_inv Z {} {r} e (list_del_init c r s)" using del_hand [OF inv c, of r] r by simp
  define st where "st = (if b = 0 then CAM_SYNC_STATE_SIGNALED_SUCCESS else CAM_SYNC_STATE_SIGNALED_ERROR)"
  let ?u = "fold (sys_signal st) (rq_out (reqs s r)) (list_del_init c r s)"
  have i2: "ctx_inv Z {} {r} e ?u" by (rule ctx_inv_signals [OF i])
  have same: "reqs (fold (sys_signal st) fs u) = reqs u \<and> ctxs (fold (sys_signal st) fs u) = ctxs u \<and>
      ctx_size (fold (sys_signal st) fs u) = ctx_size u" for fs u
    by (induction fs arbitrary: u) (simp_all add: sys_signal_def)
  have cb: "cbs_inv (sy u) \<Longrightarrow> cbs (fold (sys_signal st) fs u) q = cbs u q" for fs u q
    using fences.signals_keep [of "sy u" "map (\<lambda>f. (f, st)) fs"]
  proof (induction fs arbitrary: u)
    case (Cons f fs)
    then show ?case using fences.signals_keep [of _ "map (\<lambda>f. (f, st)) fs"] fences.signal_inv [of "sy u" f st] fences.signal_outst [of "sy u" f st]
      by (simp add: sys_signal_def cbs_def)
  qed simp
  have k: "cbs ?u r = 0"
    using cb [OF ctx_invD(1) [OF i], of "rq_out (reqs s r)" r] active_quiet [OF inv c r] by (simp add: cbs_def)
  have "ctx_inv Z {} {} e (upd_req r (\<lambda>q. q\<lparr>rq_out := map (\<lambda>_. - 1) (rq_out q), rq_ctx := None\<rparr>) (add_free c r ?u))"
    using put_free [OF i2, of c r "\<lambda>q. q\<lparr>rq_out := map (\<lambda>_. - 1) (rq_out q), rq_ctx := None\<rparr>"] c p k same by simp
  then have "ctx_inv Z {} {} e (upd_req r (\<lambda>q. q\<lparr>rq_ctx := None\<rparr>) (add_free c r (upd_req r (\<lambda>q. q\<lparr>rq_out := map (\<lambda>_. - 1) (rq_out q)\<rparr>) ?u)))"
    by (simp add: add_free_upd_req) (simp add: upd_req_def)
  then show ?thesis
    using inv Cons by (cases "b = 0") (simp_all add: cam_context_buf_done_from_hw_def Let_def st_def split: option.split)
qed (use inv in \<open>simp add: cam_context_buf_done_from_hw_def split: option.split\<close>)

text \<open>A request that has seen its last callback is still there after the flush of a request.\<close>

lemma flush_req_keeps:
  assumes inv: "ctx_inv Z {} {} e s" and c: "c < ctx_size s" "rq_ctx (reqs s r) = Some c" and k: "cbs s r = 0"
    and w: "r \<in> set (cx_pending (ctxs s c)) \<or> rq_flushed (reqs s r)"
    and t: "t = fst (cam_context_flush_req_to_hw env c rid s)"
  shows "rq_ctx (reqs t r) = Some c \<and> (r \<in> set (cx_pending (ctxs t c)) \<or> rq_flushed (reqs t r)) \<and> ctx_size t = ctx_size s \<and> cbs t r = 0"
proof (cases "find (\<lambda>r. rq_id (reqs s r) = rid) (cx_pending (ctxs s c))")
  case (Some q)
  then have q: "q \<in> set (cx_pending (ctxs s c))" by (auto simp: find_Some_iff)
  note p = pending_wait [OF inv c(1) q]
  let ?s1 = "upd_req q (\<lambda>q. q\<lparr>rq_flushed := True\<rparr>) (list_del_init c q s)"
  define s2 where "s2 = (if hw_flush (ce_hw env)
      then call_hw (Hw_flush (cx_hw_map (ctxs ?s1 c)) CAM_FLUSH_TYPE_REQ [rq_priv (reqs ?s1 q)] []) ?s1 else ?s1)"
  have "ctx_inv Z {q} {q} e (list_del_init c q s)" using del_pending [OF inv c(1) q] by simp
  from mark_flushed [OF this, of c q] have "ctx_inv Z {} {} e ?s1" using c p by simp
  then have i2: "ctx_inv Z {} {} e s2" "ctx_inv (insert q Z) {} {} e s2" using Z_mono [of Z "{}" "{}" e ?s1 "insert q Z"] by (auto simp: s2_def)
  have s2: "flying s2 c q" "c < ctx_size s2" using p c by (simp_all add: s2_def flying_def)
  have rq: "reqs s2 = (reqs s)(q := (reqs s q)\<lparr>rq_flushed := True\<rparr>)" "cx_pending (ctxs s2 c) = removeAll q (cx_pending (ctxs s c))"
    "ctx_size s2 = ctx_size s" "sy s2 = sy s" by (simp_all add: s2_def ctx_lists_del)
  obtain u fr where run: "deregister_loop c q (rq_in (reqs s2 q)) False s2 = (u, fr)" by fastforce
  note d = deregister_loop_inv [OF i2(2) s2(2,1) run, simplified]
  have t': "t = (if fr then add_free c q (upd_req q (\<lambda>q. q\<lparr>rq_ctx := None\<rparr>) (signal_error_loop (rq_out (reqs u q)) u))
      else signal_error_loop (rq_out (reqs u q)) u)"
    using Some run unfolding t cam_context_flush_req_to_hw_def by (simp add: Let_def s2_def)
  have it: "ctx_inv Z {} {} e t" using flush_req_inv [OF inv c(1), of env rid] by (simp add: t)
  have sz: "ctx_size t = ctx_size s" using d rq by (simp add: t' same_but_def)
  show ?thesis
  proof (cases "q = r")
    case True
    have "cbs s2 r = 0" using k rq by (simp add: cbs_def)
    then have f: "\<not> fr" "cbs u r = 0" using d True by auto
    have "cbs_inv (sy u)" using d ctx_invD(1) by blast
    moreover have "rq_ctx (reqs u r) = Some c" "rq_flushed (reqs u r)" using d True p rq by (auto simp: same_but_def)
    ultimately show ?thesis using f True sz by (simp add: t')
  next
    case False
    have rr: "reqs t r = reqs s r" using d False rq by (auto simp: t' same_but_def)
    have pp: "r \<in> set (cx_pending (ctxs t c)) \<longleftrightarrow> r \<in> set (cx_pending (ctxs s c))"
      using d False rq by (auto simp: t' same_but_def add_free_lists)
    have "counted Z s r" using ctx_invD(3) [OF inv, of r] c w by (simp add: req_ok_def)
    moreover have "counted Z t r" using ctx_invD(3) [OF it, of r] c w rr pp by (simp add: req_ok_def)
    ultimately show ?thesis using rr pp c w sz k by (auto simp: counted_def)
  qed
next
  case None
  show ?thesis
  proof (cases "hw_flush (ce_hw env) \<and> find (\<lambda>r. rq_id (reqs s r) = rid) (cx_active (ctxs s c)) \<noteq> None")
    case True
    then obtain q where q: "find (\<lambda>r. rq_id (reqs s r) = rid) (cx_active (ctxs s c)) = Some q" by auto
    then have qa: "q \<in> set (cx_active (ctxs s c))" by (auto simp: find_Some_iff)
    have "\<not> flying s c q" "q \<notin> set (cx_pending (ctxs s c))"
      using lists_okD(5) [OF inv c(1)] lists_okD(10) [OF inv c(1), of q] qa by (auto simp: on_lists_def)
    then have ne: "q \<noteq> r" using w c by (auto simp: flying_def)
    have it: "ctx_inv Z {} {} e t" using flush_req_inv [OF inv c(1), of env rid] by (simp add: t)
    have rr: "reqs t r = reqs s r" "ctx_size t = ctx_size s" using ne None q True by (simp_all add: t cam_context_flush_req_to_hw_def Let_def)
    have pp: "r \<in> set (cx_pending (ctxs t c)) \<longleftrightarrow> r \<in> set (cx_pending (ctxs s c))"
      using ne None q True by (auto simp: t cam_context_flush_req_to_hw_def Let_def add_free_lists ctx_lists_del)
    have "counted Z s r" using ctx_invD(3) [OF inv, of r] c w by (simp add: req_ok_def)
    moreover have "counted Z t r" using ctx_invD(3) [OF it, of r] c w rr pp by (simp add: req_ok_def)
    ultimately show ?thesis using rr pp c w k by (auto simp: counted_def)
  next
    case False
    then have "t = s" using None by (auto simp: t cam_context_flush_req_to_hw_def split: option.split)
    then show ?thesis using c w k by simp
  qed
qed

text \<open>
  The callback of an input fence: \<open>y\<close> is the fence table without that callback.
\<close>

lemma callback_inv:
  assumes inv: "ctx_inv {} {} {} e s" and irq: "\<not> ce_irq env"
    and y: "cbs_inv y" "outstanding (sy s) = add_mset (key r) (outstanding y)" "\<And>i. row_keys y i \<subseteq># row_keys (sy s) i"
  shows "ctx_inv {} {} {} e (cam_context_sync_callback env st (Suc r) (s\<lparr>sy := y\<rparr>))"
proof -
  have k: "0 < cbs s r" using y(2) by (simp add: cbs_def)
  then obtain c where cx: "rq_ctx (reqs s r) = Some c" using ctx_invD(3) [OF inv, of r] by (auto simp: req_ok_def split: option.splits)
  have c: "c < ctx_size s" using ctx_invD(3) [OF inv, of r] cx by (simp add: req_ok_def)
  let ?e = "e(c := Suc (e c))"
  define s1 where "s1 = upd_req r (\<lambda>q. q\<lparr>rq_acked := rq_acked q + 1\<rparr>) (s\<lparr>sy := y\<rparr>)"
  have i1: "ctx_inv {r} {} {} ?e s1" using callback_taken [OF inv c cx y] by (simp add: s1_def)
  have c1: "c < ctx_size s1" using c by (simp add: s1_def)
  have w: "r \<in> set (cx_pending (ctxs s c)) \<or> rq_flushed (reqs s r)"
    using ctx_invD(3) [OF inv, of r] cx k by (auto simp: req_ok_def split: if_splits)
  have cx1: "rq_ctx (reqs s1 r) = Some c" using cx by (simp add: s1_def)
  have w1: "r \<in> set (cx_pending (ctxs s1 c)) \<or> rq_flushed (reqs s1 r)" using w by (simp add: s1_def)
  have ct: "counted {r} s1 r" using ctx_invD(3) [OF i1, of r] cx1 w1 by (simp add: req_ok_def)
  let ?full = "rq_acked (reqs s1 r) = length (rq_in (reqs s1 r))"
  have full: "?full \<longleftrightarrow> cbs s1 r = 0" using ct unfolding counted_def by arith
  define s3 where "s3 = (if st = CAM_SYNC_STATE_SIGNALED_ERROR then fst (cam_context_flush_req_to_hw env c (rq_id (reqs s1 r)) s1) else s1)"
  have i3: "ctx_inv {r} {} {} ?e s3" using flush_req_inv [OF i1 c1] i1 by (simp add: s3_def)
  have s3: "rq_ctx (reqs s3 r) = Some c" "r \<in> set (cx_pending (ctxs s3 c)) \<or> rq_flushed (reqs s3 r)" "ctx_size s3 = ctx_size s1" "cbs s3 r = 0"
    if ?full
    using flush_req_keeps [OF i1 c1 cx1 _ w1 refl, of env "rq_id (reqs s1 r)"] that full cx1 w1 by (auto simp: s3_def)
  define u where "u = (if ?full then (if \<not> rq_flushed (reqs s3 r) then fst (cam_context_apply_req_to_hw env c r s3)
      else add_free c r (list_del_init c r (upd_req r (\<lambda>q. q\<lparr>rq_flushed := False, rq_ctx := None\<rparr>) s3))) else s1)"
  have "ctx_inv {} {} {} ?e u \<and> ctx_size u = ctx_size s"
  proof (cases ?full)
    case False
    then show ?thesis using Z_drop [OF i1] full c1 by (auto simp: u_def s1_def)
  next
    case True
    note s3 = s3 [OF True]
    show ?thesis
    proof (cases "rq_flushed (reqs s3 r)")
      case False
      then have "ctx_inv ({r} - {r}) {} {} ?e (fst (cam_context_apply_req_to_hw env c r s3))"
        using apply_req_inv [OF i3, of c r env] s3 c1 by simp
      moreover have "ctx_size (fst (cam_context_apply_req_to_hw env c r s3)) = ctx_size s3"
        by (simp add: cam_context_apply_req_to_hw_def Let_def)
      ultimately show ?thesis using False True s3 by (simp add: u_def s1_def)
    next
      case fl: True
      let ?v = "add_free c r (upd_req r (\<lambda>q. q\<lparr>rq_flushed := False, rq_ctx := None\<rparr>) s3)"
      have fly: "flying s3 c r" using fl s3 by (simp add: flying_def)
      have c3: "c < ctx_size s3" using s3 c1 by simp
      have "ctx_inv {r} {} {} ?e ?v" by (rule land [OF i3 c3 fly]) (use s3 in simp_all)
      then have v: "ctx_inv {} {} {} ?e ?v" by (rule Z_drop) simp
      have "r \<notin> set (on_lists (ctxs s3 c))" using lists_okD(10) [OF i3 c3, of r] fly by blast
      then have "list_del_init c r (upd_req r (\<lambda>q. q\<lparr>rq_flushed := False, rq_ctx := None\<rparr>) s3) = upd_req r (\<lambda>q. q\<lparr>rq_flushed := False, rq_ctx := None\<rparr>) s3"
        using lists_okD(1) [OF i3 c3] by (intro list_del_absent) (simp add: linked_in_def on_lists_def)
      then show ?thesis using v fl True s3 by (simp add: u_def s1_def)
    qed
  qed
  then have "ctx_inv {} {} {} e (cam_context_putref c u)"
    using putref_inv [of "{}" "{}" "{}" ?e u c "e c"] c by simp
  moreover have "cam_context_sync_callback env st (Suc r) (s\<lparr>sy := y\<rparr>) = cam_context_putref c u"
    using irq cx unfolding cam_context_sync_callback_def cam_context_validate_thread_def u_def s3_def s1_def by (simp add: Let_def)
  ultimately show ?thesis by simp
qed

text \<open>A callback of another user.\<close>

lemma foreign_callback:
  assumes inv: "ctx_inv Z W H e s" and K: "\<And>r. K \<noteq> key r"
    and y: "cbs_inv y" "outstanding (sy s) = add_mset K (outstanding y)" "\<And>i. row_keys y i = row_keys (sy s) i"
  shows "ctx_inv Z W H e (s\<lparr>sy := y\<rparr>)"
proof -
  have cb: "cbs (s\<lparr>sy := y\<rparr>) r = cbs s r" for r using y(2) K [of r] by (simp add: cbs_def)
  have cc: "ctx_cbs (s\<lparr>sy := y\<rparr>) c = ctx_cbs s c" for c using y(2) K by (simp add: ctx_cbs_def)
  have "req_ok Z W (s\<lparr>sy := y\<rparr>) r" for r
    by (rule req_ok_cong [OF ctx_invD(3) [OF inv]]) (use cb y in simp_all)
  moreover have "refs_ok e (s\<lparr>sy := y\<rparr>) c = refs_ok e s c" for c by (simp add: refs_ok_def cc)
  moreover have "lists_ok H (s\<lparr>sy := y\<rparr>) c = lists_ok H s c" for c by (simp add: lists_ok_def flying_def)
  ultimately show ?thesis using inv y(1) by (simp add: ctx_inv_def pools_ok_def free_ok_def)
qed

lemma worker_inv:
  assumes inv: "ctx_inv {} {} {} e s" and irq: "\<not> ce_irq env"
  shows "ctx_inv {} {} {} e (sync_worker env s)"
proof (cases "work_queue (sy s)")
  case (Cons cb q)
  let ?y = "cam_sync_util_cb_dispatch (sy s)"
  have rk: "row_keys ?y i = row_keys (sy s) i" for i using Cons by (simp add: cam_sync_util_cb_dispatch_def row_keys_def)
  have o: "outstanding (sy s) = add_mset (cb_key cb) (outstanding ?y)"
    using Cons rk by (simp add: outstanding_def) (simp add: cam_sync_util_cb_dispatch_def)
  have y: "cbs_inv ?y"
    using ctx_invD(1) [OF inv] same_core_inv [OF cb_dispatch_same_core, of "sy s"] Cons by (simp add: cbs_inv_def cam_sync_util_cb_dispatch_def)
  show ?thesis
  proof (cases "callback_func cb = sync_cb")
    case True
    show ?thesis
    proof (cases "cb_data cb")
      case (Suc r)
      then have "outstanding (sy s) = add_mset (key r) (outstanding ?y)" using o True by (simp add: cb_key_def)
      from callback_inv [OF inv irq y this, of "cb_status cb"] rk show ?thesis using Cons True Suc by (simp add: sync_worker_def)
    next
      case 0
      have "ctx_inv {} {} {} e (s\<lparr>sy := ?y\<rparr>)" by (rule foreign_callback [OF inv _ y o rk]) (simp add: cb_key_def 0)
      then show ?thesis using Cons True 0 by (simp add: sync_worker_def cam_context_sync_callback_def)
    qed
  next
    case False
    have "ctx_inv {} {} {} e (s\<lparr>sy := ?y\<rparr>)" by (rule foreign_callback [OF inv _ y o rk]) (use False in \<open>simp add: cb_key_def\<close>)
    then show ?thesis using Cons False by (simp add: sync_worker_def)
  qed
qed (use inv in \<open>simp add: sync_worker_def\<close>)

end
