(* ===== verification/Cam_Ctx_Submit.thy ===== *)
theory Cam_Ctx_Submit
  imports Cam_Ctx_Steps
begin

text \<open>
  Submitting a packet keeps the invariant, provided that the manager names at least one input fence and none twice, that
  these fences are valid, and that memory for the callbacks is there. Where one of these fails, the code loses a request or
  a callback.
\<close>

lemma free_quiet:
  assumes "ctx_inv Z W H e s" "c < ctx_size s" "r \<in> set (cx_free (ctxs s c))" "W \<subseteq> H"
  shows "cbs s r = 0" "r \<in> pool (ctxs s c)"
proof -
  have l: "r \<in> pool (ctxs s c)" "r \<notin> set (cx_pending (ctxs s c))" "\<not> flying s c r" "r \<notin> H"
    using lists_okD(7) [OF assms(1,2)] lists_okD(10) [OF assms(1,2), of r] assms(3) by (auto simp: on_lists_def)
  show "r \<in> pool (ctxs s c)" by (rule l(1))
  have rw: "r \<notin> W" using l(4) assms(4) by blast
  show "cbs s r = 0"
  proof (cases "rq_ctx (reqs s r)")
    case (Some d)
    then have "d < ctx_size s \<and> r \<in> pool (ctxs s d)" using ctx_invD(3) [OF assms(1), of r] by (simp add: req_ok_def)
    then have "d = c" using ctx_invD(6) [OF assms(1)] assms(2) l(1) by (auto simp: pools_ok_def)
    then show ?thesis using ctx_invD(3) [OF assms(1), of r] Some l rw by (auto simp: req_ok_def flying_def)
  qed (use ctx_invD(3) [OF assms(1), of r] in \<open>simp add: req_ok_def\<close>)
qed

lemma hand_req:
  assumes inv: "ctx_inv Z W H e s" and c: "c < ctx_size s" "r \<in> pool (ctxs s c)" "r \<in> H" "r \<notin> W" "cbs s r = 0"
    and f: "rq_ctx (f (reqs s r)) = Some c" "\<not> rq_flushed (f (reqs s r))"
  shows "ctx_inv Z W H e (upd_req r f s)"
proof (rule ctx_inv_step [OF inv c(1,2)])
  have u: "r \<notin> linked_in (ctxs s c)" by (rule hand_unlinked [OF inv c(1,3)])
  then show "req_ok Z W (upd_req r f s) r" using c f by (simp add: req_ok_def cbs_def linked_in_def)
  show "lists_ok H (upd_req r f s) c"
    using ctx_invD(4) [OF inv c(1)] u c f unfolding lists_ok_def on_lists_def flying_def by (auto simp: linked_in_def)
qed auto

lemma put_hand:
  assumes "ctx_inv Z {} {r} e s" "c < ctx_size s" "r \<in> pool (ctxs s c)" "cbs s r = 0"
  shows "ctx_inv Z {} {} e (fst (free_req c r rc s))"
  using put_free [OF assms(1,2,3) _ assms(4), of "\<lambda>q. q\<lparr>rq_ctx := None\<rparr>"] by (simp add: free_req_def)

subsection \<open>References to output fences\<close>

lemma moved_get_ref: "moved y (fst (cam_sync_get_obj_ref y f))"
  unfolding cam_sync_get_obj_ref_def by (auto intro: moved_upd_row)

lemma moved_put_ref: "moved y (fst (cam_sync_put_obj_ref y f))"
  unfolding cam_sync_put_obj_ref_def by (auto intro: moved_upd_row)

lemma cbs_inv_get_ref: "cbs_inv y \<Longrightarrow> cbs_inv (fst (cam_sync_get_obj_ref y f))"
  by (rule moved_cbs_inv [OF _ moved_get_ref])
    (auto simp: cbs_inv_def same_core_inv [OF get_obj_ref_same_core])

lemma cbs_inv_put_ref: "cbs_inv y \<Longrightarrow> cbs_inv (fst (cam_sync_put_obj_ref y f))"
  by (rule moved_cbs_inv [OF _ moved_put_ref])
    (auto simp: cbs_inv_def same_core_inv [OF put_obj_ref_same_core])

text \<open>The fields of the state that only the fences can change.\<close>

definition only_sy :: "ctx_sys \<Rightarrow> ctx_sys \<Rightarrow> bool" where
  "only_sy s t \<longleftrightarrow> (\<exists>y. t = s\<lparr>sy := y\<rparr>)"

lemma only_syD:
  assumes "only_sy s t"
  shows "reqs t = reqs s" "ctxs t = ctxs s" "ctx_size t = ctx_size s" "corrupt t = corrupt s" "free_ctx_list t = free_ctx_list s"
    "mm t = mm s" "ht t = ht s" "bm t = bm s" "hw_calls t = hw_calls s" "node_name t = node_name s"
  using assms by (auto simp: only_sy_def)

lemma only_sy_simps [simp]: "only_sy s s" "only_sy s (s\<lparr>sy := y\<rparr>)"
proof -
  have "s = s\<lparr>sy := sy s\<rparr>" by simp
  then show "only_sy s s" unfolding only_sy_def by blast
qed (auto simp: only_sy_def)

lemma only_sy_trans: "only_sy s t \<Longrightarrow> only_sy t u \<Longrightarrow> only_sy s u"
  by (auto simp: only_sy_def)

lemma get_refs_keeps:
  assumes "cbs_inv (sy s)" "get_refs fs i s = (t, rc, n)"
  shows "only_sy s t \<and> moved (sy s) (sy t) \<and> cbs_inv (sy t) \<and> (\<forall>j. bitmap (sy t) j = bitmap (sy s) j \<and> state (sync_table (sy t) j) = state (sync_table (sy s) j))"
  using assms
proof (induction fs arbitrary: s i)
  case (Cons f fs)
  obtain y r where g: "cam_sync_get_obj_ref (sy s) f = (y, r)" by fastforce
  have y: "moved (sy s) y" "cbs_inv y" using moved_get_ref [of "sy s" f] cbs_inv_get_ref [OF Cons.prems(1), of f] g by simp_all
  have st: "bitmap y j = bitmap (sy s) j \<and> state (sync_table y j) = state (sync_table (sy s) j)" for j
    using g by (auto simp: cam_sync_get_obj_ref_def split: if_splits)
  show ?case
  proof (cases r)
    case (Inl err)
    then have "t = s\<lparr>sy := y\<rparr>" using Cons.prems(2) g by simp
    then show ?thesis using y st by simp
  next
    case (Inr u)
    then have "get_refs fs (Suc i) (s\<lparr>sy := y\<rparr>) = (t, rc, n)" using Cons.prems(2) g by simp
    from Cons.IH [OF _ this] y(2)
    have i: "only_sy (s\<lparr>sy := y\<rparr>) t" "moved y (sy t)" "cbs_inv (sy t)"
      "\<forall>j. bitmap (sy t) j = bitmap y j \<and> state (sync_table (sy t) j) = state (sync_table y j)" by simp_all
    show ?thesis using only_sy_trans [OF only_sy_simps(2) i(1)] moved_trans [OF y(1) i(2)] i(3,4) st by simp
  qed
qed simp

lemma put_refs_keeps:
  "cbs_inv (sy s) \<Longrightarrow> only_sy s (put_refs fs s) \<and> moved (sy s) (sy (put_refs fs s)) \<and> cbs_inv (sy (put_refs fs s))"
  unfolding put_refs_def
proof (induction fs arbitrary: s)
  case (Cons f fs)
  let ?s = "s\<lparr>sy := fst (cam_sync_put_obj_ref (sy s) f)\<rparr>"
  have "cbs_inv (sy ?s)" using cbs_inv_put_ref [OF Cons.prems] by simp
  note i = Cons.IH [OF this]
  show ?case using i only_sy_trans [OF only_sy_simps(2) [of s "fst (cam_sync_put_obj_ref (sy s) f)"]]
      moved_trans [OF moved_put_ref [of "sy s" f]] by simp
qed simp

lemma ctx_inv_only_sy:
  assumes "ctx_inv Z W H e s" "only_sy s t" "moved (sy s) (sy t)" "cbs_inv (sy t)"
  shows "ctx_inv Z W H e t" "cbs t r = cbs s r"
proof -
  obtain y where "t = s\<lparr>sy := y\<rparr>" using assms(2) by (auto simp: only_sy_def)
  then show "ctx_inv Z W H e t" "cbs t r = cbs s r"
    using ctx_inv_moved [OF assms(1), of y] assms(3,4) by (simp_all add: moved_def cbs_def)
qed

subsection \<open>Registering the callbacks\<close>

lemma row_keys_out: "cbs_inv y \<Longrightarrow> \<not> i < CAM_SYNC_MAX_OBJS \<Longrightarrow> row_keys y i = {#}"
  by (auto simp: cbs_inv_def sync_inv_pend_def core_def row_keys_def not_less)

lemma register_loop_spec:
  assumes "cbs_inv (sy s)" "0 < cx_refs (ctxs s c)" "\<forall>j. ce_alloc env j"
    "\<forall>f \<in> set fs. in_range f \<and> state (sync_table (sy s) (nat f)) \<noteq> CAM_SYNC_STATE_INVALID"
  shows "\<exists>y. register_loop env c r j fs s =
      (upd_ctx c (\<lambda>x. x\<lparr>cx_refs := cx_refs (ctxs s c) + length fs\<rparr>) (s\<lparr>sy := y\<rparr>), 0) \<and> cbs_inv y \<and>
    outstanding y = outstanding (sy s) + replicate_mset (length fs) (key r) \<and>
    (\<forall>i. \<exists>n \<le> count_list fs (int i). row_keys y i = row_keys (sy s) i + replicate_mset n (key r))"
  using assms
proof (induction fs arbitrary: s j)
  case Nil
  have "upd_ctx c (\<lambda>x. x\<lparr>cx_refs := cx_refs (ctxs s c)\<rparr>) s = s"
    by (simp add: upd_ctx_def)
  then show ?case using Nil by (intro exI [of _ "sy s"]) simp
next
  case (Cons f fs)
  let ?s1 = "cam_context_getref c s"
  have g: "?s1 = upd_ctx c (\<lambda>x. x\<lparr>cx_refs := cx_refs (ctxs s c) + 1\<rparr>) s" using Cons.prems(2) by (simp add: cam_context_getref_def Let_def)
  obtain y rc where reg: "cam_sync_register_callback True (sy s) sync_cb (Suc r) f = (y, rc)" by fastforce
  have f: "in_range f" "state (sync_table (sy s) (nat f)) \<noteq> CAM_SYNC_STATE_INVALID" using Cons.prems(4) by simp_all
  note sp = register_spec [OF Cons.prems(1) reg f]
  let ?s2 = "?s1\<lparr>sy := y\<rparr>"
  have "cbs_inv (sy ?s2)" "0 < cx_refs (ctxs ?s2 c)"
    "\<forall>f \<in> set fs. in_range f \<and> state (sync_table (sy ?s2) (nat f)) \<noteq> CAM_SYNC_STATE_INVALID"
    using sp Cons.prems g by simp_all
  from Cons.IH [OF this(1,2) Cons.prems(3) this(3), of "Suc j"]
  obtain z where z: "register_loop env c r (Suc j) fs ?s2 =
      (upd_ctx c (\<lambda>x. x\<lparr>cx_refs := cx_refs (ctxs ?s2 c) + length fs\<rparr>) (?s2\<lparr>sy := z\<rparr>), 0)" "cbs_inv z"
    "outstanding z = outstanding y + replicate_mset (length fs) (key r)"
    "\<forall>i. \<exists>n \<le> count_list fs (int i). row_keys z i = row_keys y i + replicate_mset n (key r)" by auto
  have "register_loop env c r j (f # fs) s = register_loop env c r (Suc j) fs ?s2"
    using reg sp(1,4) Cons.prems(3) g by (simp add: Let_def)
  also have "\<dots> = (upd_ctx c (\<lambda>x. x\<lparr>cx_refs := cx_refs (ctxs s c) + length (f # fs)\<rparr>) (s\<lparr>sy := z\<rparr>), 0)"
    using z(1) g by (simp add: upd_ctx_def)
  finally have run: "register_loop env c r j (f # fs) s = (upd_ctx c (\<lambda>x. x\<lparr>cx_refs := cx_refs (ctxs s c) + length (f # fs)\<rparr>) (s\<lparr>sy := z\<rparr>), 0)" .
  have rows: "\<exists>n \<le> count_list (f # fs) (int i). row_keys z i = row_keys (sy s) i + replicate_mset n (key r)" for i
  proof -
    obtain n where n: "n \<le> count_list fs (int i)" "row_keys z i = row_keys y i + replicate_mset n (key r)" using z(4) by blast
    from sp(5) [of i] show ?thesis
    proof
      assume "row_keys y i = row_keys (sy s) i"
      then show ?thesis using n by (intro exI [of _ n]) auto
    next
      assume a: "i = nat f \<and> row_keys y i = add_mset (1, Suc r) (row_keys (sy s) i)"
      then have "int i = f" using f(1) by (simp add: in_range_def)
      then show ?thesis using n a by (intro exI [of _ "Suc n"]) auto
    qed
  qed
  show ?case using run z(2,3) sp(3) rows by (intro exI [of _ z]) auto
qed

lemma filter_replicate_mset: "{#k \<in># replicate_mset n x. P k#} = (if P x then replicate_mset n x else {#})"
  by (induction n) simp_all

lemma add_pending_lists:
  "cx_pending (ctxs (add_pending c r s) c) = cx_pending (ctxs s c) @ [r]" "cx_active (ctxs (add_pending c r s) d) = cx_active (ctxs s d)"
  "cx_free (ctxs (add_pending c r s) d) = cx_free (ctxs s d)" "cx_wait (ctxs (add_pending c r s) d) = cx_wait (ctxs s d)"
  by (simp_all add: add_pending_def mark_corrupt_def)

lemma registered_inv:
  assumes inv: "ctx_inv {} {} {r} e s" and c: "c < ctx_size s" "r \<in> pool (ctxs s c)" "cbs s r = 0"
    and q: "rq_ctx (reqs s r) = Some c" "\<not> rq_flushed (reqs s r)" "rq_acked (reqs s r) = 0" "rq_in (reqs s r) = fs" "fs \<noteq> []" "distinct fs"
    and y: "cbs_inv y" "outstanding y = outstanding (sy s) + replicate_mset (length fs) (key r)"
      "\<forall>i. \<exists>n \<le> count_list fs (int i). row_keys y i = row_keys (sy s) i + replicate_mset n (key r)"
    and refs: "0 < cx_refs (ctxs s c)"
    and t: "t = upd_ctx c (\<lambda>x. x\<lparr>cx_refs := cx_refs (ctxs s c) + length fs\<rparr>) ((add_pending c r s)\<lparr>sy := y\<rparr>)"
  shows "ctx_inv {} {} {} e t"
proof (rule ctx_invI)
  have u: "r \<notin> linked_in (ctxs s c)" by (rule hand_unlinked [OF inv c(1)]) simp
  have f: "sy t = y" "reqs t = reqs s" "ctx_size t = ctx_size s" "free_ctx_list t = free_ctx_list s" "corrupt t = corrupt s"
    "\<And>d. pool (ctxs t d) = pool (ctxs s d)" "\<And>d. own (ctxs t d) = own (ctxs s d)" "\<And>d. cx_intf (ctxs t d) = cx_intf (ctxs s d)"
    "\<And>d. d \<noteq> c \<Longrightarrow> ctxs t d = ctxs s d" "cx_refs (ctxs t c) = cx_refs (ctxs s c) + length fs"
    "cx_pending (ctxs t c) = cx_pending (ctxs s c) @ [r]" "\<And>d. cx_active (ctxs t d) = cx_active (ctxs s d)"
    "\<And>d. cx_free (ctxs t d) = cx_free (ctxs s d)" "\<And>d. cx_wait (ctxs t d) = cx_wait (ctxs s d)"
    using u by (simp_all add: t add_pending_lists)
  show "cbs_inv (sy t)" "\<not> corrupt t" using y(1) f ctx_invD(2) [OF inv] by simp_all
  have cb: "cbs t p = cbs s p + (if p = r then length fs else 0)" for p using y(2) f(1) by (simp add: cbs_def)
  have row: "count (row_keys y i) (key p) = count (row_keys (sy s) i) (key p)" if "p \<noteq> r" for i p
  proof -
    obtain n where "row_keys y i = row_keys (sy s) i + replicate_mset n (key r)" using y(3) by blast
    then show ?thesis using that by simp
  qed
  have row_r: "count (row_keys y i) (key r) \<le> 1 \<and> (0 < count (row_keys y i) (key r) \<longrightarrow> int i \<in> set fs)" for i
  proof -
    obtain n where n: "n \<le> count_list fs (int i)" "row_keys y i = row_keys (sy s) i + replicate_mset n (key r)" using y(3) by blast
    have "count (row_keys (sy s) i) (key r) = 0"
      using c(3) mset_subset_eq_count [OF row_keys_sub, of i "sy s" "key r"] row_keys_out [OF ctx_invD(1) [OF inv], of i]
      by (cases "i < CAM_SYNC_MAX_OBJS") (simp_all add: cbs_def)
    then have "count (row_keys y i) (key r) = n" using n(2) by simp
    then show ?thesis using n(1) count_list_distinct [OF q(6), of "int i"] by (auto split: if_splits)
  qed
  show "req_ok {} {} t p" for p
  proof (cases "p = r")
    case True
    have "counted {} t r" using q c row_r cb [of r] f by (simp add: counted_def)
    then show ?thesis using True q c f by (simp add: req_ok_def)
  next
    case False
    show ?thesis
    proof (rule req_ok_cong [OF ctx_invD(3) [OF inv]])
      show "p \<in> set (cx_pending (ctxs t d)) \<longleftrightarrow> p \<in> set (cx_pending (ctxs s d))" for d
        using f(9) [of d] f(11) False by (cases "d = c") simp_all
    qed (use False f cb row in simp_all)
  qed
  show "lists_ok {} t d" if "d < ctx_size t" for d
  proof (cases "d = c")
    case True
    then show ?thesis using ctx_invD(4) [OF inv c(1)] u c q unfolding lists_ok_def on_lists_def flying_def
      by (auto simp: f linked_in_def)
  next
    case False
    have "r \<notin> pool (ctxs s d)" using ctx_invD(6) [OF inv] that c False f(3) by (auto simp: pools_ok_def)
    then show ?thesis using ctx_invD(4) [OF inv, of d] that False unfolding lists_ok_def flying_def by (auto simp: f)
  qed
  show "refs_ok e t d" if "d < ctx_size t" for d
  proof -
    have "d \<noteq> c \<Longrightarrow> r \<notin> pool (ctxs s d)" using ctx_invD(6) [OF inv] that c f(3) by (auto simp: pools_ok_def)
    then have "ctx_cbs t d = ctx_cbs s d + (if d = c then length fs else 0)"
      using c(2) y(2) f by (auto simp: ctx_cbs_def filter_replicate_mset)
    then show ?thesis using ctx_invD(5) [OF inv, of d] that f by (auto simp: refs_ok_def)
  qed
  show "pools_ok t" using ctx_invD(6) [OF inv] f by (simp add: pools_ok_def)
  have "cx_refs (ctxs t d) = 0 \<longleftrightarrow> cx_refs (ctxs s d) = 0" for d using f(9) [of d] f(10) refs by (cases "d = c") simp_all
  then show "free_ok t" using ctx_invD(7) [OF inv] f by (simp add: free_ok_def)
qed

lemma check_valid_all_iff:
  "check_valid_all y fs = Ok () \<longleftrightarrow> (\<forall>f \<in> set fs. in_range f \<and> bitmap y (nat f) \<and> state (sync_table y (nat f)) \<noteq> CAM_SYNC_STATE_INVALID)"
  by (induction fs) (auto simp: cam_sync_check_valid_def split: sum.split)

lemma put_cpu_inv [simp]: "ctx_inv Z W H e (put_cpu env h s) = ctx_inv Z W H e s"
  by (simp add: put_cpu_def)

lemma put_cpu_simps [simp]:
  "sy (put_cpu env h s) = sy s" "reqs (put_cpu env h s) = reqs s" "ctxs (put_cpu env h s) = ctxs s" "ctx_size (put_cpu env h s) = ctx_size s"
  by (simp_all add: put_cpu_def)

lemma submit_req_inv:
  assumes inv: "ctx_inv {} {} {r} e s" and c: "c < ctx_size s" "r \<in> pool (ctxs s c)" "cbs s r = 0" "0 < cx_refs (ctxs s c)"
    and q: "rq_ctx (reqs s r) = Some c" "\<not> rq_flushed (reqs s r)" "rq_acked (reqs s r) = 0"
    and fs: "rq_in (reqs s r) \<noteq> []" "distinct (rq_in (reqs s r))" "check_valid_all (sy s) (rq_in (reqs s r)) = Ok ()" "\<forall>j. ce_alloc env j"
  shows "ctx_inv {} {} {} e (fst (submit_req env c r h s))"
proof -
  let ?out = "rq_out (reqs s r)" and ?ins = "rq_in (reqs s r)"
  obtain s1 rc i where g: "get_refs ?out 0 s = (s1, rc, i)" by (metis prod_cases3)
  note k1 = get_refs_keeps [OF ctx_invD(1) [OF inv] g]
  have o1: "only_sy s s1" "moved (sy s) (sy s1)" "cbs_inv (sy s1)" using k1 by simp_all
  have i1: "ctx_inv {} {} {r} e s1" "cbs s1 r = 0" using ctx_inv_only_sy(1) [OF inv o1] ctx_inv_only_sy(2) [OF inv o1, of r] c by simp_all
  note d1 = only_syD [OF o1(1)]
  show ?thesis
  proof (cases "rc = 0")
    case False
    let ?p = "put_refs (rev (take i ?out)) s1"
    have p: "only_sy s1 ?p" "moved (sy s1) (sy ?p)" "cbs_inv (sy ?p)" using put_refs_keeps [OF o1(3)] by simp_all
    have ip: "ctx_inv {} {} {r} e ?p" "cbs ?p r = 0" using ctx_inv_only_sy(1) [OF i1(1) p] ctx_inv_only_sy(2) [OF i1(1) p, of r] i1(2) by simp_all
    have "ctx_inv {} {} {} e (fst (free_req c r rc (put_cpu env h ?p)))"
      by (rule put_hand) (use ip c d1 only_syD [OF p(1)] in \<open>simp_all add: cbs_def\<close>)
    then show ?thesis using g False by (simp add: submit_req_def free_cpu_buf_def Let_def)
  next
    case True
    let ?s2 = "add_pending c r s1"
    have v: "check_valid_all (sy ?s2) ?ins = Ok ()" using fs(3) k1 by (simp add: check_valid_all_iff)
    then have "\<forall>f \<in> set ?ins. in_range f \<and> state (sync_table (sy ?s2) (nat f)) \<noteq> CAM_SYNC_STATE_INVALID" by (simp add: check_valid_all_iff)
    from register_loop_spec [OF _ _ fs(4) this, of c r 0] o1(3) c(4) d1
    obtain y where y: "register_loop env c r 0 ?ins ?s2 = (upd_ctx c (\<lambda>x. x\<lparr>cx_refs := cx_refs (ctxs ?s2 c) + length ?ins\<rparr>) (?s2\<lparr>sy := y\<rparr>), 0)"
      "cbs_inv y" "outstanding y = outstanding (sy s1) + replicate_mset (length ?ins) (key r)"
      "\<forall>i. \<exists>n \<le> count_list ?ins (int i). row_keys y i = row_keys (sy s1) i + replicate_mset n (key r)" by auto
    have "ctx_inv {} {} {} e (upd_ctx c (\<lambda>x. x\<lparr>cx_refs := cx_refs (ctxs s1 c) + length ?ins\<rparr>) (?s2\<lparr>sy := y\<rparr>))"
      by (rule registered_inv [OF i1(1) _ _ i1(2) _ _ _ _ _ _ y(2-4)]) (use c q fs d1 in simp_all)
    then show ?thesis using g True v fs(1) y(1) by (simp add: submit_req_def Let_def)
  qed
qed

subsection \<open>Packets\<close>

text \<open>What keeps submissions in order.\<close>

definition clean_env :: "ctx_env \<Rightarrow> ctx_sys \<Rightarrow> bool" where
  "clean_env env s \<longleftrightarrow> \<not> ce_irq env \<and> (\<forall>j. ce_alloc env j) \<and>
     (\<forall>calls p. hw_prepare_update (ce_hw env) calls = (0, p) \<longrightarrow>
        hp_in p \<noteq> [] \<and> distinct (hp_in p) \<and> check_valid_all (sy s) (hp_in p) = Ok ())"

lemma prepare_inv:
  assumes inv: "ctx_ok s" and c: "c < ctx_size s" "0 < cx_refs (ctxs s c)" and env: "clean_env env s"
  shows "ctx_ok (fst (cam_context_prepare_dev_to_hw env c cmd s))"
proof (cases "cx_free (ctxs s c)")
  case (Cons r rs)
  then have r: "r \<in> set (cx_free (ctxs s c))" by simp
  note q = free_quiet [OF inv c(1) r]
  define s1 where "s1 = upd_req r (\<lambda>_. zero_request\<lparr>rq_ctx := Some c\<rparr>) (list_del_init c r s)"
  have i0: "ctx_inv {} {} {r} (\<lambda>_. 0) (list_del_init c r s)" using del_hand [OF inv c(1), of r] r by simp
  have i1: "ctx_inv {} {} {r} (\<lambda>_. 0) s1"
    unfolding s1_def by (rule hand_req [OF i0]) (use c q in \<open>simp_all add: cbs_def zero_request_def\<close>)
  have f1: "sy s1 = sy s" "ctx_size s1 = ctx_size s" "pool (ctxs s1 c) = pool (ctxs s c)" "cx_refs (ctxs s1 c) = cx_refs (ctxs s c)"
    "reqs s1 r = zero_request\<lparr>rq_ctx := Some c\<rparr>" by (simp_all add: s1_def)
  have fr: "ctx_ok (fst (free_req c r rc t))" if "ctx_inv {} {} {r} (\<lambda>_. 0) t" "sy t = sy s" "ctx_size t = ctx_size s" "pool (ctxs t c) = pool (ctxs s c)" for rc t
    by (rule put_hand) (use that c q in \<open>simp_all add: cbs_def\<close>)
  have fc: "ctx_ok (fst (free_cpu_buf env h c r rc t))" if "ctx_inv {} {} {r} (\<lambda>_. 0) t" "sy t = sy s" "ctx_size t = ctx_size s" "pool (ctxs t c) = pool (ctxs s c)" for rc t h
    unfolding free_cpu_buf_def by (rule fr) (use that in simp_all)
  have sub: "ctx_ok (fst (submit_req env c r h (upd_req r (fill_request c rid p) (call_hw k (upd_ctx c (\<lambda>x. x\<lparr>cx_last_flush := 0\<rparr>) (s1\<lparr>mm := m\<rparr>))))))"
    if "hw_prepare_update (ce_hw env) calls = (0, p)" for h rid p k m calls
  proof (rule submit_req_inv)
    have e: "hp_in p \<noteq> []" "distinct (hp_in p)" "check_valid_all (sy s) (hp_in p) = Ok ()" "\<forall>j. ce_alloc env j"
      using env that by (auto simp: clean_env_def)
    let ?t = "call_hw k (upd_ctx c (\<lambda>x. x\<lparr>cx_last_flush := 0\<rparr>) (s1\<lparr>mm := m\<rparr>))"
    have "ctx_inv {} {} {r} (\<lambda>_. 0) ?t" using i1 by (simp add: ctx_inv_upd_ctx list_view_def own_def)
    then show "ctx_inv {} {} {r} (\<lambda>_. 0) (upd_req r (fill_request c rid p) ?t)"
      by (rule hand_req) (use c q f1 in \<open>simp_all add: cbs_def fill_request_def zero_request_def\<close>)
  qed (use c q f1 env that in \<open>auto simp: cbs_def fill_request_def zero_request_def clean_env_def\<close>)
  have v: "cam_context_validate_thread env = 0" using env by (simp add: cam_context_validate_thread_def clean_env_def)
  show ?thesis
  proof (cases cmd)
    case None
    then show ?thesis using inv by (simp add: cam_context_prepare_dev_to_hw_def)
  next
    case (Some k)
    obtain m rc va len where g: "cam_mem_get_cpu_buf (ce_mem env) (ucast (cd_packet k)) (mm s1) = (m, rc, va, len)" by (metis prod_cases4)
    define s2 where "s2 = s1\<lparr>mm := m\<rparr>"
    define s3 where "s3 = upd_ctx c (\<lambda>x. x\<lparr>cx_last_flush := 0\<rparr>) s2"
    define packet where "packet = va + ucast (ucast (cd_offset k) :: u32)"
    define s4 where "s4 = call_hw (Hw_prepare (cx_hw_map (ctxs s3 c)) packet (len - cd_offset k)) s3"
    obtain rc' p where hp: "hw_prepare_update (ce_hw env) (hw_calls s4) = (rc', p)" by fastforce
    have i2: "ctx_inv {} {} {r} (\<lambda>_. 0) s2" "ctx_inv {} {} {r} (\<lambda>_. 0) s4"
      using i1 by (simp_all add: s2_def s3_def s4_def ctx_inv_upd_ctx list_view_def)
    have f2: "sy s2 = sy s" "ctx_size s2 = ctx_size s" "pool (ctxs s2 c) = pool (ctxs s c)" "sy s4 = sy s" "ctx_size s4 = ctx_size s" "pool (ctxs s4 c) = pool (ctxs s c)"
      using f1 by (simp_all add: s2_def s3_def s4_def)
    note r2 = fr [OF i2(1) f2(1-3)] fc [OF i2(1) f2(1-3)] fc [OF i2(2) f2(4-6)]
    have sb: "ctx_ok (fst (submit_req env c r h (upd_req r (fill_request c rid p) s4)))" if "rc' = 0" for h rid
      using sub [OF hp [unfolded that]] by (simp add: s4_def s3_def s2_def)
    show ?thesis
      using r2 sb by (simp add: cam_context_prepare_dev_to_hw_def Some Cons v intf_ok [OF inv c(1)] s1_def [symmetric] Let_def g
          s2_def [symmetric] s3_def [symmetric] packet_def [symmetric] s4_def [symmetric] hp)
  qed
qed (use inv in \<open>auto simp: cam_context_prepare_dev_to_hw_def split: option.split\<close>)

lemma config_stream_inv: "ctx_inv Z W H e s \<Longrightarrow> ctx_inv Z W H e (fst (cam_context_config_dev_to_hw env c cmd s))"
  by (auto simp: cam_context_config_dev_to_hw_def Let_def split: option.split prod.split)

end
