(* ===== verification/Cam_Ctx_Machine.thy ===== *)
theory Cam_Ctx_Machine
  imports Cam_Ctx_Submit
begin

text \<open>
  The node and its contexts as a state machine: every operation of a state machine keeps the invariant, and so do the
  handing out of a context and its release.
\<close>

subsection \<open>States and references\<close>

lemma own_state: "own (x\<lparr>cx_state := st\<rparr>) = (if st = CAM_CTX_UNINIT \<or> st = CAM_CTX_AVAILABLE then 0 else 1)"
  by (simp add: own_def)

lemma ctx_inv_refs:
  assumes inv: "ctx_inv Z W H e s" and same: "ctx_view t = ctx_view s"
    and l: "\<And>d. d \<noteq> c \<Longrightarrow> list_view (ctxs t d) = list_view (ctxs s d)"
    and c: "cx_active (ctxs t c) = cx_active (ctxs s c)" "cx_pending (ctxs t c) = cx_pending (ctxs s c)" "cx_wait (ctxs t c) = cx_wait (ctxs s c)"
      "cx_free (ctxs t c) = cx_free (ctxs s c)" "pool (ctxs t c) = pool (ctxs s c)" "cx_intf (ctxs t c) = cx_intf (ctxs s c)"
      "cx_refs (ctxs t c) = cx_refs (ctxs s c)"
    and o: "own (ctxs t c) + e' c = own (ctxs s c) + e c" "\<And>d. d \<noteq> c \<Longrightarrow> e' d = e d"
  shows "ctx_inv Z W H e' t"
proof -
  have v: "sy t = sy s" "corrupt t = corrupt s" "reqs t = reqs s" "ctx_size t = ctx_size s" "free_ctx_list t = free_ctx_list s"
    using same by (simp_all add: ctx_view_def)
  have d: "cx_active (ctxs t d) = cx_active (ctxs s d)" "cx_pending (ctxs t d) = cx_pending (ctxs s d)" "cx_wait (ctxs t d) = cx_wait (ctxs s d)"
    "cx_free (ctxs t d) = cx_free (ctxs s d)" "pool (ctxs t d) = pool (ctxs s d)" "cx_intf (ctxs t d) = cx_intf (ctxs s d)"
    "on_lists (ctxs t d) = on_lists (ctxs s d)" "cx_refs (ctxs t d) = cx_refs (ctxs s d)" for d
    using l [of d] c by (cases "d = c"; simp add: list_view_def pool_def on_lists_def)+
  have r: "refs_ok e' t d" if "refs_ok e s d" for d
    using that o l [of d] by (cases "d = c") (auto simp: refs_ok_def ctx_cbs_def v d list_view_def)
  have "req_ok Z W t q = req_ok Z W s q" "lists_ok H t d = lists_ok H s d" "pools_ok t = pools_ok s" "free_ok t = free_ok s" for q d
    unfolding req_ok_def counted_def lists_ok_def flying_def cbs_def pools_ok_def free_ok_def v d by (rule refl)+
  then show ?thesis using inv r by (simp add: ctx_inv_def v)
qed

lemma set_state_inv:
  assumes "ctx_inv Z W H e s" "own (ctxs (set_state c st s) c) + e' c = own (ctxs s c) + e c" "\<And>d. d \<noteq> c \<Longrightarrow> e' d = e d"
  shows "ctx_inv Z W H e' (set_state c st s)"
  by (rule ctx_inv_refs [OF assms(1), where c = c]) (use assms(2,3) in \<open>auto simp: set_state_def ctx_view_def\<close>)

lemma set_state_simps [simp]:
  "ctx_size (set_state c st s) = ctx_size s" "sy (set_state c st s) = sy s" "reqs (set_state c st s) = reqs s"
  "cx_state (ctxs (set_state c st s) c) = st" "d \<noteq> c \<Longrightarrow> ctxs (set_state c st s) d = ctxs s d"
  by (simp_all add: set_state_def)

subsection \<open>Operations that leave requests alone\<close>

lemma release_to_hw_inv:
  "ctx_inv Z W H e s \<Longrightarrow> ctx_inv Z W H e (fst (cam_context_release_dev_to_hw env c s))"
  "ctx_size (fst (cam_context_release_dev_to_hw env c s)) = ctx_size s"
  "cx_state (ctxs (fst (cam_context_release_dev_to_hw env c s)) d) = cx_state (ctxs s d)"
  "sy (fst (cam_context_release_dev_to_hw env c s)) = sy s"
  by (simp_all add: cam_context_release_dev_to_hw_def ctx_inv_upd_ctx list_view_def own_def)

lemma start_to_hw_inv:
  "ctx_inv Z W H e s \<Longrightarrow> ctx_inv Z W H e (fst (cam_context_start_dev_to_hw env c cmd s))"
  "cx_state (ctxs (fst (cam_context_start_dev_to_hw env c cmd s)) d) = cx_state (ctxs s d)"
  by (auto simp: cam_context_start_dev_to_hw_def Let_def split: option.split prod.split)

lemma acquire_to_hw_inv:
  assumes "cam_context_acquire_dev_to_hw env c cmd s = (t, rc, h)"
  shows "ctx_inv Z W H e s \<Longrightarrow> ctx_inv Z W H e t" "ctx_size t = ctx_size s" "sy t = sy s" "reqs t = reqs s"
    "cx_state (ctxs t d) = cx_state (ctxs s d)" "pool (ctxs t d) = pool (ctxs s d)"
  using assms unfolding cam_context_acquire_dev_to_hw_def
  by (auto simp: Let_def ctx_inv_upd_ctx list_view_def own_def pool_def split: option.splits prod.splits if_splits sum.splits)

lemma stop_to_hw_inv:
  assumes "ctx_inv Z {} {} e s" "c < ctx_size s"
  shows "ctx_inv Z {} {} e (fst (cam_context_stop_dev_to_hw env c s))"
  using flush_ctx_inv [OF assms, of env] assms(1) by (auto simp: cam_context_stop_dev_to_hw_def split: prod.split)

lemma flush_to_hw_inv:
  assumes "ctx_inv Z {} {} e s" "c < ctx_size s"
  shows "ctx_inv Z {} {} e (fst (cam_context_flush_dev_to_hw env c cmd s))"
proof -
  have "ctx_inv Z {} {} e (upd_ctx c (\<lambda>x. x\<lparr>cx_last_flush := v\<rparr>) s)" for v
    using assms(1) by (simp add: ctx_inv_upd_ctx list_view_def)
  from flush_ctx_inv [OF this, of c] flush_req_inv [OF assms, of env] assms show ?thesis
    by (auto simp: cam_context_flush_dev_to_hw_def split: option.split prod.split)
qed

lemma dump_to_hw_inv: "ctx_inv Z W H e s \<Longrightarrow> ctx_inv Z W H e (fst (cam_context_dump_dev_to_hw env c cmd s))"
proof -
  have "ctx_inv Z W H e (fst (cam_context_dump_context env c h off t))" if "ctx_inv Z W H e t" for t h off
    using that by (auto simp: cam_context_dump_context_def Let_def split: list.split prod.split)
  then show ?thesis if "ctx_inv Z W H e s"
    using that by (auto simp: cam_context_dump_dev_to_hw_def Let_def split: option.split prod.split) (metis ctx_inv_other(1) fst_conv)
qed

lemma pf_loop_inv: "ctx_inv Z W H e s \<Longrightarrow> ctx_inv Z W H e (fst (pf_loop env c iova b rs rc s))"
  by (induction rs arbitrary: s rc) (auto simp: cam_context_dump_pf_info_to_hw_def Let_def)

subsection \<open>The operations of the state machines\<close>

lemma flush_ctx_frame:
  "cx_state (ctxs (fst (cam_context_flush_ctx_to_hw env c s)) d) = cx_state (ctxs s d)"
  "ctx_size (fst (cam_context_flush_ctx_to_hw env c s)) = ctx_size s"
  by (auto simp: cam_context_flush_ctx_to_hw_def Let_def fold_pending fold_active)

lemma stop_frame:
  "cx_state (ctxs (fst (cam_context_stop_dev_to_hw env c s)) d) = cx_state (ctxs s d)"
  "ctx_size (fst (cam_context_stop_dev_to_hw env c s)) = ctx_size s"
  using flush_ctx_frame [of env c s] by (auto simp: cam_context_stop_dev_to_hw_def split: prod.split)

lemma stop_ok: "ctx_inv Z W H e s \<Longrightarrow> c < ctx_size s \<Longrightarrow> \<not> ce_irq env \<Longrightarrow> snd (cam_context_stop_dev_to_hw env c s) = 0"
  using intf_ok by (auto simp: cam_context_stop_dev_to_hw_def cam_context_validate_thread_def cam_context_flush_ctx_to_hw_def Let_def)

lemma release_to_hw_ok: "ctx_inv Z W H e s \<Longrightarrow> c < ctx_size s \<Longrightarrow> hw_release (ce_hw env) \<Longrightarrow> snd (cam_context_release_dev_to_hw env c s) = 0"
  using intf_ok by (auto simp: cam_context_release_dev_to_hw_def)

lemmas jpeg_ops = cam_jpeg_ctx_acquire_dev_in_available_def cam_jpeg_ctx_release_dev_in_acquired_def cam_jpeg_ctx_dump_dev_in_acquired_def
  cam_jpeg_ctx_flush_dev_in_acquired_def cam_jpeg_ctx_config_dev_in_acquired_def cam_jpeg_ctx_handle_buf_done_in_acquired_def
  cam_jpeg_ctx_stop_dev_in_acquired_def cam_jpeg_context_dump_active_request_def

lemmas icp_ops = cam_icp_acquire_dev_in_available_def cam_icp_release_dev_in_acquired_def cam_icp_start_dev_in_acquired_def
  cam_icp_dump_dev_in_ready_def cam_icp_flush_dev_in_ready_def cam_icp_stop_dev_in_ready_def cam_icp_release_dev_in_ready_def
  cam_icp_handle_buf_done_in_ready_def cam_icp_context_dump_active_request_def

lemmas lrme_ops = cam_lrme_ctx_acquire_dev_in_available_def cam_lrme_ctx_release_dev_in_acquired_def cam_lrme_ctx_start_dev_in_acquired_def
  cam_lrme_ctx_config_dev_in_activated_def cam_lrme_ctx_dump_dev_in_activated_def cam_lrme_ctx_flush_dev_in_activated_def
  cam_lrme_ctx_stop_dev_in_activated_def cam_lrme_ctx_release_dev_in_activated_def cam_lrme_ctx_handle_irq_in_activated_def

lemmas fd_ops = cam_fd_ctx_acquire_dev_in_available_def cam_fd_ctx_release_dev_in_acquired_def cam_fd_ctx_config_dev_in_acquired_def
  cam_fd_ctx_start_dev_in_acquired_def cam_fd_ctx_stop_dev_in_activated_def cam_fd_ctx_release_dev_in_activated_def
  cam_fd_ctx_dump_dev_in_activated_def cam_fd_ctx_flush_dev_in_activated_def cam_fd_ctx_config_dev_in_activated_def
  cam_fd_ctx_handle_irq_in_activated_def

lemma no_ops_simps [simp]:
  "op_acquire_dev no_ops = None" "op_release_dev no_ops = None" "op_config_dev no_ops = None" "op_start_dev no_ops = None"
  "op_stop_dev no_ops = None" "op_flush_dev no_ops = None" "op_dump_dev no_ops = None" "op_irq no_ops = None" "op_pagefault no_ops = None"
  "op_acquire_hw no_ops = None" "op_release_hw no_ops = None" "op_get_dev_info no_ops = None" "op_link no_ops = None" "op_unlink no_ops = None"
  "op_apply_req no_ops = None" "op_flush_req no_ops = None" "op_process_evt no_ops = None" "op_dump_req no_ops = None"
  by (simp_all add: no_ops_def)

text \<open>The operations the tables hold.\<close>

lemma op_irq_table: "ctx_ops x = Some ops \<Longrightarrow> op_irq ops = Some f \<Longrightarrow> f env c evt d s = cam_context_buf_done_from_hw env c d evt s"
  by (cases "cx_state x") (auto simp: ctx_ops_def jpeg_ops icp_ops lrme_ops fd_ops split: option.splits ctx_machine.splits)

lemma op_flush_table: "ctx_ops x = Some ops \<Longrightarrow> op_flush_dev ops = Some f \<Longrightarrow> f env c cmd s = cam_context_flush_dev_to_hw env c cmd s"
  by (cases "cx_state x") (auto simp: ctx_ops_def jpeg_ops icp_ops lrme_ops fd_ops split: option.splits ctx_machine.splits)

lemma op_dump_table: "ctx_ops x = Some ops \<Longrightarrow> op_dump_dev ops = Some f \<Longrightarrow> f env c cmd s = cam_context_dump_dev_to_hw env c cmd s"
  by (cases "cx_state x") (auto simp: ctx_ops_def jpeg_ops icp_ops lrme_ops fd_ops split: option.splits ctx_machine.splits)

lemma op_pagefault_table:
  "ctx_ops x = Some ops \<Longrightarrow> op_pagefault ops = Some f \<Longrightarrow>
     fst (f env c iova b s) = s \<or> fst (f env c iova b s) = fst (pf_loop env c iova b (cx_active (ctxs s c)) 0 s)"
  by (cases "cx_state x") (auto simp: ctx_ops_def jpeg_ops icp_ops lrme_ops fd_ops split: option.splits ctx_machine.splits)

lemma op_config_table:
  "ctx_ops x = Some ops \<Longrightarrow> op_config_dev ops = Some f \<Longrightarrow>
     own x = 1 \<and> (f = cam_icp_config_dev_in_ready \<or> (\<forall>env c cmd s. f env c cmd s = cam_context_prepare_dev_to_hw env c cmd s))"
  by (cases "cx_state x") (auto simp: ctx_ops_def jpeg_ops icp_ops lrme_ops fd_ops own_def split: option.splits ctx_machine.splits)

lemma op_start_table:
  "ctx_ops x = Some ops \<Longrightarrow> op_start_dev ops = Some f \<Longrightarrow>
     cx_state x = CAM_CTX_ACQUIRED \<and> (fst (f env c cmd s) = fst (cam_context_start_dev_to_hw env c cmd s) \<or>
       fst (f env c cmd s) = set_state c CAM_CTX_READY (fst (cam_context_start_dev_to_hw env c cmd s)) \<or>
       fst (f env c cmd s) = set_state c CAM_CTX_ACTIVATED (fst (cam_context_start_dev_to_hw env c cmd s)))"
  by (cases "cx_state x") (auto simp: ctx_ops_def jpeg_ops icp_ops lrme_ops fd_ops split: option.splits ctx_machine.splits prod.split)

lemma op_stop_table:
  "ctx_ops x = Some ops \<Longrightarrow> op_stop_dev ops = Some f \<Longrightarrow>
     own x = 1 \<and> (fst (f env c s) = fst (cam_context_stop_dev_to_hw env c s) \<or>
       fst (f env c s) = set_state c CAM_CTX_ACQUIRED (fst (cam_context_stop_dev_to_hw env c s)))"
  by (cases "cx_state x") (auto simp: ctx_ops_def jpeg_ops icp_ops lrme_ops fd_ops own_def split: option.splits ctx_machine.splits prod.split)

lemma op_release_table:
  "ctx_ops x = Some ops \<Longrightarrow> op_release_dev ops = Some f \<Longrightarrow>
     own x = 1 \<and> f \<in> {cam_jpeg_ctx_release_dev_in_acquired, cam_icp_release_dev_in_acquired, cam_icp_release_dev_in_ready,
       cam_lrme_ctx_release_dev_in_acquired, cam_lrme_ctx_release_dev_in_activated, cam_fd_ctx_release_dev_in_acquired,
       cam_fd_ctx_release_dev_in_activated}"
  by (cases "cx_state x") (auto simp: ctx_ops_def own_def split: option.splits ctx_machine.splits)

lemma op_release_complete:
  "ctx_ops x = Some ops \<Longrightarrow> own x = 1 \<Longrightarrow> cx_state x = CAM_CTX_ACQUIRED \<Longrightarrow> op_release_dev ops \<noteq> None"
  by (auto simp: ctx_ops_def split: option.splits ctx_machine.splits)

lemma op_acquire_table:
  "ctx_ops x = Some ops \<Longrightarrow> op_acquire_dev ops = Some f \<Longrightarrow>
     cx_state x = CAM_CTX_AVAILABLE \<and> f \<in> {cam_jpeg_ctx_acquire_dev_in_available, cam_icp_acquire_dev_in_available,
       cam_lrme_ctx_acquire_dev_in_available, cam_fd_ctx_acquire_dev_in_available}"
  by (cases "cx_state x") (auto simp: ctx_ops_def split: option.splits ctx_machine.splits)

subsection \<open>Dispatched operations keep the invariant\<close>

lemma handle_irq_inv:
  "ctx_inv Z {} {} e s \<Longrightarrow> c < ctx_size s \<Longrightarrow> ctx_inv Z {} {} e (fst (cam_context_handle_hw_event env c evt d s))"
  by (auto simp: cam_context_handle_hw_event_def op_irq_table buf_done_inv split: option.split)

lemma handle_flush_inv:
  "ctx_inv Z {} {} e s \<Longrightarrow> c < ctx_size s \<Longrightarrow> ctx_inv Z {} {} e (fst (cam_context_handle_flush_dev env c cmd s))"
  by (auto simp: cam_context_handle_flush_dev_def op_flush_table flush_to_hw_inv split: option.split)

lemma handle_dump_inv: "ctx_inv Z W H e s \<Longrightarrow> ctx_inv Z W H e (fst (cam_context_handle_dump_dev env c cmd s))"
  by (auto simp: cam_context_handle_dump_dev_def op_dump_table dump_to_hw_inv split: option.split prod.split)

lemma handle_pf_inv: "ctx_inv Z W H e s \<Longrightarrow> ctx_inv Z W H e (fst (cam_context_dump_pf_info env c iova b s))"
proof (cases "ctx_ops (ctxs s c)")
  case (Some ops)
  assume "ctx_inv Z W H e s"
  then show ?thesis using Some op_pagefault_table [OF Some, of _ env c iova b s] pf_loop_inv [of Z W H e s env c iova b]
    by (auto simp: cam_context_dump_pf_info_def split: option.split)
qed (simp add: cam_context_dump_pf_info_def)

lemma handle_start_inv:
  assumes inv: "ctx_inv Z W H e s"
  shows "ctx_inv Z W H e (fst (cam_context_handle_start_dev env c cmd s))"
proof (cases "ctx_ops (ctxs s c)")
  case ops: (Some ops)
  show ?thesis
  proof (cases "op_start_dev ops")
    case (Some f)
    let ?s = "fst (cam_context_start_dev_to_hw env c cmd s)"
    have st: "cx_state (ctxs s c) = CAM_CTX_ACQUIRED" using op_start_table [OF ops Some] by blast
    have i: "ctx_inv Z W H e ?s" by (rule start_to_hw_inv(1) [OF inv])
    have "ctx_inv Z W H e (set_state c st ?s)" if "st \<in> {CAM_CTX_READY, CAM_CTX_ACTIVATED}" for st
      by (rule set_state_inv [OF i]) (use start_to_hw_inv(2) [of env c cmd s c] st that in \<open>auto simp: own_def\<close>)
    then have "ctx_inv Z W H e (fst (f env c cmd s))" using op_start_table [OF ops Some, of env c cmd s] i by auto
    then show ?thesis using inv ops Some by (simp add: cam_context_handle_start_dev_def)
  qed (use inv ops in \<open>simp add: cam_context_handle_start_dev_def\<close>)
qed (use inv in \<open>simp add: cam_context_handle_start_dev_def\<close>)

lemma handle_stop_inv:
  assumes inv: "ctx_inv Z {} {} e s" and c: "c < ctx_size s"
  shows "ctx_inv Z {} {} e (fst (cam_context_handle_stop_dev env c s))"
proof -
  have l: "ctx_inv Z {} {} e (upd_ctx c (\<lambda>x. x\<lparr>cx_last_flush := 0\<rparr>) t)" if "ctx_inv Z {} {} e t" for t
    using that by (simp add: ctx_inv_upd_ctx list_view_def)
  have "ctx_inv Z {} {} e (fst (f env c s))" if ops: "ctx_ops (ctxs s c) = Some ops" "op_stop_dev ops = Some f" for ops f
  proof -
    have i: "ctx_inv Z {} {} e (fst (cam_context_stop_dev_to_hw env c s))" by (rule stop_to_hw_inv [OF inv c])
    have "ctx_inv Z {} {} e (set_state c CAM_CTX_ACQUIRED (fst (cam_context_stop_dev_to_hw env c s)))"
      by (rule set_state_inv [OF i]) (use op_stop_table [OF ops] in \<open>auto simp: own_def stop_frame split: if_splits\<close>)
    with i op_stop_table [OF ops, of env c s] show ?thesis by auto
  qed
  then show ?thesis using inv l by (auto simp: cam_context_handle_stop_dev_def Let_def split: option.split prod.split) (metis fst_conv)
qed

lemma refs_pos: "ctx_inv Z W H e s \<Longrightarrow> c < ctx_size s \<Longrightarrow> own (ctxs s c) = 1 \<Longrightarrow> 0 < cx_refs (ctxs s c)"
  by (auto dest: ctx_invD(5) simp: refs_ok_def)

lemma clean_env_mm [simp]: "clean_env env (s\<lparr>mm := m\<rparr>) = clean_env env s"
  by (simp add: clean_env_def)

lemma handle_config_inv:
  assumes inv: "ctx_ok s" and c: "c < ctx_size s" and env: "clean_env env s"
  shows "ctx_ok (fst (cam_context_handle_config_dev env c cmd s))"
proof -
  have "ctx_ok (fst (f env c cmd s))" if ops: "ctx_ops (ctxs s c) = Some ops" "op_config_dev ops = Some f" for ops f
  proof -
    have o: "own (ctxs s c) = 1" using op_config_table [OF ops] by blast
    have pos: "0 < cx_refs (ctxs s c)" by (rule refs_pos [OF inv c o])
    have p: "ctx_ok (fst (cam_context_prepare_dev_to_hw env c cmd (s\<lparr>mm := m\<rparr>)))" for m
      by (rule prepare_inv) (use inv c env pos in simp_all)
    have p0: "ctx_ok (fst (cam_context_prepare_dev_to_hw env c cmd s))" by (rule prepare_inv [OF inv c pos env])
    have q: "ctx_ok (fst (cam_context_config_dev_to_hw env c cmd (s\<lparr>mm := m\<rparr>)))" for m
      by (rule config_stream_inv) (use inv in simp)
    have "ctx_ok (fst (cam_icp_config_dev_in_ready env c cmd s))"
      using inv p q by (auto simp: cam_icp_config_dev_in_ready_def Let_def split: option.split prod.split)
    then show ?thesis using op_config_table [OF ops] p0 by auto
  qed
  then show ?thesis using inv by (auto simp: cam_context_handle_config_dev_def split: option.split)
qed

subsection \<open>Releasing and handing out a context\<close>

lemma to_available:
  assumes "ctx_inv Z W H e s" "own (ctxs s c) = 1"
  shows "ctx_inv Z W H (e(c := Suc (e c))) (set_state c CAM_CTX_AVAILABLE (fst (cam_context_release_dev_to_hw env c s)))"
  by (rule set_state_inv [OF release_to_hw_inv(1) [OF assms(1)]])
    (use assms(2) release_to_hw_inv(3) [of env c s c] in \<open>auto simp: own_def split: if_splits\<close>)

lemma stopped:
  assumes "ctx_inv Z {} {} e s" "c < ctx_size s" "own (ctxs s c) = 1"
  shows "ctx_inv Z {} {} e (set_state c CAM_CTX_ACQUIRED (fst (cam_context_stop_dev_to_hw env c s)))"
  by (rule set_state_inv [OF stop_to_hw_inv [OF assms(1,2)]]) (use assms(3) in \<open>auto simp: own_def stop_frame split: if_splits\<close>)

lemma handle_release_inv:
  assumes inv: "ctx_inv Z {} {} e s" and c: "c < ctx_size s" and env: "\<not> ce_irq env" "hw_release (ce_hw env)"
    and ops: "ctx_ops (ctxs s c) = Some ops" "op_release_dev ops \<noteq> None"
  shows "ctx_inv Z {} {} (e(c := Suc (e c))) (fst (cam_context_handle_release_dev env c s))"
proof -
  obtain f where f: "op_release_dev ops = Some f" using ops(2) by auto
  have o: "own (ctxs s c) = 1" using op_release_table [OF ops(1) f] by blast
  let ?e = "e(c := Suc (e c))" and ?a = "\<lambda>u. set_state c CAM_CTX_AVAILABLE (fst (cam_context_release_dev_to_hw env c u))"
  let ?st = "set_state c CAM_CTX_ACQUIRED (fst (cam_context_stop_dev_to_hw env c s))"
  have a: "ctx_inv Z {} {} ?e (?a s)" by (rule to_available [OF inv o])
  have i: "ctx_inv Z {} {} e ?st" by (rule stopped [OF inv c o])
  have c': "c < ctx_size ?st" using c by (simp add: stop_frame)
  have b: "ctx_inv Z {} {} ?e (?a ?st)" by (rule to_available [OF i]) (simp add: own_def)
  obtain s1 where s1: "cam_context_stop_dev_to_hw env c s = (s1, 0)" using stop_ok [OF inv c env(1)] by (metis prod.collapse)
  obtain s2 where s2: "cam_context_release_dev_to_hw env c s = (s2, 0)" using release_to_hw_ok [OF inv c env(2)] by (metis prod.collapse)
  obtain s3 where s3: "cam_context_release_dev_to_hw env c ?st = (s3, 0)" using release_to_hw_ok [OF i c' env(2)] by (metis prod.collapse)
  have "ctx_inv Z {} {} ?e (fst (f env c s))"
    using op_release_table [OF ops(1) f] a b s1 s2 s3
    by (auto simp: jpeg_ops icp_ops lrme_ops fd_ops split: prod.split)
  then show ?thesis using ops(1) f by (simp add: cam_context_handle_release_dev_def)
qed

text \<open>A context without references has no request waiting.\<close>

lemma idle_ctx:
  assumes inv: "ctx_inv {} {} {} e s" and c: "c < ctx_size s" "ctx_cbs s c = 0" and r: "r \<in> pool (ctxs s c)"
  shows "cbs s r = 0" "r \<notin> set (cx_pending (ctxs s c))" "\<not> flying s c r"
proof -
  have "key r \<notin># {#k \<in># outstanding (sy s). \<exists>r \<in> pool (ctxs s c). k = key r#}" using c(2) by (auto simp: ctx_cbs_def)
  then show k: "cbs s r = 0" using r by (auto simp: cbs_def count_eq_zero_iff)
  show "\<not> flying s c r" using ctx_invD(3) [OF inv, of r] k by (auto simp: req_ok_def flying_def counted_def)
  show "r \<notin> set (cx_pending (ctxs s c))"
    using ctx_invD(3) [OF inv, of r] k lists_okD(9) [OF inv c(1), of r] by (auto simp: req_ok_def counted_def)
qed

lemma reset_lists_inv:
  assumes inv: "ctx_inv {} {} {} e s" and c: "c < ctx_size s" "ctx_cbs s c = 0"
  shows "ctx_inv {} {} {} e (reset_lists c s)"
proof (rule ctx_invI)
  let ?t = "reset_lists c s"
  have f: "sy ?t = sy s" "reqs ?t = reqs s" "ctx_size ?t = ctx_size s" "free_ctx_list ?t = free_ctx_list s" "corrupt ?t = corrupt s"
    "\<And>d. pool (ctxs ?t d) = pool (ctxs s d)" "\<And>d. own (ctxs ?t d) = own (ctxs s d)" "\<And>d. cx_intf (ctxs ?t d) = cx_intf (ctxs s d)"
    "\<And>d. cx_refs (ctxs ?t d) = cx_refs (ctxs s d)" "\<And>d. d \<noteq> c \<Longrightarrow> ctxs ?t d = ctxs s d"
    by (simp_all add: reset_lists_def pool_def own_def)
  have g: "cx_pending (ctxs ?t c) = []" "cx_active (ctxs ?t c) = []" "cx_wait (ctxs ?t c) = []" "set (cx_free (ctxs ?t c)) = pool (ctxs s c)"
    "distinct (cx_free (ctxs ?t c))" by (simp_all add: reset_lists_def pool_def)
  note idle = idle_ctx [OF inv c]
  show "req_ok {} {} ?t r" for r
  proof (rule req_ok_cong [OF ctx_invD(3) [OF inv]])
    show "r \<in> set (cx_pending (ctxs ?t d)) \<longleftrightarrow> r \<in> set (cx_pending (ctxs s d))" if "rq_ctx (reqs s r) = Some d" for d
      using f(10) [of d] g(1) idle(2) [of r] lists_okD(10) [OF inv c(1), of r] by (cases "d = c") (auto simp: on_lists_def)
  qed (simp_all add: f cbs_def)
  show "lists_ok {} ?t d" if "d < ctx_size ?t" for d
  proof (cases "d = c")
    case True
    then show ?thesis using g idle(3) by (auto simp: lists_ok_def on_lists_def flying_def f)
  next
    case False
    then show ?thesis using ctx_invD(4) [OF inv, of d] that by (simp add: lists_ok_def flying_def f)
  qed
  show "refs_ok e ?t d" if "d < ctx_size ?t" for d
    using refs_ok_cong [of ?t s d e] ctx_invD(5) [OF inv, of d] that by (simp add: f)
  show "pools_ok ?t" "free_ok ?t" using ctx_invD(6,7) [OF inv] by (simp_all add: pools_ok_def free_ok_def f)
qed (use ctx_invD(1,2) [OF inv] in \<open>simp_all add: reset_lists_def\<close>)

lemma taken_ctx:
  assumes inv: "ctx_ok s" and get: "cam_node_get_ctxt_from_free_list s = Some (t, c)"
  shows "ctx_inv {} {} {} ((\<lambda>_. 0)(c := 1)) t" "c < ctx_size t" "own (ctxs t c) = 0" "ctx_cbs t c = 0"
proof -
  obtain cs where cs: "free_ctx_list s = c # cs" "t = upd_ctx c (\<lambda>x. x\<lparr>cx_refs := 1\<rparr>) (s\<lparr>free_ctx_list := cs\<rparr>)"
    using get by (auto simp: cam_node_get_ctxt_from_free_list_def split: list.splits)
  have c: "c < ctx_size s" "cx_refs (ctxs s c) = 0" "c \<notin> set cs" "distinct cs"
    and free: "\<And>d. d \<in> set (c # cs) \<longleftrightarrow> d < ctx_size s \<and> cx_refs (ctxs s d) = 0"
    using ctx_invD(7) [OF inv] cs(1) by (auto simp: free_ok_def)
  have z: "own (ctxs s c) = 0" "ctx_cbs s c = 0" using ctx_invD(5) [OF inv c(1)] c(2) by (simp_all add: refs_ok_def)
  have f: "sy t = sy s" "reqs t = reqs s" "ctx_size t = ctx_size s" "free_ctx_list t = cs" "corrupt t = corrupt s"
    "\<And>d. pool (ctxs t d) = pool (ctxs s d)" "\<And>d. own (ctxs t d) = own (ctxs s d)" "\<And>d. cx_intf (ctxs t d) = cx_intf (ctxs s d)"
    "\<And>d. cx_pending (ctxs t d) = cx_pending (ctxs s d)" "\<And>d. cx_active (ctxs t d) = cx_active (ctxs s d)" "\<And>d. cx_wait (ctxs t d) = cx_wait (ctxs s d)"
    "\<And>d. cx_free (ctxs t d) = cx_free (ctxs s d)" "\<And>d. cx_refs (ctxs t d) = (if d = c then 1 else cx_refs (ctxs s d))"
    by (simp_all add: cs(2))
  have cc: "ctx_cbs t d = ctx_cbs s d" for d by (simp add: ctx_cbs_def f)
  show "c < ctx_size t" "own (ctxs t c) = 0" "ctx_cbs t c = 0" using c z f cc by simp_all
  show "ctx_inv {} {} {} ((\<lambda>_. 0)(c := 1)) t"
  proof (rule ctx_invI)
    show "req_ok {} {} t r" for r by (rule req_ok_cong [OF ctx_invD(3) [OF inv]]) (simp_all add: f cbs_def)
    show "lists_ok {} t d" if "d < ctx_size t" for d
      using ctx_invD(4) [OF inv, of d] that by (simp add: lists_ok_def flying_def on_lists_def f)
    show "refs_ok ((\<lambda>_. 0)(c := 1)) t d" if "d < ctx_size t" for d
      using ctx_invD(5) [OF inv, of d] that z by (auto simp: refs_ok_def f cc)
    show "pools_ok t" using ctx_invD(6) [OF inv] by (simp add: pools_ok_def f)
    show "free_ok t" using free c by (auto simp: free_ok_def f split: if_splits)
  qed (use ctx_invD(1,2) [OF inv] in \<open>simp_all add: f\<close>)
qed

lemma handle_acquire_inv:
  assumes inv: "ctx_inv {} {} {} ((\<lambda>_. 0)(c := 1)) s" and c: "c < ctx_size s" "own (ctxs s c) = 0" "ctx_cbs s c = 0"
    and run: "cam_context_handle_acquire_dev env c cmd s = (t, rc, h)"
  shows "if rc = 0 then ctx_ok t else ctx_inv {} {} {} ((\<lambda>_. 0)(c := 1)) t \<and> ctx_size t = ctx_size s"
proof -
  let ?e = "(\<lambda>_. 0)(c := 1) :: nat \<Rightarrow> nat"
  have reset: "ctx_inv {} {} {} e (reset_lists c u) \<and> ctx_size (reset_lists c u) = ctx_size s"
    if "ctx_inv {} {} {} e u" "ctx_size u = ctx_size s" "sy u = sy s" "pool (ctxs u c) = pool (ctxs s c)" for e u
    using reset_lists_inv [OF that(1)] that(2-4) c by (simp add: ctx_cbs_def reset_lists_def)
  show ?thesis
  proof (cases "ctx_ops (ctxs s c)")
    case None
    then show ?thesis using run inv by (auto simp: cam_context_handle_acquire_dev_def)
  next
    case ops: (Some ops)
    show ?thesis
    proof (cases "op_acquire_dev ops")
      case None
      then show ?thesis using run inv ops reset [OF inv] by (auto simp: cam_context_handle_acquire_dev_def Let_def split: if_splits)
    next
      case (Some f)
      have st: "cx_state (ctxs s c) = CAM_CTX_AVAILABLE" using op_acquire_table [OF ops Some] by blast
      obtain u r' h' where acq: "cam_context_acquire_dev_to_hw env c cmd s = (u, r', h')" by (metis prod_cases3)
      note au = acquire_to_hw_inv [OF acq]
      define w where "w = fst (f env c cmd s)"
      have m: "ctx_inv {} {} {} ?e (upd_ctx c (\<lambda>x. x\<lparr>cx_hw_map := v x\<rparr>) u)" for v
        using au(1) [OF inv] by (simp add: ctx_inv_upd_ctx list_view_def own_def)
      have acq1: "ctx_ok (set_state c CAM_CTX_ACQUIRED u)"
        by (rule set_state_inv [OF au(1) [OF inv]]) (use au(5) [of c] st in \<open>simp_all add: own_def\<close>)
      have acq2: "ctx_ok (set_state c CAM_CTX_ACQUIRED (upd_ctx c (\<lambda>x. x\<lparr>cx_hw_map := v x\<rparr>) u))" for v
        by (rule set_state_inv [OF m]) (use au(5) [of c] st in \<open>simp_all add: own_def\<close>)
      have "snd (f env c cmd s) = (r', h') \<and> (if r' = 0 then ctx_ok w else ctx_inv {} {} {} ?e w) \<and>
          ctx_size w = ctx_size s \<and> sy w = sy s \<and> pool (ctxs w c) = pool (ctxs s c)"
        using op_acquire_table [OF ops Some] acq acq1 acq2 au inv
        by (auto simp: w_def jpeg_ops icp_ops lrme_ops fd_ops Let_def set_state_def pool_def)
      moreover have "(t, rc, h) = (reset_lists c w, r', h') \<or> cmd = None \<and> t = s \<and> rc \<noteq> 0"
        using run ops Some calculation by (auto simp: cam_context_handle_acquire_dev_def Let_def w_def split: if_splits prod.splits)
      ultimately show ?thesis using reset [of _ w] inv by auto
    qed
  qed
qed

end
