(* ===== verification/Cam_Ctx_Fences.thy ===== *)
theory Cam_Ctx_Fences
  imports Cam_Ctx_Machine
begin

text \<open>
  What other users of the sync driver do to the fences keeps the invariant of the contexts.
\<close>

subsection \<open>Other users of the fences\<close>

lemma ctx_inv_keys:
  assumes inv: "ctx_inv Z W H e s" and y: "cbs_inv y" "\<And>r. count (outstanding y) (key r) = count (outstanding (sy s)) (key r)"
    "\<And>i r. count (row_keys y i) (key r) \<le> count (row_keys (sy s) i) (key r)"
  shows "ctx_inv Z W H e (s\<lparr>sy := y\<rparr>)"
proof -
  have cb: "cbs (s\<lparr>sy := y\<rparr>) r = cbs s r" for r using y(2) by (simp add: cbs_def)
  have "{#k \<in># outstanding y. \<exists>r \<in> P. k = key r#} = {#k \<in># outstanding (sy s). \<exists>r \<in> P. k = key r#}" for P
    by (rule multiset_eqI) (use y(2) in auto)
  then have cc: "ctx_cbs (s\<lparr>sy := y\<rparr>) c = ctx_cbs s c" for c by (simp add: ctx_cbs_def)
  have "req_ok Z W (s\<lparr>sy := y\<rparr>) r" for r
  proof -
    have "counted Z (s\<lparr>sy := y\<rparr>) r" if "counted Z s r" by (rule counted_mono [OF that]) (use cb y(3) in simp_all)
    then show ?thesis using ctx_invD(3) [OF inv, of r] by (auto simp: req_ok_def cb split: option.splits)
  qed
  moreover have "refs_ok e (s\<lparr>sy := y\<rparr>) c = refs_ok e s c" for c by (simp add: refs_ok_def cc)
  moreover have "lists_ok H (s\<lparr>sy := y\<rparr>) c = lists_ok H s c" for c by (simp add: lists_ok_def flying_def)
  ultimately show ?thesis using inv y(1) by (simp add: ctx_inv_def pools_ok_def free_ok_def)
qed

text \<open>What others do to fences: everything but destroying or resetting a fence that has callbacks.\<close>

inductive fence_step :: "sync_device \<Rightarrow> sync_device \<Rightarrow> bool" where
  signal: "fence_step y (fst (cam_sync_signal y f st))"
| create: "fence_step y (fst (cam_sync_create y name client))"
| get_ref: "fence_step y (fst (cam_sync_get_obj_ref y f))"
| put_ref: "fence_step y (fst (cam_sync_put_obj_ref y f))"
| merge: "num \<le> length arr \<Longrightarrow> fence_step y (fst (cam_sync_merge ac ap y (Some arr) num))"
| register: "cb \<noteq> sync_cb \<Longrightarrow> fence_step y (fst (cam_sync_register_callback a y cb d f))"
| destroy: "callback_list (sync_table y (nat (f mod 2 ^ 32))) = [] \<Longrightarrow> fence_step y (fst (cam_sync_destroy y f))"

definition same_lists :: "sync_device \<Rightarrow> sync_device \<Rightarrow> bool" where
  "same_lists y z \<longleftrightarrow> (\<forall>i. callback_list (sync_table z i) = callback_list (sync_table y i)) \<and> work_queue z = work_queue y"

lemma same_lists_keys: "same_lists y z \<Longrightarrow> row_keys z i = row_keys y i \<and> outstanding z = outstanding y"
  by (auto simp: same_lists_def row_keys_def outstanding_def)

lemma same_lists_trans: "same_lists x y \<Longrightarrow> same_lists y z \<Longrightarrow> same_lists x z"
  by (simp add: same_lists_def)

lemma same_lists_simps [simp]: "same_lists y y" "same_lists y (set_bit_row i v y)" "same_lists y (y\<lparr>err_cnt := n\<rparr>)"
  by (simp_all add: same_lists_def)

lemma same_lists_upd: "callback_list (f (sync_table y i)) = callback_list (sync_table y i) \<Longrightarrow> same_lists y (upd_row i f y)"
  by (simp add: same_lists_def)

lemma same_lists_fold: "(\<And>x y. same_lists y (f x y)) \<Longrightarrow> same_lists y (fold f xs y)"
  by (induction xs arbitrary: y) (auto intro: same_lists_trans)

lemma same_lists_group_loop: "same_lists y (fst (init_group_loop ac ap idx i cs y))"
proof (induction cs arbitrary: i y)
  case (Cons c cs)
  have 1: "same_lists y (upd_row idx (\<lambda>r. r\<lparr>state := st\<rparr>) y)" for st by (rule same_lists_upd) simp
  have 2: "same_lists y (upd_row idx (\<lambda>r. r\<lparr>client_id := v, remaining := remaining r + 1\<rparr>) y)" for v by (rule same_lists_upd) simp
  have 3: "same_lists z (upd_row idx (\<lambda>r. r\<lparr>children_list := children_list r @ [c]\<rparr>) z)" for z by (rule same_lists_upd) simp
  have 4: "same_lists z (upd_row c (\<lambda>r. r\<lparr>parents_list := parents_list r @ [idx]\<rparr>) z)" for z by (rule same_lists_upd) simp
  note t = same_lists_trans [OF 1 Cons.IH] same_lists_trans [OF 2 3] same_lists_trans [OF same_lists_trans [OF same_lists_trans [OF 2 3] 4] Cons.IH]
  show ?case using Cons.IH t 2 by (simp add: Let_def)
qed simp

lemma same_lists_clean: "same_lists y (clean_children_info idx vs y)"
proof -
  have "same_lists z (unlink_parent idx c z)" for c z
    unfolding unlink_parent_def by (rule same_lists_upd) (simp add: cam_sync_util_cleanup_parents_list_def)
  note f = same_lists_fold [of "unlink_parent idx", OF this]
  have 1: "same_lists y (upd_row idx (\<lambda>r. r\<lparr>state := CAM_SYNC_STATE_INVALID\<rparr>) y)" by (rule same_lists_upd) simp
  have 2: "same_lists z (upd_row idx (\<lambda>r. cam_sync_util_cleanup_children_list r SYNC_LIST_CLEAN_ALL 0) z)" for z
    by (rule same_lists_upd) (simp add: cam_sync_util_cleanup_children_list_def)
  show ?thesis unfolding clean_children_info_def Let_def by (rule same_lists_trans [OF same_lists_trans [OF 1 f] 2])
qed

lemma unused_row: "cbs_inv y \<Longrightarrow> \<not> bitmap y i \<Longrightarrow> i < CAM_SYNC_MAX_OBJS \<Longrightarrow> callback_list (sync_table y i) = []"
  unfolding cbs_inv_def sync_inv_pend_def by (metis gr0I)

lemma same_lists_init_row:
  assumes "cbs_inv y" "\<not> bitmap y i" "i < CAM_SYNC_MAX_OBJS"
  shows "same_lists y (fst (cam_sync_init_row (set_bit_row i True y) i n ty cl))"
  using unused_row [OF assms] by (simp add: cam_sync_init_row_def same_lists_def zero_row_def)

lemma live_row_bit:
  assumes "sync_inv y" "state (sync_table y i) \<noteq> CAM_SYNC_STATE_INVALID"
  shows "0 < i \<and> i < CAM_SYNC_MAX_OBJS \<and> bitmap y i"
proof -
  have "i \<noteq> 0" using assms by (auto simp: sync_inv_pend_def)
  moreover have "state (sync_table y i) = state zero_row" if "\<not> i < CAM_SYNC_MAX_OBJS"
    using assms(1) that by (simp add: sync_inv_pend_def core_def not_less)
  ultimately show ?thesis using assms by (auto simp: sync_inv_pend_def)
qed

lemma same_lists_cbs_inv:
  assumes "cbs_inv y" "same_lists y z" "sync_inv z" "trigger_cb_without_switch z = trigger_cb_without_switch y"
    "\<And>i. bitmap y i \<Longrightarrow> bitmap z i \<or> callback_list (sync_table y i) = []"
  shows "cbs_inv z"
proof -
  have "callback_list (sync_table y i) = []" if "state (sync_table z i) = CAM_SYNC_STATE_INVALID" for i
  proof (rule ccontr)
    assume l: "callback_list (sync_table y i) \<noteq> []"
    then have "state (sync_table y i) \<noteq> CAM_SYNC_STATE_INVALID" using assms(1) by (auto simp: cbs_inv_def)
    then have "0 < i \<and> i < CAM_SYNC_MAX_OBJS \<and> bitmap y i"
      using live_row_bit [OF cbs_inv_sync [OF assms(1)]] by blast
    then show False using assms(5) [of i] l that assms(3) unfolding sync_inv_pend_def by blast
  qed
  then show ?thesis using assms by (simp add: cbs_inv_def same_lists_def)
qed

lemma create_keeps_cbs:
  assumes "cbs_inv y"
  shows "same_lists y (fst (cam_sync_create y n cl))" "cbs_inv (fst (cam_sync_create y n cl))"
proof -
  have "same_lists y (fst (cam_sync_create y n cl)) \<and> (\<forall>i. bitmap y i \<longrightarrow> bitmap (fst (cam_sync_create y n cl)) i) \<and>
      trigger_cb_without_switch (fst (cam_sync_create y n cl)) = trigger_cb_without_switch y"
  proof (cases "claim_bit y")
    case (Some p)
    obtain z i where p: "p = (z, i)" by (cases p)
    note c = claim_bit_Some [OF Some [unfolded p]]
    show ?thesis using same_lists_init_row [OF assms c(2,1), of n CAM_SYNC_TYPE_INDV cl] c
      by (auto simp: cam_sync_create_def Some p cam_sync_init_row_def set_bit_row_def upd_row_def same_lists_def split: if_splits)
  qed (simp add: cam_sync_create_def)
  then show "same_lists y (fst (cam_sync_create y n cl))" "cbs_inv (fst (cam_sync_create y n cl))"
    using same_lists_cbs_inv [OF assms, of "fst (cam_sync_create y n cl)"] create_inv [OF cbs_inv_sync [OF assms]] by auto
qed

lemma same_lists_group_object:
  assumes "cbs_inv y" "\<not> bitmap y i" "i < CAM_SYNC_MAX_OBJS"
  shows "same_lists y (fst (cam_sync_init_group_object ac ap (set_bit_row i True y) i objs))"
proof -
  let ?s0 = "fst (cam_sync_init_row (set_bit_row i True y) i (Some ''merged_fence'') CAM_SYNC_TYPE_GROUP 0)"
  obtain s1 r where l: "init_group_loop ac ap i 0 objs ?s0 = (s1, r)" by fastforce
  have 1: "same_lists y s1" using same_lists_trans [OF same_lists_init_row [OF assms] same_lists_group_loop [of ?s0 ac ap i 0 objs]] l by simp
  have 2: "same_lists s1 (upd_row i (\<lambda>r. r\<lparr>state := f r, signaled := True\<rparr>) s1)" for f by (rule same_lists_upd) simp
  show ?thesis
    using l same_lists_trans [OF 1 2] 1 same_lists_trans [OF 1 same_lists_clean [of s1 i]]
    by (auto simp: cam_sync_init_group_object_def Let_def split: option.split prod.split)
qed

lemma group_loop_bits:
  "bitmap (fst (init_group_loop ac ap idx i cs y)) = bitmap y \<and> trigger_cb_without_switch (fst (init_group_loop ac ap idx i cs y)) = trigger_cb_without_switch y"
  by (induction cs arbitrary: i y) (simp_all add: Let_def)

lemma clean_bits:
  "bitmap (clean_children_info idx vs y) = bitmap y \<and> trigger_cb_without_switch (clean_children_info idx vs y) = trigger_cb_without_switch y"
proof -
  have "bitmap (fold (unlink_parent idx) xs z) = bitmap z \<and> trigger_cb_without_switch (fold (unlink_parent idx) xs z) = trigger_cb_without_switch z" for xs z
    by (induction xs arbitrary: z) (simp_all add: unlink_parent_def)
  then show ?thesis by (simp add: clean_children_info_def Let_def)
qed

lemma group_object_bits:
  "bitmap (fst (cam_sync_init_group_object ac ap y i objs)) = bitmap y \<and>
   trigger_cb_without_switch (fst (cam_sync_init_group_object ac ap y i objs)) = trigger_cb_without_switch y"
proof -
  let ?s0 = "fst (cam_sync_init_row y i (Some ''merged_fence'') CAM_SYNC_TYPE_GROUP 0)"
  obtain s1 r where l: "init_group_loop ac ap i 0 objs ?s0 = (s1, r)" by fastforce
  have "bitmap s1 = bitmap y" "trigger_cb_without_switch s1 = trigger_cb_without_switch y"
    using group_loop_bits [of ac ap i 0 objs ?s0] l by (simp_all add: cam_sync_init_row_def split: if_splits)
  then show ?thesis using l clean_bits [of i _ s1]
    by (auto simp: cam_sync_init_group_object_def Let_def split: option.split prod.split)
qed

lemma merge_keeps:
  assumes "cbs_inv y" "num \<le> length arr"
  shows "same_lists y (fst (cam_sync_merge ac ap y (Some arr) num))" "cbs_inv (fst (cam_sync_merge ac ap y (Some arr) num))"
proof -
  let ?z = "fst (cam_sync_merge ac ap y (Some arr) num)"
  consider "?z = y" | i objs where "\<not> bitmap y i" "i < CAM_SYNC_MAX_OBJS"
    "?z \<in> (let t = fst (cam_sync_init_group_object ac ap (set_bit_row i True y) i objs) in {t, set_bit_row i False t})"
  proof (cases "claim_bit y")
    case (Some p)
    obtain z i where p: "p = (z, i)" by (cases p)
    note c = claim_bit_Some [OF Some [unfolded p]]
    assume a: "?z = y \<Longrightarrow> thesis" and b: "\<And>i objs. \<not> bitmap y i \<Longrightarrow> i < CAM_SYNC_MAX_OBJS \<Longrightarrow>
      ?z \<in> (let t = fst (cam_sync_init_group_object ac ap (set_bit_row i True y) i objs) in {t, set_bit_row i False t}) \<Longrightarrow> thesis"
    have "?z = y \<or> (\<exists>objs. ?z \<in> (let t = fst (cam_sync_init_group_object ac ap (set_bit_row i True y) i objs) in {t, set_bit_row i False t}))"
      by (auto simp: cam_sync_merge_def Some p c(3) Let_def split: prod.split sum.split) (metis fst_conv)+
    then show thesis using a b [OF c(2,1)] by blast
  qed (auto simp: cam_sync_merge_def Let_def split: prod.split sum.split)
  then have "same_lists y ?z \<and> (\<forall>i. bitmap y i \<longrightarrow> bitmap ?z i) \<and> trigger_cb_without_switch ?z = trigger_cb_without_switch y"
  proof cases
    case (2 i objs)
    define t where "t = fst (cam_sync_init_group_object ac ap (set_bit_row i True y) i objs)"
    have s: "same_lists y t" "bitmap t = (bitmap y)(i := True)" "trigger_cb_without_switch t = trigger_cb_without_switch y"
      using same_lists_group_object [OF assms(1) 2(1,2), of ac ap objs] group_object_bits [of ac ap "set_bit_row i True y" i objs]
      by (simp_all add: t_def set_bit_row_def)
    have "same_lists y (set_bit_row i False t)" using same_lists_trans [OF s(1)] by simp
    moreover have "?z = t \<or> ?z = set_bit_row i False t" using 2(3) by (simp add: t_def Let_def)
    ultimately show ?thesis using s 2(1) by (auto simp: set_bit_row_def)
  qed simp
  then show "same_lists y ?z" "cbs_inv ?z"
    using same_lists_cbs_inv [OF assms(1), of ?z] merge_inv [OF cbs_inv_sync [OF assms(1)], where arr = "Some arr" and num = num and ac = ac and ap = ap] assms(2) by auto
qed

lemma unlink_keeps:
  "same_lists y (unlink_child_of idx c y)" "same_lists y (unlink_parent_of idx c y)"
  "bitmap (unlink_child_of idx c y) = bitmap y" "bitmap (unlink_parent_of idx c y) = bitmap y"
  "trigger_cb_without_switch (unlink_child_of idx c y) = trigger_cb_without_switch y"
  "trigger_cb_without_switch (unlink_parent_of idx c y) = trigger_cb_without_switch y"
  by (auto simp: unlink_child_of_def unlink_parent_of_def cam_sync_util_cleanup_parents_list_def cam_sync_util_cleanup_children_list_def
      intro!: same_lists_upd)

lemma fold_keeps:
  assumes "\<And>x y. bitmap (f x y) = bitmap y \<and> trigger_cb_without_switch (f x y) = trigger_cb_without_switch y"
  shows "bitmap (fold f xs y) = bitmap y \<and> trigger_cb_without_switch (fold f xs y) = trigger_cb_without_switch y"
  using assms by (induction xs arbitrary: y) auto

lemma destroy_keeps:
  assumes y: "cbs_inv y" and l: "callback_list (sync_table y (nat (f mod 2 ^ 32))) = []"
  shows "same_lists y (fst (cam_sync_destroy y f))" "cbs_inv (fst (cam_sync_destroy y f))"
proof -
  define i where "i = nat (f mod 2 ^ 32)"
  let ?z = "fst (cam_sync_destroy y f)"
  define y1 where "y1 = upd_row i (\<lambda>r. r\<lparr>state := CAM_SYNC_STATE_INVALID, children_list := filter (\<lambda>c. \<not> 0 < c) (children_list r),
      parents_list := filter (\<lambda>p. \<not> 0 < p) (parents_list r)\<rparr>) y"
  define y2 where "y2 = fold (unlink_child_of i) (filter (\<lambda>c. 0 < c) (children_list (sync_table y i))) y1"
  define y3 where "y3 = fold (unlink_parent_of i) (filter (\<lambda>p. 0 < p) (parents_list (sync_table y i))) y2"
  have 1: "same_lists y y1" unfolding y1_def by (rule same_lists_upd) simp
  have 2: "same_lists y1 y2" unfolding y2_def by (rule same_lists_fold) (rule unlink_keeps)
  have 3: "same_lists y2 y3" unfolding y3_def by (rule same_lists_fold) (rule unlink_keeps)
  have s: "same_lists y y3" by (rule same_lists_trans [OF same_lists_trans [OF 1 2] 3])
  have b: "bitmap y3 = bitmap y" "trigger_cb_without_switch y3 = trigger_cb_without_switch y"
    unfolding y3_def y2_def using fold_keeps [of "unlink_parent_of i"] fold_keeps [of "unlink_child_of i"] unlink_keeps
    by (simp_all add: y1_def)
  have e: "?z = y \<or> ?z = set_bit_row i False (upd_row i (\<lambda>_. zero_row) y3)"
    unfolding y3_def y2_def y1_def i_def by (simp add: cam_sync_destroy_def cam_sync_deinit_object_def Let_def)
  have "same_lists y3 (upd_row i (\<lambda>_. zero_row) y3)" by (rule same_lists_upd) (use s l in \<open>simp add: same_lists_def i_def zero_row_def\<close>)
  from same_lists_trans [OF same_lists_trans [OF s this] same_lists_simps(2)] e have z: "same_lists y ?z" by auto
  then show "same_lists y ?z" .
  show "cbs_inv ?z"
    by (rule same_lists_cbs_inv [OF y z destroy_inv [OF cbs_inv_sync [OF y]]]) (use e b l in \<open>auto simp: i_def set_bit_row_def\<close>)
qed

lemma register_keeps:
  assumes y: "cbs_inv y" and cb: "cb \<noteq> sync_cb"
  shows "cbs_inv (fst (cam_sync_register_callback a y cb d f))"
    "count (row_keys (fst (cam_sync_register_callback a y cb d f)) i) (key r) = count (row_keys y i) (key r)"
    "count (outstanding (fst (cam_sync_register_callback a y cb d f))) (key r) = count (outstanding y) (key r)"
proof -
  let ?z = "fst (cam_sync_register_callback a y cb d f)"
  have si: "sync_inv ?z" using same_core_inv [OF register_callback_same_core, of a y cb d f] cbs_inv_sync [OF y] by blast
  have t: "\<not> trigger_cb_without_switch y" using y by (simp add: cbs_inv_def)
  show "cbs_inv ?z" using y si by (auto simp: cbs_inv_def cam_sync_register_callback_def Let_def)
  show r: "count (row_keys ?z i) (key r) = count (row_keys y i) (key r)" for i
    using cb by (auto simp: cam_sync_register_callback_def Let_def row_keys_def cb_key_def)
  have "count (\<Sum>i<CAM_SYNC_MAX_OBJS. row_keys ?z i) (key r) = count (\<Sum>i<CAM_SYNC_MAX_OBJS. row_keys y i) (key r)"
    using r by (simp add: count_sum)
  moreover have "count (image_mset cb_key (mset (work_queue ?z))) (key r) = count (image_mset cb_key (mset (work_queue y))) (key r)"
    using cb by (auto simp: cam_sync_register_callback_def Let_def cb_key_def)
  ultimately show "count (outstanding ?z) (key r) = count (outstanding y) (key r)" by (simp add: outstanding_def)
qed

lemma fence_step_inv:
  assumes "ctx_inv Z W H e s" "fence_step (sy s) y"
  shows "ctx_inv Z W H e (s\<lparr>sy := y\<rparr>)"
  using assms(2)
proof cases
  note inv = assms(1) and ci = ctx_invD(1) [OF assms(1)]
  have sl: "ctx_inv Z W H e (s\<lparr>sy := z\<rparr>)" if "same_lists (sy s) z" "cbs_inv z" for z
    by (rule ctx_inv_keys [OF inv that(2)]) (use same_lists_keys [OF that(1)] in simp_all)
  show ?thesis if "y = fst (cam_sync_signal (sy s) f st)" for f st
    using ctx_inv_signal [OF inv, of st f] that by (simp add: sys_signal_def)
  show ?thesis if "y = fst (cam_sync_create (sy s) n cl)" for n cl using sl create_keeps_cbs [OF ci] that by simp
  show ?thesis if "y = fst (cam_sync_get_obj_ref (sy s) f)" for f
    using ctx_inv_moved [OF inv moved_get_ref cbs_inv_get_ref [OF ci]] that by simp
  show ?thesis if "y = fst (cam_sync_put_obj_ref (sy s) f)" for f
    using ctx_inv_moved [OF inv moved_put_ref cbs_inv_put_ref [OF ci]] that by simp
  show ?thesis if "y = fst (cam_sync_merge ac ap (sy s) (Some arr) num)" "num \<le> length arr" for ac ap arr num
    using sl merge_keeps [OF ci that(2)] that by simp
  show ?thesis if "y = fst (cam_sync_register_callback a (sy s) cb d f)" "cb \<noteq> sync_cb" for a cb d f
    using ctx_inv_keys [OF inv register_keeps(1) [OF ci that(2)]] register_keeps(2,3) [OF ci that(2)] that by simp
  show ?thesis if "y = fst (cam_sync_destroy (sy s) f)" "callback_list (sync_table (sy s) (nat (f mod 2 ^ 32))) = []" for f
    using sl destroy_keeps [OF ci that(2)] that by simp
qed

end
