(* ===== verification/Cam_Ctx_Graph.thy ===== *)
theory Cam_Ctx_Graph
  imports Cam_Ctx_Fences
begin

text \<open>
  The states a context can be in: what a request goes through never changes the state or the state machine of a context,
  and the operations of the four drivers move it along the edges of its own graph only.
\<close>

subsection \<open>What leaves states alone\<close>

definition graph_of :: "ctx_sys \<Rightarrow> nat \<times> (nat \<Rightarrow> cam_context_state \<times> ctx_machine option)" where
  "graph_of s = (ctx_size s, \<lambda>c. (cx_state (ctxs s c), cx_machine (ctxs s c)))"

lemma graph_eqD:
  assumes "graph_of t = graph_of s"
  shows "ctx_size t = ctx_size s" "cx_state (ctxs t c) = cx_state (ctxs s c)" "cx_machine (ctxs t c) = cx_machine (ctxs s c)"
proof -
  have "snd (graph_of t) c = snd (graph_of s) c" "fst (graph_of t) = fst (graph_of s)" using assms by simp_all
  then show "ctx_size t = ctx_size s" "cx_state (ctxs t c) = cx_state (ctxs s c)" "cx_machine (ctxs t c) = cx_machine (ctxs s c)"
    by (simp_all add: graph_of_def)
qed

lemma graph_upd_ctx:
  "cx_state (f (ctxs s c)) = cx_state (ctxs s c) \<Longrightarrow> cx_machine (f (ctxs s c)) = cx_machine (ctxs s c) \<Longrightarrow>
     graph_of (upd_ctx c f s) = graph_of s"
  by (auto simp: graph_of_def upd_ctx_def)

lemma graph_simps [simp]:
  "graph_of (upd_req r g s) = graph_of s" "graph_of (call_hw k s) = graph_of s" "graph_of (s\<lparr>sy := y\<rparr>) = graph_of s"
  "graph_of (s\<lparr>mm := m\<rparr>) = graph_of s" "graph_of (s\<lparr>ht := h\<rparr>) = graph_of s" "graph_of (s\<lparr>free_ctx_list := l\<rparr>) = graph_of s"
  "graph_of (mark_corrupt c r s) = graph_of s" "graph_of (sys_signal st f s) = graph_of s"
  by (simp_all add: graph_of_def upd_req_def call_hw_def mark_corrupt_def sys_signal_def)

lemma graph_lists [simp]:
  "graph_of (list_del_init c r s) = graph_of s" "graph_of (add_active c r s) = graph_of s" "graph_of (add_pending c r s) = graph_of s"
  "graph_of (add_free c r s) = graph_of s" "graph_of (reset_lists c s) = graph_of s"
  by (simp_all add: list_del_init_def add_active_def add_pending_def add_free_def reset_lists_def graph_upd_ctx)

lemma graph_putref [simp]: "graph_of (cam_context_putref c s) = graph_of s"
  by (simp add: cam_context_putref_def cam_node_put_ctxt_to_free_list_def Let_def graph_upd_ctx)

lemma graph_getref [simp]: "graph_of (cam_context_getref c s) = graph_of s"
  by (simp add: cam_context_getref_def Let_def graph_upd_ctx)

lemma graph_fold [simp]: "(\<And>x s. graph_of (f x s) = graph_of s) \<Longrightarrow> graph_of (fold f xs s) = graph_of s"
  by (induction xs arbitrary: s) auto

lemma graph_deregister: "deregister_loop c r fs free s = (t, b) \<Longrightarrow> graph_of t = graph_of s"
  by (induction fs arbitrary: free s) (auto simp: Let_def split: prod.splits if_splits)

lemma graph_signal_error [simp]: "graph_of (signal_error_loop fs s) = graph_of s"
  by (induction fs arbitrary: s) (simp_all add: Let_def split: prod.split)

lemma graph_flush_pending [simp]: "graph_of (flush_pending_req c r s) = graph_of s"
  by (auto simp: flush_pending_req_def Let_def dest!: graph_deregister split: prod.split)

lemma graph_flush_active [simp]: "graph_of (flush_active_req c r s) = graph_of s"
  by (simp add: flush_active_req_def)

lemma graph_flush_ctx [simp]: "graph_of (fst (cam_context_flush_ctx_to_hw env c s)) = graph_of s"
  by (simp add: cam_context_flush_ctx_to_hw_def Let_def graph_upd_ctx)

lemma graph_flush_req [simp]: "graph_of (fst (cam_context_flush_req_to_hw env c rid s)) = graph_of s"
  by (auto simp: cam_context_flush_req_to_hw_def Let_def dest!: graph_deregister split: option.split prod.split)

lemma graph_apply [simp]: "graph_of (fst (cam_context_apply_req_to_hw env c r s)) = graph_of s"
  by (simp add: cam_context_apply_req_to_hw_def Let_def)

lemma graph_callback [simp]: "graph_of (cam_context_sync_callback env st d s) = graph_of s"
  by (simp add: cam_context_sync_callback_def Let_def split: option.split)

lemma graph_worker [simp]: "graph_of (sync_worker env s) = graph_of s"
  by (simp add: sync_worker_def Let_def split: list.split)

lemma graph_buf_done [simp]: "graph_of (fst (cam_context_buf_done_from_hw env c d b s)) = graph_of s"
  by (simp add: cam_context_buf_done_from_hw_def Let_def split: option.split list.split)

lemma graph_refs [simp]: "graph_of (put_refs fs s) = graph_of s" "graph_of (put_cpu env h s) = graph_of s"
  by (simp_all add: put_refs_def put_cpu_def)

lemma graph_get_refs: "get_refs fs i s = (t, rc, n) \<Longrightarrow> graph_of t = graph_of s"
  by (induction fs arbitrary: i s) (auto split: prod.splits sum.splits)

lemma graph_register: "register_loop env c r j fs s = (t, rc) \<Longrightarrow> graph_of t = graph_of s"
  by (induction fs arbitrary: j s) (auto simp: Let_def split: prod.splits sum.splits if_splits)

lemma graph_submit [simp]: "graph_of (fst (submit_req env c r h s)) = graph_of s"
  by (auto simp: submit_req_def free_cpu_buf_def free_req_def Let_def dest!: graph_get_refs graph_register split: prod.split sum.split)

lemma graph_prepare [simp]: "graph_of (fst (cam_context_prepare_dev_to_hw env c cmd s)) = graph_of s"
  by (simp add: cam_context_prepare_dev_to_hw_def free_cpu_buf_def free_req_def Let_def graph_upd_ctx split: option.split list.split prod.split)

lemma graph_config [simp]: "graph_of (fst (cam_context_config_dev_to_hw env c cmd s)) = graph_of s"
  by (simp add: cam_context_config_dev_to_hw_def Let_def split: option.split prod.split)

lemma graph_to_hw [simp]:
  "graph_of (fst (cam_context_release_dev_to_hw env c s)) = graph_of s"
  "graph_of (fst (cam_context_flush_dev_to_hw env c fl s)) = graph_of s"
  "graph_of (fst (cam_context_start_dev_to_hw env c cmd s)) = graph_of s"
  "graph_of (fst (cam_context_acquire_dev_to_hw env c a s)) = graph_of s"
  by (simp_all add: cam_context_release_dev_to_hw_def cam_context_flush_dev_to_hw_def cam_context_start_dev_to_hw_def
      cam_context_acquire_dev_to_hw_def Let_def graph_upd_ctx split: option.split prod.split sum.split)

lemma graph_stop [simp]: "graph_of (fst (cam_context_stop_dev_to_hw env c s)) = graph_of s"
  by (auto simp: cam_context_stop_dev_to_hw_def Let_def split: prod.split) (metis fst_conv graph_flush_ctx)+

lemma graph_dump [simp]: "graph_of (fst (cam_context_dump_dev_to_hw env c cmd s)) = graph_of s"
proof -
  have "graph_of (fst (cam_context_dump_context env c h off t)) = graph_of t" for t h off
    by (auto simp: cam_context_dump_context_def Let_def graph_of_def split: list.split prod.split)
  then show ?thesis by (auto simp: cam_context_dump_dev_to_hw_def Let_def split: option.split prod.split) (metis fst_conv graph_simps(2))
qed

lemma graph_pf [simp]: "graph_of (fst (pf_loop env c iova b rs rc s)) = graph_of s"
  by (induction rs arbitrary: s rc) (auto simp: cam_context_dump_pf_info_to_hw_def Let_def)

subsection \<open>The graphs of the drivers\<close>

text \<open>The states of each table that have operations of their own, and the edges between them.\<close>

fun machine_states :: "ctx_machine \<Rightarrow> cam_context_state set" where
  "machine_states JPEG_machine = {CAM_CTX_AVAILABLE, CAM_CTX_ACQUIRED}"
| "machine_states ICP_machine = {CAM_CTX_AVAILABLE, CAM_CTX_ACQUIRED, CAM_CTX_READY}"
| "machine_states LRME_machine = {CAM_CTX_AVAILABLE, CAM_CTX_ACQUIRED, CAM_CTX_ACTIVATED}"
| "machine_states FD_machine = {CAM_CTX_AVAILABLE, CAM_CTX_ACQUIRED, CAM_CTX_ACTIVATED}"

definition state_ok :: "cam_context_state \<times> ctx_machine option \<Rightarrow> bool" where
  "state_ok g = (case g of (st, Some m) \<Rightarrow> st \<in> machine_states m | (st, None) \<Rightarrow> False)"

definition states_ok :: "ctx_sys \<Rightarrow> bool" where
  "states_ok s \<longleftrightarrow> (\<forall>c<ctx_size s. state_ok (snd (graph_of s) c))"

lemma states_ok_same: "graph_of t = graph_of s \<Longrightarrow> states_ok t = states_ok s"
  by (auto simp: states_ok_def graph_of_def)

lemma graph_set_state: "graph_of (set_state c st s) = (ctx_size s, (snd (graph_of s))(c := (st, cx_machine (ctxs s c))))"
  by (auto simp: graph_of_def set_state_def)

lemma states_ok_set:
  assumes "graph_of t = graph_of s" "states_ok s" "cx_machine (ctxs s c) = Some m" "st \<in> machine_states m"
  shows "states_ok (set_state c st t)"
proof -
  have "cx_machine (ctxs t c) = Some m" using assms(3) graph_eqD(3) [OF assms(1)] by simp
  then have "state_ok (snd (graph_of (set_state c st t)) d)" if "d < ctx_size s" for d
    using that assms(1,2,4) by (auto simp: states_ok_def graph_set_state state_ok_def)
  then show ?thesis using graph_eqD(1) [OF assms(1)] by (simp add: states_ok_def)
qed

lemma machine_states_common [simp]: "CAM_CTX_AVAILABLE \<in> machine_states m" "CAM_CTX_ACQUIRED \<in> machine_states m"
  by (cases m; simp)+

lemma ops_machine: "ctx_ops x = Some ops \<Longrightarrow> \<exists>m. cx_machine x = Some m"
  by (auto simp: ctx_ops_def split: option.splits)

text \<open>Each operation of a table leads to a state of that table.\<close>

lemma op_start_states:
  assumes "ctx_ops (ctxs s c) = Some ops" "op_start_dev ops = Some f" "states_ok s"
  shows "states_ok (fst (f env c cmd s))"
proof -
  let ?t = "fst (cam_context_start_dev_to_hw env c cmd s)"
  have g: "graph_of ?t = graph_of s" by simp
  have "fst (f env c cmd s) = ?t \<or> (\<exists>m st. fst (f env c cmd s) = set_state c st ?t \<and> cx_machine (ctxs s c) = Some m \<and> st \<in> machine_states m)"
    using assms(1,2) by (cases "cx_state (ctxs s c)") (fastforce simp: ctx_ops_def jpeg_ops icp_ops lrme_ops fd_ops split: option.splits ctx_machine.splits prod.split)+
  then show ?thesis using states_ok_same [OF g] states_ok_set [OF g assms(3)] assms(3) by auto
qed

lemma op_stop_states:
  assumes "ctx_ops (ctxs s c) = Some ops" "op_stop_dev ops = Some f" "states_ok s"
  shows "states_ok (fst (f env c s))"
proof -
  have g: "graph_of (fst (cam_context_stop_dev_to_hw env c s)) = graph_of s" by simp
  obtain m where "cx_machine (ctxs s c) = Some m" using ops_machine [OF assms(1)] by blast
  from states_ok_same [OF g] states_ok_set [OF g assms(3) this] assms(3) op_stop_table [OF assms(1,2), of env c s] show ?thesis by auto
qed

lemma op_release_states:
  assumes "ctx_ops (ctxs s c) = Some ops" "op_release_dev ops = Some f" "states_ok s"
  shows "states_ok (fst (f env c s))"
proof -
  obtain m where m: "cx_machine (ctxs s c) = Some m" using ops_machine [OF assms(1)] by blast
  obtain s1 rc1 where s1: "cam_context_stop_dev_to_hw env c s = (s1, rc1)" by fastforce
  define s2 where "s2 = set_state c CAM_CTX_ACQUIRED s1"
  obtain s3 rc3 where s3: "cam_context_release_dev_to_hw env c s = (s3, rc3)" by fastforce
  obtain s4 rc4 where s4: "cam_context_release_dev_to_hw env c s2 = (s4, rc4)" by fastforce
  have g: "graph_of s1 = graph_of s" "graph_of s3 = graph_of s" "graph_of s4 = graph_of s2"
    using graph_stop [of env c s] graph_to_hw(1) [of env c s] graph_to_hw(1) [of env c s2] s1 s3 s4 by simp_all
  have 2: "states_ok s2" unfolding s2_def by (rule states_ok_set [OF g(1) assms(3) m]) simp
  have m2: "cx_machine (ctxs s2 c) = Some m" using graph_eqD(3) [OF g(1), of c] m by (simp add: s2_def set_state_def)
  have "states_ok s1" "states_ok s3" "states_ok s4" using states_ok_same [OF g(1)] states_ok_same [OF g(2)] states_ok_same [OF g(3)] 2 assms(3) by simp_all
  moreover have "states_ok (set_state c CAM_CTX_AVAILABLE s3)" by (rule states_ok_set [OF g(2) assms(3) m]) simp
  moreover have "states_ok (set_state c CAM_CTX_AVAILABLE s4)" by (rule states_ok_set [OF g(3) 2 m2]) simp
  ultimately show ?thesis
    using op_release_table [OF assms(1,2)] s1 s3 s4 2 by (auto simp: jpeg_ops icp_ops lrme_ops fd_ops s2_def)
qed

lemma op_acquire_states:
  assumes "ctx_ops (ctxs s c) = Some ops" "op_acquire_dev ops = Some f" "states_ok s"
  shows "states_ok (fst (f env c cmd s))"
proof -
  obtain m where m: "cx_machine (ctxs s c) = Some m" using ops_machine [OF assms(1)] by blast
  obtain t rc h where t: "cam_context_acquire_dev_to_hw env c cmd s = (t, rc, h)" by (metis prod_cases3)
  have g: "graph_of t = graph_of s" using graph_to_hw(4) [of env c cmd s] t by simp
  have g2: "graph_of (upd_ctx c (\<lambda>x. x\<lparr>cx_hw_map := v x\<rparr>) t) = graph_of s" for v using g by (simp add: graph_upd_ctx)
  have "states_ok t" "states_ok (set_state c CAM_CTX_ACQUIRED t)" "states_ok (set_state c CAM_CTX_ACQUIRED (upd_ctx c (\<lambda>x. x\<lparr>cx_hw_map := v x\<rparr>) t))" for v
    using states_ok_same [OF g] states_ok_set [OF g assms(3) m] states_ok_set [OF g2 assms(3) m] assms(3) by simp_all
  then show ?thesis using op_acquire_table [OF assms(1,2)] t by (auto simp: jpeg_ops icp_ops lrme_ops fd_ops Let_def)
qed

lemma release_present:
  assumes "states_ok s" "c < ctx_size s" "own (ctxs s c) = 1"
  obtains ops where "ctx_ops (ctxs s c) = Some ops" "op_release_dev ops \<noteq> None"
proof -
  obtain m where m: "cx_machine (ctxs s c) = Some m" "cx_state (ctxs s c) \<in> machine_states m"
    using assms(1,2) by (fastforce simp: states_ok_def state_ok_def graph_of_def split: option.splits)
  then show thesis using that assms(3) by (cases m) (auto simp: ctx_ops_def own_def)
qed

end
