(* ===== verification/Cam_Ctx_Probe.thy ===== *)
theory Cam_Ctx_Probe
  imports Cam_Ctx_Graph
begin

text \<open>
  The device nodes of the four drivers, \<^verbatim>\<open>cam_jpeg_dev.c\<close>, \<^verbatim>\<open>cam_icp_subdev.c\<close>, \<^verbatim>\<open>cam_lrme_dev.c\<close> and \<^verbatim>\<open>cam_fd_dev.c\<close>: probing,
  opening, closing and page faults, and that a probed node satisfies the invariant.

  The results of \<^verbatim>\<open>cam_subdev_probe\<close> and of the initialisation of the hardware manager are arguments. Context \<open>i\<close> of a
  driver has its 20 requests at the numbers from \<open>20 * i\<close>, the array inside the driver's own context structure.
\<close>

subsection \<open>Probing\<close>

abbreviation CAM_CTX_MAX :: nat where "CAM_CTX_MAX \<equiv> 32"
abbreviation CAM_ICP_CTX_MAX :: nat where "CAM_ICP_CTX_MAX \<equiv> 54"

definition req_base :: "nat \<Rightarrow> nat" where
  "req_base i = CAM_CTX_REQ_MAX * i"

text \<open>\<open>given\<close>: the structure and its base context are not \<^verbatim>\<open>NULL\<close>. The \<^verbatim>\<open>memset\<close> of the driver's structure clears its requests.\<close>

definition deinit_ctx :: "bool \<Rightarrow> nat \<Rightarrow> ctx_sys \<Rightarrow> ctx_sys \<times> int" where
  "deinit_ctx given c s =
     (if \<not> given then (s, code EINVAL)
      else
        (let (s1, rc) = cam_context_deinit c s in
         (fold (\<lambda>r. upd_req r (\<lambda>_. zero_request)) [req_base c..<req_base c + CAM_CTX_REQ_MAX] s1, rc)))"

definition cam_jpeg_context_deinit where "cam_jpeg_context_deinit = deinit_ctx"
definition cam_icp_context_deinit where "cam_icp_context_deinit = deinit_ctx"
definition cam_lrme_context_deinit where "cam_lrme_context_deinit = deinit_ctx"
definition cam_fd_context_deinit where "cam_fd_context_deinit = deinit_ctx"

text \<open>The loop over the contexts; the last result lists those initialised, the latest first.\<close>

fun init_loop :: "(nat \<Rightarrow> ctx_sys \<Rightarrow> ctx_sys \<times> int) \<Rightarrow> nat list \<Rightarrow> nat list \<Rightarrow> ctx_sys \<Rightarrow> ctx_sys \<times> int \<times> nat list" where
  "init_loop ini got [] s = (s, 0, got)"
| "init_loop ini got (i # is) s =
     (let (s1, rc) = ini i s in if rc \<noteq> 0 then (s1, rc, got) else init_loop ini (i # got) is s1)"

definition probe_ctxs ::
  "(nat \<Rightarrow> ctx_sys \<Rightarrow> ctx_sys \<times> int) \<Rightarrow> (bool \<Rightarrow> nat \<Rightarrow> ctx_sys \<Rightarrow> ctx_sys \<times> int) \<Rightarrow> string \<Rightarrow> nat \<Rightarrow> ctx_sys \<Rightarrow> ctx_sys \<times> int" where
  "probe_ctxs ini deinit name n s =
     (let (s1, rc, got) = init_loop ini [] [0..<n] s; undo = fold (\<lambda>i s. fst (deinit True i s)) got in
      if rc \<noteq> 0 then (undo s1, rc)
      else (let (s2, rc) = cam_node_init name n s1 in if rc \<noteq> 0 then (undo s2, rc) else (s2, 0)))"

definition cam_jpeg_dev_probe :: "int \<Rightarrow> int \<Rightarrow> ctx_sys \<Rightarrow> ctx_sys \<times> int" where
  "cam_jpeg_dev_probe subdev mgr s =
     (if subdev \<noteq> 0 then (s, subdev) else if mgr \<noteq> 0 then (s, mgr)
      else probe_ctxs (\<lambda>i. cam_jpeg_context_init i True (of_nat i) (req_base i) (ctx_ptr i)) cam_jpeg_context_deinit ''cam-jpeg'' CAM_CTX_MAX s)"

definition cam_icp_probe :: "bool \<Rightarrow> int \<Rightarrow> bool \<Rightarrow> int \<Rightarrow> ctx_sys \<Rightarrow> ctx_sys \<times> int" where
  "cam_icp_probe pdev subdev alloc mgr s =
     (if \<not> pdev then (s, code EINVAL) else if subdev \<noteq> 0 then (s, subdev) else if \<not> alloc then (s, code EINVAL)
      else if mgr \<noteq> 0 then (s, mgr)
      else probe_ctxs (\<lambda>i. cam_icp_context_init i True (of_nat i) (req_base i)) cam_icp_context_deinit ''cam-icp'' CAM_ICP_CTX_MAX s)"

definition cam_lrme_dev_probe :: "bool \<Rightarrow> int \<Rightarrow> int \<Rightarrow> ctx_sys \<Rightarrow> ctx_sys \<times> int" where
  "cam_lrme_dev_probe alloc subdev mgr s =
     (if \<not> alloc then (s, code ENOMEM) else if subdev \<noteq> 0 then (s, subdev) else if mgr \<noteq> 0 then (s, mgr)
      else probe_ctxs (\<lambda>i. cam_lrme_context_init i True (of_nat i) (req_base i)) cam_lrme_context_deinit ''cam-lrme'' CAM_CTX_MAX s)"

definition cam_fd_dev_probe :: "int \<Rightarrow> int \<Rightarrow> ctx_sys \<Rightarrow> ctx_sys \<times> int" where
  "cam_fd_dev_probe subdev mgr s =
     (if subdev \<noteq> 0 then (s, subdev) else if mgr \<noteq> 0 then (s, mgr)
      else probe_ctxs (\<lambda>i. cam_fd_context_init i True (of_nat i) (req_base i)) cam_fd_context_deinit ''cam-fd'' CAM_CTX_MAX s)"

subsection \<open>Opening and closing\<close>

text \<open>
  \<open>cnt\<close> is the driver's \<^verbatim>\<open>open_cnt\<close>, \<open>node\<close> says that the subdevice has its node, and \<open>ready\<close> that it was probed. A manager's
  \<^verbatim>\<open>hw_open\<close> answers \<open>fw\<close>.
\<close>

definition cam_jpeg_subdev_open :: "u32 \<Rightarrow> u32 \<times> int" where
  "cam_jpeg_subdev_open cnt = (cnt + 1, 0)"

definition cam_jpeg_subdev_close :: "ctx_env \<Rightarrow> bool \<Rightarrow> u32 \<Rightarrow> ctx_sys \<Rightarrow> (ctx_sys \<times> u32) \<times> int" where
  "cam_jpeg_subdev_close env node cnt s =
     (if sint cnt \<le> 0 then ((s, cnt), code EINVAL)
      else if \<not> node then ((s, cnt - 1), code EINVAL)
      else ((if cnt - 1 = 0 then fst (cam_node_shutdown env s) else s, cnt - 1), 0))"

definition cam_icp_subdev_open :: "bool \<Rightarrow> int \<Rightarrow> u32 \<Rightarrow> u32 \<times> int" where
  "cam_icp_subdev_open node fw cnt =
     (if 1 \<le> sint cnt then (cnt, code EALREADY)
      else if \<not> node then (cnt, code EINVAL)
      else if fw < 0 then (cnt, fw)
      else (cnt + 1, fw))"

definition cam_icp_subdev_close :: "ctx_env \<Rightarrow> bool \<Rightarrow> u32 \<Rightarrow> ctx_sys \<Rightarrow> (ctx_sys \<times> u32) \<times> int" where
  "cam_icp_subdev_close env node cnt s =
     (if sint cnt \<le> 0 then ((s, cnt), 0)
      else if \<not> node then ((s, cnt - 1), 0)
      else ((fst (cam_node_shutdown env s), cnt - 1), 0))"

definition cam_lrme_dev_open :: "bool \<Rightarrow> u32 \<Rightarrow> u32 \<times> int" where
  "cam_lrme_dev_open ready cnt = (if \<not> ready then (cnt, code ENODEV) else (cnt + 1, 0))"

definition cam_lrme_dev_close :: "ctx_env \<Rightarrow> bool \<Rightarrow> bool \<Rightarrow> u32 \<Rightarrow> ctx_sys \<Rightarrow> (ctx_sys \<times> u32) \<times> int" where
  "cam_lrme_dev_close env ready node cnt s =
     (if \<not> ready then ((s, cnt), code ENODEV)
      else if cnt = 0 then ((s, cnt), code EINVAL)
      else if \<not> node then ((s, cnt - 1), code EINVAL)
      else ((if cnt - 1 = 0 then fst (cam_node_shutdown env s) else s, cnt - 1), 0))"

definition cam_fd_dev_open :: "bool \<Rightarrow> u32 \<Rightarrow> u32 \<times> int" where
  "cam_fd_dev_open ready cnt = (if \<not> ready then (cnt, code ENODEV) else (cnt + 1, 0))"

definition cam_fd_dev_close :: "ctx_env \<Rightarrow> bool \<Rightarrow> bool \<Rightarrow> u32 \<Rightarrow> ctx_sys \<Rightarrow> (ctx_sys \<times> u32) \<times> int" where
  "cam_fd_dev_close env ready node cnt s =
     (if \<not> ready then ((s, cnt), code ENODEV)
      else if \<not> node then ((s, cnt - 1), code EINVAL)
      else ((fst (cam_node_shutdown env s), cnt - 1), 0))"

text \<open>A page fault is shown to every context of the node; \<open>token\<close> is the node.\<close>

definition fault_handler :: "ctx_env \<Rightarrow> bool \<Rightarrow> u64 \<Rightarrow> u32 \<Rightarrow> ctx_sys \<Rightarrow> ctx_sys" where
  "fault_handler env token iova b s =
     (if \<not> token then s else fold (\<lambda>i s. fst (cam_context_dump_pf_info env i iova b s)) [0..<ctx_size s] s)"

definition cam_jpeg_dev_iommu_fault_handler where "cam_jpeg_dev_iommu_fault_handler = fault_handler"
definition cam_icp_dev_iommu_fault_handler where "cam_icp_dev_iommu_fault_handler = fault_handler"

text \<open>The LRME manager names a context by the index in the upper half of its map.\<close>

definition cam_lrme_dev_buf_done_cb :: "ctx_env \<Rightarrow> ptr \<Rightarrow> u32 \<Rightarrow> u64 option \<Rightarrow> ctx_sys \<Rightarrow> ctx_sys \<times> int" where
  "cam_lrme_dev_buf_done_cb env hw_map evt_id data s = cam_context_handle_hw_event env (unat (drop_bit 32 hw_map)) evt_id data s"

subsection \<open>A probed node\<close>

text \<open>The state before a probe: no callback is outstanding and the static memory of the requests is clear.\<close>

definition before_probe :: "ctx_sys \<Rightarrow> bool" where
  "before_probe s \<longleftrightarrow> cbs_inv (sy s) \<and> outstanding (sy s) = {#} \<and> \<not> corrupt s \<and> (\<forall>r. reqs s r = zero_request)"

definition fresh_ctx :: "ctx_machine \<Rightarrow> nat \<Rightarrow> cam_context \<Rightarrow> bool" where
  "fresh_ctx m c x \<longleftrightarrow> cx_active x = [] \<and> cx_pending x = [] \<and> cx_wait x = [] \<and> cx_free x = [req_base c..<req_base c + CAM_CTX_REQ_MAX] \<and>
     cx_base x = req_base c \<and> cx_size x = CAM_CTX_REQ_MAX \<and> cx_intf x \<and> cx_state x = CAM_CTX_AVAILABLE \<and> cx_machine x = Some m \<and> cx_refs x = 0"

definition booted :: "ctx_machine \<Rightarrow> nat \<Rightarrow> ctx_sys \<Rightarrow> ctx_sys \<Rightarrow> bool" where
  "booted m k s0 s \<longleftrightarrow> sy s = sy s0 \<and> corrupt s = corrupt s0 \<and> (\<forall>c<k. fresh_ctx m c (ctxs s c)) \<and>
     (\<forall>r. \<not> rq_flushed (reqs s r) \<and> (case rq_ctx (reqs s r) of None \<Rightarrow> True | Some c \<Rightarrow> c < k \<and> r \<in> set [req_base c..<req_base c + CAM_CTX_REQ_MAX]))"

lemma fold_upd_req [simp]:
  "sy (fold (\<lambda>r. upd_req r f) rs s) = sy s" "corrupt (fold (\<lambda>r. upd_req r f) rs s) = corrupt s" "ctxs (fold (\<lambda>r. upd_req r f) rs s) = ctxs s"
  "ctx_size (fold (\<lambda>r. upd_req r f) rs s) = ctx_size s"
  by (induction rs arbitrary: s) simp_all

lemma fold_upd_req_reqs:
  "distinct rs \<Longrightarrow> reqs (fold (\<lambda>r. upd_req r f) rs s) x = (if x \<in> set rs then f (reqs s x) else reqs s x)"
  by (induction rs arbitrary: s) auto

text \<open>The initialisation of one context, in what the invariant reads.\<close>

definition init_spec :: "ctx_machine \<Rightarrow> nat \<Rightarrow> ctx_sys \<Rightarrow> ctx_sys \<times> int \<Rightarrow> bool" where
  "init_spec m c s res \<longleftrightarrow> snd res = 0 \<and> sy (fst res) = sy s \<and> corrupt (fst res) = corrupt s \<and> fresh_ctx m c (ctxs (fst res) c) \<and>
     (\<forall>d. d \<noteq> c \<longrightarrow> ctxs (fst res) d = ctxs s d) \<and>
     (\<forall>r. if r \<in> set [req_base c..<req_base c + CAM_CTX_REQ_MAX]
          then rq_ctx (reqs (fst res) r) = Some c \<and> (rq_flushed (reqs (fst res) r) \<longrightarrow> rq_flushed (reqs s r))
          else reqs (fst res) r = reqs s r)"

lemmas init_defs = cam_context_init_def set_machine_def init_spec_def fresh_ctx_def fold_upd_req_reqs zero_request_def

lemma init_specs:
  "init_spec JPEG_machine c s (cam_jpeg_context_init c True i (req_base c) p s)"
  "init_spec ICP_machine c s (cam_icp_context_init c True i (req_base c) s)"
  "init_spec LRME_machine c s (cam_lrme_context_init c True i (req_base c) s)"
  "init_spec FD_machine c s (cam_fd_context_init c True i (req_base c) s)"
  by (simp_all add: cam_jpeg_context_init_def cam_icp_context_init_def cam_lrme_context_init_def cam_fd_context_init_def init_defs)

lemma req_base_apart: "r \<in> set [req_base c..<req_base c + CAM_CTX_REQ_MAX] \<Longrightarrow> r \<in> set [req_base d..<req_base d + CAM_CTX_REQ_MAX] \<Longrightarrow> c = d"
  by (auto simp: req_base_def)

lemma init_loop_booted:
  assumes "\<And>c s. init_spec m c s (ini c s)" "booted m k s0 s"
  shows "\<exists>t got. init_loop ini g [k..<k + n] s = (t, 0, got) \<and> booted m (k + n) s0 t"
  using assms(2)
proof (induction n arbitrary: k g s)
  case (Suc n)
  obtain s1 rc where i: "ini k s = (s1, rc)" by fastforce
  have sp: "init_spec m k s (s1, rc)" using assms(1) [of k s] i by simp
  have "booted m (Suc k) s0 s1" unfolding booted_def
  proof (intro conjI allI impI)
    show "sy s1 = sy s0" "corrupt s1 = corrupt s0" using sp Suc.prems by (simp_all add: init_spec_def booted_def)
    show "fresh_ctx m c (ctxs s1 c)" if "c < Suc k" for c
      using sp Suc.prems that by (cases "c = k") (simp_all add: init_spec_def booted_def)
    show "\<not> rq_flushed (reqs s1 r)" "case rq_ctx (reqs s1 r) of None \<Rightarrow> True | Some c \<Rightarrow> c < Suc k \<and> r \<in> set [req_base c..<req_base c + CAM_CTX_REQ_MAX]" for r
    proof -
      have a: "if r \<in> set [req_base k..<req_base k + CAM_CTX_REQ_MAX]
          then rq_ctx (reqs s1 r) = Some k \<and> (rq_flushed (reqs s1 r) \<longrightarrow> rq_flushed (reqs s r)) else reqs s1 r = reqs s r"
        using sp unfolding init_spec_def fst_conv by blast
      have "\<not> rq_flushed (reqs s r) \<and> (case rq_ctx (reqs s r) of None \<Rightarrow> True | Some c \<Rightarrow> c < k \<and> r \<in> set [req_base c..<req_base c + CAM_CTX_REQ_MAX])"
        using Suc.prems unfolding booted_def by blast
      with a show "\<not> rq_flushed (reqs s1 r)" "case rq_ctx (reqs s1 r) of None \<Rightarrow> True | Some c \<Rightarrow> c < Suc k \<and> r \<in> set [req_base c..<req_base c + CAM_CTX_REQ_MAX]"
        by (auto split: option.splits if_splits)
    qed
  qed
  from Suc.IH [OF this, of "k # g"] sp i show ?case by (simp add: upt_conv_Cons init_spec_def del: upt_Suc)
qed simp

lemma booted_ok:
  assumes s0: "before_probe s0" and b: "booted m n s0 s"
  shows "ctx_ok (fst (cam_node_init name n s)) \<and> states_ok (fst (cam_node_init name n s)) \<and> snd (cam_node_init name n s) = 0 \<and>
    ctx_size (fst (cam_node_init name n s)) = n \<and> free_ctx_list (fst (cam_node_init name n s)) = [0..<n] \<and>
    sy (fst (cam_node_init name n s)) = sy s0"
proof -
  define t where "t = fst (cam_node_init name n s)"
  have c: "fresh_ctx m c (ctxs s c)" if "c < n" for c using b that by (simp add: booted_def)
  have ready: "takeWhile (\<lambda>i. cx_machine (ctxs s i) \<noteq> None) [0..<n] = [0..<n]"
    using c by (auto simp: takeWhile_eq_all_conv fresh_ctx_def)
  have t: "sy t = sy s0" "corrupt t = corrupt s0" "ctxs t = ctxs s" "reqs t = reqs s" "ctx_size t = n" "free_ctx_list t = [0..<n]"
    using b ready by (simp_all add: t_def cam_node_init_def Let_def booted_def)
  have z: "outstanding (sy t) = {#}" using s0 by (simp add: before_probe_def t)
  have p: "pool (ctxs t c) = set [req_base c..<req_base c + CAM_CTX_REQ_MAX]" if "c < n" for c
    using c [OF that] by (auto simp: pool_def fresh_ctx_def t)
  have r: "\<not> rq_flushed (reqs t q)" "case rq_ctx (reqs t q) of None \<Rightarrow> True | Some c \<Rightarrow> c < n \<and> q \<in> set [req_base c..<req_base c + CAM_CTX_REQ_MAX]" for q
    using b by (simp_all add: booted_def t)
  have "ctx_ok t"
  proof (rule ctx_invI)
    show "cbs_inv (sy t)" "\<not> corrupt t" using s0 by (simp_all add: before_probe_def t)
    show "req_ok {} {} t q" for q using r [of q] p c z by (auto simp: req_ok_def cbs_def fresh_ctx_def t(3,5) split: option.split)
    show "lists_ok {} t d" if "d < ctx_size t" for d
      using that c [of d] p [of d] r(1) by (simp add: lists_ok_def on_lists_def flying_def t(3,5) fresh_ctx_def)
    show "refs_ok (\<lambda>_. 0) t d" if "d < ctx_size t" for d
      using that c [of d] z by (simp add: refs_ok_def ctx_cbs_def own_def t(3,5) fresh_ctx_def)
    have "pool (ctxs t a) \<inter> pool (ctxs t d) = {}" if "a < n" "d < n" "a \<noteq> d" for a d
      unfolding p [OF that(1)] p [OF that(2)] using req_base_apart that(3) by blast
    then show "pools_ok t" unfolding pools_ok_def using c by (simp add: t(3,5) fresh_ctx_def)
    show "free_ok t" using c by (auto simp: free_ok_def t fresh_ctx_def)
  qed
  moreover have "states_ok t" using c by (simp add: states_ok_def state_ok_def graph_of_def t fresh_ctx_def)
  moreover have "snd (cam_node_init name n s) = 0" unfolding cam_node_init_def Let_def ready by simp
  ultimately show ?thesis using t(1,5,6) by (simp add: t_def)
qed

lemma probe_ctxs_ok:
  assumes s0: "before_probe s0" and ini: "\<And>c s. init_spec m c s (ini c s)"
  shows "\<exists>t. probe_ctxs ini deinit name n s0 = (t, 0) \<and> ctx_ok t \<and> states_ok t \<and> ctx_size t = n \<and> free_ctx_list t = [0..<n] \<and> sy t = sy s0"
proof -
  have "booted m 0 s0 s0" using s0 by (simp add: booted_def before_probe_def zero_request_def)
  from init_loop_booted [of m ini 0 s0 s0 "[]" n, OF ini this] obtain u got
    where u: "init_loop ini [] [0..<n] s0 = (u, 0, got)" "booted m n s0 u" by auto
  obtain t rc where t: "cam_node_init name n u = (t, rc)" by fastforce
  from booted_ok [OF s0 u(2), of name] t u(1) show ?thesis by (simp add: probe_ctxs_def)
qed

end
