(* ===== verification/Cam_Ctx_Run.thy ===== *)
theory Cam_Ctx_Run
  imports Cam_Ctx_Probe
begin

text \<open>
  The node of a driver as a transition system: commands of user space, completions and page faults of the hardware,
  the worker of the sync driver, other users of the fences and the last close, in any order; every one keeps the
  invariant of the requests and the references, and the graph of the states.
\<close>

subsection \<open>Commands\<close>

text \<open>The device handle a command carries, if it carries one.\<close>

fun cmd_dev :: "node_cmd \<Rightarrow> u32 option" where
  "cmd_dev (Node_start (Some (se, d))) = Some d"
| "cmd_dev (Node_stop (Some (se, d))) = Some d"
| "cmd_dev (Node_config (Some k)) = Some (cd_dev k)"
| "cmd_dev (Node_release (Some (se, d))) = Some d"
| "cmd_dev (Node_flush (Some (se, d, ty, rid))) = Some d"
| "cmd_dev (Node_dump (Some (se, d, k))) = Some d"
| "cmd_dev _ = None"

text \<open>A handle that the table knows is that of a context of this node which is acquired.\<close>

definition names_ctx :: "node_cmd \<Rightarrow> ctx_sys \<Rightarrow> bool" where
  "names_ctx cmd s = (case cmd_dev cmd of None \<Rightarrow> True
     | Some d \<Rightarrow> (case crm_ctx d s of None \<Rightarrow> True | Some c \<Rightarrow> c < ctx_size s \<and> own (ctxs s c) = 1))"

lemma node_ctx_crm: "node_ctx se d s = Some c \<Longrightarrow> crm_ctx d s = Some c"
  by (auto simp: node_ctx_def crm_ctx_def Let_def split: if_splits)

text \<open>The four drivers have no operations for the hardware commands.\<close>

lemma no_hw_ops: "ctx_ops x = Some ops \<Longrightarrow> op_acquire_hw ops = None \<and> op_release_hw ops = None"
  by (cases "cx_state x") (auto simp: ctx_ops_def jpeg_ops icp_ops lrme_ops fd_ops split: option.splits ctx_machine.splits)

lemma hw_ioctl_same:
  "fst (hw_ioctl v m k (cam_node_handle_acquire_hw env) s) = s" "fst (hw_ioctl v m k (cam_node_handle_release_hw env) s) = s"
  by (auto simp: hw_ioctl_def cam_node_handle_acquire_hw_def cam_node_handle_release_hw_def cam_context_handle_acquire_hw_def
      cam_context_handle_release_hw_def dispatch_op_def no_hw_ops split: option.split)

definition node_ok :: "ctx_sys \<Rightarrow> bool" where
  "node_ok s \<longleftrightarrow> ctx_ok s \<and> states_ok s"

inductive ctx_step :: "ctx_sys \<Rightarrow> ctx_sys \<Rightarrow> bool" where
  ioctl: "clean_env env s \<Longrightarrow> hw_release (ce_hw env) \<Longrightarrow> names_ctx cmd s \<Longrightarrow> ctx_step s (fst (cam_node_handle_ioctl env back cmd s))"
| hw_event: "c < ctx_size s \<Longrightarrow> ctx_step s (fst (cam_context_handle_hw_event env c evt d s))"
| page_fault: "ctx_step s (fault_handler env token iova b s)"
| worker: "\<not> ce_irq env \<Longrightarrow> ctx_step s (sync_worker env s)"
| fence: "fence_step (sy s) y \<Longrightarrow> ctx_step s (s\<lparr>sy := y\<rparr>)"
| closed: "\<not> ce_irq env \<Longrightarrow> hw_release (ce_hw env) \<Longrightarrow> ctx_step s (fst (cam_node_shutdown env s))"

subsection \<open>Dispatched operations keep the graph\<close>

lemma handle_states:
  assumes "states_ok s"
  shows "states_ok (fst (cam_context_handle_start_dev env c se s))" "states_ok (fst (cam_context_handle_stop_dev env c s))"
    "states_ok (fst (cam_context_handle_release_dev env c s))" "states_ok (fst (cam_context_handle_acquire_dev env c a s))"
proof -
  have u: "states_ok (upd_ctx c (\<lambda>x. x\<lparr>cx_last_flush := 0\<rparr>) t)" if "states_ok t" for t
    using that by (subst states_ok_same) (simp_all add: graph_upd_ctx)
  have r: "states_ok (reset_lists c t)" if "states_ok t" for t using that by (subst states_ok_same) simp_all
  show "states_ok (fst (cam_context_handle_start_dev env c se s))"
    using assms op_start_states by (auto simp: cam_context_handle_start_dev_def split: option.split)
  show "states_ok (fst (cam_context_handle_release_dev env c s))"
    using assms op_release_states by (auto simp: cam_context_handle_release_dev_def split: option.split)
  show "states_ok (fst (cam_context_handle_stop_dev env c s))"
    using assms op_stop_states [OF _ _ assms, of c _ _ env] u by (fastforce simp: cam_context_handle_stop_dev_def Let_def split: option.split prod.split)
  show "states_ok (fst (cam_context_handle_acquire_dev env c a s))"
    using assms op_acquire_states [OF _ _ assms, of c _ _ env a] r by (fastforce simp: cam_context_handle_acquire_dev_def Let_def split: option.split prod.split)
qed

lemma handle_graph [simp]:
  "graph_of (fst (cam_context_handle_hw_event env c evt d s)) = graph_of s"
  "graph_of (fst (cam_context_handle_flush_dev env c fl s)) = graph_of s"
  "graph_of (fst (cam_context_handle_dump_dev env c k s)) = graph_of s"
  by (auto simp: cam_context_handle_hw_event_def op_irq_table cam_context_handle_flush_dev_def op_flush_table
      cam_context_handle_dump_dev_def op_dump_table split: option.split prod.split)

lemma pf_graph [simp]: "graph_of (fst (cam_context_dump_pf_info env c iova b s)) = graph_of s"
proof (cases "ctx_ops (ctxs s c)")
  case (Some ops)
  then show ?thesis using op_pagefault_table [OF Some, of _ env c iova b s]
    by (auto simp: cam_context_dump_pf_info_def split: option.split)
qed (simp add: cam_context_dump_pf_info_def)

lemma config_graph [simp]: "graph_of (fst (cam_context_handle_config_dev env c k s)) = graph_of s"
proof -
  have "graph_of (fst (cam_icp_config_dev_in_ready env c k s)) = graph_of s"
    by (auto simp: cam_icp_config_dev_in_ready_def Let_def split: option.split prod.split)
  then show ?thesis by (auto simp: cam_context_handle_config_dev_def dest!: op_config_table split: option.split)
qed

subsection \<open>Commands keep the invariant\<close>

lemma putref_back:
  assumes "ctx_inv {} {} {} ((\<lambda>_. 0)(c := 1)) s" "c < ctx_size s"
  shows "ctx_ok (cam_context_putref c s)"
  using putref_inv [OF assms, of 0] by (simp add: fun_upd_idem)

lemma acquire_ok:
  assumes "node_ok s"
  shows "node_ok (fst (cam_node_handle_acquire_dev env cmd s))"
proof (cases "cmd = None \<or> cam_node_get_ctxt_from_free_list s = None")
  case True
  then show ?thesis using assms by (auto simp: cam_node_handle_acquire_dev_def)
next
  case False
  then obtain s1 c where get: "cam_node_get_ctxt_from_free_list s = Some (s1, c)" by auto
  define s2 where "s2 = upd_ctx c (\<lambda>x. x\<lparr>cx_last_flush := 0\<rparr>) s1"
  have ok: "ctx_ok s" "states_ok s" using assms by (simp_all add: node_ok_def)
  note t = taken_ctx [OF ok(1) get]
  have i2: "ctx_inv {} {} {} ((\<lambda>_. 0)(c := 1)) s2" unfolding s2_def using t(1) by (simp add: ctx_inv_upd_ctx list_view_def)
  have c2: "c < ctx_size s2" "own (ctxs s2 c) = 0" "ctx_cbs s2 c = 0" using t(2-4) by (simp_all add: s2_def ctx_cbs_def)
  have "graph_of s1 = graph_of s"
    using get by (auto simp: cam_node_get_ctxt_from_free_list_def graph_upd_ctx split: list.splits)
  then have g: "states_ok s2" using ok(2) states_ok_same [of s1 s] states_ok_same [of s2 s1] by (simp add: s2_def graph_upd_ctx)
  obtain s3 rc h where a: "cam_context_handle_acquire_dev env c cmd s2 = (s3, rc, h)" by (metis prod_cases3)
  note ha = handle_acquire_inv [OF i2 c2 a]
  have g3: "states_ok s3" using handle_states(4) [OF g, of env c cmd] a by simp
  have "ctx_ok (cam_context_putref c s3)" if "rc \<noteq> 0"
    by (rule putref_back) (use ha that c2(1) in simp_all)
  moreover have "states_ok (cam_context_putref c s3)" using g3 states_ok_same [of "cam_context_putref c s3" s3] by simp
  ultimately show ?thesis
    using False get a ha g3 by (auto simp: cam_node_handle_acquire_dev_def node_ok_def s2_def)
qed

text \<open>A release of an acquired context succeeds.\<close>

lemma release_succeeds:
  assumes inv: "ctx_ok s" and c: "c < ctx_size s" and env: "\<not> ce_irq env" "hw_release (ce_hw env)"
    and ops: "ctx_ops (ctxs s c) = Some ops" "op_release_dev ops \<noteq> None"
  shows "snd (cam_context_handle_release_dev env c s) = 0" "ctx_size (fst (cam_context_handle_release_dev env c s)) = ctx_size s"
proof -
  obtain f where f: "op_release_dev ops = Some f" using ops(2) by auto
  let ?st = "set_state c CAM_CTX_ACQUIRED (fst (cam_context_stop_dev_to_hw env c s))"
  have i: "ctx_ok ?st" by (rule stopped [OF inv c]) (use op_release_table [OF ops(1) f] in blast)
  have c': "c < ctx_size ?st" using c by (simp add: stop_frame)
  obtain s1 where s1: "cam_context_stop_dev_to_hw env c s = (s1, 0)" using stop_ok [OF inv c env(1)] by (metis prod.collapse)
  obtain s2 where s2: "cam_context_release_dev_to_hw env c s = (s2, 0)" using release_to_hw_ok [OF inv c env(2)] by (metis prod.collapse)
  obtain s3 where s3: "cam_context_release_dev_to_hw env c ?st = (s3, 0)" using release_to_hw_ok [OF i c' env(2)] by (metis prod.collapse)
  have z: "ctx_size s1 = ctx_size s" "ctx_size s2 = ctx_size s" "ctx_size s3 = ctx_size s"
    using stop_frame(2) [of env c s] release_to_hw_inv(2) [of env c s] release_to_hw_inv(2) [of env c ?st] s1 s2 s3 by simp_all
  show "snd (cam_context_handle_release_dev env c s) = 0" "ctx_size (fst (cam_context_handle_release_dev env c s)) = ctx_size s"
    using op_release_table [OF ops(1) f] s1 s2 s3 z ops(1) f
    by (auto simp: jpeg_ops icp_ops lrme_ops fd_ops cam_context_handle_release_dev_def)
qed

lemma released:
  assumes s: "node_ok s" and c: "c < ctx_size s" "own (ctxs s c) = 1" and env: "\<not> ce_irq env" "hw_release (ce_hw env)"
  shows "node_ok (cam_context_putref c (fst (cam_context_handle_release_dev env c s)))" "snd (cam_context_handle_release_dev env c s) = 0"
    "ctx_size (fst (cam_context_handle_release_dev env c s)) = ctx_size s"
proof -
  let ?t = "fst (cam_context_handle_release_dev env c s)"
  have ok: "ctx_ok s" "states_ok s" using s by (simp_all add: node_ok_def)
  obtain ops where o: "ctx_ops (ctxs s c) = Some ops" "op_release_dev ops \<noteq> None" using release_present [OF ok(2) c] by blast
  note rs = release_succeeds [OF ok(1) c(1) env o]
  show "snd (cam_context_handle_release_dev env c s) = 0" "ctx_size ?t = ctx_size s" by (rule rs)+
  have "ctx_inv {} {} {} ((\<lambda>_. 0)(c := 1)) ?t" using handle_release_inv [OF ok(1) c(1) env o] by simp
  then have "ctx_ok (cam_context_putref c ?t)" by (rule putref_back) (use rs(2) c(1) in simp)
  moreover have "states_ok ?t" by (rule handle_states(3) [OF ok(2)])
  ultimately show "node_ok (cam_context_putref c ?t)" using states_ok_same [of "cam_context_putref c ?t" ?t] by (simp add: node_ok_def)
qed

lemma node_ok_other:
  "node_ok (s\<lparr>ht := h\<rparr>) = node_ok s" "node_ok (upd_ctx c (\<lambda>x. x\<lparr>cx_dev_hdl := v\<rparr>) s) = node_ok s" "node_ok (call_hw k s) = node_ok s"
  using states_ok_same [of "s\<lparr>ht := h\<rparr>" s] states_ok_same [of "upd_ctx c (\<lambda>x. x\<lparr>cx_dev_hdl := v\<rparr>) s" s] states_ok_same [of "call_hw k s" s]
  by (simp_all add: node_ok_def graph_upd_ctx ctx_inv_upd_ctx list_view_def own_def)

lemma release_dev_ok:
  assumes s: "node_ok s" and n: "names_ctx (Node_release (Some (se, d))) s" and env: "\<not> ce_irq env" "hw_release (ce_hw env)"
  shows "node_ok (fst (cam_node_handle_release_dev env se d s))"
proof (cases "node_ctx se d s")
  case (Some c)
  have c: "c < ctx_size s" "own (ctxs s c) = 1" using n node_ctx_crm [OF Some] by (simp_all add: names_ctx_def)
  from released(1) [OF s c env] s show ?thesis
    by (auto simp: cam_node_handle_release_dev_def Some Let_def node_ok_other split: prod.split)
qed (use s in \<open>simp add: cam_node_handle_release_dev_def\<close>)

lemma shutdown_ctx_ok:
  assumes s: "node_ok s" "c < ctx_size s" and env: "\<not> ce_irq env" "hw_release (ce_hw env)"
  shows "node_ok (shutdown_ctx env c s) \<and> ctx_size (shutdown_ctx env c s) = ctx_size s"
proof (cases "cx_state (ctxs s c) \<in> {CAM_CTX_UNINIT, CAM_CTX_AVAILABLE}")
  case False
  then have "own (ctxs s c) = 1" by (simp add: own_def)
  note r = released [OF s this env]
  obtain t rc where t: "cam_context_handle_release_dev env c s = (t, rc)" by fastforce
  from r t s False show ?thesis by (auto simp: shutdown_ctx_def cam_context_shutdown_def Let_def node_ok_other split: prod.split)
qed (use s in \<open>auto simp: shutdown_ctx_def cam_context_shutdown_def Let_def node_ok_other split: prod.split\<close>)

lemma shutdown_loop_ok:
  assumes "\<not> ce_irq env" "hw_release (ce_hw env)"
  shows "node_ok s \<Longrightarrow> \<forall>c \<in> set cs. c < ctx_size s \<Longrightarrow> node_ok (fold (shutdown_ctx env) cs s)"
proof (induction cs arbitrary: s)
  case (Cons c cs)
  have "node_ok (shutdown_ctx env c s) \<and> ctx_size (shutdown_ctx env c s) = ctx_size s"
    by (rule shutdown_ctx_ok [OF Cons.prems(1) _ assms]) (use Cons.prems(2) in simp)
  then show ?case using Cons.IH [of "shutdown_ctx env c s"] Cons.prems(2) by simp
qed simp

lemma fault_handler_ok: "node_ok s \<Longrightarrow> node_ok (fault_handler env token iova b s)"
proof -
  have "node_ok (fold (\<lambda>i s. fst (cam_context_dump_pf_info env i iova b s)) cs s)" if "node_ok s" for cs s
    using that
  proof (induction cs arbitrary: s)
    case (Cons c cs)
    have "node_ok (fst (cam_context_dump_pf_info env c iova b s))"
      using Cons.prems handle_pf_inv [of "{}" "{}" "{}" "\<lambda>_. 0" s] states_ok_same [OF pf_graph] by (simp add: node_ok_def)
    then show ?case using Cons.IH by simp
  qed simp
  then show ?thesis if "node_ok s" using that by (simp add: fault_handler_def)
qed

lemma named_ok:
  assumes s: "node_ok s" and c: "c < ctx_size s" and env: "clean_env env s"
  shows "node_ok (fst (cam_context_handle_start_dev env c st s))" "node_ok (fst (cam_context_handle_stop_dev env c s))"
    "node_ok (fst (cam_context_handle_config_dev env c k s))" "node_ok (fst (cam_context_handle_flush_dev env c fl s))"
    "node_ok (fst (cam_context_handle_dump_dev env c du s))"
proof -
  have ok: "ctx_ok s" "states_ok s" using s by (simp_all add: node_ok_def)
  show "node_ok (fst (cam_context_handle_start_dev env c st s))" "node_ok (fst (cam_context_handle_stop_dev env c s))"
    using handle_start_inv [OF ok(1)] handle_stop_inv [OF ok(1) c] handle_states [OF ok(2)] by (simp_all add: node_ok_def)
  show "node_ok (fst (cam_context_handle_config_dev env c k s))" "node_ok (fst (cam_context_handle_flush_dev env c fl s))"
    "node_ok (fst (cam_context_handle_dump_dev env c du s))"
    using handle_config_inv [OF ok(1) c env] handle_flush_inv [OF ok(1) c] handle_dump_inv [OF ok(1)]
      states_ok_same [OF config_graph] states_ok_same [OF handle_graph(2)] states_ok_same [OF handle_graph(3)] ok(2)
    by (simp_all add: node_ok_def)
qed

lemma dump_dev_crm: "cam_node_handle_dump_dev env se d k s = (s, code EINVAL, 0) \<or>
    (\<exists>c. crm_ctx d s = Some c \<and> cam_node_handle_dump_dev env se d k s = cam_context_handle_dump_dev env c (Some k) s)"
  by (auto simp: cam_node_handle_dump_dev_def crm_ctx_def Let_def)

lemma ioctl_ok:
  assumes s: "node_ok s" and n: "names_ctx cmd s" and env: "clean_env env s" "hw_release (ce_hw env)"
  shows "node_ok (fst (cam_node_handle_ioctl env back cmd s))"
proof -
  have irq: "\<not> ce_irq env" using env(1) by (simp add: clean_env_def)
  note nm = named_ok [OF s _ env(1)]
  have z: "\<forall>d c. cmd_dev cmd = Some d \<longrightarrow> crm_ctx d s = Some c \<longrightarrow> c < ctx_size s" using n by (auto simp: names_ctx_def)
  show ?thesis
  proof (cases cmd)
    case (Node_acquire a)
    then show ?thesis using acquire_ok [OF s, of env a] s by (cases a) (auto simp: cam_node_handle_ioctl_def split: prod.split)
  next
    case (Node_release a)
    then show ?thesis using release_dev_ok [OF s _ irq env(2)] n s by (cases a) (auto simp: cam_node_handle_ioctl_def)
  next
    case (Node_start a)
    then show ?thesis using z s by (cases a) (auto simp: cam_node_handle_ioctl_def cam_node_handle_start_dev_def dest!: node_ctx_crm intro!: nm(1) split: option.split)
  next
    case (Node_stop a)
    then show ?thesis using z s by (cases a) (auto simp: cam_node_handle_ioctl_def cam_node_handle_stop_dev_def dest!: node_ctx_crm intro!: nm(2) split: option.split)
  next
    case (Node_config a)
    then show ?thesis using z s by (cases a) (auto simp: cam_node_handle_ioctl_def cam_node_handle_config_dev_def dest!: node_ctx_crm intro!: nm(3) split: option.split)
  next
    case (Node_flush a)
    then show ?thesis using z s by (cases a) (auto simp: cam_node_handle_ioctl_def cam_node_handle_flush_dev_def dest!: node_ctx_crm intro!: nm(4) split: option.split)
  next
    case (Node_dump a)
    show ?thesis
    proof (cases a)
      case (Some x)
      obtain se d k where x: "x = (se, d, k)" by (cases x)
      have "node_ok (fst (cam_node_handle_dump_dev env se d k s))"
        using dump_dev_crm [of env se d k s] z s Node_dump Some x by (cases k) (auto intro: nm(5))
      then show ?thesis using Node_dump Some x by (auto simp: cam_node_handle_ioctl_def split: prod.split)
    qed (use Node_dump s in \<open>simp add: cam_node_handle_ioctl_def\<close>)
  next
    case (Node_acquire_hw v m k)
    then show ?thesis using s hw_ioctl_same(1) [of v m k env s] by (auto simp: cam_node_handle_ioctl_def split: prod.split)
  next
    case (Node_release_hw v m k)
    then show ?thesis using s hw_ioctl_same(2) [of v m k env s] by (simp add: cam_node_handle_ioctl_def)
  qed (use s in \<open>simp_all add: cam_node_handle_ioctl_def\<close>)
qed

lemma ctx_step_ok:
  assumes "node_ok s" "ctx_step s t"
  shows "node_ok t"
  using assms(2)
proof cases
  have ok: "ctx_ok s" "states_ok s" using assms(1) by (simp_all add: node_ok_def)
  case (hw_event c env evt d)
  then show ?thesis using handle_irq_inv [OF ok(1)] states_ok_same [OF handle_graph(1)] ok(2) by (simp add: node_ok_def)
next
  case (worker env)
  have "ctx_ok s" "states_ok s" using assms(1) by (simp_all add: node_ok_def)
  then show ?thesis using worker worker_inv [of "\<lambda>_. 0" s env] states_ok_same [OF graph_worker] by (simp add: node_ok_def)
next
  case (fence y)
  have "states_ok (s\<lparr>sy := y\<rparr>) = states_ok s" by (rule states_ok_same) simp
  then show ?thesis using fence fence_step_inv assms(1) by (simp add: node_ok_def)
next
  case (closed env)
  then show ?thesis using shutdown_loop_ok [OF closed(2,3) assms(1), of "[0..<ctx_size s]"] by (simp add: cam_node_shutdown_def Let_def node_ok_other)
qed (use assms(1) ioctl_ok fault_handler_ok in blast)+

text \<open>What a probe of one of the drivers leaves.\<close>

definition probed :: "ctx_sys \<Rightarrow> bool" where
  "probed t \<longleftrightarrow> (\<exists>s. before_probe s \<and> (t, 0) \<in> {cam_jpeg_dev_probe 0 0 s, cam_icp_probe True 0 True 0 s, cam_lrme_dev_probe True 0 0 s, cam_fd_dev_probe 0 0 s})"

lemma probed_ok:
  assumes "probed t"
  shows "node_ok t"
proof -
  obtain s where s: "before_probe s" and
    t: "(t, 0) \<in> {cam_jpeg_dev_probe 0 0 s, cam_icp_probe True 0 True 0 s, cam_lrme_dev_probe True 0 0 s, cam_fd_dev_probe 0 0 s}"
    using assms unfolding probed_def by blast
  have k: "node_ok t" if "(t, 0) = probe_ctxs ini deinit name n s" "\<And>c s. init_spec m c s (ini c s)" for ini deinit name n m
    using probe_ctxs_ok [OF s that(2), of deinit name n] that(1) by (simp add: node_ok_def) (metis prod.inject)
  consider "(t, 0) = cam_jpeg_dev_probe 0 0 s" | "(t, 0) = cam_icp_probe True 0 True 0 s" | "(t, 0) = cam_lrme_dev_probe True 0 0 s" |
    "(t, 0) = cam_fd_dev_probe 0 0 s" using t by blast
  then show ?thesis
    by cases (rule k, simp add: cam_jpeg_dev_probe_def cam_icp_probe_def cam_lrme_dev_probe_def cam_fd_dev_probe_def, rule init_specs)+
qed

interpretation node: machine probed ctx_step node_ok
  by unfold_locales (auto intro: probed_ok ctx_step_ok)

end
