(* ===== verification/Cam_Ctx_Props.thy ===== *)
theory Cam_Ctx_Props
  imports Cam_Ctx_Run Cam_Sync_Findings
begin

text \<open>
  What the context framework promises of every run of a probed node, and what it loses when a packet names an input fence
  that is not valid.
\<close>

subsection \<open>Every run of a node\<close>




subsection \<open>A packet with an invalid input fence\<close>

text \<open>
  The request is put on the pending list before its input fences are checked, and the error path adds it to the free list
  without taking it off: it is linked in two lists.
\<close>

lemma put_refs_lists: "ctxs (put_refs fs s) = ctxs s" "corrupt (put_refs fs s) = corrupt s"
  by (induction fs arbitrary: s) (simp_all add: put_refs_def)

theorem invalid_fence_corrupts:
  assumes "get_refs (rq_out (reqs s r)) 0 s = (s1, 0, i)" "rq_in (reqs s r) \<noteq> []" "check_valid_all (sy s1) (rq_in (reqs s r)) = Inl e"
  shows "\<exists>t. submit_req env c r h s = (t, code e) \<and> corrupt t \<and> r \<in> set (cx_pending (ctxs t c)) \<and> r \<in> set (cx_free (ctxs t c))"
  using assms
  by (simp add: submit_req_def Let_def free_cpu_buf_def free_req_def put_cpu_def add_pending_def add_free_def mark_corrupt_def
      put_refs_lists linked_in_def)

subsection \<open>A node of the face detection\<close>










end
