(* ===== verification/Spec2Isabelle.thy ===== *)
theory Spec2Isabelle
  imports Cam_Packet_Util Cam_Crm_Recover Cam_Sync_Props Cam_Sync_Findings Cam_Hdl_Table Cam_Workq Cam_Hfi Cam_Cdm_Util Cam_Ctx_Props
begin

text \<open>
  A verification of the core of the camera kernel drivers, \<^verbatim>\<open>src/drivers\<close>.

  \<^bold>\<open>The program.\<close> User space drives a camera through a request manager. It opens a session, links the devices of a
  pipeline, and schedules requests on the link; every device reports to the manager when it has what it needs for a
  request, and at every start of frame the manager hands each device the request that is due for it, as many frames ahead as
  the pipeline delay of the device asks for. Sessions, links and devices are named by handles of a shared table. Work is
  done by worker queues that take tasks from a fixed pool. Buffers come from a memory manager with a table of its own.
  Completion is announced with fences, which can be merged into groups, by a sync driver. The drivers of JPEG, ICP, LRME and
  face detection share a framework of contexts: a packet becomes a request that waits for its input fences, goes to the
  hardware, and signals its output fences when it is done. Hardware blocks are programmed
  with buffers of commands in the language of the CDM, and the image processor ICP is firmware that is talked to through
  queues in shared memory.

  \<^bold>\<open>The theories and the sources.\<close>
  \<^item> \<open>Cam_Prelude\<close>: machine types, error codes, the kernel's bitmap search, and three interfaces as locales: \<open>machine\<close>
    (a state machine with an invariant), \<open>id_allocator\<close> (a table that hands out indices) and \<open>handle_store\<close>
    (a table of entries named by handles). Each is interpreted on the tables of the components below.
  \<^item> \<open>Cam_Sync\<close>, \<open>Cam_Sync_Util\<close>, \<open>Cam_Sync_Links\<close>, \<open>Cam_Sync_Inv\<close>, \<open>Cam_Sync_Signal\<close>, \<open>Cam_Sync_Life\<close>,
    \<open>Cam_Sync_Table\<close>, \<open>Cam_Sync_Props\<close>, \<open>Cam_Sync_Findings\<close>: the sync driver, \<^verbatim>\<open>cam_sync/cam_sync.c\<close> and
    \<^verbatim>\<open>cam_sync_util.c\<close>. The state \<open>sync_device\<close> is the device with its table of rows, bitmap, queued callbacks and events; the
    operations are the exported functions and the ioctls, with the work they queue as an explicit list. Two invariants hold
    in the reachable states: \<open>table_inv\<close>, on bitmap, row states and the range of links, in every one of them, and
    \<open>sync_inv\<close>, which also ties the links and counts of groups and children together, until a merged fence is reset, which
    the driver does not refuse. Creation, merging, signaling and destruction are specified on every branch, and a group
    completes when its children have been signaled in any order.
  \<^item> \<open>Cam_Hdl_Table\<close>: \<^verbatim>\<open>cam_req_mgr/cam_req_mgr_util.c\<close>. The table of 64 handles refines a finite map.
  \<^item> \<open>Cam_Workq\<close>: \<^verbatim>\<open>cam_req_mgr/cam_req_mgr_workq.c\<close>, as the loop the worker runs and as interleaved steps of
    clients and worker. No task is lost or duplicated, and a run of the worker whose handlers leave the queue alone ends.
  \<^item> \<open>Cam_Crm\<close>, \<open>Cam_Crm_Process\<close>, \<open>Cam_Crm_Setup\<close>, \<open>Cam_Crm_Session\<close>: the request manager core,
    \<^verbatim>\<open>cam_req_mgr/cam_req_mgr_core.c\<close>, and its timer, \<^verbatim>\<open>cam_req_mgr_timer.c\<close>: links with their input queue of 48 slots
    and their tables by pipeline delay, the tasks of the workers, sessions, linking and unlinking. Devices are called
    through their operations; a call is an entry of the log \<open>calls\<close> with the answer an argument. \<open>Cam_Crm_Traverse\<close>, \<open>Cam_Crm_Inv\<close>,
    \<open>Cam_Crm_Tables\<close> and \<open>Cam_Crm_Props\<close> hold the invariants and the specification of readiness, application and set-up;
    \<open>Cam_Crm_Life\<close>, \<open>Cam_Crm_Work\<close> and \<open>Cam_Crm_Recover\<close> follow sessions, tasks and recovery through several operations.
  \<^item> \<open>Cam_Mem_Mgr\<close>, \<open>Cam_Mem_Props\<close>, \<open>Cam_Mem_Life\<close>: the memory manager, \<^verbatim>\<open>cam_req_mgr/cam_mem_mgr.c\<close>, with the
    resources its calls take kept as ghost state. The locale \<open>slot_table\<close> is its interface to the table of slots.
  \<^item> \<open>Cam_Ring\<close>, \<open>Cam_Hfi\<close>: the queues between host and firmware, \<^verbatim>\<open>cam_icp/hfi.c\<close>. The ring refines a list of
    words: a command is appended as a whole or refused, and a message is taken out. The firmware at the other end is not
    part of the model.
  \<^item> \<open>Cam_Cdm_Util\<close>: \<^verbatim>\<open>cam_cdm/cam_cdm_util.c\<close>: writing a program and interpreting it gives the register writes meant.
  \<^item> \<open>Cam_Common_Util\<close>: \<^verbatim>\<open>cam_utils/cam_common_util.c\<close>.
  \<^item> \<open>Cam_Packet_Util\<close>: \<^verbatim>\<open>cam_utils/cam_packet_util.c\<close>, over memory as bytes: the checks of packets and
    descriptors, the patching of addresses, the walk over blobs and the buffer set aside for the driver, with what each of
    them keeps inside the buffers it names.
  \<^item> \<open>Cam_Ctx\<close>, \<open>Cam_Ctx_Dev\<close>, \<open>Cam_Ctx_Node\<close>, \<open>Cam_Ctx_Probe\<close>: the context framework, \<^verbatim>\<open>cam_core/cam_context_utils.c\<close>,
    \<^verbatim>\<open>cam_context.c\<close> and \<^verbatim>\<open>cam_node.c\<close>, with the state machines and device nodes of JPEG, ICP, LRME and face detection. The
    hardware manager of a driver is a record of its answers, and the calls it gets are logged. \<open>Cam_Ctx_Cbs\<close> states what
    the framework relies on of the fences as the locale \<open>fence_callbacks\<close> and interprets it on the fence table;
    \<open>Cam_Ctx_Inv\<close>, \<open>Cam_Ctx_Move\<close>, \<open>Cam_Ctx_Ops\<close>, \<open>Cam_Ctx_Steps\<close>, \<open>Cam_Ctx_Submit\<close>, \<open>Cam_Ctx_Machine\<close>, \<open>Cam_Ctx_Fences\<close>
    and \<open>Cam_Ctx_Graph\<close> show that every operation keeps the invariant of requests, callbacks, references and states;
    \<open>Cam_Ctx_Run\<close> puts them together as a transition system and \<open>Cam_Ctx_Props\<close> holds what it promises.

  \<^bold>\<open>How the code is modelled.\<close> A structure is a record, an enumeration a datatype, an integer a word of its width where
  it can wrap and a number where the code bounds it. A function returns its state beside its result, so what was written
  before an error stays written. Locks that only serialise are left out; where a path returns with a lock held or frees one it
  does not hold, the lock is part of the state. What code outside the modelled files returns (memory allocation, devices,
  buffers, firmware, the random byte of a handle) is an argument, with what is assumed of it a hypothesis of the theorem.

  \<^bold>\<open>Loops and bounds.\<close> Loops over arrays are recursions or folds over the index range, and loops with a moving index are
  functions with a measure. The interpreter of CDM commands and the worker run with fuel; fuel for each command of a program
  and for each pending task is shown to be enough. The walk over blobs adds 32-bit numbers without a check, so it is a partial
  function, shown to return for lengths below \<open>2 ^ 32 - 2 ^ 24 - 8\<close>, where the sums cannot wrap. Merged fences do not nest, so
  signaling goes one level up. The links of a session are bounded by the array of four, the handles by the table of 64, the
  contexts of a node by the array of its driver.

  \<^bold>\<open>What is not modelled.\<close> The registration of device nodes and the copying of ioctl arguments; the SMMU driver beyond what
  it does to references; the ISP context; the hardware managers and register blocks of ISP, ICP, JPEG, LRME, FD and CPAS, whose
  behaviour is that of the hardware; the removal of drivers; sensor modules, which are transfers on a bus; logging and debugfs;
  the vendored v4l2loopback. Memory ordering and preemption inside one operation are outside the model but for the task
  queues, where steps interleave.
\<close>

end
